(* ===== verification/Prelude.thy ===== *)
theory Prelude
  imports Main "HOL-Library.Word" "HOL-Library.Char_ord" "HOL-Library.Sublist"
begin

text \<open>
  Prelude of the development: the machine types, the named fact collections, the
  C library's character classification (in the "C" locale, on bytes), C string access,
  and the lemmas on lists and words that several components share.
\<close>

unbundle bit_operations_syntax

section \<open>Machine types\<close>

type_synonym u8 = "8 word"
type_synonym u16 = "16 word"
type_synonym u32 = "32 word"
type_synonym u64 = "64 word"

text \<open>Facts about the source cursor and about the frame conditions of the state machine's handlers.\<close>

named_theorems cursor_simps
named_theorems frame_simps

section \<open>Characters\<close>

text \<open>A C++ \<open>char\<close> is a byte, a \<open>string\<close> a list of bytes; \<open>NUL\<close> ends a C string.\<close>

abbreviation NUL :: char where
  "NUL \<equiv> CHR 0x00"

abbreviation NL :: char where
  "NL \<equiv> CHR 0x0A"

abbreviation CR :: char where
  "CR \<equiv> CHR 0x0D"

abbreviation TAB :: char where
  "TAB \<equiv> CHR 0x09"

abbreviation BSLASH :: char where
  "BSLASH \<equiv> CHR 0x5C"

abbreviation DQUOTE :: char where
  "DQUOTE \<equiv> CHR 0x22"

abbreviation SQUOTE :: char where
  "SQUOTE \<equiv> CHR 0x27"

definition char_nat :: "char \<Rightarrow> nat" where
  "char_nat c = of_char c"

definition nat_char :: "nat \<Rightarrow> char" where
  "nat_char n = char_of n"

definition c_isdigit :: "char \<Rightarrow> bool" where
  "c_isdigit c \<longleftrightarrow> 48 \<le> char_nat c \<and> char_nat c \<le> 57"

definition c_isupper :: "char \<Rightarrow> bool" where
  "c_isupper c \<longleftrightarrow> 65 \<le> char_nat c \<and> char_nat c \<le> 90"

definition c_islower :: "char \<Rightarrow> bool" where
  "c_islower c \<longleftrightarrow> 97 \<le> char_nat c \<and> char_nat c \<le> 122"

definition c_isalpha :: "char \<Rightarrow> bool" where
  "c_isalpha c \<longleftrightarrow> c_isupper c \<or> c_islower c"

definition c_isalnum :: "char \<Rightarrow> bool" where
  "c_isalnum c \<longleftrightarrow> c_isalpha c \<or> c_isdigit c"

definition c_isspace :: "char \<Rightarrow> bool" where
  "c_isspace c \<longleftrightarrow> c = CHR '' '' \<or> (9 \<le> char_nat c \<and> char_nat c \<le> 13)"

definition c_toupper :: "char \<Rightarrow> char" where
  "c_toupper c = (if c_islower c then nat_char (char_nat c - 32) else c)"

definition c_tolower :: "char \<Rightarrow> char" where
  "c_tolower c = (if c_isupper c then nat_char (char_nat c + 32) else c)"

text \<open>The value of a hexadecimal digit, for the scanning functions of the C library.\<close>

definition hexval :: "char \<Rightarrow> nat option" where
  "hexval c =
     (if c_isdigit c then Some (char_nat c - 48)
      else if 65 \<le> char_nat c \<and> char_nat c \<le> 70 then Some (char_nat c - 55)
      else if 97 \<le> char_nat c \<and> char_nat c \<le> 102 then Some (char_nat c - 87)
      else None)"

text \<open>The digit characters \<open>%02x\<close> and \<open>%02X\<close> print.\<close>

definition hexdigit_lower :: "nat \<Rightarrow> char" where
  "hexdigit_lower n = (if n < 10 then nat_char (48 + n) else nat_char (87 + n))"

definition hexdigit_upper :: "nat \<Rightarrow> char" where
  "hexdigit_upper n = (if n < 10 then nat_char (48 + n) else nat_char (55 + n))"

lemma char_nat_bound [simp]: "char_nat c < 256"
  by (simp add: char_nat_def)

lemma nat_char_char_nat [simp]: "nat_char (char_nat c) = c"
  by (simp add: char_nat_def nat_char_def)

lemma char_nat_nat_char [simp]: "n < 256 \<Longrightarrow> char_nat (nat_char n) = n"
  by (simp add: char_nat_def nat_char_def)

lemma char_nat_inj: "char_nat c = char_nat d \<longleftrightarrow> c = d"
  by (simp add: char_nat_def)

section \<open>C strings\<close>

text \<open>
  \<open>cstr s\<close> is what \<open>s.c_str()\<close> shows to a C function: the bytes up to the first
  \<open>NUL\<close>. \<open>chr_at s i\<close> is the byte a pointer \<open>i\<close> bytes into it points to, the terminator included.
\<close>

definition cstr :: "string \<Rightarrow> string" where
  "cstr s = takeWhile (\<lambda>c. c \<noteq> NUL) s"

definition chr_at :: "string \<Rightarrow> nat \<Rightarrow> char" where
  "chr_at s i = (if i < length s then s ! i else NUL)"

lemma chr_at_Nil [simp]: "chr_at [] i = NUL"
  by (simp add: chr_at_def)

lemma chr_at_Cons_0 [simp]: "chr_at (c # s) 0 = c"
  by (simp add: chr_at_def)

lemma chr_at_Cons_Suc [simp]: "chr_at (c # s) (Suc i) = chr_at s i"
  by (simp add: chr_at_def)

lemma chr_at_drop: "chr_at (drop n s) i = chr_at s (n + i)"
  by (auto simp: chr_at_def add.commute)

lemma chr_at_append_left: "i < length s \<Longrightarrow> chr_at (s @ t) i = chr_at s i"
  by (simp add: chr_at_def nth_append)

lemma chr_at_append_right: "chr_at (s @ t) (length s + i) = chr_at t i"
  by (simp add: chr_at_def nth_append)

lemma cstr_Nil [simp]: "cstr [] = []"
  by (simp add: cstr_def)

lemma cstr_no_NUL: "NUL \<notin> set s \<Longrightarrow> cstr s = s"
  unfolding cstr_def by (rule takeWhile_eq_all_conv [THEN iffD2]) auto

lemma NUL_notin_cstr [simp]: "NUL \<notin> set (cstr s)"
  unfolding cstr_def by (auto dest: set_takeWhileD)

lemma cstr_cstr [simp]: "cstr (cstr s) = cstr s"
  by (rule cstr_no_NUL) simp

section \<open>Lists\<close>

text \<open>\<open>string::substr(pos, n)\<close> for a position within the string.\<close>

definition substr :: "'a list \<Rightarrow> nat \<Rightarrow> nat \<Rightarrow> 'a list" where
  "substr s pos n = take n (drop pos s)"

text \<open>\<open>string::find(pattern, pos)\<close>: the least position from \<open>pos\<close> on where the pattern occurs.\<close>

fun find_at :: "'a list \<Rightarrow> 'a list \<Rightarrow> nat \<Rightarrow> nat option" where
  "find_at p [] i = (if p = [] then Some i else None)"
| "find_at p (c # s) i = (if prefix p (c # s) then Some i else find_at p s (Suc i))"

definition find_from :: "'a list \<Rightarrow> 'a list \<Rightarrow> nat \<Rightarrow> nat option" where
  "find_from s p pos = (if pos \<le> length s then find_at p (drop pos s) pos else None)"

lemma find_at_Some:
  "find_at p s i = Some j \<Longrightarrow> i \<le> j \<and> j \<le> i + length s \<and> prefix p (drop (j - i) s)"
proof (induction p s i rule: find_at.induct)
  case (1 p i)
  then show ?case by (auto split: if_splits)
next
  case (2 p c s i)
  show ?case
  proof (cases "prefix p (c # s)")
    case True
    with "2.prems" show ?thesis by auto
  next
    case False
    with "2.prems" have "find_at p s (Suc i) = Some j" by simp
    with "2.IH" [OF False] have "Suc i \<le> j" "j \<le> Suc i + length s" "prefix p (drop (j - Suc i) s)"
      by auto
    then show ?thesis by (auto simp: Suc_diff_le drop_Cons' Suc_le_eq)
  qed
qed

lemma find_from_Some:
  "find_from s p pos = Some j \<Longrightarrow> pos \<le> j \<and> j + length p \<le> length s \<and> take (length p) (drop j s) = p"
proof -
  assume a: "find_from s p pos = Some j"
  then have b: "pos \<le> length s" and f: "find_at p (drop pos s) pos = Some j"
    by (auto simp: find_from_def split: if_splits)
  from find_at_Some [OF f] have r: "pos \<le> j" "j \<le> length s" "prefix p (drop j s)"
    using b by auto
  then have "length p \<le> length (drop j s)" and "take (length p) (drop j s) = p"
    by (auto simp: prefix_length_le dest: prefix_length_le) (auto elim: prefixE)
  with r show ?thesis by auto
qed

section \<open>Bytes of words\<close>

lemma and_255: "w AND 0xFF = take_bit 8 (w :: 'a::len word)"
  by (simp add: take_bit_eq_mask mask_eq_exp_minus_1 and.commute)

lemma unat_byte: "unat (take_bit 8 w :: 'a::len word) < 256"
  using take_bit_nat_less_exp [of 8 "unat w"] by (simp add: unsigned_take_bit_eq)

lemma push_byte: "n < 256 \<Longrightarrow> push_bit 8 x + of_nat n = push_bit 8 x OR take_bit 8 (of_nat n :: 'a::len word)"
proof -
  assume "n < 256"
  then have "take_bit 8 n = n" by (simp add: take_bit_nat_eq_self_iff)
  then have e: "of_nat n = take_bit 8 (of_nat n :: 'a word)" by (metis take_bit_of_nat)
  have "push_bit 8 x + take_bit 8 (of_nat n) = push_bit 8 x OR take_bit 8 (of_nat n :: 'a word)"
    by (rule disjunctive_add) (auto simp: bit_simps)
  with e show ?thesis by simp
qed

lemma byte_step: "push_bit 8 (take_bit k (drop_bit 8 w)) OR take_bit 8 w = take_bit (k + 8) (w :: 'a::len word)"
proof (rule bit_word_eqI)
  fix n
  assume "n < LENGTH('a)"
  then show "bit (push_bit 8 (take_bit k (drop_bit 8 w)) OR take_bit 8 w) n = bit (take_bit (k + 8) w) n"
    by (cases "n < 8") (auto simp: bit_simps not_less)
qed

end
