(* ===== verification/F64.thy ===== *)
theory F64
  imports Prelude Complex_Main
begin

text \<open>
  The C++ \<open>double\<close> (IEEE 754 binary64, round to nearest even), as far as the sources use
  it: a finite value is the rational it denotes, negative zero is kept apart, and every
  operation is the exact rational operation followed by rounding.
\<close>

section \<open>Values and rounding\<close>

datatype f64 = F_NaN | F_Inf bool | F_NZero | F_Fin rat

fun bitlen :: "nat \<Rightarrow> nat" where
  "bitlen n = (if n = 0 then 0 else Suc (bitlen (n div 2)))"

declare bitlen.simps [simp del]

definition pow2 :: "int \<Rightarrow> rat" where
  "pow2 e = (if 0 \<le> e then 2 ^ nat e else 1 / 2 ^ nat (- e))"

text \<open>\<open>ilog2 a\<close> is the exponent \<open>e\<close> with \<open>pow2 e \<le> a < pow2 (e + 1)\<close> of a positive rational.\<close>

definition ilog2 :: "rat \<Rightarrow> int" where
  "ilog2 a = (let (n, d) = quotient_of a;
                  k = int (bitlen (nat n)) - int (bitlen (nat d))
              in if pow2 k \<le> a then k else k - 1)"

definition round_half_even :: "rat \<Rightarrow> int" where
  "round_half_even r =
     (let f = \<lfloor>r\<rfloor>; d = r - of_int f
      in if d < 1/2 then f else if 1/2 < d then f + 1 else if even f then f else f + 1)"

definition f64_round :: "bool \<Rightarrow> rat \<Rightarrow> f64" where
  "f64_round neg q =
     (if q = 0 then (if neg then F_NZero else F_Fin 0)
      else let a = \<bar>q\<bar>; s = max (ilog2 a - 52) (-1074);
               v = of_int (round_half_even (a / pow2 s)) * pow2 s
           in if 2 ^ 1024 \<le> v then F_Inf (q < 0)
              else if v = 0 then (if q < 0 then F_NZero else F_Fin 0)
              else F_Fin (if q < 0 then - v else v))"

section \<open>Operations\<close>

definition f64_of_int :: "int \<Rightarrow> f64" where
  "f64_of_int n = f64_round False (of_int n)"

fun f64_rat :: "f64 \<Rightarrow> rat" where
  "f64_rat (F_Fin q) = q"
| "f64_rat _ = 0"

fun f64_neg_sign :: "f64 \<Rightarrow> bool" where
  "f64_neg_sign F_NaN = False"
| "f64_neg_sign (F_Inf n) = n"
| "f64_neg_sign F_NZero = True"
| "f64_neg_sign (F_Fin q) = (q < 0)"

fun f64_minus :: "f64 \<Rightarrow> f64" where
  "f64_minus F_NaN = F_NaN"
| "f64_minus (F_Inf n) = F_Inf (\<not> n)"
| "f64_minus F_NZero = F_Fin 0"
| "f64_minus (F_Fin q) = (if q = 0 then F_NZero else F_Fin (- q))"

fun f64_add :: "f64 \<Rightarrow> f64 \<Rightarrow> f64" where
  "f64_add F_NaN _ = F_NaN"
| "f64_add _ F_NaN = F_NaN"
| "f64_add (F_Inf a) (F_Inf b) = (if a = b then F_Inf a else F_NaN)"
| "f64_add (F_Inf a) _ = F_Inf a"
| "f64_add _ (F_Inf b) = F_Inf b"
| "f64_add a b = f64_round (a = F_NZero \<and> b = F_NZero) (f64_rat a + f64_rat b)"

definition f64_sub :: "f64 \<Rightarrow> f64 \<Rightarrow> f64" where
  "f64_sub a b = f64_add a (f64_minus b)"

fun f64_mul :: "f64 \<Rightarrow> f64 \<Rightarrow> f64" where
  "f64_mul F_NaN _ = F_NaN"
| "f64_mul _ F_NaN = F_NaN"
| "f64_mul (F_Inf a) b = (if b = F_NZero \<or> b = F_Fin 0 then F_NaN else F_Inf (a \<noteq> f64_neg_sign b))"
| "f64_mul a (F_Inf b) = (if a = F_NZero \<or> a = F_Fin 0 then F_NaN else F_Inf (f64_neg_sign a \<noteq> b))"
| "f64_mul a b = f64_round (f64_neg_sign a \<noteq> f64_neg_sign b) (f64_rat a * f64_rat b)"

fun f64_div :: "f64 \<Rightarrow> f64 \<Rightarrow> f64" where
  "f64_div F_NaN _ = F_NaN"
| "f64_div _ F_NaN = F_NaN"
| "f64_div (F_Inf a) (F_Inf b) = F_NaN"
| "f64_div (F_Inf a) b = F_Inf (a \<noteq> f64_neg_sign b)"
| "f64_div a (F_Inf b) = (if f64_neg_sign a \<noteq> b then F_NZero else F_Fin 0)"
| "f64_div a b =
     (if f64_rat b = 0 then (if f64_rat a = 0 then F_NaN else F_Inf (f64_neg_sign a \<noteq> f64_neg_sign b))
      else f64_round (f64_neg_sign a \<noteq> f64_neg_sign b) (f64_rat a / f64_rat b))"

text \<open>The comparisons: every comparison with a NaN is false, the two zeros are equal.\<close>

fun f64_eq :: "f64 \<Rightarrow> f64 \<Rightarrow> bool" where
  "f64_eq F_NaN _ = False"
| "f64_eq _ F_NaN = False"
| "f64_eq (F_Inf a) (F_Inf b) = (a = b)"
| "f64_eq (F_Inf a) _ = False"
| "f64_eq _ (F_Inf b) = False"
| "f64_eq a b = (f64_rat a = f64_rat b)"

fun f64_less :: "f64 \<Rightarrow> f64 \<Rightarrow> bool" where
  "f64_less F_NaN _ = False"
| "f64_less _ F_NaN = False"
| "f64_less (F_Inf a) (F_Inf b) = (a \<and> \<not> b)"
| "f64_less (F_Inf a) _ = a"
| "f64_less _ (F_Inf b) = (\<not> b)"
| "f64_less a b = (f64_rat a < f64_rat b)"

definition f64_is_zero :: "f64 \<Rightarrow> bool" where
  "f64_is_zero a \<longleftrightarrow> f64_eq a (F_Fin 0)"

definition trunc_rat :: "rat \<Rightarrow> int" where
  "trunc_rat q = (if q < 0 then - \<lfloor>- q\<rfloor> else \<lfloor>q\<rfloor>)"

text \<open>
  The conversion to a signed integer truncates. Out of range it is undefined in C++; the
  model returns what the x86-64 instruction does, the smallest value of the type.
\<close>

definition f64_to_int :: "nat \<Rightarrow> f64 \<Rightarrow> int" where
  "f64_to_int w a =
     (case a of
        F_Fin q \<Rightarrow> (let t = trunc_rat q in if - (2 ^ (w - 1)) \<le> t \<and> t < 2 ^ (w - 1) then t else - (2 ^ (w - 1)))
      | F_NZero \<Rightarrow> 0
      | _ \<Rightarrow> - (2 ^ (w - 1)))"

section \<open>Integers up to two to the 53 are exact\<close>

lemma bitlen_bounds: "0 < n \<Longrightarrow> 2 ^ (bitlen n - 1) \<le> n \<and> n < 2 ^ bitlen n \<and> 0 < bitlen n"
proof (induction n rule: bitlen.induct)
  case (1 n)
  show ?case
  proof (cases "n div 2 = 0")
    case True
    with "1.prems" have "n = 1" by auto
    then show ?thesis by (simp add: bitlen.simps)
  next
    case False
    let ?m = "n div 2"
    from False "1" have ih: "2 ^ (bitlen ?m - 1) \<le> ?m" "?m < 2 ^ bitlen ?m" "0 < bitlen ?m" by auto
    have e: "bitlen n = Suc (bitlen ?m)" using "1.prems" by (subst bitlen.simps) simp
    obtain k where k: "bitlen ?m = Suc k" using ih(3) gr0_implies_Suc by blast
    from ih(1) k have "2 ^ k \<le> ?m" by simp
    then have "2 * 2 ^ k \<le> n" by linarith
    moreover from ih(2) have "n < 2 * 2 ^ bitlen ?m" by linarith
    ultimately show ?thesis using e k by simp
  qed
qed

lemma quotient_of_nat: "quotient_of (of_nat n) = (int n, 1)"
  using quotient_of_int [of "int n"] by simp

lemma bitlen_1: "bitlen (Suc 0) = 1"
  by (simp add: bitlen.simps)

lemma ilog2_nat:
  assumes "0 < n"
  shows "ilog2 (of_nat n) = int (bitlen n - 1)"
proof -
  obtain k where k: "bitlen n = Suc k" using bitlen_bounds [OF assms] gr0_implies_Suc by blast
  have "(2::nat) ^ k \<le> n" using bitlen_bounds [OF assms] k by simp
  then have "(of_nat (2 ^ k) :: rat) \<le> of_nat n" by (simp only: of_nat_le_iff)
  then show ?thesis
    by (simp add: ilog2_def quotient_of_nat bitlen_1 k pow2_def)
qed

lemma round_half_even_int [simp]: "round_half_even (of_int n) = n"
  by (simp add: round_half_even_def)

lemma nat_div_pow2: "k \<le> 0 \<Longrightarrow> of_nat n / pow2 k = of_int (int n * 2 ^ nat (- k))"
  by (cases "k = 0") (simp_all add: pow2_def)

lemma pow2_pos [simp]: "0 < pow2 k"
  by (simp add: pow2_def)

lemma f64_round_nat:
  assumes "0 < n" "n \<le> 2 ^ 53"
  shows "\<exists>s. max (ilog2 (of_nat n) - 52) (-1074) = s \<and> (\<exists>m. of_nat n / pow2 s = of_int m)"
proof (cases "n = 2 ^ 53")
  case True
  have "ilog2 (of_nat n) = int (bitlen n - 1)" by (rule ilog2_nat [OF assms(1)])
  moreover have "bitlen n = 54"
  proof -
    have b: "2 ^ (bitlen n - 1) \<le> n" "n < 2 ^ bitlen n" "0 < bitlen n"
      using bitlen_bounds [OF assms(1)] by auto
    from b(2) True have "(2::nat) ^ 53 < 2 ^ bitlen n" by simp
    then have l: "53 < bitlen n" by (rule power_less_imp_less_exp [rotated]) simp
    from b(1) True have "(2::nat) ^ (bitlen n - 1) \<le> 2 ^ 53" by simp
    then have "bitlen n - 1 \<le> 53" by (rule power_le_imp_le_exp [rotated]) simp
    with l show ?thesis by simp
  qed
  ultimately have "max (ilog2 (of_nat n) - 52) (-1074) = 1" by simp
  moreover have "of_nat n / pow2 1 = of_int (2 ^ 52)"
    using True by (simp add: pow2_def)
  ultimately show ?thesis by blast
next
  case False
  with assms have lt: "n < 2 ^ 53" by simp
  have b: "2 ^ (bitlen n - 1) \<le> n" using bitlen_bounds [OF assms(1)] by auto
  then have "(2::nat) ^ (bitlen n - 1) < 2 ^ 53" using lt by (rule le_less_trans)
  then have "bitlen n - 1 < 53" by (rule power_less_imp_less_exp [rotated]) simp
  then have "max (ilog2 (of_nat n) - 52) (-1074) \<le> 0"
    by (simp add: ilog2_nat [OF assms(1)])
  then show ?thesis using nat_div_pow2 by blast
qed

lemma f64_round_of_nat:
  assumes "n \<le> 2 ^ 53"
  shows "f64_round False (of_nat n) = F_Fin (of_nat n)"
proof (cases "n = 0")
  case True
  then show ?thesis by (simp add: f64_round_def)
next
  case False
  then have p: "0 < n" by simp
  from f64_round_nat [OF p assms] obtain s m where
    s: "max (ilog2 (of_nat n) - 52) (-1074) = s" and m: "of_nat n / pow2 s = of_int m" by blast
  have nz: "pow2 s \<noteq> 0" by (metis pow2_pos less_irrefl)
  have v: "of_int (round_half_even (of_nat n / pow2 s)) * pow2 s = of_nat n"
    unfolding m round_half_even_int unfolding m [symmetric] using nz by simp
  have "n < 2 ^ 1024" using assms by (rule le_less_trans) (rule power_strict_increasing; simp)
  then have b: "\<not> (2 ^ 1024 :: rat) \<le> of_nat n"
    by (metis of_nat_le_iff of_nat_numeral of_nat_power not_le)
  have "\<bar>of_nat n :: rat\<bar> = of_nat n" by simp
  with False b v show ?thesis unfolding f64_round_def Let_def s [symmetric] by simp
qed

lemma f64_round_minus: "q \<noteq> 0 \<Longrightarrow> f64_round b (- q) = f64_minus (f64_round b q)"
  by (auto simp: f64_round_def Let_def)

lemma f64_of_int_exact:
  assumes "\<bar>n\<bar> \<le> 2 ^ 53"
  shows "f64_of_int n = F_Fin (of_int n)"
proof (cases "0 \<le> n")
  case True
  then obtain k where k: "n = int k" by (metis nonneg_int_cases)
  with assms have "k \<le> 2 ^ 53" by simp
  from f64_round_of_nat [OF this] k show ?thesis by (simp add: f64_of_int_def)
next
  case False
  define k where "k = nat (- n)"
  with False have n: "n = - int k" and p: "0 < k" by auto
  with assms have "k \<le> 2 ^ 53" by simp
  from f64_round_of_nat [OF this] p n show ?thesis
    by (simp add: f64_of_int_def f64_round_minus)
qed

lemma f64_to_int_of_int:
  assumes "\<bar>n\<bar> \<le> 2 ^ 53"
  shows "f64_to_int 64 (F_Fin (of_int n)) = n"
proof -
  have "trunc_rat (of_int n) = n"
  proof (cases "n < 0")
    case True
    have "\<lfloor>- (of_int n :: rat)\<rfloor> = - n" by (metis floor_of_int of_int_minus)
    with True show ?thesis by (simp add: trunc_rat_def)
  next
    case False
    then show ?thesis by (simp add: trunc_rat_def)
  qed
  moreover have "- (2 ^ 63) \<le> n \<and> n < 2 ^ 63" using assms by (simp add: abs_le_iff)
  ultimately show ?thesis by (simp add: f64_to_int_def)
qed

end
