(* ===== verification/Clib.thy ===== *)
theory Clib
  imports Prelude F64
begin

text \<open>
  The parts of the C library the sources call on text: the conversions of \<open>sscanf\<close>
  (\<open>%lf\<close>, \<open>%d\<close>, \<open>%x\<close>, \<open>%hd\<close>, with \<open>%n\<close> as the count of bytes consumed), and the
  output of \<open>%d\<close>, \<open>%02x\<close>, \<open>%02X\<close> and \<open>%lg\<close>. A conversion takes the text from the
  pointer on and returns the value and the number of bytes consumed; \<open>None\<close> is a
  matching failure, with the input item the longest prefix of a matching sequence.
\<close>

section \<open>Scanning\<close>

fun count_while :: "('a \<Rightarrow> bool) \<Rightarrow> 'a list \<Rightarrow> nat" where
  "count_while P [] = 0"
| "count_while P (x # xs) = (if P x then Suc (count_while P xs) else 0)"

lemma count_while_takeWhile: "count_while P xs = length (takeWhile P xs)"
  by (induction xs) auto

lemma count_while_le: "count_while P xs \<le> length xs"
  by (induction xs) auto

text \<open>The sign, the digits of a base, and the number they denote.\<close>

definition sign_len :: "string \<Rightarrow> nat" where
  "sign_len s = (if chr_at s 0 = CHR ''+'' \<or> chr_at s 0 = CHR ''-'' then 1 else 0)"

definition digits_value :: "nat \<Rightarrow> string \<Rightarrow> nat" where
  "digits_value b ds = foldl (\<lambda>acc c. acc * b + (case hexval c of Some v \<Rightarrow> v | None \<Rightarrow> 0)) 0 ds"

definition is_xdigit :: "char \<Rightarrow> bool" where
  "is_xdigit c \<longleftrightarrow> hexval c \<noteq> None"

definition has_0x :: "string \<Rightarrow> bool" where
  "has_0x s \<longleftrightarrow> chr_at s 0 = CHR ''0'' \<and> c_tolower (chr_at s 1) = CHR ''x''"

text \<open>
  \<open>%x\<close> with a field width: white space is skipped (it does not count for the width), then
  an optional sign, an optional \<open>0x\<close> and hexadecimal digits. The result is the unsigned value
  modulo two to the 32.
\<close>

definition scan_hex :: "nat \<Rightarrow> string \<Rightarrow> (nat \<times> nat) option" where
  "scan_hex width s =
     (let w = count_while c_isspace s;
          f = take width (drop w s);
          g = sign_len f;
          x = (if has_0x (drop g f) then 2 else 0);
          d = drop (g + x) f;
          n = count_while is_xdigit d;
          v = digits_value 16 (take n d);
          r = (if chr_at f 0 = CHR ''-'' then (2 ^ 32 - v mod 2 ^ 32) mod 2 ^ 32 else v mod 2 ^ 32)
      in if n = 0 then None else Some (r, w + g + x + n))"

text \<open>\<open>%d\<close>: the value is given exactly; storing it in the target type is the caller's step.\<close>

definition scan_dec :: "string \<Rightarrow> (int \<times> nat) option" where
  "scan_dec s =
     (let w = count_while c_isspace s;
          f = drop w s;
          g = sign_len f;
          d = drop g f;
          n = count_while c_isdigit d;
          v = int (digits_value 10 (take n d))
      in if n = 0 then None else Some (if chr_at f 0 = CHR ''-'' then - v else v, w + g + n))"

text \<open>
  \<open>%lf\<close>: \<open>inf\<close>, \<open>infinity\<close> and \<open>nan\<close> (any case), a decimal number with optional fraction
  and exponent, or a hexadecimal one after \<open>0x\<close>. \<open>scan_mantissa\<close> reads digits, a dot and digits.
\<close>

definition ci_prefix :: "string \<Rightarrow> string \<Rightarrow> bool" where
  "ci_prefix p s \<longleftrightarrow> prefix p (map c_tolower s)"

definition scan_mantissa :: "(char \<Rightarrow> bool) \<Rightarrow> nat \<Rightarrow> string \<Rightarrow> (rat \<times> nat) option" where
  "scan_mantissa isd b s =
     (let i = count_while isd s;
          dot = (chr_at s i = CHR ''.'');
          t = drop (Suc i) s;
          k = (if dot then count_while isd t else 0);
          v = of_nat (digits_value b (take i s @ take k t)) / of_nat b ^ k
      in if i = 0 \<and> k = 0 then None else Some (v, i + (if dot then Suc k else 0)))"

text \<open>An exponent part: \<open>None\<close> when there is none, \<open>Some None\<close> when it is incomplete.\<close>

definition scan_exponent :: "char \<Rightarrow> string \<Rightarrow> (int \<times> nat) option option" where
  "scan_exponent e s =
     (if c_tolower (chr_at s 0) \<noteq> e then None
      else let f = drop 1 s; g = sign_len f; d = drop g f; n = count_while c_isdigit d;
               v = int (digits_value 10 (take n d))
           in if n = 0 then Some None
              else Some (Some (if chr_at f 0 = CHR ''-'' then - v else v, 1 + g + n)))"

definition rat_pow :: "nat \<Rightarrow> int \<Rightarrow> rat" where
  "rat_pow b e = (if 0 \<le> e then of_nat b ^ nat e else 1 / of_nat b ^ nat (- e))"

definition scan_float :: "string \<Rightarrow> (f64 \<times> nat) option" where
  "scan_float s =
     (let w = count_while c_isspace s;
          f = drop w s;
          neg = (chr_at f 0 = CHR ''-'');
          g = sign_len f;
          u = drop g f
      in if ci_prefix ''infinity'' u then Some (F_Inf neg, w + g + 8)
         else if ci_prefix ''inf'' u \<and> \<not> ci_prefix ''infi'' u then Some (F_Inf neg, w + g + 3)
         else if ci_prefix ''nan'' u then Some (F_NaN, w + g + 3)
         else let hex = has_0x u;
                  x = (if hex then 2 else 0);
                  m = drop x u
              in case scan_mantissa (if hex then is_xdigit else c_isdigit) (if hex then 16 else 10) m of
                   None \<Rightarrow> None
                 | Some (v, l) \<Rightarrow>
                     (case scan_exponent (if hex then CHR ''p'' else CHR ''e'') (drop l m) of
                        None \<Rightarrow> Some (f64_round neg (if neg then - v else v), w + g + x + l)
                      | Some None \<Rightarrow> None
                      | Some (Some (e, el)) \<Rightarrow>
                          let r = v * rat_pow (if hex then 2 else 10) e
                          in Some (f64_round neg (if neg then - r else r), w + g + x + l + el)))"

section \<open>Printing\<close>

fun dec_digits :: "nat \<Rightarrow> string" where
  "dec_digits n = (if n < 10 then [nat_char (48 + n)] else dec_digits (n div 10) @ [nat_char (48 + n mod 10)])"

declare dec_digits.simps [simp del]

definition print_int :: "int \<Rightarrow> string" where
  "print_int i = (if i < 0 then CHR ''-'' # dec_digits (nat (- i)) else dec_digits (nat i))"

definition print_02x :: "nat \<Rightarrow> string" where
  "print_02x n = [hexdigit_lower (n div 16), hexdigit_lower (n mod 16)]"

definition print_02X :: "nat \<Rightarrow> string" where
  "print_02X n = [hexdigit_upper (n div 16), hexdigit_upper (n mod 16)]"

text \<open>
  \<open>%lg\<close>: six significant digits, trailing zeros removed, scientific notation when the decimal
  exponent is below -4 or at least 6.
\<close>

fun ilog10_up :: "nat \<Rightarrow> rat \<Rightarrow> int" where
  "ilog10_up 0 a = 0"
| "ilog10_up (Suc f) a = (if 10 \<le> a then 1 + ilog10_up f (a / 10) else 0)"

fun ilog10_down :: "nat \<Rightarrow> rat \<Rightarrow> int" where
  "ilog10_down 0 a = 0"
| "ilog10_down (Suc f) a = (if a < 1 then ilog10_down f (a * 10) - 1 else 0)"

text \<open>A finite double is below \<open>10 ^ 309\<close> and, when not zero, above \<open>10 ^ -324\<close>, so 400 steps are enough.\<close>

definition ilog10 :: "rat \<Rightarrow> int" where
  "ilog10 a = (if 1 \<le> a then ilog10_up 400 a else ilog10_down 400 a)"

definition strip_zeros :: "string \<Rightarrow> string" where
  "strip_zeros ds = rev (dropWhile (\<lambda>c. c = CHR ''0'') (rev ds))"

definition join_fraction :: "string \<Rightarrow> string \<Rightarrow> string" where
  "join_fraction ip fp = (if fp = [] then ip else ip @ ''.'' @ fp)"

definition print_g_pos :: "rat \<Rightarrow> string" where
  "print_g_pos a =
     (let x0 = ilog10 a;
          m0 = round_half_even (a * rat_pow 10 (5 - x0));
          x = (if 10 ^ 6 \<le> m0 then x0 + 1 else x0);
          m = (if 10 ^ 6 \<le> m0 then m0 div 10 else m0);
          ds = dec_digits (nat m)
      in if x < -4 \<or> 6 \<le> x
         then join_fraction (take 1 ds) (strip_zeros (drop 1 ds)) @ ''e'' @
              (if x < 0 then ''-'' else ''+'') @
              (let ed = dec_digits (nat \<bar>x\<bar>) in if length ed < 2 then CHR ''0'' # ed else ed)
         else if 0 \<le> x
         then join_fraction (take (nat x + 1) ds) (strip_zeros (drop (nat x + 1) ds))
         else join_fraction ''0'' (strip_zeros (replicate (nat (- x) - 1) CHR ''0'' @ ds)))"

fun print_g :: "f64 \<Rightarrow> string" where
  "print_g F_NaN = ''nan''"
| "print_g (F_Inf n) = (if n then ''-inf'' else ''inf'')"
| "print_g F_NZero = ''-0''"
| "print_g (F_Fin q) = (if q = 0 then ''0'' else if q < 0 then CHR ''-'' # print_g_pos (- q) else print_g_pos q)"

end
