(* ===== verification/StrUtil.thy ===== *)
theory StrUtil
  imports Prelude Clib
begin

text \<open>
  The string helpers of \<open>utils.cpp\<close>: comparison, case conversion, trimming, abbreviation,
  quoting, splitting into lines, parts and CSV fields, hexadecimal and address conversions.
  A \<open>string\<close> argument is the list of its bytes; a \<open>const char *\<close> is the text from the
  pointer on (read up to the first \<open>NUL\<close>, \<open>cstr\<close>), with \<open>None\<close> for a null pointer where
  the code tests for it. A cursor the code advances is the rest of the text it points to.
\<close>

section \<open>Signed characters\<close>

text \<open>\<open>char\<close> is signed on the modelled ABI (LP64, x86-64): the value an \<open>int\<close> comparison sees.\<close>

definition char_int :: "char \<Rightarrow> int" where
  "char_int c = (if char_nat c < 128 then int (char_nat c) else int (char_nat c) - 256)"

section \<open>Case-insensitive comparison\<close>

text \<open>
  The loop of \<open>strucmp\<close>: \<open>Inl\<close> is its \<open>return\<close> from inside, \<open>Inr (i, s1, s2)\<close> the state
  in which it ends.
\<close>

fun strucmp_loop :: "nat \<Rightarrow> nat \<Rightarrow> string \<Rightarrow> string \<Rightarrow> int + (nat \<times> string \<times> string)" where
  "strucmp_loop len i (a # s1) (b # s2) =
     (if len = 0 \<or> i < len
      then if c_toupper a \<noteq> c_toupper b
           then Inl (if char_int (c_toupper b) < char_int (c_toupper a) then 1 else -1)
           else strucmp_loop len (Suc i) s1 s2
      else Inr (i, a # s1, b # s2))"
| "strucmp_loop len i s1 s2 = Inr (i, s1, s2)"

definition strucmp :: "string option \<Rightarrow> string option \<Rightarrow> nat \<Rightarrow> nat \<Rightarrow> int" where
  "strucmp p1 p2 len1 len2 =
     (let s1 = (case p1 of None \<Rightarrow> [] | Some s \<Rightarrow> cstr s);
          s2 = (case p2 of None \<Rightarrow> [] | Some s \<Rightarrow> cstr s);
          len = (if len1 = 0 then len2 else if len2 = 0 then len1 else if len1 > len2 then len2 else len1)
      in case strucmp_loop len 0 s1 s2 of
           Inl r \<Rightarrow> r
         | Inr (i, r1, r2) \<Rightarrow>
             if ((len1 \<noteq> 0 \<and> i = len1) \<or> r1 = []) \<and> ((len2 \<noteq> 0 \<and> i = len2) \<or> r2 = []) then 0
             else if (if len1 \<noteq> 0 then i < len1 \<and> r1 \<noteq> [] else r1 \<noteq> []) then 1 else -1)"

text \<open>The overloads of \<open>uequals\<close>.\<close>

definition uequals_ptr :: "string \<Rightarrow> string \<Rightarrow> nat \<Rightarrow> nat \<Rightarrow> bool" where
  "uequals_ptr a b len1 len2 \<longleftrightarrow> strucmp (Some a) (Some b) len1 len2 = 0"

definition uequals :: "string \<Rightarrow> string \<Rightarrow> bool" where
  "uequals a b \<longleftrightarrow> strucmp (Some a) (Some b) (length a) 0 = 0"

definition uequals_len :: "string \<Rightarrow> string \<Rightarrow> nat \<Rightarrow> nat \<Rightarrow> bool" where
  "uequals_len a b len1 len2 \<longleftrightarrow> strucmp (Some a) (Some b) len1 len2 = 0"

definition uequals_str :: "string \<Rightarrow> string \<Rightarrow> bool" where
  "uequals_str a b \<longleftrightarrow> strucmp (Some a) (Some b) (length a) (length b) = 0"

section \<open>Case conversion and trimming\<close>

fun case_loop :: "(char \<Rightarrow> char) \<Rightarrow> nat \<Rightarrow> string \<Rightarrow> string" where
  "case_loop f m [] = []"
| "case_loop f m (c # cs) = f c # (if 0 < m \<and> m - 1 = 0 then [] else case_loop f (m - 1) cs)"

definition lowerCase :: "string \<Rightarrow> nat \<Rightarrow> string" where
  "lowerCase s aMaxSize = case_loop c_tolower aMaxSize (cstr s)"

definition upperCase :: "string \<Rightarrow> nat \<Rightarrow> string" where
  "upperCase s aMaxSize = case_loop c_toupper aMaxSize (cstr s)"

fun trim_start :: "string \<Rightarrow> nat \<Rightarrow> nat" where
  "trim_start [] s = s"
| "trim_start (c # cs) s = (if c_isspace c then trim_start cs (Suc s) else s)"

fun trim_end :: "string \<Rightarrow> nat \<Rightarrow> nat" where
  "trim_end a 0 = 0"
| "trim_end a (Suc e) = (if c_isspace (a ! e) then trim_end a e else Suc e)"

text \<open>
  When everything is white space \<open>s\<close> runs to \<open>n\<close> and \<open>e\<close> to 0, so \<open>e-s\<close> wraps around to
  a large unsigned count; \<open>substr(n, huge)\<close> is empty, as \<open>take\<close> of an empty list is.
\<close>

definition trimWhiteSpace :: "string \<Rightarrow> bool \<Rightarrow> bool \<Rightarrow> string" where
  "trimWhiteSpace a aLeading aTrailing =
     (let s = (if aLeading then trim_start a 0 else 0);
          e = (if aTrailing then trim_end a (length a) else length a)
      in substr a s (if s \<le> e then e - s else 2 ^ 64 + e - s))"

section \<open>Abbreviation and single line\<close>

datatype AbbreviationStyle = truncate | middle_ellipsis | end_ellipsis

definition abbreviate :: "string \<Rightarrow> nat \<Rightarrow> AbbreviationStyle \<Rightarrow> string \<times> bool" where
  "abbreviate a aMaxChars aStyle =
     (if aMaxChars < length a
      then if aMaxChars \<le> 3 \<or> aStyle = truncate then (take aMaxChars a, True)
           else if aStyle = middle_ellipsis \<and> 7 \<le> aMaxChars
           then let m = aMaxChars - 3; sz2 = m div 2
                in (substr a 0 (m - sz2) @ ''...'' @ drop (length a - sz2) a, True)
           else (take (aMaxChars - 3) a @ ''...'', True)
      else (a, False))"

definition single_line_ws :: "char \<Rightarrow> bool" where
  "single_line_ws c \<longleftrightarrow> c = CHR '' '' \<or> c = NL \<or> c = CR \<or> c = TAB"

text \<open>A compacted white space character \<open>continue\<close>s before the ellipsis counter is touched.\<close>

fun singleLine_loop :: "bool \<Rightarrow> bool \<Rightarrow> nat \<Rightarrow> string \<Rightarrow> string" where
  "singleLine_loop cws wsrun m [] = []"
| "singleLine_loop cws wsrun m (c # cs) =
     (let ws = single_line_ws c; out = (if ws then CHR '' '' else c)
      in if ws \<and> wsrun \<and> cws then singleLine_loop cws wsrun m cs
         else out # (if m \<noteq> 0
                     then if m - 1 \<le> 3 then ''...'' else singleLine_loop cws ws (m - 1) cs
                     else singleLine_loop cws ws m cs))"

definition singleLine :: "string option \<Rightarrow> bool \<Rightarrow> nat \<Rightarrow> string" where
  "singleLine p aCompactWSRuns aEllipsisAtMax =
     (case p of None \<Rightarrow> [] | Some s \<Rightarrow> singleLine_loop aCompactWSRuns False aEllipsisAtMax (cstr s))"

section \<open>Quoting\<close>

fun shellQuote_loop :: "string \<Rightarrow> string" where
  "shellQuote_loop [] = [SQUOTE]"
| "shellQuote_loop (c # cs) =
     (if c = SQUOTE then [SQUOTE, DQUOTE, SQUOTE, DQUOTE] else []) @ c # shellQuote_loop cs"

definition shellQuote :: "string \<Rightarrow> string" where
  "shellQuote s = SQUOTE # shellQuote_loop (cstr s)"

definition cquote_char :: "char \<Rightarrow> string" where
  "cquote_char c =
     (if c = DQUOTE \<or> c = BSLASH then [BSLASH, c]
      else if c = NL then [BSLASH, CHR ''n'']
      else if c = CR then [BSLASH, CHR ''r'']
      else if c = TAB then [BSLASH, CHR ''t'']
      else if char_int c < 32 then [BSLASH, CHR ''x''] @ print_02x (char_nat c)
      else [c])"

definition cstringQuote :: "string \<Rightarrow> string" where
  "cstringQuote s = DQUOTE # concat (map cquote_char (cstr s)) @ [DQUOTE]"

section \<open>Substitution and search\<close>

text \<open>
  The loop of \<open>string_substitute\<close> over the text and the scan position. It is
  a \<open>partial_function\<close>: with an empty placeholder and no limit it never ends.
\<close>

partial_function (option) substitute_loop ::
    "string \<Rightarrow> string \<Rightarrow> bool \<Rightarrow> int \<Rightarrow> string \<Rightarrow> nat \<Rightarrow> string option" where
  "substitute_loop pat rep unlimited n s i =
     (if 0 < n \<or> unlimited
      then case find_from s pat i of
             None \<Rightarrow> Some s
           | Some j \<Rightarrow>
               substitute_loop pat rep unlimited (n - 1)
                 (take j s @ rep @ drop (j + length pat) s) (j + length rep)
      else Some s)"

definition string_substitute :: "string \<Rightarrow> string \<Rightarrow> string \<Rightarrow> int \<Rightarrow> string option" where
  "string_substitute s pat rep aNumTimes = substitute_loop pat rep (aNumTimes = 0) aNumTimes s 0"

definition pathstring_make_dir :: "string \<Rightarrow> string" where
  "pathstring_make_dir p = (if p \<noteq> [] \<and> last p \<noteq> CHR ''/'' then p @ ''/'' else p)"

definition keyAndValue :: "string \<Rightarrow> char \<Rightarrow> (string \<times> string \<times> bool) option" where
  "keyAndValue s sep =
     (case find_from s [sep] 0 of
        None \<Rightarrow> None
      | Some i \<Rightarrow> let k = trimWhiteSpace (substr s 0 i) True True;
                      v = trimWhiteSpace (drop (i + 1) s) True False
                  in Some (k, v, 0 < length k))"

text \<open>
  \<open>pickTagContents\<close> returns the position and the new contents. The call of \<open>trimWhiteSpace\<close>
  there drops its result, so the contents are not trimmed.
\<close>

definition pickTagContents :: "string \<Rightarrow> string \<Rightarrow> string \<Rightarrow> nat \<Rightarrow> nat \<times> string" where
  "pickTagContents inp tag contents start =
     (case find_from inp (''<'' @ tag) start of
        None \<Rightarrow> (0, contents)
      | Some t \<Rightarrow>
        (case find_from inp ''>'' (t + 1 + length tag) of
           None \<Rightarrow> (0, contents)
         | Some te \<Rightarrow>
             if 1 \<le> te \<and> inp ! (te - 1) = CHR ''/'' then (1, [])
             else (case find_from inp (''</'' @ tag @ ''>'') (te + 1) of
                     None \<Rightarrow> (0, contents)
                   | Some e \<Rightarrow> (e + 2 + length tag + 1, substr inp (te + 1) (e - (te + 1))))))"

section \<open>Lines, parts and CSV fields\<close>

fun line_break :: "string \<Rightarrow> string \<times> string" where
  "line_break [] = ([], [])"
| "line_break (c # cs) =
     (if c = NL \<or> c = CR
      then ([], if c = CR \<and> chr_at cs 0 = NL then drop 1 cs else cs)
      else let (l, r) = line_break cs in (c # l, r))"

text \<open>\<open>None\<close> is the result \<open>false\<close>; otherwise the line and the rest of the text.\<close>

definition nextLine :: "string option \<Rightarrow> (string \<times> string) option" where
  "nextLine p =
     (case p of None \<Rightarrow> None
      | Some s \<Rightarrow> (let t = cstr s in if t = [] then None else Some (line_break t)))"

fun part_break :: "char \<Rightarrow> bool \<Rightarrow> string \<Rightarrow> string \<times> string" where
  "part_break sep eol [] = ([], [])"
| "part_break sep eol (c # cs) =
     (if c = sep then ([], cs)
      else if eol \<and> (c = NL \<or> c = CR) then ([], c # cs)
      else let (l, r) = part_break sep eol cs in (c # l, r))"

definition nextPart :: "string option \<Rightarrow> char \<Rightarrow> bool \<Rightarrow> (string \<times> string) option" where
  "nextPart p sep eol =
     (case p of None \<Rightarrow> None
      | Some s \<Rightarrow> (let t = cstr s in if t = [] then None else Some (part_break sep eol t)))"

text \<open>
  The quoted part of a CSV field: the bytes decoded, and the rest after the closing quote, or
  \<open>None\<close> when the text ends before it.
\<close>

fun csv_quoted :: "string \<Rightarrow> string \<times> string option" where
  "csv_quoted [] = ([], None)"
| "csv_quoted (c # cs) =
     (if c = DQUOTE
      then (case cs of
              d # ds \<Rightarrow> if d = DQUOTE then (let (f, r) = csv_quoted ds in (DQUOTE # f, r)) else ([], Some cs)
            | [] \<Rightarrow> ([], Some []))
      else let (f, r) = csv_quoted cs in (c # f, r))"

definition csv_sep :: "char \<Rightarrow> char \<Rightarrow> bool" where
  "csv_sep sep c \<longleftrightarrow> (if sep \<noteq> NUL then c = sep else c = CHR '';'' \<or> c = CHR '','' \<or> c = TAB)"

fun csv_rest :: "char \<Rightarrow> bool \<Rightarrow> string \<Rightarrow> string \<times> string" where
  "csv_rest sep skip [] = ([], [])"
| "csv_rest sep skip (c # cs) =
     (if csv_sep sep c \<or> c = NL \<or> c = CR then ([], if c = CR \<and> chr_at cs 0 = NL then drop 1 cs else cs)
      else let (f, r) = csv_rest sep skip cs in (if skip then f else c # f, r))"

text \<open>
  The result: \<open>None\<close> for \<open>false\<close>; otherwise the new contents of the field, and the cursor,
  null (\<open>None\<close>) after a quoted field that is not terminated.
\<close>

definition nextCSVField :: "string option \<Rightarrow> string \<Rightarrow> char \<Rightarrow> bool \<Rightarrow> (string \<times> string option) option" where
  "nextCSVField p aField sep aContinueQuoted =
     (case p of None \<Rightarrow> None
      | Some s0 \<Rightarrow>
        (let t = cstr s0 in
         if t = [] then None
         else let fld = (if aContinueQuoted then aField else []);
                  q = (aContinueQuoted \<or> hd t = DQUOTE);
                  u = (if \<not> aContinueQuoted \<and> hd t = DQUOTE then tl t else t)
              in if q
                 then (case csv_quoted u of
                         (f, None) \<Rightarrow> Some (fld @ f, None)
                       | (f, Some r) \<Rightarrow> Some (fld @ f, Some (snd (csv_rest sep True r))))
                 else (let (f, r) = csv_rest sep False u in Some (fld @ f, Some r))))"

section \<open>Hexadecimal and addresses\<close>

text \<open>
  The nibble of a character as the code computes it: \<open>toupper(c)-'0'\<close>, moved down for
  letters, cut to a signed byte each time; valid when the result read as unsigned is at most 15.
\<close>

definition as_schar :: "int \<Rightarrow> int" where
  "as_schar i = (i + 128) mod 256 - 128"

definition hex_nibble :: "char \<Rightarrow> nat option" where
  "hex_nibble c =
     (let v = as_schar (char_int (c_toupper c) - 48);
          w = (if v > 9 then as_schar (v - 65 + 57 + 1) else v);
          u = nat (w mod 256)
      in if u > 15 then None else Some u)"

text \<open>
  The loop of \<open>hexToBinaryString\<close>: \<open>mx\<close> is the byte limit (0 for none), \<open>fn\<close> tells that
  the first nibble is expected, \<open>b\<close> is the nibble collected, \<open>bs\<close> the bytes so far.
\<close>

fun hex_loop :: "bool \<Rightarrow> nat \<Rightarrow> string \<Rightarrow> bool \<Rightarrow> nat \<Rightarrow> string \<Rightarrow> string" where
  "hex_loop sp mx bs fn b [] =
     (if mx \<noteq> 0 \<and> mx \<le> length bs then bs else if sp \<and> \<not> fn then bs @ [nat_char b] else bs)"
| "hex_loop sp mx bs fn b (c # cs) =
     (if mx \<noteq> 0 \<and> mx \<le> length bs then bs
      else if c = CHR ''-'' \<or> c = CHR '':'' \<or> (sp \<and> c = CHR '' '')
      then if sp \<and> \<not> fn then hex_loop sp mx (bs @ [nat_char b]) True b cs else hex_loop sp mx bs fn b cs
      else (case hex_nibble c of
              None \<Rightarrow> bs
            | Some v \<Rightarrow>
                if fn then hex_loop sp mx bs False v cs
                else let b' = (b * 16 + v) mod 256 in hex_loop sp mx (bs @ [nat_char b']) True b' cs))"

definition hexToBinaryString :: "string \<Rightarrow> bool \<Rightarrow> nat \<Rightarrow> string" where
  "hexToBinaryString s aSpacesAllowed aMaxBytes = hex_loop aSpacesAllowed aMaxBytes [] True 0 (cstr s)"

fun hex_bytes :: "char \<Rightarrow> bool \<Rightarrow> string \<Rightarrow> string" where
  "hex_bytes sep first [] = []"
| "hex_bytes sep first (c # cs) =
     (if sep \<noteq> NUL \<and> \<not> first then [sep] else []) @ print_02X (char_nat c) @ hex_bytes sep False cs"

definition binaryToHexString :: "string \<Rightarrow> char \<Rightarrow> string" where
  "binaryToHexString s sep = hex_bytes sep True s"

definition mac_bytes :: "u64 \<Rightarrow> string" where
  "mac_bytes m = map (\<lambda>i. nat_char (unat (drop_bit ((5 - i) * 8) m AND 0xFF))) [0..<6]"

definition macAddressToString :: "u64 \<Rightarrow> char \<Rightarrow> string" where
  "macAddressToString m sep = binaryToHexString (mac_bytes m) sep"

definition stringToMacAddress :: "string \<Rightarrow> bool \<Rightarrow> u64" where
  "stringToMacAddress s aSpacesAllowed =
     (let b = hexToBinaryString s aSpacesAllowed 6
      in if length b = 6 then foldl (\<lambda>m c. push_bit 8 m + of_nat (char_nat c)) 0 b else 0)"

definition ipv4ToString :: "u32 \<Rightarrow> string" where
  "ipv4ToString a =
     print_int (int (unat (drop_bit 24 a AND 0xFF))) @ ''.'' @
     print_int (int (unat (drop_bit 16 a AND 0xFF))) @ ''.'' @
     print_int (int (unat (drop_bit 8 a AND 0xFF))) @ ''.'' @
     print_int (int (unat (a AND 0xFF)))"

text \<open>\<open>%hd\<close> stores the low 16 bits; the conversion to \<open>uint32_t\<close> extends the sign.\<close>

definition scan_hd :: "string \<Rightarrow> (u32 \<times> string) option" where
  "scan_hd s = (case scan_dec s of
                  None \<Rightarrow> None
                | Some (v, n) \<Rightarrow> Some (signed_take_bit 15 (word_of_int v), drop n s))"

definition scan_dot_hd :: "string \<Rightarrow> (u32 \<times> string) option" where
  "scan_dot_hd s = (case s of [] \<Rightarrow> None | c # cs \<Rightarrow> if c = CHR ''.'' then scan_hd cs else None)"

definition stringToIpv4 :: "string \<Rightarrow> u32" where
  "stringToIpv4 s =
     (case scan_hd (cstr s) of
        None \<Rightarrow> 0
      | Some (a, r1) \<Rightarrow>
        (case scan_dot_hd r1 of
           None \<Rightarrow> 0
         | Some (b, r2) \<Rightarrow>
           (case scan_dot_hd r2 of
              None \<Rightarrow> 0
            | Some (c, r3) \<Rightarrow>
              (case scan_dot_hd r3 of
                 None \<Rightarrow> 0
               | Some (d, r4) \<Rightarrow> push_bit 24 a OR push_bit 16 b OR push_bit 8 c OR d))))"

section \<open>GTIN check digit\<close>

fun gtin_sum :: "nat \<Rightarrow> nat \<Rightarrow> nat \<Rightarrow> nat \<Rightarrow> nat" where
  "gtin_sum 0 i g s = s"
| "gtin_sum (Suc n) i g s =
     (let g' = g div 10; dig = g' mod 10
      in gtin_sum n (Suc i) g' (s + (if even i then 3 else 1) * dig))"

definition gtinCheckDigit :: "u64 \<Rightarrow> int" where
  "gtinCheckDigit aGtin =
     (let g = unat aGtin; oldcheck = int (g mod 10); sm = gtin_sum 20 0 g 0; nc = sm mod 10;
          newcheck = (if 0 < nc then 10 - nc else 0)
      in int newcheck - oldcheck)"

end
