(* ===== verification/StrOrder.thy ===== *)
theory StrOrder
  imports StrUtil "HOL-Library.List_Lexorder"
begin

text \<open>
  What \<open>strucmp\<close> decides: without limits the lexicographic order of the upper-cased C strings
  (so \<open>lessStrucmp\<close> orders the keys of the object and variable maps), and with a limit on the
  left text whether its beginning is the given word, ignoring case.
\<close>

section \<open>Case-insensitive order\<close>

definition ckey :: "string \<Rightarrow> int list" where
  "ckey s = map (\<lambda>c. char_int (c_toupper c)) s"

lemma char_int_inj [simp]: "char_int a = char_int b \<longleftrightarrow> a = b"
  using char_nat_bound [of a] char_nat_bound [of b]
  by (auto simp: char_int_def char_nat_inj [symmetric] split: if_splits simp del: char_nat_bound)

lemma char_int_neq: "a \<noteq> b \<Longrightarrow> \<not> char_int b < char_int a \<Longrightarrow> char_int a < char_int b"
  by (metis char_int_inj linorder_less_linear)

lemma ckey_eq: "ckey a = ckey b \<longleftrightarrow> map c_toupper a = map c_toupper b"
  by (induction a arbitrary: b) (auto simp: ckey_def Cons_eq_map_conv map_eq_Cons_conv)

text \<open>The loop compares at most \<open>n\<close> further characters, where \<open>n\<close> is what is left of \<open>len\<close> (all, for 0).\<close>


lemma strucmp_loop_0:
  "(\<exists>r. strucmp_loop 0 i a b = Inl r \<and> ckey a \<noteq> ckey b \<and> r \<noteq> 0 \<and> (r < 0 \<longleftrightarrow> ckey a < ckey b)) \<or>
   (\<exists>j ra rb. strucmp_loop 0 i a b = Inr (j, ra, rb) \<and> (ra = [] \<or> rb = []) \<and>
      (ckey a = ckey b \<longleftrightarrow> ra = [] \<and> rb = []) \<and> (ckey a < ckey b \<longleftrightarrow> ra = [] \<and> rb \<noteq> []))"
proof (induction "0::nat" i a b rule: strucmp_loop.induct [case_names 1 nil1 nil2])
  case (1 i a s1 b s2)
  show ?case
  proof (cases "c_toupper a = c_toupper b")
    case True
    with 1 show ?thesis by (simp add: ckey_def)
  next
    case False
    then show ?thesis by (auto simp: ckey_def dest: char_int_neq)
  qed
next
  case (nil1 i s2)
  then show ?case by (cases s2) (auto simp: ckey_def)
next
  case (nil2 i s1)
  then show ?case by (cases s1) (auto simp: ckey_def)
qed

lemma strucmp_order:
  "(strucmp (Some a) (Some b) 0 0 < 0 \<longleftrightarrow> ckey (cstr a) < ckey (cstr b)) \<and>
   (strucmp (Some a) (Some b) 0 0 = 0 \<longleftrightarrow> ckey (cstr a) = ckey (cstr b))"
  using strucmp_loop_0 [of 0 "cstr a" "cstr b"] unfolding strucmp_def by (auto simp: Let_def)

lemma strucmp_loop_len:
  assumes "i \<le> n" "0 < n" "n - i \<le> length a"
  shows "(\<exists>r. strucmp_loop n i a b = Inl r \<and> r \<noteq> 0 \<and> ckey (take (n - i) a) \<noteq> ckey b) \<or>
   (\<exists>j ra rb. strucmp_loop n i a b = Inr (j, ra, rb) \<and> i \<le> j \<and> j \<le> n \<and> (j < n \<longrightarrow> ra \<noteq> []) \<and>
      (ckey (take (n - i) a) = ckey b \<longleftrightarrow> j = n \<and> rb = []))"
  using assms
proof (induction n i a b rule: strucmp_loop.induct [case_names 1 nil1 nil2])
  case (1 n i a s1 b s2)
  show ?case
  proof (cases "i < n")
    case False
    then show ?thesis using 1(2-4) by (auto simp: ckey_def)
  next
    case lt: True
    then obtain k where k: "n - i = Suc k" "n - Suc i = k" by (metis Suc_diff_Suc)
    show ?thesis
    proof (cases "c_toupper a = c_toupper b")
      case True
      with lt k 1(1) [OF _ _] 1(2-4) show ?thesis by (auto simp: ckey_def)
    next
      case False
      with lt k show ?thesis by (auto simp: ckey_def)
    qed
  qed
next
  case (nil1 n i s2)
  then show ?case by (auto simp: ckey_def)
next
  case (nil2 n i s1)
  then show ?case by (cases s1; cases "n - i") (auto simp: ckey_def)
qed


lemma uequals_ptr_prefix:
  assumes "0 < n" "n \<le> length (cstr p)"
  shows "uequals_ptr p w n 0 \<longleftrightarrow> map c_toupper (take n (cstr p)) = map c_toupper (cstr w)"
  using strucmp_loop_len [of 0 n "cstr p" "cstr w"] assms
  unfolding uequals_ptr_def strucmp_def ckey_eq [symmetric] by (auto simp: Let_def split: if_splits)

section \<open>Property\<close>

text \<open>Without length limits the case-insensitive comparison is the lexicographic order of the upper-cased
  C strings, so it orders names totally, and is 0 exactly for names that differ in case only.\<close>

theorem comparison_orders_names:
  "(strucmp (Some a) (Some b) 0 0 < 0 \<longleftrightarrow> ckey (cstr a) < ckey (cstr b)) \<and>
   (strucmp (Some a) (Some b) 0 0 = 0 \<longleftrightarrow> map c_toupper (cstr a) = map c_toupper (cstr b))"
  using strucmp_order [of a b] by (simp add: ckey_eq)

end
