(* ===== verification/StrCodec.thy ===== *)
theory StrCodec
  imports StrUtil
begin

text \<open>
  The round trips of the text codecs of \<open>utils.cpp\<close>: hexadecimal strings, MAC and IPv4 addresses,
  decimal numbers, and what the line splitter promises.
\<close>

section \<open>Hexadecimal bytes\<close>

lemma char_nat_hexdigit_upper: "d < 16 \<Longrightarrow> char_nat (hexdigit_upper d) = (if d < 10 then 48 + d else 55 + d)"
  by (simp add: hexdigit_upper_def)

lemma hex_nibble_upper:
  assumes "d < 16"
  shows "hex_nibble (hexdigit_upper d) = Some d"
proof -
  note n = char_nat_hexdigit_upper [OF assms]
  then have t: "c_toupper (hexdigit_upper d) = hexdigit_upper d"
    using assms by (simp add: c_toupper_def c_islower_def)
  have i: "char_int (hexdigit_upper d) = (if d < 10 then 48 + int d else 55 + int d)"
    using n assms by (simp add: char_int_def)
  show ?thesis
    using assms by (simp add: hex_nibble_def t i as_schar_def Let_def)
qed

lemma hexdigit_upper_not:
  assumes "d < 16"
  shows "hexdigit_upper d \<noteq> NUL" "hexdigit_upper d \<noteq> CHR ''-''" "hexdigit_upper d \<noteq> CHR '':''" "hexdigit_upper d \<noteq> CHR '' ''"
proof -
  have l: "char_nat NUL = 0" "char_nat (CHR ''-'') = 45" "char_nat (CHR '':'') = 58" "char_nat (CHR '' '') = 32"
    by (simp_all add: char_nat_def)
  show "hexdigit_upper d \<noteq> NUL" "hexdigit_upper d \<noteq> CHR ''-''" "hexdigit_upper d \<noteq> CHR '':''" "hexdigit_upper d \<noteq> CHR '' ''"
    using assms by (auto dest!: arg_cong [where f = char_nat] simp: hexdigit_upper_def l split: if_splits)
qed

definition hex_sep :: "char \<Rightarrow> bool \<Rightarrow> bool" where
  "hex_sep c sp \<longleftrightarrow> c = NUL \<or> c = CHR ''-'' \<or> c = CHR '':'' \<or> (sp \<and> c = CHR '' '')"

lemma char_nat_div: "char_nat c div 16 < 16" "char_nat c mod 16 < 16"
  using char_nat_bound [of c] by (simp_all add: less_mult_imp_div_less)

lemma hex_loop_byte:
  assumes "mx = 0 \<or> length bs < mx"
  shows "hex_loop sp mx bs True b (print_02X (char_nat c) @ r) = hex_loop sp mx (bs @ [c]) True (char_nat c) r"
proof -
  note d = char_nat_div [of c]
  have "(char_nat c div 16 * 16 + char_nat c mod 16) mod 256 = char_nat c"
    using char_nat_bound [of c] by simp
  moreover have "\<not> (mx \<noteq> 0 \<and> mx \<le> length bs)" using assms by auto
  ultimately show ?thesis
    using d hexdigit_upper_not [OF d(1)] hexdigit_upper_not [OF d(2)]
    by (auto simp: print_02X_def hex_nibble_upper Let_def)
qed

lemma hex_loop_bytes:
  "hex_sep sep sp \<Longrightarrow> mx = 0 \<or> length bs + length s \<le> mx \<Longrightarrow>
   hex_loop sp mx bs True b (hex_bytes sep first s) = bs @ s"
proof (induction s arbitrary: bs b first)
  case Nil
  then show ?case by simp
next
  case (Cons c s)
  from Cons.prems have n: "mx = 0 \<or> length bs < mx" and m: "mx = 0 \<or> length (bs @ [c]) + length s \<le> mx" by auto
  have l: "hex_loop sp mx bs True b ([sep] @ t) = hex_loop sp mx bs True b t" if "sep \<noteq> NUL" for t
    using Cons.prems(1) n that by (auto simp: hex_sep_def)
  show ?case
    using Cons.IH [OF Cons.prems(1) m] l hex_loop_byte [OF n, of sp b c "hex_bytes sep False s"]
    by (cases "sep \<noteq> NUL \<and> \<not> first") auto
qed

lemma hex_bytes_no_NUL: "hex_sep sep sp \<Longrightarrow> NUL \<notin> set (hex_bytes sep first s)"
  using hexdigit_upper_not(1) [OF char_nat_div(1)] hexdigit_upper_not(1) [OF char_nat_div(2)]
  by (induction s arbitrary: first) (auto simp: print_02X_def, metis+)

lemma hex_roundtrip:
  "hex_sep sep sp \<Longrightarrow> mx = 0 \<or> length s \<le> mx \<Longrightarrow> hexToBinaryString (binaryToHexString s sep) sp mx = s"
  unfolding hexToBinaryString_def binaryToHexString_def
  by (subst cstr_no_NUL [OF hex_bytes_no_NUL]) (simp_all add: hex_loop_bytes)

section \<open>Decimal numbers\<close>

lemma dec_digits_nz: "dec_digits n \<noteq> []"
  by (subst dec_digits.simps) simp

lemma hexval_dec: "d < 10 \<Longrightarrow> hexval (nat_char (48 + d)) = Some d"
  by (simp add: hexval_def c_isdigit_def)

lemma digits_value_snoc: "digits_value b (s @ [c]) = digits_value b s * b + (case hexval c of Some v \<Rightarrow> v | None \<Rightarrow> 0)"
  by (simp add: digits_value_def)

lemma dec_digits_value: "digits_value 10 (dec_digits n) = n"
proof (induction n rule: dec_digits.induct)
  case (1 n)
  show ?case
  proof (cases "n < 10")
    case True
    then show ?thesis by (subst dec_digits.simps) (simp add: digits_value_def hexval_dec)
  next
    case False
    have "digits_value 10 (dec_digits n) = digits_value 10 (dec_digits (n div 10)) * 10 + n mod 10"
      using False by (subst dec_digits.simps) (simp add: digits_value_snoc hexval_dec)
    with 1 [OF False] show ?thesis by simp
  qed
qed

lemma dec_digits_digits: "c \<in> set (dec_digits n) \<Longrightarrow> c_isdigit c"
proof (induction n rule: dec_digits.induct)
  case (1 n)
  have d: "c_isdigit (nat_char (48 + k))" if "k < 10" for k using that by (simp add: c_isdigit_def)
  show ?case
  proof (cases "n < 10")
    case True
    with 1 d [of n] show ?thesis by (simp add: dec_digits.simps [of n])
  next
    case False
    with "1.prems" have "c \<in> set (dec_digits (n div 10)) \<or> c = nat_char (48 + n mod 10)"
      by (subst (asm) dec_digits.simps) auto
    with "1.IH" [OF False] d [of "n mod 10"] show ?thesis by auto
  qed
qed

lemma count_while_all: "(\<And>c. c \<in> set s \<Longrightarrow> P c) \<Longrightarrow> r = [] \<or> \<not> P (hd r) \<Longrightarrow> count_while P (s @ r) = length s"
proof (induction s)
  case Nil
  then show ?case by (cases r) auto
qed auto

lemma digit_not: "c_isdigit c \<Longrightarrow> \<not> c_isspace c \<and> c \<noteq> CHR ''+'' \<and> c \<noteq> CHR ''-'' \<and> c \<noteq> NUL \<and> c \<noteq> CHR ''.''"
  by (auto simp: c_isdigit_def c_isspace_def char_nat_def)

lemma scan_dec_nat:
  assumes "r = [] \<or> \<not> c_isdigit (hd r)"
  shows "scan_dec (dec_digits n @ r) = Some (int n, length (dec_digits n))"
proof -
  obtain c t where d: "dec_digits n = c # t" using dec_digits_nz [of n] by (cases "dec_digits n") auto
  have "c_isdigit c" using dec_digits_digits [of c n] d by simp
  note n = digit_not [OF this]
  have "count_while c_isdigit (dec_digits n @ r) = length (dec_digits n)"
    using assms dec_digits_digits by (intro count_while_all) auto
  then show ?thesis
    using n dec_digits_value [of n] unfolding scan_dec_def by (simp add: Let_def d sign_len_def)
qed

lemma scan_dec_print_int:
  assumes "0 \<le> i" "r = [] \<or> \<not> c_isdigit (hd r)"
  shows "scan_dec (print_int i @ r) = Some (i, length (print_int i))"
  using assms scan_dec_nat [of r "nat i"] by (simp add: print_int_def)

section \<open>Addresses\<close>

lemma mac_bytes_join:
  assumes "take_bit 48 m = m"
  shows "foldl (\<lambda>m c. push_bit 8 m + of_nat (char_nat c)) 0 (mac_bytes m) = m"
proof -
  have b: "of_nat (char_nat (nat_char (unat (take_bit 8 w)))) = take_bit 8 w" for w :: u64
    using unat_byte [of w] by simp
  have "foldl (\<lambda>m c. push_bit 8 m + of_nat (char_nat c)) (0 :: u64) (mac_bytes m) =
     foldl (\<lambda>m c. push_bit 8 m OR take_bit 8 (of_nat (char_nat c))) 0 (mac_bytes m)"
    by (rule foldl_cong) (auto intro: push_byte)
  also have "\<dots> =
     push_bit 8 (push_bit 8 (push_bit 8 (push_bit 8 (push_bit 8 (take_bit 8 (drop_bit 40 m)) OR take_bit 8 (drop_bit 32 m))
       OR take_bit 8 (drop_bit 24 m)) OR take_bit 8 (drop_bit 16 m)) OR take_bit 8 (drop_bit 8 m)) OR take_bit 8 m"
    by (simp add: mac_bytes_def upt_rec and_255 b del: char_nat_nat_char)
  also have "\<dots> = take_bit 48 m"
    using byte_step [of 8 "drop_bit 32 m"] byte_step [of 16 "drop_bit 24 m"] byte_step [of 24 "drop_bit 16 m"]
      byte_step [of 32 "drop_bit 8 m"] byte_step [of 40 m] by (simp only: drop_bit_drop_bit) simp
  finally show ?thesis using assms by simp
qed

lemma mac_roundtrip:
  assumes "take_bit 48 m = m" "hex_sep sep sp"
  shows "stringToMacAddress (macAddressToString m sep) sp = m"
proof -
  have l: "length (mac_bytes m) = 6" by (simp add: mac_bytes_def)
  have "hexToBinaryString (macAddressToString m sep) sp 6 = mac_bytes m"
    unfolding macAddressToString_def using assms(2) by (rule hex_roundtrip) (simp add: l)
  then show ?thesis by (simp add: stringToMacAddress_def l mac_bytes_join [OF assms(1)])
qed

lemma scan_hd_byte:
  assumes "r = [] \<or> \<not> c_isdigit (hd r)"
  shows "scan_hd (print_int (uint (take_bit 8 w)) @ r) = Some (take_bit 8 w, r)"
proof -
  have "signed_take_bit 15 (take_bit 8 w) = take_bit 8 (w :: u32)"
    by (rule bit_word_eqI) (auto simp: bit_simps)
  then show ?thesis using assms by (simp add: scan_hd_def scan_dec_print_int)
qed

lemma ipv4_join:
  "push_bit 24 (take_bit 8 (drop_bit 24 a)) OR push_bit 16 (take_bit 8 (drop_bit 16 a)) OR
   push_bit 8 (take_bit 8 (drop_bit 8 a)) OR take_bit 8 a = (a :: u32)"
proof (rule bit_word_eqI)
  fix n
  assume n: "n < LENGTH(32)"
  consider "n < 8" | "8 \<le> n" "n < 16" | "16 \<le> n" "n < 24" | "24 \<le> n" by linarith
  then show "bit (push_bit 24 (take_bit 8 (drop_bit 24 a)) OR push_bit 16 (take_bit 8 (drop_bit 16 a)) OR
     push_bit 8 (take_bit 8 (drop_bit 8 a)) OR take_bit 8 a) n = bit a n"
    by cases (use n in \<open>auto simp: bit_simps\<close>)
qed

lemma dot_not_digit: "\<not> c_isdigit (CHR ''.'')"
  by (simp add: c_isdigit_def char_nat_def)

lemma ipv4_no_NUL: "NUL \<notin> set (ipv4ToString a)"
  using digit_not dec_digits_digits by (fastforce simp: ipv4ToString_def print_int_def)

lemma ipv4_roundtrip: "stringToIpv4 (ipv4ToString a) = a"
  unfolding stringToIpv4_def
  by (subst cstr_no_NUL [OF ipv4_no_NUL])
     (simp add: ipv4ToString_def and_255 scan_hd_byte [where r = "[]", simplified] scan_hd_byte scan_dot_hd_def
        dot_not_digit ipv4_join)

section \<open>Lines\<close>

lemma line_break_splits:
  "line_break s = (l, r) \<Longrightarrow>
     NL \<notin> set l \<and> CR \<notin> set l \<and> (\<exists>e\<in>{[], [NL], [CR], [CR, NL]}. s = l @ e @ r \<and> (e = [] \<longrightarrow> r = []))"
proof (induction s arbitrary: l r)
  case Nil
  then show ?case by simp
next
  case (Cons c s)
  show ?case
  proof (cases "c = NL \<or> c = CR")
    case True
    with Cons.prems show ?thesis by (cases s) (auto split: if_splits)
  next
    case False
    then obtain l' where "line_break s = (l', r)" "l = c # l'"
      using Cons.prems by (auto split: prod.splits)
    with Cons.IH [of l' r] False show ?thesis by auto
  qed
qed

section \<open>Substitution\<close>

lemma find_from_Nil: "i \<le> length s \<Longrightarrow> find_from s [] i = Some i"
  by (cases "drop i s") (auto simp: find_from_def)

text \<open>With an empty placeholder the text grows in front of the position that is searched next.\<close>

lemma substitute_loop_stuck:
  assumes "substitute_loop pat rep unl n s i = Some t"
  shows "pat = [] \<longrightarrow> unl \<longrightarrow> length s < i"
proof (rule substitute_loop.raw_induct [where P = "\<lambda>pat rep unl n s i t. pat = [] \<longrightarrow> unl \<longrightarrow> length s < i", OF _ assms])
  fix f :: "string \<Rightarrow> string \<Rightarrow> bool \<Rightarrow> int \<Rightarrow> string \<Rightarrow> nat \<Rightarrow> string option" and pat rep unl n s i t
  assume ih: "\<And>pat rep unl n s i t. f pat rep unl n s i = Some t \<Longrightarrow> pat = [] \<longrightarrow> unl \<longrightarrow> length s < i"
    and e: "(if 0 < n \<or> unl
      then case find_from s pat i of None \<Rightarrow> Some s
           | Some j \<Rightarrow> f pat rep unl (n - 1) (take j s @ rep @ drop (j + length pat) s) (j + length rep)
      else Some s) = Some t"
  show "pat = [] \<longrightarrow> unl \<longrightarrow> length s < i"
  proof (intro impI, rule ccontr)
    assume u: "pat = []" "unl" and l: "\<not> length s < i"
    then have "f pat rep unl (n - 1) (take i s @ rep @ drop i s) (i + length rep) = Some t"
      using e by (simp add: find_from_Nil)
    from ih [OF this] u have "length (take i s @ rep @ drop i s) < i + length rep" by blast
    then show False using l by simp
  qed
qed

lemmas substitute_loop_empty = substitute_loop_stuck [where pat = "[]" and unl = True, simplified]

section \<open>Properties\<close>

text \<open>Hexadecimal text decodes to the bytes it was made of, with any separator the decoder skips, or none,
  and any byte limit that is large enough.\<close>

theorem hex_bytes_read_back:
  assumes "hex_sep sep sp" "mx = 0 \<or> length s \<le> mx"
  shows "hexToBinaryString (binaryToHexString s sep) sp mx = s"
  using assms by (rule hex_roundtrip)

theorem hex_bytes_read_back_witness:
  "hexToBinaryString (binaryToHexString ''ab'' (CHR ''-'')) False 2 = ''ab''"
  by (rule hex_bytes_read_back) (simp_all add: hex_sep_def)

text \<open>A MAC address of 48 bits and every IPv4 address come back from their texts.\<close>

theorem addresses_read_back:
  assumes "take_bit 48 m = m" "hex_sep sep sp"
  shows "stringToMacAddress (macAddressToString m sep) sp = m \<and> stringToIpv4 (ipv4ToString a) = a"
  using mac_roundtrip [OF assms] ipv4_roundtrip by simp

theorem addresses_read_back_witness:
  "stringToMacAddress (macAddressToString 0x0102030405FF (CHR '':'')) False = 0x0102030405FF \<and>
   stringToIpv4 (ipv4ToString 0xC0A80101) = 0xC0A80101"
  by (rule addresses_read_back) (simp_all add: hex_sep_def)

text \<open>Substituting an empty placeholder without a limit on the number of substitutions never returns.\<close>

theorem substitute_nothing_hangs:
  "string_substitute s [] rep 0 = None"
  using substitute_loop_empty [of rep 0 s 0] by (cases "string_substitute s [] rep 0") (auto simp: string_substitute_def)

end
