(* ===== verification/Hashes.thy ===== *)
theory Hashes
  imports Prelude
begin

text \<open>
  The incremental hashes of \<open>crc32.cpp\<close> and \<open>fnv.cpp\<close>: the register of each, its byte step, and
  what both promise as byte streams.
\<close>

section \<open>Byte streams\<close>

text \<open>
  The interface of an incremental hash: a state, a byte step and a step for a block of bytes. How
  the bytes are split into blocks makes no difference.
\<close>

locale byte_stream =
  fixes add1 :: "u8 \<Rightarrow> 's \<Rightarrow> 's" and adds :: "u8 list \<Rightarrow> 's \<Rightarrow> 's"
  assumes adds_Nil: "adds [] s = s" and adds_Cons: "adds (b # bs) s = adds bs (add1 b s)"
begin

lemma adds_append: "adds (a @ b) s = adds b (adds a s)"
  by (induction a arbitrary: s) (simp_all add: adds_Nil adds_Cons)

lemma adds_blocks: "adds (concat bss) s = fold adds bss s"
  by (induction bss arbitrary: s) (simp_all add: adds_Nil adds_append)

end

text \<open>One whose byte step can be undone: different states stay different.\<close>

locale invertible_stream = byte_stream +
  fixes undo :: "u8 \<Rightarrow> 's \<Rightarrow> 's"
  assumes undo_add1: "undo b (add1 b s) = s"
begin

lemma adds_inj: "adds bs s = adds bs t \<Longrightarrow> s = t"
proof (induction bs arbitrary: s t)
  case (Cons b bs)
  then have "add1 b s = add1 b t" by (simp add: adds_Cons)
  then show ?case by (metis undo_add1)
qed (simp add: adds_Nil)

end

section \<open>CRC-32\<close>

definition CRC32_polynominal :: u32 where
  "CRC32_polynominal = 0xEDB88320"

definition crc_reset :: u32 where
  "crc_reset = 0xFFFFFFFF"

text \<open>The body of the loop over the bits of a byte: the register, and the message bit.\<close>

definition crc_bit :: "bool \<Rightarrow> u32 \<Rightarrow> u32" where
  "crc_bit m crc =
     (let b = (bit crc 0 \<noteq> m); c = drop_bit 1 crc in if b then c XOR CRC32_polynominal else c)"

definition crc_addByte :: "u8 \<Rightarrow> u32 \<Rightarrow> u32" where
  "crc_addByte b crc = fold (\<lambda>j. crc_bit (bit b j)) [0..<8] crc"

fun crc_addBytes :: "u8 list \<Rightarrow> u32 \<Rightarrow> u32" where
  "crc_addBytes [] crc = crc"
| "crc_addBytes (b # bs) crc = crc_addBytes bs (crc_addByte b crc)"

definition crc_addCStr :: "string \<Rightarrow> u32 \<Rightarrow> u32" where
  "crc_addCStr s crc = crc_addBytes (map (\<lambda>c. of_nat (char_nat c)) (cstr s)) crc"

definition getCRC :: "u32 \<Rightarrow> u32" where
  "getCRC crc = NOT crc"

text \<open>The bits of a message in the order they enter the register.\<close>

definition msg_bits :: "u8 list \<Rightarrow> bool list" where
  "msg_bits bs = concat (map (\<lambda>b. map (bit b) [0..<8]) bs)"

lemma crc_addByte_bits: "crc_addByte b crc = fold crc_bit (map (bit b) [0..<8]) crc"
  by (simp add: crc_addByte_def fold_map comp_def)

lemma crc_addBytes_bits: "crc_addBytes bs crc = fold crc_bit (msg_bits bs) crc"
  by (induction bs arbitrary: crc) (simp_all add: msg_bits_def crc_addByte_bits)

text \<open>The step without a message bit is linear over exclusive or.\<close>

abbreviation crc_shift :: "u32 \<Rightarrow> u32" where
  "crc_shift \<equiv> crc_bit False"

lemma drop_xor_1: "drop_bit 1 (c XOR 1) = drop_bit 1 (c :: u32)" "bit (c XOR 1) 0 = (\<not> bit c 0)"
  by (rule bit_word_eqI) (auto simp: bit_simps)

lemma crc_bit_shift: "crc_bit m c = crc_shift (c XOR of_bool m)"
  by (cases m) (simp_all add: crc_bit_def Let_def drop_xor_1)

lemma crc_shift_xor: "crc_shift (a XOR b) = crc_shift a XOR crc_shift b"
  by (auto simp: crc_bit_def Let_def bit_simps drop_bit_xor ac_simps)

lemma crc_shifts_xor: "(crc_shift ^^ n) (a XOR b) = (crc_shift ^^ n) a XOR (crc_shift ^^ n) b"
  by (induction n) (simp_all add: crc_shift_xor)

lemma crc_shift_push: "n < 31 \<Longrightarrow> crc_shift (push_bit (Suc n) 1) = push_bit n 1"
proof -
  assume n: "n < 31"
  have "drop_bit 1 (push_bit (Suc n) 1) = push_bit n (1 :: u32)"
    by (rule bit_word_eqI) (use n in \<open>auto simp: bit_simps\<close>)
  then show ?thesis by (simp add: crc_bit_def Let_def bit_simps)
qed

lemma crc_shifts_push: "n < 32 \<Longrightarrow> (crc_shift ^^ n) (push_bit n 1) = 1"
proof (induction n)
  case (Suc n)
  have e: "crc_shift (push_bit (Suc n) 1) = push_bit n 1" using Suc.prems by (intro crc_shift_push) simp
  have "(crc_shift ^^ n) (push_bit n 1) = 1" using Suc by simp
  then show ?case by (simp only: funpow_Suc_right comp_apply e)
qed simp

lemma crc_shift_0 [simp]: "(crc_shift ^^ n) 0 = 0"
  by (induction n) (simp_all add: crc_bit_def Let_def)

lemma take_bit_Suc_xor: "take_bit (Suc n) d = take_bit n d XOR (if bit d n then push_bit n 1 else (0 :: u32))"
  by (rule bit_word_eqI) (auto simp: bit_simps less_Suc_eq)

text \<open>Feeding bits is shifting their exclusive or with the register.\<close>

lemma crc_feed: "n \<le> 32 \<Longrightarrow> fold crc_bit (map (bit d) [0..<n]) c = (crc_shift ^^ n) (c XOR take_bit n d)"
proof (induction n)
  case (Suc n)
  let ?u = "if bit d n then push_bit n 1 else (0 :: u32)"
  have u: "(crc_shift ^^ n) ?u = of_bool (bit d n)"
    using Suc.prems crc_shifts_push [of n] by simp
  have "fold crc_bit (map (bit d) [0..<Suc n]) c = crc_shift ((crc_shift ^^ n) (c XOR take_bit n d) XOR of_bool (bit d n))"
    using Suc crc_bit_shift by simp
  also have "\<dots> = crc_shift ((crc_shift ^^ n) (c XOR take_bit (Suc n) d))"
    by (simp only: take_bit_Suc_xor crc_shifts_xor xor.assoc [symmetric] u)
  finally show ?case by simp
qed simp

definition le_bytes :: "u32 \<Rightarrow> u8 list" where
  "le_bytes w = map (\<lambda>i. ucast (drop_bit (8 * i) w)) [0..<4]"

lemma le_bytes_bits: "msg_bits (le_bytes w) = map (bit w) [0..<32]"
  by (simp add: msg_bits_def le_bytes_def upt_rec bit_simps) (simp add: eval_nat_numeral)

lemma crc_shift_all: "getCRC ((crc_shift ^^ 32) (- 1)) = 0x2144DF1C"
proof -
  have f8: "(crc_shift ^^ 8) x = crc_shift (crc_shift (crc_shift (crc_shift (crc_shift (crc_shift (crc_shift (crc_shift x)))))))" for x
    by (simp add: eval_nat_numeral)
  have s0: "(crc_shift ^^ 8) 0xFFFFFFFF = 0x2DFD1072"
    unfolding f8 by (simp add: crc_bit_def CRC32_polynominal_def)
  have s1: "(crc_shift ^^ 8) 0x2DFD1072 = 0xBE26ED00"
    unfolding f8 by (simp add: crc_bit_def CRC32_polynominal_def)
  have s2: "(crc_shift ^^ 8) 0xBE26ED00 = 0xBE26ED"
    unfolding f8 by (simp add: crc_bit_def CRC32_polynominal_def)
  have s3: "(crc_shift ^^ 8) 0xBE26ED = 0xDEBB20E3"
    unfolding f8 by (simp add: crc_bit_def CRC32_polynominal_def)
  have m: "(- 1 :: u32) = 0xFFFFFFFF" by simp
  have "(crc_shift ^^ 32) x = (crc_shift ^^ 8) ((crc_shift ^^ 8) ((crc_shift ^^ 8) ((crc_shift ^^ 8) x)))" for x
    by (simp only: funpow_add [THEN fun_cong, unfolded comp_apply, symmetric]) simp
  then show ?thesis unfolding m by (simp only: s0 s1 s2 s3 getCRC_def) simp
qed

lemma crc_residue_lemma:
  "getCRC (crc_addBytes (bs @ le_bytes (getCRC (crc_addBytes bs crc_reset))) crc_reset) = 0x2144DF1C"
proof -
  let ?c = "crc_addBytes bs crc_reset"
  have "crc_addBytes (bs @ le_bytes (getCRC ?c)) crc_reset = fold crc_bit (msg_bits (le_bytes (getCRC ?c))) ?c"
    by (simp add: crc_addBytes_bits msg_bits_def)
  also have "\<dots> = (crc_shift ^^ 32) (?c XOR take_bit 32 (NOT ?c))"
    by (simp only: le_bytes_bits getCRC_def crc_feed [OF order_refl])
  also have "take_bit 32 (NOT ?c) = NOT ?c" by (rule bit_word_eqI) (simp add: bit_simps)
  also have "?c XOR NOT ?c = - 1" by simp
  finally show ?thesis by (simp add: crc_shift_all)
qed

interpretation crc: byte_stream crc_addByte crc_addBytes
  by unfold_locales simp_all

section \<open>FNV-1a\<close>

definition FNV32_prime :: u32 where "FNV32_prime = 16777619"
definition FNV32_offset_basis :: u32 where "FNV32_offset_basis = 2166136261"
definition FNV64_prime :: u64 where "FNV64_prime = 1099511628211"
definition FNV64_offset_basis :: u64 where "FNV64_offset_basis = 14695981039346656037"

definition fnv32_addByte :: "u8 \<Rightarrow> u32 \<Rightarrow> u32" where
  "fnv32_addByte b h = (h XOR ucast b) * FNV32_prime"

fun fnv32_addBytes :: "u8 list \<Rightarrow> u32 \<Rightarrow> u32" where
  "fnv32_addBytes [] h = h"
| "fnv32_addBytes (b # bs) h = fnv32_addBytes bs (fnv32_addByte b h)"

definition fnv64_addByte :: "u8 \<Rightarrow> u64 \<Rightarrow> u64" where
  "fnv64_addByte b h = (h XOR ucast b) * FNV64_prime"

fun fnv64_addBytes :: "u8 list \<Rightarrow> u64 \<Rightarrow> u64" where
  "fnv64_addBytes [] h = h"
| "fnv64_addBytes (b # bs) h = fnv64_addBytes bs (fnv64_addByte b h)"

definition str_bytes :: "string \<Rightarrow> u8 list" where
  "str_bytes s = map (\<lambda>c. of_nat (char_nat c)) s"

definition fnv32_addString :: "string \<Rightarrow> u32 \<Rightarrow> u32" where
  "fnv32_addString s h = fnv32_addBytes (str_bytes s) h"

definition fnv32_addCStr :: "string \<Rightarrow> u32 \<Rightarrow> u32" where
  "fnv32_addCStr s h = fnv32_addBytes (str_bytes (cstr s)) h"

definition fnv64_addString :: "string \<Rightarrow> u64 \<Rightarrow> u64" where
  "fnv64_addString s h = fnv64_addBytes (str_bytes s) h"

definition fnv64_addCStr :: "string \<Rightarrow> u64 \<Rightarrow> u64" where
  "fnv64_addCStr s h = fnv64_addBytes (str_bytes (cstr s)) h"

text \<open>The folded variants; the masks are 64 bit numbers.\<close>

definition fold_bits :: "nat \<Rightarrow> u64 \<Rightarrow> u64" where
  "fold_bits k h = drop_bit k h XOR (h AND (push_bit k 1 - 1))"

definition getHash48 :: "u64 \<Rightarrow> u64" where "getHash48 h = fold_bits 48 h"
definition getHash36 :: "u64 \<Rightarrow> u64" where "getHash36 h = fold_bits 36 h"
definition getHash32 :: "u64 \<Rightarrow> u64" where "getHash32 h = fold_bits 32 h"
definition fnv32_getHash28 :: "u32 \<Rightarrow> u32" where "fnv32_getHash28 h = ucast (fold_bits 28 (ucast h))"
definition fnv64_getHash28 :: "u64 \<Rightarrow> u32" where "fnv64_getHash28 h = ucast (fold_bits 28 h)"

lemma fold_bits_take: "fold_bits k h = drop_bit k h XOR take_bit k h"
  by (simp add: fold_bits_def take_bit_eq_mask mask_eq_exp_minus_1 push_bit_eq_mult)

lemma fold_bits_bound: "32 \<le> k \<Longrightarrow> k \<le> 64 \<Longrightarrow> take_bit k (fold_bits k h) = fold_bits k h"
  unfolding fold_bits_take by (rule bit_word_eqI) (auto simp: bit_simps dest: bit_imp_le_length)

lemma fnv32_hash28_bound: "take_bit 28 (fnv32_getHash28 h) = fnv32_getHash28 h"
  unfolding fnv32_getHash28_def fold_bits_take
  by (rule bit_word_eqI) (auto simp: bit_simps dest: bit_imp_le_length)

text \<open>The steps are invertible: the primes are odd.\<close>

definition fnv32_undo :: "u8 \<Rightarrow> u32 \<Rightarrow> u32" where
  "fnv32_undo b h = (h * 899433627) XOR ucast b"

definition fnv64_undo :: "u8 \<Rightarrow> u64 \<Rightarrow> u64" where
  "fnv64_undo b h = (h * 14886173955864302971) XOR ucast b"

lemma fnv32_undo_step: "fnv32_undo b (fnv32_addByte b h) = h"
proof -
  have "FNV32_prime * 899433627 = 1" by (simp add: FNV32_prime_def)
  then show ?thesis by (simp add: fnv32_undo_def fnv32_addByte_def mult.assoc xor.assoc)
qed

lemma fnv64_undo_step: "fnv64_undo b (fnv64_addByte b h) = h"
proof -
  have "FNV64_prime * 14886173955864302971 = 1" by (simp add: FNV64_prime_def)
  then show ?thesis by (simp add: fnv64_undo_def fnv64_addByte_def mult.assoc xor.assoc)
qed

interpretation fnv32: invertible_stream fnv32_addByte fnv32_addBytes fnv32_undo
  by unfold_locales (simp_all add: fnv32_undo_step)

interpretation fnv64: invertible_stream fnv64_addByte fnv64_addBytes fnv64_undo
  by unfold_locales (simp_all add: fnv64_undo_step)

section \<open>Properties\<close>

text \<open>C39: A message followed by its own CRC, low byte first, always has the same CRC, whatever the message.\<close>

theorem crc_residue:
  "getCRC (crc_addBytes (bs @ le_bytes (getCRC (crc_addBytes bs crc_reset))) crc_reset) = 0x2144DF1C"
  by (rule crc_residue_lemma)

text \<open>How a message is split into blocks makes no difference to the CRC or to either FNV hash.\<close>

theorem hashes_do_not_see_blocks:
  "crc_addBytes (concat bss) c = fold crc_addBytes bss c \<and>
   fnv32_addBytes (concat bss) h = fold fnv32_addBytes bss h \<and>
   fnv64_addBytes (concat bss) k = fold fnv64_addBytes bss k"
  by (simp add: crc.adds_blocks fnv32.adds_blocks fnv64.adds_blocks)

text \<open>Continuing the FNV hashes of two states that differ with the same bytes never makes them equal.\<close>

theorem fnv_keeps_states_apart:
  "(fnv32_addBytes bs h = fnv32_addBytes bs h' \<longleftrightarrow> h = h') \<and> (fnv64_addBytes bs k = fnv64_addBytes bs k' \<longleftrightarrow> k = k')"
  using fnv32.adds_inj fnv64.adds_inj by blast

text \<open>The folded hashes fit their width, but for the 28 bit hash of \<open>Fnv64\<close>, where the upper part that is
  folded in has 36 bits and the result is only cut to 32.\<close>

theorem folded_hash_widths:
  "take_bit 48 (getHash48 h) = getHash48 h \<and> take_bit 36 (getHash36 h) = getHash36 h \<and>
   take_bit 32 (getHash32 h) = getHash32 h \<and> take_bit 28 (fnv32_getHash28 g) = fnv32_getHash28 g \<and>
   fnv64_getHash28 0x1000000000000000 = 0 \<and> fnv64_getHash28 0x0100000000000000 = 0x10000000"
  by (simp add: getHash48_def getHash36_def getHash32_def fold_bits_bound fnv32_hash28_bound)
     (simp add: fnv64_getHash28_def fold_bits_def)

end
