(* ===== verification/Tlv.thy ===== *)
theory Tlv
  imports StrCodec
begin

text \<open>
  The tag-length-value coder (\<open>tlv.cpp\<close>, \<open>tlv.hpp\<close>): the writer with its chain of nested writers,
  the reader with its chain of nested readers, and the encoding both agree on. An assertion of
  the writer that fails is the result \<open>None\<close>.
\<close>

section \<open>Tags\<close>

definition tlv_any :: u8 where "tlv_any = 0x02"
definition tlv_invalid :: u8 where "tlv_invalid = 0x03"
definition tlv_unsigned :: u8 where "tlv_unsigned = 0x00"
definition tlv_signed :: u8 where "tlv_signed = 0x04"
definition tlv_string :: u8 where "tlv_string = 0x08"
definition tlv_blob :: u8 where "tlv_blob = 0x0C"
definition tlv_id_unsigned :: u8 where "tlv_id_unsigned = 0x10"
definition tlv_id_string :: u8 where "tlv_id_string = 0x14"
definition tlv_container :: u8 where "tlv_container = 0x18"
definition tlv_counted_container :: u8 where "tlv_counted_container = 0x1C"
definition tlv_tagmask :: u8 where "tlv_tagmask = 0xFC"
definition tlv_sizemask :: u8 where "tlv_sizemask = 0x03"

lemmas tlv_defs =
  tlv_any_def tlv_invalid_def tlv_unsigned_def tlv_signed_def tlv_string_def tlv_blob_def
  tlv_id_unsigned_def tlv_id_string_def tlv_container_def tlv_counted_container_def
  tlv_tagmask_def tlv_sizemask_def

definition byte8 :: "u8 \<Rightarrow> char" where
  "byte8 w = nat_char (unat w)"

definition char8 :: "char \<Rightarrow> u8" where
  "char8 c = of_nat (char_nat c)"

definition low_byte :: "u64 \<Rightarrow> char" where
  "low_byte d = nat_char (unat (d AND 0xFF))"

section \<open>The writer\<close>

text \<open>The loop over the shifts 56, 48, ..., 8, given as multiples of 8, and the last byte.\<close>

fun int_data_loop :: "bool \<Rightarrow> u64 \<Rightarrow> nat \<Rightarrow> bool \<Rightarrow> string" where
  "int_data_loop sg d 0 started = [low_byte d]"
| "int_data_loop sg d (Suc k) started =
     (let shift = 8 * Suc k;
          m = (if sg then push_bit (shift - 1) 0x1FF else push_bit shift 0xFF)
      in if started \<or> d AND m \<noteq> 0 \<or> (sg \<and> d AND m \<noteq> m)
         then low_byte (drop_bit shift d) # int_data_loop sg d k True
         else int_data_loop sg d k started)"

definition int_data :: "u64 \<Rightarrow> bool \<Rightarrow> string" where
  "int_data d sg = int_data_loop sg d 7 False"

definition unsigned_data :: "u64 \<Rightarrow> string" where
  "unsigned_data d = int_data d False"

definition signed_data :: "u64 \<Rightarrow> string" where
  "signed_data d = int_data d True"

text \<open>\<open>mTLV\<close>, \<open>mNestedWriter\<close>, \<open>mStartedTag\<close>, \<open>mTagCount\<close>.\<close>

datatype TLVWriter = TLVW string "TLVWriter option" u8 nat

definition new_writer :: TLVWriter where
  "new_writer = TLVW [] None tlv_invalid 0"

fun start_tag :: "u8 \<Rightarrow> TLVWriter \<Rightarrow> TLVWriter" where
  "start_tag tag (TLVW t (Some n) st k) = TLVW t (Some (start_tag tag n)) st k"
| "start_tag tag (TLVW t None st k) = TLVW t None tag k"

fun finish_my_tag :: "string \<Rightarrow> TLVWriter \<Rightarrow> TLVWriter option" where
  "finish_my_tag aData (TLVW t n st k) =
     (let len = int_data (of_nat (length aData)) False
      in if 4 < length len then None
         else let tag = (st AND tlv_tagmask) OR (of_nat (length len - 1) AND tlv_sizemask)
              in Some (TLVW (t @ [byte8 tag] @ len @ aData) n tlv_invalid (k + 1)))"

fun finish_tag :: "string \<Rightarrow> TLVWriter \<Rightarrow> TLVWriter option" where
  "finish_tag aData (TLVW t (Some n) st k) =
     (if st = tlv_invalid then None else map_option (\<lambda>n'. TLVW t (Some n') st k) (finish_tag aData n))"
| "finish_tag aData (TLVW t None st k) =
     (if st = tlv_invalid then None else finish_my_tag aData (TLVW t None st k))"

definition put_tag :: "u8 \<Rightarrow> string \<Rightarrow> TLVWriter \<Rightarrow> TLVWriter option" where
  "put_tag tag aData w = finish_tag aData (start_tag tag w)"

definition put_id_unsigned :: "u32 \<Rightarrow> TLVWriter \<Rightarrow> TLVWriter option" where
  "put_id_unsigned aId = put_tag tlv_id_unsigned (unsigned_data (ucast aId))"

definition put_id_string :: "string \<Rightarrow> TLVWriter \<Rightarrow> TLVWriter option" where
  "put_id_string aId = put_tag tlv_id_string aId"

definition put_unsigned :: "u64 \<Rightarrow> TLVWriter \<Rightarrow> TLVWriter option" where
  "put_unsigned u = put_tag tlv_unsigned (unsigned_data u)"

definition put_signed :: "u64 \<Rightarrow> TLVWriter \<Rightarrow> TLVWriter option" where
  "put_signed s = put_tag tlv_signed (signed_data s)"

definition put_string :: "string \<Rightarrow> TLVWriter \<Rightarrow> TLVWriter option" where
  "put_string s = put_tag tlv_string s"

definition put_blob :: "string \<Rightarrow> TLVWriter \<Rightarrow> TLVWriter option" where
  "put_blob s = put_tag tlv_blob s"

fun start_container_tag :: "u8 \<Rightarrow> TLVWriter \<Rightarrow> TLVWriter" where
  "start_container_tag tag (TLVW t (Some n) st k) = TLVW t (Some (start_container_tag tag n)) st k"
| "start_container_tag tag (TLVW t None st k) = TLVW t (Some new_writer) tag k"

definition start_container :: "TLVWriter \<Rightarrow> TLVWriter" where
  "start_container = start_container_tag tlv_container"

definition start_counted_container :: "TLVWriter \<Rightarrow> TLVWriter" where
  "start_counted_container = start_container_tag tlv_counted_container"

fun writer_data :: "TLVWriter \<Rightarrow> string" where
  "writer_data (TLVW t n st k) = t"

fun writer_count :: "TLVWriter \<Rightarrow> nat" where
  "writer_count (TLVW t n st k) = k"

fun tag_started :: "TLVWriter \<Rightarrow> bool" where
  "tag_started (TLVW t n st k) \<longleftrightarrow> st \<noteq> tlv_invalid"

fun end_container :: "TLVWriter \<Rightarrow> TLVWriter option" where
  "end_container (TLVW t None st k) = None"
| "end_container (TLVW t (Some n) st k) =
     (if tag_started n then map_option (\<lambda>n'. TLVW t (Some n') st k) (end_container n)
      else if st = tlv_counted_container
      then (case put_unsigned (of_nat (writer_count n)) new_writer of
              None \<Rightarrow> None
            | Some wr \<Rightarrow> finish_my_tag (writer_data wr @ writer_data n) (TLVW t None st k))
      else finish_my_tag (writer_data n) (TLVW t None st k))"

definition finalize :: "TLVWriter \<Rightarrow> string \<times> TLVWriter" where
  "finalize w = (case w of TLVW t n st k \<Rightarrow> (t, TLVW t None st k))"

section \<open>The reader\<close>

text \<open>
  \<open>mPos\<close>, \<open>mStartPos\<close>, \<open>mEndPos\<close>, \<open>mNestedReader\<close>; the text \<open>mTLV\<close> is a reference the chain
  shares, passed to every operation.
\<close>

datatype TLVReader = TLVR nat nat nat "TLVReader option"

definition new_reader :: "string \<Rightarrow> TLVReader" where
  "new_reader s = TLVR 0 0 (length s) None"

fun reader_end :: "TLVReader \<Rightarrow> nat" where
  "reader_end (TLVR p s e n) = e"

fun nextTag :: "string \<Rightarrow> TLVReader \<Rightarrow> u8" where
  "nextTag tlv (TLVR p s e (Some n)) = nextTag tlv n"
| "nextTag tlv (TLVR p s e None) = (if e \<le> p then tlv_invalid else char8 (chr_at tlv p) AND tlv_tagmask)"

definition eot :: "string \<Rightarrow> TLVReader \<Rightarrow> bool" where
  "eot tlv r \<longleftrightarrow> nextTag tlv r = tlv_invalid"

definition reader_reset :: "TLVReader \<Rightarrow> TLVReader" where
  "reader_reset r = (case r of TLVR p s e n \<Rightarrow> TLVR s s e None)"

fun rewind :: "TLVReader \<Rightarrow> TLVReader" where
  "rewind (TLVR p s e None) = TLVR s s e None"
| "rewind (TLVR p s e (Some n)) = TLVR s s e (Some (rewind n))"

text \<open>The byte loop of \<open>get_int_bytes\<close>, with the end of the reader called and the value so far.\<close>

fun int_bytes_loop :: "string \<Rightarrow> nat \<Rightarrow> nat \<Rightarrow> nat \<Rightarrow> u64 \<Rightarrow> u64" where
  "int_bytes_loop tlv e start 0 d = d"
| "int_bytes_loop tlv e start (Suc n) d =
     (if e \<le> start then 0
      else int_bytes_loop tlv e (Suc start) n (push_bit 8 d OR of_nat (char_nat (chr_at tlv start))))"

definition get_int_bytes :: "string \<Rightarrow> nat \<Rightarrow> nat \<Rightarrow> nat \<Rightarrow> int \<Rightarrow> u64" where
  "get_int_bytes tlv e start n extendTo =
     (let x = extendTo - int n;
          d = (if 0 < x \<and> bit (char8 (chr_at tlv start)) 7
               then ((\<lambda>d. push_bit 8 d OR 0xFF) ^^ nat x) 0 else 0)
      in int_bytes_loop tlv e start n d)"

text \<open>\<open>get_TL\<close>: the reader afterwards, and the start and size of the data (\<open>None\<close> for \<open>false\<close>).\<close>

fun get_TL :: "string \<Rightarrow> TLVReader \<Rightarrow> TLVReader \<times> (nat \<times> nat) option" where
  "get_TL tlv (TLVR p s e (Some n)) = (let (n', r) = get_TL tlv n in (TLVR p s e (Some n'), r))"
| "get_TL tlv (TLVR p s e None) =
     (let szSz = unat (char8 (chr_at tlv p) AND tlv_sizemask) + 1;
          size = unat (get_int_bytes tlv e (p + 1) szSz 0);
          start = p + 1 + szSz
      in if e < start + size then (TLVR (p + 1) s e None, None)
         else (TLVR (start + size) s e None, Some (start, size)))"

definition get_TLV_string :: "string \<Rightarrow> TLVReader \<Rightarrow> TLVReader \<times> string option" where
  "get_TLV_string tlv r = (let (r', q) = get_TL tlv r in (r', map_option (\<lambda>(a, n). substr tlv a n) q))"

definition reader_skip :: "string \<Rightarrow> TLVReader \<Rightarrow> TLVReader \<times> bool" where
  "reader_skip tlv r = (let (r', q) = get_TL tlv r in (r', q \<noteq> None))"

fun reader_pos :: "TLVReader \<Rightarrow> nat" where
  "reader_pos (TLVR p s e None) = p"
| "reader_pos (TLVR p s e (Some n)) = reader_pos n"

fun reader_setPos :: "nat \<Rightarrow> TLVReader \<Rightarrow> TLVReader" where
  "reader_setPos q (TLVR p s e None) = TLVR q s e None"
| "reader_setPos q (TLVR p s e (Some n)) = TLVR p s e (Some (reader_setPos q n))"

text \<open>\<open>nextTag(id)\<close>: the tag, the reader, and the id when one was read (else the variable is not set).\<close>

definition nextTag_string :: "string \<Rightarrow> TLVReader \<Rightarrow> u8 \<times> TLVReader \<times> string option" where
  "nextTag_string tlv r =
     (if nextTag tlv r = tlv_id_string
      then let (r', q) = get_TLV_string tlv r in (nextTag tlv r', r', q)
      else (nextTag tlv r, r, None))"

definition nextTag_unsigned :: "string \<Rightarrow> TLVReader \<Rightarrow> u8 \<times> TLVReader \<times> u32 option" where
  "nextTag_unsigned tlv r =
     (if nextTag tlv r = tlv_id_unsigned
      then (case get_TL tlv r of
              (r', None) \<Rightarrow> (tlv_invalid, r', None)
            | (r', Some (a, n)) \<Rightarrow> (nextTag tlv r', r', Some (ucast (get_int_bytes tlv (reader_end r) a n 0))))
      else (nextTag tlv r, r, None))"

text \<open>
  \<open>nextDataTag\<close> skips ids. A \<open>skip\<close> moves the position on, at least past the tag, as long as the
  position is before the end, so fuel of the text's length plus one is enough.
\<close>

fun nextDataTag_loop :: "nat \<Rightarrow> string \<Rightarrow> TLVReader \<Rightarrow> u8 \<times> TLVReader" where
  "nextDataTag_loop 0 tlv r = (nextTag tlv r, r)"
| "nextDataTag_loop (Suc f) tlv r =
     (let tag = nextTag tlv r
      in if tag \<noteq> tlv_id_string \<and> tag \<noteq> tlv_id_unsigned then (tag, r)
         else nextDataTag_loop f tlv (fst (reader_skip tlv r)))"

definition nextDataTag :: "string \<Rightarrow> TLVReader \<Rightarrow> u8 \<times> TLVReader" where
  "nextDataTag tlv r = nextDataTag_loop (length tlv + 1) tlv r"

definition nextIs_string :: "string \<Rightarrow> u8 \<Rightarrow> string \<Rightarrow> TLVReader \<Rightarrow> bool \<times> TLVReader" where
  "nextIs_string tlv aTag aId r =
     (let (tag, r', q) = nextTag_string tlv r; i = (case q of None \<Rightarrow> [] | Some x \<Rightarrow> x)
      in if (aTag = tlv_any \<or> tag = aTag) \<and> i = aId then (True, r') else (False, reader_setPos (reader_pos r) r'))"

text \<open>The overload for numbers compares a local variable that is not initialised when no id was read: \<open>junk\<close>.\<close>

definition nextIs_unsigned :: "u32 \<Rightarrow> string \<Rightarrow> u8 \<Rightarrow> u32 \<Rightarrow> TLVReader \<Rightarrow> bool \<times> TLVReader" where
  "nextIs_unsigned junk tlv aTag aId r =
     (let (tag, r', q) = nextTag_unsigned tlv r; i = (case q of None \<Rightarrow> junk | Some x \<Rightarrow> x)
      in if (aTag = tlv_any \<or> tag = aTag) \<and> i = aId then (True, r') else (False, reader_setPos (reader_pos r) r'))"

text \<open>\<open>read_signed\<close> and \<open>read_unsigned\<close> into a 64 bit variable.\<close>

definition read_int :: "u8 \<Rightarrow> int \<Rightarrow> string \<Rightarrow> TLVReader \<Rightarrow> TLVReader \<times> u64 option" where
  "read_int want extendTo tlv r =
     (let (tag, r') = nextDataTag tlv r
      in if tag \<noteq> want then (r', None)
         else (case get_TL tlv r' of
                 (r'', None) \<Rightarrow> (r'', None)
               | (r'', Some (a, n)) \<Rightarrow> (r'', Some (get_int_bytes tlv (reader_end r) a n extendTo))))"

definition read_unsigned :: "string \<Rightarrow> TLVReader \<Rightarrow> TLVReader \<times> u64 option" where
  "read_unsigned = read_int tlv_unsigned 0"

definition read_signed :: "string \<Rightarrow> TLVReader \<Rightarrow> TLVReader \<times> u64 option" where
  "read_signed = read_int tlv_signed 8"

definition read_data :: "u8 \<Rightarrow> string \<Rightarrow> TLVReader \<Rightarrow> TLVReader \<times> string option" where
  "read_data want tlv r =
     (let (tag, r') = nextDataTag tlv r in if tag \<noteq> want then (r', None) else get_TLV_string tlv r')"

definition read_string :: "string \<Rightarrow> TLVReader \<Rightarrow> TLVReader \<times> string option" where
  "read_string = read_data tlv_string"

definition read_blob :: "string \<Rightarrow> TLVReader \<Rightarrow> TLVReader \<times> string option" where
  "read_blob = read_data tlv_blob"

text \<open>
  \<open>read_blob\<close> into a buffer copies from \<open>mPos\<close>, the position of this reader after the data (or
  before the nested reader's), not from the start of the data.
\<close>

fun own_pos :: "TLVReader \<Rightarrow> nat" where
  "own_pos (TLVR p s e n) = p"

definition read_blob_buf :: "string \<Rightarrow> nat \<Rightarrow> TLVReader \<Rightarrow> TLVReader \<times> (string \<times> bool) option" where
  "read_blob_buf tlv aBufSiz r =
     (let (tag, r') = nextDataTag tlv r
      in if tag \<noteq> tlv_blob then (r', None)
         else (case get_TL tlv r' of
                 (r'', None) \<Rightarrow> (r'', None)
               | (r'', Some (a, n)) \<Rightarrow>
                   (r'', Some (map (chr_at tlv) [own_pos r''..<own_pos r'' + min n aBufSiz], n \<le> aBufSiz))))"

fun open_container :: "string \<Rightarrow> TLVReader \<Rightarrow> TLVReader \<times> bool" where
  "open_container tlv (TLVR p s e (Some n)) = (let (n', b) = open_container tlv n in (TLVR p s e (Some n'), b))"
| "open_container tlv (TLVR p s e None) =
     (let (tag, r') = nextDataTag tlv (TLVR p s e None)
      in if tag \<noteq> tlv_container then (r', False)
         else (case get_TL tlv r' of
                 (TLVR p' s' e' _, q) \<Rightarrow>
                   let (a, n) = (case q of Some x \<Rightarrow> x | None \<Rightarrow> (p' + unat (char8 (chr_at tlv (p' - 1)) AND tlv_sizemask) + 1, 0))
                   in (TLVR p' s' e' (Some (TLVR a a (a + n) None)), True)))"

fun open_counted_container :: "string \<Rightarrow> TLVReader \<Rightarrow> TLVReader \<times> u64 option" where
  "open_counted_container tlv (TLVR p s e (Some n)) =
     (let (n', b) = open_counted_container tlv n in (TLVR p s e (Some n'), b))"
| "open_counted_container tlv (TLVR p s e None) =
     (let (tag, r') = nextDataTag tlv (TLVR p s e None)
      in if tag \<noteq> tlv_counted_container then (r', None)
         else (case get_TL tlv r' of
                 (TLVR p' s' e' _, q) \<Rightarrow>
                   let (a, n) = (case q of Some x \<Rightarrow> x | None \<Rightarrow> (p' + unat (char8 (chr_at tlv (p' - 1)) AND tlv_sizemask) + 1, 0))
                   in (case read_unsigned tlv (TLVR a a (a + n) None) of
                         (m, None) \<Rightarrow> (TLVR p' s' e' None, None)
                       | (m, Some c) \<Rightarrow> (TLVR p' s' e' (Some m), Some c))))"

fun close_container :: "TLVReader \<Rightarrow> TLVReader \<times> bool" where
  "close_container (TLVR p s e None) = (TLVR p s e None, False)"
| "close_container (TLVR p s e (Some n)) =
     (let (n', b) = close_container n in if b then (TLVR p s e (Some n'), True) else (TLVR p s e None, True))"

end
