(* ===== verification/TlvCodec.thy ===== *)
theory TlvCodec
  imports Tlv
begin

text \<open>
  What the tag-length-value coder promises: the integer encoding, the bytes the writer's
  operations produce (a specification \<open>enc\<close> on trees of items), and that the reader gets every
  item back from them.
\<close>

section \<open>Integers\<close>

definition be_value :: "nat \<Rightarrow> string \<Rightarrow> nat" where
  "be_value v bs = foldl (\<lambda>v c. v * 256 + char_nat c) v bs"

lemma be_value_simps [simp]:
  "be_value v [] = v" "be_value v (c # bs) = be_value (v * 256 + char_nat c) bs"
  by (simp_all add: be_value_def)

lemma unat_byte_at: "unat (take_bit 8 (drop_bit s d)) = unat (d :: u64) div 2 ^ s mod 256"
proof -
  have "unat (take_bit 8 (drop_bit s d)) = take_bit 8 (drop_bit s (unat d))"
    by (simp only: unsigned_take_bit_eq unat_drop_bit_eq)
  then show ?thesis by (simp add: take_bit_eq_mod drop_bit_eq_div)
qed

lemma low_byte_nat: "char_nat (low_byte (drop_bit s d)) = unat d div 2 ^ s mod 256"
  by (simp add: low_byte_def and_255 unat_byte_at del: unsigned_take_bit_eq)

lemma mask_zero:
  assumes "s \<le> 56"
  shows "d AND push_bit s 0xFF = (0 :: u64) \<longleftrightarrow> unat d div 2 ^ s mod 256 = 0"
proof -
  let ?y = "take_bit 8 (drop_bit s d)"
  have "d AND push_bit s 0xFF = push_bit s ?y"
    by (rule bit_word_eqI) (auto simp: and_255 [symmetric] bit_simps)
  moreover have "push_bit s ?y = 0 \<longleftrightarrow> ?y = 0"
  proof
    assume z: "push_bit s ?y = 0"
    have "\<not> bit ?y n" for n
    proof
      assume b: "bit ?y n"
      then have "n < 8" by (simp add: bit_simps)
      with b assms have "bit (push_bit s ?y) (n + s)" by (simp add: bit_simps)
      with z show False by simp
    qed
    then show "?y = 0" by (simp add: bit_eq_iff)
  qed simp
  moreover have "?y = 0 \<longleftrightarrow> unat d div 2 ^ s mod 256 = 0"
    unfolding unat_byte_at [symmetric] by (simp only: unat_eq_0)
  ultimately show ?thesis by simp
qed

lemma pow2_8: "(2::nat) ^ (8 * k) = 256 ^ k"
  by (simp add: power_mult)

lemma div_split: "(n::nat) mod 256 ^ Suc k = (n div 256 ^ k mod 256) * 256 ^ k + n mod 256 ^ k"
  by (metis add.commute mod_mult2_eq mult.commute power_Suc2)

lemma be_value_mult: "be_value v bs = v * 256 ^ length bs + be_value 0 bs"
proof (induction bs arbitrary: v)
  case Nil
  then show ?case by simp
next
  case (Cons c bs)
  show ?case
    using Cons.IH [of "v * 256 + char_nat c"] Cons.IH [of "char_nat c"] by (simp add: algebra_simps)
qed

lemma int_data_loop_started:
  "length (int_data_loop sg d k True) = Suc k \<and> be_value 0 (int_data_loop sg d k True) = unat d mod 256 ^ Suc k"
proof (induction k)
  case 0
  show ?case using low_byte_nat [of 0 d] by simp
next
  case (Suc k)
  have "be_value 0 (int_data_loop sg d (Suc k) True) =
      be_value (unat d div 2 ^ (8 * Suc k) mod 256) (int_data_loop sg d k True)"
    by (simp only: int_data_loop.simps Let_def if_True simp_thms be_value_simps low_byte_nat) simp
  also have "\<dots> = (unat d div 256 ^ Suc k mod 256) * 256 ^ Suc k + unat d mod 256 ^ Suc k"
    using Suc by (subst be_value_mult) (simp only: pow2_8)
  also have "\<dots> = unat d mod 256 ^ Suc (Suc k)"
    by (rule div_split [symmetric])
  finally show ?case using Suc by (simp add: Let_def)
qed

lemma int_data_loop_unsigned:
  assumes "k \<le> 7" "unat d < 256 ^ Suc k"
  shows "be_value 0 (int_data_loop False d k False) = unat d \<and>
     0 < length (int_data_loop False d k False) \<and> length (int_data_loop False d k False) \<le> Suc k \<and>
     unat d < 256 ^ length (int_data_loop False d k False) \<and>
     (1 < length (int_data_loop False d k False) \<longrightarrow> 256 ^ (length (int_data_loop False d k False) - 1) \<le> unat d)"
  using assms
proof (induction k)
  case 0
  then show ?case using low_byte_nat [of 0 d] by simp
next
  case (Suc k)
  have m: "d AND push_bit (8 * Suc k) 0xFF = 0 \<longleftrightarrow> unat d div 256 ^ Suc k mod 256 = 0"
    using mask_zero [of "8 * Suc k" d] Suc.prems by (simp only: pow2_8) simp
  show ?case
  proof (cases "d AND push_bit (8 * Suc k) 0xFF = 0")
    case True
    with m have "unat d div 256 ^ Suc k mod 256 = 0" by simp
    moreover have "unat d div 256 ^ Suc k < 256"
      using Suc.prems(2) by (simp add: less_mult_imp_div_less mult.commute)
    ultimately have "unat d div 256 ^ Suc k = 0" by simp
    then have "unat d < 256 ^ Suc k" by (simp add: div_eq_0_iff)
    with Suc True show ?thesis by (simp add: Let_def)
  next
    case False
    with m have "256 ^ Suc k \<le> unat d" by (metis div_less mod_0 not_le)
    moreover have "int_data_loop False d (Suc k) False = int_data_loop False d (Suc k) True"
      using False by (simp add: Let_def)
    ultimately show ?thesis
      using int_data_loop_started [of False d "Suc k"] Suc.prems by simp
  qed
qed

lemma unat_lt_256_8: "unat (d :: u64) < 256 ^ 8"
  using unsigned_less [of d] by simp

lemma int_data_unsigned:
  "be_value 0 (int_data d False) = unat d" "0 < length (int_data d False)" "length (int_data d False) \<le> 8"
  "unat d < 256 ^ length (int_data d False)"
  "1 < length (int_data d False) \<Longrightarrow> 256 ^ (length (int_data d False) - 1) \<le> unat d"
  using int_data_loop_unsigned [of 7 d] unat_lt_256_8 [of d] by (auto simp: int_data_def)

lemma int_data_length_le:
  assumes "unat d < 2 ^ 32"
  shows "length (int_data d False) \<le> 4"
proof (rule ccontr)
  assume "\<not> ?thesis"
  then have l: "4 \<le> length (int_data d False) - 1" "1 < length (int_data d False)" by auto
  have "(256::nat) ^ 4 \<le> 256 ^ (length (int_data d False) - 1)" using l(1) by (rule power_increasing) simp
  also have "\<dots> \<le> unat d" using l(2) by (rule int_data_unsigned(5))
  finally show False using assms by simp
qed

text \<open>A signed number always takes eight bytes: the test against the mask is always true.\<close>

lemma int_data_signed:
  "length (int_data d True) = 8" "be_value 0 (int_data d True) = unat d"
proof -
  have "(d AND push_bit 55 0x1FF \<noteq> 0 \<or> d AND push_bit 55 0x1FF \<noteq> push_bit 55 0x1FF)"
    by (simp add: push_bit_eq_mult)
  then have "int_data d True = int_data_loop True d 7 True"
    by (simp add: int_data_def eval_nat_numeral Let_def)
  then show "length (int_data d True) = 8" "be_value 0 (int_data d True) = unat d"
    using int_data_loop_started [of True d 7] unat_lt_256_8 [of d] by simp_all
qed

lemma push_or_byte: "n < 256 \<Longrightarrow> push_bit 8 x OR of_nat n = push_bit 8 x + (of_nat n :: u64)"
proof -
  assume n: "n < 256"
  then have "take_bit 8 n = n" by (simp add: take_bit_nat_eq_self_iff)
  then have "of_nat n = take_bit 8 (of_nat n :: u64)" by (metis take_bit_of_nat)
  with push_byte [OF n, of x] show ?thesis by simp
qed

text \<open>The reader's loop computes the big-endian value of the bytes before the end.\<close>

lemma int_bytes_loop_value:
  assumes "start + n \<le> e" "e \<le> length tlv"
  shows "int_bytes_loop tlv e start n (of_nat v) = of_nat (be_value v (substr tlv start n))"
  using assms
proof (induction n arbitrary: start v)
  case 0
  then show ?case by (simp add: substr_def)
next
  case (Suc n)
  have c: "chr_at tlv start = tlv ! start" and s: "substr tlv start (Suc n) = tlv ! start # substr tlv (Suc start) n"
    using Suc.prems by (simp_all add: chr_at_def substr_def Cons_nth_drop_Suc [symmetric])
  have "push_bit 8 (of_nat v) OR of_nat (char_nat (tlv ! start)) = (of_nat (v * 256 + char_nat (tlv ! start)) :: u64)"
    using push_or_byte [of "char_nat (tlv ! start)" "of_nat v"] by (simp add: push_bit_eq_mult)
  with Suc.IH [of "Suc start" "v * 256 + char_nat (tlv ! start)"] Suc.prems show ?case by (simp add: c s)
qed

section \<open>The encoding of items\<close>

datatype item =
    IUnsigned u64 | ISigned u64 | IString string | IBlob string | IIdUnsigned u32 | IIdString string
  | IContainer "item list" | ICounted "item list"

definition enc_tag :: "u8 \<Rightarrow> string \<Rightarrow> string" where
  "enc_tag tag bs =
     (let len = int_data (of_nat (length bs)) False
      in byte8 ((tag AND tlv_tagmask) OR (of_nat (length len - 1) AND tlv_sizemask)) # len @ bs)"

fun enc :: "item \<Rightarrow> string" where
  "enc (IUnsigned u) = enc_tag tlv_unsigned (unsigned_data u)"
| "enc (ISigned u) = enc_tag tlv_signed (signed_data u)"
| "enc (IString s) = enc_tag tlv_string s"
| "enc (IBlob s) = enc_tag tlv_blob s"
| "enc (IIdUnsigned u) = enc_tag tlv_id_unsigned (unsigned_data (ucast u))"
| "enc (IIdString s) = enc_tag tlv_id_string s"
| "enc (IContainer is) = enc_tag tlv_container (concat (map enc is))"
| "enc (ICounted is) =
     enc_tag tlv_counted_container (enc_tag tlv_unsigned (unsigned_data (of_nat (length is))) @ concat (map enc is))"

text \<open>The data of every item is shorter than four gigabytes, as the writer asserts.\<close>

fun fits :: "item \<Rightarrow> bool" where
  "fits (IUnsigned u) = True"
| "fits (ISigned u) = True"
| "fits (IString s) = (length s < 2 ^ 32)"
| "fits (IBlob s) = (length s < 2 ^ 32)"
| "fits (IIdUnsigned u) = True"
| "fits (IIdString s) = (length s < 2 ^ 32)"
| "fits (IContainer is) = (list_all fits is \<and> length (concat (map enc is)) < 2 ^ 32)"
| "fits (ICounted is) =
     (list_all fits is \<and>
      length (enc_tag tlv_unsigned (unsigned_data (of_nat (length is))) @ concat (map enc is)) < 2 ^ 32)"

text \<open>The operations a client calls to write an item.\<close>

fun write_item :: "item \<Rightarrow> TLVWriter \<Rightarrow> TLVWriter option"
  and write_items :: "item list \<Rightarrow> TLVWriter \<Rightarrow> TLVWriter option" where
  "write_item (IUnsigned u) w = put_unsigned u w"
| "write_item (ISigned u) w = put_signed u w"
| "write_item (IString s) w = put_string s w"
| "write_item (IBlob s) w = put_blob s w"
| "write_item (IIdUnsigned u) w = put_id_unsigned u w"
| "write_item (IIdString s) w = put_id_string s w"
| "write_item (IContainer is) w = Option.bind (write_items is (start_container w)) end_container"
| "write_item (ICounted is) w = Option.bind (write_items is (start_counted_container w)) end_container"
| "write_items [] w = Some w"
| "write_items (i # is) w = Option.bind (write_item i w) (write_items is)"

section \<open>The writer writes the encoding\<close>

text \<open>A writer between two items: no tag is open in the innermost writer, and one in every other.\<close>

fun ready :: "TLVWriter \<Rightarrow> bool" where
  "ready (TLVW t None st k) \<longleftrightarrow> st = tlv_invalid"
| "ready (TLVW t (Some n) st k) \<longleftrightarrow> (st = tlv_container \<or> st = tlv_counted_container) \<and> ready n"

fun append_leaf :: "string \<Rightarrow> nat \<Rightarrow> TLVWriter \<Rightarrow> TLVWriter" where
  "append_leaf s c (TLVW t None st k) = TLVW (t @ s) None st (k + c)"
| "append_leaf s c (TLVW t (Some n) st k) = TLVW t (Some (append_leaf s c n)) st k"

fun open_leaf :: "u8 \<Rightarrow> string \<Rightarrow> nat \<Rightarrow> TLVWriter \<Rightarrow> TLVWriter" where
  "open_leaf tag d c (TLVW t None st k) = TLVW t (Some (TLVW d None tlv_invalid c)) tag k"
| "open_leaf tag d c (TLVW t (Some n) st k) = TLVW t (Some (open_leaf tag d c n)) st k"

lemma ready_append_leaf [simp]: "ready (append_leaf s c w) = ready w"
  by (induction s c w rule: append_leaf.induct) auto

lemma append_leaf_append [simp]: "append_leaf t d (append_leaf s c w) = append_leaf (s @ t) (c + d) w"
  by (induction s c w rule: append_leaf.induct) auto

lemma append_open_leaf [simp]: "append_leaf s e (open_leaf tag d c w) = open_leaf tag (d @ s) (c + e) w"
  by (induction tag d c w rule: open_leaf.induct) auto

lemma append_leaf_nothing [simp]: "append_leaf [] 0 w = w"
  by (induction "[] :: string" "0 :: nat" w rule: append_leaf.induct) auto

lemma ready_open_leaf: "ready w \<Longrightarrow> tag = tlv_container \<or> tag = tlv_counted_container \<Longrightarrow> ready (open_leaf tag d c w)"
  by (induction tag d c w rule: open_leaf.induct) auto

lemma container_tag_neq: "tlv_container \<noteq> tlv_invalid" "tlv_counted_container \<noteq> tlv_invalid"
  by (simp_all add: tlv_defs)

lemma start_container_open: "start_container_tag tag w = open_leaf tag [] 0 w"
  by (induction tag w rule: start_container_tag.induct) (auto simp: new_writer_def)

lemma len_ok: "n < 2 ^ 32 \<Longrightarrow> length (int_data (of_nat n) False) \<le> 4"
  by (rule int_data_length_le) (simp add: unat_of_nat take_bit_nat_eq_self_iff le_less_trans [OF take_bit_nat_less_eq_self])

lemma finish_enc:
  "length bs < 2 ^ 32 \<Longrightarrow> finish_my_tag bs (TLVW t n st k) = Some (TLVW (t @ enc_tag st bs) n tlv_invalid (k + 1))"
  using len_ok [of "length bs"] by (simp add: Let_def enc_tag_def)

lemma put_tag_enc:
  assumes "length bs < 2 ^ 32" "tag \<noteq> tlv_invalid" "ready w"
  shows "put_tag tag bs w = Some (append_leaf (enc_tag tag bs) 1 w)"
  unfolding put_tag_def using assms(3)
proof (induction w rule: ready.induct)
  case (1 t st k)
  then show ?case using assms by (simp add: finish_enc del: finish_my_tag.simps)
next
  case (2 t n st k)
  then show ?case using container_tag_neq by auto
qed

lemma end_container_enc:
  assumes "length d < 2 ^ 32" "ready w"
  shows "end_container (open_leaf tlv_container d c w) = Some (append_leaf (enc_tag tlv_container d) 1 w)"
  using assms(2)
proof (induction w rule: ready.induct)
  case (1 t st k)
  have "tlv_container \<noteq> tlv_counted_container" by (simp add: tlv_defs)
  with 1 assms(1) show ?case by (simp add: finish_enc del: finish_my_tag.simps)
next
  case (2 t n st k)
  have "tag_started (open_leaf tlv_container d c n)"
    using 2 container_tag_neq by (cases "(tlv_container, d, c, n)" rule: open_leaf.cases) auto
  with 2 show ?case by simp
qed

lemma unsigned_data_short: "length (unsigned_data u) < 2 ^ 32"
  unfolding unsigned_data_def by (rule le_less_trans [OF int_data_unsigned(3)]) simp

lemmas put_unsigned_data = put_tag_enc [OF unsigned_data_short]

lemma put_unsigned_new: "put_unsigned u new_writer = Some (TLVW (enc_tag tlv_unsigned (unsigned_data u)) None tlv_invalid 1)"
  unfolding put_unsigned_def
  by (subst put_unsigned_data) (auto simp: new_writer_def tlv_defs)

lemma end_counted_enc:
  assumes "length (enc_tag tlv_unsigned (unsigned_data (of_nat c)) @ d) < 2 ^ 32" "ready w"
  shows "end_container (open_leaf tlv_counted_container d c w) =
    Some (append_leaf (enc_tag tlv_counted_container (enc_tag tlv_unsigned (unsigned_data (of_nat c)) @ d)) 1 w)"
  using assms(2)
proof (induction w rule: ready.induct)
  case (1 t st k)
  with assms(1) show ?case by (simp add: put_unsigned_new finish_enc del: finish_my_tag.simps)
next
  case (2 t n st k)
  have "tag_started (open_leaf tlv_counted_container d c n)"
    using 2 container_tag_neq by (cases "(tlv_counted_container, d, c, n)" rule: open_leaf.cases) auto
  with 2 show ?case by simp
qed

lemma write_enc:
  shows "fits i \<Longrightarrow> ready w \<Longrightarrow> write_item i w = Some (append_leaf (enc i) 1 w)"
    and "list_all fits is \<Longrightarrow> ready w \<Longrightarrow>
      write_items is w = Some (append_leaf (concat (map enc is)) (length is) w)"
proof (induction i w and "is" w rule: write_item_write_items.induct)
  case (7 "is" w)
  then show ?case
    by (simp add: start_container_def start_container_open ready_open_leaf end_container_enc)
next
  case (8 "is" w)
  then show ?case
    by (simp add: start_counted_container_def start_container_open ready_open_leaf end_counted_enc)
qed (auto simp: put_unsigned_def put_signed_def put_string_def put_blob_def put_id_unsigned_def put_id_string_def
      put_tag_enc put_unsigned_data tlv_defs signed_data_def int_data_signed)

section \<open>The reader reads it back\<close>

text \<open>The calls of a client that expects an item; \<open>None\<close> when a call fails or gives another value.\<close>

fun read_item :: "item \<Rightarrow> string \<Rightarrow> TLVReader \<Rightarrow> TLVReader option"
  and read_items :: "item list \<Rightarrow> string \<Rightarrow> TLVReader \<Rightarrow> TLVReader option" where
  "read_item (IUnsigned u) tlv r = (let (r', v) = read_unsigned tlv r in if v = Some u then Some r' else None)"
| "read_item (ISigned u) tlv r = (let (r', v) = read_signed tlv r in if v = Some u then Some r' else None)"
| "read_item (IString s) tlv r = (let (r', v) = read_string tlv r in if v = Some s then Some r' else None)"
| "read_item (IBlob s) tlv r = (let (r', v) = read_blob tlv r in if v = Some s then Some r' else None)"
| "read_item (IIdUnsigned u) tlv r = (let (_, r', v) = nextTag_unsigned tlv r in if v = Some u then Some r' else None)"
| "read_item (IIdString s) tlv r = (let (_, r', v) = nextTag_string tlv r in if v = Some s then Some r' else None)"
| "read_item (IContainer is) tlv r =
     (let (r1, b) = open_container tlv r
      in if \<not> b then None
         else Option.bind (read_items is tlv r1)
                (\<lambda>r2. if eot tlv r2 then (let (r3, c) = close_container r2 in if c then Some r3 else None) else None))"
| "read_item (ICounted is) tlv r =
     (let (r1, b) = open_counted_container tlv r
      in if b \<noteq> Some (of_nat (length is)) then None
         else Option.bind (read_items is tlv r1)
                (\<lambda>r2. if eot tlv r2 then (let (r3, c) = close_container r2 in if c then Some r3 else None) else None))"
| "read_items [] tlv r = Some r"
| "read_items (i # is) tlv r = Option.bind (read_item i tlv r) (read_items is tlv)"

definition text_at :: "string \<Rightarrow> nat \<Rightarrow> string \<Rightarrow> bool" where
  "text_at tlv p bs \<longleftrightarrow> p + length bs \<le> length tlv \<and> take (length bs) (drop p tlv) = bs"

lemma text_at_append: "text_at tlv p (a @ b) \<longleftrightarrow> text_at tlv p a \<and> text_at tlv (p + length a) b"
  by (auto simp: text_at_def take_add add.commute add.left_commute)

lemma text_at_Cons: "text_at tlv p (c # b) \<longleftrightarrow> chr_at tlv p = c \<and> p < length tlv \<and> text_at tlv (Suc p) b"
  by (auto simp: text_at_def chr_at_def Cons_nth_drop_Suc [symmetric])

text \<open>The chain of readers: every nested reader ends within the one around it.\<close>

fun rd_ok :: "nat \<Rightarrow> TLVReader \<Rightarrow> bool" where
  "rd_ok b (TLVR p s e None) \<longleftrightarrow> e \<le> b"
| "rd_ok b (TLVR p s e (Some n)) \<longleftrightarrow> e \<le> b \<and> rd_ok e n"

fun leaf_end :: "TLVReader \<Rightarrow> nat" where
  "leaf_end (TLVR p s e None) = e"
| "leaf_end (TLVR p s e (Some n)) = leaf_end n"

fun leaf_move :: "nat \<Rightarrow> TLVReader \<Rightarrow> TLVReader" where
  "leaf_move k (TLVR p s e None) = TLVR (p + k) s e None"
| "leaf_move k (TLVR p s e (Some n)) = TLVR p s e (Some (leaf_move k n))"

lemma leaf_move_simps [simp]:
  "reader_pos (leaf_move k r) = reader_pos r + k" "leaf_end (leaf_move k r) = leaf_end r"
  "rd_ok b (leaf_move k r) = rd_ok b r" "leaf_move j (leaf_move k r) = leaf_move (k + j) r"
  by (induction k r arbitrary: b rule: leaf_move.induct) auto

lemma leaf_move_0 [simp]: "leaf_move 0 r = r"
  by (induction "0 :: nat" r rule: leaf_move.induct) auto

lemma rd_ok_mono: "rd_ok b r \<Longrightarrow> b \<le> c \<Longrightarrow> rd_ok c r"
  by (cases "(b, r)" rule: rd_ok.cases) auto

lemma rd_ok_ends: "rd_ok b r \<Longrightarrow> leaf_end r \<le> reader_end r \<and> reader_end r \<le> b"
  by (induction b r rule: rd_ok.induct) auto

text \<open>\<open>has r tlv bs\<close>: the bytes \<open>bs\<close> come next in the innermost reader.\<close>

definition has :: "TLVReader \<Rightarrow> string \<Rightarrow> string \<Rightarrow> bool" where
  "has r tlv bs \<longleftrightarrow> rd_ok (length tlv) r \<and> text_at tlv (reader_pos r) bs \<and> reader_pos r + length bs \<le> leaf_end r"

lemma has_append: "has r tlv (a @ b) \<Longrightarrow> has r tlv a \<and> has (leaf_move (length a) r) tlv b"
  by (auto simp: has_def text_at_append)

lemma char8_byte8 [simp]: "char8 (byte8 w) = w"
proof -
  have "unat w < 2 ^ LENGTH(8)" by (rule unsigned_less)
  then show ?thesis by (simp add: char8_def byte8_def)
qed

lemma tag_bits: "((a AND 0xFC) OR (b AND 3)) AND 3 = (b AND 3 :: u8)" "((a AND 0xFC) OR (b AND 3)) AND 0xFC = (a AND 0xFC :: u8)"
  by (simp_all add: bit.conj_disj_distrib2 and.assoc)

lemma size_bits: "1 \<le> n \<Longrightarrow> n \<le> 4 \<Longrightarrow> unat (of_nat (n - 1) AND 3 :: u8) + 1 = n"
proof -
  assume "1 \<le> n" "n \<le> 4"
  then have "n = 1 \<or> n = 2 \<or> n = 3 \<or> n = 4" by auto
  then show ?thesis by auto
qed

lemma unat_of_length: "n < 2 ^ 32 \<Longrightarrow> unat (of_nat n :: u64) = n"
  by (simp add: unat_of_nat take_bit_nat_eq_self_iff less_trans)

text \<open>The header of an item at a position: its tag, and the size its length bytes denote.\<close>

lemma header_at:
  assumes t: "text_at tlv p (enc_tag tag bs)" and l: "length bs < 2 ^ 32" and e: "p + length (enc_tag tag bs) \<le> e" "e \<le> length tlv"
  defines "n \<equiv> length (int_data (of_nat (length bs)) False)"
  shows "char8 (chr_at tlv p) AND tlv_tagmask = tag AND tlv_tagmask"
    "unat (char8 (chr_at tlv p) AND tlv_sizemask) + 1 = n"
    "unat (get_int_bytes tlv e (p + 1) n 0) = length bs"
    "length (enc_tag tag bs) = 1 + n + length bs"
    "text_at tlv (p + 1 + n) bs"
proof -
  let ?len = "int_data (of_nat (length bs)) False"
  have u: "unat (of_nat (length bs) :: u64) = length bs" using l by (rule unat_of_length)
  have n: "1 \<le> n" "n \<le> 4" unfolding n_def using int_data_unsigned(2) [of "of_nat (length bs)"] len_ok [OF l] by (auto simp: Suc_le_eq)
  have x: "enc_tag tag bs = byte8 ((tag AND 0xFC) OR (of_nat (n - 1) AND 3)) # ?len @ bs"
    by (simp add: enc_tag_def Let_def n_def tlv_defs)
  with t have c: "chr_at tlv p = byte8 ((tag AND 0xFC) OR (of_nat (n - 1) AND 3))"
    and a: "text_at tlv (Suc p) ?len" and b: "text_at tlv (Suc p + n) bs"
    by (auto simp: text_at_Cons text_at_append n_def)
  show "char8 (chr_at tlv p) AND tlv_tagmask = tag AND tlv_tagmask" by (simp add: c tlv_defs tag_bits)
  show "unat (char8 (chr_at tlv p) AND tlv_sizemask) + 1 = n"
    unfolding c tlv_defs char8_byte8 tag_bits by (rule size_bits [OF n])
  show m: "length (enc_tag tag bs) = 1 + n + length bs" by (simp add: x n_def)
  have "get_int_bytes tlv e (p + 1) n 0 = int_bytes_loop tlv e (Suc p) n (of_nat 0)"
    by (simp add: get_int_bytes_def Let_def)
  also have "\<dots> = of_nat (be_value 0 (substr tlv (Suc p) n))"
    using e m by (intro int_bytes_loop_value) simp_all
  also have "substr tlv (Suc p) n = ?len" using a by (simp add: text_at_def substr_def n_def)
  finally show "unat (get_int_bytes tlv e (p + 1) n 0) = length bs" by (simp add: int_data_unsigned u)
  show "text_at tlv (p + 1 + n) bs" using b by simp
qed

lemma nextTag_enc:
  "has r tlv (enc_tag tag bs) \<Longrightarrow> length bs < 2 ^ 32 \<Longrightarrow> nextTag tlv r = tag AND tlv_tagmask"
proof (induction tlv r rule: nextTag.induct)
  case (2 tlv p s e)
  then have t: "text_at tlv p (enc_tag tag bs)" "p + length (enc_tag tag bs) \<le> e" "e \<le> length tlv"
    by (auto simp: has_def)
  from header_at [OF t(1) 2(2) t(2,3)] t show ?case by simp
qed (auto simp: has_def intro: rd_ok_mono)

lemma get_TL_enc:
  "has r tlv (enc_tag tag bs) \<Longrightarrow> length bs < 2 ^ 32 \<Longrightarrow>
   get_TL tlv r = (leaf_move (length (enc_tag tag bs)) r,
      Some (reader_pos r + length (enc_tag tag bs) - length bs, length bs))"
proof (induction tlv r rule: get_TL.induct)
  case (2 tlv p s e)
  then have t: "text_at tlv p (enc_tag tag bs)" "p + length (enc_tag tag bs) \<le> e" "e \<le> length tlv"
    by (auto simp: has_def)
  note h = header_at [OF t(1) 2(2) t(2,3)]
  show ?case using t(2) by (simp only: get_TL.simps Let_def h(2) h(3)) (simp add: h(4))
next
  case (1 tlv p s e n)
  then have "has n tlv (enc_tag tag bs)" by (auto simp: has_def intro: rd_ok_mono)
  with 1 show ?case by simp
qed

definition is_id_tag :: "u8 \<Rightarrow> bool" where
  "is_id_tag tag \<longleftrightarrow> tag = tlv_id_string \<or> tag = tlv_id_unsigned"

lemma nextDataTag_enc:
  "has r tlv (enc_tag tag bs) \<Longrightarrow> length bs < 2 ^ 32 \<Longrightarrow> tag AND tlv_tagmask = tag \<Longrightarrow> \<not> is_id_tag tag \<Longrightarrow>
   nextDataTag tlv r = (tag, r)"
  using nextTag_enc [of r tlv tag bs] by (simp add: nextDataTag_def is_id_tag_def Let_def)

text \<open>The bytes of the data an item has, as a reader further out sees them.\<close>

lemma data_at:
  assumes "has r tlv (enc_tag tag bs)" "length bs < 2 ^ 32"
  shows "substr tlv (reader_pos r + length (enc_tag tag bs) - length bs) (length bs) = bs"
    "reader_pos r + length (enc_tag tag bs) - length bs + length bs \<le> reader_end r" "reader_end r \<le> length tlv"
proof -
  from assms(1) have h: "text_at tlv (reader_pos r) (enc_tag tag bs)" "reader_pos r + length (enc_tag tag bs) \<le> leaf_end r"
    "leaf_end r \<le> reader_end r" "reader_end r \<le> length tlv"
    using rd_ok_ends by (auto simp: has_def)
  note k = header_at [OF h(1) assms(2) h(2) order_trans [OF h(3,4)]]
  show "substr tlv (reader_pos r + length (enc_tag tag bs) - length bs) (length bs) = bs"
    using k(5) by (simp add: k(4) text_at_def substr_def)
  show "reader_pos r + length (enc_tag tag bs) - length bs + length bs \<le> reader_end r" "reader_end r \<le> length tlv"
    using h by (simp_all add: k(4))
qed

lemma get_int_enc:
  assumes "has r tlv (enc_tag tag bs)" "length bs < 2 ^ 32" "be_value 0 bs = unat u" "x \<le> int (length bs)"
  shows "get_int_bytes tlv (reader_end r) (reader_pos r + length (enc_tag tag bs) - length bs) (length bs) x = u"
proof -
  note d = data_at [OF assms(1,2)]
  let ?a = "reader_pos r + length (enc_tag tag bs) - length bs"
  have "get_int_bytes tlv (reader_end r) ?a (length bs) x = int_bytes_loop tlv (reader_end r) ?a (length bs) (of_nat 0)"
    using assms(4) by (simp add: get_int_bytes_def Let_def)
  also have "\<dots> = of_nat (be_value 0 bs)" using int_bytes_loop_value [OF d(2,3), of 0] by (simp only: d(1))
  finally show ?thesis by (simp add: assms(3))
qed

lemma read_int_enc:
  assumes "has r tlv (enc_tag tag bs)" "length bs < 2 ^ 32" "tag AND tlv_tagmask = tag" "\<not> is_id_tag tag"
    "be_value 0 bs = unat u" "x \<le> int (length bs)"
  shows "read_int tag x tlv r = (leaf_move (length (enc_tag tag bs)) r, Some u)"
  using nextDataTag_enc [OF assms(1-4)] get_TL_enc [OF assms(1,2)] get_int_enc [OF assms(1,2,5,6)]
  by (simp add: read_int_def)

lemma get_TLV_string_enc:
  "has r tlv (enc_tag tag bs) \<Longrightarrow> length bs < 2 ^ 32 \<Longrightarrow>
   get_TLV_string tlv r = (leaf_move (length (enc_tag tag bs)) r, Some bs)"
  by (simp add: get_TLV_string_def get_TL_enc data_at)

lemma read_data_enc:
  "has r tlv (enc_tag tag bs) \<Longrightarrow> length bs < 2 ^ 32 \<Longrightarrow> tag AND tlv_tagmask = tag \<Longrightarrow> \<not> is_id_tag tag \<Longrightarrow>
   read_data tag tlv r = (leaf_move (length (enc_tag tag bs)) r, Some bs)"
  by (simp add: read_data_def nextDataTag_enc get_TLV_string_enc)

fun open_rd :: "nat \<Rightarrow> nat \<Rightarrow> nat \<Rightarrow> nat \<Rightarrow> TLVReader \<Rightarrow> TLVReader" where
  "open_rd q a m k (TLVR p s e None) = TLVR (p + k) s e (Some (TLVR q a m None))"
| "open_rd q a m k (TLVR p s e (Some n)) = TLVR p s e (Some (open_rd q a m k n))"

lemma open_rd_simps [simp]:
  "reader_pos (open_rd q a m k r) = q" "leaf_end (open_rd q a m k r) = m"
  "leaf_move j (open_rd q a m k r) = open_rd (q + j) a m k r"
  by (induction q a m k r rule: open_rd.induct) auto

lemma rd_ok_open: "rd_ok b r \<Longrightarrow> m \<le> leaf_end r \<Longrightarrow> rd_ok b (open_rd q a m k r)"
  by (induction b r rule: rd_ok.induct) auto

lemma close_open_rd: "close_container (open_rd q a m k r) = (leaf_move k r, True)"
  by (induction q a m k r rule: open_rd.induct) auto

lemma nextTag_open: "nextTag tlv (open_rd q a m k r) = (if m \<le> q then tlv_invalid else char8 (chr_at tlv q) AND tlv_tagmask)"
  by (induction q a m k r rule: open_rd.induct) auto

lemma container_tags:
  "tlv_container AND tlv_tagmask = tlv_container" "\<not> is_id_tag tlv_container"
  "tlv_counted_container AND tlv_tagmask = tlv_counted_container" "\<not> is_id_tag tlv_counted_container"
  "tlv_unsigned AND tlv_tagmask = tlv_unsigned" "\<not> is_id_tag tlv_unsigned"
  "tlv_signed AND tlv_tagmask = tlv_signed" "\<not> is_id_tag tlv_signed"
  "tlv_string AND tlv_tagmask = tlv_string" "\<not> is_id_tag tlv_string"
  "tlv_blob AND tlv_tagmask = tlv_blob" "\<not> is_id_tag tlv_blob"
  "tlv_id_string AND tlv_tagmask = tlv_id_string" "tlv_id_unsigned AND tlv_tagmask = tlv_id_unsigned"
  by (simp_all add: tlv_defs is_id_tag_def)

lemma has_nested: "has (TLVR p s e (Some n)) tlv bs \<Longrightarrow> has n tlv bs"
  by (auto simp: has_def intro: rd_ok_mono)

lemma open_container_enc:
  assumes "has r tlv (enc_tag tlv_container d)" "length d < 2 ^ 32"
  shows "open_container tlv r =
    (let a = reader_pos r + length (enc_tag tlv_container d) - length d
     in (open_rd a a (a + length d) (length (enc_tag tlv_container d)) r, True))"
  using assms(1)
proof (induction tlv r rule: open_container.induct)
  case (1 tlv p s e n)
  from "1.IH" [OF has_nested [OF "1.prems"]] show ?case by (simp add: Let_def)
next
  case (2 tlv p s e)
  from nextDataTag_enc [OF 2 assms(2) container_tags(1,2)] get_TL_enc [OF 2 assms(2)]
  show ?case by (simp add: Let_def)
qed

lemma has_data:
  assumes "has r tlv (enc_tag tag (x @ y))" "length (x @ y) < 2 ^ 32"
  defines "a \<equiv> reader_pos r + length (enc_tag tag (x @ y)) - length (x @ y)"
  shows "has (TLVR a a (a + length (x @ y)) None) tlv x"
    "has (open_rd (a + length x) a (a + length (x @ y)) (length (enc_tag tag (x @ y))) r) tlv y"
proof -
  from assms(1) have h: "text_at tlv (reader_pos r) (enc_tag tag (x @ y))"
    "reader_pos r + length (enc_tag tag (x @ y)) \<le> leaf_end r" "rd_ok (length tlv) r"
    by (auto simp: has_def)
  note e = rd_ok_ends [OF h(3)]
  note k = header_at [OF h(1) assms(2) h(2)]
  have l: "leaf_end r \<le> length tlv" using e by auto
  have a: "a = reader_pos r + 1 + length (int_data (of_nat (length (x @ y))) False)"
    unfolding a_def k(4) [OF l] by simp
  have t: "text_at tlv a (x @ y)" unfolding a using k(5) [OF l] .
  have b: "a + length (x @ y) \<le> leaf_end r" using h(2) unfolding a k(4) [OF l] by simp
  show "has (TLVR a a (a + length (x @ y)) None) tlv x"
    using t b l by (auto simp: has_def text_at_append)
  show "has (open_rd (a + length x) a (a + length (x @ y)) (length (enc_tag tag (x @ y))) r) tlv y"
    using t b rd_ok_open [OF h(3)] by (auto simp: has_def text_at_append)
qed

lemma open_counted_enc:
  assumes "has r tlv (enc_tag tlv_counted_container (enc_tag tlv_unsigned (unsigned_data c) @ y))"
    "length (enc_tag tlv_unsigned (unsigned_data c) @ y) < 2 ^ 32"
  defines "d \<equiv> enc_tag tlv_unsigned (unsigned_data c) @ y"
  shows "open_counted_container tlv r =
    (let a = reader_pos r + length (enc_tag tlv_counted_container d) - length d
     in (open_rd (a + length (enc_tag tlv_unsigned (unsigned_data c))) a (a + length d)
           (length (enc_tag tlv_counted_container d)) r, Some c))"
  using assms(1)
proof (induction tlv r rule: open_counted_container.induct)
  case (1 tlv p s e n)
  from "1.IH" [OF has_nested [OF "1.prems"]] show ?case by (simp add: Let_def)
next
  case (2 tlv p s e)
  let ?a = "p + length (enc_tag tlv_counted_container d) - length d"
  have h: "has (TLVR ?a ?a (?a + length d) None) tlv (enc_tag tlv_unsigned (unsigned_data c))"
    using has_data(1) [OF 2 assms(2)] by (simp add: d_def)
  have v: "be_value 0 (unsigned_data c) = unat c" by (simp add: unsigned_data_def int_data_unsigned)
  have r: "read_unsigned tlv (TLVR ?a ?a (?a + length d) None) =
     (TLVR (?a + length (enc_tag tlv_unsigned (unsigned_data c))) ?a (?a + length d) None, Some c)"
    unfolding read_unsigned_def using read_int_enc [OF h unsigned_data_short container_tags(5,6) v] by simp
  note assms(2) [folded d_def] and 2 [folded d_def]
  from nextDataTag_enc [OF this(2,1) container_tags(3,4)] get_TL_enc [OF this(2,1)] r
  show ?case by (simp add: Let_def)
qed

lemma id_unsigned_enc:
  assumes "has r tlv (enc_tag tlv_id_unsigned (unsigned_data (ucast (u :: u32))))"
  shows "\<exists>t. nextTag_unsigned tlv r =
    (t, leaf_move (length (enc_tag tlv_id_unsigned (unsigned_data (ucast u)))) r, Some u)"
proof -
  have v: "be_value 0 (unsigned_data (ucast u :: u64)) = unat (ucast u :: u64)"
    by (simp only: unsigned_data_def int_data_unsigned)
  have c: "ucast (ucast u :: u64) = u"
    by (rule bit_word_eqI) (auto simp: bit_simps)
  show ?thesis
    using c nextTag_enc [OF assms unsigned_data_short] get_TL_enc [OF assms unsigned_data_short]
      get_int_enc [OF assms unsigned_data_short v, of 0]
    by (simp add: nextTag_unsigned_def container_tags)
qed

lemma id_string_enc:
  assumes "has r tlv (enc_tag tlv_id_string s)" "length s < 2 ^ 32"
  shows "\<exists>t. nextTag_string tlv r = (t, leaf_move (length (enc_tag tlv_id_string s)) r, Some s)"
  using nextTag_enc [OF assms] get_TLV_string_enc [OF assms]
  by (simp add: nextTag_string_def container_tags)

lemma eot_open: "eot tlv (open_rd m a m k r)"
  by (simp add: eot_def nextTag_open)

lemma read_enc:
  shows "fits i \<Longrightarrow> has r tlv (enc i) \<Longrightarrow> read_item i tlv r = Some (leaf_move (length (enc i)) r)"
    and "list_all fits is \<Longrightarrow> has r tlv (concat (map enc is)) \<Longrightarrow>
      read_items is tlv r = Some (leaf_move (length (concat (map enc is))) r)"
proof (induction i tlv r and "is" tlv r rule: read_item_read_items.induct)
  case (1 u tlv r)
  then show ?case
    using read_int_enc [OF _ unsigned_data_short container_tags(5,6), of r tlv u u 0]
    by (simp add: read_unsigned_def unsigned_data_def int_data_unsigned)
next
  case (2 u tlv r)
  have "length (signed_data u) < 2 ^ 32" by (simp add: signed_data_def int_data_signed)
  with 2 show ?case
    using read_int_enc [of r tlv tlv_signed "signed_data u" u 8] container_tags
    by (simp add: read_signed_def signed_data_def int_data_signed)
next
  case (5 u tlv r)
  then show ?case using id_unsigned_enc [of r tlv u] by auto
next
  case (6 s tlv r)
  then show ?case using id_string_enc [of r tlv s] by auto
next
  case (7 "is" tlv r)
  let ?d = "concat (map enc is)"
  let ?a = "reader_pos r + length (enc_tag tlv_container ?d) - length ?d"
  let ?o = "open_rd ?a ?a (?a + length ?d) (length (enc_tag tlv_container ?d)) r"
  have h: "has r tlv (enc_tag tlv_container ?d)" "length ?d < 2 ^ 32" using 7 by simp_all
  have o: "open_container tlv r = (?o, True)" using open_container_enc [OF h] by (simp add: Let_def)
  have "has ?o tlv ?d" using has_data(2) [of r tlv tlv_container "[]" ?d] h by simp
  with 7 o have "read_items is tlv ?o = Some (leaf_move (length ?d) ?o)" by auto
  with o show ?case by (simp add: eot_open close_open_rd)
next
  case (8 "is" tlv r)
  let ?u = "enc_tag tlv_unsigned (unsigned_data (of_nat (length is)))"
  let ?y = "concat (map enc is)"
  let ?d = "?u @ ?y"
  let ?a = "reader_pos r + length (enc_tag tlv_counted_container ?d) - length ?d"
  let ?o = "open_rd (?a + length ?u) ?a (?a + length ?d) (length (enc_tag tlv_counted_container ?d)) r"
  have h: "has r tlv (enc_tag tlv_counted_container ?d)" "length ?d < 2 ^ 32" using 8 by simp_all
  have o: "open_counted_container tlv r = (?o, Some (of_nat (length is)))"
    using open_counted_enc [OF h] by (simp only: Let_def)
  have "has ?o tlv ?y" using has_data(2) [OF h] .
  with 8 o have "read_items is tlv ?o = Some (leaf_move (length ?y) ?o)" by auto
  moreover have "leaf_move (length ?y) ?o = open_rd (?a + length ?d) ?a (?a + length ?d) (length (enc_tag tlv_counted_container ?d)) r"
    by (simp add: add.assoc)
  ultimately show ?case using o by (simp add: eot_open close_open_rd del: open_rd_simps(3))
next
  case (10 i "is" tlv r)
  then have "has r tlv (enc i)" "has (leaf_move (length (enc i)) r) tlv (concat (map enc is))"
    using has_append by auto
  with 10 show ?case by simp
qed (simp_all add: read_string_def read_blob_def read_data_enc container_tags)

section \<open>The round trip\<close>

text \<open>Writing any items with a new writer and reading the result with a new reader succeeds and ends at the end.\<close>

lemma tlv_roundtrip:
  assumes "list_all fits is"
  shows "\<exists>w. write_items is new_writer = Some w \<and>
     (\<exists>r. read_items is (fst (finalize w)) (new_reader (fst (finalize w))) = Some r \<and> eot (fst (finalize w)) r)"
proof -
  let ?d = "concat (map enc is)"
  have w: "write_items is new_writer = Some (TLVW ?d None tlv_invalid (length is))"
    using write_enc(2) [OF assms, of new_writer] by (simp add: new_writer_def)
  have "has (new_reader ?d) ?d ?d" by (simp add: has_def new_reader_def text_at_def)
  from read_enc(2) [OF assms this]
  have "read_items is ?d (new_reader ?d) = Some (TLVR (length ?d) 0 (length ?d) None)"
    by (simp add: new_reader_def)
  with w show ?thesis by (simp add: finalize_def eot_def)
qed

section \<open>Properties\<close>

text \<open>C34: Whatever items a client writes, containers nested to any depth included, the reader gives
  them all back from the finished text and is at its end afterwards.\<close>

theorem tlv_reads_what_was_written:
  assumes "list_all fits is"
  shows "\<exists>w. write_items is new_writer = Some w \<and>
     (\<exists>r. read_items is (fst (finalize w)) (new_reader (fst (finalize w))) = Some r \<and> eot (fst (finalize w)) r)"
  using assms by (rule tlv_roundtrip)

theorem tlv_reads_what_was_written_witness:
  "\<exists>w. write_items [ICounted [IIdString ''a'', IContainer [ISigned 5], IString ''xy''], IUnsigned 258] new_writer = Some w \<and>
     (\<exists>r. read_items [ICounted [IIdString ''a'', IContainer [ISigned 5], IString ''xy''], IUnsigned 258]
          (fst (finalize w)) (new_reader (fst (finalize w))) = Some r \<and> eot (fst (finalize w)) r)"
proof (rule tlv_reads_what_was_written)
  have l: "length (enc_tag t b) \<le> 9 + length b" for t b
    using int_data_unsigned(3) [of "of_nat (length b)"] by (simp add: enc_tag_def Let_def)
  have u: "length (unsigned_data v) \<le> 8" and s: "length (signed_data v) \<le> 8" for v
    by (simp_all add: unsigned_data_def signed_data_def int_data_unsigned int_data_signed)
  note b = l [of tlv_signed "signed_data 5"] l [of tlv_id_string "''a''"] l [of tlv_string "''xy''"] s [of 5]
      l [of tlv_container "enc_tag tlv_signed (signed_data 5)"] l [of tlv_unsigned "unsigned_data 3"] u [of 3] u [of 258]
  show "list_all fits [ICounted [IIdString ''a'', IContainer [ISigned 5], IString ''xy''], IUnsigned 258]"
    apply (simp del: One_nat_def)
    using b apply (auto simp del: One_nat_def)
    done
qed

text \<open>C35: The writer's chain of nested writers implements the recursive encoding: in any state between two
  items, the calls for an item append its encoding to the innermost open container.\<close>

theorem tlv_writer_refines_encoding:
  assumes "fits i" "ready w"
  shows "write_item i w = Some (append_leaf (enc i) 1 w)"
  using assms by (rule write_enc)

theorem tlv_writer_refines_encoding_witness:
  "write_item (IUnsigned 7) (start_container new_writer) = Some (append_leaf (enc (IUnsigned 7)) 1 (start_container new_writer))"
  by (rule tlv_writer_refines_encoding) (simp_all add: start_container_def new_writer_def)

text \<open>The unsigned integer encoding is the shortest big-endian one: one to eight bytes, that denote the
  number, and no fewer bytes would do.\<close>

theorem int_data_shortest:
  "be_value 0 (int_data d False) = unat d \<and> 1 \<le> length (int_data d False) \<and> length (int_data d False) \<le> 8 \<and>
   (length (int_data d False) = 1 \<or> 256 ^ (length (int_data d False) - 1) \<le> unat d)"
proof (cases "length (int_data d False) = 1")
  case True
  then show ?thesis using int_data_unsigned [of d] by simp
next
  case False
  with int_data_unsigned(2) [of d] have "1 < length (int_data d False)" by linarith
  then show ?thesis using int_data_unsigned [of d] by auto
qed

text \<open>A signed number is never shortened: the test that should leave out the leading sign bytes is always
  true, so every signed number takes eight bytes.\<close>

theorem signed_data_always_eight_bytes:
  "length (signed_data d) = 8 \<and> be_value 0 (signed_data d) = unat d"
  by (simp add: signed_data_def int_data_signed)

end
