(* ===== verification/OpQueue.thy ===== *)
theory OpQueue
  imports Prelude "HOL-Library.Multiset"
begin

text \<open>
  The operation queue (\<open>operationqueue.cpp\<close>): operations with timeout, initiation delay, chaining and
  completion callbacks, and the queue that initiates, completes, times out and aborts them.
\<close>

section \<open>Operations\<close>

text \<open>
  The members of \<open>Operation\<close>; times are microseconds. \<open>oid\<close> is the object's identity, under which
  its completion callback is called. An operation is a pair of its own members and those of the
  operations chained to it, in order.
\<close>

record opcore =
  oid :: nat
  mCompletionCB :: bool
  mInitiated :: bool
  mAborted :: bool
  mTimeout :: int
  mTimesOutAt :: int
  mInitiationDelay :: int
  mFromLastInitiation :: bool
  mInitiatesNotBefore :: int
  mInSequence :: bool

type_synonym operation = "opcore \<times> opcore list"

datatype OQError = OQ_OK | OQ_Aborted | OQ_TimedOut

text \<open>A call of a completion callback: whose it is and the error it is given.\<close>

type_synonym call = "nat \<times> OQError option"

definition new_operation :: "nat \<Rightarrow> opcore" where
  "new_operation n =
     \<lparr>oid = n, mCompletionCB = False, mInitiated = False, mAborted = False, mTimeout = 0, mTimesOutAt = 0,
      mInitiationDelay = 0, mFromLastInitiation = False, mInitiatesNotBefore = 0, mInSequence = True\<rparr>"

definition op_reset :: "operation \<Rightarrow> operation" where
  "op_reset p = ((fst p)\<lparr>mCompletionCB := False\<rparr>, [])"

definition setTimeout :: "int \<Rightarrow> operation \<Rightarrow> operation" where
  "setTimeout t p = ((fst p)\<lparr>mTimeout := t\<rparr>, snd p)"

definition setInitiationDelay :: "int \<Rightarrow> bool \<Rightarrow> operation \<Rightarrow> operation" where
  "setInitiationDelay d fromLast p =
     ((fst p)\<lparr>mInitiationDelay := d, mFromLastInitiation := fromLast, mInitiatesNotBefore := 0\<rparr>, snd p)"

definition setInitiatesAt :: "int \<Rightarrow> operation \<Rightarrow> operation" where
  "setInitiatesAt t p = ((fst p)\<lparr>mInitiatesNotBefore := t\<rparr>, snd p)"

definition setChainedOperation :: "operation option \<Rightarrow> operation \<Rightarrow> operation" where
  "setChainedOperation c p = (fst p, case c of None \<Rightarrow> [] | Some q \<Rightarrow> fst q # snd q)"

definition setCompletionCallback :: "bool \<Rightarrow> operation \<Rightarrow> operation" where
  "setCompletionCallback b p = ((fst p)\<lparr>mCompletionCB := b\<rparr>, snd p)"

definition canInitiate :: "int \<Rightarrow> int \<Rightarrow> opcore \<Rightarrow> opcore \<times> bool" where
  "canInitiate now aLastInitiation p =
     (let q = (if 0 < mInitiationDelay p \<and> mInitiatesNotBefore p = 0
               then p\<lparr>mInitiatesNotBefore := (if mFromLastInitiation p then aLastInitiation else now) + mInitiationDelay p,
                      mInitiationDelay := 0\<rparr>
               else p)
      in (q, mInitiatesNotBefore q = 0 \<or> mInitiatesNotBefore q < now))"

text \<open>\<open>initiate\<close> of the base class; an operation whose class refuses to be initiated stays as it is.\<close>

definition initiate :: "int \<Rightarrow> opcore \<Rightarrow> opcore" where
  "initiate now p = p\<lparr>mInitiated := True, mTimesOutAt := (if mTimeout p \<noteq> 0 then now + mTimeout p else 0)\<rparr>"

definition hasTimedOutAt :: "int \<Rightarrow> opcore \<Rightarrow> bool" where
  "hasTimedOutAt t p \<longleftrightarrow> mTimesOutAt p \<noteq> 0 \<and> mTimesOutAt p \<le> t"

text \<open>
  \<open>finalize\<close>: the callback called, if any, and the operation to run next. The callback may still
  chain an operation to this one; \<open>setsChain\<close> is what it chains.
\<close>

definition finalize_op :: "(nat \<Rightarrow> operation option) \<Rightarrow> operation \<Rightarrow> call list \<times> operation option" where
  "finalize_op setsChain p =
     (let c = fst p
      in case snd p of
           n # ns \<Rightarrow> ([], Some (n, ns))
         | [] \<Rightarrow> if mCompletionCB c then ([(oid c, None)], setsChain (oid c)) else ([], None))"

text \<open>\<open>abortOperation\<close>: this operation's callback, then those of the chained ones, each if not aborted before.\<close>

definition abort_call :: "OQError option \<Rightarrow> opcore \<Rightarrow> call list" where
  "abort_call err c = (if \<not> mAborted c \<and> mCompletionCB c \<and> err \<noteq> None then [(oid c, err)] else [])"

fun abort_chain :: "OQError option \<Rightarrow> opcore list \<Rightarrow> call list" where
  "abort_chain err [] = []"
| "abort_chain err (c # cs) = abort_call err c @ abort_chain err cs"

definition abortOperation :: "OQError option \<Rightarrow> operation \<Rightarrow> operation \<times> call list" where
  "abortOperation err p =
     (((fst p)\<lparr>mAborted := True, mCompletionCB := False\<rparr>, []), abort_chain err (fst p # snd p))"

section \<open>The queue\<close>

record opqueue =
  ops :: "operation list"
  mIsProcessingQueue :: bool
  mLastInitiation :: int

text \<open>
  What the queue gets from outside in one call: the time, which operations have completed (the
  virtual \<open>hasCompleted\<close>) and which can be started (the result of the virtual \<open>initiate\<close>; one that cannot
  stays as it is), and what the callbacks do: the operations a callback queues at the end, and the
  operation a callback of a completed operation chains. A callback called with an error chains nothing.
\<close>

record qenv =
  now :: int
  completed :: "nat \<Rightarrow> bool"
  starts :: "nat \<Rightarrow> bool"
  queues :: "call \<Rightarrow> operation list"
  chains :: "nat \<Rightarrow> operation option"

definition new_queue :: opqueue where
  "new_queue = \<lparr>ops = [], mIsProcessingQueue = False, mLastInitiation = 0\<rparr>"

definition queueOperation :: "operation \<Rightarrow> opqueue \<Rightarrow> opqueue" where
  "queueOperation p q = q\<lparr>ops := ops q @ [p]\<rparr>"

definition callbacks_queue :: "qenv \<Rightarrow> call list \<Rightarrow> operation list" where
  "callbacks_queue e cs = concat (map (queues e) cs)"

text \<open>
  What the loop body of \<open>processOneOperation\<close> does with one operation: stop at it, remove it from the
  queue (with the callbacks called and the operation put in its place), or pass on to the next one.
\<close>

datatype verdict = Stop opcore | Remove "call list" "operation option" | Pass opcore

definition check_op :: "qenv \<Rightarrow> int \<Rightarrow> operation \<Rightarrow> int \<times> verdict" where
  "check_op e lst p =
     (if hasTimedOutAt (now e) (fst p) then (lst, Remove (snd (abortOperation (Some OQ_TimedOut) p)) None)
      else let c = fst p; (d, can) = canInitiate (now e) lst c;
               (c1, lst1) = (if mInitiated c then (c, lst) else if can \<and> starts e (oid c) then (initiate (now e) d, now e) else (d, lst))
           in (lst1,
               if \<not> mInitiated c \<and> \<not> can \<and> mInSequence c then Stop c1
               else if mAborted c1 then Remove [] None
               else if mInitiated c1
               then if completed e (oid c1) then (let (cs, nx) = finalize_op (chains e) (c1, snd p) in Remove cs nx)
                    else if mInSequence c1 then Stop c1 else Pass c1
               else Pass c1))"

definition in_place :: "qenv \<Rightarrow> operation option \<Rightarrow> operation list" where
  "in_place e nx = (case nx of None \<Rightarrow> [] | Some (n, ns) \<Rightarrow> [(if starts e (oid n) then initiate (now e) n else n, ns)])"

text \<open>
  What stands behind the operations already passed when one is removed: the operation to run next is
  inserted where it was, before \<open>after\<close>. When it was the last one, that place is the end of the list,
  behind what the callbacks have queued meanwhile.
\<close>

definition put_back :: "qenv \<Rightarrow> call list \<Rightarrow> operation option \<Rightarrow> operation list \<Rightarrow> operation list" where
  "put_back e cs nx after =
     (if after = [] then callbacks_queue e cs @ in_place e nx else in_place e nx @ after @ callbacks_queue e cs)"

text \<open>
  The loop over the operations, \<open>before\<close> being those already passed. The result: the queue, the time
  of the last initiation, the callbacks called, and \<open>pleaseCallAgainSoon\<close>.
\<close>

fun process_ops :: "qenv \<Rightarrow> int \<Rightarrow> operation list \<Rightarrow> operation list \<Rightarrow> operation list \<times> int \<times> call list \<times> bool" where
  "process_ops e lst before [] = (before, lst, [], False)"
| "process_ops e lst before (p # after) =
     (case check_op e lst p of
        (lst1, Stop c) \<Rightarrow> (before @ (c, snd p) # after, lst1, [], False)
      | (lst1, Remove cs nx) \<Rightarrow> (before @ put_back e cs nx after, lst1, cs, True)
      | (lst1, Pass c) \<Rightarrow> process_ops e lst1 (before @ [(c, snd p)]) after)"

text \<open>\<open>True\<close> is the result "completed": nothing more to do at once.\<close>

definition processOneOperation :: "qenv \<Rightarrow> opqueue \<Rightarrow> opqueue \<times> call list \<times> bool" where
  "processOneOperation e q =
     (if mIsProcessingQueue q then (q, [], True)
      else let (xs, lst, cs, again) = process_ops e (mLastInitiation q) [] (ops q)
           in (q\<lparr>ops := xs, mLastInitiation := lst\<rparr>, cs, \<not> again))"

text \<open>
  \<open>processOperations\<close> repeats until one call reports completion; \<open>es\<close> is the environment of each
  round, and \<open>None\<close> is that the rounds given are not enough.
\<close>

fun processOperations :: "qenv list \<Rightarrow> opqueue \<Rightarrow> (opqueue \<times> call list) option" where
  "processOperations [] q = None"
| "processOperations (e # es) q =
     (let (q', cs, done) = processOneOperation e q
      in if done then Some (q', cs)
         else map_option (\<lambda>(r, ds). (r, cs @ ds)) (processOperations es q'))"

text \<open>
  \<open>abortOperations\<close>: what a callback queues meanwhile is appended to the list the loop runs over, so the
  loop ends only when the callbacks stop queueing; then the queue is cleared.
\<close>

partial_function (option) abort_loop :: "qenv \<Rightarrow> OQError option \<Rightarrow> operation list \<Rightarrow> call list option" where
  "abort_loop e err xs =
     (case xs of
        [] \<Rightarrow> Some []
      | p # ps \<Rightarrow>
          let cs = snd (abortOperation err p)
          in Option.bind (abort_loop e err (ps @ callbacks_queue e cs)) (\<lambda>ds. Some (cs @ ds)))"

definition abortOperations :: "qenv \<Rightarrow> OQError option \<Rightarrow> opqueue \<Rightarrow> (opqueue \<times> call list) option" where
  "abortOperations e err q = map_option (\<lambda>cs. (q\<lparr>ops := []\<rparr>, cs)) (abort_loop e err (ops q))"

section \<open>Loops that make progress\<close>

text \<open>
  The interface of a loop that repeats a step until it reports that it is done, where a step that is
  not done makes a measure smaller: it ends after at most that many more rounds.
\<close>

locale progress_loop =
  fixes step :: "'e \<Rightarrow> 's \<Rightarrow> 's \<times> 'c list \<times> bool"
    and loop :: "'e list \<Rightarrow> 's \<Rightarrow> ('s \<times> 'c list) option"
    and size :: "'s \<Rightarrow> nat"
    and good :: "'e \<Rightarrow> bool"
  assumes loop_Nil: "loop [] s = None"
    and loop_Cons: "loop (e # es) s = (let (t, cs, done) = step e s
        in if done then Some (t, cs) else map_option (\<lambda>(r, ds). (r, cs @ ds)) (loop es t))"
    and progress: "good e \<Longrightarrow> step e s = (t, cs, False) \<Longrightarrow> size t < size s"
begin

lemma loop_ends: "list_all good es \<Longrightarrow> size s < length es \<Longrightarrow> \<exists>r. loop es s = Some r"
proof (induction es arbitrary: s)
  case (Cons e es)
  obtain t cs d where s: "step e s = (t, cs, d)" by (metis prod_cases3)
  show ?case
  proof (cases d)
    case False
    with Cons.prems s progress [of e s t cs] have "size t < length es" by auto
    with Cons.IH [of t] Cons.prems obtain r where "loop es t = Some r" by fastforce
    with s False show ?thesis by (cases r) (simp add: loop_Cons)
  qed (simp add: loop_Cons s)
qed simp

lemma loop_invariant:
  assumes step: "\<And>e s t cs d. P s \<Longrightarrow> e \<in> set es0 \<Longrightarrow> step e s = (t, cs, d) \<Longrightarrow> P t"
  shows "loop es s = Some (t, cs) \<Longrightarrow> set es \<subseteq> set es0 \<Longrightarrow> P s \<Longrightarrow> P t"
proof (induction es arbitrary: s cs)
  case (Cons e es)
  obtain t' cs' d where s: "step e s = (t', cs', d)" by (metis prod_cases3)
  have P: "P t'" using step [OF Cons.prems(3) _ s] Cons.prems(2) by simp
  show ?case
  proof (cases d)
    case True
    with Cons.prems s P show ?thesis by (simp add: loop_Cons)
  next
    case False
    with Cons.prems s obtain ds where "loop es t' = Some (t, ds)" by (auto simp: loop_Cons)
    with Cons.IH Cons.prems P show ?thesis by simp
  qed
qed (simp add: loop_Nil)

end

section \<open>What the queue keeps\<close>

definition fresh :: "operation list \<Rightarrow> bool" where
  "fresh xs \<longleftrightarrow> list_all (\<lambda>p. \<not> mInitiated (fst p)) xs"

text \<open>
  Operations are initiated in order: behind an in-sequence operation that is not initiated there is
  none that is.
\<close>

fun in_order :: "operation list \<Rightarrow> bool" where
  "in_order [] \<longleftrightarrow> True"
| "in_order (p # ps) \<longleftrightarrow> (mInSequence (fst p) \<and> \<not> mInitiated (fst p) \<longrightarrow> fresh ps) \<and> in_order ps"

lemma fresh_append [simp]: "fresh (xs @ ys) \<longleftrightarrow> fresh xs \<and> fresh ys"
  by (simp add: fresh_def)

lemma fresh_Nil [simp]: "fresh []"
  by (simp add: fresh_def)

lemma fresh_in_order: "fresh xs \<Longrightarrow> in_order xs"
  by (induction xs) (auto simp: fresh_def)

lemma in_order_fresh: "in_order xs \<Longrightarrow> fresh ys \<Longrightarrow> in_order (xs @ ys)"
  by (induction xs) (auto intro: fresh_in_order)

lemma in_order_free: "list_all (\<lambda>p. \<not> mInSequence (fst p)) xs \<Longrightarrow> in_order (xs @ ys) = in_order ys"
  by (induction xs) auto

text \<open>
  What is asked of the outside: every operation can be started, callbacks queue operations not yet
  initiated, and none both queues an operation and chains one.
\<close>

definition orderly :: "qenv \<Rightarrow> bool" where
  "orderly e \<longleftrightarrow> (\<forall>n. starts e n) \<and> (\<forall>c. fresh (queues e c)) \<and> (\<forall>n. chains e n = None \<or> queues e (n, None) = [])"

lemma callbacks_fresh: "orderly e \<Longrightarrow> fresh (callbacks_queue e cs)"
  by (induction cs) (auto simp: callbacks_queue_def orderly_def)

lemma canInitiate_keeps:
  "canInitiate n l c = (d, can) \<Longrightarrow>
   mInSequence d = mInSequence c \<and> oid d = oid c \<and> mCompletionCB d = mCompletionCB c \<and> mInitiated d = mInitiated c \<and> mAborted d = mAborted c"
  by (auto simp: canInitiate_def Let_def split: if_splits)

lemma initiate_keeps [simp]:
  "mInSequence (initiate n c) = mInSequence c" "oid (initiate n c) = oid c"
  "mCompletionCB (initiate n c) = mCompletionCB c" "mInitiated (initiate n c)" "mAborted (initiate n c) = mAborted c"
  by (simp_all add: initiate_def)

text \<open>What \<open>check_op\<close> says of the operation, by verdict.\<close>

lemma check_Stop:
  "check_op e lst p = (l, Stop c) \<Longrightarrow>
   oid c = oid (fst p) \<and> mInSequence c = mInSequence (fst p) \<and> mCompletionCB c = mCompletionCB (fst p) \<and>
   (mInitiated (fst p) \<longrightarrow> mInitiated c)"
  by (cases "canInitiate (now e) lst (fst p)")
     (auto simp: check_op_def Let_def dest: canInitiate_keeps split: if_splits prod.splits)

lemma check_Pass:
  "check_op e lst p = (l, Pass c) \<Longrightarrow>
   oid c = oid (fst p) \<and> mCompletionCB c = mCompletionCB (fst p) \<and> (starts e (oid (fst p)) \<longrightarrow> \<not> mInSequence c)"
  by (cases "canInitiate (now e) lst (fst p)")
     (auto simp: check_op_def Let_def dest: canInitiate_keeps split: if_splits prod.splits)

lemma finalize_cong:
  "oid c = oid d \<Longrightarrow> mCompletionCB c = mCompletionCB d \<Longrightarrow> finalize_op f (c, cs) = finalize_op f (d, cs)"
  by (cases cs) (simp_all add: finalize_op_def)

lemma check_Remove:
  assumes "check_op e lst p = (l, Remove cs nx)"
  shows "(cs, nx) = (abort_chain (Some OQ_TimedOut) (fst p # snd p), None) \<or> (cs, nx) = ([], None) \<and> mAborted (fst p) \<or>
    (cs, nx) = finalize_op (chains e) p \<and> completed e (oid (fst p))"
proof -
  obtain d can where d: "canInitiate (now e) lst (fst p) = (d, can)" by fastforce
  note k = canInitiate_keeps [OF d]
  then have f: "finalize_op (chains e) (initiate (now e) d, snd p) = finalize_op (chains e) p"
    using finalize_cong [of "initiate (now e) d" "fst p" "chains e" "snd p"] by simp
  from assms d f k show ?thesis
    by (auto simp: check_op_def abortOperation_def Let_def split: if_splits prod.splits)
qed

lemma finalize_queues: "orderly e \<Longrightarrow> (cs, nx) = finalize_op (chains e) p \<Longrightarrow> nx = None \<or> callbacks_queue e cs = []"
  by (auto simp: finalize_op_def orderly_def callbacks_queue_def Let_def split: list.splits if_splits)

lemma removed_queues: "orderly e \<Longrightarrow> check_op e lst p = (l, Remove cs nx) \<Longrightarrow> nx = None \<or> callbacks_queue e cs = []"
  using finalize_queues [of e cs nx p] by (auto dest: check_Remove)

lemma put_back_in_order:
  assumes "orderly e" "check_op e lst p = (l, Remove cs nx)" "in_order after"
  shows "in_order (put_back e cs nx after)"
proof -
  have i: "in_order (in_place e nx @ after)"
    using assms(1,3) by (auto simp: in_place_def orderly_def split: option.splits)
  have "in_order ((in_place e nx @ after) @ callbacks_queue e cs)"
    using i callbacks_fresh [OF assms(1)] by (rule in_order_fresh)
  moreover have "in_order (callbacks_queue e cs @ in_place e nx)"
    using removed_queues [OF assms(1,2)] i callbacks_fresh [OF assms(1)] in_order_fresh [of "in_place e nx" "[]"]
    by (auto simp: in_place_def orderly_def intro: fresh_in_order split: option.splits)
  ultimately show ?thesis by (simp add: put_back_def)
qed

lemma process_ops_in_order:
  assumes "orderly e" "list_all (\<lambda>p. \<not> mInSequence (fst p)) before" "in_order xs"
  shows "in_order (fst (process_ops e lst before xs))"
  using assms(2,3)
proof (induction xs arbitrary: lst before)
  case Nil
  then show ?case using in_order_free [of before "[]"] by simp
next
  case (Cons p after)
  obtain l v where v: "check_op e lst p = (l, v)" by fastforce
  have b: "in_order (before @ ys) = in_order ys" for ys using Cons.prems(1) by (rule in_order_free)
  show ?case
  proof (cases v)
    case (Stop c)
    with v Cons.prems check_Stop [of e lst p l c] show ?thesis by (auto simp: b)
  next
    case (Pass c)
    have "starts e (oid (fst p))" using assms(1) by (simp add: orderly_def)
    with v Pass Cons check_Pass [of e lst p l c] show ?thesis by simp
  next
    case (Remove cs nx)
    with v Cons.prems(2) put_back_in_order [OF assms(1), of lst p l cs nx after] show ?thesis by (simp add: b)
  qed
qed

lemma processOne_in_order:
  "orderly e \<Longrightarrow> in_order (ops q) \<Longrightarrow> in_order (ops (fst (processOneOperation e q)))"
  using process_ops_in_order [of e "[]" "ops q" "mLastInitiation q"]
  by (auto simp: processOneOperation_def split: prod.splits)

section \<open>Callbacks are accounted for\<close>

text \<open>The callbacks an operation still has, those of its chain included, by the identity of their owner.\<close>

definition cb_ids :: "operation \<Rightarrow> nat multiset" where
  "cb_ids p = mset (map oid (filter mCompletionCB (fst p # snd p)))"

definition pending :: "operation list \<Rightarrow> nat multiset" where
  "pending xs = sum_list (map cb_ids xs)"

text \<open>What the callbacks add: the operations they queue, and those they chain.\<close>

definition chained :: "qenv \<Rightarrow> call list \<Rightarrow> operation list" where
  "chained e cs = concat (map (\<lambda>c. case chains e (fst c) of None \<Rightarrow> [] | Some p \<Rightarrow> if snd c = None then [p] else []) cs)"

definition added :: "qenv \<Rightarrow> call list \<Rightarrow> operation list" where
  "added e cs = callbacks_queue e cs @ chained e cs"

text \<open>
  Aborted operations have neither a callback nor a chained operation: \<open>abortOperation\<close> leaves none, so
  that one that is itself chained to another is the last of the chain.
\<close>

definition tidy_op :: "operation \<Rightarrow> bool" where
  "tidy_op p \<longleftrightarrow> (\<forall>c\<in>set (fst p # snd p). mAborted c \<longrightarrow> \<not> mCompletionCB c) \<and> (\<forall>c\<in>set (butlast (fst p # snd p)). \<not> mAborted c)"

definition tidy :: "operation list \<Rightarrow> bool" where
  "tidy xs \<longleftrightarrow> list_all tidy_op xs"

lemma tidy_aborted: "tidy_op (fst (abortOperation err p))"
  by (simp add: tidy_op_def abortOperation_def)

lemma tidy_simps [simp]: "tidy []" "tidy (p # xs) \<longleftrightarrow> tidy_op p \<and> tidy xs" "tidy (xs @ ys) \<longleftrightarrow> tidy xs \<and> tidy ys"
  by (simp_all add: tidy_def)





lemma pending_simps [simp]:
  "pending [] = {#}" "pending (p # xs) = cb_ids p + pending xs" "pending (xs @ ys) = pending xs + pending ys"
  by (simp_all add: pending_def)














section \<open>The queue makes progress\<close>

text \<open>How many operations there are, the chained ones included.\<close>

definition total :: "operation list \<Rightarrow> nat" where
  "total xs = sum_list (map (\<lambda>p. 1 + length (snd p)) xs)"

lemma total_simps [simp]: "total [] = 0" "total (p # xs) = 1 + length (snd p) + total xs" "total (xs @ ys) = total xs + total ys"
  by (simp_all add: total_def)

lemma remove_total:
  assumes "check_op e lst p = (l, Remove cs nx)"
  shows "total (in_place e nx) < total [p] + total (chained e cs)"
proof -
  consider (none) "nx = None" | (final) "(cs, nx) = finalize_op (chains e) p" using check_Remove [OF assms] by auto
  then show ?thesis
  proof cases
    case final
    then show ?thesis
      by (cases "snd p") (auto simp: finalize_op_def in_place_def chained_def Let_def split: option.splits if_splits)
  qed (simp add: in_place_def)
qed

lemma process_ops_total:
  assumes "process_ops e lst before xs = (ys, l, cs, True)"
  shows "total ys < total before + total xs + total (added e cs)"
  using assms
proof (induction xs arbitrary: lst before)
  case (Cons p after)
  obtain l1 v where v: "check_op e lst p = (l1, v)" by fastforce
  show ?case
  proof (cases v)
    case (Pass c)
    from Cons.IH [of l1 "before @ [(c, snd p)]"] Cons.prems v Pass show ?thesis by simp
  next
    case (Remove ds nx)
    have "total (put_back e ds nx after) = total (in_place e nx) + total after + total (callbacks_queue e ds)" by (simp add: put_back_def)
    with Cons.prems v Remove remove_total [of e lst p l1 ds nx] show ?thesis by (auto simp: added_def)
  qed (use Cons.prems v in simp)
qed simp

text \<open>An environment whose callbacks add nothing.\<close>

definition adds_nothing :: "qenv \<Rightarrow> bool" where
  "adds_nothing e \<longleftrightarrow> (\<forall>c. queues e c = []) \<and> (\<forall>n. chains e n = None)"

lemma callbacks_nothing: "(\<forall>c. queues e c = []) \<Longrightarrow> callbacks_queue e cs = []"
  by (simp add: callbacks_queue_def split_paired_all)

lemma adds_nothing_added: "adds_nothing e \<Longrightarrow> added e cs = []"
  using callbacks_nothing [of e cs] by (induction cs) (auto simp: adds_nothing_def added_def chained_def)

lemma processOne_total:
  "adds_nothing e \<Longrightarrow> processOneOperation e q = (q', cs, False) \<Longrightarrow> total (ops q') < total (ops q)"
  using process_ops_total [of e "mLastInitiation q" "[]" "ops q"] adds_nothing_added [of e]
  by (auto simp: processOneOperation_def split: if_splits prod.splits)

interpretation oq: progress_loop processOneOperation processOperations "\<lambda>q. total (ops q)" adds_nothing
  by unfold_locales (simp_all add: processOne_total)

lemma processOperations_ends:
  "list_all adds_nothing es \<Longrightarrow> total (ops q) < length es \<Longrightarrow> \<exists>r. processOperations es q = Some r"
  by (rule oq.loop_ends)

lemma processOperations_in_order:
  assumes "list_all orderly es" "in_order (ops q)" "processOperations es q = Some (q', cs)"
  shows "in_order (ops q')"
proof (rule oq.loop_invariant [where P = "\<lambda>q. in_order (ops q)" and es0 = es, OF _ assms(3) order_refl assms(2)])
  fix e s t ds d
  assume "in_order (ops s)" "e \<in> set es" "processOneOperation e s = (t, ds, d)"
  then show "in_order (ops t)"
    using processOne_in_order [of e s] assms(1) by (simp add: list_all_iff)
qed

lemma abort_loop_nothing:
  assumes "\<forall>c. queues e c = []"
  shows "abort_loop e err xs = Some (concat (map (\<lambda>p. snd (abortOperation err p)) xs))"
proof (induction xs)
  case Nil
  then show ?case by (subst abort_loop.simps) simp
next
  case (Cons p xs)
  then show ?case by (subst abort_loop.simps) (simp add: callbacks_nothing [OF assms] Let_def)
qed

lemma abortOperations_all:
  assumes "\<forall>c. queues e c = []"
  shows "abortOperations e err q =
    Some (q\<lparr>ops := []\<rparr>, concat (map (\<lambda>p. abort_chain err (fst p # snd p)) (ops q)))"
  by (simp add: abortOperations_def abort_loop_nothing [OF assms] abortOperation_def)

section \<open>Properties\<close>

text \<open>C36: Operations are initiated in order: processing the queue keeps that behind an in-sequence operation
  that is not initiated there is none that is; provided that no class of operations refuses to be
  initiated, that callbacks queue operations not yet initiated, and that no callback both queues an
  operation and chains one (each of these does break the order).\<close>

theorem queue_initiates_in_order:
  assumes "list_all orderly es" "in_order (ops q)" "processOperations es q = Some (q', cs)"
  shows "in_order (ops q')"
  using assms by (rule processOperations_in_order)

theorem queue_initiates_in_order_witness:
  "in_order (ops (fst (the (processOperations [\<lparr>now = 5, completed = (\<lambda>n. False), starts = (\<lambda>n. True), queues = (\<lambda>c. []), chains = (\<lambda>n. None)\<rparr>]
      (queueOperation (new_operation 2, []) (queueOperation (new_operation 1, []) new_queue))))))"
proof -
  let ?e = "\<lparr>now = 5, completed = (\<lambda>n. False), starts = (\<lambda>n. True), queues = (\<lambda>c. []), chains = (\<lambda>n. None)\<rparr>"
  let ?q = "queueOperation (new_operation 2, []) (queueOperation (new_operation 1, []) new_queue)"
  obtain r where r: "processOperations [?e] ?q = Some r"
    by (auto simp: processOneOperation_def queueOperation_def new_queue_def new_operation_def check_op_def hasTimedOutAt_def
        canInitiate_def initiate_def Let_def)
  then have p: "processOperations [?e] ?q = Some (fst r, snd r)" by simp
  have "in_order (ops (fst r))"
    by (rule queue_initiates_in_order [OF _ _ p])
       (simp_all add: orderly_def queueOperation_def new_queue_def fresh_def new_operation_def)
  with r show ?thesis by simp
qed



text \<open>C38: Processing the queue ends: if the callbacks add nothing, one round more than there are operations,
  chained ones included, is enough.\<close>

theorem queue_processing_ends:
  assumes "list_all adds_nothing es" "total (ops q) < length es"
  shows "\<exists>r. processOperations es q = Some r"
  using assms by (rule processOperations_ends)

theorem queue_processing_ends_witness:
  "\<exists>r. processOperations (replicate 3 \<lparr>now = 5, completed = (\<lambda>n. True), starts = (\<lambda>n. True), queues = (\<lambda>c. []), chains = (\<lambda>n. None)\<rparr>)
     (queueOperation (new_operation 1, [new_operation 2]) new_queue) = Some r"
  by (rule queue_processing_ends) (simp_all add: adds_nothing_def queueOperation_def new_queue_def eval_nat_numeral)

text \<open>Aborting the queue empties it and calls, in queue order, the callback of every operation and of those
  chained to it that is not yet aborted, with the error given, and none without an error.\<close>

theorem abort_calls_all_callbacks:
  assumes "\<forall>c. queues e c = []"
  shows "abortOperations e err q =
    Some (q\<lparr>ops := []\<rparr>, concat (map (\<lambda>p. concat (map (abort_call err) (fst p # snd p))) (ops q)))"
proof -
  have "abort_chain err cs = concat (map (abort_call err) cs)" for cs by (induction cs) simp_all
  then show ?thesis using abortOperations_all [OF assms] by simp
qed

theorem abort_calls_all_callbacks_witness:
  "abortOperations \<lparr>now = 0, completed = (\<lambda>n. True), starts = (\<lambda>n. True), queues = (\<lambda>c. []), chains = (\<lambda>n. None)\<rparr> (Some OQ_Aborted)
     (new_queue\<lparr>ops := [((new_operation 1)\<lparr>mCompletionCB := True\<rparr>, [(new_operation 2)\<lparr>mCompletionCB := True\<rparr>])]\<rparr>) =
   Some (new_queue, [(1, Some OQ_Aborted), (2, Some OQ_Aborted)])"
  by (subst abort_calls_all_callbacks) (simp_all add: abort_call_def new_operation_def new_queue_def)

text \<open>A chained operation is initiated in the same call in which its predecessor completes, whatever its own
  initiation delay or earliest time: \<open>canInitiate\<close> is not asked.\<close>

theorem chained_operation_ignores_delay:
  assumes "\<not> mIsProcessingQueue q" "ops q = (c, n # ns) # rest" "mInitiated c" "\<not> mAborted c"
    "\<not> hasTimedOutAt (now e) c" "completed e (oid c)" "starts e (oid n)"
  shows "processOneOperation e q = (q\<lparr>ops := (initiate (now e) n, ns) # rest\<rparr>, [], False)"
  using assms
  by (cases "canInitiate (now e) (mLastInitiation q) c")
     (simp add: processOneOperation_def check_op_def finalize_op_def in_place_def put_back_def callbacks_queue_def Let_def)

theorem chained_operation_ignores_delay_witness:
  "ops (fst (processOneOperation \<lparr>now = 5, completed = (\<lambda>n. True), starts = (\<lambda>n. True), queues = (\<lambda>c. []), chains = (\<lambda>n. None)\<rparr>
     (new_queue\<lparr>ops := [(initiate 1 (new_operation 1), [(new_operation 2)\<lparr>mInitiationDelay := 1000\<rparr>])]\<rparr>))) =
   [(initiate 5 ((new_operation 2)\<lparr>mInitiationDelay := 1000\<rparr>), [])]"
proof -
  let ?e = "\<lparr>now = 5, completed = (\<lambda>n. True), starts = (\<lambda>n. True), queues = (\<lambda>c. []), chains = (\<lambda>n. None)\<rparr>"
  let ?n = "(new_operation 2)\<lparr>mInitiationDelay := 1000\<rparr>"
  let ?q = "new_queue\<lparr>ops := [(initiate 1 (new_operation 1), [?n])]\<rparr>"
  have "processOneOperation ?e ?q = (?q\<lparr>ops := [(initiate (now ?e) ?n, [])]\<rparr>, [], False)"
    by (rule chained_operation_ignores_delay [where c = "initiate 1 (new_operation 1)"])
       (simp_all add: new_queue_def new_operation_def initiate_def hasTimedOutAt_def)
  then show ?thesis by simp
qed

end
