(* ===== verification/PixelColor.thy ===== *)
theory PixelColor
  imports StrCodec
begin

text \<open>
  Pixel colours (\<open>colorutils.cpp\<close>), the integer part: dimming, saturating addition, overlays, mixing on
  the power scale, and web colour texts. A component is a byte, given as a number below 256; what
  is stored into a byte or a \<open>uint16_t\<close> is cut to it.
\<close>

section \<open>Pixels\<close>

record PixelColor =
  pr :: nat
  pg :: nat
  pb :: nat
  pa :: nat

definition pix_ok :: "PixelColor \<Rightarrow> bool" where
  "pix_ok p \<longleftrightarrow> pr p < 256 \<and> pg p < 256 \<and> pb p < 256 \<and> pa p < 256"

definition transparent :: PixelColor where
  "transparent = \<lparr>pr = 0, pg = 0, pb = 0, pa = 0\<rparr>"

definition to_u8 :: "nat \<Rightarrow> nat" where
  "to_u8 n = n mod 256"

definition to_u16 :: "nat \<Rightarrow> nat" where
  "to_u16 n = n mod 65536"

section \<open>Dimming and adding\<close>

text \<open>The dim value is a \<open>uint16_t\<close>; the sum and product are \<open>int\<close>, then \<open>uint32_t\<close>, and do not overflow.\<close>

definition dimVal :: "nat \<Rightarrow> nat \<Rightarrow> nat" where
  "dimVal v aDim = (let d = (aDim + 1) * v in if 0xFFFF < d then 0xFF else to_u8 (d div 256))"

definition scaleVal :: "nat \<Rightarrow> nat \<Rightarrow> nat" where
  "scaleVal v aDim =
     (if aDim = 0xFF then v else let d = (aDim + 1) * v in if 0xFFFFFF < d then 0xFFFF else to_u16 (d div 256))"

definition dimmedPixel :: "PixelColor \<Rightarrow> nat \<Rightarrow> PixelColor" where
  "dimmedPixel p aDim =
     (if aDim = 255 then p
      else p\<lparr>pr := dimVal (pr p) aDim, pg := dimVal (pg p) aDim, pb := dimVal (pb p) aDim\<rparr>)"

definition alphaDimPixel :: "PixelColor \<Rightarrow> PixelColor" where
  "alphaDimPixel p = (if pa p \<noteq> 255 then dimmedPixel p (pa p) else p)"

definition reduce :: "nat \<Rightarrow> nat \<Rightarrow> nat \<Rightarrow> nat" where
  "reduce b amount mn = (let r = int b - int amount in if r < int mn then mn else nat (r mod 256))"

definition increase :: "nat \<Rightarrow> nat \<Rightarrow> nat \<Rightarrow> nat" where
  "increase b amount mx = (let r = b + amount in if mx < r then mx else to_u8 r)"

definition addToPixel :: "PixelColor \<Rightarrow> PixelColor \<Rightarrow> PixelColor" where
  "addToPixel p q = p\<lparr>pr := increase (pr p) (pr q) 255, pg := increase (pg p) (pg q) 255, pb := increase (pb p) (pb q) 255\<rparr>"

definition overlayPixel :: "PixelColor \<Rightarrow> PixelColor \<Rightarrow> PixelColor" where
  "overlayPixel p ov =
     (let r = (if pa ov = 255 then ov
               else addToPixel (dimmedPixel p (255 - pa ov)) (dimmedPixel ov (pa ov)))
      in r\<lparr>pa := 255\<rparr>)"

section \<open>Power and brightness\<close>

definition powertable :: "nat list" where
  "powertable =
     [
      0, 0, 0, 0, 0, 0, 0, 1, 1, 1, 1, 1, 1, 1, 1, 1,
      1, 1, 2, 2, 2, 2, 2, 2, 2, 2, 2, 3, 3, 3, 3, 3,
      3, 3, 3, 3, 4, 4, 4, 4, 4, 4, 4, 5, 5, 5, 5, 5,
      5, 6, 6, 6, 6, 6, 6, 7, 7, 7, 7, 7, 7, 8, 8, 8,
      8, 8, 9, 9, 9, 9, 10, 10, 10, 10, 10, 11, 11, 11, 11, 12,
      12, 12, 12, 13, 13, 13, 14, 14, 14, 14, 15, 15, 15, 16, 16, 16,
      17, 17, 17, 18, 18, 18, 19, 19, 20, 20, 20, 21, 21, 22, 22, 22,
      23, 23, 24, 24, 25, 25, 26, 26, 26, 27, 27, 28, 29, 29, 30, 30,
      31, 31, 32, 32, 33, 34, 34, 35, 35, 36, 37, 37, 38, 39, 39, 40,
      41, 42, 42, 43, 44, 44, 45, 46, 47, 48, 49, 49, 50, 51, 52, 53,
      54, 55, 56, 57, 58, 59, 60, 61, 62, 63, 64, 65, 66, 67, 68, 69,
      70, 72, 73, 74, 75, 77, 78, 79, 81, 82, 83, 85, 86, 87, 89, 90,
      92, 93, 95, 97, 98, 100, 101, 103, 105, 107, 108, 110, 112, 114, 116, 118,
      120, 121, 123, 126, 128, 130, 132, 134, 136, 138, 141, 143, 145, 148, 150, 152,
      155, 157, 160, 163, 165, 168, 171, 174, 176, 179, 182, 185, 188, 191, 194, 197,
      201, 204, 207, 210, 214, 217, 221, 224, 228, 232, 235, 239, 243, 247, 251, 255]"

definition brightnesstable :: "nat list" where
  "brightnesstable =
     [
      0, 7, 18, 27, 36, 43, 49, 55, 61, 66, 70, 75, 79, 83, 86, 90,
      93, 96, 99, 102, 104, 107, 109, 112, 114, 116, 118, 121, 123, 124, 126, 128,
      130, 132, 133, 135, 137, 138, 140, 141, 143, 144, 145, 147, 148, 150, 151, 152,
      153, 154, 156, 157, 158, 159, 160, 161, 162, 163, 164, 165, 166, 167, 168, 169,
      170, 171, 172, 173, 174, 175, 176, 177, 177, 178, 179, 180, 181, 181, 182, 183,
      184, 184, 185, 186, 187, 187, 188, 189, 190, 190, 191, 192, 192, 193, 194, 194,
      195, 195, 196, 197, 197, 198, 199, 199, 200, 200, 201, 201, 202, 203, 203, 204,
      204, 205, 205, 206, 206, 207, 207, 208, 208, 209, 210, 210, 211, 211, 211, 212,
      212, 213, 213, 214, 214, 215, 215, 216, 216, 217, 217, 218, 218, 218, 219, 219,
      220, 220, 221, 221, 221, 222, 222, 223, 223, 224, 224, 224, 225, 225, 226, 226,
      226, 227, 227, 227, 228, 228, 229, 229, 229, 230, 230, 230, 231, 231, 231, 232,
      232, 233, 233, 233, 234, 234, 234, 235, 235, 235, 236, 236, 236, 237, 237, 237,
      238, 238, 238, 239, 239, 239, 240, 240, 240, 240, 241, 241, 241, 242, 242, 242,
      243, 243, 243, 244, 244, 244, 244, 245, 245, 245, 246, 246, 246, 246, 247, 247,
      247, 248, 248, 248, 248, 249, 249, 249, 249, 250, 250, 250, 251, 251, 251, 251,
      252, 252, 252, 252, 253, 253, 253, 253, 254, 254, 254, 254, 255, 255, 255, 255]"

definition powerToBrightness :: "nat \<Rightarrow> nat" where
  "powerToBrightness p = brightnesstable ! to_u8 p"

definition brightnessToPower :: "nat \<Rightarrow> nat" where
  "brightnessToPower b = powertable ! to_u8 b"

section \<open>Mixing\<close>

text \<open>One component of the mix, on the power scale: \<open>am\<close> is the share of the outside pixel.\<close>

definition mix_power :: "nat \<Rightarrow> nat \<Rightarrow> nat \<Rightarrow> nat" where
  "mix_power m q am =
     to_u16 (((brightnessToPower m + 1) * (255 - am) + (brightnessToPower q + 1) * am) div 256)"

text \<open>Mixed transparency: the alpha is a byte sum, and wraps.\<close>

definition mix_alpha :: "PixelColor \<Rightarrow> PixelColor \<Rightarrow> nat \<Rightarrow> nat" where
  "mix_alpha m q am =
     to_u8 (dimVal (pa m) (powerToBrightness (255 - am)) + dimVal (pa q) (powerToBrightness am))"

definition mix_boost :: "nat \<Rightarrow> nat \<Rightarrow> nat" where
  "mix_boost e ab = to_u16 (((powerToBrightness e + 1) * ab) div 256)"

text \<open>Back to a pixel: when a component exceeds a byte, all are scaled down and the alpha is raised.\<close>

definition mix_scale :: "nat \<Rightarrow> nat \<Rightarrow> nat \<Rightarrow> nat \<Rightarrow> PixelColor" where
  "mix_scale r g b alpha =
     (let mx = max (max r g) b
      in if 255 < mx
         then let cr = to_u16 (65025 div mx);
                  r1 = to_u16 ((r * cr) div 256); g1 = to_u16 ((g * cr) div 256); b1 = to_u16 ((b * cr) div 256)
              in \<lparr>pr = min r1 255, pg = min g1 255, pb = min b1 255, pa = to_u8 (((alpha + 1) * mx) div 256)\<rparr>
         else \<lparr>pr = to_u8 r, pg = to_u8 g, pb = to_u8 b, pa = alpha\<rparr>)"

definition mix_transparent :: "PixelColor \<Rightarrow> PixelColor \<Rightarrow> nat \<Rightarrow> PixelColor" where
  "mix_transparent m q am =
     (let alpha = mix_alpha m q am
      in if 0 < alpha
         then let ab = to_u16 (65025 div alpha)
              in mix_scale
                   (mix_boost (mix_power (dimVal (pr m) (pa m)) (dimVal (pr q) (pa q)) am) ab)
                   (mix_boost (mix_power (dimVal (pg m) (pa m)) (dimVal (pg q) (pa q)) am) ab)
                   (mix_boost (mix_power (dimVal (pb m) (pa m)) (dimVal (pb q) (pa q)) am) ab) alpha
         else transparent)"

definition mix_opaque :: "PixelColor \<Rightarrow> PixelColor \<Rightarrow> nat \<Rightarrow> PixelColor" where
  "mix_opaque m q am =
     (let f = (\<lambda>x y. let e = mix_power x y am in if 255 < e then 255 else powerToBrightness e)
      in \<lparr>pr = f (pr m) (pr q), pg = f (pg m) (pg q), pb = f (pb m) (pb q), pa = 255\<rparr>)"

definition mixinPixel :: "PixelColor \<Rightarrow> PixelColor \<Rightarrow> nat \<Rightarrow> PixelColor" where
  "mixinPixel m q am =
     (if 0 < am then if pa m \<noteq> 255 \<or> pa q \<noteq> 255 then mix_transparent m q am else mix_opaque m q am else m)"

section \<open>Web colours\<close>

definition nibble_byte :: "nat \<Rightarrow> nat \<Rightarrow> nat" where
  "nibble_byte h k = (let v = h div 2 ^ k mod 16 in v + 16 * v)"

text \<open>The text after the optional \<open>#\<close>: the short form for up to four characters, the long one otherwise.\<close>

definition web_digits :: "string \<Rightarrow> PixelColor" where
  "web_digits t =
     (let n = length t
      in case scan_hex n (cstr t) of
           None \<Rightarrow> transparent
         | Some (h, _) \<Rightarrow>
             if n \<le> 4
             then \<lparr>pr = nibble_byte h 8, pg = nibble_byte h 4, pb = nibble_byte h 0,
                   pa = (if n = 4 then nibble_byte h 12 else 255)\<rparr>
             else \<lparr>pr = h div 2 ^ 16 mod 256, pg = h div 2 ^ 8 mod 256, pb = h mod 256,
                   pa = (if n = 8 then h div 2 ^ 24 mod 256 else 255)\<rparr>)"

definition webColorToPixel :: "string \<Rightarrow> PixelColor" where
  "webColorToPixel s = web_digits (if 0 < length s \<and> chr_at s 0 = CHR ''#'' then drop 1 s else s)"

definition pixelToWebColor :: "PixelColor \<Rightarrow> bool \<Rightarrow> string" where
  "pixelToWebColor p aWithHash =
     (if aWithHash then ''#'' else []) @ (if pa p \<noteq> 255 then print_02X (pa p) else []) @
     print_02X (pr p) @ print_02X (pg p) @ print_02X (pb p)"

section \<open>What dimming and overlaying promise\<close>

lemma dimVal_le:
  assumes "v < 256" "d \<le> 255"
  shows "dimVal v d = (d + 1) * v div 256" "dimVal v d \<le> v"
proof -
  have a: "(d + 1) * v \<le> 256 * v" using assms by (intro mult_right_mono) simp_all
  have b: "256 * v \<le> 0xFFFF" using assms by simp
  have c: "\<not> 0xFFFF < (d + 1) * v" using a b by linarith
  have e: "(d + 1) * v div 256 \<le> v" using div_le_mono [OF a, of 256] by simp
  then have f: "(d + 1) * v div 256 mod 256 = (d + 1) * v div 256" using assms by (intro mod_less) linarith
  show g: "dimVal v d = (d + 1) * v div 256" unfolding dimVal_def to_u8_def Let_def using c f by (simp only: if_False)
  show "dimVal v d \<le> v" unfolding g by (rule e)
qed

lemma dimVal_full: "v < 256 \<Longrightarrow> dimVal v 255 = v"
  by (simp add: dimVal_def to_u8_def Let_def)

lemma dimVal_zero: "v < 256 \<Longrightarrow> dimVal v 0 = 0"
  by (simp add: dimVal_def to_u8_def Let_def)

lemma dim_sum:
  assumes "v < 256" "w < 256" "a \<le> 255"
  shows "dimVal v (255 - a) + dimVal w a \<le> 255"
proof -
  have "dimVal v (255 - a) = (256 - a) * v div 256" "dimVal w a = (a + 1) * w div 256"
  proof -
    have e: "255 - a + 1 = 256 - a" and l: "255 - a \<le> 255" using assms(3) by simp_all
    from dimVal_le(1) [OF assms(1) l] show "dimVal v (255 - a) = (256 - a) * v div 256" unfolding e .
    show "dimVal w a = (a + 1) * w div 256" using assms(2,3) by (rule dimVal_le(1))
  qed
  moreover have "(256 - a) * v div 256 + (a + 1) * w div 256 \<le> ((256 - a) * v + (a + 1) * w) div 256"
    by (metis div_add1_eq le_add1)
  moreover have "(256 - a) * v + (a + 1) * w \<le> (256 - a) * 255 + (a + 1) * 255"
    using assms by (intro add_mono mult_left_mono) simp_all
  moreover have "(256 - a) * 255 + (a + 1) * 255 = 257 * (255 :: nat)"
    using assms(3) by (simp add: diff_mult_distrib)
  ultimately show ?thesis
    using div_le_mono [of "(256 - a) * v + (a + 1) * w" "257 * 255" 256] by simp
qed

lemma increase_exact: "b + a \<le> mx \<Longrightarrow> mx < 256 \<Longrightarrow> increase b a mx = b + a"
  by (simp add: increase_def to_u8_def Let_def)

lemma increase_min: "mx < 256 \<Longrightarrow> increase b a mx = min mx (b + a)"
  by (auto simp: increase_def to_u8_def Let_def min_def)

lemma reduce_max: "b < 256 \<Longrightarrow> reduce b a mn = max mn (b - a)"
  by (auto simp: reduce_def Let_def max_def nat_mod_distrib)

text \<open>
  An overlay is the exact sum of both dimmed pixels: no component saturates, and the result is opaque.
\<close>

lemma overlay_sum:
  assumes "pix_ok p" "pix_ok q" "pa q < 255"
  shows "overlayPixel p q =
    \<lparr>pr = pr (dimmedPixel p (255 - pa q)) + pr (dimmedPixel q (pa q)),
     pg = pg (dimmedPixel p (255 - pa q)) + pg (dimmedPixel q (pa q)),
     pb = pb (dimmedPixel p (255 - pa q)) + pb (dimmedPixel q (pa q)), pa = 255\<rparr>"
proof -
  have d: "pr (dimmedPixel x d) = dimVal (pr x) d \<and> pg (dimmedPixel x d) = dimVal (pg x) d \<and> pb (dimmedPixel x d) = dimVal (pb x) d"
    if "pix_ok x" for x d
    using that by (auto simp: dimmedPixel_def pix_ok_def dimVal_full)
  have s: "dimVal v (255 - pa q) + dimVal w (pa q) \<le> 255" if "v < 256" "w < 256" for v w
    using that assms(3) by (intro dim_sum) simp_all
  show ?thesis
    using assms d [OF assms(1), of "255 - pa q"] d [OF assms(2), of "pa q"]
    by (simp add: overlayPixel_def addToPixel_def Let_def increase_exact s pix_ok_def)
qed

lemma tables_len: "length powertable = 256" "length brightnesstable = 256"
  by (simp_all add: powertable_def brightnesstable_def)

lemma tables_bytes: "list_all (\<lambda>x. x < 256) powertable" "list_all (\<lambda>x. x < 256) brightnesstable"
  by (simp_all add: powertable_def brightnesstable_def)

lemma tables_steps: "successively (\<le>) powertable" "successively (\<le>) brightnesstable"
  by (simp_all add: powertable_def brightnesstable_def)

lemma tables_sorted: "sorted powertable" "sorted brightnesstable"
proof -
  have "transp ((\<le>) :: nat \<Rightarrow> nat \<Rightarrow> bool)" by (rule transp_on_le)
  then show "sorted powertable" "sorted brightnesstable"
    using tables_steps by (simp_all only: successively_conv_sorted_wrt)
qed

lemma power_bytes: "brightnessToPower b < 256" "powerToBrightness b < 256"
proof -
  have "to_u8 b < 256" by (simp add: to_u8_def)
  then show "brightnessToPower b < 256" "powerToBrightness b < 256"
    unfolding brightnessToPower_def powerToBrightness_def
    using tables_bytes tables_len by (auto simp: list_all_length)
qed

lemma power_mono:
  "a \<le> b \<Longrightarrow> b < 256 \<Longrightarrow> brightnessToPower a \<le> brightnessToPower b \<and> powerToBrightness a \<le> powerToBrightness b"
  using tables_sorted tables_len
  by (simp add: brightnessToPower_def powerToBrightness_def to_u8_def sorted_nth_mono)

lemma mix_scale_ok: "alpha < 256 \<Longrightarrow> pix_ok (mix_scale r g b alpha)"
  by (auto simp: mix_scale_def Let_def pix_ok_def to_u8_def min_less_iff_disj)

lemma mixin_opaque_bytes:
  assumes "pix_ok p" "pix_ok q" "am < 256"
  shows "pix_ok (mixinPixel p q am)"
proof -
  have a: "mix_alpha p q am < 256" by (simp add: mix_alpha_def to_u8_def)
  have t: "pix_ok (mix_transparent p q am)"
    using a mix_scale_ok by (simp add: mix_transparent_def Let_def) (simp add: transparent_def pix_ok_def)
  have o: "pix_ok (mix_opaque p q am)"
    using power_bytes(2) by (auto simp: mix_opaque_def Let_def pix_ok_def)
  show ?thesis using t o assms by (auto simp: mixinPixel_def)
qed

section \<open>Web colours are read back\<close>

lemma hexval_upper: "d < 16 \<Longrightarrow> hexval (hexdigit_upper d) = Some d"
  by (auto simp: hexval_def hexdigit_upper_def c_isdigit_def)

lemma upper_digit:
  assumes "d < 16"
  shows "\<not> c_isspace (hexdigit_upper d)" "hexdigit_upper d \<noteq> CHR ''+''" "hexdigit_upper d \<noteq> CHR ''-''"
    "c_tolower (hexdigit_upper d) \<noteq> CHR ''x''" "hexdigit_upper d \<noteq> CHR ''#''"
proof -
  note n = char_nat_hexdigit_upper [OF assms]
  have l: "char_nat (CHR ''+'') = 43" "char_nat (CHR ''-'') = 45" "char_nat (CHR ''x'') = 120" "char_nat (CHR ''#'') = 35"
    "char_nat (CHR '' '') = 32"
    by (simp_all add: char_nat_def)
  show "hexdigit_upper d \<noteq> CHR ''+''" "hexdigit_upper d \<noteq> CHR ''-''" "hexdigit_upper d \<noteq> CHR ''#''"
    using n assms by (auto dest!: arg_cong [where f = char_nat] simp: l split: if_splits)
  show "\<not> c_isspace (hexdigit_upper d)"
    using n assms by (auto dest!: arg_cong [where f = char_nat] simp: l c_isspace_def split: if_splits)
  show "c_tolower (hexdigit_upper d) \<noteq> CHR ''x''"
    using n assms by (auto dest!: arg_cong [where f = char_nat] simp: l c_tolower_def c_isupper_def split: if_splits)
qed

definition hex_text :: "nat list \<Rightarrow> string" where
  "hex_text ns = concat (map print_02X ns)"

lemma digits_value_hex: "list_all (\<lambda>n. n < 256) ns \<Longrightarrow>
  foldl (\<lambda>acc c. acc * 16 + (case hexval c of Some v \<Rightarrow> v | None \<Rightarrow> 0)) v (hex_text ns) = foldl (\<lambda>v n. v * 256 + n) v ns"
proof (induction ns arbitrary: v)
  case (Cons n ns)
  then have "n div 16 < 16" "n mod 16 < 16" "(v * 16 + n div 16) * 16 + n mod 16 = v * 256 + n"
    by (simp_all add: less_mult_imp_div_less algebra_simps)
  with Cons show ?case by (simp add: hex_text_def print_02X_def hexval_upper add.commute mult.commute)
qed (simp add: hex_text_def)

lemma hex_text_digits: "list_all (\<lambda>n. n < 256) ns \<Longrightarrow> c \<in> set (hex_text ns) \<Longrightarrow> \<exists>d<16. c = hexdigit_upper d"
proof (induction ns)
  case (Cons n ns)
  then have "n div 16 < 16" "n mod 16 < 16" by (simp_all add: less_mult_imp_div_less)
  moreover from Cons.prems have "c = hexdigit_upper (n div 16) \<or> c = hexdigit_upper (n mod 16) \<or> c \<in> set (hex_text ns)"
    by (auto simp: hex_text_def print_02X_def)
  moreover have "c \<in> set (hex_text ns) \<Longrightarrow> \<exists>d<16. c = hexdigit_upper d" using Cons by simp
  ultimately show ?case by blast
qed (simp add: hex_text_def)

lemma scan_hex_text:
  assumes "list_all (\<lambda>n. n < 256) ns" "ns \<noteq> []" "length ns \<le> 4"
  shows "\<exists>k. scan_hex (length (hex_text ns)) (hex_text ns) = Some (foldl (\<lambda>v n. v * 256 + n) 0 ns mod 2 ^ 32, k)"
proof -
  let ?t = "hex_text ns"
  obtain c t where t: "?t = c # t" using assms(2) by (cases ns) (auto simp: hex_text_def print_02X_def)
  have all: "c \<in> set ?t \<Longrightarrow> is_xdigit c" for c
    using hex_text_digits [OF assms(1)] hexval_upper by (fastforce simp: is_xdigit_def)
  obtain d where d: "d < 16" "c = hexdigit_upper d" using hex_text_digits [OF assms(1), of c] t by auto
  obtain c2 t2 where t2: "t = c2 # t2" using assms(2) t by (cases ns) (auto simp: hex_text_def print_02X_def)
  obtain d2 where d2: "d2 < 16" "c2 = hexdigit_upper d2" using hex_text_digits [OF assms(1), of c2] t t2 by auto
  have w: "count_while c_isspace ?t = 0" using upper_digit(1) [OF d(1)] by (simp add: t d)
  have g: "sign_len ?t = 0" using upper_digit(2,3) [OF d(1)] by (simp add: t d sign_len_def)
  have x: "\<not> has_0x ?t" using upper_digit(4) [OF d2(1)] by (simp add: has_0x_def t t2 d2)
  have n: "count_while is_xdigit ?t = length ?t"
    using count_while_all [of ?t is_xdigit "[]"] all by simp
  have m: "chr_at ?t 0 \<noteq> CHR ''-''" using upper_digit(3) [OF d(1)] by (simp add: t d)
  have v: "digits_value 16 ?t = foldl (\<lambda>v n. v * 256 + n) 0 ns"
    unfolding digits_value_def using digits_value_hex [OF assms(1), of 0] by simp
  show ?thesis using w g x n m v t by (simp add: scan_hex_def Let_def)
qed

lemma divmod_byte: "(a * 256 + b) div 256 = a" "(a * 256 + b) mod 256 = b" if "b < 256" for a b :: nat
  using that by simp_all

lemma bytes4:
  assumes "r < 256" "g < 256" "b < 256" and v: "v = ((a * 256 + r) * 256 + g) * 256 + (b :: nat)"
  shows "v div 2 ^ 16 mod 256 = r" "v div 2 ^ 8 mod 256 = g" "v mod 256 = b" "v div 2 ^ 24 = a"
proof -
  have 1: "v div 2 ^ 8 = (a * 256 + r) * 256 + g" unfolding v using divmod_byte(1) [OF assms(3)] by simp
  have "v div 2 ^ 16 = v div 2 ^ 8 div 256" by (simp add: div_mult2_eq [symmetric])
  then have 2: "v div 2 ^ 16 = a * 256 + r" unfolding 1 using divmod_byte(1) [OF assms(2)] by simp
  have "v div 2 ^ 24 = v div 2 ^ 16 div 256" by (simp add: div_mult2_eq [symmetric])
  then show "v div 2 ^ 24 = a" unfolding 2 using divmod_byte(1) [OF assms(1)] by simp
  show "v div 2 ^ 16 mod 256 = r" unfolding 2 by (rule divmod_byte(2) [OF assms(1)])
  show "v div 2 ^ 8 mod 256 = g" unfolding 1 by (rule divmod_byte(2) [OF assms(2)])
  show "v mod 256 = b" unfolding v by (rule divmod_byte(2) [OF assms(3)])
qed

lemma web_parse:
  assumes "t = c # r" "c \<noteq> CHR ''#''" "cstr t = t" "scan_hex (length t) t = Some (h, k)" "4 < length t"
  shows "webColorToPixel ((if hash then ''#'' else []) @ t) =
    \<lparr>pr = h div 2 ^ 16 mod 256, pg = h div 2 ^ 8 mod 256, pb = h mod 256,
     pa = (if length t = 8 then h div 2 ^ 24 mod 256 else 255)\<rparr>"
proof -
  have "webColorToPixel ((if hash then ''#'' else []) @ t) = web_digits t"
    using assms(1,2) by (simp add: webColorToPixel_def)
  with assms(3-5) show ?thesis by (simp add: web_digits_def Let_def)
qed

lemma web_color_plain:
  assumes "pix_ok p"
  shows "webColorToPixel (pixelToWebColor p False) = p" (is ?A)
    and "webColorToPixel (pixelToWebColor p True) = p" (is ?B)
proof -
  let ?ns = "(if pa p \<noteq> 255 then [pa p] else []) @ [pr p, pg p, pb p]"
  let ?t = "hex_text ?ns"
  have w: "pixelToWebColor p h = (if h then ''#'' else []) @ ?t" for h
    by (simp add: pixelToWebColor_def hex_text_def)
  have b: "list_all (\<lambda>n. n < 256) ?ns" using assms by (simp add: pix_ok_def)
  obtain c r where t: "?t = c # r" by (cases "pa p = 255") (auto simp: hex_text_def print_02X_def)
  have x: "c \<noteq> CHR ''#''" using hex_text_digits [OF b, of c] t upper_digit(5) by auto
  have "NUL \<notin> set ?t"
  proof
    assume "NUL \<in> set ?t"
    then obtain d where "d < 16" "NUL = hexdigit_upper d" using hex_text_digits [OF b] by blast
    then show False using hexdigit_upper_not(1) by metis
  qed
  then have n: "cstr ?t = ?t" by (rule cstr_no_NUL)
  have l: "length ?t = (if pa p \<noteq> 255 then 8 else 6)" by (simp add: hex_text_def print_02X_def)
  have ne: "?ns \<noteq> []" "length ?ns \<le> 4" by simp_all
  from scan_hex_text [OF b ne]
  obtain k where k: "scan_hex (length ?t) ?t = Some (foldl (\<lambda>v n. v * 256 + n) 0 ?ns mod 2 ^ 32, k)" by blast
  define v where "v = foldl (\<lambda>v n. v * 256 + n) 0 ?ns"
  have v32: "v mod 2 ^ 32 = v" using assms by (simp add: v_def pix_ok_def)
  have q: "pr p = v div 2 ^ 16 mod 256 \<and> pg p = v div 2 ^ 8 mod 256 \<and> pb p = v mod 256 \<and> (pa p \<noteq> 255 \<longrightarrow> pa p = v div 2 ^ 24 mod 256)"
  proof -
    have c: "v = (((if pa p \<noteq> 255 then pa p else 0) * 256 + pr p) * 256 + pg p) * 256 + pb p" by (simp add: v_def)
    have b: "pr p < 256" "pg p < 256" "pb p < 256" "pa p < 256" using assms by (simp_all add: pix_ok_def)
    note f = bytes4 [OF b(1-3) c]
    show ?thesis unfolding f(1-3) f(4) using b(4) by simp
  qed
  have l4: "4 < length ?t" unfolding l by simp
  have "webColorToPixel ((if h then ''#'' else []) @ ?t) = p" for h
    unfolding web_parse [OF t x n k [folded v_def, unfolded v32] l4] l using q by (cases "pa p = 255") auto
  then show ?A ?B unfolding w by blast+
qed

section \<open>Properties\<close>

text \<open>C40: Overlaying a pixel that is not opaque is the exact sum of both pixels, each dimmed by its share: no
  component saturates, and the result is opaque.\<close>

theorem overlay_is_exact_sum:
  assumes "pix_ok p" "pix_ok q" "pa q < 255"
  shows "overlayPixel p q =
    \<lparr>pr = pr (dimmedPixel p (255 - pa q)) + pr (dimmedPixel q (pa q)),
     pg = pg (dimmedPixel p (255 - pa q)) + pg (dimmedPixel q (pa q)),
     pb = pb (dimmedPixel p (255 - pa q)) + pb (dimmedPixel q (pa q)), pa = 255\<rparr>"
  using assms by (rule overlay_sum)

theorem overlay_is_exact_sum_witness:
  "overlayPixel \<lparr>pr = 200, pg = 100, pb = 0, pa = 255\<rparr> \<lparr>pr = 0, pg = 255, pb = 128, pa = 127\<rparr> =
   \<lparr>pr = 100, pg = 177, pb = 64, pa = 255\<rparr>"
  by (subst overlay_is_exact_sum) (simp_all add: pix_ok_def dimmedPixel_def dimVal_def to_u8_def)

text \<open>The web colour text of every pixel, with or without the hash sign, is read back as that pixel.\<close>

theorem web_color_roundtrip:
  assumes "pix_ok p"
  shows "webColorToPixel (pixelToWebColor p h) = p"
  using web_color_plain [OF assms] by (cases h) simp_all

theorem web_color_roundtrip_witness:
  "webColorToPixel (pixelToWebColor \<lparr>pr = 1, pg = 171, pb = 255, pa = 16\<rparr> True) = \<lparr>pr = 1, pg = 171, pb = 255, pa = 16\<rparr>"
  by (rule web_color_roundtrip) (simp add: pix_ok_def)

text \<open>Mixing keeps every component a byte; but the alpha of a mix with a pixel that is not quite opaque wraps:
  half of a pixel of alpha 254 mixed into an opaque one gives alpha 167.\<close>

theorem mixing_alpha_wraps:
  "(pix_ok p \<and> pix_ok q \<and> am < 256 \<longrightarrow> pix_ok (mixinPixel p q am)) \<and>
   mix_alpha \<lparr>pr = 255, pg = 255, pb = 255, pa = 255\<rparr> \<lparr>pr = 255, pg = 255, pb = 255, pa = 254\<rparr> 128 = 167"
  using mixin_opaque_bytes
  by (auto simp: mix_alpha_def powerToBrightness_def brightnesstable_def dimVal_def to_u8_def)

theorem mixing_alpha_wraps_witness:
  "pix_ok (mixinPixel \<lparr>pr = 255, pg = 255, pb = 255, pa = 255\<rparr> \<lparr>pr = 255, pg = 255, pb = 255, pa = 254\<rparr> 128)"
  using mixing_alpha_wraps [of "\<lparr>pr = 255, pg = 255, pb = 255, pa = 255\<rparr>" "\<lparr>pr = 255, pg = 255, pb = 255, pa = 254\<rparr>" 128]
  by (simp add: pix_ok_def)

end
