(* ===== verification/ValueUnits.thy ===== *)
theory ValueUnits
  imports Clib
begin

text \<open>
  Physical units (\<open>valueunits.cpp\<close>): the tables of units and scalings, their names and symbols as
  bytes, the parser of unit names, and the formatting of durations.
\<close>

section \<open>Tables\<close>

text \<open>Name and symbol of each unit, in the order of \<open>ValueBaseUnit\<close>, and of each scaling, in the order of \<open>UnitScale\<close>.\<close>

definition valueUnitNames :: "(string \<times> string) list" where
  "valueUnitNames =
     [(''unknown'', ''?''),
      (''none'', ''''),
      (''percent'', ''%''),
      (''ppm'', ''ppm''),
      (''meter'', ''m''),
      (''gram'', ''g''),
      (''second'', ''S''),
      (''ampere'', ''A''),
      (''kelvin'', ''K''),
      (''mole'', ''mol''),
      (''candle'', ''cd''),
      (''bequerel'', ''Bq''),
      (''watt'', ''W''),
      (''voltampere'', ''VA''),
      (''celsius'', [CHR 0xC2] @ [CHR 0xB0] @ ''C''),
      (''volt'', ''V''),
      (''lux'', ''lx''),
      (''liter'', ''l''),
      (''joule'', ''J''),
      (''pascal'', ''Pa''),
      (''degree'', [CHR 0xC2] @ [CHR 0xB0]),
      (''bel'', ''B''),
      (''Hertz'', ''Hz''),
      (''molpercubicmeter'', ''mol/m3''),
      (''frenchwaterhardness'', [CHR 0xC2] @ [CHR 0xB0] @ ''fH''),
      (''bequerelpercubicmeter'', ''Bq/m3''),
      (''grampercubicmeter'', ''Bq/m3''),
      (''meterpersecond'', ''m/s''),
      (''mperm2'', ''m/m2''),
      (''literpersecond'', ''l/s''),
      (''minute'', ''min''),
      (''hour'', ''h''),
      (''day'', ''d''),
      (''month'', ''mt''),
      (''year'', ''yr''),
      (''watthour'', ''Wh''),
      (''literperminute'', ''l/min''),
      (''mired'', ''mired'')]"

definition valueScalingNames :: "(string \<times> string) list" where
  "valueScalingNames =
     [(''yotta'', ''Y''),
      (''zetta'', ''Z''),
      (''exa'', ''E''),
      (''peta'', ''P''),
      (''tera'', ''T''),
      (''giga'', ''G''),
      (''mega'', ''M''),
      (''kilo'', ''k''),
      (''hecto'', ''h''),
      (''deca'', ''da''),
      ('''', ''''),
      (''deci'', ''d''),
      (''centi'', ''c''),
      (''milli'', ''m''),
      (''micro'', [CHR 0xC2] @ [CHR 0xB5]),
      (''nano'', ''n''),
      (''pico'', ''p''),
      (''femto'', ''f''),
      (''atto'', ''a''),
      (''zepto'', ''z''),
      (''yocto'', ''y'')]"

definition numValueUnits :: nat where "numValueUnits = 38"
definition numUnitScalings :: nat where "numUnitScalings = 21"
definition valueUnit_none :: nat where "valueUnit_none = 1"
definition unitScaling_1 :: nat where "unitScaling_1 = 10"

text \<open>The 16 bit combination of unit and scaling.\<close>

definition VALUE_UNIT :: "nat \<Rightarrow> nat \<Rightarrow> u16" where
  "VALUE_UNIT u s = push_bit 8 (of_nat s AND 0xFF) + (of_nat u AND 0xFF)"

definition VALUE_UNIT_ONLY :: "u16 \<Rightarrow> nat" where
  "VALUE_UNIT_ONLY w = unat (w AND 0xFF)"

definition VALUE_SCALING_ONLY :: "u16 \<Rightarrow> nat" where
  "VALUE_SCALING_ONLY w = unat (drop_bit 8 w AND 0xFF)"

section \<open>Names\<close>

text \<open>
  \<open>valueUnitName\<close>: \<open>None\<close> is the access one past the end of the scaling table, which the range check
  lets through.
\<close>

definition valueUnitName :: "u16 \<Rightarrow> bool \<Rightarrow> string option" where
  "valueUnitName w aAsSymbol =
     (let u0 = VALUE_UNIT_ONLY w; u = (if numValueUnits \<le> u0 then valueUnit_none else u0);
          s0 = VALUE_SCALING_ONLY w; s = (if numUnitScalings < s0 then unitScaling_1 else s0)
      in if s < length valueScalingNames
         then Some (if aAsSymbol then snd (valueScalingNames ! s) @ snd (valueUnitNames ! u)
                    else fst (valueScalingNames ! s) @ fst (valueUnitNames ! u))
         else None)"

fun find_scaling :: "(string \<times> string) list \<Rightarrow> nat \<Rightarrow> string \<Rightarrow> nat \<times> nat" where
  "find_scaling [] i s = (unitScaling_1, 0)"
| "find_scaling ((n, y) # ns) i s =
     (if 0 < length n \<and> take (length n) s = n then (i, length n) else find_scaling ns (Suc i) s)"

fun find_unit :: "(string \<times> string) list \<Rightarrow> nat \<Rightarrow> string \<Rightarrow> nat option" where
  "find_unit [] i s = None"
| "find_unit ((n, y) # ns) i s = (if s = n then Some i else find_unit ns (Suc i) s)"

definition stringToValueUnit :: "string \<Rightarrow> u16" where
  "stringToValueUnit nm =
     (let (s, n) = find_scaling valueScalingNames 0 nm
      in case find_unit valueUnitNames 0 (drop n nm) of Some u \<Rightarrow> VALUE_UNIT u s | None \<Rightarrow> 0)"

section \<open>Durations\<close>

definition durationUnits :: "(nat \<times> int) list" where
  "durationUnits = [(6, 1), (30, 60), (31, 3600), (32, 86400), (33, 2628000), (34, 365 * 86400)]"

text \<open>The largest unit to use: down from the given one to the first whose factor fits.\<close>

fun duration_start :: "f64 \<Rightarrow> nat \<Rightarrow> nat" where
  "duration_start secs 0 = 0"
| "duration_start secs (Suc i) =
     (if \<not> f64_less secs (f64_of_int (snd (durationUnits ! Suc i))) \<and> secs \<noteq> F_NaN then Suc i else duration_start secs i)"

definition unit_label :: "nat \<Rightarrow> bool \<Rightarrow> string" where
  "unit_label u sy = (case valueUnitName (VALUE_UNIT u unitScaling_1) sy of Some s \<Rightarrow> s | None \<Rightarrow> [])"

text \<open>
  The rendering loop over the unit index (counted down), with the number of components left, whether
  nothing has been shown yet, and whether a component with a long unit was.
\<close>

fun render_duration :: "bool \<Rightarrow> f64 \<Rightarrow> int \<Rightarrow> nat \<Rightarrow> bool \<Rightarrow> bool \<Rightarrow> string" where
  "render_duration sy secs comps n first ex =
     (case n of
        0 \<Rightarrow> []
      | Suc i \<Rightarrow>
          if comps \<le> 0 then []
          else let (u, f) = durationUnits ! i; v = f64_to_int 64 (f64_div secs (f64_of_int f))
               in if 0 < v \<or> (first \<and> i = 0)
                  then let minute = (sy \<and> u = 30); second = (sy \<and> u = 6); short = (minute \<or> second);
                           piece = (if short then (if ex then '' '' else []) @ print_int v @ (if minute then [SQUOTE] else [DQUOTE])
                                    else (if first then [] else '' '') @ print_int v @ (if sy then [] else '' '') @ unit_label u sy);
                           secs' = f64_sub secs (f64_mul (f64_of_int v) (f64_of_int f))
                       in piece @ (if \<not> f64_less (F_Fin 0) secs' \<and> secs' \<noteq> F_NaN then []
                                   else render_duration sy secs' (comps - 1) i False (ex \<or> \<not> short))
                  else render_duration sy secs (comps - 1) i first ex)"

declare render_duration.simps [simp del]

definition format_duration :: "f64 \<Rightarrow> int \<Rightarrow> bool \<Rightarrow> string" where
  "format_duration secs aComponents sy =
     (let comps = \<bar>aComponents\<bar>;
          top = (if aComponents < 0 \<and> comps - 1 < 5 then nat (comps - 1) else 5)
      in render_duration sy secs comps (Suc (duration_start secs top)) True False)"

section \<open>Every unit name is read back\<close>

lemma table_sizes: "length valueUnitNames = numValueUnits" "length valueScalingNames = numUnitScalings"
  by (simp_all add: valueUnitNames_def valueScalingNames_def numValueUnits_def numUnitScalings_def)

lemma names_parse:
  "list_all (\<lambda>s. list_all (\<lambda>u.
      find_scaling valueScalingNames 0 (fst s @ fst u) = find_scaling valueScalingNames 0 (fst s))
     valueUnitNames) valueScalingNames"
  by code_simp

lemma scalings_found:
  "map (\<lambda>(n, y). find_scaling valueScalingNames 0 n) valueScalingNames =
   map (\<lambda>i. (i, length (fst (valueScalingNames ! i)))) [0..<numUnitScalings]"
  by code_simp

lemma units_found:
  "map (\<lambda>(n, y). find_unit valueUnitNames 0 n) valueUnitNames = map Some [0..<numValueUnits]"
  by code_simp

lemma scaling_found:
  assumes "s < numUnitScalings"
  shows "find_scaling valueScalingNames 0 (fst (valueScalingNames ! s)) = (s, length (fst (valueScalingNames ! s)))"
  using arg_cong [where f = "\<lambda>l. l ! s", OF scalings_found] assms table_sizes by (auto split: prod.splits)

lemma unit_found:
  assumes "u < numValueUnits"
  shows "find_unit valueUnitNames 0 (fst (valueUnitNames ! u)) = Some u"
  using arg_cong [where f = "\<lambda>l. l ! u", OF units_found] assms table_sizes by (auto split: prod.splits)

lemma name_parse:
  assumes "s < numUnitScalings" "u < numValueUnits"
  shows "find_scaling valueScalingNames 0 (fst (valueScalingNames ! s) @ fst (valueUnitNames ! u)) =
    find_scaling valueScalingNames 0 (fst (valueScalingNames ! s))"
proof -
  have "valueScalingNames ! s \<in> set valueScalingNames" "valueUnitNames ! u \<in> set valueUnitNames"
    using assms table_sizes by (metis nth_mem)+
  with names_parse show ?thesis by (simp add: list_all_iff)
qed

lemma byte16: "n < 256 \<Longrightarrow> (of_nat n :: u16) AND 0xFF = of_nat n"
  by (simp add: and_255 take_bit_of_nat take_bit_nat_eq_self)

lemma VALUE_UNIT_parts:
  assumes "u < 256" "s < 256"
  shows "VALUE_UNIT_ONLY (VALUE_UNIT u s) = u" "VALUE_SCALING_ONLY (VALUE_UNIT u s) = s"
proof -
  have v: "VALUE_UNIT u s = push_bit 8 (of_nat s) OR take_bit 8 (of_nat u)"
    using push_byte [of u "of_nat s :: u16"] assms by (simp add: VALUE_UNIT_def byte16)
  have t: "take_bit 8 (of_nat n :: u16) = of_nat n" if "n < 256" for n
    using byte16 [OF that] by (simp add: and_255)
  have "take_bit 8 (VALUE_UNIT u s) = take_bit 8 (of_nat u)"
    unfolding v by (rule bit_word_eqI) (auto simp: bit_simps)
  then show "VALUE_UNIT_ONLY (VALUE_UNIT u s) = u"
    using assms by (simp add: VALUE_UNIT_ONLY_def and_255 t unat_of_nat take_bit_nat_eq_self)
  have "take_bit 8 (drop_bit 8 (VALUE_UNIT u s)) = take_bit 8 (of_nat s)"
    unfolding v by (rule bit_word_eqI) (auto simp: bit_simps)
  then show "VALUE_SCALING_ONLY (VALUE_UNIT u s) = s"
    using assms by (simp add: VALUE_SCALING_ONLY_def and_255 t unat_of_nat take_bit_nat_eq_self)
qed

lemma unit_names_roundtrip:
  assumes "s < numUnitScalings" "u < numValueUnits"
  shows "\<exists>nm. valueUnitName (VALUE_UNIT u s) False = Some nm \<and> stringToValueUnit nm = VALUE_UNIT u s"
proof -
  have l: "u < 256" "s < 256" using assms by (simp_all add: numUnitScalings_def numValueUnits_def)
  have n: "valueUnitName (VALUE_UNIT u s) False = Some (fst (valueScalingNames ! s) @ fst (valueUnitNames ! u))"
    using assms table_sizes by (simp add: valueUnitName_def VALUE_UNIT_parts [OF l] Let_def)
  show ?thesis
    by (simp add: n stringToValueUnit_def name_parse [OF assms] scaling_found [OF assms(1)] unit_found [OF assms(2)])
qed

section \<open>Properties\<close>

text \<open>The name of every unit with every scaling is read back as that unit and scaling.\<close>

theorem unit_name_roundtrip:
  assumes "s < numUnitScalings" "u < numValueUnits"
  shows "\<exists>nm. valueUnitName (VALUE_UNIT u s) False = Some nm \<and> stringToValueUnit nm = VALUE_UNIT u s"
  using assms by (rule unit_names_roundtrip)

theorem unit_name_roundtrip_witness:
  "\<exists>nm. valueUnitName (VALUE_UNIT 12 7) False = Some nm \<and> stringToValueUnit nm = VALUE_UNIT 12 7"
  by (rule unit_name_roundtrip) (simp_all add: numUnitScalings_def numValueUnits_def)

text \<open>A scaling one past the last passes the range check and reads past the end of the table; every other
  number has a name.\<close>

theorem unit_name_reads_past_table:
  "valueUnitName w sy = None \<longleftrightarrow> VALUE_SCALING_ONLY w = numUnitScalings"
  using table_sizes by (simp add: valueUnitName_def Let_def numUnitScalings_def unitScaling_1_def)

end
