(* ===== verification/ScriptCursor.thy ===== *)
theory ScriptCursor
  imports Prelude Clib StrUtil
begin

text \<open>
  The script source cursor (\<open>SourcePos\<close> and \<open>SourceCursor\<close> of \<open>p44script.cpp\<close>): position
  tracking, comment and white space skipping, identifiers, operators and string literals.
  A pointer into the source text is an offset; \<open>mBot\<close> is always the offset 0 and is not
  kept. \<open>pvalid\<close> is false for the null pointer of a default-constructed position.
\<close>

section \<open>State\<close>

record source =
  stext :: string
  slabel :: "string option"
  shosted :: bool

record srcpos =
  pvalid :: bool
  pptr :: nat
  pbol :: nat
  peot :: nat
  pline :: nat

record cursor =
  csrc :: source
  cpos :: srcpos

definition no_source :: source where
  "no_source = \<lparr>stext = [], slabel = None, shosted = False\<rparr>"

definition null_pos :: srcpos where
  "null_pos = \<lparr>pvalid = False, pptr = 0, pbol = 0, peot = 0, pline = 0\<rparr>"

definition text_pos :: "string \<Rightarrow> srcpos" where
  "text_pos s = \<lparr>pvalid = True, pptr = 0, pbol = 0, peot = length s, pline = 0\<rparr>"

definition null_cursor :: cursor where
  "null_cursor = \<lparr>csrc = no_source, cpos = null_pos\<rparr>"

text \<open>The constructors from a text (with a label), from a container, and for a part of a container.\<close>

definition string_cursor :: "string \<Rightarrow> string option \<Rightarrow> cursor" where
  "string_cursor s l =
     \<lparr>csrc = \<lparr>stext = s, slabel = Some (case l of Some x \<Rightarrow> x | None \<Rightarrow> ''hidden''), shosted = False\<rparr>,
      cpos = text_pos s\<rparr>"

definition container_cursor :: "source \<Rightarrow> cursor" where
  "container_cursor s = \<lparr>csrc = s, cpos = text_pos (stext s)\<rparr>"

definition part_cursor :: "source \<Rightarrow> srcpos \<Rightarrow> srcpos \<Rightarrow> cursor" where
  "part_cursor s a e =
     \<lparr>csrc = s, cpos = (if pptr a \<le> pptr e \<and> pptr e \<le> peot a then a\<lparr>peot := pptr e\<rparr> else a)\<rparr>"

section \<open>Reading and advancing\<close>

abbreviation ptr :: "cursor \<Rightarrow> nat" where
  "ptr c \<equiv> pptr (cpos c)"

abbreviation text_of :: "cursor \<Rightarrow> string" where
  "text_of c \<equiv> stext (csrc c)"

text \<open>What a C library function called with \<open>mPos.mPtr\<close> sees: the text up to its terminator, whatever \<open>mEot\<close> is.\<close>

definition ptr_text :: "cursor \<Rightarrow> string" where
  "ptr_text c = cstr (drop (ptr c) (text_of c))"

definition lineno :: "cursor \<Rightarrow> nat" where
  "lineno c = pline (cpos c)"

definition charpos :: "cursor \<Rightarrow> nat" where
  "charpos c = (if \<not> pvalid (cpos c) then 0 else ptr c - pbol (cpos c))"

definition textpos :: "cursor \<Rightarrow> nat" where
  "textpos c = (if \<not> pvalid (cpos c) then 0 else ptr c)"

definition EOT :: "cursor \<Rightarrow> bool" where
  "EOT c \<longleftrightarrow> \<not> pvalid (cpos c) \<or> peot (cpos c) \<le> ptr c \<or> chr_at (text_of c) (ptr c) = NUL"

definition cursor_c :: "cursor \<Rightarrow> nat \<Rightarrow> char" where
  "cursor_c c off =
     (if \<not> pvalid (cpos c) \<or> peot (cpos c) \<le> ptr c + off then NUL else chr_at (text_of c) (ptr c + off))"

definition charsleft :: "cursor \<Rightarrow> nat" where
  "charsleft c = (if pvalid (cpos c) then peot (cpos c) - ptr c else 0)"

definition cursor_next :: "cursor \<Rightarrow> cursor \<times> bool" where
  "cursor_next c =
     (if EOT c then (c, False)
      else if chr_at (text_of c) (ptr c) = NL
      then (c\<lparr>cpos := (cpos c)\<lparr>pline := pline (cpos c) + 1, pptr := ptr c + 1, pbol := ptr c + 1\<rparr>\<rparr>, True)
      else (c\<lparr>cpos := (cpos c)\<lparr>pptr := ptr c + 1\<rparr>\<rparr>, True))"

abbreviation nxt :: "cursor \<Rightarrow> cursor" where
  "nxt c \<equiv> fst (cursor_next c)"

fun cursor_advance :: "cursor \<Rightarrow> nat \<Rightarrow> cursor \<times> bool" where
  "cursor_advance c 0 = (c, True)"
| "cursor_advance c (Suc n) =
     (let (c', ok) = cursor_next c in if \<not> ok then (c', False) else cursor_advance c' n)"

abbreviation adv :: "cursor \<Rightarrow> nat \<Rightarrow> cursor" where
  "adv c n \<equiv> fst (cursor_advance c n)"

definition nextIf :: "cursor \<Rightarrow> char \<Rightarrow> cursor \<times> bool" where
  "nextIf c a = (if cursor_c c 0 = a then (nxt c, True) else (c, False))"

lemma cursor_c_EOT: "EOT c \<longleftrightarrow> cursor_c c 0 = NUL"
  by (auto simp: EOT_def cursor_c_def)

lemma nxt_simps [cursor_simps]:
  "csrc (nxt c) = csrc c" "pvalid (cpos (nxt c)) = pvalid (cpos c)" "peot (cpos (nxt c)) = peot (cpos c)"
  by (auto simp: cursor_next_def)

lemma ptr_nxt: "ptr (nxt c) = (if EOT c then ptr c else Suc (ptr c))"
  by (auto simp: cursor_next_def)

lemma ptr_nxt_le [cursor_simps]: "ptr c \<le> ptr (nxt c)"
  by (simp add: ptr_nxt)

lemma adv_simps [cursor_simps]:
  "csrc (adv c n) = csrc c" "pvalid (cpos (adv c n)) = pvalid (cpos c)"
  "peot (cpos (adv c n)) = peot (cpos c)"
proof (induction n arbitrary: c)
  case (Suc n)
  { case 1 then show ?case using Suc.IH [of "nxt c"] nxt_simps [of c] by (auto simp: Let_def split: prod.splits) }
  { case 2 then show ?case using Suc.IH [of "nxt c"] nxt_simps [of c] by (auto simp: Let_def split: prod.splits) }
  { case 3 then show ?case using Suc.IH [of "nxt c"] nxt_simps [of c] by (auto simp: Let_def split: prod.splits) }
qed simp_all

lemma ptr_adv_le [cursor_simps]: "ptr c \<le> ptr (adv c n)"
proof (induction n arbitrary: c)
  case (Suc n)
  then show ?case using Suc [of "nxt c"] ptr_nxt_le [of c]
    by (auto simp: Let_def split: prod.splits intro: le_trans)
qed simp

section \<open>White space and comments\<close>

definition is_ws :: "char \<Rightarrow> bool" where
  "is_ws x \<longleftrightarrow> x = CHR '' '' \<or> x = TAB \<or> x = NL \<or> x = CR"

lemma is_ws_NUL [simp]: "\<not> is_ws NUL"
  by (simp add: is_ws_def)

lemma left_nxt: "cursor_c c 0 \<noteq> NUL \<Longrightarrow> peot (cpos (nxt c)) - ptr (nxt c) < peot (cpos c) - ptr c"
  by (auto simp: cursor_next_def EOT_def cursor_c_def split: if_splits)

function skipWhiteSpace :: "cursor \<Rightarrow> cursor" where
  "skipWhiteSpace c = (if is_ws (cursor_c c 0) then skipWhiteSpace (nxt c) else c)"
  by pat_completeness auto
termination
  by (relation "measure (\<lambda>c. peot (cpos c) - ptr c)") (auto intro!: left_nxt)

function skip_line :: "cursor \<Rightarrow> cursor" where
  "skip_line c =
     (if cursor_c c 0 \<noteq> NUL \<and> cursor_c c 0 \<noteq> NL \<and> cursor_c c 0 \<noteq> CR then skip_line (nxt c) else c)"
  by pat_completeness auto
termination
  by (relation "measure (\<lambda>c. peot (cpos c) - ptr c)") (auto intro!: left_nxt)

function skip_to_star :: "cursor \<Rightarrow> cursor" where
  "skip_to_star c =
     (if cursor_c c 0 \<noteq> NUL \<and> cursor_c c 0 \<noteq> CHR ''*'' then skip_to_star (nxt c) else c)"
  by pat_completeness auto
termination
  by (relation "measure (\<lambda>c. peot (cpos c) - ptr c)") (auto intro!: left_nxt)

declare skipWhiteSpace.simps [simp del] skip_line.simps [simp del] skip_to_star.simps [simp del]

text \<open>A loop that only moves forward keeps the text and its end, and never moves back.\<close>

definition forward :: "cursor \<Rightarrow> cursor \<Rightarrow> bool" where
  "forward c d \<longleftrightarrow> csrc d = csrc c \<and> pvalid (cpos d) = pvalid (cpos c) \<and> peot (cpos d) = peot (cpos c) \<and> ptr c \<le> ptr d"

lemma forward_refl [simp, intro]: "forward c c"
  by (simp add: forward_def)

lemma forward_trans: "forward a b \<Longrightarrow> forward b c \<Longrightarrow> forward a c"
  by (auto simp: forward_def)

lemma forward_nxt [simp, intro]: "forward c (nxt c)"
  by (simp add: forward_def cursor_simps)

lemma forward_adv [simp, intro]: "forward c (adv c n)"
  by (simp add: forward_def cursor_simps)

lemma forward_skipWhiteSpace [simp, intro]: "forward c (skipWhiteSpace c)"
  by (induction c rule: skipWhiteSpace.induct)
     (subst skipWhiteSpace.simps, auto intro: forward_trans [OF forward_nxt])

lemma forward_skip_line [simp, intro]: "forward c (skip_line c)"
  by (induction c rule: skip_line.induct)
     (subst skip_line.simps, auto intro: forward_trans [OF forward_nxt])

lemma forward_skip_to_star [simp, intro]: "forward c (skip_to_star c)"
  by (induction c rule: skip_to_star.induct)
     (subst skip_to_star.simps, auto intro: forward_trans [OF forward_nxt])

lemma left_forward: "forward c d \<Longrightarrow> peot (cpos d) - ptr d \<le> peot (cpos c) - ptr c"
  by (auto simp: forward_def)

text \<open>The loop over the body of a C comment, from after the opening \<open>/*\<close>.\<close>

function skip_block :: "cursor \<Rightarrow> cursor" where
  "skip_block c =
     (if cursor_c c 0 = NUL then c
      else let d = skip_to_star c
           in if cursor_c d 1 = CHR ''/'' then adv d 2 else if cursor_c d 0 = NUL then nxt d else skip_block (nxt d))"
  by pat_completeness auto
termination
  by (relation "measure (\<lambda>c. peot (cpos c) - ptr c)")
     (auto intro: less_le_trans [OF left_nxt left_forward])

declare skip_block.simps [simp del]

lemma forward_skip_block [simp, intro]: "forward c (skip_block c)"
proof (induction c rule: skip_block.induct)
  case (1 c)
  let ?d = "skip_to_star c"
  have s: "forward c ?d" by simp
  have n: "forward c (nxt ?d)" using s forward_nxt by (rule forward_trans)
  have a: "forward c (adv ?d 2)" using s forward_adv by (rule forward_trans)
  show ?case
    by (subst skip_block.simps) (use "1" s n a in \<open>auto simp: Let_def intro: forward_trans [OF n]\<close>)
qed

lemma left_two:
  assumes "cursor_c c 0 \<noteq> NUL"
  shows "peot (cpos (adv c 2)) - ptr (adv c 2) < peot (cpos c) - ptr c"
proof -
  have "forward (nxt c) (adv c 2)"
    by (auto simp: numeral_2_eq_2 Let_def split: prod.splits) (metis forward_nxt forward_refl fst_conv)+
  from le_less_trans [OF left_forward [OF this] left_nxt [OF assms]] show ?thesis .
qed

function skipNonCode_loop :: "cursor \<Rightarrow> cursor" where
  "skipNonCode_loop c0 =
     (let c = skipWhiteSpace c0
      in if cursor_c c 0 = CHR ''/'' \<and> cursor_c c 1 = CHR ''/'' then skipNonCode_loop (skip_line (adv c 2))
         else if cursor_c c 0 = CHR ''/'' \<and> cursor_c c 1 = CHR ''*'' then skipNonCode_loop (skip_block (adv c 2))
         else c)"
  by pat_completeness auto
termination
proof (relation "measure (\<lambda>c. peot (cpos c) - ptr c)", simp_all, goal_cases)
  case (1 c0)
  then show ?case
    by (intro le_less_trans [OF left_forward [OF forward_skip_line]]
          less_le_trans [OF left_two left_forward [OF forward_skipWhiteSpace]]) auto
next
  case (2 c0)
  then show ?case
    by (intro le_less_trans [OF left_forward [OF forward_skip_block]]
          less_le_trans [OF left_two left_forward [OF forward_skipWhiteSpace]]) auto
qed

declare skipNonCode_loop.simps [simp del]

definition skipNonCode :: "cursor \<Rightarrow> cursor" where
  "skipNonCode c = (if \<not> pvalid (cpos c) then c else skipNonCode_loop c)"

definition nextCodeIf :: "cursor \<Rightarrow> char \<Rightarrow> cursor \<times> bool" where
  "nextCodeIf c a = nextIf (skipNonCode c) a"

section \<open>Display\<close>

definition displaycode :: "cursor \<Rightarrow> nat \<Rightarrow> string" where
  "displaycode c aMaxLen =
     singleLine (if pvalid (cpos c) then Some (drop (ptr c) (text_of c)) else None) True aMaxLen"

definition originLabel :: "cursor \<Rightarrow> string" where
  "originLabel c = (case slabel (csrc c) of None \<Rightarrow> ''<unlabeled>'' | Some l \<Rightarrow> l)"

definition describePos :: "cursor \<Rightarrow> nat \<Rightarrow> string" where
  "describePos c aCodeMaxLen =
     ''('' @ cstr (originLabel c) @ '':'' @ print_int (int (lineno c + 1)) @ '','' @
     print_int (int (charpos c + 1)) @ ''):  '' @ displaycode c aCodeMaxLen"

section \<open>Identifiers\<close>

definition is_idchar :: "char \<Rightarrow> bool" where
  "is_idchar x \<longleftrightarrow> x \<noteq> NUL \<and> (c_isalnum x \<or> x = CHR ''_'')"

function ident_end :: "cursor \<Rightarrow> nat \<Rightarrow> nat" where
  "ident_end c n = (if is_idchar (cursor_c c n) then ident_end c (Suc n) else n)"
  by pat_completeness auto
termination
  by (relation "measure (\<lambda>(c, n). peot (cpos c) - (ptr c + n))") (auto simp: is_idchar_def cursor_c_def split: if_splits)

declare ident_end.simps [simp del]

text \<open>The length of the identifier at the cursor, \<open>None\<close> when there is none.\<close>

definition ident_len :: "cursor \<Rightarrow> nat option" where
  "ident_len c = (if EOT c \<or> \<not> c_isalpha (cursor_c c 0) then None else Some (ident_end c 1))"

text \<open>Moving the pointer by \<open>mPos.mPtr += o\<close>, without counting lines.\<close>

definition ptr_add :: "cursor \<Rightarrow> nat \<Rightarrow> cursor" where
  "ptr_add c n = c\<lparr>cpos := (cpos c)\<lparr>pptr := ptr c + n\<rparr>\<rparr>"

text \<open>\<open>peek\<close> tells that a length is asked for, and the cursor stays: the result then is the length.\<close>

definition parseIdentifier :: "cursor \<Rightarrow> bool \<Rightarrow> (string \<times> nat \<times> cursor) option" where
  "parseIdentifier c peek =
     (case ident_len c of
        None \<Rightarrow> None
      | Some n \<Rightarrow> Some (substr (text_of c) (ptr c) n, n, if peek then c else ptr_add c n))"

definition checkForIdentifier :: "cursor \<Rightarrow> string \<Rightarrow> cursor \<times> bool" where
  "checkForIdentifier c aIdentifier =
     (case ident_len c of
        None \<Rightarrow> (c, False)
      | Some n \<Rightarrow>
          if uequals_ptr (drop (ptr c) (text_of c)) aIdentifier n 0 then (ptr_add c n, True) else (c, False))"

section \<open>Operators\<close>

datatype opcode =
    op_none | op_not | op_multiply | op_divide | op_modulo | op_add | op_subtract
  | op_equal | op_assignOrEq | op_notequal | op_less | op_greater | op_leq | op_geq
  | op_and | op_or | op_assign | op_delete

text \<open>The operator with its flags \<open>op_incdec\<close> and \<open>op_self\<close>, and the number of the enumeration.\<close>

datatype ScriptOperator = Op (oc: opcode) (op_incdec: bool) (op_self: bool)

fun op_number :: "opcode \<Rightarrow> nat" where
  "op_number op_none = 0" | "op_number op_not = 1" | "op_number op_multiply = 2"
| "op_number op_divide = 3" | "op_number op_modulo = 4" | "op_number op_add = 5"
| "op_number op_subtract = 6" | "op_number op_equal = 7" | "op_number op_assignOrEq = 8"
| "op_number op_notequal = 9" | "op_number op_less = 10" | "op_number op_greater = 11"
| "op_number op_leq = 12" | "op_number op_geq = 13" | "op_number op_and = 14"
| "op_number op_or = 15" | "op_number op_assign = 16" | "op_number op_delete = 17"

fun precedence :: "opcode \<Rightarrow> nat" where
  "precedence op_none = 7" | "precedence op_not = 7" | "precedence op_multiply = 6"
| "precedence op_divide = 6" | "precedence op_modulo = 6" | "precedence op_add = 5"
| "precedence op_subtract = 5" | "precedence op_equal = 4" | "precedence op_assignOrEq = 4"
| "precedence op_notequal = 4" | "precedence op_less = 4" | "precedence op_greater = 4"
| "precedence op_leq = 4" | "precedence op_geq = 4" | "precedence op_and = 3"
| "precedence op_or = 2" | "precedence op_assign = 0" | "precedence op_delete = 0"

definition op_value :: "ScriptOperator \<Rightarrow> nat" where
  "op_value p = op_number (oc p) * 8 + precedence (oc p) + (if op_incdec p then 256 else 0) + (if op_self p then 512 else 0)"

abbreviation plain :: "opcode \<Rightarrow> ScriptOperator" where
  "plain p \<equiv> Op p False False"

text \<open>\<open>checkself\<close>: with a following \<open>=\<close> the operator assigns to its left operand.\<close>

definition checkself :: "cursor \<Rightarrow> opcode \<Rightarrow> nat \<Rightarrow> ScriptOperator \<times> nat" where
  "checkself c p n = (if cursor_c c n = CHR ''='' then (Op p False True, n + 1) else (plain p, n))"

text \<open>The operator at the cursor and its length (\<open>o\<close> in the code).\<close>

definition operator_at :: "cursor \<Rightarrow> (ScriptOperator \<times> nat) option" where
  "operator_at c =
     (let x = cursor_c c 0; y = cursor_c c 1
      in if x = CHR '':'' then (if y \<noteq> CHR ''='' then None else Some (plain op_assign, 2))
         else if x = CHR ''='' then Some (if y = CHR ''='' then (plain op_equal, 2) else (plain op_assignOrEq, 1))
         else if x = CHR ''*'' then Some (checkself c op_multiply 1)
         else if x = CHR ''/'' then Some (checkself c op_divide 1)
         else if x = CHR ''%'' then Some (checkself c op_modulo 1)
         else if x = CHR ''&'' then Some (checkself c op_and (if y = CHR ''&'' then 2 else 1))
         else if x = CHR ''|'' then Some (checkself c op_or (if y = CHR ''|'' then 2 else 1))
         else if x = CHR ''+'' then Some (if y = CHR ''+'' then (Op op_add True False, 2) else checkself c op_add 1)
         else if x = CHR ''-'' then Some (if y = CHR ''-'' then (Op op_subtract True False, 2) else checkself c op_subtract 1)
         else if x = CHR ''<'' then
           Some (if y = CHR ''='' then (plain op_leq, 2) else if y = CHR ''>'' then (plain op_notequal, 2) else (plain op_less, 1))
         else if x = CHR ''>'' then Some (if y = CHR ''='' then (plain op_geq, 2) else (plain op_greater, 1))
         else if x = CHR ''!'' then Some (if y = CHR ''='' then (plain op_notequal, 2) else (plain op_not, 1))
         else None)"

definition parseOperator :: "cursor \<Rightarrow> cursor \<times> ScriptOperator" where
  "parseOperator c0 =
     (let c = skipNonCode c0
      in case operator_at c of
           None \<Rightarrow> (c, plain op_none)
         | Some (p, n) \<Rightarrow> (skipNonCode (adv c n), p))"

section \<open>Break points\<close>

text \<open>
  The loop that skips block beginnings and empty statements. It is a \<open>partial_function\<close>: nothing
  in the loop moves past a \<open>{\<close> or a \<open>;\<close>.
\<close>

partial_function (option) skip_empty :: "cursor \<Rightarrow> cursor option" where
  "skip_empty c =
     (let d = skipNonCode c
      in if cursor_c d 0 = CHR ''{'' \<or> cursor_c d 0 = CHR '';'' then skip_empty d else Some d)"

text \<open>\<open>breaks\<close> is \<open>mSourceContainer->breakPointAtLine\<close>.\<close>

definition onBreakPoint :: "(nat \<Rightarrow> bool) \<Rightarrow> cursor \<Rightarrow> bool option" where
  "onBreakPoint breaks c =
     (if breaks (lineno c)
      then map_option (\<lambda>d. lineno c = lineno d \<and> ptr c \<le> ptr d)
             (skip_empty (c\<lparr>cpos := (cpos c)\<lparr>pptr := pbol (cpos c)\<rparr>\<rparr>))
      else Some False)"

section \<open>What the loops stop at\<close>

lemma skipWhiteSpace_stops [simp]: "\<not> is_ws (cursor_c (skipWhiteSpace c) 0)"
  by (induction c rule: skipWhiteSpace.induct) (subst skipWhiteSpace.simps, auto)

lemma skipWhiteSpace_id: "\<not> is_ws (cursor_c c 0) \<Longrightarrow> skipWhiteSpace c = c"
  by (simp add: skipWhiteSpace.simps)

text \<open>\<open>at_code\<close>: neither white space nor the beginning of a comment is at the cursor.\<close>

definition at_code :: "cursor \<Rightarrow> bool" where
  "at_code c \<longleftrightarrow> \<not> is_ws (cursor_c c 0) \<and>
     \<not> (cursor_c c 0 = CHR ''/'' \<and> (cursor_c c 1 = CHR ''/'' \<or> cursor_c c 1 = CHR ''*''))"

lemma skipNonCode_loop_at_code: "at_code (skipNonCode_loop c)"
proof (induction c rule: skipNonCode_loop.induct)
  case (1 c)
  then show ?case by (subst skipNonCode_loop.simps) (auto simp: Let_def at_code_def)
qed

lemma skipNonCode_loop_id: "at_code c \<Longrightarrow> skipNonCode_loop c = c"
  by (subst skipNonCode_loop.simps) (auto simp: Let_def at_code_def skipWhiteSpace_id)

lemma cursor_c_invalid: "\<not> pvalid (cpos c) \<Longrightarrow> cursor_c c i = NUL"
  by (simp add: cursor_c_def)

lemma skipNonCode_at_code: "at_code (skipNonCode c)"
  by (simp add: skipNonCode_def skipNonCode_loop_at_code) (simp add: at_code_def cursor_c_invalid)

lemma skipNonCode_id: "at_code c \<Longrightarrow> skipNonCode c = c"
  by (simp add: skipNonCode_def skipNonCode_loop_id)

lemma skipNonCode_idem [simp]: "skipNonCode (skipNonCode c) = skipNonCode c"
  by (rule skipNonCode_id) (rule skipNonCode_at_code)

lemma forward_skipNonCode_loop: "forward c (skipNonCode_loop c)"
proof (induction c rule: skipNonCode_loop.induct)
  case (1 c)
  let ?w = "skipWhiteSpace c"
  have w: "forward c (adv ?w 2)"
    using forward_skipWhiteSpace forward_adv by (rule forward_trans)
  have l: "forward c (skip_line (adv ?w 2))" "forward c (skip_block (adv ?w 2))"
    using w forward_skip_line forward_skip_block by (blast intro: forward_trans)+
  show ?case
    by (subst skipNonCode_loop.simps) (use "1" l in \<open>auto simp: Let_def intro: forward_trans\<close>)
qed

lemma forward_skipNonCode [simp, intro]: "forward c (skipNonCode c)"
  by (simp add: skipNonCode_def forward_skipNonCode_loop)

section \<open>Line tracking\<close>

text \<open>
  The invariant of the position: within the text, \<open>pline\<close> counts the line feeds before
  the pointer, and \<open>pbol\<close> is the beginning of the pointer's line.
\<close>

definition bol_of :: "string \<Rightarrow> nat \<Rightarrow> nat" where
  "bol_of s n = (if NL \<in> set (take n s) then n - length (takeWhile (\<lambda>x. x \<noteq> NL) (rev (take n s))) else 0)"

definition line_of :: "string \<Rightarrow> nat \<Rightarrow> nat" where
  "line_of s n = count_list (take n s) NL"

definition pos_ok :: "cursor \<Rightarrow> bool" where
  "pos_ok c \<longleftrightarrow> pvalid (cpos c) \<longrightarrow>
     ptr c \<le> length (text_of c) \<and> peot (cpos c) \<le> length (text_of c) \<and>
     pline (cpos c) = line_of (text_of c) (ptr c) \<and> pbol (cpos c) = bol_of (text_of c) (ptr c)"

lemma line_of_Suc: "n < length s \<Longrightarrow> line_of s (Suc n) = line_of s n + (if s ! n = NL then 1 else 0)"
  by (simp add: line_of_def take_Suc_conv_app_nth)

lemma bol_of_Suc_NL: "n < length s \<Longrightarrow> s ! n = NL \<Longrightarrow> bol_of s (Suc n) = Suc n"
  by (simp add: bol_of_def take_Suc_conv_app_nth)

lemma bol_of_Suc: "n < length s \<Longrightarrow> s ! n \<noteq> NL \<Longrightarrow> bol_of s (Suc n) = bol_of s n"
  by (auto simp: bol_of_def take_Suc_conv_app_nth)

lemma pos_ok_nxt: "pos_ok c \<Longrightarrow> pos_ok (nxt c)"
  by (auto simp: pos_ok_def cursor_next_def EOT_def chr_at_def line_of_Suc bol_of_Suc_NL bol_of_Suc)

lemma pos_ok_text [simp]: "pos_ok (container_cursor s)" "pos_ok (string_cursor t l)" "pos_ok null_cursor"
  by (simp_all add: pos_ok_def container_cursor_def string_cursor_def null_cursor_def text_pos_def null_pos_def
      line_of_def bol_of_def)

lemma pos_ok_adv: "pos_ok c \<Longrightarrow> pos_ok (adv c n)"
  by (induction n arbitrary: c) (auto simp: Let_def split: prod.splits dest: pos_ok_nxt)

lemma pos_ok_skipWhiteSpace: "pos_ok c \<Longrightarrow> pos_ok (skipWhiteSpace c)"
  by (induction c rule: skipWhiteSpace.induct) (subst skipWhiteSpace.simps, auto dest: pos_ok_nxt)

lemma pos_ok_skip_line: "pos_ok c \<Longrightarrow> pos_ok (skip_line c)"
  by (induction c rule: skip_line.induct) (subst skip_line.simps, auto dest: pos_ok_nxt)

lemma pos_ok_skip_to_star: "pos_ok c \<Longrightarrow> pos_ok (skip_to_star c)"
  by (induction c rule: skip_to_star.induct) (subst skip_to_star.simps, auto dest: pos_ok_nxt)

lemma pos_ok_skip_block: "pos_ok c \<Longrightarrow> pos_ok (skip_block c)"
  by (induction c rule: skip_block.induct)
     (subst skip_block.simps, auto simp: Let_def intro: pos_ok_nxt pos_ok_adv pos_ok_skip_to_star)

lemma pos_ok_skipNonCode_loop: "pos_ok c \<Longrightarrow> pos_ok (skipNonCode_loop c)"
proof (induction c rule: skipNonCode_loop.induct)
  case (1 c)
  then show ?case
    by (subst skipNonCode_loop.simps)
       (auto simp: Let_def intro: pos_ok_skipWhiteSpace pos_ok_adv pos_ok_skip_line pos_ok_skip_block)
qed

lemmas pos_ok_intros = pos_ok_nxt pos_ok_adv pos_ok_skipWhiteSpace

lemma pos_ok_skipNonCode: "pos_ok c \<Longrightarrow> pos_ok (skipNonCode c)"
  by (simp add: skipNonCode_def pos_ok_skipNonCode_loop)

lemma pos_ok_parseOperator: "pos_ok c \<Longrightarrow> pos_ok (fst (parseOperator c))"
  by (auto simp: parseOperator_def Let_def intro: pos_ok_skipNonCode pos_ok_adv split: option.splits prod.splits)

lemma skip_empty_only_code:
  assumes "skip_empty c = Some d"
  shows "cursor_c (skipNonCode c) 0 \<notin> {CHR ''{'', CHR '';''}"
proof (rule skip_empty.raw_induct [where P = "\<lambda>c d. cursor_c (skipNonCode c) 0 \<notin> {CHR ''{'', CHR '';''}", OF _ assms])
  fix f :: "cursor \<Rightarrow> cursor option" and c d
  let ?d = "skipNonCode c"
  assume ih: "\<And>c d. f c = Some d \<Longrightarrow> cursor_c (skipNonCode c) 0 \<notin> {CHR ''{'', CHR '';''}"
    and e: "(let d = skipNonCode c
             in if cursor_c d 0 = CHR ''{'' \<or> cursor_c d 0 = CHR '';'' then f d else Some d) = Some d"
  show "cursor_c ?d 0 \<notin> {CHR ''{'', CHR '';''}"
  proof (cases "cursor_c ?d 0 \<in> {CHR ''{'', CHR '';''}")
    case True
    with e have "f ?d = Some d" by (auto simp: Let_def split: if_splits)
    from ih [OF this] show ?thesis unfolding skipNonCode_idem .
  next
    case False
    then show ?thesis .
  qed
qed

section \<open>Text ahead of the cursor\<close>

text \<open>\<open>ahead c t\<close>: the bytes \<open>t\<close> follow at the cursor, before the end of the text.\<close>

definition ahead :: "cursor \<Rightarrow> string \<Rightarrow> bool" where
  "ahead c t \<longleftrightarrow> pvalid (cpos c) \<and> ptr c + length t \<le> peot (cpos c) \<and> prefix t (drop (ptr c) (text_of c))"

lemma ahead_c: "ahead c t \<Longrightarrow> i < length t \<Longrightarrow> cursor_c c i = t ! i"
proof -
  assume a: "ahead c t" and i: "i < length t"
  then obtain r where r: "drop (ptr c) (text_of c) = t @ r" by (auto simp: ahead_def prefix_def)
  have "chr_at (text_of c) (ptr c + i) = chr_at (drop (ptr c) (text_of c)) i" by (simp add: chr_at_drop)
  also have "\<dots> = t ! i" using i by (simp add: r chr_at_append_left) (simp add: chr_at_def)
  finally show ?thesis using a i by (simp add: cursor_c_def ahead_def)
qed

lemma ahead_0: "ahead c (x # t) \<Longrightarrow> cursor_c c 0 = x"
  by (simp add: ahead_c)

lemma ahead_1: "ahead c (x # y # t) \<Longrightarrow> cursor_c c 1 = y"
  by (simp add: ahead_c)

lemma ahead_add: "ahead c (t @ u) \<Longrightarrow> ahead (ptr_add c (length t)) u"
  by (auto simp: ahead_def ptr_add_def prefix_def) (metis drop_drop add.commute append_eq_conv_conj)

lemma ahead_Cons: "ahead c (x # u) \<Longrightarrow> ahead (ptr_add c (Suc 0)) u"
  using ahead_add [of c "[x]" u] by simp

lemma ahead_left: "ahead c (t @ u) \<Longrightarrow> ahead c t"
  by (auto simp: ahead_def prefix_def)

lemma ptr_add_add [simp]: "ptr_add (ptr_add c m) n = ptr_add c (m + n)"
  by (simp add: ptr_add_def)

lemma ptr_add_0 [simp]: "ptr_add c 0 = c"
  by (simp add: ptr_add_def)

lemma ahead_nxt:
  assumes "ahead c (x # t)" "x \<noteq> NL" "x \<noteq> NUL"
  shows "nxt c = ptr_add c (Suc 0)"
proof -
  have c0: "cursor_c c 0 = x" using assms(1) by (rule ahead_0)
  then have "\<not> EOT c" using assms(3) by (simp add: cursor_c_EOT)
  moreover from this c0 have "chr_at (text_of c) (ptr c) = x" by (auto simp: cursor_c_def EOT_def split: if_splits)
  ultimately show ?thesis using assms(2) by (simp add: cursor_next_def ptr_add_def)
qed

lemma cstr_append: "NUL \<notin> set t \<Longrightarrow> cstr (t @ r) = t @ cstr r"
  unfolding cstr_def by (subst takeWhile_append2) auto

lemma ahead_ptr_text: "ahead c t \<Longrightarrow> NUL \<notin> set t \<Longrightarrow> \<exists>r. ptr_text c = t @ r"
  by (auto simp: ahead_def prefix_def ptr_text_def cstr_append)

end
