(* ===== verification/ScriptValue.thy ===== *)
theory ScriptValue
  imports ScriptCursor
begin

text \<open>
  The script values (\<open>ScriptObj\<close> and its value classes of \<open>p44script.hpp\<close>): type flags, errors,
  the value type, and the literals the cursor parses into values. A value is immutable here;
  arrays and objects are references into the heap of theory \<open>ScriptHeap\<close>.
\<close>

section \<open>Type flags\<close>

type_synonym TypeInfo = u32

definition ti_null :: TypeInfo where "ti_null = 0x001"
definition ti_error :: TypeInfo where "ti_error = 0x002"
definition ti_numeric :: TypeInfo where "ti_numeric = 0x004"
definition ti_text :: TypeInfo where "ti_text = 0x008"
definition ti_objectvalue :: TypeInfo where "ti_objectvalue = 0x010"
definition ti_arrayvalue :: TypeInfo where "ti_arrayvalue = 0x020"
definition ti_executable :: TypeInfo where "ti_executable = 0x100"
definition ti_threadref :: TypeInfo where "ti_threadref = 0x200"
definition ti_allof :: TypeInfo where "ti_allof = 0x400"
definition ti_nonebut :: TypeInfo where "ti_nonebut = 0x800"
definition ti_typeMask :: TypeInfo where "ti_typeMask = 0xFFF"
definition ti_checkedTypesMask :: TypeInfo where "ti_checkedTypesMask = 0x3FF"
definition ti_anyvalid :: TypeInfo where "ti_anyvalid = 0xFFC"
definition ti_scalar :: TypeInfo where "ti_scalar = 0x00C"
definition ti_structured :: TypeInfo where "ti_structured = 0x030"
definition ti_jsonrepresentable :: TypeInfo where "ti_jsonrepresentable = 0x03D"
definition ti_attrMask :: TypeInfo where "ti_attrMask = 0xFFFFF000"
definition ti_lvalue :: TypeInfo where "ti_lvalue = 0x10000"
definition ti_create :: TypeInfo where "ti_create = 0x20000"
definition ti_onlycreate :: TypeInfo where "ti_onlycreate = 0x40000"
definition ti_nooverride :: TypeInfo where "ti_nooverride = 0x80000"
definition ti_unset :: TypeInfo where "ti_unset = 0x100000"
definition ti_global :: TypeInfo where "ti_global = 0x200000"
definition ti_threadlocal :: TypeInfo where "ti_threadlocal = 0x400000"
definition ti_builtin :: TypeInfo where "ti_builtin = 0x800000"
definition ti_objscope :: TypeInfo where "ti_objscope = 0x1000000"
definition ti_classscope :: TypeInfo where "ti_classscope = 0x2000000"
definition ti_nonscopes :: TypeInfo where "ti_nonscopes = 0x1F0000"
definition ti_keeporiginal :: TypeInfo where "ti_keeporiginal = 0x8000000"
definition ti_oneshot :: TypeInfo where "ti_oneshot = 0x10000000"
definition ti_freezable :: TypeInfo where "ti_freezable = 0x20000000"

lemmas ti_defs =
  ti_null_def ti_error_def ti_numeric_def ti_text_def ti_objectvalue_def ti_arrayvalue_def
  ti_executable_def ti_threadref_def ti_allof_def ti_nonebut_def ti_typeMask_def
  ti_checkedTypesMask_def ti_anyvalid_def ti_scalar_def ti_structured_def
  ti_jsonrepresentable_def ti_attrMask_def ti_lvalue_def ti_create_def ti_onlycreate_def
  ti_nooverride_def ti_unset_def ti_global_def ti_threadlocal_def ti_builtin_def
  ti_objscope_def ti_classscope_def ti_nonscopes_def ti_keeporiginal_def ti_oneshot_def
  ti_freezable_def

definition has_flag :: "u32 \<Rightarrow> u32 \<Rightarrow> bool" where
  "has_flag a f \<longleftrightarrow> a AND f \<noteq> 0"

definition typeRequirementMet :: "TypeInfo \<Rightarrow> TypeInfo \<Rightarrow> bool" where
  "typeRequirementMet aInfo aReq \<longleftrightarrow>
     (if aReq AND ti_attrMask \<noteq> 0 \<and> aInfo AND aReq AND ti_attrMask = 0 then False
      else if aReq AND ti_checkedTypesMask \<noteq> 0
      then if aReq AND ti_nonebut \<noteq> 0 \<and> aInfo AND ti_checkedTypesMask AND NOT aReq \<noteq> 0 then False
           else if aReq AND ti_allof \<noteq> 0
           then aInfo AND ti_checkedTypesMask AND aReq = aReq AND ti_checkedTypesMask
           else aInfo AND ti_checkedTypesMask AND aReq \<noteq> 0
      else True)"

text \<open>The text \<open>s\<close> with a further alternative, as the chain of conditions in \<open>typeDescription\<close> adds it.\<close>

definition alt :: "TypeInfo \<Rightarrow> TypeInfo \<Rightarrow> string \<Rightarrow> string \<Rightarrow> string \<Rightarrow> string" where
  "alt aInfo flag sep w s = (if has_flag aInfo flag then (if s \<noteq> [] then s @ sep else s) @ w else s)"

definition typeDescription :: "TypeInfo \<Rightarrow> bool \<Rightarrow> string" where
  "typeDescription aInfo aTerse =
     (if aInfo AND ti_anyvalid = ti_anyvalid
      then if aTerse then ''any''
           else ''any value'' @
             (if aInfo AND (ti_null OR ti_error) \<noteq> ti_null OR ti_error
              then '' but not'' @
                (if \<not> has_flag aInfo ti_null
                 then '' undefined'' @ (if \<not> has_flag aInfo ti_error then '' or'' else []) else []) @
                (if \<not> has_flag aInfo ti_error then '' error'' else [])
              else [])
      else let comma = (if aTerse then ''|'' else '', ''); orsep = (if aTerse then ''|'' else '' or '');
               s0 = (if has_flag aInfo ti_objectvalue then ''object'' else []);
               s1 = alt aInfo ti_arrayvalue ''/'' ''array'' s0;
               s2 = alt aInfo ti_threadref comma ''thread'' s1;
               s3 = alt aInfo ti_executable comma ''executable'' s2;
               s4 = alt aInfo ti_numeric comma ''numeric'' s3;
               s5 = alt aInfo ti_text comma ''string'' s4;
               s6 = alt aInfo ti_error orsep ''error'' s5;
               s7 = alt aInfo ti_null orsep ''undefined'' s6
           in alt aInfo ti_lvalue orsep ''lvalue'' s7)"

section \<open>Errors\<close>

datatype ErrorCode =
    E_OK | E_User | E_DivisionByZero | E_CyclicReference | E_Invalid | E_NotFound | E_NotCreated
  | E_Immutable | E_NotCallable | E_NotLvalue | E_NoPrivilege | E_Busy
  | E_Syntax | E_Aborted | E_Timeout | E_AsyncNotAllowed | E_WrongContext | E_Internal

fun errnum :: "ErrorCode \<Rightarrow> int" where
  "errnum E_OK = 0" | "errnum E_User = 1" | "errnum E_DivisionByZero = 2"
| "errnum E_CyclicReference = 3" | "errnum E_Invalid = 4" | "errnum E_NotFound = 5"
| "errnum E_NotCreated = 6" | "errnum E_Immutable = 7" | "errnum E_NotCallable = 8"
| "errnum E_NotLvalue = 9" | "errnum E_NoPrivilege = 10" | "errnum E_Busy = 11"
| "errnum E_Syntax = 12" | "errnum E_Aborted = 13" | "errnum E_Timeout = 14"
| "errnum E_AsyncNotAllowed = 15" | "errnum E_WrongContext = 16" | "errnum E_Internal = 17"

text \<open>An error object: its domain, its code in that domain and its message.\<close>

record serr =
  edomain :: string
  ecode :: int
  emsg :: string

definition err_base_domain :: string where
  "err_base_domain = ''Error_baseClass''"

definition script_domain :: string where
  "script_domain = ''ScriptError''"

definition script_err :: "ErrorCode \<Rightarrow> string \<Rightarrow> serr" where
  "script_err k m = \<lparr>edomain = script_domain, ecode = errnum k, emsg = m\<rparr>"

definition err_ok :: serr where
  "err_ok = \<lparr>edomain = err_base_domain, ecode = 0, emsg = ''OK''\<rparr>"

definition err_isDomain :: "serr \<Rightarrow> string \<Rightarrow> bool" where
  "err_isDomain e d \<longleftrightarrow> d = edomain e"

definition err_isError :: "serr \<Rightarrow> string \<Rightarrow> int \<Rightarrow> bool" where
  "err_isError e d k \<longleftrightarrow> k = ecode e \<and> err_isDomain e d"

definition err_notOK :: "serr option \<Rightarrow> bool" where
  "err_notOK p \<longleftrightarrow> (case p of None \<Rightarrow> False | Some e \<Rightarrow> ecode e \<noteq> 0)"

definition err_isFatal :: "serr \<Rightarrow> bool" where
  "err_isFatal e \<longleftrightarrow> err_isDomain e script_domain \<and> errnum E_Syntax \<le> ecode e"

definition errNames :: "string list" where
  "errNames = [''OK'', ''User'', ''DivisionByZero'', ''CyclicReference'', ''Invalid'', ''NotFound'',
     ''NotCreated'', ''Immutable'', ''NotCallable'', ''NotLvalue'', ''NoPrivilege'', ''Busy'', ''Syntax'',
     ''Aborted'', ''Timeout'', ''AsyncNotAllowed'', ''WrongContext'', ''Internal'']"

text \<open>
  \<open>errorCodeText\<close> with \<open>ENABLE_NAMED_ERRORS\<close>; domains other than the script's have no names here
  (\<open>errorName\<close> returns null).
\<close>

definition errorCodeText :: "serr \<Rightarrow> string" where
  "errorCodeText e =
     ''('' @ edomain e @ ''::'' @
     (if edomain e = script_domain \<and> 0 \<le> ecode e \<and> nat (ecode e) < length errNames
      then errNames ! nat (ecode e) else if ecode e = 0 then ''OK'' else ''NotOK'') @
     (if ecode e \<noteq> 0 then ''['' @ print_int (ecode e) @ '']'' else []) @ '')''"

definition err_text :: "serr \<Rightarrow> string" where
  "err_text e = (if emsg e \<noteq> [] then emsg e else ''Error'') @ '' '' @ errorCodeText e"

section \<open>Values\<close>

datatype numkind = KNumeric | KBool | KInteger

text \<open>
  \<open>VNull\<close> is an \<open>AnnotatedNullValue\<close>, \<open>VBase\<close> a plain \<open>ScriptObj\<close>. The number classes all keep
  a \<open>double\<close>. \<open>VErr\<close> has the error, the caught flag and the position of an \<open>ErrorPosValue\<close>.
  \<open>VRef\<close> is an array or object, \<open>VExec\<close> an executable with its type flags and annotation, both
  by identity. \<open>VLval\<close> is a \<open>StandardLValue\<close>: the container, the member's name, its index
  (\<open>None\<close> for -1) and the current value, if any.
\<close>

datatype val =
    VBase
  | VNull string
  | VNum numkind f64
  | VStr string
  | VErr serr bool "cursor option"
  | VRef bool nat
  | VExec u32 string nat
  | VLval nat string "nat option" "val option"

abbreviation vnum :: "f64 \<Rightarrow> val" where
  "vnum x \<equiv> VNum KNumeric x"

abbreviation vbool :: "bool \<Rightarrow> val" where
  "vbool b \<equiv> VNum KBool (F_Fin (if b then 1 else 0))"

abbreviation vint :: "int \<Rightarrow> val" where
  "vint i \<equiv> VNum KInteger (f64_of_int i)"

definition err_value :: "ErrorCode \<Rightarrow> string \<Rightarrow> val" where
  "err_value k m = VErr (script_err k m) False None"

definition err_pos_value :: "cursor \<Rightarrow> ErrorCode \<Rightarrow> string \<Rightarrow> val" where
  "err_pos_value c k m = VErr (script_err k m) False (Some c)"

text \<open>\<open>VRef True\<close> is an object, \<open>VRef False\<close> an array.\<close>

fun getTypeInfo :: "val \<Rightarrow> TypeInfo" where
  "getTypeInfo VBase = ti_null"
| "getTypeInfo (VNull _) = ti_null"
| "getTypeInfo (VNum _ _) = ti_numeric"
| "getTypeInfo (VStr _) = ti_text"
| "getTypeInfo (VErr _ _ _) = ti_error"
| "getTypeInfo (VRef b _) = (if b then ti_objectvalue else ti_arrayvalue)"
| "getTypeInfo (VExec t _ _) = t"
| "getTypeInfo (VLval _ _ _ _) = ti_lvalue"

definition hasType :: "val \<Rightarrow> TypeInfo \<Rightarrow> bool" where
  "hasType v t \<longleftrightarrow> has_flag (getTypeInfo v) t"

definition undefined_val :: "val \<Rightarrow> bool" where
  "undefined_val v \<longleftrightarrow> hasType v ti_null"

definition isErr :: "val \<Rightarrow> bool" where
  "isErr v \<longleftrightarrow> hasType v ti_error"

definition defined_val :: "val \<Rightarrow> bool" where
  "defined_val v \<longleftrightarrow> \<not> undefined_val v \<and> \<not> isErr v"

fun errorValue :: "val \<Rightarrow> serr" where
  "errorValue (VErr e _ _) = e"
| "errorValue _ = err_ok"

definition trueOrError :: "serr option \<Rightarrow> val" where
  "trueOrError p = (case p of Some e \<Rightarrow> if err_notOK p then VErr e False None else vbool True | None \<Rightarrow> vbool True)"

definition nothingOrError :: "serr option \<Rightarrow> val option" where
  "nothingOrError p = (case p of Some e \<Rightarrow> if err_notOK p then Some (VErr e False None) else None | None \<Rightarrow> None)"

text \<open>The \<open>ErrorPosValue\<close> of a value at a position: a value that is no error makes an OK error.\<close>

definition to_err_pos :: "cursor \<Rightarrow> val \<Rightarrow> val" where
  "to_err_pos c v = (case v of VErr e k _ \<Rightarrow> VErr e k (Some c) | _ \<Rightarrow> VErr err_ok False (Some c))"

fun getAnnotation :: "val \<Rightarrow> string" where
  "getAnnotation VBase = ''undefined''"
| "getAnnotation (VNull a) = a"
| "getAnnotation (VNum k _) = (case k of KNumeric \<Rightarrow> ''numeric'' | KBool \<Rightarrow> ''boolean'' | KInteger \<Rightarrow> ''integer'')"
| "getAnnotation (VStr _) = ''string''"
| "getAnnotation (VErr _ _ _) = ''error''"
| "getAnnotation (VRef b _) = (if b then ''object'' else ''array'')"
| "getAnnotation (VExec _ a _) = a"
| "getAnnotation (VLval _ _ _ _) = ''lvalue''"

text \<open>\<open>actualValue()\<close>: an lvalue stands for its current value.\<close>

fun actualValue :: "val \<Rightarrow> val option" where
  "actualValue (VLval _ _ _ cur) = cur"
| "actualValue v = Some v"

fun getIdentifier :: "val \<Rightarrow> string" where
  "getIdentifier (VLval _ n _ _) = n"
| "getIdentifier _ = []"

end
