(* ===== verification/ScriptLiteral.thy ===== *)
theory ScriptLiteral
  imports ScriptValue
begin

text \<open>
  The literals of the script language (\<open>SourceCursor::parseNumericLiteral\<close>,
  \<open>parseStringLiteral\<close> and \<open>parseCodeLiteral\<close>), with the calendar that date literals need, and the
  round trip of a quoted string.
\<close>

section \<open>The calendar of mktime\<close>

text \<open>
  What the code reads from outside: the year of the local time (\<open>tm_year\<close> plus 1900), and the
  value an uninitialised local variable happens to hold.
\<close>

record env =
  eyear :: int
  ejunk :: int

definition leap :: "int \<Rightarrow> bool" where
  "leap y \<longleftrightarrow> y mod 4 = 0 \<and> (y mod 100 \<noteq> 0 \<or> y mod 400 = 0)"

definition days_before_year :: "int \<Rightarrow> int" where
  "days_before_year y = 365 * y + (y - 1) div 4 - (y - 1) div 100 + (y - 1) div 400"

definition days_before_month :: "int \<Rightarrow> nat \<Rightarrow> int" where
  "days_before_month y m =
     [0, 31, 59, 90, 120, 151, 181, 212, 243, 273, 304, 334] ! m + (if leap y \<and> 2 \<le> m then 1 else 0)"

text \<open>
  \<open>tm_yday\<close> after \<open>mktime\<close> for noon of the given day: the month and day may be out of range and
  are normalised first. The year is at most a few years from the month's and the day's overflow,
  which the search for the year containing the day follows.
\<close>

definition year_of_day :: "int \<Rightarrow> int" where
  "year_of_day n =
     (let y = (n * 400) div 146097
      in if n < days_before_year y then y - 1 else if n < days_before_year (y + 1) then y else y + 1)"

definition mktime_yday :: "int \<Rightarrow> int \<Rightarrow> int \<Rightarrow> int" where
  "mktime_yday year mon mday =
     (let y = year + mon div 12; m = nat (mon mod 12);
          n = days_before_year y + days_before_month y m + (mday - 1)
      in n - days_before_year (year_of_day n))"

section \<open>Numeric literals\<close>

definition is_instr :: "char \<Rightarrow> string \<Rightarrow> nat \<Rightarrow> bool" where
  "is_instr w s n \<longleftrightarrow> w \<in> set (take n (cstr s)) \<and> w \<noteq> NUL"

definition monthNames :: "string list" where
  "monthNames = [''jan'', ''feb'', ''mar'', ''apr'', ''may'', ''jun'', ''jul'', ''aug'', ''sep'', ''oct'', ''nov'', ''dec'']"

fun find_month :: "string list \<Rightarrow> nat \<Rightarrow> string \<Rightarrow> nat option" where
  "find_month [] m s = None"
| "find_month (n # ns) m s = (if uequals_ptr s n 3 0 then Some m else find_month ns (Suc m) s)"

text \<open>
  A parsed number: the value, whether it is fractional, and the offset up to which the text is
  consumed. \<open>Inl\<close> is the error message.
\<close>

type_synonym numlit = "string + (f64 \<times> bool \<times> int)"

text \<open>The rest of \<open>h:m\<close> or \<open>h:m:s\<close>, with \<open>p\<close> the text at the cursor and \<open>n\<close> the offset of the colon.\<close>

definition time_literal :: "cursor \<Rightarrow> string \<Rightarrow> f64 \<Rightarrow> nat \<Rightarrow> numlit" where
  "time_literal c p num n =
     (case scan_float (drop (n + 1) p) of
        None \<Rightarrow> Inl ''invalid time specification - use hh:mm or hh:mm:ss''
      | Some (t, i) \<Rightarrow>
          let n1 = n + i + 1;
              secs = f64_mul (f64_add (f64_mul num (f64_of_int 60)) t) (f64_of_int 60)
          in if cursor_c c n1 = CHR '':''
             then (case scan_float (drop (n1 + 1) p) of
                     None \<Rightarrow> Inl ''Time specification has invalid seconds - use hh:mm:ss''
                   | Some (t2, i2) \<Rightarrow>
                       Inr (f64_add secs t2, is_instr (CHR ''.'') (drop (n1 + 1) p) i2, int (n1 + i2 + 1)))
             else Inr (secs, False, int n1))"

text \<open>
  \<open>dd.monthname\<close>: the month and day, or an error. \<open>dd.mm.\<close> is scanned by \<open>%d.%d.%n\<close>;
  \<open>%n\<close> is reached only with the final dot, else the variable it would set keeps its value.
\<close>

definition month_literal :: "string \<Rightarrow> f64 \<Rightarrow> nat \<Rightarrow> string + (int \<times> int \<times> int)" where
  "month_literal p num n =
     (case find_month monthNames 0 (drop n p) of
        None \<Rightarrow> Inl ''Invalid date specification - use dd.monthname''
      | Some m \<Rightarrow>
          let d = f64_to_int 32 num
          in if d < 0 then Inl ''Invalid date specification - use dd.monthname'' else Inr (int m + 1, d, int n + 3))"

definition as_int32 :: "int \<Rightarrow> int" where
  "as_int32 i = (i + 2 ^ 31) mod 2 ^ 32 - 2 ^ 31"

definition ddmm_literal :: "env \<Rightarrow> string \<Rightarrow> string + (int \<times> int \<times> int)" where
  "ddmm_literal e p =
     (case scan_dec p of
        Some (d, i) \<Rightarrow>
          (if chr_at p i = CHR ''.''
           then (case scan_dec (drop (i + 1) p) of
                   Some (m, j) \<Rightarrow>
                     Inr (as_int32 m, as_int32 d, if chr_at p (i + 1 + j) = CHR ''.'' then int (i + j + 2) else ejunk e)
                 | None \<Rightarrow> Inl ''Invalid date specification - use dd.mm.'')
           else Inl ''Invalid date specification - use dd.mm.'')
      | None \<Rightarrow> Inl ''Invalid date specification - use dd.mm.'')"

definition date_literal :: "env \<Rightarrow> string + (int \<times> int \<times> int) \<Rightarrow> f64 \<Rightarrow> bool \<Rightarrow> numlit" where
  "date_literal e r num isFloat =
     (case r of
        Inl m \<Rightarrow> Inl m
      | Inr (m, d, n) \<Rightarrow>
          Inr (if 0 \<le> d then (f64_of_int (mktime_yday (eyear e) (m - 1) d), False, n) else (num, isFloat, n)))"

definition numeric_literal :: "env \<Rightarrow> cursor \<Rightarrow> numlit" where
  "numeric_literal e c =
     (let p = ptr_text c
      in case scan_float p of
           None \<Rightarrow> Inl ''invalid number, time or date''
         | Some (num, n) \<Rightarrow>
             let isFloat = is_instr (CHR ''.'') p n
             in if cursor_c c n = NUL then Inr (num, isFloat, int n)
                else if cursor_c c n = CHR '':'' then time_literal c p num n
                else if cursor_c c (n - 1) = CHR ''.'' \<and> c_isalpha (cursor_c c n)
                then date_literal e (month_literal p num n) num isFloat
                else if cursor_c c n = CHR ''.'' then date_literal e (ddmm_literal e p) num isFloat
                else Inr (num, isFloat, int n))"

text \<open>\<open>advance\<close> takes an unsigned count, so a negative offset advances to the end of the text.\<close>

definition parseNumericLiteral :: "env \<Rightarrow> cursor \<Rightarrow> cursor \<times> val" where
  "parseNumericLiteral e c =
     (case numeric_literal e c of
        Inl m \<Rightarrow> (c, err_pos_value c E_Syntax m)
      | Inr (num, isFloat, n) \<Rightarrow>
          (adv c (nat (n mod 2 ^ 64)), if isFloat then vnum num else vint (f64_to_int 64 num)))"

section \<open>String literals\<close>

text \<open>
  The character after a backslash, and the cursor at the last byte of the escape as the code
  leaves it; after \<open>x\<close> it moves on once more when \<open>%02x\<close> matches, whether one or two digits did.
\<close>

definition escape :: "cursor \<Rightarrow> cursor \<times> char" where
  "escape c =
     (let sc = cursor_c c 0
      in if sc = CHR ''n'' then (c, NL)
         else if sc = CHR ''r'' then (c, CR)
         else if sc = CHR ''t'' then (c, TAB)
         else if sc = CHR ''x''
         then let d = nxt c
              in (case scan_hex 2 (ptr_text d) of
                    Some (h, _) \<Rightarrow> (nxt d, nat_char (h mod 256))
                  | None \<Rightarrow> (d, NUL))
         else (c, sc))"

lemma forward_escape: "forward c (fst (escape c))"
  by (auto simp: escape_def Let_def split: option.splits intro: forward_trans [OF forward_nxt])

lemma left_escape:
  assumes "cursor_c c 0 \<noteq> NUL"
  shows "peot (cpos (nxt (fst (escape (nxt c))))) - ptr (nxt (fst (escape (nxt c)))) < peot (cpos c) - ptr c"
proof -
  have "forward (nxt c) (nxt (fst (escape (nxt c))))"
    using forward_escape forward_nxt by (rule forward_trans)
  from le_less_trans [OF left_forward [OF this] left_nxt [OF assms]] show ?thesis .
qed

text \<open>The loop of \<open>parseStringLiteral\<close>: \<open>Inr\<close> is the string, with the cursor at the closing delimiter.\<close>

function string_loop :: "char \<Rightarrow> string \<Rightarrow> cursor \<Rightarrow> cursor \<times> (string + string)" where
  "string_loop delim str c =
     (let sc = cursor_c c 0
      in if sc = delim
         then if delim = SQUOTE \<and> cursor_c c 1 = delim then string_loop delim (str @ [delim]) (adv c 2) else (c, Inr str)
         else if sc = NUL then (c, Inl (''unterminated string, missing '' @ [delim] @ '' delimiter''))
         else if delim \<noteq> SQUOTE \<and> sc = BSLASH
         then let d = nxt c
              in if cursor_c d 0 = NUL then (d, Inl (''incomplete '' @ [BSLASH] @ ''-escape''))
                 else let (d', x) = escape d in string_loop delim (str @ [x]) (nxt d')
         else string_loop delim (str @ [sc]) (nxt c))"
  by pat_completeness auto
termination
proof (relation "measure (\<lambda>(_, _, c). peot (cpos c) - ptr c)", goal_cases)
  case (2 delim str c sc)
  then show ?case by (auto intro: left_two)
next
  case (3 delim str c sc d p d' x)
  then have "d' = fst (escape (nxt c))" by (metis fst_conv)
  with 3 show ?case by (auto intro: left_escape)
next
  case (4 delim str c sc)
  then show ?case by (auto intro!: left_nxt)
qed simp_all

declare string_loop.simps [simp del]

definition parseStringLiteral :: "cursor \<Rightarrow> cursor \<times> val" where
  "parseStringLiteral c =
     (let delim = cursor_c c 0
      in if delim \<noteq> DQUOTE \<and> delim \<noteq> SQUOTE then (c, err_pos_value c E_Syntax ''invalid string literal'')
         else case string_loop delim [] (nxt c) of
                (d, Inl m) \<Rightarrow> (d, err_pos_value d E_Syntax m)
              | (d, Inr s) \<Rightarrow> (nxt d, VStr s))"

definition parseCodeLiteral :: "cursor \<Rightarrow> val" where
  "parseCodeLiteral c = err_pos_value c E_Internal ''Code literals are not yet supported''"

section \<open>Quoted strings read back\<close>

lemma hexval_hexdigit: "d < 16 \<Longrightarrow> hexval (hexdigit_lower d) = Some d"
  by (auto simp: hexval_def hexdigit_lower_def c_isdigit_def)

lemma char_nat_hexdigit: "d < 16 \<Longrightarrow> char_nat (hexdigit_lower d) = (if d < 10 then 48 + d else 87 + d)"
  by (simp add: hexdigit_lower_def)

lemma char_nat_lit:
  "char_nat (CHR ''+'') = 43" "char_nat (CHR ''-'') = 45" "char_nat (CHR ''x'') = 120" "char_nat (CHR '' '') = 32"
  "char_nat NUL = 0" "char_nat NL = 10"
  by (simp_all add: char_nat_def)

lemma hexdigit_not:
  assumes "d < 16"
  shows "\<not> c_isspace (hexdigit_lower d)" "hexdigit_lower d \<noteq> NUL" "hexdigit_lower d \<noteq> NL"
    "hexdigit_lower d \<noteq> CHR ''+''" "hexdigit_lower d \<noteq> CHR ''-''" "c_tolower (hexdigit_lower d) \<noteq> CHR ''x''"
proof -
  note n = char_nat_hexdigit [OF assms]
  show "hexdigit_lower d \<noteq> NUL" "hexdigit_lower d \<noteq> NL" "hexdigit_lower d \<noteq> CHR ''+''" "hexdigit_lower d \<noteq> CHR ''-''"
    using n assms by (auto dest!: arg_cong [where f = char_nat] simp: char_nat_lit split: if_splits)
  show "\<not> c_isspace (hexdigit_lower d)"
    using n assms by (auto dest!: arg_cong [where f = char_nat] simp: char_nat_lit c_isspace_def split: if_splits)
  show "c_tolower (hexdigit_lower d) \<noteq> CHR ''x''"
    using n assms
    by (auto dest!: arg_cong [where f = char_nat] simp: char_nat_lit c_tolower_def c_isupper_def split: if_splits)
qed

lemma scan_hex_digits:
  assumes "a < 16" "b < 16"
  shows "scan_hex 2 (hexdigit_lower a # hexdigit_lower b # r) = Some (16 * a + b, 2)"
  using assms hexdigit_not [of a] hexdigit_not [of b]
  by (simp add: scan_hex_def Let_def sign_len_def has_0x_def is_xdigit_def hexval_hexdigit digits_value_def)

lemma string_loop_plain:
  assumes "ahead c (x # u)" "x \<noteq> NUL" "x \<noteq> NL" "x \<noteq> DQUOTE" "x \<noteq> BSLASH"
  shows "string_loop DQUOTE str c = string_loop DQUOTE (str @ [x]) (ptr_add c (Suc 0))"
  using assms by (subst string_loop.simps) (simp add: Let_def ahead_0 ahead_nxt)

lemma string_loop_escape:
  assumes a: "ahead c (BSLASH # y # u)" and y: "y \<noteq> NUL" "y \<noteq> NL" "y \<noteq> CHR ''x''"
    and x: "x = (if y = CHR ''n'' then NL else if y = CHR ''r'' then CR else if y = CHR ''t'' then TAB else y)"
  shows "string_loop DQUOTE str c = string_loop DQUOTE (str @ [x]) (ptr_add c 2)"
proof -
  have n: "nxt c = ptr_add c (Suc 0)" using a by (rule ahead_nxt) simp_all
  have b: "ahead (ptr_add c (Suc 0)) (y # u)" using a by (rule ahead_Cons)
  have m: "nxt (ptr_add c (Suc 0)) = ptr_add c 2"
    using ahead_nxt [OF b y(2) y(1)] by (simp add: numeral_2_eq_2)
  have e: "escape (ptr_add c (Suc 0)) = (ptr_add c (Suc 0), x)"
    using ahead_0 [OF b] x y(3) by (simp add: escape_def Let_def)
  show ?thesis
    by (subst string_loop.simps) (simp add: Let_def ahead_0 [OF a] n ahead_0 [OF b] y e m)
qed

lemma string_loop_hex:
  assumes a: "ahead c (BSLASH # CHR ''x'' # hexdigit_lower i # hexdigit_lower j # u)" and ij: "i < 16" "j < 16"
  shows "string_loop DQUOTE str c = string_loop DQUOTE (str @ [nat_char (16 * i + j)]) (ptr_add c 4)"
proof -
  have n: "nxt c = ptr_add c (Suc 0)" using a by (rule ahead_nxt) simp_all
  have b: "ahead (ptr_add c (Suc 0)) (CHR ''x'' # hexdigit_lower i # hexdigit_lower j # u)" using a by (rule ahead_Cons)
  have m: "nxt (ptr_add c (Suc 0)) = ptr_add c 2"
    using ahead_nxt [OF b] by (simp add: numeral_2_eq_2)
  have d: "ahead (ptr_add c 2) (hexdigit_lower i # hexdigit_lower j # u)"
    using ahead_Cons [OF b] by (simp add: numeral_2_eq_2)
  have k: "nxt (ptr_add c 2) = ptr_add c 3"
    using ahead_nxt [OF d] hexdigit_not [OF ij(1)] by (simp add: numeral_3_eq_3)
  have f: "ahead (ptr_add c 3) (hexdigit_lower j # u)"
    using ahead_Cons [OF d] by (simp add: numeral_3_eq_3)
  have l: "nxt (ptr_add c 3) = ptr_add c 4"
    using ahead_nxt [OF f] hexdigit_not [OF ij(2)] by simp
  have "ahead (ptr_add c 2) ([hexdigit_lower i, hexdigit_lower j] @ u)" using d by simp
  then have "ahead (ptr_add c 2) [hexdigit_lower i, hexdigit_lower j]" by (rule ahead_left)
  moreover have "NUL \<notin> set [hexdigit_lower i, hexdigit_lower j]"
    using hexdigit_not(2) [OF ij(1)] hexdigit_not(2) [OF ij(2)] by auto
  ultimately have "\<exists>r. ptr_text (ptr_add c 2) = [hexdigit_lower i, hexdigit_lower j] @ r" by (rule ahead_ptr_text)
  then obtain r where r: "ptr_text (ptr_add c 2) = hexdigit_lower i # hexdigit_lower j # r" by auto
  have e: "escape (ptr_add c (Suc 0)) = (ptr_add c 3, nat_char (16 * i + j))"
    using ahead_0 [OF b] ij by (simp add: escape_def Let_def m r scan_hex_digits k)
  show ?thesis
    by (subst string_loop.simps) (simp add: Let_def ahead_0 [OF a] n ahead_0 [OF b] e l)
qed

lemma string_loop_cquote:
  assumes "ahead c (cquote_char x @ u)" "x \<noteq> NUL"
  shows "string_loop DQUOTE str c = string_loop DQUOTE (str @ [x]) (ptr_add c (length (cquote_char x)))"
proof -
  consider (q) "x = DQUOTE \<or> x = BSLASH" | (n) "x = NL" | (r) "x = CR" | (t) "x = TAB"
    | (h) "\<not> (x = DQUOTE \<or> x = BSLASH \<or> x = NL \<or> x = CR \<or> x = TAB)" "char_int x < 32"
    | (p) "\<not> (x = DQUOTE \<or> x = BSLASH \<or> x = NL \<or> x = CR \<or> x = TAB)" "\<not> char_int x < 32"
    by blast
  then show ?thesis
  proof cases
    case q
    then show ?thesis using assms string_loop_escape [of c x u x str] by (auto simp: cquote_char_def numeral_2_eq_2)
  next
    case n
    then show ?thesis using assms string_loop_escape [of c "CHR ''n''" u x str] by (simp add: cquote_char_def numeral_2_eq_2)
  next
    case r
    then show ?thesis using assms string_loop_escape [of c "CHR ''r''" u x str] by (simp add: cquote_char_def numeral_2_eq_2)
  next
    case t
    then show ?thesis using assms string_loop_escape [of c "CHR ''t''" u x str] by (simp add: cquote_char_def numeral_2_eq_2)
  next
    case h
    have b: "char_nat x div 16 < 16" "char_nat x mod 16 < 16"
      using char_nat_bound [of x] by (simp_all add: less_mult_imp_div_less)
    have q: "cquote_char x = [BSLASH, CHR ''x'', hexdigit_lower (char_nat x div 16), hexdigit_lower (char_nat x mod 16)]"
      using h by (simp add: cquote_char_def print_02x_def)
    have l: "length (cquote_char x) = 4" unfolding q by simp
    have "16 * (char_nat x div 16) + char_nat x mod 16 = char_nat x" by simp
    moreover have "ahead c (BSLASH # CHR ''x'' # hexdigit_lower (char_nat x div 16) # hexdigit_lower (char_nat x mod 16) # u)"
      using assms(1) unfolding q by simp
    ultimately show ?thesis
      unfolding l using string_loop_hex [OF _ b, of c u str] by simp
  next
    case p
    then show ?thesis using assms string_loop_plain [of c x u str] by (simp add: cquote_char_def)
  qed
qed

lemma string_loop_quoted:
  assumes "ahead c (concat (map cquote_char s) @ [DQUOTE])" "NUL \<notin> set s"
  shows "string_loop DQUOTE str c = (ptr_add c (length (concat (map cquote_char s))), Inr (str @ s))"
  using assms
proof (induction s arbitrary: c str)
  case Nil
  then show ?case by (subst string_loop.simps) (simp add: Let_def ahead_0)
next
  case (Cons x s)
  let ?n = "length (cquote_char x)"
  have a: "ahead c (cquote_char x @ (concat (map cquote_char s) @ [DQUOTE]))" using Cons.prems by simp
  have "string_loop DQUOTE str c = string_loop DQUOTE (str @ [x]) (ptr_add c ?n)"
    using a Cons.prems by (intro string_loop_cquote) auto
  also have "\<dots> = (ptr_add (ptr_add c ?n) (length (concat (map cquote_char s))), Inr ((str @ [x]) @ s))"
    using Cons.prems by (intro Cons.IH ahead_add [OF a]) auto
  finally show ?case by simp
qed

lemma parse_quoted:
  assumes "ahead c (cstringQuote s)"
  shows "parseStringLiteral c = (ptr_add c (length (cstringQuote s)), VStr (cstr s))"
proof -
  let ?q = "concat (map cquote_char (cstr s))"
  have a: "ahead c (DQUOTE # ?q @ [DQUOTE])" using assms by (simp add: cstringQuote_def)
  have n: "nxt c = ptr_add c (Suc 0)" using a by (rule ahead_nxt) simp_all
  have b: "ahead (ptr_add c (Suc 0)) (?q @ [DQUOTE])" using a by (rule ahead_Cons)
  have l: "string_loop DQUOTE [] (ptr_add c (Suc 0)) = (ptr_add (ptr_add c (Suc 0)) (length ?q), Inr ([] @ cstr s))"
    using b by (intro string_loop_quoted) simp_all
  have "nxt (ptr_add (ptr_add c (Suc 0)) (length ?q)) = ptr_add (ptr_add (ptr_add c (Suc 0)) (length ?q)) (Suc 0)"
    using ahead_add [OF b] by (rule ahead_nxt) simp_all
  then show ?thesis
    by (simp add: parseStringLiteral_def ahead_0 [OF a] n l cstringQuote_def Let_def)
qed

end
