(* ===== verification/ScriptLex.thy ===== *)
theory ScriptLex
  imports StrOrder StrCodec ScriptLiteral
begin

text \<open>
  What the lexical level of the script language promises: line tracking, comment skipping, keywords,
  string and number literals, and the loop of the break point check.
\<close>

section \<open>Identifiers\<close>

lemma ident_end_chars: "n \<le> ident_end c n \<and> (\<forall>m. n \<le> m \<longrightarrow> m < ident_end c n \<longrightarrow> is_idchar (cursor_c c m))"
proof (induction c n rule: ident_end.induct)
  case (1 c n)
  show ?case
  proof (cases "is_idchar (cursor_c c n)")
    case True
    with 1 have ih: "Suc n \<le> ident_end c (Suc n)"
      "\<And>m. Suc n \<le> m \<Longrightarrow> m < ident_end c (Suc n) \<Longrightarrow> is_idchar (cursor_c c m)" by auto
    have e: "ident_end c n = ident_end c (Suc n)" using True by (subst ident_end.simps) simp
    show ?thesis unfolding e using ih True by (metis Suc_leD le_antisym not_less_eq_eq)
  next
    case False
    then show ?thesis by (subst ident_end.simps, subst ident_end.simps) simp
  qed
qed

lemma ident_end_stops: "\<not> is_idchar (cursor_c c (ident_end c n))"
  by (induction c n rule: ident_end.induct) (subst ident_end.simps, simp)

lemma cursor_c_text: "cursor_c c i \<noteq> NUL \<Longrightarrow> cursor_c c i = drop (ptr c) (text_of c) ! i \<and> i < length (drop (ptr c) (text_of c))"
  by (auto simp: cursor_c_def chr_at_def split: if_splits)

lemma ident_text:
  assumes "ident_len c = Some n"
  shows "0 < n" "n \<le> length (cstr (drop (ptr c) (text_of c)))"
    "take n (cstr (drop (ptr c) (text_of c))) = substr (text_of c) (ptr c) n"
proof -
  let ?t = "drop (ptr c) (text_of c)"
  have n: "n = ident_end c 1" and a: "c_isalpha (cursor_c c 0)"
    using assms by (auto simp: ident_len_def split: if_splits)
  have id: "is_idchar (cursor_c c m)" if "m < n" for m
    using ident_end_chars [of 1 c] that a unfolding n
    by (cases m) (auto simp: is_idchar_def c_isalnum_def c_isalpha_def c_isupper_def c_islower_def char_nat_def)
  show "0 < n" using ident_end_chars [of 1 c] n by simp
  have t: "m < length ?t \<and> ?t ! m \<noteq> NUL" if "m < n" for m
    using id [OF that] cursor_c_text [of c m] by (auto simp: is_idchar_def)
  have l: "n \<le> length ?t" using t [of "n - 1"] \<open>0 < n\<close> by linarith
  have "cstr ?t = take n ?t @ cstr (drop n ?t)"
  proof -
    have "NUL \<notin> set (take n ?t)" using t by (auto simp: in_set_conv_nth)
    from cstr_append [OF this, of "drop n ?t"] show ?thesis unfolding append_take_drop_id .
  qed
  then show "n \<le> length (cstr ?t)" "take n (cstr ?t) = substr (text_of c) (ptr c) n"
    using l by (simp_all add: substr_def min_absorb1)
qed

section \<open>Decimal integers\<close>

lemma digit_char: "c_isdigit c \<Longrightarrow> \<exists>d<10. c = nat_char (48 + d)"
  by (rule exI [of _ "char_nat c - 48"]) (auto simp: c_isdigit_def)

text \<open>The characters that may follow the digits of a decimal integer.\<close>

definition ends_number :: "char \<Rightarrow> bool" where
  "ends_number x \<longleftrightarrow> \<not> c_isdigit x \<and> x \<noteq> CHR ''.'' \<and> x \<noteq> CHR '':'' \<and> c_tolower x \<noteq> CHR ''e'' \<and> c_tolower x \<noteq> CHR ''x''"

lemma digit_not_name:
  assumes "c_isdigit x"
  shows "\<not> ci_prefix ''infinity'' (x # u)" "\<not> ci_prefix ''inf'' (x # u)" "\<not> ci_prefix ''nan'' (x # u)" "c_tolower x \<noteq> CHR ''x''"
proof -
  have "c_tolower x = x" using assms by (auto simp: c_tolower_def c_isdigit_def c_isupper_def)
  then show "\<not> ci_prefix ''infinity'' (x # u)" "\<not> ci_prefix ''inf'' (x # u)" "\<not> ci_prefix ''nan'' (x # u)" "c_tolower x \<noteq> CHR ''x''"
    using assms by (auto simp: ci_prefix_def c_isdigit_def char_nat_def)
qed

lemma scan_float_nat:
  assumes "r = [] \<or> ends_number (hd r)" "n \<le> 2 ^ 53"
  shows "scan_float (dec_digits n @ r) = Some (F_Fin (of_nat n), length (dec_digits n))"
proof -
  obtain x t where d: "dec_digits n = x # t" using dec_digits_nz [of n] by (cases "dec_digits n") auto
  have x: "c_isdigit x" and ds: "\<forall>c\<in>set (dec_digits n). c_isdigit c"
    using dec_digits_digits [of _ n] d by auto
  note q = digit_not [OF x] digit_not_name [OF x]
  have w: "count_while c_isspace (dec_digits n @ r) = 0" using q(1) by (simp add: d)
  have g: "sign_len (dec_digits n @ r) = 0" using q(1) by (simp add: d sign_len_def)
  have nx: "chr_at (dec_digits n @ r) (length (dec_digits n)) = chr_at r 0"
    using chr_at_append_right [of "dec_digits n" r 0] by simp
  have r0: "chr_at r 0 = NUL \<or> ends_number (chr_at r 0)" using assms(1) by (cases r) auto
  have nul: "NUL \<noteq> CHR ''.''" "c_tolower NUL \<noteq> CHR ''e''" "c_tolower NUL \<noteq> CHR ''x''"
    by (simp_all add: c_tolower_def c_isupper_def char_nat_def)
  have h: "\<not> has_0x (dec_digits n @ r)"
  proof (cases t)
    case Nil
    then show ?thesis using r0 nul by (auto simp: has_0x_def d ends_number_def)
  next
    case (Cons y u)
    then have "c_isdigit y" using ds d by simp
    then show ?thesis using digit_not_name(4) [of y] by (simp add: has_0x_def d Cons)
  qed
  have k: "count_while c_isdigit (dec_digits n @ r) = length (dec_digits n)"
    using assms(1) ds by (intro count_while_all) (auto simp: ends_number_def)
  have m: "scan_mantissa c_isdigit 10 (dec_digits n @ r) = Some (of_nat n, length (dec_digits n))"
    using r0 nul dec_digits_nz [of n] by (auto simp: scan_mantissa_def k nx Let_def ends_number_def dec_digits_value)
  have e: "scan_exponent (CHR ''e'') r = None"
    using r0 nul by (auto simp: scan_exponent_def ends_number_def)
  have neg: "chr_at (dec_digits n @ r) 0 \<noteq> CHR ''-''" using q(1) by (simp add: d)
  have p: "\<not> ci_prefix ''infinity'' (dec_digits n @ r)" "\<not> ci_prefix ''inf'' (dec_digits n @ r)"
    "\<not> ci_prefix ''nan'' (dec_digits n @ r)"
    using q(2-4) by (simp_all add: d)
  show ?thesis
    by (simp add: scan_float_def Let_def w g h m e neg p f64_round_of_nat [OF assms(2)])
qed

lemma adv_ptr_add:
  assumes "ahead c t" "NL \<notin> set t" "NUL \<notin> set t"
  shows "cursor_advance c (length t) = (ptr_add c (length t), True)"
  using assms
proof (induction t arbitrary: c)
  case (Cons x t)
  have "\<not> EOT c" using Cons.prems ahead_0 [OF Cons.prems(1)] by (auto simp: cursor_c_EOT)
  then have n: "cursor_next c = (ptr_add c (Suc 0), True)"
    using ahead_nxt [OF Cons.prems(1)] Cons.prems by (cases "cursor_next c") (auto simp: cursor_next_def split: if_splits)
  show ?case using Cons.IH [OF ahead_Cons [OF Cons.prems(1)]] Cons.prems by (simp add: n)
qed simp

lemma digit_NL: "\<not> c_isdigit NL"
  by (simp add: c_isdigit_def char_nat_def)

lemma parse_digits:
  assumes "ptr_text c = dec_digits n @ r" "r = [] \<or> ends_number (hd r)" "ahead c (dec_digits n)"
    "cursor_c c (length (dec_digits n)) = x" "x = NUL \<or> ends_number x" "n \<le> 2 ^ 53" "length (dec_digits n) < 2 ^ 64"
  shows "parseNumericLiteral e c = (ptr_add c (length (dec_digits n)), VNum KInteger (F_Fin (of_nat n)))"
proof -
  let ?l = "length (dec_digits n)"
  have ds: "\<forall>c\<in>set (dec_digits n). c_isdigit c" using dec_digits_digits [of _ n] by auto
  have f: "scan_float (ptr_text c) = Some (F_Fin (of_nat n), ?l)"
    using scan_float_nat [OF assms(2,6)] by (simp add: assms(1))
  have "?l - 1 < ?l" using dec_digits_nz [of n] by simp
  then have "cursor_c c (?l - 1) = dec_digits n ! (?l - 1)" using ahead_c [OF assms(3), of "?l - 1"] by simp
  then have "c_isdigit (cursor_c c (?l - 1))" using ds \<open>?l - 1 < ?l\<close> by simp
  then have dot: "cursor_c c (?l - 1) \<noteq> CHR ''.''" using digit_not by blast
  have ni: "\<not> is_instr (CHR ''.'') (ptr_text c) ?l"
  proof -
    have "cstr (ptr_text c) = ptr_text c" by (simp add: ptr_text_def)
    then have "take ?l (cstr (ptr_text c)) = dec_digits n" by (simp add: assms(1))
    then show ?thesis using ds digit_not unfolding is_instr_def by metis
  qed
  have x: "x \<noteq> CHR '':''" "x \<noteq> CHR ''.''" using assms(5) by (auto simp: ends_number_def)
  have "numeric_literal e c = Inr (F_Fin (of_nat n), False, int ?l)"
    using x dot by (simp add: numeric_literal_def f Let_def assms(4) ni)
  moreover have "nat (int ?l mod 2 ^ 64) = ?l" using assms(7) by (simp add: nat_mod_as_int [symmetric])
  moreover have "adv c ?l = ptr_add c ?l"
    using adv_ptr_add [OF assms(3)] digit_not digit_NL ds by (metis fst_conv)
  moreover have "f64_to_int 64 (F_Fin (of_nat n)) = int n" "f64_of_int (int n) = F_Fin (of_nat n)"
    using f64_to_int_of_int [of "int n"] f64_of_int_exact [of "int n"] assms(6) by simp_all
  ultimately show ?thesis by (simp add: parseNumericLiteral_def)
qed

lemma parse_integer:
  assumes "ahead c (dec_digits n @ [x])" "ends_number x" "x \<noteq> NUL" "n \<le> 2 ^ 53" "length (dec_digits n) < 2 ^ 64"
  shows "parseNumericLiteral e c = (ptr_add c (length (dec_digits n)), VNum KInteger (F_Fin (of_nat n)))"
proof -
  have nul: "NUL \<notin> set (dec_digits n @ [x])" using dec_digits_digits [of _ n] digit_not assms(3) by auto
  obtain r where "ptr_text c = (dec_digits n @ [x]) @ r" using ahead_ptr_text [OF assms(1) nul] by blast
  moreover have "cursor_c c (length (dec_digits n)) = x" using ahead_c [OF assms(1), of "length (dec_digits n)"] by (simp add: nth_append)
  ultimately show ?thesis using assms ahead_left [OF assms(1)] by (intro parse_digits [where r = "x # r" and x = x]) auto
qed

section \<open>Properties\<close>

text \<open>C2: A keyword is recognised exactly when the whole identifier at the cursor equals it but for the case of
  letters; only then does the cursor move, to behind the identifier.\<close>

theorem keyword_is_whole_identifier:
  "checkForIdentifier c w =
     (case ident_len c of
        None \<Rightarrow> (c, False)
      | Some n \<Rightarrow> if ckey (substr (text_of c) (ptr c) n) = ckey (cstr w) then (ptr_add c n, True) else (c, False))"
proof (cases "ident_len c")
  case (Some n)
  note t = ident_text [OF Some]
  show ?thesis
    using uequals_ptr_prefix [OF t(1,2), of w] Some
    by (simp add: checkForIdentifier_def t(3) ckey_eq)
qed (simp add: checkForIdentifier_def)

text \<open>C3: Skipping white space and comments always ends at code or at the end of the text, does not move the
  cursor of code, only moves forward, and keeps line number and beginning of line right.\<close>

theorem skipping_reaches_code:
  assumes "pos_ok c"
  shows "at_code (skipNonCode c) \<and> forward c (skipNonCode c) \<and> pos_ok (skipNonCode c) \<and>
    (at_code c \<longrightarrow> skipNonCode c = c)"
  using assms by (simp add: skipNonCode_at_code pos_ok_skipNonCode skipNonCode_id)

theorem skipping_reaches_code_witness:
  "at_code (skipNonCode (string_cursor ''/* a */ // b'' None)) \<and>
   forward (string_cursor ''/* a */ // b'' None) (skipNonCode (string_cursor ''/* a */ // b'' None))"
  using skipping_reaches_code [of "string_cursor ''/* a */ // b'' None"] by simp

text \<open>C10: The text between a quoting by \<open>cstringQuote\<close> and the string literal parser is a round trip: every
  text up to its terminator comes back, whatever control characters, quotes, backslashes or bytes it has.\<close>

theorem quoted_string_reads_back:
  assumes "ahead c (cstringQuote s)"
  shows "parseStringLiteral c = (ptr_add c (length (cstringQuote s)), VStr (cstr s))"
  using assms by (rule parse_quoted)

theorem quoted_string_reads_back_witness:
  "parseStringLiteral (string_cursor (cstringQuote [CHR ''a'', NL, DQUOTE]) None) =
   (ptr_add (string_cursor (cstringQuote [CHR ''a'', NL, DQUOTE]) None) 7, VStr [CHR ''a'', NL, DQUOTE])"
proof -
  let ?s = "[CHR ''a'', NL, DQUOTE]"
  have "ahead (string_cursor (cstringQuote ?s) None) (cstringQuote ?s)"
    by (simp add: ahead_def string_cursor_def text_pos_def)
  from quoted_string_reads_back [OF this] show ?thesis
    by (simp add: cstringQuote_def cstr_def cquote_char_def char_int_def char_nat_def eval_nat_numeral)
qed

text \<open>The decimal digits of an integer up to two to the 53 are parsed as that integer, exactly, and the cursor
  stands behind them.\<close>

theorem decimal_integer_reads_back:
  assumes "ahead c (dec_digits n @ [x])" "ends_number x" "x \<noteq> NUL" "n \<le> 2 ^ 53" "length (dec_digits n) < 2 ^ 64"
  shows "parseNumericLiteral e c = (ptr_add c (length (dec_digits n)), VNum KInteger (F_Fin (of_nat n)))"
  using assms by (rule parse_integer)

theorem decimal_integer_reads_back_witness:
  "parseNumericLiteral \<lparr>eyear = 2024, ejunk = 0\<rparr> (string_cursor (dec_digits 42 @ '';'') None) =
   (ptr_add (string_cursor (dec_digits 42 @ '';'') None) 2, VNum KInteger (F_Fin 42))"
proof -
  let ?c = "string_cursor (dec_digits 42 @ '';'') None"
  have a: "ahead ?c (dec_digits 42 @ '';'')" by (simp add: ahead_def string_cursor_def text_pos_def)
  have l: "length (dec_digits 42) = 2" by (simp add: dec_digits.simps)
  have x: "ends_number (CHR '';'')" by (simp add: ends_number_def c_isdigit_def c_tolower_def c_isupper_def char_nat_def)
  from decimal_integer_reads_back [OF a x] show ?thesis by (simp add: l)
qed

text \<open>The break point check does not return for a line with a break point that begins with a block or an
  empty statement: nothing in the loop that skips them moves on.\<close>

theorem break_point_check_hangs:
  assumes "breaks (lineno c)"
    "cursor_c (skipNonCode (c\<lparr>cpos := (cpos c)\<lparr>pptr := pbol (cpos c)\<rparr>\<rparr>)) 0 \<in> {CHR ''{'', CHR '';''}"
  shows "onBreakPoint breaks c = None"
  using assms skip_empty_only_code [of "c\<lparr>cpos := (cpos c)\<lparr>pptr := pbol (cpos c)\<rparr>\<rparr>"]
  by (cases "skip_empty (c\<lparr>cpos := (cpos c)\<lparr>pptr := pbol (cpos c)\<rparr>\<rparr>)") (auto simp: onBreakPoint_def)

theorem break_point_check_hangs_witness:
  "onBreakPoint (\<lambda>l. l = 0) (string_cursor '';a'' None) = None"
proof (rule break_point_check_hangs)
  have "at_code (string_cursor '';a'' None)"
    by (simp add: at_code_def cursor_c_def string_cursor_def text_pos_def chr_at_def is_ws_def)
  from skipNonCode_id [OF this]
  show "cursor_c (skipNonCode ((string_cursor '';a'' None)\<lparr>cpos := (cpos (string_cursor '';a'' None))
      \<lparr>pptr := pbol (cpos (string_cursor '';a'' None))\<rparr>\<rparr>)) 0 \<in> {CHR ''{'', CHR '';''}"
    by (simp add: string_cursor_def text_pos_def cursor_c_def chr_at_def)
qed (simp add: lineno_def string_cursor_def text_pos_def)

end
