(* ===== verification/ScriptHeap.thy ===== *)
theory ScriptHeap
  imports StrOrder StrCodec ScriptLiteral
begin

text \<open>
  The script values that are mutable and shared: arrays, objects and variable containers, as cells of a
  heap; member access and assignment through lvalues; conversions, comparisons and the
  arithmetic operators of all value classes (\<open>p44script.cpp\<close>). Reference counts only decide
  when memory is freed and are left out.
\<close>

section \<open>Maps with case-insensitive names\<close>

definition lessStrucmp :: "string \<Rightarrow> string \<Rightarrow> bool" where
  "lessStrucmp a b \<longleftrightarrow> strucmp (Some a) (Some b) 0 0 < 0"

text \<open>
  A \<open>std::map\<close> ordered by \<open>lessStrucmp\<close> is the list of its entries in that order. Assigning to an
  existing name keeps the spelling the entry was created with.
\<close>

fun nm_find :: "string \<Rightarrow> (string \<times> 'v) list \<Rightarrow> 'v option" where
  "nm_find n [] = None"
| "nm_find n ((k, v) # m) =
     (if lessStrucmp k n then nm_find n m else if lessStrucmp n k then None else Some v)"

fun nm_set :: "string \<Rightarrow> 'v \<Rightarrow> (string \<times> 'v) list \<Rightarrow> (string \<times> 'v) list" where
  "nm_set n v [] = [(n, v)]"
| "nm_set n v ((k, w) # m) =
     (if lessStrucmp k n then (k, w) # nm_set n v m
      else if lessStrucmp n k then (n, v) # (k, w) # m
      else (k, v) # m)"

fun nm_erase :: "string \<Rightarrow> (string \<times> 'v) list \<Rightarrow> (string \<times> 'v) list" where
  "nm_erase n [] = []"
| "nm_erase n ((k, w) # m) =
     (if lessStrucmp k n then (k, w) # nm_erase n m else if lessStrucmp n k then (k, w) # m else m)"

definition same_name :: "string \<Rightarrow> string \<Rightarrow> bool" where
  "same_name a b \<longleftrightarrow> ckey (cstr a) = ckey (cstr b)"

definition nm_ok :: "(string \<times> 'v) list \<Rightarrow> bool" where
  "nm_ok m \<longleftrightarrow> sorted_wrt (\<lambda>a b. lessStrucmp (fst a) (fst b)) m"

lemma less_key: "lessStrucmp a b \<longleftrightarrow> ckey (cstr a) < ckey (cstr b)"
  using strucmp_order [of a b] by (simp add: lessStrucmp_def)

lemma nm_set_keys: "(k, w) \<in> set (nm_set n v m) \<Longrightarrow> same_name k n \<or> (\<exists>w'. (k, w') \<in> set m)"
  by (induction n v m rule: nm_set.induct) (auto simp: same_name_def split: if_splits)

lemma nm_erase_keys: "(k, w) \<in> set (nm_erase n m) \<Longrightarrow> (k, w) \<in> set m"
  by (induction n m rule: nm_erase.induct) (auto split: if_splits)

lemma nm_ok_Cons: "nm_ok ((k, w) # m) \<longleftrightarrow> (\<forall>(k', w')\<in>set m. lessStrucmp k k') \<and> nm_ok m"
  by (auto simp: nm_ok_def)

lemma nm_ok_set: "nm_ok m \<Longrightarrow> nm_ok (nm_set n v m)"
proof (induction n v m rule: nm_set.induct)
  case (2 n v k w m)
  then show ?case
    by (auto simp: nm_ok_Cons less_key same_name_def dest!: nm_set_keys)
qed (simp add: nm_ok_def)

lemma nm_ok_erase: "nm_ok m \<Longrightarrow> nm_ok (nm_erase n m)"
  by (induction n m rule: nm_erase.induct) (auto simp: nm_ok_Cons dest!: nm_erase_keys split: if_splits)

lemma nm_find_set: "nm_find k (nm_set n v m) = (if same_name k n then Some v else nm_find k m)"
  by (induction n v m rule: nm_set.induct) (auto simp: less_key same_name_def)

lemma nm_find_below: "(\<forall>(k', w')\<in>set m. lessStrucmp n k') \<Longrightarrow> nm_find n m = None"
  by (cases m) (auto simp: less_key)

lemma nm_find_cong: "same_name a b \<Longrightarrow> nm_find a m = nm_find b m"
  by (induction a m rule: nm_find.induct) (auto simp: less_key same_name_def)

lemma nm_find_erase: "nm_ok m \<Longrightarrow> nm_find k (nm_erase n m) = (if same_name k n then None else nm_find k m)"
proof (induction n m rule: nm_erase.induct)
  case (2 n k' w m)
  then have b: "nm_find k m = None" if "ckey (cstr k) \<le> ckey (cstr k')"
    using that by (intro nm_find_below) (auto simp: nm_ok_Cons less_key intro: le_less_trans)
  show ?case
    using 2 b by (auto simp: nm_ok_Cons less_key same_name_def)
qed simp

text \<open>What every user of such a map relies on, whatever its representation.\<close>

locale name_map =
  fixes find :: "string \<Rightarrow> 'm \<Rightarrow> 'v option"
    and set_name :: "string \<Rightarrow> 'v \<Rightarrow> 'm \<Rightarrow> 'm"
    and erase :: "string \<Rightarrow> 'm \<Rightarrow> 'm"
    and ok :: "'m \<Rightarrow> bool"
  assumes find_set: "find k (set_name n v m) = (if same_name k n then Some v else find k m)"
    and find_erase: "ok m \<Longrightarrow> find k (erase n m) = (if same_name k n then None else find k m)"
    and ok_set: "ok m \<Longrightarrow> ok (set_name n v m)"
    and ok_erase: "ok m \<Longrightarrow> ok (erase n m)"
begin

text \<open>Merging a list of members: the last one of a name wins.\<close>

definition merge :: "(string \<times> 'v) list \<Rightarrow> 'm \<Rightarrow> 'm" where
  "merge kvs m = fold (\<lambda>(k, v). set_name k v) kvs m"

lemma ok_merge: "ok m \<Longrightarrow> ok (merge kvs m)"
  by (induction kvs arbitrary: m) (auto simp: merge_def ok_set)

lemma find_merge:
  "find k (merge kvs m) = (case List.find (\<lambda>(n, v). same_name k n) (rev kvs) of Some (n, v) \<Rightarrow> Some v | None \<Rightarrow> find k m)"
proof (induction kvs arbitrary: m)
  case (Cons p kvs)
  obtain n v where p: "p = (n, v)" by fastforce
  have f: "List.find P (xs @ [y]) = (case List.find P xs of None \<Rightarrow> if P y then Some y else None | Some z \<Rightarrow> Some z)"
    for P xs and y :: "string \<times> 'v" by (induction xs) auto
  show ?case
    using Cons [of "set_name n v m"] by (auto simp: merge_def p f find_set split: option.splits)
qed (simp add: merge_def)

end

interpretation nm: name_map nm_find nm_set nm_erase nm_ok
  by unfold_locales (simp_all add: nm_find_set nm_find_erase nm_ok_set nm_ok_erase)

definition merge_members :: "(string \<times> 'v) list \<Rightarrow> (string \<times> 'v) list \<Rightarrow> (string \<times> 'v) list" where
  "merge_members kvs m = fold (\<lambda>(k, v). nm_set k v) kvs m"

lemma merge_members: "merge_members kvs m = nm.merge kvs m"
  by (simp add: merge_members_def nm.merge_def)

section \<open>The heap\<close>

text \<open>
  An \<open>ArrayValue\<close> (its elements, null where the array is sparse), an \<open>ObjectValue\<close> and a
  \<open>SimpleVarContainer\<close>.
\<close>

datatype hobj = HArr "val option list" | HObj "(string \<times> val) list" | HVars "(string \<times> val) list"

type_synonym heap = "hobj list"

definition halloc :: "hobj \<Rightarrow> heap \<Rightarrow> heap \<times> nat" where
  "halloc ob h = (h @ [ob], length h)"

definition numIndexedMembers :: "heap \<Rightarrow> val \<Rightarrow> nat" where
  "numIndexedMembers h v =
     (case v of VRef _ a \<Rightarrow> (case h ! a of HArr es \<Rightarrow> length es | HObj m \<Rightarrow> length m | HVars m \<Rightarrow> 0) | _ \<Rightarrow> 0)"

section \<open>Member access\<close>

text \<open>The lvalue an access gives: \<open>ssize_t\<close> holds the index, so an index from two to the 63 on is negative.\<close>

definition name_lvalue :: "nat \<Rightarrow> string \<Rightarrow> val option \<Rightarrow> val" where
  "name_lvalue a n cur = VLval a n None cur"

definition index_lvalue :: "nat \<Rightarrow> nat \<Rightarrow> val option \<Rightarrow> val" where
  "index_lvalue a i cur = VLval a [] (if i < 2 ^ 63 then Some i else None) cur"

definition overwritable :: "TypeInfo \<Rightarrow> bool" where
  "overwritable f \<longleftrightarrow> has_flag f ti_lvalue \<and> \<not> has_flag f ti_onlycreate"

definition hobj_memberByName :: "hobj \<Rightarrow> nat \<Rightarrow> string \<Rightarrow> TypeInfo \<Rightarrow> val option" where
  "hobj_memberByName ob a n f =
     (case ob of
        HArr _ \<Rightarrow> None
      | HObj m \<Rightarrow>
          (case nm_find n m of
             Some v \<Rightarrow> Some (if overwritable f then name_lvalue a n (Some v) else v)
           | None \<Rightarrow> if has_flag f ti_lvalue \<and> has_flag f ti_create then Some (name_lvalue a n None) else None)
      | HVars m \<Rightarrow>
          (case nm_find n m of
             Some v \<Rightarrow>
               if typeRequirementMet (getTypeInfo v) (f AND NOT ti_nonscopes)
               then Some (if overwritable f then name_lvalue a n (Some v) else v)
               else None
           | None \<Rightarrow> if has_flag f ti_lvalue \<and> has_flag f ti_create then Some (name_lvalue a n None) else None))"

definition memberByName :: "heap \<Rightarrow> val \<Rightarrow> string \<Rightarrow> TypeInfo \<Rightarrow> val option" where
  "memberByName h v n f = (case v of VRef _ a \<Rightarrow> hobj_memberByName (h ! a) a n f | _ \<Rightarrow> None)"

definition memberAtIndex :: "heap \<Rightarrow> val \<Rightarrow> nat \<Rightarrow> TypeInfo \<Rightarrow> val option" where
  "memberAtIndex h v i f =
     (case v of
        VRef _ a \<Rightarrow>
          (case h ! a of
             HArr es \<Rightarrow>
               if i < length es then (if overwritable f then Some (index_lvalue a i (es ! i)) else es ! i)
               else if has_flag f ti_lvalue then Some (index_lvalue a i None) else None
           | HObj m \<Rightarrow> if i < length m then Some (VStr (fst (m ! i))) else None
           | HVars m \<Rightarrow> None)
      | _ \<Rightarrow> None)"

text \<open>A member that is set to null is deleted. The result is the changed cell, or the reason why it cannot be.\<close>

definition hobj_setMemberByName :: "string \<Rightarrow> val option \<Rightarrow> hobj \<Rightarrow> serr + hobj" where
  "hobj_setMemberByName n p ob =
     (case ob of
        HArr _ \<Rightarrow> Inl (script_err E_NotCreated (''cannot assign to '' @ [SQUOTE] @ cstr n @ [SQUOTE]))
      | HObj m \<Rightarrow> Inr (HObj (case p of Some v \<Rightarrow> nm_set n v m | None \<Rightarrow> nm_erase n m))
      | HVars m \<Rightarrow> Inr (HVars (case p of Some v \<Rightarrow> nm_set n v m | None \<Rightarrow> nm_erase n m)))"

definition array_set :: "nat \<Rightarrow> val option \<Rightarrow> val option list \<Rightarrow> val option list" where
  "array_set i p es =
     (if i = length es \<and> p \<noteq> None then es @ [p]
      else if p \<noteq> None then (if length es \<le> i then es @ replicate (i + 1 - length es) None else es)[i := p]
      else if i < length es then take i es @ drop (Suc i) es
      else es)"

definition hobj_setMemberAtIndex :: "nat \<Rightarrow> val option \<Rightarrow> hobj \<Rightarrow> serr + hobj" where
  "hobj_setMemberAtIndex i p ob =
     (case ob of
        HArr es \<Rightarrow> Inr (HArr (array_set i p es))
      | _ \<Rightarrow> Inl (script_err E_NotFound (''cannot assign at '' @ print_int (int i))))"

text \<open>
  \<open>StandardLValue::assignLValue\<close>: the value the callback gets, an error if the container refuses.
  Other values are not assignable.
\<close>

definition assignLValue :: "heap \<Rightarrow> val \<Rightarrow> val option \<Rightarrow> heap \<times> val option" where
  "assignLValue h lv p =
     (case lv of
        VLval a n idx cur \<Rightarrow>
          (case (case idx of Some i \<Rightarrow> hobj_setMemberAtIndex i p (h ! a) | None \<Rightarrow> hobj_setMemberByName n p (h ! a)) of
             Inl e \<Rightarrow> (h, Some (VErr e False None))
           | Inr ob \<Rightarrow> (h[a := ob], p))
      | _ \<Rightarrow> (h, Some (err_value E_NotLvalue ''not assignable'')))"

section \<open>Conversions\<close>

text \<open>JSON values; their text comes from the JSON library (\<open>json_str\<close>, in the environment).\<close>

datatype json =
    JNull | JBool bool | JDouble f64 | JInt int | JString string
  | JArray "json list" | JObject "(string \<times> json) list"

record scriptenv =
  senv :: env
  json_str :: "json \<Rightarrow> string"

fun json_add :: "string \<Rightarrow> json \<Rightarrow> (string \<times> json) list \<Rightarrow> (string \<times> json) list" where
  "json_add k j [] = [(k, j)]"
| "json_add k j ((k', j') # m) = (if k' = k then (k, j) # m else (k', j') # json_add k j m)"

definition string_double :: "scriptenv \<Rightarrow> string \<Rightarrow> f64" where
  "string_double e s =
     (case snd (parseNumericLiteral (senv e) (skipWhiteSpace (string_cursor s None))) of
        VNum _ x \<Rightarrow> x | _ \<Rightarrow> F_Fin 0)"

text \<open>
  \<open>ErrorValue::doubleValue\<close> returns 0 whenever there is an error object, and here there always
  is. Containers and plain objects convert to 0.
\<close>

fun doubleValue :: "scriptenv \<Rightarrow> val \<Rightarrow> f64" where
  "doubleValue e (VNum _ x) = x"
| "doubleValue e (VStr s) = string_double e s"
| "doubleValue e _ = F_Fin 0"

definition int64Value :: "scriptenv \<Rightarrow> val \<Rightarrow> int" where
  "int64Value e v = f64_to_int 64 (doubleValue e v)"

fun boolValue :: "scriptenv \<Rightarrow> val \<Rightarrow> bool" where
  "boolValue e (VStr s) \<longleftrightarrow> s \<noteq> []"
| "boolValue e (VRef _ _) \<longleftrightarrow> True"
| "boolValue e v \<longleftrightarrow> \<not> f64_is_zero (doubleValue e v)"

text \<open>
  \<open>None\<close> is a null pointer dereferenced (a sparse element has no JSON value); the first argument
  bounds the nesting, one more than the number of cells is enough unless containers are cyclic.
\<close>

primrec jsonValue :: "nat \<Rightarrow> heap \<Rightarrow> bool \<Rightarrow> val \<Rightarrow> json option" where
  "jsonValue 0 h d v = None"
| "jsonValue (Suc n) h d v =
     (case v of
        VNum k x \<Rightarrow> Some (case k of KNumeric \<Rightarrow> JDouble x | KBool \<Rightarrow> JBool (\<not> f64_is_zero x) | KInteger \<Rightarrow> JInt (f64_to_int 64 x))
      | VStr s \<Rightarrow> Some (JString (cstr s))
      | VErr e _ _ \<Rightarrow>
          Some (JObject [(''ErrorCode'', JInt (ecode e)), (''ErrorDomain'', JString (cstr (edomain e))), (''ErrorMessage'', JString (cstr (emsg e)))])
      | VRef _ a \<Rightarrow>
          (case h ! a of
             HArr es \<Rightarrow>
               map_option JArray (those (map (\<lambda>p. case p of None \<Rightarrow> None | Some v \<Rightarrow> jsonValue n h d v) es))
           | HObj m \<Rightarrow>
               map_option (\<lambda>kjs. JObject (fold (\<lambda>(k, j). json_add (cstr k) j) kjs []))
                 (those (map (\<lambda>(k, v). map_option (Pair k) (jsonValue n h d v)) m))
           | HVars m \<Rightarrow>
               map_option (\<lambda>kjs. JObject (fold (\<lambda>(k, j). json_add (cstr k) j) kjs []))
                 (those (map (\<lambda>(k, v). map_option (Pair k)
                    (if d \<or> typeRequirementMet (getTypeInfo v) (ti_nonebut OR ti_jsonrepresentable)
                     then jsonValue n h d v else Some JNull)) m)))
      | _ \<Rightarrow> Some (if d \<and> getTypeInfo v \<noteq> ti_null then JString (cstr (getAnnotation v))
                  else if has_flag (getTypeInfo v) ti_structured then JObject [] else JNull))"

definition stringValue :: "scriptenv \<Rightarrow> heap \<Rightarrow> val \<Rightarrow> string option" where
  "stringValue e h v =
     (case v of
        VNum k x \<Rightarrow> Some (if k = KBool then (if f64_is_zero x then ''false'' else ''true'') else print_g x)
      | VStr s \<Rightarrow> Some s
      | VErr er _ None \<Rightarrow> Some (err_text er)
      | VErr er _ (Some c) \<Rightarrow>
          Some (''('' @ cstr (originLabel c) @ '':'' @ print_int (int (lineno c + 1)) @ '','' @
                print_int (int (charpos c + 1)) @ ''): '' @ err_text er)
      | VRef _ _ \<Rightarrow> map_option (json_str e) (jsonValue (Suc (length h)) h True v)
      | _ \<Rightarrow> Some (getAnnotation v))"

section \<open>Comparison\<close>

text \<open>\<open>std::string\<close> compares bytes as unsigned.\<close>

fun str_less :: "string \<Rightarrow> string \<Rightarrow> bool" where
  "str_less _ [] \<longleftrightarrow> False"
| "str_less [] (_ # _) \<longleftrightarrow> True"
| "str_less (a # s) (b # t) \<longleftrightarrow> char_nat a < char_nat b \<or> (a = b \<and> str_less s t)"

text \<open>Lazy "and" over elements that may dereference null: \<open>None\<close> only if that is reached.\<close>

fun all_while :: "('a \<Rightarrow> bool option) \<Rightarrow> 'a list \<Rightarrow> bool option" where
  "all_while f [] = Some True"
| "all_while f (x # xs) =
     (case f x of None \<Rightarrow> None | Some b \<Rightarrow> if b then all_while f xs else Some False)"

text \<open>
  The identity of instances that base class equality also accepts: references and executables have it;
  simple values are shared immutable objects, compared by their class. \<open>ErrorValue\<close> compares with
  the domain of the static \<open>Error::domain()\<close>, not that of the right side.
\<close>

primrec val_equal :: "nat \<Rightarrow> scriptenv \<Rightarrow> heap \<Rightarrow> val \<Rightarrow> val \<Rightarrow> bool option" where
  "val_equal 0 e h l r = None"
| "val_equal (Suc n) e h l r =
     (case l of
        VNum _ x \<Rightarrow> Some (\<not> undefined_val r \<and> f64_eq x (doubleValue e r))
      | VStr s \<Rightarrow> if undefined_val r then Some False else map_option (\<lambda>t. s = t) (stringValue e h r)
      | VErr er _ _ \<Rightarrow> Some (err_isError er err_base_domain (ecode (errorValue r)))
      | VRef False a \<Rightarrow>
          if l = r then Some True
          else if \<not> hasType r ti_arrayvalue then Some False
          else (case h ! a of
                  HArr es \<Rightarrow>
                    if length es \<noteq> numIndexedMembers h r then Some False
                    else all_while (\<lambda>i. case memberAtIndex h r i 0 of
                           None \<Rightarrow> Some False
                         | Some m \<Rightarrow> (case es ! i of None \<Rightarrow> None | Some x \<Rightarrow> val_equal n e h x m)) [0..<length es]
                | _ \<Rightarrow> Some False)
      | VRef True a \<Rightarrow>
          if l = r then Some True
          else if \<not> hasType r ti_objectvalue then Some False
          else (case h ! a of
                  HObj fs \<Rightarrow>
                    if length fs \<noteq> numIndexedMembers h r then Some False
                    else all_while (\<lambda>(k, x). case memberByName h r k 0 of
                           None \<Rightarrow> Some False
                         | Some m \<Rightarrow> val_equal n e h x m) fs
                | _ \<Rightarrow> Some False)
      | _ \<Rightarrow> Some (l = r \<or> (undefined_val l \<and> undefined_val r)))"

definition val_eq :: "scriptenv \<Rightarrow> heap \<Rightarrow> val \<Rightarrow> val \<Rightarrow> bool option" where
  "val_eq e h l r = val_equal (Suc (length h)) e h l r"

definition val_less :: "scriptenv \<Rightarrow> heap \<Rightarrow> val \<Rightarrow> val \<Rightarrow> bool option" where
  "val_less e h l r =
     (case l of
        VNum _ x \<Rightarrow> Some (f64_less x (doubleValue e r))
      | VStr s \<Rightarrow> map_option (str_less s) (stringValue e h r)
      | VRef False a \<Rightarrow> Some (hasType r ti_arrayvalue \<and> numIndexedMembers h l < numIndexedMembers h r)
      | VRef True a \<Rightarrow> Some (hasType r ti_objectvalue \<and> numIndexedMembers h l < numIndexedMembers h r)
      | _ \<Rightarrow> Some False)"

definition val_neq :: "scriptenv \<Rightarrow> heap \<Rightarrow> val \<Rightarrow> val \<Rightarrow> bool option" where
  "val_neq e h l r = map_option Not (val_eq e h l r)"

definition val_geq :: "scriptenv \<Rightarrow> heap \<Rightarrow> val \<Rightarrow> val \<Rightarrow> bool option" where
  "val_geq e h l r = map_option Not (val_less e h l r)"

definition val_greater :: "scriptenv \<Rightarrow> heap \<Rightarrow> val \<Rightarrow> val \<Rightarrow> bool option" where
  "val_greater e h l r =
     (case val_less e h l r of None \<Rightarrow> None
      | Some b \<Rightarrow> if b then Some False else map_option Not (val_eq e h l r))"

definition val_leq :: "scriptenv \<Rightarrow> heap \<Rightarrow> val \<Rightarrow> val \<Rightarrow> bool option" where
  "val_leq e h l r =
     (case val_eq e h l r of None \<Rightarrow> None
      | Some b \<Rightarrow> if b then Some True else val_less e h l r)"

section \<open>Copies for assignment\<close>

text \<open>
  \<open>assignmentValue\<close> copies arrays and objects recursively; other values are immutable and shared.
  The new container exists before its elements are copied into it, one after the other.
\<close>

fun copy_elems :: "(heap \<Rightarrow> val \<Rightarrow> (heap \<times> val) option) \<Rightarrow> nat \<Rightarrow> heap \<Rightarrow> val option list \<Rightarrow> heap option" where
  "copy_elems f a h [] = Some h"
| "copy_elems f a h (None # ps) = None"
| "copy_elems f a h (Some v # ps) =
     (case f h v of
        None \<Rightarrow> None
      | Some (h1, w) \<Rightarrow>
          copy_elems f a
            (h1[a := (case h1 ! a of HArr es \<Rightarrow> HArr (array_set (length es) (Some w) es) | ob \<Rightarrow> ob)]) ps)"

fun copy_fields :: "(heap \<Rightarrow> val \<Rightarrow> (heap \<times> val) option) \<Rightarrow> nat \<Rightarrow> heap \<Rightarrow> (string \<times> val) list \<Rightarrow> heap option" where
  "copy_fields f a h [] = Some h"
| "copy_fields f a h ((k, v) # m) =
     (case f h v of
        None \<Rightarrow> None
      | Some (h1, w) \<Rightarrow>
          copy_fields f a (h1[a := (case h1 ! a of HObj fs \<Rightarrow> HObj (nm_set k w fs) | ob \<Rightarrow> ob)]) m)"

primrec copy_value :: "nat \<Rightarrow> heap \<Rightarrow> val \<Rightarrow> (heap \<times> val) option" where
  "copy_value 0 h v = None"
| "copy_value (Suc n) h v =
     (case v of
        VRef b a \<Rightarrow>
          (case h ! a of
             HArr es \<Rightarrow> map_option (\<lambda>h1. (h1, VRef False (length h))) (copy_elems (copy_value n) (length h) (h @ [HArr []]) es)
           | HObj m \<Rightarrow> map_option (\<lambda>h1. (h1, VRef True (length h))) (copy_fields (copy_value n) (length h) (h @ [HObj []]) m)
           | HVars m \<Rightarrow> Some (h, v))
      | _ \<Rightarrow> Some (h, v))"

definition assignmentValue :: "heap \<Rightarrow> val \<Rightarrow> (heap \<times> val) option" where
  "assignmentValue h v = copy_value (Suc (length h)) h v"

section \<open>Arithmetic\<close>

definition int64_wrap :: "int \<Rightarrow> int" where
  "int64_wrap i = (i + 2 ^ 63) mod 2 ^ 64 - 2 ^ 63"

text \<open>
  Operations on two \<open>IntegerValue\<close>s are done on \<open>int64_t\<close> (where overflow is undefined in C++; the
  model wraps); all others on \<open>double\<close>.
\<close>

definition num_op :: "scriptenv \<Rightarrow> (f64 \<Rightarrow> f64 \<Rightarrow> f64) \<Rightarrow> (int \<Rightarrow> int \<Rightarrow> int) \<Rightarrow> numkind \<Rightarrow> f64 \<Rightarrow> val \<Rightarrow> val" where
  "num_op e fop iop k x r =
     (if k = KInteger \<and> (case r of VNum KInteger _ \<Rightarrow> True | _ \<Rightarrow> False)
      then vint (int64_wrap (iop (f64_to_int 64 x) (int64Value e r)))
      else vnum (fop x (doubleValue e r)))"

text \<open>The elements of the right array are appended as they are, not copied.\<close>

definition append_array :: "heap \<Rightarrow> val \<Rightarrow> val \<Rightarrow> (heap \<times> val) option" where
  "append_array h l r =
     (if numIndexedMembers h r = 0 then Some (h, l)
      else case assignmentValue h l of
             None \<Rightarrow> None
           | Some (h1, w) \<Rightarrow>
               (case w of
                  VRef _ a \<Rightarrow>
                    let n = numIndexedMembers h1 w
                    in Some (fold (\<lambda>i g. case g ! a of HArr es \<Rightarrow> g[a := HArr (array_set (n + i) (memberAtIndex g r i 0) es)] | _ \<Rightarrow> g)
                               [0..<numIndexedMembers h1 r] h1, w)
                | _ \<Rightarrow> None))"

definition merge_object :: "heap \<Rightarrow> val \<Rightarrow> (string \<times> val) list \<Rightarrow> (heap \<times> val) option" where
  "merge_object h l fs =
     (if fs = [] then Some (h, l)
      else case assignmentValue h l of
             None \<Rightarrow> None
           | Some (h1, w) \<Rightarrow>
               (case w of
                  VRef _ a \<Rightarrow> Some (case h1 ! a of HObj m \<Rightarrow> h1[a := HObj (merge_members fs m)] | _ \<Rightarrow> h1, w)
                | _ \<Rightarrow> None))"

definition val_add :: "scriptenv \<Rightarrow> heap \<Rightarrow> val \<Rightarrow> val \<Rightarrow> (heap \<times> val) option" where
  "val_add e h l r =
     (case l of
        VNum k x \<Rightarrow> Some (h, num_op e f64_add (+) k x r)
      | VStr s \<Rightarrow> map_option (\<lambda>t. (h, VStr (s @ t))) (stringValue e h r)
      | VRef False a \<Rightarrow>
          if hasType r ti_arrayvalue then append_array h l r
          else Some (h, VNull ''can only 'add' (=append) arrays to arrays'')
      | VRef True a \<Rightarrow>
          (case r of
             VRef True b \<Rightarrow> (case h ! b of HObj fs \<Rightarrow> merge_object h l fs | _ \<Rightarrow> Some (h, l))
           | _ \<Rightarrow> Some (h, VNull ''can only 'add' objects to object (merge)''))
      | _ \<Rightarrow> Some (h, VBase))"

definition val_sub :: "scriptenv \<Rightarrow> val \<Rightarrow> val \<Rightarrow> val" where
  "val_sub e l r = (case l of VNum k x \<Rightarrow> num_op e f64_sub (-) k x r | _ \<Rightarrow> VBase)"

definition val_mul :: "scriptenv \<Rightarrow> val \<Rightarrow> val \<Rightarrow> val" where
  "val_mul e l r = (case l of VNum k x \<Rightarrow> num_op e f64_mul (*) k x r | _ \<Rightarrow> VBase)"

definition val_div :: "scriptenv \<Rightarrow> val \<Rightarrow> val \<Rightarrow> val" where
  "val_div e l r =
     (case l of
        VNum _ x \<Rightarrow>
          if f64_is_zero (doubleValue e r) then err_value E_DivisionByZero ''division by zero''
          else vnum (f64_div x (doubleValue e r))
      | _ \<Rightarrow> VBase)"

definition val_mod :: "scriptenv \<Rightarrow> val \<Rightarrow> val \<Rightarrow> val" where
  "val_mod e l r =
     (case l of
        VNum _ x \<Rightarrow>
          let b = doubleValue e r
          in if f64_is_zero b then err_value E_DivisionByZero ''modulo by zero''
             else vnum (f64_sub x (f64_mul b (f64_of_int (f64_to_int 64 (f64_div x b)))))
      | _ \<Rightarrow> VBase)"

section \<open>What a value denotes\<close>

text \<open>The tree of values below a value; \<open>None\<close> for a dangling, sparse or cyclic one.\<close>

datatype tree = TVal val | TArr "tree list" | TObj "(string \<times> tree) list"

primrec denote :: "nat \<Rightarrow> heap \<Rightarrow> val \<Rightarrow> tree option" where
  "denote 0 h v = None"
| "denote (Suc n) h v =
     (case v of
        VRef b a \<Rightarrow>
          (if a < length h
           then (case h ! a of
                   HArr es \<Rightarrow> map_option TArr (those (map (\<lambda>p. case p of None \<Rightarrow> None | Some v \<Rightarrow> denote n h v) es))
                 | HObj m \<Rightarrow> map_option TObj (those (map (\<lambda>(k, v). map_option (Pair k) (denote n h v)) m))
                 | HVars m \<Rightarrow> None)
           else None)
      | _ \<Rightarrow> Some (TVal v))"

definition heap_ok :: "heap \<Rightarrow> bool" where
  "heap_ok h \<longleftrightarrow> list_all (\<lambda>ob. case ob of HArr _ \<Rightarrow> True | HObj m \<Rightarrow> nm_ok m | HVars m \<Rightarrow> nm_ok m) h"

lemma those_Some: "those xs = Some ys \<longleftrightarrow> list_all2 (\<lambda>x y. x = Some y) xs ys"
proof (induction xs arbitrary: ys)
  case (Cons x xs)
  then show ?case by (cases ys; cases x) (auto simp: list_all2_Cons1)
qed auto

lemma denote_append: "denote n h v = Some t \<Longrightarrow> denote n (h @ x) v = Some t"
proof (induction n arbitrary: v t)
  case (Suc n)
  show ?case
  proof (cases v)
    case (VRef b a)
    with Suc.prems have a: "a < length h" by (auto split: if_splits)
    show ?thesis
    proof (cases "h ! a")
      case (HArr es)
      with Suc.prems VRef a obtain ts where t: "t = TArr ts"
        and l: "list_all2 (\<lambda>p t. (case p of None \<Rightarrow> None | Some v \<Rightarrow> denote n h v) = Some t) es ts"
        by (auto simp: those_Some list_all2_map1)
      have "list_all2 (\<lambda>p t. (case p of None \<Rightarrow> None | Some v \<Rightarrow> denote n (h @ x) v) = Some t) es ts"
        using l by (rule list_all2_mono) (auto split: option.splits dest: Suc.IH)
      then have "those (map (\<lambda>p. case p of None \<Rightarrow> None | Some v \<Rightarrow> denote n (h @ x) v) es) = Some ts"
        by (simp add: those_Some list_all2_map1)
      then show ?thesis using VRef a HArr t by (simp add: nth_append)
    next
      case (HObj m)
      with Suc.prems VRef a obtain ts where t: "t = TObj ts"
        and l: "list_all2 (\<lambda>q t. (case q of (k, v) \<Rightarrow> map_option (Pair k) (denote n h v)) = Some t) m ts"
        by (auto simp: those_Some list_all2_map1)
      have "list_all2 (\<lambda>q t. (case q of (k, v) \<Rightarrow> map_option (Pair k) (denote n (h @ x) v)) = Some t) m ts"
        using l by (rule list_all2_mono) (auto dest: Suc.IH)
      then have "those (map (\<lambda>(k, v). map_option (Pair k) (denote n (h @ x) v)) m) = Some ts"
        by (simp add: those_Some list_all2_map1)
      then show ?thesis using VRef a HObj t by (simp add: nth_append)
    next
      case (HVars m)
      with Suc.prems VRef a show ?thesis by simp
    qed
  qed (use Suc.prems in auto)
qed simp

section \<open>Copies are isolated\<close>

text \<open>
  \<open>copies f d\<close>: the copying function \<open>f\<close> extends the heap by cells of its own, in which the copy
  denotes what the original did, whatever the cells that were there before become.
\<close>

definition copies :: "(heap \<Rightarrow> val \<Rightarrow> (heap \<times> val) option) \<Rightarrow> (heap \<Rightarrow> val \<Rightarrow> tree option) \<Rightarrow> bool" where
  "copies f d \<longleftrightarrow>
     (\<forall>h v t. heap_ok h \<longrightarrow> d h v = Some t \<longrightarrow>
        (\<exists>h' w. f h v = Some (h @ h', w) \<and> heap_ok (h @ h') \<and>
           (\<forall>g k. length g = length h \<longrightarrow> d (g @ h' @ k) w = Some t)))"

lemma copiesD:
  assumes "copies f d" "heap_ok h" "d h v = Some t"
  obtains h' w where "f h v = Some (h @ h', w)" "heap_ok (h @ h')"
    "\<And>g k. length g = length h \<Longrightarrow> d (g @ h' @ k) w = Some t"
  using assms unfolding copies_def by blast

lemma heap_ok_simps [simp]:
  "heap_ok (g @ h) \<longleftrightarrow> heap_ok g \<and> heap_ok h" "heap_ok []"
  "heap_ok (HArr es # h) \<longleftrightarrow> heap_ok h" "heap_ok (HObj m # h) \<longleftrightarrow> nm_ok m \<and> heap_ok h"
  by (auto simp: heap_ok_def)

lemma copy_elems_copies:
  assumes c: "copies f (denote n)"
    and "list_all2 (\<lambda>p t. \<exists>v. p = Some v \<and> denote n h v = Some t) es ts"
    and "heap_ok (h @ HArr xs # ext)"
  shows "\<exists>ws ext'. copy_elems f (length h) (h @ HArr xs # ext) es = Some (h @ HArr (xs @ map Some ws) # ext @ ext') \<and>
     heap_ok (h @ ext @ ext') \<and>
     list_all2 (\<lambda>w t. \<forall>g k. length g = Suc (length h + length ext) \<longrightarrow> denote n (g @ ext' @ k) w = Some t) ws ts"
  using assms(2,3)
proof (induction es arbitrary: ts xs ext)
  case Nil
  then show ?case by (intro exI [of _ "[]"]) auto
next
  case (Cons p es)
  from Cons.prems(1) obtain v t ts' where p: "p = Some v" "ts = t # ts'" "denote n h v = Some t"
    and l: "list_all2 (\<lambda>p t. \<exists>v. p = Some v \<and> denote n h v = Some t) es ts'" by (auto simp: list_all2_Cons1)
  let ?H = "h @ HArr xs # ext"
  from copiesD [OF c Cons.prems(2) denote_append [OF p(3)]] obtain h2 w where
    f: "f ?H v = Some (?H @ h2, w)" and ok: "heap_ok (?H @ h2)"
    and d: "\<And>g k. length g = length ?H \<Longrightarrow> denote n (g @ h2 @ k) w = Some t" by blast
  have ok2: "heap_ok (h @ HArr (xs @ [Some w]) # ext @ h2)" using ok by simp
  from Cons.IH [OF l ok2] obtain ws ext' where
    e: "copy_elems f (length h) (h @ HArr (xs @ [Some w]) # ext @ h2) es =
        Some (h @ HArr ((xs @ [Some w]) @ map Some ws) # (ext @ h2) @ ext')"
    and ok3: "heap_ok (h @ (ext @ h2) @ ext')"
    and ds: "list_all2 (\<lambda>w t. \<forall>g k. length g = Suc (length h + length (ext @ h2)) \<longrightarrow> denote n (g @ ext' @ k) w = Some t) ws ts'"
    by blast
  have "copy_elems f (length h) ?H (p # es) = Some (h @ HArr (xs @ map Some (w # ws)) # ext @ h2 @ ext')"
    using e by (simp add: p f array_set_def)
  moreover have "list_all2 (\<lambda>w t. \<forall>g k. length g = Suc (length h + length ext) \<longrightarrow> denote n (g @ (h2 @ ext') @ k) w = Some t) ws ts'"
    using ds
  proof (rule list_all2_mono, intro allI impI)
    fix w t and g k :: heap
    assume a: "\<forall>g k. length g = Suc (length h + length (ext @ h2)) \<longrightarrow> denote n (g @ ext' @ k) w = Some t"
      and g: "length g = Suc (length h + length ext)"
    from a [rule_format, of "g @ h2" k] g show "denote n (g @ (h2 @ ext') @ k) w = Some t" by simp
  qed
  ultimately show ?case
    using d [of _ "ext' @ _"] ok3 p
    by (intro exI [of _ "w # ws"] exI [of _ "h2 @ ext'"]) (simp add: list_all2_Cons1)
qed

lemma nm_ok_keys: "nm_ok m \<longleftrightarrow> sorted_wrt lessStrucmp (map fst m)"
  by (simp add: nm_ok_def sorted_wrt_map)

lemma nm_set_last: "(\<forall>x\<in>set m. lessStrucmp (fst x) k) \<Longrightarrow> nm_set k w m = m @ [(k, w)]"
  by (induction m) auto

lemma copy_fields_copies:
  assumes c: "copies f (denote n)"
    and "list_all2 (\<lambda>q t. fst q = fst t \<and> denote n h (snd q) = Some (snd t)) fs ts"
    and "heap_ok (h @ HObj xs # ext)" "sorted_wrt lessStrucmp (map fst xs @ map fst fs)"
  shows "\<exists>ws ext'. copy_fields f (length h) (h @ HObj xs # ext) fs = Some (h @ HObj (xs @ ws) # ext @ ext') \<and>
     heap_ok (h @ ext @ ext') \<and> map fst ws = map fst fs \<and>
     list_all2 (\<lambda>q t. fst q = fst t \<and> (\<forall>g k. length g = Suc (length h + length ext) \<longrightarrow> denote n (g @ ext' @ k) (snd q) = Some (snd t))) ws ts"
  using assms(2-4)
proof (induction fs arbitrary: ts xs ext)
  case Nil
  then show ?case by (intro exI [of _ "[]"]) auto
next
  case (Cons q fs)
  obtain k v where q: "q = (k, v)" by fastforce
  from Cons.prems(1) obtain t ts' where p: "ts = (k, t) # ts'" "denote n h v = Some t"
    and l: "list_all2 (\<lambda>q t. fst q = fst t \<and> denote n h (snd q) = Some (snd t)) fs ts'"
    by (auto simp: list_all2_Cons1 q)
  let ?H = "h @ HObj xs # ext"
  from copiesD [OF c Cons.prems(2) denote_append [OF p(2)]] obtain h2 w where
    f: "f ?H v = Some (?H @ h2, w)" and ok: "heap_ok (?H @ h2)"
    and d: "\<And>g k. length g = length ?H \<Longrightarrow> denote n (g @ h2 @ k) w = Some t" by blast
  have set: "nm_set k w xs = xs @ [(k, w)]"
    using Cons.prems(3) by (intro nm_set_last) (auto simp: q sorted_wrt_append)
  have s: "sorted_wrt lessStrucmp (map fst (xs @ [(k, w)]) @ map fst fs)" using Cons.prems(3) by (simp add: q)
  then have "nm_ok (xs @ [(k, w)])" by (simp add: nm_ok_keys sorted_wrt_append)
  then have ok2: "heap_ok (h @ HObj (xs @ [(k, w)]) # ext @ h2)" using ok by simp
  from Cons.IH [OF l ok2 s] obtain ws ext' where
    e: "copy_fields f (length h) (h @ HObj (xs @ [(k, w)]) # ext @ h2) fs =
        Some (h @ HObj ((xs @ [(k, w)]) @ ws) # (ext @ h2) @ ext')"
    and ok3: "heap_ok (h @ (ext @ h2) @ ext')" and ks: "map fst ws = map fst fs"
    and ds: "list_all2 (\<lambda>q t. fst q = fst t \<and> (\<forall>g k. length g = Suc (length h + length (ext @ h2)) \<longrightarrow>
        denote n (g @ ext' @ k) (snd q) = Some (snd t))) ws ts'"
    by blast
  have "copy_fields f (length h) ?H (q # fs) = Some (h @ HObj (xs @ (k, w) # ws) # ext @ h2 @ ext')"
    using e by (simp add: q f set)
  moreover have "list_all2 (\<lambda>q t. fst q = fst t \<and> (\<forall>g k. length g = Suc (length h + length ext) \<longrightarrow>
      denote n (g @ (h2 @ ext') @ k) (snd q) = Some (snd t))) ws ts'"
    using ds
  proof (rule list_all2_mono, elim conjE, intro conjI allI impI)
    fix q :: "string \<times> val" and t :: "string \<times> tree" and g k :: heap
    assume a: "\<forall>g k. length g = Suc (length h + length (ext @ h2)) \<longrightarrow> denote n (g @ ext' @ k) (snd q) = Some (snd t)"
      and g: "length g = Suc (length h + length ext)"
    from a [rule_format, of "g @ h2" k] g show "denote n (g @ (h2 @ ext') @ k) (snd q) = Some (snd t)" by simp
  qed
  ultimately show ?case
    using d [of _ "ext' @ _"] ok3 p ks
    by (intro exI [of _ "(k, w) # ws"] exI [of _ "h2 @ ext'"]) (simp add: list_all2_Cons1 q)
qed

lemma denote_array:
  "a < length h \<Longrightarrow> h ! a = HArr (map Some ws) \<Longrightarrow> list_all2 (\<lambda>w t. denote n h w = Some t) ws ts \<Longrightarrow>
   denote (Suc n) h (VRef b a) = Some (TArr ts)"
  by (auto simp: those_Some list_all2_map1)

lemma denote_object:
  "a < length h \<Longrightarrow> h ! a = HObj ws \<Longrightarrow> list_all2 (\<lambda>q t. fst q = fst t \<and> denote n h (snd q) = Some (snd t)) ws ts \<Longrightarrow>
   denote (Suc n) h (VRef b a) = Some (TObj ts)"
  by (auto simp: those_Some list_all2_map1 split_beta elim!: list_all2_mono)

lemma case_opt_Some: "(case p of None \<Rightarrow> None | Some v \<Rightarrow> d v) = Some y \<longleftrightarrow> (\<exists>v. p = Some v \<and> d v = Some y)"
  by (cases p) auto

lemma case_pair_Some: "(case q of (k, v) \<Rightarrow> map_option (Pair k) (d v)) = Some t \<longleftrightarrow> fst q = fst t \<and> d (snd q) = Some (snd t)"
  by (cases q; cases t) auto

lemma copy_value_copies: "copies (copy_value n) (denote n)"
proof (induction n)
  case 0
  then show ?case by (simp add: copies_def)
next
  case (Suc n)
  show ?case
    unfolding copies_def
  proof (intro allI impI)
    fix h v t
    assume ok: "heap_ok h" and d: "denote (Suc n) h v = Some t"
    show "\<exists>h' w. copy_value (Suc n) h v = Some (h @ h', w) \<and> heap_ok (h @ h') \<and>
        (\<forall>g k. length g = length h \<longrightarrow> denote (Suc n) (g @ h' @ k) w = Some t)"
    proof (cases v)
      case (VRef b a)
      with d have a: "a < length h" by (auto split: if_splits)
      show ?thesis
      proof (cases "h ! a")
        case (HArr es)
        with d VRef a obtain ts where t: "t = TArr ts"
          and l: "list_all2 (\<lambda>p t. \<exists>v. p = Some v \<and> denote n h v = Some t) es ts"
          by (auto simp: those_Some list_all2_map1 case_opt_Some)
        from copy_elems_copies [OF Suc l, of "[]" "[]"] ok obtain ws x where
          c: "copy_elems (copy_value n) (length h) (h @ [HArr []]) es = Some (h @ HArr (map Some ws) # x)"
          and okx: "heap_ok (h @ x)"
          and ds: "list_all2 (\<lambda>w t. \<forall>g k. length g = Suc (length h) \<longrightarrow> denote n (g @ x @ k) w = Some t) ws ts"
          by auto
        have "denote (Suc n) (g @ (HArr (map Some ws) # x) @ k) (VRef False (length h)) = Some t" if g: "length g = length h" for g k
          unfolding t using g
          by (intro denote_array [where ws = ws] list_all2_mono [OF ds])
             (auto simp: nth_append dest: spec [of _ "g @ [HArr (map Some ws)]"])
        then show ?thesis using VRef HArr c okx by (intro exI [of _ "HArr (map Some ws) # x"]) simp
      next
        case (HObj m)
        with d VRef a obtain ts where t: "t = TObj ts"
          and l: "list_all2 (\<lambda>q t. fst q = fst t \<and> denote n h (snd q) = Some (snd t)) m ts"
          by (auto simp: those_Some list_all2_map1 case_pair_Some)
        have m: "sorted_wrt lessStrucmp (map fst m)"
          using ok a HObj by (auto simp: heap_ok_def list_all_length nm_ok_keys dest!: spec [of _ a])
        have n0: "nm_ok []" by (simp add: nm_ok_def)
        from copy_fields_copies [OF Suc l, of "[]" "[]"] ok m n0 obtain ws x where
          c: "copy_fields (copy_value n) (length h) (h @ [HObj []]) m = Some (h @ HObj ws # x)"
          and okx: "heap_ok (h @ x)" and ks: "map fst ws = map fst m"
          and ds: "list_all2 (\<lambda>q t. fst q = fst t \<and> (\<forall>g k. length g = Suc (length h) \<longrightarrow> denote n (g @ x @ k) (snd q) = Some (snd t))) ws ts"
          by auto
        have "denote (Suc n) (g @ (HObj ws # x) @ k) (VRef True (length h)) = Some t" if g: "length g = length h" for g k
          unfolding t using g
          by (intro denote_object [where ws = ws] list_all2_mono [OF ds])
             (auto simp: nth_append dest: spec [of _ "g @ [HObj ws]"])
        moreover have "nm_ok ws" using m ks by (simp add: nm_ok_keys)
        ultimately show ?thesis using VRef HObj c okx by (intro exI [of _ "HObj ws # x"]) simp
      next
        case (HVars m)
        with d VRef a show ?thesis by simp
      qed
    qed (use d ok in \<open>auto intro!: exI [of _ "[]"]\<close>)
  qed
qed

section \<open>Property\<close>

text \<open>C9: Assigning an array or object copies it: the copy is made of new cells only, denotes the same tree, and
  keeps denoting it whatever is later done to any cell that existed before.\<close>

theorem assigned_copy_is_isolated:
  assumes "heap_ok h" "denote (Suc (length h)) h v = Some t"
  shows "\<exists>h' w. assignmentValue h v = Some (h @ h', w) \<and> heap_ok (h @ h') \<and>
     (\<forall>g k. length g = length h \<longrightarrow> denote (Suc (length h)) (g @ h' @ k) w = Some t)"
  using copy_value_copies [of "Suc (length h)"] assms unfolding copies_def assignmentValue_def by blast

theorem assigned_copy_is_isolated_witness:
  "\<exists>h' w. assignmentValue [HArr [Some (VStr ''a''), Some (VRef True 1)], HObj [(''k'', VNull ''n'')]] (VRef False 0) =
     Some ([HArr [Some (VStr ''a''), Some (VRef True 1)], HObj [(''k'', VNull ''n'')]] @ h', w)"
proof -
  let ?h = "[HArr [Some (VStr ''a''), Some (VRef True 1)], HObj [(''k'', VNull ''n'')]]"
  have "heap_ok ?h" by (simp add: heap_ok_def nm_ok_def)
  moreover have "denote (Suc (length ?h)) ?h (VRef False 0) = Some (TArr [TVal (VStr ''a''), TObj [(''k'', TVal (VNull ''n''))]])"
    by simp
  ultimately show ?thesis using assigned_copy_is_isolated [of ?h "VRef False 0"] by blast
qed

end
