(* ===== verification/ScriptProc.thy ===== *)
theory ScriptProc
  imports ScriptHeap "HOL-Library.Monad_Syntax"
begin

text \<open>
  The source processor of the script engine (\<open>SourceProcessor\<close>, \<open>ScriptCodeThread\<close> and
  \<open>ScriptCompiler\<close> of \<open>p44script.cpp\<close>): its state, its stack, how it resumes, throws, catches and
  completes, and the hooks in which the thread and the compiler differ. The state handlers are in
  the theories \<open>ScriptExpr\<close> and \<open>ScriptStmt\<close>.
\<close>

section \<open>State\<close>

text \<open>\<open>StateHandler\<close>: a pointer to the handler to call next, the null pointer being \<open>None\<close>.\<close>

datatype pstate =
    S_objectfield | S_varobjectfield | S_objectfieldlvalue | S_objectfieldvalue | S_objectfielddone
  | S_arrayelementdone | S_simpleTerm | S_member | S_subscriptArg | S_nextSubscript
  | S_funcArg | S_funcContext | S_funcExec
  | S_assignmentExpression | S_expression | S_subExpression | S_groupedExpression | S_exprFirstTerm
  | S_exprLeftSide | S_exprRightSide | S_assignDefault | S_assignExpression | S_compoundAssignment
  | S_assignOlder | S_checkAndAssignLvalue | S_assignLvalue | S_unsetMember
  | S_block | S_noStatement | S_oneStatement | S_body | S_included
  | S_ifCondition | S_ifTrueStatement
  | S_foreachTarget | S_foreachLoopVar1 | S_foreachLoopVars | S_foreachLoopStart
  | S_foreachLoopIteration | S_foreachKeyNeeded | S_foreachBody | S_foreachStatement
  | S_loopInit | S_loopCondition | S_loopNext | S_loopBody | S_loopBodyDone | S_loopRecheck | S_loopEnd
  | S_tryStatement | S_concurrent_var | S_concurrent_var_value | S_concurrent
  | S_declarations | S_defineFunction bool | S_defineTrigger bool | S_defineHandler bool | S_include
  | S_result | S_nothrowResult | S_validResult | S_validResultCheck | S_uncheckedResult | S_complete

text \<open>Pointers to statement helpers and function call contexts are indices into tables of the state.\<close>

record frame =
  fSrc :: cursor
  fSkipping :: bool
  fReturn :: pstate
  fResult :: "val option"
  fFunc :: "nat option"
  fHelper :: "nat option"
  fPrec :: nat
  fPending :: ScriptOperator

text \<open>\<open>IndexedValueIterator\<close> (no names) and \<open>ObjectFieldsIterator\<close> (the names at its creation).\<close>

record iterator =
  itObj :: val
  itNames :: "string list option"
  itPos :: nat

record foreach =
  feIterator :: iterator
  feLoopValue :: "val option"
  feLoopKey :: "val option"

record forwhile =
  fwCondition :: srcpos
  fwNext :: srcpos
  fwBody :: srcpos
  fwIsFor :: bool

datatype helper = ForEach foreach | ForWhile forwhile

type_synonym argdesc = "TypeInfo \<times> string"

datatype TriggerMode = tm_onGettingTrue | tm_onChangingBool | tm_onChange | tm_onEvaluation

text \<open>
  The executable objects: a compiled function, a built-in one (by its descriptor), trigger and handler
  of an \<open>on\<close> statement (the trigger with mode, holdoff time and result variable), the code of an
  include, and the value that stands for a thread, with the variables passed to it. Such a value knows
  (\<open>mThread\<close>, \<open>mThreadExitValue\<close>) whether its thread still runs, and the value it ended with.
\<close>

datatype threadend = TRunning | TEnded "val option"

datatype exec =
    XFunction string "argdesc list" cursor
  | XBuiltin string "argdesc list"
  | XTrigger cursor TriggerMode int string
  | XHandler cursor "nat option"
  | XInclude cursor
  | XThread cursor "val option" threadend

text \<open>
  An \<open>ExecutionContext\<close> prepared for a call: the arguments, the container of the local variables
  (none in a \<open>BuiltinFunctionContext\<close>) and \<open>mUndefinedResult\<close>.
\<close>

record callctx =
  cArgs :: "val list"
  cVars :: "nat option"
  cUndefined :: bool

text \<open>
  What a thread asks for outside of its own state machine: executing the function with a prepared
  context, starting a thread for the concurrent block at a position, and the initial evaluation of a trigger.
\<close>

datatype request = RExecute nat nat u32 | RThread nat | RTrigger nat

text \<open>
  \<open>mDelivered\<close>, \<open>mEvents\<close> and \<open>mTerminated\<close> record the calls of the completion callback, of
  \<open>sendEvent\<close> and of the owner's \<open>threadTerminated\<close>. \<open>pLocals\<close> is the container of a
  function's own context (\<open>None\<close> when the owner is the main context), \<open>pMain\<close> and
  \<open>pDomain\<close> those of the main context and the domain. \<open>pObjects\<close> has the executable objects,
  \<open>pHandlers\<close> the registered handlers.
\<close>

record proc =
  isCompiler :: bool
  mAborted :: bool
  mResuming :: bool
  mResumed :: bool
  mCompletedCB :: bool
  mFlags :: u32
  mSrc :: cursor
  mPoppedSrc :: cursor
  mHelper :: "nat option"
  mState :: "pstate option"
  mResult :: "val option"
  mOlder :: "val option"
  mPrec :: nat
  mPending :: ScriptOperator
  mFunc :: "nat option"
  mSkipping :: bool
  mIdentifier :: string
  mStack :: "frame list"
  mThreadLocals :: "val option"
  mRunning :: bool
  mOwned :: bool
  mChained :: "nat option"
  mRequest :: "request option"
  mDelivered :: "val list"
  mEvents :: "val list"
  mTerminated :: nat
  pHeap :: heap
  pHelpers :: "helper list"
  pCalls :: "callctx list"
  pObjects :: "exec list"
  pHandlers :: "nat list"
  pLocals :: "nat option"
  pMain :: nat
  pDomain :: nat
  pThis :: "val option"

text \<open>
  What the processor gets from outside: number and JSON conversion, the members that lookups
  registered with the main context and the domain provide, and the code of includes.
\<close>

record penv =
  pe :: scriptenv
  main_lookup :: "string \<Rightarrow> TypeInfo \<Rightarrow> val option"
  domain_lookup :: "string \<Rightarrow> TypeInfo \<Rightarrow> val option"
  included_code :: "string \<Rightarrow> source \<Rightarrow> serr + cursor"

section \<open>Evaluation flags\<close>

definition ef_runModeMask :: u32 where "ef_runModeMask = 0xFF"
definition ef_scanning :: u32 where "ef_scanning = 0x40"
definition ef_checking :: u32 where "ef_checking = 0x80"
definition ef_scopeMask :: u32 where "ef_scopeMask = 0xF00"
definition ef_expression :: u32 where "ef_expression = 0x100"
definition ef_scriptbody :: u32 where "ef_scriptbody = 0x200"
definition ef_sourcecode :: u32 where "ef_sourcecode = 0x400"
definition ef_block :: u32 where "ef_block = 0x800"
definition ef_synchronously :: u32 where "ef_synchronously = 0x1000"
definition ef_stoprunning :: u32 where "ef_stoprunning = 0x2000"
definition ef_queue :: u32 where "ef_queue = 0x4000"
definition ef_concurrently :: u32 where "ef_concurrently = 0x10000"
definition ef_keepvars :: u32 where "ef_keepvars = 0x20000"
definition ef_mainthread :: u32 where "ef_mainthread = 0x40000"
definition ef_implicitreturn :: u32 where "ef_implicitreturn = 0x200000"
definition ef_ephemeralSource :: u32 where "ef_ephemeralSource = 0x400000"

lemmas ef_defs =
  ef_runModeMask_def ef_scanning_def ef_checking_def ef_scopeMask_def ef_expression_def ef_scriptbody_def
  ef_sourcecode_def ef_block_def ef_synchronously_def ef_stoprunning_def ef_queue_def ef_concurrently_def
  ef_keepvars_def ef_mainthread_def ef_implicitreturn_def ef_ephemeralSource_def

section \<open>Resuming and completing\<close>

definition setState :: "pstate \<Rightarrow> proc \<Rightarrow> proc" where
  "setState s p = p\<lparr>mState := Some s\<rparr>"

text \<open>
  \<open>resume\<close> as a handler sees it: handlers run below \<open>resume\<close>, so the call only leaves a mark for
  \<open>stepLoop\<close>. A null result does not replace the current one.
\<close>

definition resume :: "proc \<Rightarrow> proc" where
  "resume p = p\<lparr>mResumed := True\<rparr>"

definition resumeWith :: "val option \<Rightarrow> proc \<Rightarrow> proc" where
  "resumeWith v p = resume (case v of None \<Rightarrow> p | Some x \<Rightarrow> p\<lparr>mResult := Some x\<rparr>)"

definition resumeAllowingNull :: "val option \<Rightarrow> proc \<Rightarrow> proc" where
  "resumeAllowingNull v p = resume (p\<lparr>mResult := v\<rparr>)"

definition resumeAt :: "pstate \<Rightarrow> proc \<Rightarrow> proc" where
  "resumeAt s p = resume (setState s p)"

text \<open>\<open>SourceProcessor::deactivate\<close>, \<open>ScriptCodeThread::deactivate\<close> and \<open>SourceProcessor::complete\<close>.\<close>

definition deactivate :: "proc \<Rightarrow> proc" where
  "deactivate p = p\<lparr>mCompletedCB := False, mResult := None, mOlder := None, mFunc := None, mStack := []\<rparr>"

definition thread_deactivate :: "proc \<Rightarrow> proc" where
  "thread_deactivate p = deactivate (p\<lparr>mOwned := False, mThreadLocals := None, mChained := None, mRunning := False\<rparr>)"

definition final_result :: "val option \<Rightarrow> proc \<Rightarrow> cursor \<times> val" where
  "final_result v p =
     (let (src, r) =
            (if v \<noteq> None \<and> \<not> isErr (the v) \<and> has_flag (mFlags p) ef_expression
             then let c = skipNonCode (mSrc p)
                  in (c, if \<not> EOT c then Some (err_pos_value c E_Syntax ''trailing garbage'') else v)
             else (mSrc p, v))
      in (src, case r of Some x \<Rightarrow> x | None \<Rightarrow> VNull ''execution produced no result''))"

definition sp_complete :: "val option \<Rightarrow> proc \<Rightarrow> proc" where
  "sp_complete v p =
     (let (src, r) = final_result v p;
          q = p\<lparr>mResumed := False, mSrc := src, mResult := Some r, mStack := [], mState := None\<rparr>
      in if mCompletedCB q then q\<lparr>mCompletedCB := False, mDelivered := mDelivered q @ [r]\<rparr> else q)"

definition thread_complete :: "val option \<Rightarrow> proc \<Rightarrow> proc" where
  "thread_complete v p =
     (let q = sp_complete v (p\<lparr>mRunning := False\<rparr>);
          s = q\<lparr>mEvents := mEvents q @ (case mResult q of Some r \<Rightarrow> [r] | None \<Rightarrow> [])\<rparr>
      in thread_deactivate (if mOwned s then s\<lparr>mTerminated := mTerminated s + 1\<rparr> else s))"

definition complete :: "val option \<Rightarrow> proc \<Rightarrow> proc" where
  "complete v p = (if isCompiler p then sp_complete v p else thread_complete v p)"

section \<open>The stack\<close>

definition push_frame :: "cursor \<Rightarrow> pstate \<Rightarrow> proc \<Rightarrow> frame" where
  "push_frame c s p =
     \<lparr>fSrc = c, fSkipping = mSkipping p, fReturn = s, fResult = mResult p, fFunc = mFunc p,
      fHelper = mHelper p, fPrec = mPrec p, fPending = mPending p\<rparr>"

definition push :: "pstate \<Rightarrow> proc \<Rightarrow> proc" where
  "push s p = p\<lparr>mStack := push_frame (mSrc p) s p # mStack p\<rparr>"

definition push_popped :: "pstate \<Rightarrow> proc \<Rightarrow> proc" where
  "push_popped s p = p\<lparr>mStack := push_frame (mPoppedSrc p) s p # mStack p\<rparr>"

text \<open>\<open>push(mCurrentState)\<close>\<close>

definition push_current :: "proc \<Rightarrow> proc" where
  "push_current p = (case mState p of Some s \<Rightarrow> push s p | None \<Rightarrow> p)"

definition pop_frame :: "frame \<Rightarrow> proc \<Rightarrow> proc" where
  "pop_frame s p =
     p\<lparr>mSkipping := fSkipping s, mPrec := fPrec s, mPending := fPending s, mFunc := fFunc s,
       mHelper := fHelper s, mPoppedSrc := fSrc s, mOlder := fResult s, mState := Some (fReturn s)\<rparr>"

definition pop :: "proc \<Rightarrow> proc" where
  "pop p =
     (case mStack p of
        [] \<Rightarrow> complete (Some (err_value E_Internal ''stack empty - cannot pop'')) p
      | s # st \<Rightarrow> pop_frame s (p\<lparr>mStack := st\<rparr>))"

fun drop_to :: "pstate \<Rightarrow> frame list \<Rightarrow> frame list" where
  "drop_to s [] = []"
| "drop_to s (f # st) = (if fReturn f = s then f # st else drop_to s st)"

definition unWindStackTo :: "pstate \<Rightarrow> proc \<Rightarrow> proc option" where
  "unWindStackTo s p =
     (case drop_to s (mStack p) of [] \<Rightarrow> None | st \<Rightarrow> Some (pop (p\<lparr>mStack := st\<rparr>)))"

text \<open>The stack with all frames down to the one of state \<open>s\<close> skipping, that one with the thrown value.\<close>

fun skip_frames :: "pstate \<Rightarrow> val option \<Rightarrow> frame list \<Rightarrow> frame list option" where
  "skip_frames s v [] = None"
| "skip_frames s v (f # st) =
     (if fReturn f = s
      then Some (f\<lparr>fSkipping := True, fResult := (case v of None \<Rightarrow> fResult f | _ \<Rightarrow> v)\<rparr> # st)
      else map_option (\<lambda>st'. f\<lparr>fSkipping := True\<rparr> # st') (skip_frames s v st))"

definition skipUntilReaching :: "pstate \<Rightarrow> val option \<Rightarrow> proc \<Rightarrow> proc option" where
  "skipUntilReaching s v p =
     map_option (\<lambda>st. p\<lparr>mStack := st, mSkipping := True\<rparr>) (skip_frames s v (mStack p))"

section \<open>Throwing\<close>

text \<open>
  The caught flag of the error object is set when it has been thrown to a \<open>try\<close> statement, whose frame
  then has the same object. Copies of the reference in other places of the state do not see the flag here.
\<close>

fun caught :: "val \<Rightarrow> val" where
  "caught (VErr e _ c) = VErr e True c"
| "caught v = v"

fun is_caught :: "val \<Rightarrow> bool" where
  "is_caught (VErr _ b _) \<longleftrightarrow> b"
| "is_caught _ \<longleftrightarrow> False"

definition throwOrComplete :: "val \<Rightarrow> proc \<Rightarrow> proc" where
  "throwOrComplete v p0 =
     (let p = p0\<lparr>mResult := Some v\<rparr>
      in if err_isFatal (errorValue v) then complete (Some v) p
         else if \<not> mSkipping p
         then case skipUntilReaching S_tryStatement (Some (caught v)) p of
                None \<Rightarrow> complete (Some v) p
              | Some q \<Rightarrow> resume (q\<lparr>mResult := Some (caught v)\<rparr>)
         else resume (p\<lparr>mResult := Some (caught v)\<rparr>))"

definition exitWithSyntaxError :: "string \<Rightarrow> proc \<Rightarrow> proc" where
  "exitWithSyntaxError m p = throwOrComplete (err_pos_value (mSrc p) E_Syntax m) p"

definition sp_checkAndResume :: "proc \<Rightarrow> proc" where
  "sp_checkAndResume p =
     (case mResult p of
        Some v \<Rightarrow> if isErr v then complete (Some v) p else resume p
      | None \<Rightarrow> resume p)"

definition thread_checkAndResume :: "proc \<Rightarrow> proc" where
  "thread_checkAndResume p =
     (case mResult p of
        Some (VErr e k c) \<Rightarrow> if \<not> k then throwOrComplete (VErr e k c) p else resume p
      | _ \<Rightarrow> resume p)"

definition checkAndResume :: "proc \<Rightarrow> proc" where
  "checkAndResume p = (if isCompiler p then sp_checkAndResume p else thread_checkAndResume p)"

definition checkAndResumeAt :: "pstate \<Rightarrow> proc \<Rightarrow> proc" where
  "checkAndResumeAt s p = checkAndResume (setState s p)"

section \<open>Returning results\<close>

definition popWithValidResult :: "bool \<Rightarrow> proc \<Rightarrow> proc" where
  "popWithValidResult aThrowErrors p =
     (let q = pop p;
          s = (case mResult q of
                 None \<Rightarrow> q
               | Some r \<Rightarrow>
                   let w = (case actualValue r of
                              Some x \<Rightarrow>
                                if \<not> has_flag (getTypeInfo r) (ti_keeporiginal OR ti_lvalue) \<or>
                                   mState q \<notin> {Some S_exprFirstTerm, Some S_funcArg, Some S_assignExpression}
                                then x else r
                            | None \<Rightarrow> r)
                   in q\<lparr>mResult := Some (case w of VErr e k None \<Rightarrow> VErr e k (Some (mSrc q)) | _ \<Rightarrow> w)\<rparr>)
      in if aThrowErrors then checkAndResume s else resume s)"

text \<open>\<open>makeValid\<close> of an lvalue gives its current value or an error, of any other value itself; both resume at once.\<close>

definition makeValid :: "val \<Rightarrow> val" where
  "makeValid v =
     (case v of
        VLval _ _ _ None \<Rightarrow> err_value E_NotFound ''lvalue does not yet exist''
      | VLval _ _ _ (Some x) \<Rightarrow> x
      | _ \<Rightarrow> v)"

definition popWithResult :: "bool \<Rightarrow> proc \<Rightarrow> proc" where
  "popWithResult aThrowErrors p =
     (case mResult p of
        None \<Rightarrow> popWithValidResult aThrowErrors p
      | Some r \<Rightarrow>
          if mSkipping p \<or> actualValue r \<noteq> None \<or> hasType r ti_lvalue
          then popWithValidResult aThrowErrors p
          else resumeWith (Some (makeValid r))
                 (setState (if aThrowErrors then S_validResultCheck else S_validResult) p))"

section \<open>Member lookup\<close>

text \<open>\<open>ScriptCodeContext::memberByName\<close>: \<open>mainc\<close> is the lookup in the main context, if there is one.\<close>

definition code_memberByName ::
  "heap \<Rightarrow> nat \<Rightarrow> val option \<Rightarrow> (string \<Rightarrow> TypeInfo \<Rightarrow> val option) option \<Rightarrow> string \<Rightarrow> TypeInfo \<Rightarrow> val option" where
  "code_memberByName h locals this mainc n f =
     (let loc = (\<lambda>fl. hobj_memberByName (h ! locals) locals n fl);
          nocreate = f AND NOT ti_create;
          c = (case mainc of Some m \<Rightarrow> if has_flag f ti_nooverride then m n nocreate else None | None \<Rightarrow> None);
          step1 = (if \<not> has_flag f (ti_classscope OR ti_objscope)
                   then case loc (if c \<noteq> None then nocreate else f) of
                          Some v \<Rightarrow> Some v
                        | None \<Rightarrow> (case c of Some v \<Rightarrow> Some v | None \<Rightarrow> if has_flag f ti_create then loc f else None)
                   else None);
          step2 = (case step1 of
                     Some v \<Rightarrow> Some v
                   | None \<Rightarrow> (case this of Some t \<Rightarrow> memberByName h t n f | None \<Rightarrow> None))
      in case step2 of
           Some v \<Rightarrow> Some v
         | None \<Rightarrow> (case mainc of Some m \<Rightarrow> if \<not> has_flag f ti_nooverride then m n f else None | None \<Rightarrow> None))"

text \<open>\<open>ScriptMainContext::memberByName\<close>; the domain is the main context that has no domain itself.\<close>

definition main_memberByName ::
  "heap \<Rightarrow> nat \<Rightarrow> val option \<Rightarrow> (string \<Rightarrow> TypeInfo \<Rightarrow> val option) \<Rightarrow>
   (string \<Rightarrow> TypeInfo \<Rightarrow> val option) option \<Rightarrow> string \<Rightarrow> TypeInfo \<Rightarrow> val option" where
  "main_memberByName h locals this lookup domc n f =
     (let g = (case domc of Some d \<Rightarrow> if has_flag f ti_nooverride then d n (f AND NOT ti_create) else None | None \<Rightarrow> None);
          step1 = (if \<not> has_flag f (ti_builtin OR (if domc \<noteq> None then ti_global else 0))
                   then case code_memberByName h locals this None n (if g \<noteq> None then f AND NOT ti_create else f) of
                          Some v \<Rightarrow> Some v
                        | None \<Rightarrow> g
                   else None);
          step2 = (case step1 of
                     Some v \<Rightarrow> Some v
                   | None \<Rightarrow> if \<not> has_flag f ti_global then lookup n f else None)
      in case step2 of
           Some v \<Rightarrow> Some v
         | None \<Rightarrow>
             (case domc of
                Some d \<Rightarrow> d n (f AND NOT (ti_classscope OR ti_builtin OR ti_objscope OR ti_global))
              | None \<Rightarrow> None))"

definition domain_member :: "penv \<Rightarrow> proc \<Rightarrow> string \<Rightarrow> TypeInfo \<Rightarrow> val option" where
  "domain_member e p = main_memberByName (pHeap p) (pDomain p) None (domain_lookup e) None"

definition main_member :: "penv \<Rightarrow> proc \<Rightarrow> string \<Rightarrow> TypeInfo \<Rightarrow> val option" where
  "main_member e p = main_memberByName (pHeap p) (pMain p) (pThis p) (main_lookup e) (Some (domain_member e p))"

definition owner_member :: "penv \<Rightarrow> proc \<Rightarrow> string \<Rightarrow> TypeInfo \<Rightarrow> val option" where
  "owner_member e p =
     (case pLocals p of
        None \<Rightarrow> main_member e p
      | Some l \<Rightarrow> code_memberByName (pHeap p) l (pThis p) (Some (main_member e p)))"

definition weekdayNames :: "string list" where
  "weekdayNames = [''sun'', ''mon'', ''tue'', ''wed'', ''thu'', ''fri'', ''sat'']"

text \<open>The value of the constant \<open>M_PI\<close>.\<close>

definition m_pi :: f64 where
  "m_pi = F_Fin (884279719003555 / 281474976710656)"

definition convenience_constant :: "string \<Rightarrow> val option" where
  "convenience_constant n =
     (if uequals n ''pi'' then Some (vnum m_pi)
      else if n = ''UA'' then Some (vint 42)
      else if length n = 3
      then case List.find (\<lambda>w. uequals n (weekdayNames ! w)) [0..<7] of
             Some w \<Rightarrow> Some (vint (int w)) | None \<Rightarrow> None
      else None)"

section \<open>Hooks: member access\<close>

text \<open>The hooks of the base class, which the compiler keeps where it has none of its own.\<close>

definition sp_memberByIndex :: "proc \<Rightarrow> proc" where
  "sp_memberByIndex p = checkAndResume (p\<lparr>mResult := None\<rparr>)"

definition not_found :: "proc \<Rightarrow> ErrorCode \<Rightarrow> string \<Rightarrow> proc" where
  "not_found p k m = p\<lparr>mResult := Some (err_pos_value (mSrc p) k m)\<rparr>"

definition compiler_memberByIdentifier :: "penv \<Rightarrow> TypeInfo \<Rightarrow> bool \<Rightarrow> proc \<Rightarrow> proc" where
  "compiler_memberByIdentifier e f noerr p =
     (if mSkipping p then resume (p\<lparr>mResult := None\<rparr>)
      else let r = domain_member e p (mIdentifier p) f
           in checkAndResume
                (if r = None \<and> \<not> noerr
                 then not_found p E_Syntax (SQUOTE # cstr (mIdentifier p) @ SQUOTE # '' cannot be accessed in declarations'')
                 else p\<lparr>mResult := r\<rparr>))"

text \<open>The thread's own variables exist from the first time a member is to be created there.\<close>

definition demand_threadlocals :: "TypeInfo \<Rightarrow> proc \<Rightarrow> proc" where
  "demand_threadlocals f p =
     (if mThreadLocals p = None \<and> has_flag f ti_create \<and> has_flag f ti_threadlocal
      then p\<lparr>pHeap := pHeap p @ [HVars []], mThreadLocals := Some (VRef True (length (pHeap p)))\<rparr>
      else p)"

definition implicit_member :: "penv \<Rightarrow> TypeInfo \<Rightarrow> proc \<Rightarrow> val option" where
  "implicit_member e f p =
     (let n = mIdentifier p;
          fl = (if \<not> has_flag f ti_threadlocal then f AND NOT ti_create else f) AND NOT ti_threadlocal;
          r1 = (case mThreadLocals p of Some t \<Rightarrow> memberByName (pHeap p) t n fl | None \<Rightarrow> None);
          r2 = (case r1 of None \<Rightarrow> owner_member e p n f | _ \<Rightarrow> r1)
      in case r2 of None \<Rightarrow> convenience_constant n | _ \<Rightarrow> r2)"

definition thread_memberByIdentifier :: "penv \<Rightarrow> TypeInfo \<Rightarrow> bool \<Rightarrow> proc \<Rightarrow> proc option" where
  "thread_memberByIdentifier e f noerr p =
     (let q = (case mResult p of
                 Some r \<Rightarrow> Some (p\<lparr>mResult := memberByName (pHeap p) r (mIdentifier p) f\<rparr>)
               | None \<Rightarrow>
                   if \<not> mOwned p then None
                   else let d = demand_threadlocals f p in Some (d\<lparr>mResult := implicit_member e f d\<rparr>))
      in map_option (\<lambda>q. resume
           (if mResult q = None \<and> \<not> noerr
            then not_found q E_NotFound (SQUOTE # cstr (mIdentifier q) @ SQUOTE # '' unknown here'') else q)) q)"

definition memberByIdentifier :: "penv \<Rightarrow> TypeInfo \<Rightarrow> bool \<Rightarrow> proc \<Rightarrow> proc option" where
  "memberByIdentifier e f noerr p =
     (if isCompiler p then Some (compiler_memberByIdentifier e f noerr p) else thread_memberByIdentifier e f noerr p)"

text \<open>The message has \<open>%d\<close> for the \<open>size_t\<close> index, which shows its low 32 bits as a signed number.\<close>

definition thread_memberByIndex :: "nat \<Rightarrow> TypeInfo \<Rightarrow> proc \<Rightarrow> proc" where
  "thread_memberByIndex i f p =
     (let r = (case mResult p of Some v \<Rightarrow> memberAtIndex (pHeap p) v i f | None \<Rightarrow> None)
      in resume (case r of
                   Some v \<Rightarrow> p\<lparr>mResult := Some v\<rparr>
                 | None \<Rightarrow> not_found p E_NotFound (''array element '' @ print_int (as_int32 (int i)) @ '' unknown here'')))"

definition memberByIndex :: "nat \<Rightarrow> TypeInfo \<Rightarrow> proc \<Rightarrow> proc" where
  "memberByIndex i f p = (if isCompiler p then sp_memberByIndex p else thread_memberByIndex i f p)"

text \<open>No modelled value is an event source, and no value is frozen, so that \<open>memberEventCheck\<close> changes nothing;
  but the thread dereferences its result in the initial run of a trigger.\<close>

definition memberEventCheck :: "proc \<Rightarrow> proc option" where
  "memberEventCheck p =
     (if \<not> isCompiler p \<and> \<not> mSkipping p \<and> has_flag (mFlags p) 0x02 \<and> mResult p = None then None else Some p)"

section \<open>Hooks: function calls\<close>

definition arguments_of :: "exec \<Rightarrow> argdesc list" where
  "arguments_of x = (case x of XFunction _ as _ \<Rightarrow> as | XBuiltin _ as \<Rightarrow> as | _ \<Rightarrow> [])"

definition exec_name :: "exec \<Rightarrow> string" where
  "exec_name x =
     (case x of XFunction n _ _ \<Rightarrow> n | XBuiltin n _ \<Rightarrow> n | XTrigger _ _ _ _ \<Rightarrow> ''trigger'' | XHandler _ _ \<Rightarrow> ''handler'' | XInclude _ \<Rightarrow> [] | XThread _ _ _ \<Rightarrow> [])"

definition ti_multiple :: TypeInfo where "ti_multiple = 0x1000"
definition ti_exacttype :: TypeInfo where "ti_exacttype = 0x2000"
definition ti_undefres :: TypeInfo where "ti_undefres = 0x4000"

text \<open>\<open>argumentInfo\<close>: the last argument of an open list stands for all that follow, numbered for a compiled function.\<close>

definition argumentInfo :: "exec \<Rightarrow> nat \<Rightarrow> argdesc option" where
  "argumentInfo x i =
     (let as = arguments_of x
      in if i < length as
         then Some (case x of
                XFunction _ _ _ \<Rightarrow>
                  if has_flag (fst (as ! i)) ti_multiple then (fst (as ! i), cstr (snd (as ! i)) @ print_int (int (i + 1))) else as ! i
              | _ \<Rightarrow> as ! i)
         else if as = [] then None
         else if \<not> has_flag (fst (last as)) ti_multiple then None
         else Some (case x of
                XFunction _ _ _ \<Rightarrow> (fst (last as), cstr (snd (last as)) @ print_int (int (i + 1)))
              | _ \<Rightarrow> last as))"

definition exec_of :: "proc \<Rightarrow> val \<Rightarrow> exec option" where
  "exec_of p v = (case v of VExec _ _ i \<Rightarrow> if i < length (pObjects p) then Some (pObjects p ! i) else None | _ \<Rightarrow> None)"

text \<open>
  \<open>calculationValue()\<close>: what takes part in operations. An lvalue stands for its current value; a thread for
  null while it runs, then for the value it ended with, captured by the event of its end.
\<close>

definition calculationValue :: "proc \<Rightarrow> val \<Rightarrow> val option" where
  "calculationValue p v =
     (case exec_of p v of
        Some (XThread _ _ TRunning) \<Rightarrow> Some (VNull ''running thread'')
      | Some (XThread _ _ (TEnded None)) \<Rightarrow> Some (VNull ''terminated thread without result'')
      | Some (XThread _ _ (TEnded (Some x))) \<Rightarrow> Some x
      | _ \<Rightarrow> actualValue v)"

lemma calculationValue_simps [simp]:
  "calculationValue p (VNum k x) = Some (VNum k x)" "calculationValue p (VStr s) = Some (VStr s)"
  "calculationValue p (VNull n) = Some (VNull n)" "calculationValue p (VErr e b c) = Some (VErr e b c)"
  by (simp_all add: calculationValue_def exec_of_def)

definition thread_value_event :: "nat \<Rightarrow> val \<Rightarrow> proc \<Rightarrow> proc" where
  "thread_value_event i v p =
     (case pObjects p ! i of
        XThread c vars TRunning \<Rightarrow> p\<lparr>pObjects := (pObjects p)[i := XThread c vars (TEnded (calculationValue p v))]\<rparr>
      | _ \<Rightarrow> p)"

definition callee_name :: "proc \<Rightarrow> val \<Rightarrow> string" where
  "callee_name p v = (case exec_of p v of Some x \<Rightarrow> exec_name x | None \<Rightarrow> getIdentifier v)"

text \<open>
  \<open>contextForCallingFrom\<close>: a compiled function runs in a context of its own, a built-in one in a
  \<open>BuiltinFunctionContext\<close>. Everything else a script can name has none.
\<close>

definition contextForCallingFrom :: "val \<Rightarrow> proc \<Rightarrow> (proc \<times> nat) option" where
  "contextForCallingFrom v p =
     (case exec_of p v of
        Some (XFunction _ _ _) \<Rightarrow>
          Some (p\<lparr>pHeap := pHeap p @ [HVars []],
                  pCalls := pCalls p @ [\<lparr>cArgs = [], cVars = Some (length (pHeap p)), cUndefined = False\<rparr>]\<rparr>, length (pCalls p))
      | Some (XBuiltin _ _) \<Rightarrow>
          Some (p\<lparr>pCalls := pCalls p @ [\<lparr>cArgs = [], cVars = None, cUndefined = False\<rparr>]\<rparr>, length (pCalls p))
      | _ \<Rightarrow> None)"

definition sp_newFunctionCallContext :: "proc \<Rightarrow> proc" where
  "sp_newFunctionCallContext p = checkAndResume (p\<lparr>mResult := None\<rparr>)"

text \<open>A null context from a callable result replaces the one of an enclosing call; without a result that one stays.\<close>

definition thread_newFunctionCallContext :: "proc \<Rightarrow> proc option" where
  "thread_newFunctionCallContext p =
     (let q = (case mResult p of
                 Some r \<Rightarrow>
                   if \<not> mOwned p then None
                   else Some (case contextForCallingFrom r p of
                                Some (q, i) \<Rightarrow> q\<lparr>mFunc := Some i\<rparr>
                              | None \<Rightarrow> p\<lparr>mFunc := None\<rparr>)
               | None \<Rightarrow> Some p)
      in map_option (\<lambda>q. checkAndResume (if mFunc q = None then not_found q E_NotCallable ''not a function'' else q)) q)"

definition newFunctionCallContext :: "proc \<Rightarrow> proc option" where
  "newFunctionCallContext p =
     (if isCompiler p then Some (sp_newFunctionCallContext p) else thread_newFunctionCallContext p)"

text \<open>
  \<open>checkAndSetArgument\<close> with an argument: the result is the error value, if any, and whether the
  call is to be skipped with an undefined result. A missing description leaves the type flags
  unset in the code, which then returns before it reads them.
\<close>

definition argument_error :: "proc \<Rightarrow> val \<Rightarrow> TypeInfo \<Rightarrow> nat \<Rightarrow> val \<Rightarrow> val option \<times> bool" where
  "argument_error p arg info i callee =
     (let allowed = (if has_flag info ti_objectvalue then info OR ti_arrayvalue else info);
          argInfo = getTypeInfo arg
      in if argInfo AND allowed AND ti_typeMask \<noteq> argInfo AND ti_typeMask \<and>
            (has_flag allowed ti_exacttype \<or> argInfo AND ti_typeMask AND NOT ti_scalar \<noteq> allowed AND ti_typeMask AND NOT ti_scalar)
         then if has_flag allowed ti_undefres then (None, True)
              else if has_flag argInfo ti_error then (Some arg, False)
              else (Some (err_value E_Syntax
                     (''argument '' @ print_int (int (i + 1)) @ '' in call to '' @ SQUOTE # cstr (callee_name p callee) @ SQUOTE #
                      '' is '' @ typeDescription argInfo False @ '' - expected '' @ typeDescription allowed False)), False)
         else (None, False))"

text \<open>Setting an argument appends it to the context, and to the local variables under its name; the last \<open>None\<close> is a null dereference.\<close>

definition set_argument :: "nat \<Rightarrow> val \<Rightarrow> string \<Rightarrow> proc \<Rightarrow> proc option" where
  "set_argument ci arg nm p =
     do { (h, w) \<leftarrow> assignmentValue (pHeap p) arg;
          let cc = pCalls p ! ci;
              h' = (case cVars cc of
                      Some a \<Rightarrow> if nm \<noteq> [] then h[a := (case h ! a of HVars m \<Rightarrow> HVars (nm_set nm w m) | ob \<Rightarrow> ob)] else h
                    | None \<Rightarrow> h)
          in Some (p\<lparr>pHeap := h', pCalls := (pCalls p)[ci := cc\<lparr>cArgs := cArgs cc @ [w]\<rparr>]\<rparr>) }"

definition checkAndSetArgument :: "val option \<Rightarrow> nat \<Rightarrow> val option \<Rightarrow> proc \<Rightarrow> (proc \<times> val option) option" where
  "checkAndSetArgument arg ci callee p =
     (case callee of
        None \<Rightarrow> Some (p, Some (err_value E_Internal ''missing callee''))
      | Some cv \<Rightarrow>
          let i = length (cArgs (pCalls p ! ci));
              info = (case exec_of p cv of Some x \<Rightarrow> argumentInfo x i | None \<Rightarrow> None)
          in case (info, arg) of
               (None, Some a) \<Rightarrow>
                 Some (p, Some (err_value E_Syntax (''too many arguments for '' @ SQUOTE # cstr (callee_name p cv) @ [SQUOTE])))
             | (None, None) \<Rightarrow> Some (p, None)
             | (Some (t, nm), None) \<Rightarrow>
                 Some (p,
                   if \<not> has_flag t (ti_null OR ti_multiple)
                   then Some (err_value E_Syntax
                     (''missing argument '' @ print_int (int (i + 1)) @ '' ('' @ typeDescription t False @ '') in call to '' @
                      SQUOTE # cstr (callee_name p cv) @ [SQUOTE]))
                   else None)
             | (Some (t, nm), Some a) \<Rightarrow>
                 (case argument_error p a t i cv of
                    (Some err, _) \<Rightarrow> Some (p, Some err)
                  | (None, u) \<Rightarrow>
                      map_option (\<lambda>q. (q, None))
                        (set_argument ci a nm
                           (if u then p\<lparr>pCalls := (pCalls p)[ci := (pCalls p ! ci)\<lparr>cUndefined := True\<rparr>]\<rparr> else p))))"

text \<open>\<open>addError\<close>: the error value, if there is one, becomes the result.\<close>

definition or_error :: "val option \<Rightarrow> proc \<Rightarrow> proc" where
  "or_error v p = (case v of Some x \<Rightarrow> p\<lparr>mResult := Some x\<rparr> | None \<Rightarrow> p)"

definition thread_pushFunctionArgument :: "val option \<Rightarrow> proc \<Rightarrow> proc option" where
  "thread_pushFunctionArgument arg p =
     (case mFunc p of
        None \<Rightarrow> Some (checkAndResume p)
      | Some ci \<Rightarrow> map_option (\<lambda>(q, er). checkAndResume (or_error er q)) (checkAndSetArgument arg ci (mResult p) p))"

definition pushFunctionArgument :: "val option \<Rightarrow> proc \<Rightarrow> proc option" where
  "pushFunctionArgument arg p =
     (if isCompiler p then Some (checkAndResume p) else thread_pushFunctionArgument arg p)"

definition sp_executeResult :: "proc \<Rightarrow> proc" where
  "sp_executeResult p = checkAndResume (p\<lparr>mResult := None\<rparr>)"

text \<open>
  The call itself is a request; the thread stays chained to its context until \<open>executedResult\<close>. A
  context with an undefined argument answers at once, in \<open>execute\<close> of both context classes.
\<close>

definition take_call_result :: "val option \<Rightarrow> proc \<Rightarrow> proc" where
  "take_call_result v p =
     (let r = (case v of Some x \<Rightarrow> x | None \<Rightarrow> VNull ''no return value'')
      in p\<lparr>mChained := None, mResult := Some (if isErr r then to_err_pos (mSrc p) r else r)\<rparr>)"

definition executedResult :: "val option \<Rightarrow> proc \<Rightarrow> proc" where
  "executedResult v p = resume (take_call_result v p)"

definition thread_executeResult :: "proc \<Rightarrow> proc option" where
  "thread_executeResult p =
     (case (mFunc p, mResult p) of
        (Some ci, Some r) \<Rightarrow>
          do { (q, er) \<leftarrow> checkAndSetArgument None ci (Some r) p;
               case er of
                 Some x \<Rightarrow> Some (checkAndResume (q\<lparr>mResult := Some x\<rparr>))
               | None \<Rightarrow>
                   let q1 = q\<lparr>mChained := Some ci\<rparr>
                   in if cUndefined (pCalls q ! ci)
                      then Some (executedResult (Some (VNull ''undefined argument caused undefined function result''))
                             (q1\<lparr>pCalls := (pCalls q1)[ci := (pCalls q1 ! ci)\<lparr>cUndefined := False\<rparr>]\<rparr>))
                      else case r of
                             VExec _ _ fi \<Rightarrow>
                               Some (q1\<lparr>mRequest := Some (RExecute fi ci
                                 ((mFlags p AND NOT ef_scopeMask AND NOT ef_implicitreturn) OR ef_scriptbody OR ef_keepvars))\<rparr>)
                           | _ \<Rightarrow> None }
      | _ \<Rightarrow> Some (checkAndResume (not_found p E_Internal ''cannot execute object'')))"

definition executeResult :: "proc \<Rightarrow> proc option" where
  "executeResult p = (if isCompiler p then Some (sp_executeResult p) else thread_executeResult p)"

section \<open>Hooks: definitions and threads\<close>

text \<open>\<open>captureCode\<close>: the cursor for the code from the popped position to the current one, copied if the source is ephemeral.\<close>

definition capture_cursor :: "proc \<Rightarrow> cursor" where
  "capture_cursor p =
     (if has_flag (mFlags p) ef_ephemeralSource
      then container_cursor \<lparr>stext = substr (text_of (mSrc p)) (ptr (mPoppedSrc p)) (ptr (mSrc p) - ptr (mPoppedSrc p)),
             slabel = Some ''copied'', shosted = False\<rparr>
      else part_cursor (csrc (mSrc p)) (cpos (mPoppedSrc p)) (cpos (mSrc p)))"

text \<open>A new object, or the code captured into an existing one; an object that is not compiled code is an error.\<close>

definition new_object :: "exec \<Rightarrow> TypeInfo \<Rightarrow> string \<Rightarrow> proc \<Rightarrow> proc \<times> val" where
  "new_object x t a p = (p\<lparr>pObjects := pObjects p @ [x]\<rparr>, VExec t a (length (pObjects p)))"

definition captureCode :: "val option \<Rightarrow> proc \<Rightarrow> proc \<times> val" where
  "captureCode v p =
     (let c = capture_cursor p; bad = (p, err_pos_value (mSrc p) E_Internal ''no compiled code'')
      in case v of
           Some (VExec t a i) \<Rightarrow>
             if i < length (pObjects p)
             then case pObjects p ! i of
                    XFunction n as _ \<Rightarrow> (p\<lparr>pObjects := (pObjects p)[i := XFunction n as c]\<rparr>, VExec t a i)
                  | XTrigger _ m h n \<Rightarrow> (p\<lparr>pObjects := (pObjects p)[i := XTrigger c m h n]\<rparr>, VExec t a i)
                  | XHandler _ tr \<Rightarrow> (p\<lparr>pObjects := (pObjects p)[i := XHandler c tr]\<rparr>, VExec t a i)
                  | _ \<Rightarrow> bad
             else bad
         | _ \<Rightarrow> bad)"

text \<open>Functions are stored in the variables of the domain by the compiler, of the main context by a thread.\<close>

definition store_named :: "nat \<Rightarrow> proc \<Rightarrow> proc" where
  "store_named a p =
     (case mResult p of
        Some r \<Rightarrow>
          (case hobj_setMemberByName (callee_name p r) (Some r) (pHeap p ! a) of
             Inr ob \<Rightarrow> p\<lparr>pHeap := (pHeap p)[a := ob]\<rparr>
           | Inl er \<Rightarrow> p\<lparr>mResult := Some (VErr er False (Some (mSrc p)))\<rparr>)
      | None \<Rightarrow> p)"

definition storeFunction :: "proc \<Rightarrow> proc option" where
  "storeFunction p =
     (case mResult p of
        None \<Rightarrow> None
      | Some r \<Rightarrow>
          Some (checkAndResume (if isErr r then p else store_named (if isCompiler p then pDomain p else pMain p) p)))"

text \<open>\<open>registerHandler\<close>: a handler of the same source position replaces the earlier one.\<close>

definition handler_pos :: "proc \<Rightarrow> nat \<Rightarrow> (source \<times> nat) option" where
  "handler_pos p i = (case pObjects p ! i of XHandler c _ \<Rightarrow> Some (csrc c, ptr c) | _ \<Rightarrow> None)"

fun replace_handler :: "(nat \<Rightarrow> 'k) \<Rightarrow> nat \<Rightarrow> nat list \<Rightarrow> nat list" where
  "replace_handler k i [] = [i]"
| "replace_handler k i (j # js) = (if k j = k i then i # js else j # replace_handler k i js)"

definition registerHandler :: "val \<Rightarrow> proc \<Rightarrow> proc" where
  "registerHandler v p =
     (case v of
        VExec _ _ i \<Rightarrow>
          (case pObjects p ! i of
             XHandler _ _ \<Rightarrow> p\<lparr>pHandlers := replace_handler (handler_pos p) i (pHandlers p)\<rparr>
           | _ \<Rightarrow> p\<lparr>mResult := Some (err_value E_Internal ''is not a handler'')\<rparr>)
      | _ \<Rightarrow> p\<lparr>mResult := Some (err_value E_Internal ''is not a handler'')\<rparr>)"

definition storeHandler :: "proc \<Rightarrow> proc option" where
  "storeHandler p =
     (case mResult p of None \<Rightarrow> None | Some r \<Rightarrow> Some (checkAndResume (if isErr r then p else registerHandler r p)))"

definition startOfBodyCode :: "proc \<Rightarrow> proc" where
  "startOfBodyCode p = checkAndResume (p\<lparr>mFlags := (mFlags p AND NOT ef_sourcecode) OR ef_scriptbody\<rparr>)"

text \<open>
  The new thread runs, until it first gives up control, before this one goes on. Its start is a
  request; what follows it is \<open>thread_started\<close>. An anonymous thread resumes the parent twice, which
  is the same as once.
\<close>

definition startBlockThread :: "val option \<Rightarrow> proc \<Rightarrow> proc" where
  "startBlockThread vars p =
     (let (q, t) = new_object (XThread (mSrc p) vars TRunning) (ti_threadref OR ti_keeporiginal OR ti_oneshot) ''thread'' p;
          s = (if mIdentifier p \<noteq> [] then push S_assignOlder ((push_current q)\<lparr>mSkipping := False, mResult := Some t\<rparr>) else q)
      in s\<lparr>mRequest := Some (RThread (length (pObjects p)))\<rparr>)"

definition thread_started :: "penv \<Rightarrow> proc \<Rightarrow> proc option" where
  "thread_started e p =
     (if mIdentifier p \<noteq> []
      then memberByIdentifier e (ti_lvalue OR ti_create OR ti_nooverride) False
             (setState S_uncheckedResult (p\<lparr>mResult := None\<rparr>))
      else Some (checkAndResume (checkAndResume p)))"

definition startBlockThreadAndStoreInIdentifier :: "val option \<Rightarrow> proc \<Rightarrow> proc" where
  "startBlockThreadAndStoreInIdentifier vars p =
     (if isCompiler p then checkAndResume p else startBlockThread vars p)"

section \<open>Assignment\<close>

text \<open>\<open>assignLValue\<close> with \<open>resume\<close> as its callback; \<open>None\<close> when there is no lvalue to call it on.\<close>

definition assign_resume :: "val option \<Rightarrow> val option \<Rightarrow> proc \<Rightarrow> proc option" where
  "assign_resume lv v p =
     (case lv of
        None \<Rightarrow> None
      | Some l \<Rightarrow> (let (h, r) = assignLValue (pHeap p) l v in Some (resumeWith r (p\<lparr>pHeap := h\<rparr>))))"

text \<open>\<open>if (mResult) mResult = mResult->assignmentValue()\<close>\<close>

definition copy_result :: "proc \<Rightarrow> proc option" where
  "copy_result p =
     (case mResult p of
        None \<Rightarrow> Some p
      | Some v \<Rightarrow> map_option (\<lambda>(h, w). p\<lparr>pHeap := h, mResult := Some w\<rparr>) (assignmentValue (pHeap p) v))"

end
