(* ===== verification/ScriptExpr.thy ===== *)
theory ScriptExpr
  imports ScriptProc
begin

text \<open>
  The state handlers of the source processor for terms, member access, function calls, expressions
  and assignments (\<open>p44script.cpp\<close>). A handler gives \<open>None\<close> when it dereferences a null pointer.
\<close>

section \<open>The cursor of the processor\<close>

definition src_skip :: "proc \<Rightarrow> proc" where
  "src_skip p = p\<lparr>mSrc := skipNonCode (mSrc p)\<rparr>"

definition src_nextIf :: "char \<Rightarrow> proc \<Rightarrow> proc \<times> bool" where
  "src_nextIf x p = (let (c, b) = nextIf (mSrc p) x in (p\<lparr>mSrc := c\<rparr>, b))"

definition src_nextCodeIf :: "char \<Rightarrow> proc \<Rightarrow> proc \<times> bool" where
  "src_nextCodeIf x p = (let (c, b) = nextCodeIf (mSrc p) x in (p\<lparr>mSrc := c\<rparr>, b))"

definition src_keyword :: "string \<Rightarrow> proc \<Rightarrow> proc \<times> bool" where
  "src_keyword w p = (let (c, b) = checkForIdentifier (mSrc p) w in (p\<lparr>mSrc := c\<rparr>, b))"

definition src_operator :: "proc \<Rightarrow> proc \<times> ScriptOperator" where
  "src_operator p = (let (c, b) = parseOperator (mSrc p) in (p\<lparr>mSrc := c\<rparr>, b))"

definition src_identifier :: "proc \<Rightarrow> proc option" where
  "src_identifier p =
     (case parseIdentifier (mSrc p) False of
        Some (s, _, c) \<Rightarrow> Some (p\<lparr>mIdentifier := s, mSrc := c\<rparr>)
      | None \<Rightarrow> None)"

definition src_c :: "proc \<Rightarrow> char" where
  "src_c p = cursor_c (mSrc p) 0"

definition set_pos :: "srcpos \<Rightarrow> proc \<Rightarrow> proc" where
  "set_pos q p = p\<lparr>mSrc := (mSrc p)\<lparr>cpos := q\<rparr>\<rparr>"

section \<open>Generic states\<close>

definition s_result :: "proc \<Rightarrow> proc" where "s_result p = popWithResult True p"
definition s_nothrowResult :: "proc \<Rightarrow> proc" where "s_nothrowResult p = popWithResult False p"
definition s_validResult :: "proc \<Rightarrow> proc" where "s_validResult p = popWithValidResult False p"
definition s_validResultCheck :: "proc \<Rightarrow> proc" where "s_validResultCheck p = popWithValidResult True p"
definition s_uncheckedResult :: "proc \<Rightarrow> proc" where "s_uncheckedResult p = resume (pop p)"
definition s_complete :: "proc \<Rightarrow> proc" where "s_complete p = complete (mResult p) p"

section \<open>Expressions\<close>

definition processExpression :: "proc \<Rightarrow> proc" where
  "processExpression p0 =
     (let (p1, uop) = src_operator p0; p = p1\<lparr>mPending := uop\<rparr>
      in if uop \<notin> {plain op_none, plain op_subtract, plain op_add, plain op_not}
         then exitWithSyntaxError ''invalid unary operator'' p
         else let p2 = (if uop \<noteq> plain op_none \<and> mPrec p = 0 then p\<lparr>mPrec := 1\<rparr> else p);
                  (q, b) = src_nextIf (CHR ''('') p2
              in if b then resumeAt S_expression (push S_groupedExpression q)
                 else resumeAt S_simpleTerm (push S_exprFirstTerm q))"

definition s_assignmentExpression :: "proc \<Rightarrow> proc" where
  "s_assignmentExpression p = processExpression (p\<lparr>mPrec := 0\<rparr>)"

definition s_expression :: "proc \<Rightarrow> proc" where
  "s_expression p = processExpression (p\<lparr>mPrec := 1\<rparr>)"

definition s_subExpression :: "proc \<Rightarrow> proc" where
  "s_subExpression p = processExpression p"

definition s_groupedExpression :: "proc \<Rightarrow> proc" where
  "s_groupedExpression p =
     (let (q, b) = src_nextIf (CHR '')'') p
      in if \<not> b then exitWithSyntaxError (''missing '' @ SQUOTE # '')'' @ [SQUOTE]) q
         else resumeAt S_member (push S_exprFirstTerm q))"

definition s_exprFirstTerm :: "penv \<Rightarrow> proc \<Rightarrow> proc" where
  "s_exprFirstTerm e p =
     resumeAt S_exprLeftSide
       (case mResult p of
          Some r \<Rightarrow>
            if \<not> mSkipping p \<and> defined_val r
            then if mPending p = plain op_not then p\<lparr>mResult := Some (vbool (\<not> boolValue (pe e) r))\<rparr>
                 else if mPending p = plain op_subtract then p\<lparr>mResult := Some (vnum (f64_minus (doubleValue (pe e) r)))\<rparr>
                 else p
            else p
        | None \<Rightarrow> p)"

definition s_exprLeftSide :: "proc \<Rightarrow> proc" where
  "s_exprLeftSide p =
     (let opos = cpos (mSrc p); (q, binaryop) = src_operator (src_skip p); newPrecedence = precedence (oc binaryop)
      in if binaryop = plain op_none \<or> newPrecedence \<le> mPrec p
         then popWithResult False (set_pos opos q)
         else resumeAt S_subExpression ((push S_exprRightSide (q\<lparr>mPending := binaryop\<rparr>))\<lparr>mPrec := newPrecedence\<rparr>))"

text \<open>
  The operator between two defined values: an error message, the heap and the value, or no value where
  the \<open>switch\<close> has no case for the operator.
\<close>

definition binary_op :: "scriptenv \<Rightarrow> heap \<Rightarrow> ScriptOperator \<Rightarrow> val \<Rightarrow> val \<Rightarrow> (string + heap \<times> val option) option" where
  "binary_op e h bop l r =
     (let val = (\<lambda>v. Some (Inr (h, Some v)));
          bool = (\<lambda>b. Some (Inr (h, Some (vbool b))));
          obool = map_option (\<lambda>b. Inr (h, Some (vbool b)))
      in if op_incdec bop \<or> op_self bop then Some (Inr (h, None))
         else case oc bop of
           op_assign \<Rightarrow> Some (Inl ''nested assigment not allowed'')
         | op_not \<Rightarrow> Some (Inl ''NOT operator not allowed here'')
         | op_divide \<Rightarrow> val (val_div e l r)
         | op_modulo \<Rightarrow> val (val_mod e l r)
         | op_multiply \<Rightarrow> val (val_mul e l r)
         | op_add \<Rightarrow> map_option (\<lambda>(h', v). Inr (h', Some v)) (val_add e h l r)
         | op_subtract \<Rightarrow> val (val_sub e l r)
         | op_less \<Rightarrow> obool (val_less e h l r)
         | op_greater \<Rightarrow> obool (val_greater e h l r)
         | op_leq \<Rightarrow> obool (val_leq e h l r)
         | op_geq \<Rightarrow> obool (val_geq e h l r)
         | op_and \<Rightarrow> bool (boolValue e l \<and> boolValue e r)
         | op_or \<Rightarrow> bool (boolValue e l \<or> boolValue e r)
         | _ \<Rightarrow> Some (Inr (h, None)))"

definition binary_result :: "scriptenv \<Rightarrow> heap \<Rightarrow> ScriptOperator \<Rightarrow> val \<Rightarrow> val \<Rightarrow> (string + heap \<times> val option) option" where
  "binary_result e h bop l r =
     (if bop = plain op_equal \<or> bop = plain op_assignOrEq then map_option (\<lambda>b. Inr (h, Some (vbool b))) (val_eq e h l r)
      else if bop = plain op_notequal then map_option (\<lambda>b. Inr (h, Some (vbool b))) (val_neq e h l r)
      else if defined_val l \<and> defined_val r then binary_op e h bop l r
      else if isErr l then Some (Inr (h, Some l))
      else if \<not> isErr r then Some (Inr (h, Some (VNull ''operation between undefined values'')))
      else Some (Inr (h, None)))"

definition s_exprRightSide :: "penv \<Rightarrow> proc \<Rightarrow> proc option" where
  "s_exprRightSide e p =
     (if mSkipping p then Some (resumeAt S_exprLeftSide p)
      else do {
        l0 \<leftarrow> mOlder p; r0 \<leftarrow> mResult p;
        l \<leftarrow> calculationValue p l0; r \<leftarrow> calculationValue p r0;
        x \<leftarrow> binary_result (pe e) (pHeap p) (mPending p) l r;
        Some (case x of
                Inl m \<Rightarrow> exitWithSyntaxError m p
              | Inr (h, v) \<Rightarrow>
                  resumeAt S_exprLeftSide (p\<lparr>pHeap := h, mResult := (case v of Some _ \<Rightarrow> v | None \<Rightarrow> mResult p)\<rparr>)) })"

section \<open>Assignments\<close>

definition s_assignLvalue :: "proc \<Rightarrow> proc option" where
  "s_assignLvalue p0 =
     (let p = setState S_result p0
      in if \<not> mSkipping p
         then do { q \<leftarrow> copy_result p; assign_resume (mOlder q) (mResult q) q }
         else Some (resume (p\<lparr>mResult := None\<rparr>)))"

definition s_checkAndAssignLvalue :: "proc \<Rightarrow> proc" where
  "s_checkAndAssignLvalue p = checkAndResumeAt S_assignLvalue p"

definition s_assignOlder :: "proc \<Rightarrow> proc option" where
  "s_assignOlder p =
     (if \<not> mSkipping p
      then case mResult p of
             Some r \<Rightarrow>
               if \<not> hasType r ti_lvalue then Some (resume (setState S_result p))
               else s_assignLvalue (p\<lparr>mResult := mOlder p, mOlder := mResult p\<rparr>)
           | None \<Rightarrow> s_assignLvalue (p\<lparr>mResult := mOlder p, mOlder := None\<rparr>)
      else s_assignLvalue p)"

definition s_unsetMember :: "proc \<Rightarrow> proc option" where
  "s_unsetMember p =
     (if \<not> mSkipping p
      then let q = p\<lparr>mOlder := mResult p, mResult := None\<rparr>
           in if (case mOlder q of None \<Rightarrow> True | Some v \<Rightarrow> \<not> hasType v ti_lvalue)
              then Some (s_result (q\<lparr>mResult := Some (VNull ''nothing to unset'')\<rparr>))
              else s_assignLvalue q
      else s_assignLvalue p)"

definition clear_self :: "ScriptOperator \<Rightarrow> ScriptOperator" where
  "clear_self x = Op (oc x) (op_incdec x) False"

definition clear_incdec :: "ScriptOperator \<Rightarrow> ScriptOperator" where
  "clear_incdec x = Op (oc x) False (op_self x)"

definition s_compoundAssignment :: "proc \<Rightarrow> proc" where
  "s_compoundAssignment p =
     (if op_self (mPending p)
      then resumeAt S_subExpression ((push S_exprRightSide (p\<lparr>mPending := clear_self (mPending p)\<rparr>))\<lparr>mPrec := 0\<rparr>)
      else if op_incdec (mPending p)
      then resumeAt S_exprRightSide
             (p\<lparr>mPending := clear_incdec (mPending p), mPrec := 0, mOlder := mResult p, mResult := Some (vint 1)\<rparr>)
      else exitWithSyntaxError ''Invalid compound assignment'' p)"

definition s_assignExpression :: "proc \<Rightarrow> proc option" where
  "s_assignExpression p0 =
     (let p = push S_checkAndAssignLvalue p0
      in if op_self (mPending p) \<or> op_incdec (mPending p)
         then if \<not> mSkipping p
              then map_option (\<lambda>r. resumeWith (Some (makeValid r)) (setState S_compoundAssignment p)) (mResult p)
              else Some (s_compoundAssignment p)
         else Some (resumeAt S_expression p))"

definition s_assignDefault :: "proc \<Rightarrow> proc option" where
  "s_assignDefault p =
     (case mResult p of
        Some r \<Rightarrow>
          if hasType r ti_lvalue then s_assignExpression p
          else Some (resumeAt S_expression (p\<lparr>mSkipping := True\<rparr>))
      | None \<Rightarrow> Some (resumeAt S_expression (p\<lparr>mSkipping := True\<rparr>)))"

section \<open>Member access\<close>

definition is_assignment :: "ScriptOperator \<Rightarrow> bool" where
  "is_assignment x \<longleftrightarrow> x = plain op_assign \<or> x = plain op_assignOrEq \<or> op_self x \<or> op_incdec x"

definition request_member :: "penv \<Rightarrow> proc \<Rightarrow> proc option" where
  "request_member e p =
     memberByIdentifier e (if src_c p = CHR ''('' then ti_executable else 0) False (setState S_member p)"

definition assignOrAccess :: "penv \<Rightarrow> TypeInfo \<Rightarrow> proc \<Rightarrow> proc option" where
  "assignOrAccess e f p =
     (if mPending p = plain op_delete
      then let q = src_skip p
           in if src_c q \<notin> {CHR ''.'', CHR ''['', CHR ''(''}
              then memberByIdentifier e ti_lvalue False (setState S_unsetMember q)
              else request_member e q
      else if has_flag f ti_lvalue \<and> mPrec p = 0
      then let q = src_skip p; opos = cpos (mSrc q); (r, aop) = src_operator q
           in if is_assignment aop
              then memberByIdentifier e f False (setState S_validResult (push S_assignExpression (r\<lparr>mPending := aop\<rparr>)))
              else request_member e (set_pos opos r)
      else request_member e p)"

text \<open>A \<open>size_t\<close> made of an \<open>int64_t\<close>.\<close>

definition as_size :: "int \<Rightarrow> nat" where
  "as_size i = nat (i mod 2 ^ 64)"

text \<open>The access itself, to the subscript in the first argument; without one, to the element after the last.\<close>

definition access_subscript :: "penv \<Rightarrow> val option \<Rightarrow> TypeInfo \<Rightarrow> proc \<Rightarrow> proc option" where
  "access_subscript e subscript f p =
     (case subscript of
        None \<Rightarrow> map_option (\<lambda>r. memberByIndex (numIndexedMembers (pHeap p) r) f p) (mResult p)
      | Some s \<Rightarrow>
          if hasType s ti_numeric then Some (memberByIndex (as_size (int64Value (pe e) s)) f p)
          else do { n \<leftarrow> stringValue (pe e) (pHeap p) s;
                    memberByIdentifier e f False (p\<lparr>mIdentifier := n\<rparr>) })"

definition process_subscript :: "penv \<Rightarrow> TypeInfo \<Rightarrow> proc \<Rightarrow> proc option" where
  "process_subscript e f p0 =
     (if mSkipping p0 then Some (checkAndResume p0)
      else let subscript = mResult p0; p = p0\<lparr>mResult := mOlder p0\<rparr>
           in if mPending p = plain op_delete
              then let q = src_skip p
                   in if src_c q \<notin> {CHR ''.'', CHR ''[''}
                      then access_subscript e subscript (f OR ti_lvalue) (setState S_unsetMember q)
                      else access_subscript e subscript f q
              else if mPrec p = 0
              then let opos = cpos (mSrc p); (q, aop) = src_operator p
                   in if is_assignment aop
                      then access_subscript e subscript (f OR ti_lvalue)
                             (setState S_validResult (push S_assignExpression (q\<lparr>mPending := aop\<rparr>)))
                      else access_subscript e subscript f (set_pos opos q)
              else access_subscript e subscript f p)"

definition s_member :: "penv \<Rightarrow> proc \<Rightarrow> proc option" where
  "s_member e p =
     (let (p1, dot) = src_nextIf (CHR ''.'') p
      in if dot
         then (case src_identifier (src_skip p1) of
                 None \<Rightarrow> Some (exitWithSyntaxError (''missing identifier after '' @ SQUOTE # ''.'' @ [SQUOTE]) (src_skip p1))
               | Some q \<Rightarrow> assignOrAccess e (ti_lvalue OR ti_create) (src_skip q))
         else let (p2, brk) = src_nextIf (CHR ''['') p
              in if brk
                 then let (q, empty) = src_nextIf (CHR '']'') (src_skip p2)
                      in if empty then process_subscript e ti_create (q\<lparr>mOlder := mResult q, mResult := None\<rparr>)
                         else Some (resumeAt S_expression (push S_subscriptArg q))
                 else let (p3, par) = src_nextIf (CHR ''('') p
                      in if par
                         then let q = setState S_funcContext (src_skip p3)
                              in if \<not> mSkipping q then newFunctionCallContext q else Some (resume q)
                         else map_option (popWithValidResult False) (memberEventCheck p))"

definition s_subscriptArg :: "penv \<Rightarrow> proc \<Rightarrow> proc option" where
  "s_subscriptArg e p =
     (let (p1, close) = src_nextCodeIf (CHR '']'') p
      in if close then process_subscript e ti_create (setState S_member p1)
         else let (p2, comma) = src_nextIf (CHR '','') p1
              in if comma then process_subscript e 0 (setState S_nextSubscript (src_skip p2))
                 else Some (exitWithSyntaxError ''missing , or ] after subscript'' p2))"

definition s_nextSubscript :: "proc \<Rightarrow> proc" where
  "s_nextSubscript p = checkAndResumeAt S_expression (push S_subscriptArg p)"

section \<open>Function calls\<close>

definition s_funcContext :: "proc \<Rightarrow> proc" where
  "s_funcContext p =
     (let (q, close) = src_nextIf (CHR '')'') p
      in if close then resumeAt S_funcExec q else resumeAt S_expression (push S_funcArg q))"

definition s_funcArg :: "proc \<Rightarrow> proc option" where
  "s_funcArg p0 =
     (let arg = mResult p0; p = p0\<lparr>mResult := mOlder p0\<rparr>;
          apply_arg = (\<lambda>q. if mSkipping q then Some (checkAndResume q) else pushFunctionArgument arg q);
          (p1, close) = src_nextCodeIf (CHR '')'') p
      in if close then apply_arg (setState S_funcExec p1)
         else let (p2, comma) = src_nextIf (CHR '','') p1
              in if comma then apply_arg (setState S_expression (push S_funcArg (src_skip p2)))
                 else Some (exitWithSyntaxError ''missing , or ) after function argument'' p2))"

definition s_funcExec :: "proc \<Rightarrow> proc option" where
  "s_funcExec p0 =
     (let p = setState S_member p0 in if mSkipping p then Some (checkAndResume p) else executeResult p)"

section \<open>Objects and arrays\<close>

definition fieldnamedefined :: "penv \<Rightarrow> proc \<Rightarrow> proc option" where
  "fieldnamedefined e p =
     (let (q, b) = src_nextCodeIf (CHR '':'') p
      in if \<not> b then Some (exitWithSyntaxError (''missing '' @ SQUOTE # '':'' @ SQUOTE # '' after object field name'') q)
         else memberByIdentifier e (ti_lvalue OR ti_create) False
                (setState S_objectfieldlvalue (push S_objectfielddone (src_skip q))))"

definition s_objectfield :: "penv \<Rightarrow> proc \<Rightarrow> proc option" where
  "s_objectfield e p =
     (let (q, b) = src_nextCodeIf (CHR ''['') p
      in if b then Some (resumeAt S_expression (src_skip (push S_varobjectfield q)))
         else if src_c q = DQUOTE \<or> src_c q = SQUOTE
         then let (c, v) = parseStringLiteral (mSrc q)
              in do { n \<leftarrow> stringValue (pe e) (pHeap q) v;
                      fieldnamedefined e (q\<lparr>mSrc := c, mIdentifier := n\<rparr>) }
         else case src_identifier q of
                Some r \<Rightarrow> fieldnamedefined e r
              | None \<Rightarrow> Some (exitWithSyntaxError ''invalid object field name'' q))"

definition s_varobjectfield :: "penv \<Rightarrow> proc \<Rightarrow> proc option" where
  "s_varobjectfield e p =
     (let (q, b) = src_nextCodeIf (CHR '']'') p
      in if b
         then do { r \<leftarrow> mResult q; n \<leftarrow> stringValue (pe e) (pHeap q) r;
                   fieldnamedefined e (q\<lparr>mIdentifier := n, mResult := mOlder q\<rparr>) }
         else Some (exitWithSyntaxError (''missing closing '' @ SQUOTE # '']'' @ SQUOTE # '' in calculated object field name'') q))"

definition s_objectfieldlvalue :: "proc \<Rightarrow> proc" where
  "s_objectfieldlvalue p = resumeAt S_expression (push S_objectfieldvalue p)"

definition s_objectfieldvalue :: "proc \<Rightarrow> proc option" where
  "s_objectfieldvalue p0 =
     (let p = setState S_objectfielddone p0
      in if \<not> mSkipping p
         then do { q \<leftarrow> copy_result p; assign_resume (mOlder q) (mResult q) q }
         else Some (resume p))"

definition s_objectfielddone :: "proc \<Rightarrow> proc" where
  "s_objectfielddone p0 =
     (let p1 = pop p0; p = p1\<lparr>mResult := mOlder p1\<rparr>; (q, comma) = src_nextCodeIf (CHR '','') p; r = (if comma then src_skip q else q)
      in if comma \<and> src_c r \<noteq> CHR ''}'' then resumeAt S_objectfield r
         else let (s, close) = src_nextIf (CHR ''}'') r
              in if close then popWithValidResult True s else exitWithSyntaxError ''invalid object field'' s)"

text \<open>The error of \<open>setMemberAtIndex\<close> is not looked at.\<close>

definition append_element :: "proc \<Rightarrow> proc option" where
  "append_element p =
     (case mOlder p of
        None \<Rightarrow> None
      | Some (VRef b a) \<Rightarrow>
          (case hobj_setMemberAtIndex (numIndexedMembers (pHeap p) (VRef b a)) (mResult p) (pHeap p ! a) of
             Inr ob \<Rightarrow> Some (p\<lparr>pHeap := (pHeap p)[a := ob]\<rparr>)
           | Inl _ \<Rightarrow> Some p)
      | Some _ \<Rightarrow> Some p)"

definition s_arrayelementdone :: "proc \<Rightarrow> proc option" where
  "s_arrayelementdone p0 =
     do { p1 \<leftarrow> (if \<not> mSkipping p0 then append_element p0 else Some p0);
          let p = p1\<lparr>mResult := mOlder p1\<rparr>; (q, comma) = src_nextCodeIf (CHR '','') p; r = (if comma then src_skip q else q)
          in Some (if comma \<and> src_c r \<noteq> CHR '']'' then resumeAt S_expression (push S_arrayelementdone r)
                   else let (s, close) = src_nextIf (CHR '']'') r
                        in if close then popWithValidResult True s
                           else exitWithSyntaxError ''invalid array element'' s) }"

section \<open>Simple terms\<close>

definition new_container :: "bool \<Rightarrow> hobj \<Rightarrow> proc \<Rightarrow> proc" where
  "new_container b ob p = p\<lparr>pHeap := pHeap p @ [ob], mResult := Some (VRef b (length (pHeap p)))\<rparr>"

text \<open>The constants that cannot be overridden.\<close>

definition builtin_constant :: "string \<Rightarrow> val option" where
  "builtin_constant n =
     (if uequals n ''true'' \<or> uequals n ''yes'' then Some (vbool True)
      else if uequals n ''false'' \<or> uequals n ''no'' then Some (vbool False)
      else if uequals n ''null'' \<or> uequals n ''undefined'' then Some (VNull n)
      else None)"

definition identifier_term :: "penv \<Rightarrow> proc \<Rightarrow> proc option" where
  "identifier_term e p0 =
     (let p = src_skip (p0\<lparr>mResult := None, mOlder := None\<rparr>)
      in if mSkipping p then assignOrAccess e ti_lvalue p
         else if src_c p \<in> {CHR ''('', CHR ''.'', CHR ''[''} then assignOrAccess e 0 p
         else case builtin_constant (mIdentifier p) of
                Some v \<Rightarrow> Some (popWithResult False (p\<lparr>mResult := Some v\<rparr>))
              | None \<Rightarrow> assignOrAccess e ti_lvalue p)"

definition s_simpleTerm :: "penv \<Rightarrow> proc \<Rightarrow> proc option" where
  "s_simpleTerm e p =
     (if src_c p = DQUOTE \<or> src_c p = SQUOTE
      then let (c, v) = parseStringLiteral (mSrc p) in Some (popWithValidResult True (p\<lparr>mSrc := c, mResult := Some v\<rparr>))
      else let (p1, obj) = src_nextCodeIf (CHR ''{'') p
           in if obj
              then let (q, empty) = src_nextCodeIf (CHR ''}'') (new_container True (HObj []) p1)
                   in if empty then Some (popWithValidResult True q) else s_objectfield e q
              else let (p2, arr) = src_nextIf (CHR ''['') p1
                   in if arr
                      then let (q, empty) = src_nextCodeIf (CHR '']'') (new_container False (HArr []) p2)
                           in if empty then Some (popWithValidResult True q)
                              else Some (s_expression (push S_arrayelementdone q))
                      else case src_identifier p2 of
                             Some q \<Rightarrow> identifier_term e q
                           | None \<Rightarrow>
                               if \<not> EOT (mSrc p2) \<and> src_c p2 \<noteq> CHR ''}'' \<and> src_c p2 \<noteq> CHR '';''
                               then let (c, v) = parseNumericLiteral (senv (pe e)) (mSrc p2)
                                    in Some (popWithValidResult True (p2\<lparr>mSrc := c, mResult := Some v\<rparr>))
                               else Some (popWithValidResult True p2))"

end
