(* ===== verification/ScriptStmt.thy ===== *)
theory ScriptStmt
  imports ScriptExpr ScriptLex
begin

text \<open>
  The state handlers of the source processor for statements, loops, \<open>try\<close>, concurrent blocks,
  declarations and includes (\<open>p44script.cpp\<close>).
\<close>

section \<open>Functions, handlers and includes\<close>

lemma ptr_ident: "ident_len c = Some n \<Longrightarrow> ptr c < peot (cpos c)"
  by (auto simp: ident_len_def EOT_def split: if_splits)

lemma ident_len_pos: "ident_len c = Some n \<Longrightarrow> 0 < n"
  by (rule ident_text(1))

lemma forward_ptr_add [simp, intro]: "forward c (ptr_add c n)"
  by (simp add: forward_def ptr_add_def)

lemma left_ident: "ident_len c = Some n \<Longrightarrow> peot (cpos (ptr_add c n)) - ptr (ptr_add c n) < peot (cpos c) - ptr c"
  using ptr_ident [of c n] ident_len_pos [of c n] by (simp add: ptr_add_def)

lemma forward_nextIf [simp, intro]: "forward c (fst (nextIf c x))"
  by (simp add: nextIf_def)

text \<open>The argument list of a function after its opening parenthesis, to before the closing one.\<close>

function argument_list :: "argdesc list \<Rightarrow> cursor \<Rightarrow> cursor \<times> (string + argdesc list)" where
  "argument_list as c0 =
     (let c = skipNonCode c0
      in if cursor_c c 0 = CHR ''.'' \<and> cursor_c c 1 = CHR ''.'' \<and> cursor_c c 2 = CHR ''.''
         then (adv c 3, Inr (as @ [(ti_anyvalid OR ti_null OR ti_error OR ti_multiple, ''arg'')]))
         else case ident_len c of
                None \<Rightarrow> (c, Inl ''function argument name expected'')
              | Some n \<Rightarrow>
                  let as' = as @ [(ti_anyvalid OR ti_null OR ti_error, substr (text_of c) (ptr c) n)];
                      d = skipNonCode (ptr_add c n); (d', comma) = nextIf d (CHR '','')
                  in if comma then argument_list as' d' else (d', Inr as'))"
  by pat_completeness auto
termination
proof (relation "measure (\<lambda>(_, c). peot (cpos c) - ptr c)", goal_cases)
  case (2 as c0 c n as' d p d' comma)
  have "forward c0 c" using 2 by simp
  moreover have "forward (ptr_add c n) d'"
    using 2 by (metis forward_nextIf forward_skipNonCode forward_trans fst_conv)
  ultimately show ?case using left_ident [of c n] 2 left_forward [of c0 c] left_forward [of "ptr_add c n" d']
    by simp
qed simp

declare argument_list.simps [simp del]

text \<open>From here on the body of the definition is skipped, to be captured when it is through.\<close>

definition skip_body :: "pstate \<Rightarrow> proc \<Rightarrow> proc" where
  "skip_body s p = resumeAt S_block ((push s p)\<lparr>mSkipping := True, mSrc := nxt (mSrc p)\<rparr>)"

definition function_body :: "bool \<Rightarrow> argdesc list \<Rightarrow> proc \<Rightarrow> proc" where
  "function_body g as p =
     (let (q, v) = new_object (XFunction (mIdentifier p) as null_cursor) ti_executable ''function'' p;
          r = q\<lparr>mResult := Some v\<rparr>
      in if src_c r \<noteq> CHR ''{'' then exitWithSyntaxError ''expected function body'' r
         else skip_body (S_defineFunction g) r)"

definition processFunction :: "bool \<Rightarrow> proc \<Rightarrow> proc" where
  "processFunction g p0 =
     (case src_identifier (src_skip (push_current p0)) of
        None \<Rightarrow> exitWithSyntaxError ''function name expected'' (src_skip (push_current p0))
      | Some p \<Rightarrow>
          let (p1, par) = src_nextCodeIf (CHR ''('') p
          in if \<not> par then function_body g [] p1
             else let (p2, empty) = src_nextCodeIf (CHR '')'') p1
                  in if empty then function_body g [] (src_skip p2)
                     else case argument_list [] (mSrc p2) of
                            (c, Inl m) \<Rightarrow> exitWithSyntaxError m (p2\<lparr>mSrc := c\<rparr>)
                          | (c, Inr as) \<Rightarrow>
                              let (p3, close) = src_nextIf (CHR '')'') (p2\<lparr>mSrc := c\<rparr>)
                              in if \<not> close
                                 then exitWithSyntaxError (''missing closing '' @ SQUOTE # '')'' @ SQUOTE # '' for argument list'') p3
                                 else function_body g as (src_skip p3))"

definition defineFunction :: "bool \<Rightarrow> proc \<Rightarrow> proc option" where
  "defineFunction g p =
     (if g = isCompiler p
      then let (q, v) = captureCode (mOlder p) (setState S_declarations p)
           in map_option pop (storeFunction (q\<lparr>mResult := Some v\<rparr>))
      else Some (pop (checkAndResume p)))"

definition processOnHandler :: "bool \<Rightarrow> proc \<Rightarrow> proc" where
  "processOnHandler g p =
     (let (q, par) = src_nextCodeIf (CHR ''('') (push_current p)
      in if \<not> par then exitWithSyntaxError (SQUOTE # ''('' @ SQUOTE # '' expected'') q
         else resumeAt S_expression ((push (S_defineTrigger g) q)\<lparr>mSkipping := True\<rparr>))"

text \<open>The trigger of an \<open>on\<close> statement, its mode, holdoff time (\<open>Never\<close> is 0) and result variable.\<close>

definition trigger_mode :: "string \<Rightarrow> TriggerMode option" where
  "trigger_mode n =
     (if uequals n ''changing'' then Some tm_onChange
      else if uequals n ''toggling'' then Some tm_onChangingBool
      else if uequals n ''evaluating'' then Some tm_onEvaluation
      else if uequals n ''gettingtrue'' then Some tm_onGettingTrue
      else None)"

definition set_trigger :: "nat option \<Rightarrow> TriggerMode \<Rightarrow> int \<Rightarrow> string \<Rightarrow> proc \<Rightarrow> proc" where
  "set_trigger t m hold var p =
     (case t of
        None \<Rightarrow> p
      | Some i \<Rightarrow>
          p\<lparr>pObjects := (pObjects p)[i := (case pObjects p ! i of XTrigger c _ _ _ \<Rightarrow> XTrigger c m hold var | x \<Rightarrow> x)]\<rparr>)"

definition trigger_end :: "bool \<Rightarrow> nat option \<Rightarrow> TriggerMode \<Rightarrow> int \<Rightarrow> string \<Rightarrow> proc \<Rightarrow> proc" where
  "trigger_end g t m hold var p =
     (let q = src_skip (set_trigger t m hold var p)
      in if src_c q \<noteq> CHR ''{'' then exitWithSyntaxError ''expected handler body'' q
         else skip_body (S_defineHandler g) q)"

definition trigger_as :: "bool \<Rightarrow> nat option \<Rightarrow> TriggerMode \<Rightarrow> int \<Rightarrow> bool \<Rightarrow> proc \<Rightarrow> proc" where
  "trigger_as g t m hold hasid p =
     (if \<not> hasid then trigger_end g t m hold [] p
      else if uequals (mIdentifier p) ''as''
      then case src_identifier (src_skip p) of
             None \<Rightarrow> exitWithSyntaxError ''missing trigger result variable name'' (src_skip p)
           | Some q \<Rightarrow> trigger_end g t m hold (mIdentifier q) q
      else exitWithSyntaxError (''missing trigger mode or '' @ SQUOTE # ''as'' @ [SQUOTE]) p)"

text \<open>\<open>hasid = mSrc.parseIdentifier(mIdentifier)\<close>\<close>

definition maybe_identifier :: "proc \<Rightarrow> proc \<times> bool" where
  "maybe_identifier p = (case src_identifier p of Some q \<Rightarrow> (q, True) | None \<Rightarrow> (p, False))"

definition defineTrigger :: "penv \<Rightarrow> bool \<Rightarrow> proc \<Rightarrow> proc" where
  "defineTrigger e g p0 =
     (let p = src_skip p0
      in if src_c p \<noteq> CHR '')'' then exitWithSyntaxError (SQUOTE # '')'' @ SQUOTE # '' as end of trigger expression expected'') p
         else let t = (if (isCompiler p \<and> g) \<or> (\<not> isCompiler p \<and> \<not> mSkipping p \<and> \<not> g) then Some (length (pObjects p)) else None);
                  p1 = (if t \<noteq> None
                        then let (q, v) = new_object (XTrigger null_cursor tm_onGettingTrue 0 []) ti_executable ''trigger'' p;
                                 (r, w) = captureCode (Some v) q
                             in r\<lparr>mResult := Some w\<rparr>
                        else p);
                  (p2, id) = maybe_identifier (src_skip (p1\<lparr>mSrc := nxt (mSrc p1)\<rparr>));
                  m = (if id then trigger_mode (mIdentifier p2) else None);
                  (p3, id2) = (if m = None then (p2, id) else maybe_identifier (src_skip p2));
                  md = (case m of Some x \<Rightarrow> x | None \<Rightarrow> tm_onGettingTrue)
              in if id2 \<and> uequals (mIdentifier p3) ''stable''
                 then let p4 = src_skip p3; (c, h) = parseNumericLiteral (senv (pe e)) (mSrc p4); p5 = p4\<lparr>mSrc := c\<rparr>
                      in if isErr h then complete (Some h) p5
                         else let (p6, id3) = maybe_identifier (src_skip p5)
                              in trigger_as g t md (f64_to_int 64 (f64_mul (doubleValue (pe e) h) (F_Fin 1000000))) id3 p6
                 else trigger_as g t md 0 id2 p3)"

definition defineHandler :: "bool \<Rightarrow> proc \<Rightarrow> proc option" where
  "defineHandler g p =
     (if isCompiler p = g
      then let tr = (case mOlder p of
                       Some (VExec _ _ i) \<Rightarrow> (case pObjects p ! i of XTrigger _ _ _ _ \<Rightarrow> Some i | _ \<Rightarrow> None)
                     | _ \<Rightarrow> None);
               (q, v) = new_object (XHandler null_cursor tr) ti_executable ''handler'' p;
               (r, w) = captureCode (Some v) q
           in map_option (\<lambda>s. checkAndResume (pop s))
                (storeHandler (r\<lparr>mResult := Some w, mRequest := (case tr of Some i \<Rightarrow> Some (RTrigger i) | None \<Rightarrow> mRequest r)\<rparr>))
      else Some (checkAndResume (pop p)))"

definition s_include :: "penv \<Rightarrow> proc \<Rightarrow> proc option" where
  "s_include e p =
     (if \<not> shosted (csrc (mSrc p)) \<or> has_flag (mFlags p) ef_ephemeralSource
      then Some (checkAndResume (p\<lparr>mResult := Some (err_value E_WrongContext ''include is only allowed from persistent scripts'')\<rparr>))
      else do { r \<leftarrow> mResult p; fn \<leftarrow> stringValue (pe e) (pHeap p) r;
                Some (case included_code e fn (csrc (mSrc p)) of
                        Inl er \<Rightarrow> checkAndResume (pop (p\<lparr>mResult := Some (VErr er False None)\<rparr>))
                      | Inr c \<Rightarrow>
                          let (q, v) = new_object (XInclude c) ti_executable ''include'' p
                          in resumeAt S_included ((push_current (pop (q\<lparr>mResult := Some v\<rparr>)))\<lparr>mSrc := c\<rparr>)) })"

section \<open>Conditions\<close>

definition s_ifCondition :: "penv \<Rightarrow> proc \<Rightarrow> proc option" where
  "s_ifCondition e p =
     (let (q, close) = src_nextCodeIf (CHR '')'') p;
          go = (\<lambda>s. resumeAt S_oneStatement (push S_ifTrueStatement s))
      in if \<not> close then Some (exitWithSyntaxError (''missing '' @ SQUOTE # '')'' @ SQUOTE # '' after '' @ SQUOTE # ''if'' @ SQUOTE # '' condition'') q)
         else if \<not> mSkipping q
         then map_option (\<lambda>r. let b = boolValue (pe e) r
                in go (q\<lparr>mSkipping := \<not> b, mResult := (if b then None else Some r)\<rparr>)) (mResult q)
         else Some (go (q\<lparr>mResult := None\<rparr>)))"

definition s_ifTrueStatement :: "proc \<Rightarrow> proc" where
  "s_ifTrueStatement p =
     (let (q, els) = src_keyword ''else'' (src_skip p)
      in if els
         then let (r, elif) = src_keyword ''if'' (src_skip (q\<lparr>mSkipping := (mOlder q = None)\<rparr>))
              in if elif
                 then let (s, par) = src_nextCodeIf (CHR ''('') r
                      in if \<not> par then exitWithSyntaxError (''missing '' @ SQUOTE # ''('' @ SQUOTE # '' after '' @ SQUOTE # ''else if'' @ [SQUOTE]) s
                         else resumeAt S_expression (push S_ifCondition (s\<lparr>mResult := mOlder s\<rparr>))
                 else resumeAt S_oneStatement r
         else resume (pop q))"

section \<open>foreach\<close>

definition newIterator :: "heap \<Rightarrow> val \<Rightarrow> iterator" where
  "newIterator h v =
     \<lparr>itObj = v,
      itNames = (case v of VRef _ a \<Rightarrow> (case h ! a of HObj m \<Rightarrow> Some (map fst m) | HVars m \<Rightarrow> Some (map fst m) | HArr _ \<Rightarrow> None) | _ \<Rightarrow> None),
      itPos = 0\<rparr>"

definition obtainValue :: "heap \<Rightarrow> iterator \<Rightarrow> val option" where
  "obtainValue h it =
     (case itNames it of
        None \<Rightarrow> if itPos it < numIndexedMembers h (itObj it) then memberAtIndex h (itObj it) (itPos it) 0 else None
      | Some ns \<Rightarrow>
          if itPos it < length ns
          then Some (case memberByName h (itObj it) (ns ! itPos it) 0 of
                       Some v \<Rightarrow> v | None \<Rightarrow> VNull ''field deleted while iterating'')
          else None)"

definition obtainKey :: "heap \<Rightarrow> iterator \<Rightarrow> val option" where
  "obtainKey h it =
     (case itNames it of
        None \<Rightarrow> if itPos it < numIndexedMembers h (itObj it) then Some (vint (int (itPos it))) else None
      | Some ns \<Rightarrow> if itPos it < length ns then Some (VStr (ns ! itPos it)) else None)"

definition advance_iterator :: "heap \<Rightarrow> iterator \<Rightarrow> iterator" where
  "advance_iterator h it =
     (case itNames it of
        None \<Rightarrow> if itPos it < numIndexedMembers h (itObj it) then it\<lparr>itPos := itPos it + 1\<rparr> else it
      | Some ns \<Rightarrow> it\<lparr>itPos := itPos it + 1\<rparr>)"

text \<open>The controller \<open>mStatementHelper\<close> points to; \<open>None\<close> for a null pointer or one to another class.\<close>

definition foreach_of :: "proc \<Rightarrow> foreach option" where
  "foreach_of p =
     (case mHelper p of
        Some i \<Rightarrow> (case pHelpers p ! i of ForEach f \<Rightarrow> Some f | ForWhile _ \<Rightarrow> None)
      | None \<Rightarrow> None)"

definition forwhile_of :: "proc \<Rightarrow> forwhile option" where
  "forwhile_of p =
     (case mHelper p of
        Some i \<Rightarrow> (case pHelpers p ! i of ForWhile f \<Rightarrow> Some f | ForEach _ \<Rightarrow> None)
      | None \<Rightarrow> None)"

definition set_helper :: "helper \<Rightarrow> proc \<Rightarrow> proc" where
  "set_helper x p = (case mHelper p of Some i \<Rightarrow> p\<lparr>pHelpers := (pHelpers p)[i := x]\<rparr> | None \<Rightarrow> p)"

definition new_helper :: "helper \<Rightarrow> proc \<Rightarrow> proc" where
  "new_helper x p = p\<lparr>pHelpers := pHelpers p @ [x], mHelper := Some (length (pHelpers p))\<rparr>"

definition as_lvalue :: "val option \<Rightarrow> val option" where
  "as_lvalue v = (case v of Some (VLval _ _ _ _) \<Rightarrow> v | _ \<Rightarrow> None)"

definition s_foreachTarget :: "penv \<Rightarrow> proc \<Rightarrow> proc option" where
  "s_foreachTarget e p =
     (let (q, as) = src_keyword ''as'' (src_skip p)
      in if \<not> as then Some (exitWithSyntaxError (''missing '' @ SQUOTE # ''as'' @ SQUOTE # '' in '' @ SQUOTE # ''foreach'' @ [SQUOTE]) q)
         else case src_identifier (src_skip q) of
                None \<Rightarrow> Some (exitWithSyntaxError (''missing variable name after '' @ SQUOTE # ''as'' @ [SQUOTE]) (src_skip q))
              | Some r0 \<Rightarrow>
                  let r = setState S_foreachLoopVar1 r0
                  in if \<not> mSkipping r
                     then do { v \<leftarrow> mResult r;
                               memberByIdentifier e (ti_lvalue OR ti_create) False
                                 ((new_helper (ForEach \<lparr>feIterator = newIterator (pHeap r) v, feLoopValue = None, feLoopKey = None\<rparr>) r)
                                  \<lparr>mResult := None\<rparr>) }
                     else Some (checkAndResume r))"

definition s_foreachLoopVar1 :: "penv \<Rightarrow> proc \<Rightarrow> proc option" where
  "s_foreachLoopVar1 e p =
     (let (q, comma) = src_nextCodeIf (CHR '','') p
      in if \<not> comma
         then if mSkipping q then Some (checkAndResumeAt S_foreachLoopStart q)
              else map_option (\<lambda>f. checkAndResumeAt S_foreachLoopStart
                     (set_helper (ForEach (f\<lparr>feLoopValue := as_lvalue (mResult q)\<rparr>)) q)) (foreach_of q)
         else case src_identifier (src_skip q) of
                None \<Rightarrow> Some (exitWithSyntaxError (''missing value variable name after '' @ SQUOTE # ''as key,'' @ [SQUOTE]) (src_skip q))
              | Some r0 \<Rightarrow>
                  let r = setState S_foreachLoopVars r0
                  in if \<not> mSkipping r
                     then do { f \<leftarrow> foreach_of r;
                               memberByIdentifier e (ti_lvalue OR ti_create) False
                                 ((set_helper (ForEach (f\<lparr>feLoopKey := as_lvalue (mResult r)\<rparr>)) r)\<lparr>mResult := None\<rparr>) }
                     else Some (checkAndResume r))"

definition s_foreachLoopVars :: "proc \<Rightarrow> proc option" where
  "s_foreachLoopVars p =
     (if mSkipping p then Some (checkAndResumeAt S_foreachLoopStart p)
      else map_option (\<lambda>f. checkAndResumeAt S_foreachLoopStart
             (set_helper (ForEach (f\<lparr>feLoopValue := as_lvalue (mResult p)\<rparr>)) p)) (foreach_of p))"

definition s_foreachBody :: "proc \<Rightarrow> proc" where
  "s_foreachBody p = checkAndResumeAt S_oneStatement (push S_foreachStatement p)"

definition s_foreachLoopStart :: "proc \<Rightarrow> proc option" where
  "s_foreachLoopStart p =
     (if mSkipping p then Some (s_foreachBody p)
      else map_option (\<lambda>f. resumeAt S_foreachLoopIteration
             (set_helper (ForEach (f\<lparr>feIterator := (feIterator f)\<lparr>itPos := 0\<rparr>\<rparr>)) p)) (foreach_of p))"

definition s_foreachLoopIteration :: "proc \<Rightarrow> proc option" where
  "s_foreachLoopIteration p =
     (case foreach_of p of
        None \<Rightarrow> None
      | Some f \<Rightarrow>
          (case obtainValue (pHeap p) (feIterator f) of
             Some v \<Rightarrow>
               assign_resume (feLoopValue f) (Some v)
                 (setState (if feLoopKey f \<noteq> None then S_foreachKeyNeeded else S_foreachBody) (p\<lparr>mResult := Some v\<rparr>))
           | None \<Rightarrow> Some (s_foreachBody (p\<lparr>mResult := None, mSkipping := True\<rparr>))))"

definition s_foreachKeyNeeded :: "proc \<Rightarrow> proc option" where
  "s_foreachKeyNeeded p =
     (case foreach_of p of
        None \<Rightarrow> None
      | Some f \<Rightarrow> assign_resume (feLoopKey f) (obtainKey (pHeap p) (feIterator f)) (setState S_foreachBody p))"

definition s_foreachStatement :: "proc \<Rightarrow> proc option" where
  "s_foreachStatement p =
     (if mSkipping p then Some (checkAndResume (pop p))
      else map_option (\<lambda>f. resumeAt S_foreachLoopIteration (set_pos (cpos (mPoppedSrc p))
             (set_helper (ForEach (f\<lparr>feIterator := advance_iterator (pHeap p) (feIterator f)\<rparr>)) p))) (foreach_of p))"

section \<open>while and for\<close>

definition s_loopInit :: "proc \<Rightarrow> proc option" where
  "s_loopInit p =
     map_option (\<lambda>f. resumeAt S_expression (push S_loopCondition
       (set_helper (ForWhile (f\<lparr>fwCondition := cpos (mSrc p)\<rparr>)) p))) (forwhile_of p)"

definition s_loopBody :: "penv \<Rightarrow> proc \<Rightarrow> proc option" where
  "s_loopBody e p =
     do { f \<leftarrow> forwhile_of p;
          q \<leftarrow> (if \<not> mSkipping p then map_option (\<lambda>r. p\<lparr>mSkipping := \<not> boolValue (pe e) r\<rparr>) (mOlder p) else Some p);
          Some (checkAndResumeAt S_oneStatement (push S_loopBodyDone (set_helper (ForWhile (f\<lparr>fwBody := cpos (mSrc q)\<rparr>)) q))) }"

definition s_loopCondition :: "penv \<Rightarrow> proc \<Rightarrow> proc option" where
  "s_loopCondition e p0 =
     (let p = src_skip p0
      in do { f \<leftarrow> forwhile_of p;
              if fwIsFor f
              then let (q, semi) = src_nextIf (CHR '';'') p
                   in if \<not> semi then Some (exitWithSyntaxError (''missing '' @ SQUOTE # '';'' @ SQUOTE # '' after '' @ SQUOTE # ''for'' @ SQUOTE # '' condition'') q)
                      else let r = src_skip q
                           in Some (resumeAt S_oneStatement ((push S_loopNext
                                (set_helper (ForWhile (f\<lparr>fwNext := cpos (mSrc r)\<rparr>)) r))\<lparr>mSkipping := True\<rparr>))
              else let (q, close) = src_nextCodeIf (CHR '')'') p
                   in if \<not> close then Some (exitWithSyntaxError (''missing '' @ SQUOTE # '')'' @ SQUOTE # '' after '' @ SQUOTE # ''while'' @ SQUOTE # '' condition'') q)
                      else s_loopBody e (q\<lparr>mOlder := mResult q\<rparr>) })"

definition s_loopNext :: "penv \<Rightarrow> proc \<Rightarrow> proc option" where
  "s_loopNext e p =
     (let (q, close) = src_nextCodeIf (CHR '')'') p
      in if \<not> close
         then Some (exitWithSyntaxError (''missing '' @ SQUOTE # '')'' @ SQUOTE # '' after '' @ SQUOTE # ''for'' @ SQUOTE # '' end-of-loop statement'') q)
         else s_loopBody e q)"

definition s_loopEnd :: "penv \<Rightarrow> proc \<Rightarrow> proc option" where
  "s_loopEnd e p =
     (let done = (\<lambda>q. checkAndResume (pop (q\<lparr>mSrc := mPoppedSrc q\<rparr>)))
      in if \<not> mSkipping p
         then do { r \<leftarrow> mResult p;
                   if boolValue (pe e) r
                   then map_option (\<lambda>f. checkAndResumeAt S_oneStatement (push S_loopBodyDone (set_pos (fwBody f) p))) (forwhile_of p)
                   else Some (done p) }
         else Some (done p))"

definition s_loopRecheck :: "penv \<Rightarrow> proc \<Rightarrow> proc option" where
  "s_loopRecheck e p =
     (if \<not> mSkipping p
      then map_option (\<lambda>f. resumeAt S_expression (set_pos (fwCondition f) (push_popped S_loopEnd p))) (forwhile_of p)
      else s_loopEnd e (p\<lparr>mPoppedSrc := mSrc p\<rparr>))"

definition s_loopBodyDone :: "penv \<Rightarrow> proc \<Rightarrow> proc option" where
  "s_loopBodyDone e p =
     (if \<not> mSkipping p
      then do { f \<leftarrow> forwhile_of p;
                if fwIsFor f then Some (checkAndResumeAt S_oneStatement (set_pos (fwNext f) (push S_loopRecheck p)))
                else s_loopRecheck e (p\<lparr>mPoppedSrc := mSrc p\<rparr>) }
      else s_loopRecheck e (p\<lparr>mPoppedSrc := mSrc p\<rparr>))"

section \<open>try and catch\<close>

definition s_tryStatement :: "penv \<Rightarrow> proc \<Rightarrow> proc option" where
  "s_tryStatement e p0 =
     (let (p1, catch) = src_keyword ''catch'' (src_skip p0)
      in if \<not> catch then Some (exitWithSyntaxError (''missing '' @ SQUOTE # ''catch'' @ SQUOTE # '' after '' @ SQUOTE # ''try'' @ [SQUOTE]) p1)
         else let p2 = setState S_oneStatement
                         (src_skip (p1\<lparr>mSkipping := (case mOlder p1 of Some v \<Rightarrow> \<not> isErr v | None \<Rightarrow> True)\<rparr>));
                  (p3, as) = src_keyword ''as'' p2
              in if as
                 then case src_identifier (src_skip p3) of
                        None \<Rightarrow> Some (exitWithSyntaxError (''missing error variable name after '' @ SQUOTE # ''as'' @ [SQUOTE]) (src_skip p3))
                      | Some q \<Rightarrow>
                          if \<not> mSkipping q
                          then memberByIdentifier e (ti_lvalue OR ti_create OR ti_threadlocal) False
                                 ((setState S_nothrowResult (push S_assignOlder (push_current (q\<lparr>mResult := mOlder q\<rparr>))))
                                  \<lparr>mResult := None\<rparr>)
                          else Some (checkAndResume q)
                 else Some (checkAndResume p3))"

section \<open>Concurrent blocks\<close>

definition s_concurrent_var :: "penv \<Rightarrow> proc \<Rightarrow> proc option" where
  "s_concurrent_var e p0 =
     (case parseIdentifier (mSrc p0) False of
        None \<Rightarrow> Some (exitWithSyntaxError ''variable name expected'' p0)
      | Some (nm, _, c) \<Rightarrow>
          (case mResult p0 of
             Some (VRef _ a) \<Rightarrow>
               let p1 = src_skip ((push S_concurrent_var_value (p0\<lparr>mSrc := c\<rparr>))\<lparr>mResult := Some (name_lvalue a nm None)\<rparr>);
                   opos = cpos (mSrc p1); (q, op) = src_operator p1
               in if op = plain op_assign \<or> op = plain op_assignOrEq
                  then Some (resumeAt S_expression (push S_concurrent_var_value q))
                  else let r = setState S_concurrent_var_value ((set_pos opos q)\<lparr>mIdentifier := nm\<rparr>)
                       in memberByIdentifier e 0 False (r\<lparr>mOlder := mResult r, mResult := None\<rparr>)
           | _ \<Rightarrow> None))"

definition concurrent_var_assigned :: "proc \<Rightarrow> proc" where
  "concurrent_var_assigned p =
     (let q = pop p; (r, comma) = src_nextCodeIf (CHR '','') (q\<lparr>mResult := mOlder q\<rparr>)
      in if comma then resumeAt S_concurrent_var (src_skip r) else popWithValidResult True r)"

definition s_concurrent_var_value :: "proc \<Rightarrow> proc option" where
  "s_concurrent_var_value p =
     (case mOlder p of
        None \<Rightarrow> None
      | Some l \<Rightarrow> Some (concurrent_var_assigned (p\<lparr>pHeap := fst (assignLValue (pHeap p) l (mResult p))\<rparr>)))"

definition s_concurrent :: "proc \<Rightarrow> proc" where
  "s_concurrent p0 =
     (let (p1, as) = src_keyword ''as'' (p0\<lparr>mIdentifier := []\<rparr>);
          p2 = (if as then (case src_identifier (src_skip p1) of Some q \<Rightarrow> src_skip q | None \<Rightarrow> src_skip p1) else p1);
          (p3, brace) = src_nextIf (CHR ''{'') p2
      in if \<not> brace then exitWithSyntaxError (''missing '' @ SQUOTE # ''{'' @ SQUOTE # '' to start concurrent block'') p3
         else let vars = mResult p3; q = setState S_block (p3\<lparr>mResult := None\<rparr>)
              in if \<not> mSkipping q then startBlockThreadAndStoreInIdentifier vars (q\<lparr>mSkipping := True\<rparr>)
                 else checkAndResume q)"

section \<open>Statements\<close>

definition s_noStatement :: "proc \<Rightarrow> proc" where
  "s_noStatement p =
     (let (q, semi) = src_nextCodeIf (CHR '';'') p
      in checkAndResume (pop (if semi then q else set_pos (cpos (mSrc p)) q)))"

text \<open>The three forms of \<open>processVarDefs\<close> after the identifier: with an initializer, with a default, without a value.\<close>

definition processVarDefs :: "penv \<Rightarrow> TypeInfo \<Rightarrow> bool \<Rightarrow> proc \<Rightarrow> proc option" where
  "processVarDefs e f allow p0 =
     (case src_identifier (src_skip p0) of
        None \<Rightarrow> Some (exitWithSyntaxError (''missing variable name after '' @ SQUOTE # cstr (mIdentifier p0) @ [SQUOTE]) (src_skip p0))
      | Some p1 \<Rightarrow>
          let p = push_current p1
          in if has_flag f ti_unset then assignOrAccess e 0 (p\<lparr>mPending := plain op_delete\<rparr>)
             else let (q, op) = src_operator (src_skip p)
                  in if op = plain op_assign \<or> op = plain op_assignOrEq
                     then if \<not> allow
                          then Some (exitWithSyntaxError (''no assigmnent allowed, use '' @ SQUOTE # ''default'' @ SQUOTE # '' for initializing globals'') q)
                          else memberByIdentifier e f False (setState S_assignExpression (q\<lparr>mPending := op\<rparr>))
                     else if op = plain op_none
                     then let (r, dflt) = src_keyword ''default'' q
                          in if dflt
                             then memberByIdentifier e (f OR ti_onlycreate) True
                                    (setState S_assignDefault
                                      (r\<lparr>mSkipping := (if isCompiler r then False else mSkipping r), mPending := plain op_assign\<rparr>))
                             else memberByIdentifier e f False
                                    ((setState S_nothrowResult (push S_assignOlder
                                       (r\<lparr>mResult := Some (VNull (if has_flag f ti_global then ''uninitialized global'' else ''uninitialized variable''))\<rparr>)))
                                     \<lparr>mResult := None\<rparr>)
                     else Some (exitWithSyntaxError ''assignment or end of statement expected'' q))"

definition expression_statement :: "proc \<Rightarrow> proc" where
  "expression_statement p = resumeAt S_assignmentExpression (push S_result (push_current p))"

definition break_statement :: "proc \<Rightarrow> proc" where
  "break_statement p =
     (case skipUntilReaching (if foreach_of p \<noteq> None then S_foreachStatement else S_loopBodyDone) None p of
        None \<Rightarrow> exitWithSyntaxError (SQUOTE # ''break'' @ SQUOTE # '' must be within '' @ SQUOTE # ''while'' @ SQUOTE # '', '' @ SQUOTE # ''for'' @ SQUOTE # '' or '' @ SQUOTE # ''foreach'' @ SQUOTE # '' statement'') p
      | Some q \<Rightarrow> checkAndResume q)"

definition continue_statement :: "proc \<Rightarrow> proc" where
  "continue_statement p =
     (case unWindStackTo (if foreach_of p \<noteq> None then S_foreachStatement else S_loopBodyDone) p of
        None \<Rightarrow> exitWithSyntaxError (SQUOTE # ''continue'' @ SQUOTE # '' must be within '' @ SQUOTE # ''while'' @ SQUOTE # '', '' @ SQUOTE # ''for'' @ SQUOTE # '' or '' @ SQUOTE # ''foreach'' @ SQUOTE # '' statement'') p
      | Some q \<Rightarrow> checkAndResume q)"

text \<open>\<open>line\<close> is the line the keyword began on.\<close>

definition return_statement :: "nat \<Rightarrow> proc \<Rightarrow> proc" where
  "return_statement line p =
     (if \<not> EOT (mSrc p) \<and> src_c p \<noteq> CHR '';'' \<and> lineno (mSrc p) = line
      then checkAndResumeAt S_expression (if mSkipping p then push S_result (push_current p) else push S_complete p)
      else if \<not> mSkipping p then complete (Some (VNull ''return nothing'')) (p\<lparr>mResult := Some (VNull ''return nothing'')\<rparr>)
      else checkAndResume p)"

definition concurrent_statement :: "proc \<Rightarrow> proc" where
  "concurrent_statement p0 =
     (let (p, passing) = src_keyword ''passing'' ((push_current (src_skip p0))\<lparr>mResult := None\<rparr>)
      in if passing
         then resume (setState S_concurrent_var (push S_concurrent (src_skip (new_container True (HVars []) p))))
         else resume (setState S_concurrent p))"

definition for_statement :: "proc \<Rightarrow> proc" where
  "for_statement p =
     (let (q, par) = src_nextIf (CHR ''('') p
      in if \<not> par then exitWithSyntaxError (''missing '' @ SQUOTE # ''('' @ SQUOTE # '' after '' @ SQUOTE # ''for'' @ [SQUOTE]) q
         else resumeAt S_oneStatement (push S_loopInit
                (new_helper (ForWhile \<lparr>fwCondition = null_pos, fwNext = null_pos, fwBody = null_pos, fwIsFor = True\<rparr>)
                  (src_skip (push_current q)))))"

definition while_statement :: "proc \<Rightarrow> proc" where
  "while_statement p =
     (let (q, par) = src_nextIf (CHR ''('') p
      in if \<not> par then exitWithSyntaxError (''missing '' @ SQUOTE # ''('' @ SQUOTE # '' after '' @ SQUOTE # ''while'' @ [SQUOTE]) q
         else resumeAt S_expression (push S_loopCondition
                (new_helper (ForWhile \<lparr>fwCondition = cpos (mSrc q), fwNext = null_pos, fwBody = null_pos, fwIsFor = False\<rparr>)
                  (push_current q))))"

definition if_statement :: "proc \<Rightarrow> proc" where
  "if_statement p =
     (let (q, par) = src_nextIf (CHR ''('') p
      in if \<not> par then exitWithSyntaxError (''missing '' @ SQUOTE # ''('' @ SQUOTE # '' after '' @ SQUOTE # ''if'' @ [SQUOTE]) q
         else resumeAt S_expression (push S_ifCondition (push_current q)))"

text \<open>\<open>global function\<close>, \<open>global on\<close> and \<open>global\<close> variables.\<close>

definition global_statement :: "penv \<Rightarrow> proc \<Rightarrow> proc option" where
  "global_statement e p =
     (let (q, fn) = src_keyword ''function'' (src_skip p)
      in if fn then Some (processFunction True q)
         else let (r, on) = src_keyword ''on'' q
              in if on then Some (processOnHandler True r)
                 else processVarDefs e (ti_lvalue OR ti_create OR ti_global) False r)"

definition local_statement :: "proc \<Rightarrow> proc" where
  "local_statement p =
     (let (q, fn) = src_keyword ''function'' (src_skip p)
      in if fn then processFunction False q
         else exitWithSyntaxError (''missing '' @ SQUOTE # ''function'' @ SQUOTE # '' keyword'') q)"

text \<open>
  After a keyword: \<open>memPos\<close> is the position of the identifier. A skipped \<open>break\<close> or \<open>continue\<close> is
  not taken as a keyword, but as an expression.
\<close>

definition keyword_statement :: "penv \<Rightarrow> srcpos \<Rightarrow> proc \<Rightarrow> proc option" where
  "keyword_statement e memPos p =
     (let kw = uequals (mIdentifier p)
      in if kw ''if'' then Some (if_statement p)
         else if kw ''foreach'' then Some (resumeAt S_expression (push S_foreachTarget (push_current p)))
         else if kw ''for'' then Some (for_statement p)
         else if kw ''while'' then Some (while_statement p)
         else if kw ''break'' \<and> \<not> mSkipping p then Some (break_statement p)
         else if kw ''continue'' \<and> \<not> mSkipping p then Some (continue_statement p)
         else if kw ''return'' then Some (return_statement (pline memPos) p)
         else if kw ''try'' then Some (resumeAt S_oneStatement (push S_tryStatement (push_current p)))
         else if kw ''catch''
         then Some (exitWithSyntaxError (SQUOTE # ''catch'' @ SQUOTE # '' without preceeding '' @ SQUOTE # ''try'' @ [SQUOTE]) p)
         else if kw ''concurrent'' then Some (concurrent_statement p)
         else if kw ''var'' then processVarDefs e (ti_lvalue OR ti_create) True p
         else if kw ''threadvar'' then processVarDefs e (ti_lvalue OR ti_create OR ti_threadlocal) True p
         else if kw ''global'' then global_statement e p
         else if kw ''glob'' then processVarDefs e (ti_lvalue OR ti_create OR ti_global) False p
         else if kw ''let'' then Some (expression_statement (src_skip p))
         else if kw ''unset'' then processVarDefs e ti_unset False p
         else if kw ''local'' then Some (local_statement p)
         else if kw ''on'' then Some (processOnHandler False p)
         else if kw ''else''
         then Some (exitWithSyntaxError (SQUOTE # ''else'' @ SQUOTE # '' without preceeding '' @ SQUOTE # ''if'' @ [SQUOTE]) p)
         else if kw ''function'' then Some (processFunction True p)
         else if kw ''include'' then Some (resumeAt S_expression (push S_include (push_current (src_skip p))))
         else Some (expression_statement (set_pos memPos p)))"

definition end_of_code :: "proc \<Rightarrow> proc" where
  "end_of_code p =
     (if mState p = Some S_included then let q = pop p in resume (q\<lparr>mSrc := mPoppedSrc q\<rparr>)
      else if mState p \<noteq> Some S_body then exitWithSyntaxError ''unexpected end of code'' p
      else complete (if has_flag (mFlags p) ef_implicitreturn then mResult p else None) p)"

text \<open>A single statement ends after it: \<open>s_oneStatement\<close> becomes \<open>s_noStatement\<close>.\<close>

definition only_one :: "proc \<Rightarrow> proc" where
  "only_one p = (if mState p = Some S_oneStatement then setState S_noStatement p else p)"

definition begin_statement :: "penv \<Rightarrow> proc \<Rightarrow> proc option" where
  "begin_statement e p0 =
     (let p = (only_one p0)\<lparr>mResult := None\<rparr>
      in case src_identifier p of
           Some q \<Rightarrow> keyword_statement e (cpos (mSrc p)) (src_skip q)
         | None \<Rightarrow> Some (expression_statement p))"

definition processStatement :: "penv \<Rightarrow> proc \<Rightarrow> proc option" where
  "processStatement e p0 =
     (let p = src_skip p0
      in if EOT (mSrc p) then Some (end_of_code p)
         else let (q, open) = src_nextIf (CHR ''{'') p
              in if open then Some (resumeAt S_block (push_current (only_one q)))
         else let (r, close) = src_nextIf (CHR ''}'') p
              in if close
                 then Some (if mState r = Some S_block then checkAndResume (pop r) else exitWithSyntaxError (''unexpected '' @ SQUOTE # ''}'' @ [SQUOTE]) r)
         else let (s, semi) = src_nextIf (CHR '';'') p
              in if semi then if mState s = Some S_oneStatement then Some (checkAndResume s)
                              else begin_statement e (src_skip s)
                 else begin_statement e p)"

function skip_semicolons :: "cursor \<Rightarrow> cursor" where
  "skip_semicolons c =
     (let d = skipNonCode c in if cursor_c d 0 = CHR '';'' then skip_semicolons (nxt d) else d)"
  by pat_completeness auto
termination
  by (relation "measure (\<lambda>c. peot (cpos c) - ptr c)")
     (auto intro!: less_le_trans [OF left_nxt left_forward])

declare skip_semicolons.simps [simp del]

definition s_declarations :: "proc \<Rightarrow> proc" where
  "s_declarations p = startOfBodyCode (setState S_body (p\<lparr>mSrc := skip_semicolons (mSrc p)\<rparr>))"

section \<open>The handlers\<close>

fun handler :: "penv \<Rightarrow> pstate \<Rightarrow> proc \<Rightarrow> proc option" where
  "handler e S_objectfield p = s_objectfield e p"
| "handler e S_varobjectfield p = s_varobjectfield e p"
| "handler e S_objectfieldlvalue p = Some (s_objectfieldlvalue p)"
| "handler e S_objectfieldvalue p = s_objectfieldvalue p"
| "handler e S_objectfielddone p = Some (s_objectfielddone p)"
| "handler e S_arrayelementdone p = s_arrayelementdone p"
| "handler e S_simpleTerm p = s_simpleTerm e p"
| "handler e S_member p = s_member e p"
| "handler e S_subscriptArg p = s_subscriptArg e p"
| "handler e S_nextSubscript p = Some (s_nextSubscript p)"
| "handler e S_funcArg p = s_funcArg p"
| "handler e S_funcContext p = Some (s_funcContext p)"
| "handler e S_funcExec p = s_funcExec p"
| "handler e S_assignmentExpression p = Some (s_assignmentExpression p)"
| "handler e S_expression p = Some (s_expression p)"
| "handler e S_subExpression p = Some (s_subExpression p)"
| "handler e S_groupedExpression p = Some (s_groupedExpression p)"
| "handler e S_exprFirstTerm p = Some (s_exprFirstTerm e p)"
| "handler e S_exprLeftSide p = Some (s_exprLeftSide p)"
| "handler e S_exprRightSide p = s_exprRightSide e p"
| "handler e S_assignDefault p = s_assignDefault p"
| "handler e S_assignExpression p = s_assignExpression p"
| "handler e S_compoundAssignment p = Some (s_compoundAssignment p)"
| "handler e S_assignOlder p = s_assignOlder p"
| "handler e S_checkAndAssignLvalue p = Some (s_checkAndAssignLvalue p)"
| "handler e S_assignLvalue p = s_assignLvalue p"
| "handler e S_unsetMember p = s_unsetMember p"
| "handler e S_block p = processStatement e p"
| "handler e S_noStatement p = Some (s_noStatement p)"
| "handler e S_oneStatement p = processStatement e p"
| "handler e S_body p = processStatement e p"
| "handler e S_included p = processStatement e p"
| "handler e S_ifCondition p = s_ifCondition e p"
| "handler e S_ifTrueStatement p = Some (s_ifTrueStatement p)"
| "handler e S_foreachTarget p = s_foreachTarget e p"
| "handler e S_foreachLoopVar1 p = s_foreachLoopVar1 e p"
| "handler e S_foreachLoopVars p = s_foreachLoopVars p"
| "handler e S_foreachLoopStart p = s_foreachLoopStart p"
| "handler e S_foreachLoopIteration p = s_foreachLoopIteration p"
| "handler e S_foreachKeyNeeded p = s_foreachKeyNeeded p"
| "handler e S_foreachBody p = Some (s_foreachBody p)"
| "handler e S_foreachStatement p = s_foreachStatement p"
| "handler e S_loopInit p = s_loopInit p"
| "handler e S_loopCondition p = s_loopCondition e p"
| "handler e S_loopNext p = s_loopNext e p"
| "handler e S_loopBody p = s_loopBody e p"
| "handler e S_loopBodyDone p = s_loopBodyDone e p"
| "handler e S_loopRecheck p = s_loopRecheck e p"
| "handler e S_loopEnd p = s_loopEnd e p"
| "handler e S_tryStatement p = s_tryStatement e p"
| "handler e S_concurrent_var p = s_concurrent_var e p"
| "handler e S_concurrent_var_value p = s_concurrent_var_value p"
| "handler e S_concurrent p = Some (s_concurrent p)"
| "handler e S_declarations p = Some (s_declarations p)"
| "handler e (S_defineFunction g) p = defineFunction g p"
| "handler e (S_defineTrigger g) p = Some (defineTrigger e g p)"
| "handler e (S_defineHandler g) p = defineHandler g p"
| "handler e S_include p = s_include e p"
| "handler e S_result p = Some (s_result p)"
| "handler e S_nothrowResult p = Some (s_nothrowResult p)"
| "handler e S_validResult p = Some (s_validResult p)"
| "handler e S_validResultCheck p = Some (s_validResultCheck p)"
| "handler e S_uncheckedResult p = Some (s_uncheckedResult p)"
| "handler e S_complete p = Some (s_complete p)"

end
