(* ===== verification/ScriptMachine.thy ===== *)
theory ScriptMachine
  imports ScriptStmt
begin

text \<open>
  How the source processor runs: one step, the step loops of compiler and thread, starting, resuming
  from outside and aborting, and the thread as a step relation over these and the answers to its requests.
\<close>

section \<open>Steps and loops\<close>

definition step :: "penv \<Rightarrow> proc \<Rightarrow> proc option" where
  "step e p =
     (case mState p of
        None \<Rightarrow> Some (complete (mResult p) p)
      | Some s \<Rightarrow> handler e s p)"

text \<open>\<open>SourceProcessor::stepLoop\<close>; the loop of a compiler has no limit.\<close>

partial_function (option) sp_stepLoop :: "penv \<Rightarrow> proc \<Rightarrow> proc option" where
  "sp_stepLoop e p =
     (case step e (p\<lparr>mResumed := False\<rparr>) of
        None \<Rightarrow> None
      | Some q \<Rightarrow> if mResumed q \<and> \<not> mAborted q then sp_stepLoop e q else Some q)"

text \<open>
  \<open>ScriptCodeThread::stepLoop\<close> with the number of steps it can do until a time limit is found exceeded
  and the limit that is: the overall run time, or the time it may block. In the latter case an
  asynchronous thread returns unchanged and is resumed by a timer.
\<close>

datatype expiry = RunTime | BlockTime

definition timed_out :: "expiry \<Rightarrow> proc \<Rightarrow> proc" where
  "timed_out x p =
     (case x of
        RunTime \<Rightarrow> complete (Some (err_pos_value (mSrc p) E_Timeout ''Aborted because of overall execution time limit'')) p
      | BlockTime \<Rightarrow>
          if has_flag (mFlags p) ef_synchronously
          then complete (Some (err_pos_value (mSrc p) E_Timeout ''Aborted because of synchronous execution time limit'')) p
          else p)"

fun thread_stepLoop :: "penv \<Rightarrow> expiry \<Rightarrow> nat \<Rightarrow> proc \<Rightarrow> proc option" where
  "thread_stepLoop e x 0 p = Some (timed_out x p)"
| "thread_stepLoop e x (Suc n) p =
     (case step e (p\<lparr>mResumed := False\<rparr>) of
        None \<Rightarrow> None
      | Some q \<Rightarrow> if mResumed q \<and> \<not> mAborted q then thread_stepLoop e x n q else Some q)"

section \<open>Starting, resuming, aborting\<close>

text \<open>\<open>resume\<close> from outside, with the step loop as an argument.\<close>

definition enter :: "(proc \<Rightarrow> proc option) \<Rightarrow> proc \<Rightarrow> proc option" where
  "enter loop p =
     (if mResuming p then Some (resume p)
      else if mAborted p then Some (complete (mResult p) p)
      else map_option (\<lambda>q. q\<lparr>mResuming := False\<rparr>) (loop (p\<lparr>mResuming := True\<rparr>)))"

definition initProcessing :: "u32 \<Rightarrow> proc \<Rightarrow> proc" where
  "initProcessing f p = p\<lparr>mFlags := f\<rparr>"

definition start_state :: "proc \<Rightarrow> proc" where
  "start_state p0 =
     (let p = p0\<lparr>mStack := [], mSkipping := has_flag (mFlags p0) ef_scanning\<rparr>;
          q = (if has_flag (mFlags p) ef_expression then setState S_expression p
               else if has_flag (mFlags p) ef_scriptbody then setState S_body p
               else if has_flag (mFlags p) ef_sourcecode then setState S_declarations p
               else if has_flag (mFlags p) ef_block then setState S_block p
               else complete (Some (err_value E_Internal ''no processing scope defined'')) p)
      in (push S_complete q)\<lparr>mResult := None, mOlder := None, mResuming := False\<rparr>)"

definition start :: "(proc \<Rightarrow> proc option) \<Rightarrow> proc \<Rightarrow> proc option" where
  "start loop p = enter loop (start_state p)"

definition run :: "(proc \<Rightarrow> proc option) \<Rightarrow> proc \<Rightarrow> proc option" where
  "run loop p = start loop (p\<lparr>mRunning := True\<rparr>)"

text \<open>
  \<open>ScriptCompiler::compile\<close>: scanning only, from the beginning of the source; the result is an error
  or the cursor for the code object.
\<close>

definition compile :: "penv \<Rightarrow> source \<Rightarrow> u32 \<Rightarrow> proc \<Rightarrow> (proc \<times> (val + cursor)) option" where
  "compile e src f p =
     (let mode = (f AND NOT ef_runModeMask) OR ef_scanning OR (f AND ef_checking);
          c = container_cursor src
      in map_option (\<lambda>q.
           (q, if mCompletedCB q
               then Inl (err_value E_Internal ''Fatal: compiler execution not synchronous!'')
               else case mResult q of
                      Some r \<Rightarrow> if isErr r then Inl r else Inr c
                    | None \<Rightarrow> Inr c))
           (start (sp_stepLoop e) (initProcessing mode (p\<lparr>mSrc := c, mCompletedCB := True\<rparr>))))"

definition sp_abort :: "val option \<Rightarrow> proc \<Rightarrow> proc" where
  "sp_abort v p = (case v of Some _ \<Rightarrow> p\<lparr>mResult := v, mAborted := True\<rparr> | None \<Rightarrow> p\<lparr>mAborted := True\<rparr>)"

text \<open>
  \<open>ScriptCodeThread::abort\<close>. A chained context answers with the abort result while something runs in it,
  by the callback of the call. Without an abort result the code dereferences null.
\<close>

definition thread_abort :: "penv \<Rightarrow> (proc \<Rightarrow> proc option) \<Rightarrow> bool \<Rightarrow> val option \<Rightarrow> proc \<Rightarrow> proc option" where
  "thread_abort e loop child_runs v p =
     (if \<not> mRunning p then Some p
      else case v of
             None \<Rightarrow> None
           | Some x \<Rightarrow>
               let w = calculationValue p x; q = sp_abort w p
               in if mChained q \<noteq> None
                  then if child_runs then enter loop (take_call_result w q) else Some q
                  else Some (complete w q))"

section \<open>The thread\<close>

text \<open>
  A thread makes steps while it is resumed; between them the outside answers its requests: the function
  it called gives a result, a thread it started has yielded, or has ended with a value, a time limit is found exceeded, or it is
  aborted. Other code that ran in between may have changed the heap and added to it.
\<close>

inductive thread_step :: "penv \<Rightarrow> proc \<Rightarrow> proc \<Rightarrow> bool" for e where
  one_step: "step e (p\<lparr>mResumed := False\<rparr>) = Some q \<Longrightarrow> thread_step e p q"
| called: "mChained p \<noteq> None \<Longrightarrow> length (pHeap p) \<le> length h \<Longrightarrow>
     thread_step e p (executedResult v (p\<lparr>mRequest := None, pHeap := h\<rparr>))"
| forked: "mRequest p = Some (RThread i) \<Longrightarrow> length (pHeap p) \<le> length h \<Longrightarrow>
     thread_started e (p\<lparr>mRequest := None, pHeap := h\<rparr>) = Some q \<Longrightarrow> thread_step e p q"
| initialised: "mRequest p = Some (RTrigger i) \<Longrightarrow> length (pHeap p) \<le> length h \<Longrightarrow> thread_step e p (p\<lparr>mRequest := None, pHeap := h\<rparr>)"
| timer: "thread_step e p (timed_out x p)"
| exited: "i < length (pObjects p) \<Longrightarrow> thread_step e p (thread_value_event i v p)"
| aborted: "mRunning p \<Longrightarrow> mChained p = None \<Longrightarrow> thread_step e p (complete v (sp_abort v p))"

inductive_cases thread_stepE: "thread_step e p q"

inductive reachable :: "penv \<Rightarrow> proc \<Rightarrow> proc \<Rightarrow> bool" for e p where
  refl: "reachable e p p"
| trans: "reachable e p q \<Longrightarrow> thread_step e q r \<Longrightarrow> reachable e p r"

text \<open>A new thread of a context, ready to run the code at a cursor.\<close>

definition new_thread :: "cursor \<Rightarrow> u32 \<Rightarrow> val option \<Rightarrow> proc" where
  "new_thread c f vars =
     \<lparr>isCompiler = False, mAborted = False, mResuming = False, mResumed = False, mCompletedCB = True, mFlags = f,
      mSrc = c, mPoppedSrc = null_cursor, mHelper = None, mState = None, mResult = None, mOlder = None, mPrec = 0,
      mPending = plain op_none, mFunc = None, mSkipping = False, mIdentifier = [], mStack = [],
      mThreadLocals = vars, mRunning = False, mOwned = True, mChained = None, mRequest = None,
      mDelivered = [], mEvents = [], mTerminated = 0,
      pHeap = [HVars [], HVars []], pHelpers = [], pCalls = [], pObjects = [], pHandlers = [],
      pLocals = None, pMain = 0, pDomain = 1, pThis = None\<rparr>"

definition new_compiler :: proc where
  "new_compiler = (new_thread null_cursor 0 None)\<lparr>isCompiler := True, mCompletedCB := False\<rparr>"

end
