(* ===== verification/ScriptFrame.thy ===== *)
theory ScriptFrame
  imports ScriptMachine
begin

text \<open>
  What every state handler keeps: a preorder on the states of the processor that each handler goes up
  in. From it follow that a thread reports its result at most once and that tables only grow.
\<close>

section \<open>The preorder\<close>

text \<open>The pointers of the state and of its frames to statement helpers and call contexts are valid.\<close>

definition below :: "nat option \<Rightarrow> nat \<Rightarrow> bool" where
  "below x n \<longleftrightarrow> (case x of None \<Rightarrow> True | Some i \<Rightarrow> i < n)"

definition pointers_ok :: "proc \<Rightarrow> bool" where
  "pointers_ok p \<longleftrightarrow>
     below (mHelper p) (length (pHelpers p)) \<and> below (mFunc p) (length (pCalls p)) \<and>
     (\<forall>f\<in>set (mStack p). below (fHelper f) (length (pHelpers p)) \<and> below (fFunc f) (length (pCalls p)))"

lemma below_simps [simp]: "below None n" "below (Some i) n \<longleftrightarrow> i < n"
  by (simp_all add: below_def)

lemma below_mono: "below x n \<Longrightarrow> n \<le> m \<Longrightarrow> below x m"
  by (cases x) auto

definition evolves :: "proc \<Rightarrow> proc \<Rightarrow> bool" where
  "evolves p q \<longleftrightarrow>
     isCompiler q = isCompiler p \<and> mAborted q = mAborted p \<and> mResuming q = mResuming p \<and>
     length (mDelivered q) + of_bool (mCompletedCB q) = length (mDelivered p) + of_bool (mCompletedCB p) \<and>
     mTerminated q + of_bool (mOwned q) = mTerminated p + of_bool (mOwned p) \<and>
     (\<not> isCompiler p \<longrightarrow> mCompletedCB p = mOwned p \<longrightarrow> mCompletedCB q = mOwned q) \<and>
     prefix (mDelivered p) (mDelivered q) \<and>
     length (pHeap p) \<le> length (pHeap q) \<and> length (pHelpers p) \<le> length (pHelpers q) \<and>
     length (pCalls p) \<le> length (pCalls q) \<and> length (pObjects p) \<le> length (pObjects q) \<and>
     pLocals q = pLocals p \<and> pMain q = pMain p \<and> pDomain q = pDomain p \<and>
     (pointers_ok p \<longrightarrow> pointers_ok q)"

lemma evolves_refl: "evolves p p"
  by (simp add: evolves_def)

lemma evolves_trans: "evolves p q \<Longrightarrow> evolves q r \<Longrightarrow> evolves p r"
  by (auto simp: evolves_def intro: prefix_order.trans)

lemma evolves_update [simp]:
  "evolves r (p\<lparr>mState := s\<rparr>) = evolves r p" "evolves r (p\<lparr>mResult := v\<rparr>) = evolves r p"
  "evolves r (p\<lparr>mOlder := v\<rparr>) = evolves r p" "evolves r (p\<lparr>mSrc := c\<rparr>) = evolves r p"
  "evolves r (p\<lparr>mPoppedSrc := c\<rparr>) = evolves r p" "evolves r (p\<lparr>mSkipping := b\<rparr>) = evolves r p"
  "evolves r (p\<lparr>mPrec := k\<rparr>) = evolves r p" "evolves r (p\<lparr>mPending := x\<rparr>) = evolves r p"
  "evolves r (p\<lparr>mIdentifier := n\<rparr>) = evolves r p"
  "evolves r (p\<lparr>mResumed := b\<rparr>) = evolves r p" "evolves r (p\<lparr>mFlags := fl\<rparr>) = evolves r p"
  "evolves r (p\<lparr>mThreadLocals := v\<rparr>) = evolves r p" "evolves r (p\<lparr>mChained := f\<rparr>) = evolves r p"
  "evolves r (p\<lparr>mRequest := q\<rparr>) = evolves r p" "evolves r (p\<lparr>mEvents := ev\<rparr>) = evolves r p"
  "evolves r (p\<lparr>mRunning := b\<rparr>) = evolves r p" "evolves r (p\<lparr>pHandlers := hs\<rparr>) = evolves r p"
  by (simp_all add: evolves_def pointers_ok_def)

lemma evolves_pointers:
  "evolves r p \<Longrightarrow> (pointers_ok p \<Longrightarrow> pointers_ok (p\<lparr>mStack := st\<rparr>)) \<Longrightarrow> evolves r (p\<lparr>mStack := st\<rparr>)"
  "evolves r p \<Longrightarrow> (pointers_ok p \<Longrightarrow> pointers_ok (p\<lparr>mHelper := x\<rparr>)) \<Longrightarrow> evolves r (p\<lparr>mHelper := x\<rparr>)"
  "evolves r p \<Longrightarrow> (pointers_ok p \<Longrightarrow> pointers_ok (p\<lparr>mFunc := x\<rparr>)) \<Longrightarrow> evolves r (p\<lparr>mFunc := x\<rparr>)"
  by (simp_all add: evolves_def)

lemma pointers_update:
  "pointers_ok p \<Longrightarrow> pointers_ok (p\<lparr>mStack := st\<rparr>) =
     (\<forall>f\<in>set st. below (fHelper f) (length (pHelpers p)) \<and> below (fFunc f) (length (pCalls p)))"
  "pointers_ok p \<Longrightarrow> pointers_ok (p\<lparr>mHelper := x\<rparr>) = below x (length (pHelpers p))"
  "pointers_ok p \<Longrightarrow> pointers_ok (p\<lparr>mFunc := x\<rparr>) = below x (length (pCalls p))"
  by (simp_all add: pointers_ok_def)

lemma evolves_stack_update:
  assumes "evolves r p"
  shows "(pointers_ok p \<Longrightarrow> \<forall>f\<in>set st. below (fHelper f) (length (pHelpers p)) \<and> below (fFunc f) (length (pCalls p))) \<Longrightarrow>
      evolves r (p\<lparr>mStack := st\<rparr>)"
    "(pointers_ok p \<Longrightarrow> below x (length (pHelpers p))) \<Longrightarrow> evolves r (p\<lparr>mHelper := x\<rparr>)"
    "(pointers_ok p \<Longrightarrow> below x (length (pCalls p))) \<Longrightarrow> evolves r (p\<lparr>mFunc := x\<rparr>)"
  using assms by (blast intro: evolves_pointers dest: pointers_update [THEN iffD2])+

lemma evolves_reset [simp]:
  "evolves r p \<Longrightarrow> evolves r (p\<lparr>mStack := []\<rparr>)" "evolves r p \<Longrightarrow> evolves r (p\<lparr>mFunc := None\<rparr>)"
  by (rule evolves_stack_update; simp)+

lemma pointers_grow:
  "pointers_ok p \<Longrightarrow> pointers_ok (p\<lparr>pHeap := h\<rparr>)" "pointers_ok p \<Longrightarrow> pointers_ok (p\<lparr>pObjects := os\<rparr>)"
  "pointers_ok p \<Longrightarrow> length (pHelpers p) \<le> length hs \<Longrightarrow> pointers_ok (p\<lparr>pHelpers := hs\<rparr>)"
  "pointers_ok p \<Longrightarrow> length (pCalls p) \<le> length cs \<Longrightarrow> pointers_ok (p\<lparr>pCalls := cs\<rparr>)"
proof -
  assume p: "pointers_ok p"
  then show "pointers_ok (p\<lparr>pHeap := h\<rparr>)" "pointers_ok (p\<lparr>pObjects := os\<rparr>)" by (simp_all add: pointers_ok_def)
  { assume l: "length (pHelpers p) \<le> length hs"
    have "below x (length hs)" if "below x (length (pHelpers p))" for x using that l by (rule below_mono)
    with p show "pointers_ok (p\<lparr>pHelpers := hs\<rparr>)" by (simp add: pointers_ok_def) }
  { assume l: "length (pCalls p) \<le> length cs"
    have "below x (length cs)" if "below x (length (pCalls p))" for x using that l by (rule below_mono)
    with p show "pointers_ok (p\<lparr>pCalls := cs\<rparr>)" by (simp add: pointers_ok_def) }
qed

lemma evolves_grow [simp]:
  "evolves r p \<Longrightarrow> length (pHeap p) \<le> length h \<Longrightarrow> evolves r (p\<lparr>pHeap := h\<rparr>)"
  "evolves r p \<Longrightarrow> length (pHelpers p) \<le> length hs \<Longrightarrow> evolves r (p\<lparr>pHelpers := hs\<rparr>)"
  "evolves r p \<Longrightarrow> length (pCalls p) \<le> length cs \<Longrightarrow> evolves r (p\<lparr>pCalls := cs\<rparr>)"
  "evolves r p \<Longrightarrow> length (pObjects p) \<le> length os \<Longrightarrow> evolves r (p\<lparr>pObjects := os\<rparr>)"
  by (simp_all add: evolves_def pointers_grow)

lemmas src_defs = src_skip_def src_nextIf_def src_nextCodeIf_def src_keyword_def src_operator_def set_pos_def

section \<open>Stack, resuming, completing, throwing\<close>

lemma evolves_sp_complete: "evolves r p \<Longrightarrow> isCompiler p \<Longrightarrow> evolves r (sp_complete v p)"
  by (simp add: sp_complete_def Let_def split_beta) (auto simp: evolves_def pointers_ok_def)

lemma evolves_thread_complete: "evolves r p \<Longrightarrow> evolves r (thread_complete v p)"
proof -
  have "evolves p (thread_complete v p)"
    unfolding thread_complete_def sp_complete_def thread_deactivate_def deactivate_def Let_def split_beta
    by (cases "mCompletedCB p"; cases "mOwned p") (simp_all add: evolves_def pointers_ok_def)
  then show "evolves r p \<Longrightarrow> evolves r (thread_complete v p)" by (rule evolves_trans [rotated])
qed

lemma evolves_complete [simp, intro]: "evolves r p \<Longrightarrow> evolves r (complete v p)"
  by (simp add: complete_def evolves_sp_complete evolves_thread_complete)

lemma evolves_push_frame: "evolves r p \<Longrightarrow> evolves r (p\<lparr>mStack := push_frame c s p # mStack p\<rparr>)"
  by (rule evolves_stack_update) (auto simp: push_frame_def pointers_ok_def)

lemma evolves_pop_stack:
  assumes "evolves r p" "mStack p = f # st"
  shows "evolves r (pop_frame f (p\<lparr>mStack := st\<rparr>))"
  using assms by (auto simp: pop_frame_def evolves_def pointers_ok_def)

lemma evolves_stack [simp, intro]:
  "evolves r p \<Longrightarrow> evolves r (setState s p)" "evolves r p \<Longrightarrow> evolves r (resume p)"
  "evolves r p \<Longrightarrow> evolves r (resumeWith v p)" "evolves r p \<Longrightarrow> evolves r (resumeAt s p)"
  "evolves r p \<Longrightarrow> evolves r (push s p)" "evolves r p \<Longrightarrow> evolves r (push_popped s p)"
  "evolves r p \<Longrightarrow> evolves r (push_current p)" "evolves r p \<Longrightarrow> evolves r (pop p)"
  by (simp_all add: setState_def resume_def resumeWith_def resumeAt_def push_def push_popped_def push_current_def
      evolves_push_frame pop_def evolves_pop_stack split: option.splits list.splits)

lemma drop_to_set: "set (drop_to s st) \<subseteq> set st"
  by (induction s st rule: drop_to.induct) auto

lemma evolves_unwind: "unWindStackTo s p = Some q \<Longrightarrow> evolves r p \<Longrightarrow> evolves r q"
proof -
  assume a: "unWindStackTo s p = Some q" and r: "evolves r p"
  then have q: "q = pop (p\<lparr>mStack := drop_to s (mStack p)\<rparr>)" by (auto simp: unWindStackTo_def split: list.splits)
  have "evolves r (p\<lparr>mStack := drop_to s (mStack p)\<rparr>)"
    using r drop_to_set [of s "mStack p"] by (intro evolves_stack_update) (auto simp: pointers_ok_def)
  then show ?thesis by (simp add: q)
qed

lemma skip_frames_pointers:
  "skip_frames s v st = Some st' \<Longrightarrow> map fHelper st' = map fHelper st \<and> map fFunc st' = map fFunc st"
  by (induction s v st arbitrary: st' rule: skip_frames.induct) (auto split: if_splits)

lemma evolves_skipUntil: "skipUntilReaching s v p = Some q \<Longrightarrow> evolves r p \<Longrightarrow> evolves r q"
proof -
  assume a: "skipUntilReaching s v p = Some q" and r: "evolves r p"
  from a obtain st where st: "skip_frames s v (mStack p) = Some st" and q: "q = p\<lparr>mStack := st, mSkipping := True\<rparr>"
    by (auto simp: skipUntilReaching_def)
  have im: "fHelper ` set st = fHelper ` set (mStack p)" "fFunc ` set st = fFunc ` set (mStack p)"
    using skip_frames_pointers [OF st] by (metis list.set_map)+
  have "evolves r (p\<lparr>mStack := st\<rparr>)"
  proof (rule evolves_stack_update(1) [OF r], rule ballI)
    fix f
    assume ok: "pointers_ok p" and f: "f \<in> set st"
    from f im have "fHelper f \<in> fHelper ` set (mStack p)" "fFunc f \<in> fFunc ` set (mStack p)" by blast+
    with ok show "below (fHelper f) (length (pHelpers p)) \<and> below (fFunc f) (length (pCalls p))"
      by (auto simp: pointers_ok_def)
  qed
  then show ?thesis by (simp add: q)
qed

lemma evolves_throw [simp, intro]:
  "evolves r p \<Longrightarrow> evolves r (throwOrComplete v p)" "evolves r p \<Longrightarrow> evolves r (exitWithSyntaxError m p)"
  by (auto simp: throwOrComplete_def exitWithSyntaxError_def Let_def dest!: evolves_skipUntil split: option.splits)

lemma evolves_check [simp, intro]:
  "evolves r p \<Longrightarrow> evolves r (checkAndResume p)" "evolves r p \<Longrightarrow> evolves r (checkAndResumeAt s p)"
  by (auto simp: checkAndResumeAt_def checkAndResume_def sp_checkAndResume_def thread_checkAndResume_def
      split: option.splits val.splits)

lemma evolves_popWith [simp, intro]:
  "evolves r p \<Longrightarrow> evolves r (popWithValidResult b p)" "evolves r p \<Longrightarrow> evolves r (popWithResult b p)"
  by (auto simp: popWithValidResult_def popWithResult_def Let_def split: option.splits)

section \<open>Heap operations\<close>

lemma assignLValue_length: "length (fst (assignLValue h l v)) = length h"
  by (auto simp: assignLValue_def split: val.splits option.splits sum.splits)

lemma copy_elems_length:
  "\<forall>h v h' w. f h v = Some (h', w) \<longrightarrow> length h \<le> length h' \<Longrightarrow> copy_elems f a h es = Some h' \<Longrightarrow> length h \<le> length h'"
  by (induction f a h es arbitrary: h' rule: copy_elems.induct) (auto split: option.splits prod.splits; fastforce intro: le_trans)+

lemma copy_fields_length:
  "\<forall>h v h' w. f h v = Some (h', w) \<longrightarrow> length h \<le> length h' \<Longrightarrow> copy_fields f a h m = Some h' \<Longrightarrow> length h \<le> length h'"
  by (induction f a h m arbitrary: h' rule: copy_fields.induct) (auto split: option.splits prod.splits; fastforce intro: le_trans)+

lemma copy_value_length: "copy_value n h v = Some (h', w) \<Longrightarrow> length h \<le> length h'"
proof (induction n arbitrary: h v h' w)
  case (Suc n)
  then have ih: "\<forall>h v h' w. copy_value n h v = Some (h', w) \<longrightarrow> length h \<le> length h'" by blast
  show ?case
    using Suc.prems copy_elems_length [OF ih, of "length h" "h @ [HArr []]"] copy_fields_length [OF ih, of "length h" "h @ [HObj []]"]
    by (auto split: val.splits hobj.splits) (fastforce dest: Suc_leD)+
qed simp

lemma assignmentValue_length: "assignmentValue h v = Some (h', w) \<Longrightarrow> length h \<le> length h'"
  unfolding assignmentValue_def by (rule copy_value_length)

lemma fold_append_length: "length (fold (\<lambda>i g. case g ! a of HArr es \<Rightarrow> g[a := x i g es] | _ \<Rightarrow> g) is h) = length h"
  by (induction "is" arbitrary: h) (auto split: hobj.splits)

lemma val_add_length: "val_add e h l r = Some (h', w) \<Longrightarrow> length h \<le> length h'"
  by (auto simp: val_add_def append_array_def merge_object_def Let_def fold_append_length
      dest: assignmentValue_length split: val.splits bool.splits if_splits option.splits prod.splits hobj.splits)

lemma binary_result_length: "binary_result e h bop l r = Some (Inr (h', w)) \<Longrightarrow> length h \<le> length h'"
  by (auto simp: binary_result_def binary_op_def Let_def dest: val_add_length split: if_splits opcode.splits)

lemma evolves_assign: "assign_resume lv v p = Some q \<Longrightarrow> evolves r p \<Longrightarrow> evolves r q"
  using assignLValue_length by (auto simp: assign_resume_def split_beta split: option.splits)

lemma evolves_copy: "copy_result p = Some q \<Longrightarrow> evolves r p \<Longrightarrow> evolves r q"
  by (auto simp: copy_result_def dest: assignmentValue_length split: option.splits)

section \<open>Hooks\<close>

lemma evolves_member: "memberByIdentifier e f n p = Some q \<Longrightarrow> evolves r p \<Longrightarrow> evolves r q"
  by (auto simp: memberByIdentifier_def compiler_memberByIdentifier_def thread_memberByIdentifier_def not_found_def
      demand_threadlocals_def Let_def split: if_splits option.splits)

lemma evolves_memberByIndex [simp, intro]: "evolves r p \<Longrightarrow> evolves r (memberByIndex i f p)"
  by (auto simp: memberByIndex_def sp_memberByIndex_def thread_memberByIndex_def not_found_def Let_def split: option.splits)

lemma evolves_eventCheck: "memberEventCheck p = Some q \<Longrightarrow> evolves r p \<Longrightarrow> evolves r q"
  by (auto simp: memberEventCheck_def split: if_splits)

lemma evolves_context: "contextForCallingFrom v p = Some (q, i) \<Longrightarrow> evolves r p \<Longrightarrow> evolves r (q\<lparr>mFunc := Some i\<rparr>)"
  by (auto simp: contextForCallingFrom_def intro!: evolves_stack_update split: option.splits exec.splits)

lemma evolves_newContext: "newFunctionCallContext p = Some q \<Longrightarrow> evolves r p \<Longrightarrow> evolves r q"
  by (auto simp: newFunctionCallContext_def sp_newFunctionCallContext_def thread_newFunctionCallContext_def not_found_def Let_def
      dest!: evolves_context split: if_splits option.splits)

lemma evolves_set_argument: "set_argument ci a nm p = Some q \<Longrightarrow> evolves r p \<Longrightarrow> evolves r q"
  by (auto simp: set_argument_def Let_def bind_eq_Some_conv dest!: assignmentValue_length split: option.splits)

lemma evolves_checkArgument: "checkAndSetArgument a ci c p = Some (q, er) \<Longrightarrow> evolves r p \<Longrightarrow> evolves r q"
  by (auto simp: checkAndSetArgument_def Let_def dest!: evolves_set_argument split: option.splits prod.splits if_splits)

lemma evolves_or_error [simp]: "evolves r (or_error v p) = evolves r p"
  by (simp add: or_error_def split: option.splits)

lemma evolves_pushArgument: "pushFunctionArgument a p = Some q \<Longrightarrow> evolves r p \<Longrightarrow> evolves r q"
  by (auto simp: pushFunctionArgument_def thread_pushFunctionArgument_def dest!: evolves_checkArgument split: if_splits option.splits)

lemma evolves_executed [simp, intro]: "evolves r p \<Longrightarrow> evolves r (executedResult v p)"
  by (simp add: executedResult_def take_call_result_def Let_def)

lemma evolves_executeResult: "executeResult p = Some q \<Longrightarrow> evolves r p \<Longrightarrow> evolves r q"
  by (auto simp: executeResult_def sp_executeResult_def thread_executeResult_def not_found_def Let_def bind_eq_Some_conv
      dest!: evolves_checkArgument split: if_splits option.splits prod.splits val.splits)

lemma evolves_object [simp]: "evolves r p \<Longrightarrow> evolves r (fst (new_object x t a p))"
  by (simp add: new_object_def)

lemma evolves_capture [simp]: "evolves r p \<Longrightarrow> evolves r (fst (captureCode v p))"
  by (auto simp: captureCode_def Let_def split: option.splits val.splits exec.splits)

lemma evolves_storeFunction: "storeFunction p = Some q \<Longrightarrow> evolves r p \<Longrightarrow> evolves r q"
  by (auto simp: storeFunction_def store_named_def split: option.splits if_splits sum.splits)

lemma evolves_storeHandler: "storeHandler p = Some q \<Longrightarrow> evolves r p \<Longrightarrow> evolves r q"
  by (auto simp: storeHandler_def registerHandler_def split: option.splits if_splits val.splits exec.splits)

lemma evolves_started: "thread_started e p = Some q \<Longrightarrow> evolves r p \<Longrightarrow> evolves r q"
  by (auto simp: thread_started_def dest!: evolves_member split: if_splits)

lemma evolves_startBlock [simp, intro]: "evolves r p \<Longrightarrow> evolves r (startBlockThreadAndStoreInIdentifier v p)"
  by (simp add: startBlockThreadAndStoreInIdentifier_def startBlockThread_def new_object_def Let_def)

lemmas evolves_dests =
  evolves_member evolves_newContext evolves_pushArgument evolves_executeResult evolves_storeFunction evolves_storeHandler
  evolves_assign evolves_copy evolves_eventCheck

section \<open>Expression handlers\<close>

lemma evolves_process_expression [simp, intro]: "evolves r p \<Longrightarrow> evolves r (processExpression p)"
  by (simp add: processExpression_def src_defs Let_def split_beta)

lemma evolves_expression_states [simp, intro]:
  "evolves r p \<Longrightarrow> evolves r (s_assignmentExpression p)" "evolves r p \<Longrightarrow> evolves r (s_expression p)"
  "evolves r p \<Longrightarrow> evolves r (s_subExpression p)" "evolves r p \<Longrightarrow> evolves r (s_groupedExpression p)"
  "evolves r p \<Longrightarrow> evolves r (s_exprFirstTerm e p)" "evolves r p \<Longrightarrow> evolves r (s_exprLeftSide p)"
  "evolves r p \<Longrightarrow> evolves r (s_compoundAssignment p)" "evolves r p \<Longrightarrow> evolves r (s_checkAndAssignLvalue p)"
  "evolves r p \<Longrightarrow> evolves r (s_nextSubscript p)" "evolves r p \<Longrightarrow> evolves r (s_funcContext p)"
  "evolves r p \<Longrightarrow> evolves r (s_objectfieldlvalue p)" "evolves r p \<Longrightarrow> evolves r (s_objectfielddone p)"
  "evolves r p \<Longrightarrow> evolves r (s_result p)" "evolves r p \<Longrightarrow> evolves r (s_nothrowResult p)"
  "evolves r p \<Longrightarrow> evolves r (s_validResult p)" "evolves r p \<Longrightarrow> evolves r (s_validResultCheck p)"
  "evolves r p \<Longrightarrow> evolves r (s_uncheckedResult p)" "evolves r p \<Longrightarrow> evolves r (s_complete p)"
  by (simp_all add: s_assignmentExpression_def s_expression_def s_subExpression_def s_groupedExpression_def
      s_exprFirstTerm_def s_exprLeftSide_def s_compoundAssignment_def s_checkAndAssignLvalue_def s_nextSubscript_def
      s_funcContext_def s_objectfieldlvalue_def s_objectfielddone_def s_result_def s_nothrowResult_def s_validResult_def
      s_validResultCheck_def s_uncheckedResult_def s_complete_def src_defs Let_def split_beta split: option.splits)

lemma evolves_exprRightSide: "s_exprRightSide e p = Some q \<Longrightarrow> evolves r p \<Longrightarrow> evolves r q"
  by (auto simp: s_exprRightSide_def bind_eq_Some_conv split: if_splits) (auto dest: binary_result_length split: sum.split_asm)

lemma evolves_assignLvalue: "s_assignLvalue p = Some q \<Longrightarrow> evolves r p \<Longrightarrow> evolves r q"
  by (auto simp: s_assignLvalue_def Let_def bind_eq_Some_conv dest!: evolves_copy evolves_assign split: if_splits)

lemma evolves_assignOlder: "s_assignOlder p = Some q \<Longrightarrow> evolves r p \<Longrightarrow> evolves r q"
  by (auto simp: s_assignOlder_def dest!: evolves_assignLvalue split: if_splits option.splits)

lemma evolves_unsetMember: "s_unsetMember p = Some q \<Longrightarrow> evolves r p \<Longrightarrow> evolves r q"
  by (auto simp: s_unsetMember_def Let_def dest!: evolves_assignLvalue split: if_splits option.splits)

lemma evolves_assignExpression: "s_assignExpression p = Some q \<Longrightarrow> evolves r p \<Longrightarrow> evolves r q"
  by (auto simp: s_assignExpression_def Let_def split: if_splits)

lemma evolves_assignDefault: "s_assignDefault p = Some q \<Longrightarrow> evolves r p \<Longrightarrow> evolves r q"
  by (auto simp: s_assignDefault_def dest!: evolves_assignExpression split: if_splits option.splits)

lemma evolves_assignOrAccess: "assignOrAccess e f p = Some q \<Longrightarrow> evolves r p \<Longrightarrow> evolves r q"
  by (auto simp: assignOrAccess_def request_member_def src_defs Let_def split_beta dest!: evolves_member split: if_splits)

lemma evolves_access: "access_subscript e s f p = Some q \<Longrightarrow> evolves r p \<Longrightarrow> evolves r q"
  by (auto simp: access_subscript_def bind_eq_Some_conv dest!: evolves_member split: if_splits option.splits)

lemma evolves_subscript: "process_subscript e f p = Some q \<Longrightarrow> evolves r p \<Longrightarrow> evolves r q"
  by (auto simp: process_subscript_def src_defs Let_def split_beta dest!: evolves_access split: if_splits)

lemma evolves_member_state: "s_member e p = Some q \<Longrightarrow> evolves r p \<Longrightarrow> evolves r q"
  by (auto simp: s_member_def src_identifier_def src_defs Let_def split_beta
      dest!: evolves_assignOrAccess evolves_subscript evolves_newContext evolves_eventCheck split: if_splits option.splits)

lemma evolves_subscriptArg: "s_subscriptArg e p = Some q \<Longrightarrow> evolves r p \<Longrightarrow> evolves r q"
  by (auto simp: s_subscriptArg_def src_defs Let_def split_beta dest!: evolves_subscript split: if_splits)

lemma evolves_funcArg: "s_funcArg p = Some q \<Longrightarrow> evolves r p \<Longrightarrow> evolves r q"
  by (auto simp: s_funcArg_def src_defs Let_def split_beta dest!: evolves_pushArgument split: if_splits)

lemma evolves_funcExec: "s_funcExec p = Some q \<Longrightarrow> evolves r p \<Longrightarrow> evolves r q"
  by (auto simp: s_funcExec_def Let_def dest!: evolves_executeResult split: if_splits)

lemma evolves_fieldname: "fieldnamedefined e p = Some q \<Longrightarrow> evolves r p \<Longrightarrow> evolves r q"
  by (auto simp: fieldnamedefined_def src_defs Let_def split_beta dest!: evolves_member split: if_splits)

lemma evolves_objectfield: "s_objectfield e p = Some q \<Longrightarrow> evolves r p \<Longrightarrow> evolves r q"
  by (auto simp: s_objectfield_def src_identifier_def src_defs Let_def split_beta bind_eq_Some_conv
      dest!: evolves_fieldname split: if_splits option.splits)

lemma evolves_varobjectfield: "s_varobjectfield e p = Some q \<Longrightarrow> evolves r p \<Longrightarrow> evolves r q"
  by (auto simp: s_varobjectfield_def src_defs Let_def split_beta bind_eq_Some_conv dest!: evolves_fieldname split: if_splits)

lemma evolves_objectfieldvalue: "s_objectfieldvalue p = Some q \<Longrightarrow> evolves r p \<Longrightarrow> evolves r q"
  by (auto simp: s_objectfieldvalue_def Let_def bind_eq_Some_conv dest!: evolves_copy evolves_assign split: if_splits)

lemma evolves_append: "append_element p = Some q \<Longrightarrow> evolves r p \<Longrightarrow> evolves r q"
  by (auto simp: append_element_def split: option.splits val.splits sum.splits)

lemma evolves_arrayelement: "s_arrayelementdone p = Some q \<Longrightarrow> evolves r p \<Longrightarrow> evolves r q"
  by (auto simp: s_arrayelementdone_def src_defs Let_def split_beta bind_eq_Some_conv dest!: evolves_append split: if_splits)

lemma evolves_simpleTerm: "s_simpleTerm e p = Some q \<Longrightarrow> evolves r p \<Longrightarrow> evolves r q"
  by (auto simp: s_simpleTerm_def identifier_term_def new_container_def src_identifier_def src_defs Let_def split_beta
      dest!: evolves_objectfield evolves_assignOrAccess split: if_splits option.splits)

section \<open>Statement handlers\<close>

lemma evolves_skip_body [simp, intro]: "evolves r p \<Longrightarrow> evolves r (skip_body s p)"
  by (simp add: skip_body_def)

lemma evolves_new_object: "new_object x t a p = (q, v) \<Longrightarrow> evolves r p \<Longrightarrow> evolves r q"
  by (auto simp: new_object_def)

lemma evolves_captured: "captureCode v p = (q, w) \<Longrightarrow> evolves r p \<Longrightarrow> evolves r q"
  using evolves_capture [of r p v] by simp

lemma evolves_function_body [simp, intro]: "evolves r p \<Longrightarrow> evolves r (function_body g as p)"
  by (simp add: function_body_def Let_def split_beta)

lemma evolves_processFunction [simp, intro]: "evolves r p \<Longrightarrow> evolves r (processFunction g p)"
  by (auto simp: processFunction_def src_identifier_def src_defs Let_def split_beta split: option.splits sum.splits)

lemma evolves_defineFunction: "defineFunction g p = Some q \<Longrightarrow> evolves r p \<Longrightarrow> evolves r q"
  by (auto simp: defineFunction_def Let_def split_beta dest!: evolves_storeFunction split: if_splits)

lemma evolves_onHandler [simp, intro]: "evolves r p \<Longrightarrow> evolves r (processOnHandler g p)"
  by (simp add: processOnHandler_def src_defs Let_def split_beta)

lemma evolves_maybe_identifier [simp]: "evolves r p \<Longrightarrow> evolves r (fst (maybe_identifier p))"
  by (auto simp: maybe_identifier_def src_identifier_def split: option.splits)

lemma evolves_set_trigger [simp]: "evolves r p \<Longrightarrow> evolves r (set_trigger t m h v p)"
  by (simp add: set_trigger_def split: option.splits)

lemma evolves_trigger_end [simp, intro]: "evolves r p \<Longrightarrow> evolves r (trigger_end g t m h v p)"
  by (simp add: trigger_end_def src_defs Let_def)

lemma evolves_trigger_as [simp, intro]: "evolves r p \<Longrightarrow> evolves r (trigger_as g t m h b p)"
  by (auto simp: trigger_as_def src_identifier_def src_defs split: option.splits)

lemma evolves_defineTrigger [simp, intro]: "evolves r p \<Longrightarrow> evolves r (defineTrigger e g p)"
  by (simp add: defineTrigger_def src_defs Let_def split_beta)

lemma evolves_defineHandler: "defineHandler g p = Some q \<Longrightarrow> evolves r p \<Longrightarrow> evolves r q"
  by (auto simp: defineHandler_def Let_def split_beta dest!: evolves_storeHandler split: if_splits)

lemma evolves_include: "s_include e p = Some q \<Longrightarrow> evolves r p \<Longrightarrow> evolves r q"
  by (auto simp: s_include_def bind_eq_Some_conv Let_def new_object_def split: if_splits) (auto simp: new_object_def split: sum.split_asm)

lemma evolves_ifCondition: "s_ifCondition e p = Some q \<Longrightarrow> evolves r p \<Longrightarrow> evolves r q"
  by (auto simp: s_ifCondition_def src_defs Let_def split_beta split: if_splits)

lemma evolves_ifTrue [simp, intro]: "evolves r p \<Longrightarrow> evolves r (s_ifTrueStatement p)"
  by (simp add: s_ifTrueStatement_def src_defs Let_def split_beta)

lemma evolves_new_helper: "evolves r p \<Longrightarrow> evolves r (new_helper x p)"
proof -
  assume "evolves r p"
  then have "evolves r (p\<lparr>pHelpers := pHelpers p @ [x]\<rparr>)" by simp
  from evolves_stack_update(2) [OF this, of "Some (length (pHelpers p))"] show ?thesis
    by (simp add: new_helper_def)
qed

lemma evolves_helpers [simp, intro]:
  "evolves r p \<Longrightarrow> evolves r (set_helper x p)" "evolves r p \<Longrightarrow> evolves r (new_helper x p)"
  by (simp_all add: evolves_new_helper set_helper_def split: option.splits)

lemma evolves_foreachBody [simp, intro]: "evolves r p \<Longrightarrow> evolves r (s_foreachBody p)"
  by (simp add: s_foreachBody_def)

lemma evolves_foreach:
  "s_foreachTarget e p = Some q \<Longrightarrow> evolves r p \<Longrightarrow> evolves r q"
  "s_foreachLoopVar1 e p = Some q \<Longrightarrow> evolves r p \<Longrightarrow> evolves r q"
  "s_foreachLoopVars p = Some q \<Longrightarrow> evolves r p \<Longrightarrow> evolves r q"
  "s_foreachLoopStart p = Some q \<Longrightarrow> evolves r p \<Longrightarrow> evolves r q"
  "s_foreachLoopIteration p = Some q \<Longrightarrow> evolves r p \<Longrightarrow> evolves r q"
  "s_foreachKeyNeeded p = Some q \<Longrightarrow> evolves r p \<Longrightarrow> evolves r q"
  "s_foreachStatement p = Some q \<Longrightarrow> evolves r p \<Longrightarrow> evolves r q"
  by (auto simp: s_foreachTarget_def s_foreachLoopVar1_def s_foreachLoopVars_def s_foreachLoopStart_def
      s_foreachLoopIteration_def s_foreachKeyNeeded_def s_foreachStatement_def src_identifier_def src_defs Let_def split_beta
      bind_eq_Some_conv dest!: evolves_member evolves_assign split: if_splits option.splits)

lemma evolves_loopBody: "s_loopBody e p = Some q \<Longrightarrow> evolves r p \<Longrightarrow> evolves r q"
  by (auto simp: s_loopBody_def bind_eq_Some_conv split: if_splits)

lemma evolves_loopEnd: "s_loopEnd e p = Some q \<Longrightarrow> evolves r p \<Longrightarrow> evolves r q"
  by (auto simp: s_loopEnd_def Let_def bind_eq_Some_conv set_pos_def split: if_splits)

lemma evolves_loopRecheck: "s_loopRecheck e p = Some q \<Longrightarrow> evolves r p \<Longrightarrow> evolves r q"
  by (auto simp: s_loopRecheck_def set_pos_def dest!: evolves_loopEnd split: if_splits)

lemma evolves_loops:
  "s_loopInit p = Some q \<Longrightarrow> evolves r p \<Longrightarrow> evolves r q"
  "s_loopCondition e p = Some q \<Longrightarrow> evolves r p \<Longrightarrow> evolves r q"
  "s_loopNext e p = Some q \<Longrightarrow> evolves r p \<Longrightarrow> evolves r q"
  "s_loopBodyDone e p = Some q \<Longrightarrow> evolves r p \<Longrightarrow> evolves r q"
  by (auto simp: s_loopInit_def s_loopCondition_def s_loopNext_def s_loopBodyDone_def src_defs Let_def split_beta
      bind_eq_Some_conv dest!: evolves_loopBody evolves_loopRecheck split: if_splits)

lemma evolves_try: "s_tryStatement e p = Some q \<Longrightarrow> evolves r p \<Longrightarrow> evolves r q"
  by (auto simp: s_tryStatement_def src_identifier_def src_defs Let_def split_beta dest!: evolves_member
      split: if_splits option.splits)

lemma evolves_concurrent_var: "s_concurrent_var e p = Some q \<Longrightarrow> evolves r p \<Longrightarrow> evolves r q"
  by (auto simp: s_concurrent_var_def src_defs Let_def split_beta dest!: evolves_member
      split: if_splits option.splits val.splits prod.splits)

lemma evolves_var_assigned [simp, intro]: "evolves r p \<Longrightarrow> evolves r (concurrent_var_assigned p)"
  by (simp add: concurrent_var_assigned_def src_defs Let_def split_beta)

lemma evolves_concurrent_var_value: "s_concurrent_var_value p = Some q \<Longrightarrow> evolves r p \<Longrightarrow> evolves r q"
  using assignLValue_length by (auto simp: s_concurrent_var_value_def split: option.splits)

lemma evolves_concurrent [simp, intro]: "evolves r p \<Longrightarrow> evolves r (s_concurrent p)"
  by (auto simp: s_concurrent_def src_identifier_def src_defs Let_def split_beta split: option.splits)

lemma evolves_noStatement [simp, intro]: "evolves r p \<Longrightarrow> evolves r (s_noStatement p)"
  by (simp add: s_noStatement_def src_defs Let_def split_beta)

lemma evolves_varDefs: "processVarDefs e f b p = Some q \<Longrightarrow> evolves r p \<Longrightarrow> evolves r q"
  by (auto simp: processVarDefs_def src_identifier_def src_defs Let_def split_beta
      dest!: evolves_assignOrAccess evolves_member split: if_splits option.splits)

lemma evolves_statements [simp, intro]:
  "evolves r p \<Longrightarrow> evolves r (expression_statement p)" "evolves r p \<Longrightarrow> evolves r (return_statement n p)"
  "evolves r p \<Longrightarrow> evolves r (concurrent_statement p)" "evolves r p \<Longrightarrow> evolves r (for_statement p)"
  "evolves r p \<Longrightarrow> evolves r (while_statement p)" "evolves r p \<Longrightarrow> evolves r (if_statement p)"
  "evolves r p \<Longrightarrow> evolves r (local_statement p)" "evolves r p \<Longrightarrow> evolves r (end_of_code p)"
  "evolves r p \<Longrightarrow> evolves r (only_one p)" "evolves r p \<Longrightarrow> evolves r (s_declarations p)"
  by (simp_all add: expression_statement_def return_statement_def concurrent_statement_def for_statement_def
      while_statement_def if_statement_def local_statement_def end_of_code_def only_one_def s_declarations_def startOfBodyCode_def
      new_container_def src_defs Let_def split_beta)

lemma evolves_break [simp, intro]: "evolves r p \<Longrightarrow> evolves r (break_statement p)"
  by (auto simp: break_statement_def dest!: evolves_skipUntil split: option.splits)

lemma evolves_continue [simp, intro]: "evolves r p \<Longrightarrow> evolves r (continue_statement p)"
  by (auto simp: continue_statement_def dest!: evolves_unwind split: option.splits)

lemma evolves_global: "global_statement e p = Some q \<Longrightarrow> evolves r p \<Longrightarrow> evolves r q"
  by (auto simp: global_statement_def src_defs Let_def split_beta dest!: evolves_varDefs split: if_splits)

lemma evolves_keyword: "keyword_statement e m p = Some q \<Longrightarrow> evolves r p \<Longrightarrow> evolves r q"
  unfolding keyword_statement_def Let_def
  by (auto simp: src_defs dest!: evolves_varDefs evolves_global split: if_split_asm)

lemma evolves_begin: "begin_statement e p = Some q \<Longrightarrow> evolves r p \<Longrightarrow> evolves r q"
  by (auto simp: begin_statement_def src_identifier_def src_defs Let_def dest!: evolves_keyword split: option.splits)

lemma evolves_statement: "processStatement e p = Some q \<Longrightarrow> evolves r p \<Longrightarrow> evolves r q"
  by (auto simp: processStatement_def src_defs Let_def split_beta dest!: evolves_begin split: if_splits)

section \<open>Every handler\<close>

lemma evolves_handler:
  assumes "handler e s p = Some q"
  shows "evolves p q"
  using assms evolves_refl [of p]
  by (cases s)
     (auto dest!: evolves_objectfield evolves_varobjectfield evolves_objectfieldvalue evolves_arrayelement evolves_simpleTerm
       evolves_member_state evolves_subscriptArg evolves_funcArg evolves_funcExec evolves_exprRightSide evolves_assignDefault
       evolves_assignExpression evolves_assignOlder evolves_assignLvalue evolves_unsetMember evolves_statement
       evolves_ifCondition evolves_foreach evolves_loops evolves_loopBody evolves_loopRecheck evolves_loopEnd evolves_try
       evolves_concurrent_var evolves_concurrent_var_value evolves_defineFunction evolves_defineHandler evolves_include)

lemma evolves_step: "step e p = Some q \<Longrightarrow> evolves p q"
  using evolves_refl [of p] by (auto simp: step_def dest: evolves_handler split: option.splits)

end
