(* ===== verification/ScriptThread.thy ===== *)
theory ScriptThread
  imports ScriptFrame
begin

text \<open>
  What holds of every thread, whatever the script: it reports its result and its end at most
  once, and no step leaves it without a way to go on.
\<close>

section \<open>Invariants of a thread\<close>

definition thread_ok :: "proc \<Rightarrow> bool" where
  "thread_ok p \<longleftrightarrow>
     \<not> isCompiler p \<and> length (mDelivered p) + of_bool (mCompletedCB p) = 1 \<and> mTerminated p + of_bool (mOwned p) = 1 \<and>
     mCompletedCB p = mOwned p \<and> pointers_ok p"

lemma thread_ok_evolves: "evolves p q \<Longrightarrow> thread_ok p \<Longrightarrow> thread_ok q"
  unfolding evolves_def thread_ok_def by (elim conjE, intro conjI) (assumption | simp)+

lemma thread_ok_update [simp]:
  "thread_ok (p\<lparr>mRequest := x\<rparr>) = thread_ok p" "thread_ok (p\<lparr>pHeap := h\<rparr>) = thread_ok p"
  "thread_ok (p\<lparr>mResumed := b\<rparr>) = thread_ok p" "thread_ok (p\<lparr>mAborted := b\<rparr>) = thread_ok p"
  "thread_ok (p\<lparr>mResult := v\<rparr>) = thread_ok p"
  by (simp_all add: thread_ok_def pointers_ok_def)

lemma thread_ok_value_event [simp]: "thread_ok (thread_value_event i w p) = thread_ok p"
  by (simp add: thread_ok_def pointers_ok_def thread_value_event_def split: exec.split threadend.split)

lemma thread_ok_complete: "thread_ok p \<Longrightarrow> thread_ok (complete v p)"
  using evolves_complete [OF evolves_refl] by (rule thread_ok_evolves)

lemma thread_ok_step: "thread_step e p q \<Longrightarrow> thread_ok p \<Longrightarrow> thread_ok q"
proof (induction rule: thread_step.induct)
  case (one_step p q)
  then show ?case using thread_ok_evolves [OF evolves_step [OF one_step(1)]] by simp
next
  case (called p h v)
  then show ?case using thread_ok_evolves [OF evolves_executed [OF evolves_refl], of "p\<lparr>mRequest := None, pHeap := h\<rparr>" v] by simp
next
  case (forked p i h q)
  then show ?case using thread_ok_evolves [OF evolves_started [OF forked(3) evolves_refl]] by simp
next
  case (exited i p v)
  then show ?case by (simp only: thread_ok_value_event)
next
  case (timer p x)
  then show ?case by (simp add: timed_out_def thread_ok_complete split: expiry.splits)
next
  case (aborted p v)
  then have "thread_ok (sp_abort v p)" by (simp add: sp_abort_def split: option.splits)
  then show ?case by (rule thread_ok_complete)
qed simp

lemma thread_ok_reachable: "reachable e p q \<Longrightarrow> thread_ok p \<Longrightarrow> thread_ok q"
  by (induction rule: reachable.induct) (auto intro: thread_ok_step)

text \<open>A thread of a context as \<open>run\<close> starts it.\<close>

definition started_thread :: "cursor \<Rightarrow> u32 \<Rightarrow> val option \<Rightarrow> proc" where
  "started_thread c f vars = start_state ((new_thread c f vars)\<lparr>mRunning := True\<rparr>)"

lemma thread_ok_started: "thread_ok (started_thread c f vars)"
proof -
  let ?n = "(new_thread c f vars)\<lparr>mRunning := True\<rparr>"
  have "evolves ?n (start_state ?n)"
  proof -
    have "evolves ?n (?n\<lparr>mSkipping := has_flag (mFlags ?n) ef_scanning, mStack := []\<rparr>)" by (simp add: evolves_refl)
    moreover have "mResuming (start_state ?n) = False" by (simp add: start_state_def Let_def)
    ultimately show ?thesis
      unfolding start_state_def Let_def by (simp add: evolves_def pointers_ok_def new_thread_def setState_def push_def push_frame_def complete_def
        thread_complete_def thread_deactivate_def deactivate_def sp_complete_def final_result_def split_beta)
  qed
  moreover have "thread_ok ?n" by (simp add: thread_ok_def pointers_ok_def new_thread_def)
  ultimately show ?thesis unfolding started_thread_def by (rule thread_ok_evolves)
qed

section \<open>No step leaves a thread stuck\<close>

text \<open>After a step the thread is resumed, or it has completed, or it has asked for something.\<close>

definition going :: "proc \<Rightarrow> bool" where
  "going p \<longleftrightarrow> mResumed p \<or> (mState p = None \<and> mStack p = []) \<or> mRequest p \<noteq> None"

lemma going_resume [simp]: "going (resume p)" "going (resumeWith v p)" "going (resumeAt s p)"
  by (simp_all add: going_def resume_def resumeWith_def resumeAt_def)

lemma going_complete [simp]: "going (complete v p)"
  by (simp add: going_def complete_def sp_complete_def thread_complete_def thread_deactivate_def deactivate_def Let_def split_beta)

lemma going_pop [simp]: "going p \<Longrightarrow> going (pop p)"
  by (simp add: pop_def pop_frame_def split: list.splits) (auto simp: going_def)

lemma going_throw [simp]: "going (throwOrComplete v p)" "going (exitWithSyntaxError m p)"
  by (simp_all add: throwOrComplete_def exitWithSyntaxError_def Let_def split: option.splits)

lemma going_check [simp]: "going (checkAndResume p)" "going (checkAndResumeAt s p)"
  by (simp_all add: checkAndResumeAt_def checkAndResume_def sp_checkAndResume_def thread_checkAndResume_def
      split: option.splits val.splits)

lemma going_popWith [simp]: "going (popWithValidResult b p)" "going (popWithResult b p)"
  by (simp_all add: popWithValidResult_def popWithResult_def Let_def split: option.splits)

lemma going_hooks:
  "memberByIdentifier e f n p = Some q \<Longrightarrow> going q" "newFunctionCallContext p = Some q \<Longrightarrow> going q"
  "pushFunctionArgument a p = Some q \<Longrightarrow> going q" "storeFunction p = Some q \<Longrightarrow> going q"
  "storeHandler p = Some q \<Longrightarrow> going q" "assign_resume l v p = Some q \<Longrightarrow> going q"
  by (auto simp: memberByIdentifier_def compiler_memberByIdentifier_def thread_memberByIdentifier_def newFunctionCallContext_def
      sp_newFunctionCallContext_def thread_newFunctionCallContext_def pushFunctionArgument_def thread_pushFunctionArgument_def
      storeFunction_def storeHandler_def assign_resume_def Let_def split_beta split: if_splits option.splits)

lemma going_executeResult: "executeResult p = Some q \<Longrightarrow> going q"
  by (auto simp: executeResult_def sp_executeResult_def thread_executeResult_def executedResult_def Let_def bind_eq_Some_conv going_def [of "_\<lparr>mRequest := _\<rparr>"]
      split: if_splits option.splits val.splits)

lemma going_index [simp]: "going (memberByIndex i f p)"
  by (simp add: memberByIndex_def sp_memberByIndex_def thread_memberByIndex_def Let_def)

lemma going_startBlock [simp]: "going (startBlockThreadAndStoreInIdentifier v p)"
  by (simp add: startBlockThreadAndStoreInIdentifier_def startBlockThread_def Let_def split_beta going_def [of "_\<lparr>mRequest := _\<rparr>"])

lemma going_expression [simp]:
  "going (processExpression p)" "going (s_exprFirstTerm e p)" "going (s_exprLeftSide p)" "going (s_compoundAssignment p)"
  "going (s_objectfielddone p)" "going (s_groupedExpression p)" "going (s_funcContext p)"
  by (simp_all add: processExpression_def s_exprFirstTerm_def s_exprLeftSide_def s_compoundAssignment_def s_objectfielddone_def
      s_groupedExpression_def s_funcContext_def Let_def split_beta)

lemma going_assignLvalue: "s_assignLvalue p = Some q \<Longrightarrow> going q"
  by (auto simp: s_assignLvalue_def Let_def bind_eq_Some_conv dest: going_hooks split: if_splits)

lemma going_assign:
  "s_assignOlder p = Some q \<Longrightarrow> going q" "s_unsetMember p = Some q \<Longrightarrow> going q" "s_assignExpression p = Some q \<Longrightarrow> going q"
  by (auto simp: s_assignOlder_def s_unsetMember_def s_assignExpression_def s_result_def Let_def dest: going_assignLvalue
      split: if_splits option.splits)

lemma going_access:
  "assignOrAccess e f p = Some q \<Longrightarrow> going q" "access_subscript e v f p = Some q \<Longrightarrow> going q"
  by (auto simp: assignOrAccess_def request_member_def access_subscript_def Let_def split_beta bind_eq_Some_conv
      dest: going_hooks split: if_splits option.splits)

lemma going_subscript: "process_subscript e f p = Some q \<Longrightarrow> going q"
  by (auto simp: process_subscript_def Let_def split_beta dest: going_access split: if_splits)

lemma going_fieldname: "fieldnamedefined e p = Some q \<Longrightarrow> going q"
  by (auto simp: fieldnamedefined_def Let_def split_beta dest: going_hooks split: if_splits)

lemma going_objectfield: "s_objectfield e p = Some q \<Longrightarrow> going q"
  by (auto simp: s_objectfield_def Let_def split_beta bind_eq_Some_conv dest: going_fieldname split: if_splits option.splits)

lemma going_exprRightSide: "s_exprRightSide e p = Some q \<Longrightarrow> going q"
  by (auto simp: s_exprRightSide_def bind_eq_Some_conv split: if_splits) (auto split: sum.split_asm)

lemma going_terms:
  "s_assignDefault p = Some q \<Longrightarrow> going q" "s_member e p = Some q \<Longrightarrow> going q" "s_subscriptArg e p = Some q \<Longrightarrow> going q"
  "s_funcArg p = Some q \<Longrightarrow> going q" "s_funcExec p = Some q \<Longrightarrow> going q" "s_varobjectfield e p = Some q \<Longrightarrow> going q"
  "s_objectfieldvalue p = Some q \<Longrightarrow> going q" "s_arrayelementdone p = Some q \<Longrightarrow> going q" "s_simpleTerm e p = Some q \<Longrightarrow> going q"
  by (auto simp: s_assignDefault_def s_member_def s_subscriptArg_def s_funcArg_def s_funcExec_def s_varobjectfield_def
      s_objectfieldvalue_def s_arrayelementdone_def s_simpleTerm_def identifier_term_def s_expression_def Let_def split_beta bind_eq_Some_conv
      dest: going_assign going_access going_subscript going_hooks going_executeResult going_fieldname going_objectfield
      split: if_splits option.splits)

lemma going_definitions [simp]:
  "going (function_body g as p)" "going (trigger_end g t m h v p)" "going (processOnHandler g p)"
  by (simp_all add: function_body_def trigger_end_def skip_body_def processOnHandler_def Let_def split_beta)

lemma going_processFunction [simp]: "going (processFunction g p)" "going (trigger_as g t m h b p)"
  by (auto simp: processFunction_def trigger_as_def Let_def split_beta split: option.splits sum.splits prod.splits)

lemma going_defineTrigger [simp]: "going (defineTrigger e g p)"
  by (simp add: defineTrigger_def Let_def split_beta)

lemma going_define: "defineFunction g p = Some q \<Longrightarrow> going q" "defineHandler g p = Some q \<Longrightarrow> going q" "s_include e p = Some q \<Longrightarrow> going q"
  by (auto simp: defineFunction_def defineHandler_def s_include_def Let_def split_beta bind_eq_Some_conv dest: going_hooks
      split: if_splits) (auto simp: Let_def split_beta split: sum.split_asm)

lemma going_foreachBody [simp]: "going (s_foreachBody p)"
  by (simp add: s_foreachBody_def)

lemma going_foreach:
  "s_foreachTarget e p = Some q \<Longrightarrow> going q" "s_foreachLoopVar1 e p = Some q \<Longrightarrow> going q" "s_foreachLoopVars p = Some q \<Longrightarrow> going q"
  "s_foreachLoopStart p = Some q \<Longrightarrow> going q" "s_foreachLoopIteration p = Some q \<Longrightarrow> going q"
  "s_foreachKeyNeeded p = Some q \<Longrightarrow> going q" "s_foreachStatement p = Some q \<Longrightarrow> going q"
  by (auto simp: s_foreachTarget_def s_foreachLoopVar1_def s_foreachLoopVars_def s_foreachLoopStart_def
      s_foreachLoopIteration_def s_foreachKeyNeeded_def s_foreachStatement_def Let_def split_beta bind_eq_Some_conv
      dest: going_hooks split: if_splits option.splits)

lemma going_loopEnd: "s_loopBody e p = Some q \<Longrightarrow> going q" "s_loopEnd e p = Some q \<Longrightarrow> going q"
  by (auto simp: s_loopBody_def s_loopEnd_def Let_def bind_eq_Some_conv split: if_splits)

lemma going_loopRecheck: "s_loopRecheck e p = Some q \<Longrightarrow> going q"
  by (auto simp: s_loopRecheck_def dest: going_loopEnd split: if_splits)

lemma going_loops:
  "s_loopInit p = Some q \<Longrightarrow> going q" "s_loopCondition e p = Some q \<Longrightarrow> going q" "s_loopNext e p = Some q \<Longrightarrow> going q"
  "s_loopBodyDone e p = Some q \<Longrightarrow> going q" "s_ifCondition e p = Some q \<Longrightarrow> going q"
  by (auto simp: s_loopInit_def s_loopCondition_def s_loopNext_def s_loopBodyDone_def s_ifCondition_def Let_def split_beta bind_eq_Some_conv
      dest: going_loopEnd going_loopRecheck split: if_splits)

lemma going_ifTrue [simp]: "going (s_ifTrueStatement p)"
  by (simp add: s_ifTrueStatement_def Let_def split_beta)

lemma going_blocks:
  "s_tryStatement e p = Some q \<Longrightarrow> going q" "s_concurrent_var e p = Some q \<Longrightarrow> going q" "s_concurrent_var_value p = Some q \<Longrightarrow> going q"
  by (auto simp: s_tryStatement_def s_concurrent_var_def s_concurrent_var_value_def concurrent_var_assigned_def Let_def split_beta
      dest: going_hooks split: if_splits option.splits val.splits prod.splits)

lemma going_concurrent [simp]: "going (s_concurrent p)"
  by (auto simp: s_concurrent_def Let_def split_beta split: option.splits)

lemma going_varDefs: "processVarDefs e f b p = Some q \<Longrightarrow> going q"
  by (auto simp: processVarDefs_def Let_def split_beta dest: going_access going_hooks split: if_splits option.splits)

lemma going_statements [simp]:
  "going (expression_statement p)" "going (return_statement n p)" "going (concurrent_statement p)" "going (for_statement p)"
  "going (while_statement p)" "going (if_statement p)" "going (local_statement p)" "going (end_of_code p)" "going (s_noStatement p)"
  "going (break_statement p)" "going (continue_statement p)" "going (s_declarations p)"
  by (simp_all add: expression_statement_def return_statement_def concurrent_statement_def for_statement_def while_statement_def
      if_statement_def local_statement_def end_of_code_def s_noStatement_def break_statement_def continue_statement_def
      s_declarations_def startOfBodyCode_def Let_def split_beta split: option.splits)

lemma going_keyword: "keyword_statement e m p = Some q \<Longrightarrow> going q"
  unfolding keyword_statement_def Let_def
  by (auto simp: global_statement_def Let_def split_beta dest: going_varDefs split: if_split_asm)

lemma going_statement: "processStatement e p = Some q \<Longrightarrow> going q"
  by (auto simp: processStatement_def begin_statement_def Let_def split_beta dest: going_keyword split: if_splits option.splits)

lemma going_handler: "handler e s p = Some q \<Longrightarrow> going q"
  by (cases s)
     (auto simp: s_objectfieldlvalue_def s_nextSubscript_def s_assignmentExpression_def s_expression_def s_subExpression_def
       s_checkAndAssignLvalue_def s_result_def s_nothrowResult_def s_validResult_def s_validResultCheck_def s_uncheckedResult_def s_complete_def
       dest!: going_objectfield going_terms going_exprRightSide going_assign going_assignLvalue going_statement going_loops going_loopEnd
       going_loopRecheck going_foreach going_blocks going_define)

section \<open>What the invariants give\<close>

lemma prefix_delivered: "evolves p q \<Longrightarrow> prefix (mDelivered p) (mDelivered q)"
  by (simp add: evolves_def)

lemma thread_step_delivered: "thread_step e p q \<Longrightarrow> prefix (mDelivered p) (mDelivered q)"
proof (induction rule: thread_step.induct)
  case (one_step p q)
  from prefix_delivered [OF evolves_step [OF this]] show ?case by simp
next
  case (called p h v)
  show ?case using prefix_delivered [OF evolves_executed [OF evolves_refl], of "p\<lparr>mRequest := None, pHeap := h\<rparr>" v] by simp
next
  case (forked p i h q)
  from prefix_delivered [OF evolves_started [OF forked(3) evolves_refl]] show ?case by simp
next
  case (timer p x)
  show ?case using prefix_delivered [OF evolves_complete [OF evolves_refl]] by (simp add: timed_out_def split: expiry.splits)
next
  case (exited i p v)
  show ?case by (simp add: thread_value_event_def split: exec.splits threadend.splits)
next
  case (aborted p v)
  then show ?case using prefix_delivered [OF evolves_complete [OF evolves_refl], of "sp_abort v p" v]
    by (simp add: sp_abort_def split: option.splits)
qed simp

lemma reachable_delivered: "reachable e p q \<Longrightarrow> prefix (mDelivered p) (mDelivered q)"
  by (induction rule: reachable.induct) (auto intro: prefix_order.trans dest: thread_step_delivered)

lemma thread_ok_counts:
  assumes "thread_ok p"
  shows "length (mDelivered p) = mTerminated p \<and> mTerminated p \<le> 1 \<and> (mOwned p \<longleftrightarrow> mTerminated p = 0) \<and>
         (mCompletedCB p \<longleftrightarrow> mDelivered p = [])"
  using assms by (cases "mOwned p") (auto simp: thread_ok_def)

text \<open>C4: Whatever a thread runs and whatever happens to it (results of calls, threads it starts, time
  limits, aborts): at every moment the number of times it has called its completion callback equals the
  number of times it has told its owner that it terminated, and both are at most one. As long as it has
  reported nothing it still holds its callback and belongs to its owner; from the moment it has called
  the callback it has neither (so the two always happen together), and nothing is reported later.\<close>

theorem thread_reports_once:
  assumes "reachable e (started_thread c f vars) q" "reachable e q r"
  shows "length (mDelivered q) = mTerminated q \<and> mTerminated q \<le> 1 \<and>
         (mOwned q \<longleftrightarrow> mTerminated q = 0) \<and> (mCompletedCB q \<longleftrightarrow> mDelivered q = []) \<and>
         (mTerminated q = 1 \<longrightarrow> mDelivered r = mDelivered q \<and> mTerminated r = 1 \<and> \<not> mOwned r \<and> \<not> mCompletedCB r)"
proof -
  have q: "thread_ok q" using thread_ok_started by (rule thread_ok_reachable [OF assms(1)])
  then have r: "thread_ok r" by (rule thread_ok_reachable [OF assms(2)])
  obtain zs where zs: "mDelivered r = mDelivered q @ zs" using reachable_delivered [OF assms(2)] by (auto simp: prefix_def)
  have "zs = [] \<and> mTerminated r = 1" if "mTerminated q = 1"
    using that thread_ok_counts [OF q] thread_ok_counts [OF r] zs by (cases zs) auto
  then show ?thesis using thread_ok_counts [OF q] thread_ok_counts [OF r] zs by auto
qed

definition plain_env :: penv where
  "plain_env =
     \<lparr>pe = \<lparr>senv = \<lparr>eyear = 2024, ejunk = 0\<rparr>, json_str = \<lambda>_. []\<rparr>, main_lookup = \<lambda>_ _. None,
      domain_lookup = \<lambda>_ _. None, included_code = \<lambda>_ _. Inl (script_err E_NotFound [])\<rparr>"

lemmas machine_evals = new_thread_def setState_def push_def push_frame_def complete_def thread_complete_def
  thread_deactivate_def deactivate_def sp_complete_def final_result_def start_state_def has_flag_def ef_defs

theorem thread_reports_once_witness:
  "length (mDelivered (timed_out RunTime (started_thread null_cursor ef_scriptbody None))) = 1"
proof -
  let ?p = "started_thread null_cursor ef_scriptbody None"
  let ?q = "timed_out RunTime ?p"
  have "reachable plain_env ?p ?q" by (rule reachable.trans [OF reachable.refl thread_step.timer])
  moreover have "mDelivered ?q \<noteq> []"
    by (simp add: timed_out_def started_thread_def machine_evals Let_def)
  ultimately show ?thesis using thread_reports_once [of plain_env null_cursor ef_scriptbody None ?q ?q] reachable.refl
    by (metis le_neq_implies_less less_one length_0_conv)
qed

text \<open>C5: No state handler leaves the processor hanging. After every step of the state machine the loop
  goes on, or the processor is through (it has no next state and its stack is empty), or it waits
  for something it asked for in this step: a function to be executed, a thread to be started, a
  trigger to be evaluated.\<close>

theorem no_step_stalls:
  assumes "step e (p\<lparr>mResumed := False\<rparr>) = Some q" "mRequest p = None"
  shows "mResumed q \<or> (mState q = None \<and> mStack q = []) \<or> mRequest q \<noteq> None"
proof (cases "mState p")
  case None
  with assms(1) have "q = complete (mResult p) (p\<lparr>mResumed := False\<rparr>)" by (simp add: step_def)
  then have "going q" by simp
  then show ?thesis by (simp add: going_def)
next
  case (Some s)
  with assms(1) have "going q" by (simp add: step_def going_handler)
  then show ?thesis by (simp add: going_def)
qed

theorem no_step_stalls_witness:
  "mResumed (the (step plain_env (new_thread null_cursor 0 None\<lparr>mState := Some S_exprRightSide, mSkipping := True\<rparr>)))"
proof -
  let ?p = "new_thread null_cursor 0 None\<lparr>mState := Some S_exprRightSide, mSkipping := True\<rparr>"
  have e: "?p\<lparr>mResumed := False\<rparr> = ?p" by (simp add: new_thread_def)
  have "step plain_env (?p\<lparr>mResumed := False\<rparr>) = Some (resumeAt S_exprLeftSide ?p)"
    unfolding e by (simp add: step_def s_exprRightSide_def)
  from no_step_stalls [OF this] this show ?thesis unfolding e by (simp add: new_thread_def resumeAt_def resume_def setState_def)
qed

end
