(* ===== verification/ScriptEval.thy ===== *)
theory ScriptEval
  imports ScriptThread
begin

text \<open>
  The expression evaluator of the script engine against a reference: expressions of integer literals,
  the unary and binary operators, written with as few parentheses as the precedences allow. The
  state machine, running on the text, delivers what the reference gives for the expression.
\<close>

section \<open>The reference\<close>

datatype uop = Neg | Inv

datatype expr = Lit nat | Unary uop expr | Bin opcode expr expr

text \<open>A number with its class, or an error.\<close>

type_synonym refval = "serr + numkind \<times> f64"

definition truth :: "bool \<Rightarrow> refval" where
  "truth b = Inr (KBool, F_Fin (if b then 1 else 0))"

fun ref_un :: "uop \<Rightarrow> refval \<Rightarrow> refval" where
  "ref_un u (Inl er) = Inl er"
| "ref_un Neg (Inr (k, x)) = Inr (KNumeric, f64_minus x)"
| "ref_un Inv (Inr (k, x)) = truth (f64_is_zero x)"

text \<open>Integers of 64 bits when both are integers, else floating point.\<close>

definition arith :: "(f64 \<Rightarrow> f64 \<Rightarrow> f64) \<Rightarrow> (int \<Rightarrow> int \<Rightarrow> int) \<Rightarrow> numkind \<times> f64 \<Rightarrow> numkind \<times> f64 \<Rightarrow> refval" where
  "arith fop iop a b =
     Inr (if fst a = KInteger \<and> fst b = KInteger
          then (KInteger, f64_of_int (int64_wrap (iop (f64_to_int 64 (snd a)) (f64_to_int 64 (snd b)))))
          else (KNumeric, fop (snd a) (snd b)))"

fun ref_num :: "opcode \<Rightarrow> numkind \<times> f64 \<Rightarrow> numkind \<times> f64 \<Rightarrow> refval" where
  "ref_num op_add a b = arith f64_add (+) a b"
| "ref_num op_subtract a b = arith f64_sub (-) a b"
| "ref_num op_multiply a b = arith f64_mul (*) a b"
| "ref_num op_divide a b =
     (if f64_is_zero (snd b) then Inl (script_err E_DivisionByZero ''division by zero'')
      else Inr (KNumeric, f64_div (snd a) (snd b)))"
| "ref_num op_modulo a b =
     (if f64_is_zero (snd b) then Inl (script_err E_DivisionByZero ''modulo by zero'')
      else Inr (KNumeric, f64_sub (snd a) (f64_mul (snd b) (f64_of_int (f64_to_int 64 (f64_div (snd a) (snd b)))))))"
| "ref_num op_less a b = truth (f64_less (snd a) (snd b))"
| "ref_num op_greater a b = truth (\<not> f64_less (snd a) (snd b) \<and> \<not> f64_eq (snd a) (snd b))"
| "ref_num op_leq a b = truth (f64_eq (snd a) (snd b) \<or> f64_less (snd a) (snd b))"
| "ref_num op_geq a b = truth (\<not> f64_less (snd a) (snd b))"
| "ref_num op_and a b = truth (\<not> f64_is_zero (snd a) \<and> \<not> f64_is_zero (snd b))"
| "ref_num op_or a b = truth (\<not> f64_is_zero (snd a) \<or> \<not> f64_is_zero (snd b))"
| "ref_num _ a b = Inr b"

text \<open>Nothing equals an error on the left; an error on the right counts as the number zero.\<close>

fun ref_eq :: "refval \<Rightarrow> refval \<Rightarrow> bool" where
  "ref_eq (Inl _) b = False"
| "ref_eq (Inr a) (Inl _) = f64_eq (snd a) (F_Fin 0)"
| "ref_eq (Inr a) (Inr b) = f64_eq (snd a) (snd b)"

definition ref_bin :: "opcode \<Rightarrow> refval \<Rightarrow> refval \<Rightarrow> refval" where
  "ref_bin p a b =
     (if p = op_equal then truth (ref_eq a b)
      else if p = op_notequal then truth (\<not> ref_eq a b)
      else case (a, b) of
             (Inl er, _) \<Rightarrow> Inl er
           | (Inr _, Inl er) \<Rightarrow> Inl er
           | (Inr x, Inr y) \<Rightarrow> ref_num p x y)"

fun eval :: "expr \<Rightarrow> refval" where
  "eval (Lit n) = Inr (KInteger, F_Fin (of_nat n))"
| "eval (Unary u x) = ref_un u (eval x)"
| "eval (Bin p x y) = ref_bin p (eval x) (eval y)"

section \<open>The text of an expression\<close>

definition binops :: "opcode set" where
  "binops = {op_multiply, op_divide, op_modulo, op_add, op_subtract, op_equal, op_notequal, op_less, op_greater,
     op_leq, op_geq, op_and, op_or}"

fun opsym :: "opcode \<Rightarrow> string" where
  "opsym op_multiply = ''*''" | "opsym op_divide = ''/''" | "opsym op_modulo = ''%''"
| "opsym op_add = ''+''" | "opsym op_subtract = ''-''" | "opsym op_equal = ''==''"
| "opsym op_notequal = ''!=''" | "opsym op_less = ''<''" | "opsym op_greater = ''>''"
| "opsym op_leq = ''<=''" | "opsym op_geq = ''>=''" | "opsym op_and = ''&&''" | "opsym op_or = ''||''"
| "opsym _ = []"

fun usym :: "uop \<Rightarrow> char" where
  "usym Neg = CHR ''-''" | "usym Inv = CHR ''!''"

text \<open>\<open>level\<close>: how strongly an expression holds together; below it parentheses are needed.\<close>

fun level :: "expr \<Rightarrow> nat" where
  "level (Lit n) = 9" | "level (Unary u x) = 8" | "level (Bin p x y) = precedence p"

definition bracket :: "bool \<Rightarrow> string \<Rightarrow> string" where
  "bracket b s = (if b then CHR ''('' # s @ '')'' else s)"

fun bare :: "expr \<Rightarrow> string" where
  "bare (Lit n) = dec_digits n"
| "bare (Unary u x) = usym u # bracket (level x \<le> 8) (bare x)"
| "bare (Bin p x y) =
     bracket (level x < precedence p) (bare x) @ '' '' @ opsym p @ '' '' @ bracket (level y \<le> precedence p) (bare y)"

text \<open>Literals small enough for a floating point number to hold them, operators that are binary.\<close>

fun wf_expr :: "expr \<Rightarrow> bool" where
  "wf_expr (Lit n) \<longleftrightarrow> n \<le> 2 ^ 53"
| "wf_expr (Unary u x) \<longleftrightarrow> wf_expr x"
| "wf_expr (Bin p x y) \<longleftrightarrow> p \<in> binops \<and> wf_expr x \<and> wf_expr y"

text \<open>The value of the script engine for a reference value, but for the position that an error gets.\<close>

fun val_of :: "refval \<Rightarrow> val" where
  "val_of (Inr (k, x)) = VNum k x"
| "val_of (Inl er) = VErr er False None"

fun unplaced :: "val \<Rightarrow> val" where
  "unplaced (VErr er k c) = VErr er k None"
| "unplaced v = v"

section \<open>The text from the cursor to the end\<close>

definition remaining :: "cursor \<Rightarrow> string \<Rightarrow> bool" where
  "remaining c t \<longleftrightarrow> pvalid (cpos c) \<and> peot (cpos c) = length (text_of c) \<and> ptr c \<le> length (text_of c) \<and>
     drop (ptr c) (text_of c) = t \<and> NUL \<notin> set t"

lemma remaining_c: "remaining c t \<Longrightarrow> cursor_c c i = chr_at t i"
  by (auto simp: remaining_def cursor_c_def chr_at_def)

lemma remaining_add: "remaining c (t @ u) \<Longrightarrow> remaining (ptr_add c (length t)) u"
proof -
  assume r: "remaining c (t @ u)"
  then have d: "drop (ptr c) (text_of c) = t @ u" and p: "ptr c \<le> length (text_of c)" by (auto simp: remaining_def)
  have "drop (length t + ptr c) (text_of c) = u" unfolding drop_drop [symmetric] d by simp
  moreover have "ptr c + length t \<le> length (text_of c)"
    using arg_cong [OF d, of length] p by simp
  ultimately show ?thesis using r by (simp add: remaining_def ptr_add_def add.commute)
qed

lemma remaining_Cons: "remaining c (x # t) \<Longrightarrow> remaining (ptr_add c (Suc 0)) t"
  using remaining_add [of c "[x]" t] by simp

lemma remaining_ahead: "remaining c (t @ u) \<Longrightarrow> ahead c t"
proof -
  assume r: "remaining c (t @ u)"
  then have d: "drop (ptr c) (text_of c) = t @ u" and p: "ptr c \<le> length (text_of c)" by (auto simp: remaining_def)
  have "ptr c + length t \<le> length (text_of c)"
    using arg_cong [OF d, of length] p by simp
  then show ?thesis using r d by (simp add: ahead_def remaining_def)
qed

lemma remaining_nxt: "remaining c (x # t) \<Longrightarrow> x \<noteq> NL \<Longrightarrow> nxt c = ptr_add c (Suc 0)"
proof -
  assume r: "remaining c (x # t)" and x: "x \<noteq> NL"
  from r have "ahead c [x]" using remaining_ahead [of c "[x]" t] by simp
  then show ?thesis using r x by (intro ahead_nxt) (auto simp: remaining_def)
qed

lemma remaining_adv: "remaining c (t @ u) \<Longrightarrow> NL \<notin> set t \<Longrightarrow> adv c (length t) = ptr_add c (length t)"
  using adv_ptr_add [OF remaining_ahead, of c t u] by (simp add: remaining_def)

lemma remaining_nextIf:
  "remaining c t \<Longrightarrow> x \<noteq> NL \<Longrightarrow> x \<noteq> NUL \<Longrightarrow>
     nextIf c x = (if t \<noteq> [] \<and> hd t = x then (ptr_add c (Suc 0), True) else (c, False))"
  by (cases t) (auto simp: nextIf_def remaining_c remaining_nxt chr_at_def)

section \<open>Lexical steps\<close>

lemma at_code_remaining:
  "remaining c t \<Longrightarrow> \<not> is_ws (chr_at t 0) \<Longrightarrow> chr_at t 0 \<noteq> CHR ''/'' \<or> chr_at t 1 \<notin> {CHR ''/'', CHR ''*''} \<Longrightarrow> skipNonCode c = c"
  by (rule skipNonCode_id) (auto simp: at_code_def remaining_c)

lemma skip_space:
  assumes "remaining c (CHR '' '' # t)" "\<not> is_ws (chr_at t 0)"
    "chr_at t 0 \<noteq> CHR ''/'' \<or> chr_at t 1 \<notin> {CHR ''/'', CHR ''*''}"
  shows "skipNonCode c = ptr_add c (Suc 0)"
proof -
  have n: "nxt c = ptr_add c (Suc 0)" using assms(1) by (rule remaining_nxt) simp
  note r = remaining_Cons [OF assms(1)]
  have c: "at_code (ptr_add c (Suc 0))" using assms(2,3) by (auto simp: at_code_def remaining_c [OF r])
  have w: "skipWhiteSpace c = ptr_add c (Suc 0)"
    using remaining_c [OF assms(1), of 0] c
    by (subst skipWhiteSpace.simps) (simp add: n is_ws_def [of "CHR '' ''"] chr_at_def skipWhiteSpace_id at_code_def)
  show ?thesis
    using assms(1) c
    by (simp add: skipNonCode_def remaining_def, subst skipNonCode_loop.simps) (auto simp: w at_code_def Let_def)
qed

text \<open>What ends an operand: the end of the text, a closing parenthesis or a binary operator between spaces.\<close>

definition stops :: "nat \<Rightarrow> string \<Rightarrow> bool" where
  "stops k t \<longleftrightarrow> t = [] \<or> hd t = CHR '')'' \<or>
     (\<exists>p u. p \<in> binops \<and> precedence p \<le> k \<and> t = CHR '' '' # opsym p @ CHR '' '' # u)"

definition starts :: "string \<Rightarrow> bool" where
  "starts t \<longleftrightarrow> t \<noteq> [] \<and> (c_isdigit (hd t) \<or> hd t \<in> {CHR ''('', CHR ''-'', CHR ''!''})"

lemma digit_code: "c_isdigit x \<Longrightarrow> \<not> is_ws x \<and> x \<notin> {CHR ''/'', CHR ''('', CHR '')'', CHR ''-'', CHR ''!'', CHR ''{'', CHR ''['',
    CHR ''}'', CHR '';'', DQUOTE, SQUOTE, CHR '':'', CHR ''='', CHR ''*'', CHR ''%'', CHR ''&'', CHR ''|'', CHR ''+'', CHR ''<'', CHR ''>'', CHR ''.''}"
  by (auto simp: c_isdigit_def is_ws_def char_nat_def)

lemma stops_mono: "stops k t \<Longrightarrow> k \<le> l \<Longrightarrow> stops l t"
  by (auto simp: stops_def intro: le_trans)

lemma stops_ends: "stops k t \<Longrightarrow> t = [] \<or> ends_number (hd t)"
  by (auto simp: stops_def ends_number_def c_isdigit_def c_tolower_def c_isupper_def char_nat_def)

lemma operator_none:
  assumes "remaining c t" "t = [] \<or> c_isdigit (hd t) \<or> hd t \<in> {CHR ''('', CHR '')''}"
  shows "parseOperator c = (c, plain op_none)"
proof -
  have h: "chr_at t 0 = NUL \<or> c_isdigit (chr_at t 0) \<or> chr_at t 0 \<in> {CHR ''('', CHR '')''}"
    using assms(2) by (cases t) (auto simp: chr_at_def)
  then have w: "\<not> is_ws (chr_at t 0)" "chr_at t 0 \<noteq> CHR ''/''" using digit_code by (auto simp: is_ws_def)
  then have s: "skipNonCode c = c" using at_code_remaining [OF assms(1)] by blast
  have "operator_at c = None"
    using h digit_code [of "chr_at t 0"] by (auto simp: operator_at_def remaining_c [OF assms(1)])
  then show ?thesis by (simp add: parseOperator_def s)
qed

lemma operator_binary:
  assumes "remaining c (CHR '' '' # opsym p @ CHR '' '' # t)" "p \<in> binops"
  shows "snd (parseOperator (skipNonCode c)) = plain p"
    "starts t \<or> t = [] \<Longrightarrow> fst (parseOperator (skipNonCode c)) = ptr_add c (length (opsym p) + 2)"
proof -
  let ?d = "ptr_add c (Suc 0)"
  note r = remaining_Cons [OF assms(1)]
  have c0: "\<not> is_ws (chr_at (opsym p @ CHR '' '' # t) 0)"
    "chr_at (opsym p @ CHR '' '' # t) 0 \<noteq> CHR ''/'' \<or> chr_at (opsym p @ CHR '' '' # t) 1 \<notin> {CHR ''/'', CHR ''*''}"
    using assms(2) by (auto simp: binops_def chr_at_def is_ws_def)
  have s: "skipNonCode c = ?d" using assms(1) c0 by (rule skip_space)
  have i: "skipNonCode ?d = ?d" using skipNonCode_idem [of c] by (simp add: s)
  have o: "operator_at ?d = Some (plain p, length (opsym p))"
    using assms(2) by (auto simp: binops_def operator_at_def remaining_c [OF r] chr_at_def checkself_def)
  show "snd (parseOperator (skipNonCode c)) = plain p" by (simp add: parseOperator_def s i o)
  assume st: "starts t \<or> t = []"
  have "adv ?d (length (opsym p)) = ptr_add ?d (length (opsym p))"
    using assms(2) by (intro remaining_adv [OF r]) (auto simp: binops_def)
  moreover have "skipNonCode (ptr_add ?d (length (opsym p))) = ptr_add ?d (length (opsym p) + 1)"
    using skip_space [OF remaining_add [OF r]] st digit_code [of "hd t"]
    by (cases t) (auto simp: starts_def chr_at_def is_ws_def)
  ultimately show "fst (parseOperator (skipNonCode c)) = ptr_add c (length (opsym p) + 2)"
    by (simp add: parseOperator_def s i o)
qed

definition uop_code :: "uop \<Rightarrow> opcode" where
  "uop_code u = (case u of Neg \<Rightarrow> op_subtract | Inv \<Rightarrow> op_not)"

lemma operator_unary:
  assumes "remaining c (usym u # t)" "t \<noteq> [] \<and> (c_isdigit (hd t) \<or> hd t = CHR ''('')"
  shows "parseOperator c = (ptr_add c (Suc 0), plain (uop_code u))"
proof -
  have s: "skipNonCode c = c" by (rule at_code_remaining [OF assms(1)]) (cases u; simp add: chr_at_def is_ws_def)+
  have h: "chr_at t 0 = hd t" "\<not> is_ws (hd t)" "hd t \<notin> {CHR ''='', CHR ''-'', CHR ''/''}"
    using assms(2) digit_code [of "hd t"] by (auto simp: chr_at_def is_ws_def hd_conv_nth)
  have c01: "cursor_c c 0 = usym u" "cursor_c c (Suc 0) = hd t"
    using assms(2) by (simp_all add: remaining_c [OF assms(1)] chr_at_def hd_conv_nth)
  have o: "operator_at c = Some (plain (uop_code u), Suc 0)"
    using h c01 by (cases u) (auto simp: operator_at_def Let_def checkself_def uop_code_def)
  have a: "adv c (Suc 0) = ptr_add c (Suc 0)" using remaining_adv [of c "[usym u]" t] assms(1) by (cases u) auto
  have "skipNonCode (ptr_add c (Suc 0)) = ptr_add c (Suc 0)"
    using h by (intro at_code_remaining [OF remaining_Cons [OF assms(1)]]) auto
  then show ?thesis by (simp add: parseOperator_def s o a del: cursor_advance.simps)
qed

text \<open>A literal up to the end of the text or to what ends a number.\<close>

lemma literal_remaining:
  assumes "remaining c (dec_digits n @ t)" "t = [] \<or> ends_number (hd t)" "n \<le> 2 ^ 53" "length (dec_digits n) < 2 ^ 64"
  shows "parseNumericLiteral e c = (ptr_add c (length (dec_digits n)), VNum KInteger (F_Fin (of_nat n)))"
proof (rule parse_digits [where r = t and x = "chr_at t 0"])
  show "ptr_text c = dec_digits n @ t"
    using assms(1) by (simp add: ptr_text_def remaining_def cstr_no_NUL)
  show "ahead c (dec_digits n)" by (rule remaining_ahead [OF assms(1)])
  show "cursor_c c (length (dec_digits n)) = chr_at t 0"
    using chr_at_append_right [of "dec_digits n" t 0] by (simp add: remaining_c [OF assms(1)])
  show "chr_at t 0 = NUL \<or> ends_number (chr_at t 0)" using assms(2) by (cases t) (auto simp: chr_at_def)
qed (use assms in auto)

section \<open>Steps of the state machine\<close>

inductive runs :: "penv \<Rightarrow> nat \<Rightarrow> proc \<Rightarrow> proc \<Rightarrow> bool" for e where
  runs_0: "runs e 0 p p"
| runs_Suc: "step e (p\<lparr>mResumed := False\<rparr>) = Some q \<Longrightarrow> mResumed q \<Longrightarrow> \<not> mAborted q \<Longrightarrow> runs e n q r \<Longrightarrow> runs e (Suc n) p r"

lemma runs_loop: "runs e n p q \<Longrightarrow> thread_stepLoop e x (n + m) p = thread_stepLoop e x m q"
  by (induction rule: runs.induct) simp_all

lemma runs_trans: "runs e n p q \<Longrightarrow> runs e m q r \<Longrightarrow> runs e (n + m) p r"
  by (induction rule: runs.induct) (auto intro: runs.intros)

definition reaches :: "penv \<Rightarrow> proc \<Rightarrow> proc \<Rightarrow> bool" where
  "reaches e p q \<longleftrightarrow> (\<exists>n. runs e n p q)"

definition onestep :: "penv \<Rightarrow> proc \<Rightarrow> proc \<Rightarrow> bool" where
  "onestep e p q \<longleftrightarrow> step e (p\<lparr>mResumed := False\<rparr>) = Some q \<and> mResumed q \<and> \<not> mAborted q"

lemma reaches_refl: "reaches e p p"
  by (auto simp: reaches_def intro: runs.intros)

lemma reaches_trans: "reaches e p q \<Longrightarrow> reaches e q r \<Longrightarrow> reaches e p r"
  by (auto simp: reaches_def intro: runs_trans)

lemma reaches_step: "onestep e p q \<Longrightarrow> reaches e q r \<Longrightarrow> reaches e p r"
  by (auto simp: reaches_def onestep_def intro: runs.intros)

text \<open>What an expression leaves as it is; a running thread that executes; a frame for coming back.\<close>

definition env_of :: "proc \<Rightarrow> heap \<times> u32 \<times> bool \<times> bool \<times> val list" where
  "env_of p = (pHeap p, mFlags p, mCompletedCB p, mOwned p, mDelivered p)"

definition active :: "proc \<Rightarrow> bool" where
  "active p \<longleftrightarrow> \<not> isCompiler p \<and> \<not> mAborted p \<and> \<not> mSkipping p"

definition framed :: "frame \<Rightarrow> pstate \<Rightarrow> nat \<Rightarrow> opcode \<Rightarrow> proc \<Rightarrow> bool" where
  "framed f s k b p \<longleftrightarrow> fReturn f = s \<and> \<not> fSkipping f \<and> fPrec f = k \<and> fPending f = plain b \<and> fFunc f = mFunc p \<and> fHelper f = mHelper p"

text \<open>\<open>below_frame f p q\<close>: \<open>q\<close> is below the frame \<open>f\<close> that \<open>p\<close> pushed. \<open>returned p q\<close>: \<open>q\<close> is back from it.\<close>

definition below_frame :: "frame \<Rightarrow> proc \<Rightarrow> proc \<Rightarrow> bool" where
  "below_frame f p q \<longleftrightarrow> active q \<and> mStack q = f # mStack p \<and> env_of q = env_of p"

definition returned :: "proc \<Rightarrow> proc \<Rightarrow> bool" where
  "returned p q \<longleftrightarrow> active q \<and> mStack q = mStack p \<and> mFunc q = mFunc p \<and> mHelper q = mHelper p \<and> env_of q = env_of p"

lemma returned_trans: "returned p q \<Longrightarrow> returned q r \<Longrightarrow> returned p r"
  by (auto simp: returned_def)

lemma below_frame_returned: "below_frame f p q \<Longrightarrow> returned q r \<Longrightarrow> below_frame f p r"
  by (auto simp: returned_def below_frame_def)

definition has_value :: "proc \<Rightarrow> refval \<Rightarrow> bool" where
  "has_value p v \<longleftrightarrow> (\<exists>w. mResult p = Some w \<and> unplaced w = val_of v)"

definition ready :: "nat \<Rightarrow> proc \<Rightarrow> bool" where
  "ready k p \<longleftrightarrow> active p \<and> 0 < k \<and> (mState p = Some S_subExpression \<and> mPrec p = k \<or> mState p = Some S_expression \<and> k = 1)"

lemma ready_step: "ready k p \<Longrightarrow> step e (p\<lparr>mResumed := False\<rparr>) = Some (processExpression (p\<lparr>mResumed := False, mPrec := k\<rparr>))"
  by (auto simp: ready_def step_def s_subExpression_def s_expression_def)

fun pre :: "uop option \<Rightarrow> string" where
  "pre None = []" | "pre (Some u) = [usym u]"

fun pend :: "uop option \<Rightarrow> opcode" where
  "pend None = op_none" | "pend (Some u) = uop_code u"

fun applied :: "uop option \<Rightarrow> refval \<Rightarrow> refval" where
  "applied None v = v" | "applied (Some u) v = ref_un u v"

lemma operator_prefix:
  assumes "remaining c (pre u @ t)" "t \<noteq> [] \<and> (c_isdigit (hd t) \<or> hd t = CHR ''('')"
  shows "parseOperator c = (ptr_add c (length (pre u)), plain (pend u))"
  using assms operator_none [of c t] operator_unary [of c _ t] by (cases u) auto

lemma processExpression_prefix:
  assumes "remaining (mSrc p) (pre u @ t)" "t \<noteq> [] \<and> (c_isdigit (hd t) \<or> hd t = CHR ''('')" "0 < mPrec p"
  shows "processExpression p =
    (let q = p\<lparr>mPending := plain (pend u), mSrc := ptr_add (mSrc p) (length (pre u))\<rparr>
     in if hd t = CHR ''('' then resumeAt S_expression (push S_groupedExpression (q\<lparr>mSrc := ptr_add (mSrc p) (length (pre u) + 1)\<rparr>))
        else resumeAt S_simpleTerm (push S_exprFirstTerm q))"
  using assms(2,3) operator_prefix [OF assms(1,2)] remaining_nextIf [OF remaining_add [OF assms(1)], of "CHR ''(''"]
  by (cases u)
     (auto simp: processExpression_def src_operator_def src_nextIf_def Let_def uop_code_def split: uop.splits)

lemmas machine_step = onestep_def step_def resumeAt_def resume_def setState_def push_def push_frame_def
  below_frame_def returned_def active_def framed_def env_of_def

lemma begin_literal:
  assumes "ready k p" "remaining (mSrc p) (pre u @ t)" "t \<noteq> []" "c_isdigit (hd t)"
  obtains f q where "onestep e p q" "below_frame f p q" "framed f S_exprFirstTerm k (pend u) p" "mState q = Some S_simpleTerm"
    "mSrc q = ptr_add (mSrc p) (length (pre u))"
proof -
  let ?p = "p\<lparr>mResumed := False, mPrec := k\<rparr>"
  have r: "active p" "0 < k" using assms(1) by (auto simp: ready_def)
  have d: "hd t \<noteq> CHR ''(''" using digit_code [OF assms(4)] by simp
  obtain q where q: "step e (p\<lparr>mResumed := False\<rparr>) = Some q" "q = processExpression ?p" using ready_step [OF assms(1)] by blast
  have e: "q = resumeAt S_simpleTerm (push S_exprFirstTerm (?p\<lparr>mPending := plain (pend u), mSrc := ptr_add (mSrc p) (length (pre u))\<rparr>))"
    using q(2) processExpression_prefix [of ?p u t] assms r d by (simp add: Let_def)
  show thesis
    by (rule that [of q "hd (mStack q)"]) (use q(1) e r in \<open>simp_all add: machine_step\<close>)
qed

lemma begin_group:
  assumes "ready k p" "remaining (mSrc p) (pre u @ CHR ''('' # t)"
  obtains f q where "onestep e p q" "below_frame f p q" "framed f S_groupedExpression k (pend u) p" "ready 1 q"
    "mSrc q = ptr_add (mSrc p) (length (pre u) + 1)"
proof -
  let ?p = "p\<lparr>mResumed := False, mPrec := k\<rparr>"
  have r: "active p" "0 < k" using assms(1) by (auto simp: ready_def)
  obtain q where q: "step e (p\<lparr>mResumed := False\<rparr>) = Some q" "q = processExpression ?p" using ready_step [OF assms(1)] by blast
  have e: "q = resumeAt S_expression (push S_groupedExpression (?p\<lparr>mPending := plain (pend u), mSrc := ptr_add (mSrc p) (length (pre u) + 1)\<rparr>))"
    using q(2) processExpression_prefix [of ?p u "CHR ''('' # t"] assms r by (simp add: Let_def)
  show thesis
    by (rule that [of q "hd (mStack q)"]) (use q(1) e r in \<open>simp_all add: machine_step ready_def\<close>)
qed

section \<open>Terms and parentheses\<close>

text \<open>\<open>popped f st p q\<close>: \<open>q\<close> goes on from \<open>p\<close> with the frame \<open>f\<close> taken from the stack, \<open>st\<close> being left.\<close>

definition popped :: "frame \<Rightarrow> frame list \<Rightarrow> proc \<Rightarrow> proc \<Rightarrow> bool" where
  "popped f st p q \<longleftrightarrow>
     mResumed q \<and> mStack q = st \<and> mSkipping q = fSkipping f \<and> mPrec q = fPrec f \<and> mPending q = fPending f \<and>
     mFunc q = fFunc f \<and> mHelper q = fHelper f \<and> mState q = Some (fReturn f) \<and> mOlder q = fResult f \<and>
     mSrc q = mSrc p \<and> env_of q = env_of p \<and> isCompiler q = isCompiler p \<and> mAborted q = mAborted p"

lemma actual_value:
  assumes "unplaced w = val_of v"
  shows "actualValue w = Some w" "calculationValue p w = Some w"
  using assms by (cases w; cases v; auto)+

lemma popWithValidResult_frame:
  assumes "active p" "mStack p = f # st" "has_value p v" "b \<Longrightarrow> \<exists>x. v = Inr x"
  shows "popped f st p (popWithValidResult b p)" "has_value (popWithValidResult b p) v"
proof -
  obtain w where w: "mResult p = Some w" "unplaced w = val_of v" using assms(3) by (auto simp: has_value_def)
  note a = actual_value [OF w(2)]
  define w' where "w' = (case w of VErr e k None \<Rightarrow> VErr e k (Some (mSrc p)) | _ \<Rightarrow> w)"
  define s where "s = (pop p)\<lparr>mResult := Some w'\<rparr>"
  have u: "unplaced w' = val_of v" using w(2) by (auto simp: w'_def split: val.splits option.splits)
  have c: "checkAndResume s = resume s" if b
    using assms(1,2) assms(4) [OF that] u
    by (cases w') (auto simp: s_def checkAndResume_def thread_checkAndResume_def pop_def pop_frame_def active_def)
  have e: "popWithValidResult b p = resume s"
    using assms(1,2) a c w(1)
    by (cases b) (auto simp: popWithValidResult_def s_def w'_def pop_def pop_frame_def Let_def split: val.splits option.splits)
  show "popped f st p (popWithValidResult b p)"
    unfolding e popped_def using assms(2) by (simp add: s_def resume_def pop_def pop_frame_def env_of_def)
  show "has_value (popWithValidResult b p) v"
    unfolding e has_value_def using u by (simp add: s_def resume_def)
qed

lemma popped_returned:
  assumes "popped f (mStack p) q r" "below_frame f p q" "framed f s k b p"
  shows "returned p r" "mState r = Some s" "mPrec r = k" "mPending r = plain b" "mSrc r = mSrc q" "mResumed r" "\<not> mAborted r"
    "mOlder r = fResult f"
  using assms by (auto simp: popped_def below_frame_def framed_def returned_def active_def)

lemma digits_start: "c_isdigit (hd (dec_digits n @ t))" "dec_digits n @ t \<noteq> []"
  using dec_digits_nz [of n] dec_digits_digits [of "hd (dec_digits n)" n] by (simp_all add: hd_append)

lemma simpleTerm_literal:
  assumes "remaining (mSrc p) (dec_digits n @ t)" "t = [] \<or> ends_number (hd t)" "n \<le> 2 ^ 53" "length (dec_digits n) < 2 ^ 64"
  shows "s_simpleTerm e p = Some (popWithValidResult True
    (p\<lparr>mSrc := ptr_add (mSrc p) (length (dec_digits n)), mResult := Some (VNum KInteger (F_Fin (of_nat n)))\<rparr>))"
proof -
  let ?t = "dec_digits n @ t"
  have h: "chr_at ?t 0 = hd ?t" using digits_start(2) [of n t] by (simp add: chr_at_def hd_conv_nth)
  have c: "cursor_c (mSrc p) 0 = hd ?t" using remaining_c [OF assms(1)] h by simp
  note d = digit_code [OF digits_start(1) [of n t]]
  have s: "skipNonCode (mSrc p) = mSrc p" using d h by (intro at_code_remaining [OF assms(1)]) auto
  have i: "ident_len (mSrc p) = None"
    using digits_start(1) [of n t]
    by (simp add: ident_len_def c) (auto simp: c_isalpha_def c_isupper_def c_islower_def c_isdigit_def)
  have eot: "\<not> EOT (mSrc p)" using digits_start(1) [of n t] by (auto simp: cursor_c_EOT c c_isdigit_def char_nat_def)
  show ?thesis
    using literal_remaining [OF assms, of "senv (pe e)"] d eot
    by (simp add: s_simpleTerm_def src_c_def src_nextCodeIf_def src_nextIf_def src_identifier_def nextCodeIf_def nextIf_def
        parseIdentifier_def s c i)
qed

lemma literal_step:
  assumes "below_frame f p q" "framed f S_exprFirstTerm k b p" "mState q = Some S_simpleTerm"
    "remaining (mSrc q) (dec_digits n @ t)" "t = [] \<or> ends_number (hd t)" "n \<le> 2 ^ 53" "length (dec_digits n) < 2 ^ 64"
  obtains r where "onestep e q r" "returned p r" "mState r = Some S_exprFirstTerm" "mPrec r = k" "mPending r = plain b"
    "mSrc r = ptr_add (mSrc q) (length (dec_digits n))" "has_value r (Inr (KInteger, F_Fin (of_nat n)))"
proof -
  let ?q = "q\<lparr>mResumed := False, mSrc := ptr_add (mSrc q) (length (dec_digits n)), mResult := Some (VNum KInteger (F_Fin (of_nat n)))\<rparr>"
  let ?v = "Inr (KInteger, F_Fin (of_nat n))"
  have q: "active ?q" "mStack ?q = f # mStack p" "has_value ?q ?v"
    using assms(1) by (simp_all add: below_frame_def active_def has_value_def)
  have i: "below_frame f p ?q" using assms(1) by (simp add: below_frame_def active_def env_of_def)
  note r = popWithValidResult_frame [OF q, of True]
  have st: "step e (q\<lparr>mResumed := False\<rparr>) = Some (popWithValidResult True ?q)"
    using assms(3) simpleTerm_literal [of "q\<lparr>mResumed := False\<rparr>" n t e] assms(4-7) by (simp add: step_def)
  show thesis
    by (rule that [of "popWithValidResult True ?q"]) (use st r popped_returned [OF r(1) i assms(2)] in \<open>auto simp: onestep_def\<close>)
qed

lemma first_term_step:
  assumes "active p" "mState p = Some S_exprFirstTerm" "mPending p = plain (pend u)" "has_value p v"
  obtains r where "onestep e p r" "returned p r" "mState r = Some S_exprLeftSide" "mPrec r = mPrec p" "mSrc r = mSrc p"
    "has_value r (applied u v)"
proof -
  obtain w where w: "mResult p = Some w" "unplaced w = val_of v" using assms(4) by (auto simp: has_value_def)
  let ?r = "s_exprFirstTerm e (p\<lparr>mResumed := False\<rparr>)"
  have "step e (p\<lparr>mResumed := False\<rparr>) = Some ?r" using assms(2) by (simp add: step_def)
  moreover have "mResumed ?r \<and> \<not> mAborted ?r \<and> returned p ?r \<and> mState ?r = Some S_exprLeftSide \<and> mPrec ?r = mPrec p \<and> mSrc ?r = mSrc p"
    using assms(1) by (auto simp: s_exprFirstTerm_def resumeAt_def setState_def resume_def returned_def active_def env_of_def split: option.splits)
  moreover have "has_value ?r (applied u v)"
  proof (cases v)
    case (Inl er)
    then have "\<not> defined_val w" using w(2) by (cases w) (auto simp: defined_val_def isErr_def hasType_def has_flag_def ti_error_def)
    then show ?thesis
      using w Inl by (cases u) (auto simp: s_exprFirstTerm_def resumeAt_def setState_def resume_def has_value_def)
  next
    case (Inr a)
    obtain k x where a: "a = (k, x)" by fastforce
    have wv: "w = VNum k x" using w(2) Inr a by (cases w) auto
    have d: "defined_val w"
      by (simp add: wv defined_val_def undefined_val_def isErr_def hasType_def has_flag_def ti_error_def ti_numeric_def ti_null_def)
    show ?thesis
    proof (cases u)
      case None
      then show ?thesis using w assms(3) d by (auto simp: s_exprFirstTerm_def resumeAt_def setState_def resume_def has_value_def)
    next
      case (Some o')
      then show ?thesis using w(1) assms(1,3) d Inr a
        by (cases o') (auto simp: s_exprFirstTerm_def resumeAt_def setState_def resume_def has_value_def active_def uop_code_def wv truth_def)
    qed
  qed
  ultimately show thesis by (intro that [of ?r]) (auto simp: onestep_def)
qed

section \<open>Operators\<close>

lemma forward_operator: "forward c (fst (parseOperator c))"
  by (auto simp: parseOperator_def Let_def split: option.split intro: forward_trans [OF forward_skipNonCode] forward_trans [OF forward_adv])

lemma reset_pos: "set_pos (cpos (mSrc p)) (fst (src_operator (src_skip p))) = p\<lparr>mSrc := mSrc p\<rparr>"
proof -
  have "csrc (fst (parseOperator (skipNonCode (mSrc p)))) = csrc (mSrc p)"
    using forward_trans [OF forward_skipNonCode forward_operator, of "mSrc p"] by (simp add: forward_def)
  then have "(fst (parseOperator (skipNonCode (mSrc p))))\<lparr>cpos := cpos (mSrc p)\<rparr> = mSrc p" by (intro cursor.equality) simp_all
  then show ?thesis by (simp add: set_pos_def src_operator_def src_skip_def Let_def split_beta)
qed

lemma stops_operator:
  assumes "remaining c t" "stops k t"
  shows "snd (parseOperator (skipNonCode c)) = plain op_none \<or> precedence (oc (snd (parseOperator (skipNonCode c)))) \<le> k"
proof (cases "t = [] \<or> hd t = CHR '')''")
  case True
  then have "skipNonCode c = c" by (intro at_code_remaining [OF assms(1)]) (cases t; auto simp: chr_at_def is_ws_def)+
  then show ?thesis using operator_none [OF assms(1)] True by auto
next
  case False
  then obtain p u where "p \<in> binops" "precedence p \<le> k" "t = CHR '' '' # opsym p @ CHR '' '' # u"
    using assms(2) by (auto simp: stops_def)
  then show ?thesis using operator_binary(1) [of c p u] assms(1) by simp
qed

lemma leftside_stop:
  assumes "below_frame f p q" "framed f s k b p" "mState q = Some S_exprLeftSide" "remaining (mSrc q) t" "stops (mPrec q) t"
    "has_value q v"
  obtains r where "onestep e q r" "returned p r" "mState r = Some s" "mPrec r = k" "mPending r = plain b" "mOlder r = fResult f"
    "mSrc r = mSrc q" "has_value r v"
proof -
  let ?q = "q\<lparr>mResumed := False, mSrc := mSrc q\<rparr>"
  obtain w where w: "mResult q = Some w" "unplaced w = val_of v" using assms(6) by (auto simp: has_value_def)
  have q: "active ?q" "mStack ?q = f # mStack p" "has_value ?q v"
    using assms(1) w by (simp_all add: below_frame_def active_def has_value_def)
  have i: "below_frame f p ?q" using assms(1) by (simp add: below_frame_def active_def env_of_def)
  note r = popWithValidResult_frame [OF q, of False]
  have o: "snd (src_operator (src_skip (q\<lparr>mResumed := False\<rparr>))) = plain op_none \<or>
      precedence (oc (snd (src_operator (src_skip (q\<lparr>mResumed := False\<rparr>))))) \<le> mPrec q"
    using stops_operator [OF assms(4,5)] by (simp add: src_operator_def src_skip_def Let_def split_beta)
  have "s_exprLeftSide (q\<lparr>mResumed := False\<rparr>) = popWithResult False (set_pos (cpos (mSrc q)) (fst (src_operator (src_skip (q\<lparr>mResumed := False\<rparr>)))))"
    using o by (simp add: s_exprLeftSide_def Let_def split_beta)
  also have "\<dots> = popWithResult False ?q" using reset_pos [of "q\<lparr>mResumed := False\<rparr>"] by simp
  also have "\<dots> = popWithValidResult False ?q" using w actual_value [OF w(2)] by (simp add: popWithResult_def)
  finally have st: "step e (q\<lparr>mResumed := False\<rparr>) = Some (popWithValidResult False ?q)" using assms(3) by (simp add: step_def)
  show thesis
    by (rule that [of "popWithValidResult False ?q"]) (use st r popped_returned [OF r(1) i assms(2)] in \<open>auto simp: onestep_def\<close>)
qed

lemma leftside_go:
  assumes "active p" "mState p = Some S_exprLeftSide" "mPrec p = k" "b \<in> binops" "k < precedence b"
    "remaining (mSrc p) (CHR '' '' # opsym b @ CHR '' '' # t)" "starts t \<or> t = []"
  obtains f q where "onestep e p q" "below_frame f p q" "framed f S_exprRightSide k b p" "fResult f = mResult p"
    "ready (precedence b) q" "mResult q = mResult p" "mSrc q = ptr_add (mSrc p) (length (opsym b) + 2)"
proof -
  let ?q = "s_exprLeftSide (p\<lparr>mResumed := False\<rparr>)"
  have o: "b \<noteq> op_none" using assms(4) by (auto simp: binops_def)
  have q: "?q = resumeAt S_subExpression ((push S_exprRightSide (p\<lparr>mResumed := False, mSrc := ptr_add (mSrc p) (length (opsym b) + 2), mPending := plain b\<rparr>))\<lparr>mPrec := precedence b\<rparr>)"
    using operator_binary [OF assms(6,4)] assms(3,5,7) o
    by (simp add: s_exprLeftSide_def src_operator_def src_skip_def Let_def split_beta)
  have "step e (p\<lparr>mResumed := False\<rparr>) = Some ?q" using assms(2) by (simp add: step_def)
  then show thesis using assms(1,3,5) by (intro that [of ?q "hd (mStack ?q)"]) (auto simp: q machine_step ready_def)
qed

lemma unplaced_val_of [simp]: "unplaced (val_of a) = val_of a"
  by (cases a) auto

lemma num_op_ref: "num_op e fop iop k y (VNum m u) = val_of (arith fop iop (k, y) (m, u))"
  by (cases m) (simp_all add: num_op_def arith_def int64Value_def)

lemma val_of_truth: "val_of (truth b) = vbool b"
  by (simp add: truth_def)

lemmas type_tests = defined_val_def undefined_val_def isErr_def hasType_def has_flag_def ti_error_def ti_numeric_def ti_null_def

lemma number_test: "undefined_val (VNum k y) = False" "defined_val (VNum k y)" "isErr (VNum k y) = False"
  by (simp_all add: type_tests)

lemma error_test: "undefined_val (VErr er k c) = False" "\<not> defined_val (VErr er k c)" "isErr (VErr er k c)"
  by (simp_all add: type_tests)

lemma binary_op_ref:
  assumes "p \<in> binops" "p \<noteq> op_equal" "p \<noteq> op_notequal"
  shows "binary_op e h (plain p) (VNum k y) (VNum m u) = Some (Inr (h, Some (val_of (ref_num p (k, y) (m, u)))))"
  using assms
  by (cases p)
     (simp_all add: binops_def binary_op_def val_add_def val_sub_def val_mul_def val_div_def val_mod_def val_less_def val_greater_def
       val_leq_def val_geq_def val_eq_def num_op_ref val_of_truth err_value_def number_test, auto)

lemma val_eq_ref:
  assumes "unplaced l = val_of a" "unplaced r = val_of b" "\<forall>er. a = Inl er \<longrightarrow> edomain er = script_domain"
  shows "val_eq e h l r = Some (ref_eq a b)"
proof (cases a)
  case (Inl er)
  then obtain c where l: "l = VErr er False c" using assms(1) by (cases l) auto
  have "\<not> err_isError er err_base_domain n" for n
    using assms(3) Inl by (simp add: err_isError_def err_isDomain_def err_base_domain_def script_domain_def)
  then show ?thesis by (simp add: l Inl val_eq_def)
next
  case (Inr x)
  obtain k y where x: "x = (k, y)" by fastforce
  have l: "l = VNum k y" using assms(1) Inr x by (cases l) auto
  show ?thesis
  proof (cases b)
    case b: (Inl er)
    then obtain c where "r = VErr er False c" using assms(2) by (cases r) auto
    then show ?thesis by (simp add: l Inr x b val_eq_def error_test)
  next
    case b: (Inr z)
    then obtain m u where "r = VNum m u" "z = (m, u)" using assms(2) by (cases r; cases z) auto
    then show ?thesis by (simp add: l Inr x b val_eq_def number_test)
  qed
qed

lemma binary_ref:
  assumes "unplaced l = val_of a" "unplaced r = val_of b" "p \<in> binops" "\<forall>er. a = Inl er \<longrightarrow> edomain er = script_domain"
  shows "\<exists>x. binary_result e h (plain p) l r = Some (Inr (h, x)) \<and>
    unplaced (case x of Some v \<Rightarrow> v | None \<Rightarrow> r) = val_of (ref_bin p a b)"
proof (cases "p = op_equal \<or> p = op_notequal")
  case True
  then show ?thesis using val_eq_ref [OF assms(1,2,4)]
    by (auto simp: binary_result_def val_neq_def ref_bin_def val_of_truth)
next
  case False
  then have q: "plain p \<noteq> plain op_assignOrEq" using assms(3) by (auto simp: binops_def)
  show ?thesis
  proof (cases a)
    case (Inl er)
    then obtain c where "l = VErr er False c" using assms(1) by (cases l) auto
    then show ?thesis using False q Inl by (simp add: binary_result_def error_test ref_bin_def)
  next
    case (Inr x)
    then obtain k y where l: "l = VNum k y" "x = (k, y)" using assms(1) by (cases l; cases x) auto
    show ?thesis
    proof (cases b)
      case b: (Inl er)
      then obtain c where "r = VErr er False c" using assms(2) by (cases r) auto
      then show ?thesis using False q Inr b l by (simp add: binary_result_def error_test number_test ref_bin_def)
    next
      case b: (Inr z)
      then obtain m u where "r = VNum m u" "z = (m, u)" using assms(2) by (cases r; cases z) auto
      then show ?thesis using False q Inr b l binary_op_ref [OF assms(3)]
        by (simp add: binary_result_def number_test ref_bin_def)
    qed
  qed
qed

lemma rightside_step:
  assumes "active p" "mState p = Some S_exprRightSide" "mOlder p = Some l" "unplaced l = val_of a" "has_value p b"
    "mPending p = plain x" "x \<in> binops" "\<forall>er. a = Inl er \<longrightarrow> edomain er = script_domain"
  obtains q where "onestep e p q" "returned p q" "mState q = Some S_exprLeftSide" "mPrec q = mPrec p" "mSrc q = mSrc p"
    "has_value q (ref_bin x a b)"
proof -
  obtain r where r: "mResult p = Some r" "unplaced r = val_of b" using assms(5) by (auto simp: has_value_def)
  obtain v where v: "binary_result (pe e) (pHeap p) (plain x) l r = Some (Inr (pHeap p, v))"
    "unplaced (case v of Some v \<Rightarrow> v | None \<Rightarrow> r) = val_of (ref_bin x a b)"
    using binary_ref [OF assms(4) r(2) assms(7,8)] by blast
  note l = actual_value [OF assms(4)] actual_value [OF r(2)]
  let ?q = "resumeAt S_exprLeftSide (p\<lparr>mResumed := False, pHeap := pHeap p, mResult := (case v of Some _ \<Rightarrow> v | None \<Rightarrow> mResult p)\<rparr>)"
  have "step e (p\<lparr>mResumed := False\<rparr>) = Some ?q"
    using assms(1-3,6) r(1) l v(1) by (cases v) (simp_all add: step_def s_exprRightSide_def active_def)
  then show thesis
    using assms(1) v(2) r(1)
    by (intro that [of ?q]) (auto simp: machine_step has_value_def split: option.splits)
qed

lemma group_close:
  assumes "active p" "mState p = Some S_groupedExpression" "remaining (mSrc p) (CHR '')'' # t)"
  shows "onestep e p (resumeAt S_member (push S_exprFirstTerm (p\<lparr>mResumed := False, mSrc := ptr_add (mSrc p) 1\<rparr>)))"
  using remaining_nextIf [OF assms(3), of "CHR '')''"] assms(1,2)
  by (simp add: machine_step s_groupedExpression_def src_nextIf_def)

lemma member_step:
  assumes "below_frame f p q" "framed f S_exprFirstTerm k b p" "mState q = Some S_member" "remaining (mSrc q) t" "stops m t" "has_value q v"
  obtains r where "onestep e q r" "returned p r" "mState r = Some S_exprFirstTerm" "mPrec r = k" "mPending r = plain b"
    "mSrc r = mSrc q" "has_value r v"
proof -
  let ?q = "q\<lparr>mResumed := False, mSrc := mSrc q\<rparr>"
  have q: "active ?q" "mStack ?q = f # mStack p" "has_value ?q v" "mResult q \<noteq> None"
    using assms(1,6) by (auto simp: below_frame_def active_def has_value_def)
  have i: "below_frame f p ?q" using assms(1) by (simp add: below_frame_def active_def env_of_def)
  note r = popWithValidResult_frame [OF q(1-3), of False]
  have c: "chr_at t 0 \<notin> {CHR ''.'', CHR ''['', CHR ''(''}" using assms(5) by (cases t) (auto simp: stops_def chr_at_def)
  have nx: "src_nextIf x (q\<lparr>mResumed := False\<rparr>) = (?q, False)" "src_nextIf x ?q = (?q, False)" if "x \<in> {CHR ''.'', CHR ''['', CHR ''(''}" for x
    using c that remaining_c [OF assms(4)] by (auto simp: src_nextIf_def nextIf_def)
  have "s_member e (q\<lparr>mResumed := False\<rparr>) = Some (popWithValidResult False ?q)"
    using nx q(4) by (simp add: s_member_def memberEventCheck_def del: proc.update_convs)
  then have st: "step e (q\<lparr>mResumed := False\<rparr>) = Some (popWithValidResult False ?q)" using assms(3) by (simp add: step_def)
  show thesis
    by (rule that [of "popWithValidResult False ?q"]) (use st r popped_returned [OF r(1) i assms(2)] in \<open>auto simp: onestep_def\<close>)
qed

lemma group_steps:
  assumes "below_frame f p q" "framed f S_groupedExpression k b p" "mState q = Some S_exprLeftSide" "mPrec q = 1"
    "remaining (mSrc q) (CHR '')'' # t)" "stops m t" "has_value q v"
  obtains r where "reaches e q r" "returned p r" "mState r = Some S_exprFirstTerm" "mPrec r = k" "mPending r = plain b"
    "mSrc r = ptr_add (mSrc q) 1" "has_value r v"
proof -
  have s: "stops (mPrec q) (CHR '')'' # t)" by (simp add: stops_def)
  obtain g where g: "onestep e q g" "returned p g" "mState g = Some S_groupedExpression" "mPrec g = k" "mPending g = plain b"
    "mSrc g = mSrc q" "has_value g v"
    using leftside_stop [OF assms(1-3,5) s assms(7)] by metis
  let ?r = "resumeAt S_member (push S_exprFirstTerm (g\<lparr>mResumed := False, mSrc := ptr_add (mSrc g) 1\<rparr>))"
  have a: "active g" using g(2) by (simp add: returned_def)
  have o1: "onestep e g ?r" using group_close [OF a g(3)] assms(5) g(6) by simp
  have i: "below_frame (hd (mStack ?r)) g ?r" "framed (hd (mStack ?r)) S_exprFirstTerm k b g" "mState ?r = Some S_member"
    "mSrc ?r = ptr_add (mSrc q) 1" "has_value ?r v"
    using a g(4-7) by (simp_all add: machine_step has_value_def)
  have t: "remaining (mSrc ?r) t" using remaining_Cons [OF assms(5)] i(4) by simp
  obtain r where r: "onestep e ?r r" "returned g r" "mState r = Some S_exprFirstTerm" "mPrec r = k" "mPending r = plain b"
    "mSrc r = mSrc ?r" "has_value r v"
    using member_step [OF i(1-3) t assms(6) i(5)] by metis
  have "reaches e q r" using g(1) o1 r(1) reaches_refl by (blast intro: reaches_step)
  then show thesis using r i(4) returned_trans [OF g(2) r(2)] by (intro that [of r]) auto
qed

section \<open>Whole expressions\<close>

text \<open>
  \<open>does e s m v\<close>: from where an expression begins, with text \<open>s\<close> before what stops it, the processor
  gets to the end of \<open>s\<close> with the value \<open>v\<close>, at any precedence below \<open>m\<close>.
\<close>

definition does :: "penv \<Rightarrow> string \<Rightarrow> nat \<Rightarrow> refval \<Rightarrow> bool" where
  "does e s m v \<longleftrightarrow>
     (\<forall>k p t. ready k p \<and> k < m \<and> remaining (mSrc p) (s @ t) \<and> stops m t \<longrightarrow>
        (\<exists>q. reaches e p q \<and> returned p q \<and> mState q = Some S_exprLeftSide \<and> mPrec q = k \<and>
             mSrc q = ptr_add (mSrc p) (length s) \<and> has_value q v))"

lemma doesI:
  assumes "\<And>k p t. ready k p \<Longrightarrow> k < m \<Longrightarrow> remaining (mSrc p) (s @ t) \<Longrightarrow> stops m t \<Longrightarrow>
    \<exists>q. reaches e p q \<and> returned p q \<and> mState q = Some S_exprLeftSide \<and> mPrec q = k \<and>
        mSrc q = ptr_add (mSrc p) (length s) \<and> has_value q v"
  shows "does e s m v"
  using assms by (auto simp: does_def)

lemma doesE:
  assumes "does e s m v" "ready k p" "k < m" "remaining (mSrc p) (s @ t)" "stops m t"
  obtains q where "reaches e p q" "returned p q" "mState q = Some S_exprLeftSide" "mPrec q = k"
    "mSrc q = ptr_add (mSrc p) (length s)" "has_value q v"
  using assms unfolding does_def by blast

lemma dec_digits_length: "length (dec_digits n) \<le> Suc n"
proof (induction n rule: dec_digits.induct)
  case (1 n)
  then show ?case by (subst dec_digits.simps) auto
qed

lemma does_literal:
  assumes "n \<le> 2 ^ 53"
  shows "does e (pre u @ dec_digits n) m (applied u (Inr (KInteger, F_Fin (of_nat n))))"
proof (rule doesI)
  fix k p t
  assume p: "ready k p" "k < m" "remaining (mSrc p) ((pre u @ dec_digits n) @ t)" "stops m t"
  let ?c = "ptr_add (mSrc p) (length (pre u))"
  have r: "remaining (mSrc p) (pre u @ (dec_digits n @ t))" using p(3) by simp
  have l: "length (dec_digits n) < 2 ^ 64" using dec_digits_length [of n] assms by simp
  obtain f q where q: "onestep e p q" "below_frame f p q" "framed f S_exprFirstTerm k (pend u) p" "mState q = Some S_simpleTerm"
    "mSrc q = ?c"
    using begin_literal [OF p(1) r digits_start(2,1)] by metis
  have d: "remaining (mSrc q) (dec_digits n @ t)" using remaining_add [OF r] q(5) by simp
  obtain g where g: "onestep e q g" "returned p g" "mState g = Some S_exprFirstTerm" "mPrec g = k" "mPending g = plain (pend u)"
    "mSrc g = ptr_add (mSrc q) (length (dec_digits n))" "has_value g (Inr (KInteger, F_Fin (of_nat n)))"
    using literal_step [OF q(2-4) d stops_ends [OF p(4)] assms l] by metis
  have a: "active g" using g(2) by (simp add: returned_def)
  obtain h where h: "onestep e g h" "returned g h" "mState h = Some S_exprLeftSide" "mPrec h = mPrec g" "mSrc h = mSrc g"
    "has_value h (applied u (Inr (KInteger, F_Fin (of_nat n))))"
    using first_term_step [OF a g(3,5,7)] by metis
  have "reaches e p h" using q(1) g(1) h(1) reaches_refl by (blast intro: reaches_step)
  then show "\<exists>q. reaches e p q \<and> returned p q \<and> mState q = Some S_exprLeftSide \<and> mPrec q = k \<and>
      mSrc q = ptr_add (mSrc p) (length (pre u @ dec_digits n)) \<and> has_value q (applied u (Inr (KInteger, F_Fin (of_nat n))))"
    using h g(4,6) q(5) returned_trans [OF g(2) h(2)] by (intro exI [of _ h]) simp
qed

lemma does_group:
  assumes "does e s l v" "1 < l"
  shows "does e (pre u @ CHR ''('' # s @ '')'') m (applied u v)"
proof (rule doesI)
  fix k p t
  assume p: "ready k p" "k < m" "remaining (mSrc p) ((pre u @ CHR ''('' # s @ '')'') @ t)" "stops m t"
  have r: "remaining (mSrc p) (pre u @ CHR ''('' # s @ CHR '')'' # t)" using p(3) by simp
  obtain f q where q: "onestep e p q" "below_frame f p q" "framed f S_groupedExpression k (pend u) p" "ready 1 q"
    "mSrc q = ptr_add (mSrc p) (length (pre u) + 1)"
    using begin_group [OF p(1) r] by metis
  have d: "remaining (mSrc q) (s @ CHR '')'' # t)" using remaining_add [of "mSrc p" "pre u @ ''(''"] r q(5) by simp
  have st: "stops l (CHR '')'' # t)" by (simp add: stops_def)
  obtain g where g: "reaches e q g" "returned q g" "mState g = Some S_exprLeftSide" "mPrec g = 1"
    "mSrc g = ptr_add (mSrc q) (length s)" "has_value g v"
    using doesE [OF assms(1) q(4) assms(2) d st] by metis
  have d2: "remaining (mSrc g) (CHR '')'' # t)" using remaining_add [OF d] g(5) by simp
  obtain h where h: "reaches e g h" "returned p h" "mState h = Some S_exprFirstTerm" "mPrec h = k" "mPending h = plain (pend u)"
    "mSrc h = ptr_add (mSrc g) 1" "has_value h v"
    using group_steps [OF below_frame_returned [OF q(2) g(2)] q(3) g(3,4) d2 p(4) g(6)] by metis
  have a: "active h" using h(2) by (simp add: returned_def)
  obtain i where i: "onestep e h i" "returned h i" "mState i = Some S_exprLeftSide" "mPrec i = mPrec h" "mSrc i = mSrc h"
    "has_value i (applied u v)"
    using first_term_step [OF a h(3,5,7)] by metis
  have "reaches e p i" using q(1) g(1) h(1) i(1) reaches_refl by (blast intro: reaches_step reaches_trans)
  then show "\<exists>q. reaches e p q \<and> returned p q \<and> mState q = Some S_exprLeftSide \<and> mPrec q = k \<and>
      mSrc q = ptr_add (mSrc p) (length (pre u @ CHR ''('' # s @ '')'')) \<and> has_value q (applied u v)"
    using i h(4,6) g(5) q(5) returned_trans [OF h(2) i(2)] by (intro exI [of _ i]) simp
qed

lemma does_binary:
  assumes "does e s1 m1 v1" "does e s2 m2 v2" "b \<in> binops" "precedence b \<le> m1" "precedence b < m2" "starts s2"
    "\<forall>er. v1 = Inl er \<longrightarrow> edomain er = script_domain"
  shows "does e (s1 @ '' '' @ opsym b @ '' '' @ s2) (precedence b) (ref_bin b v1 v2)"
proof (rule doesI)
  fix k p t
  assume p: "ready k p" "k < precedence b" "remaining (mSrc p) ((s1 @ '' '' @ opsym b @ '' '' @ s2) @ t)" "stops (precedence b) t"
  have r: "remaining (mSrc p) (s1 @ CHR '' '' # opsym b @ CHR '' '' # s2 @ t)" using p(3) by simp
  have st: "stops m1 (CHR '' '' # opsym b @ CHR '' '' # s2 @ t)" using assms(3,4) by (auto simp: stops_def)
  have k: "k < m1" using p(2) assms(4) by simp
  obtain q where q: "reaches e p q" "returned p q" "mState q = Some S_exprLeftSide" "mPrec q = k"
    "mSrc q = ptr_add (mSrc p) (length s1)" "has_value q v1"
    using doesE [OF assms(1) p(1) k r st] by metis
  have a: "active q" using q(2) by (simp add: returned_def)
  have d: "remaining (mSrc q) (CHR '' '' # opsym b @ CHR '' '' # s2 @ t)" using remaining_add [OF r] q(5) by simp
  have s2: "starts (s2 @ t) \<or> s2 @ t = []" using assms(6) by (auto simp: starts_def)
  obtain f g where g: "onestep e q g" "below_frame f q g" "framed f S_exprRightSide k b q" "fResult f = mResult q"
    "ready (precedence b) g" "mSrc g = ptr_add (mSrc q) (length (opsym b) + 2)"
    using leftside_go [OF a q(3,4) assms(3) p(2) d s2] by metis
  have d2: "remaining (mSrc g) (s2 @ t)" using remaining_add [of "mSrc q" "'' '' @ opsym b @ '' ''"] d g(6) by simp
  have st2: "stops m2 t" using stops_mono [OF p(4)] assms(5) by simp
  obtain h where h: "reaches e g h" "returned g h" "mState h = Some S_exprLeftSide" "mPrec h = precedence b"
    "mSrc h = ptr_add (mSrc g) (length s2)" "has_value h v2"
    using doesE [OF assms(2) g(5) assms(5) d2 st2] by metis
  have d3: "remaining (mSrc h) t" using remaining_add [OF d2] h(5) by simp
  have st3: "stops (mPrec h) t" using p(4) h(4) by simp
  obtain i where i: "onestep e h i" "returned q i" "mState i = Some S_exprRightSide" "mPrec i = k" "mPending i = plain b"
    "mOlder i = fResult f" "mSrc i = mSrc h" "has_value i v2"
    using leftside_stop [OF below_frame_returned [OF g(2) h(2)] g(3) h(3) d3 st3 h(6)] by metis
  obtain l where l: "mOlder i = Some l" "unplaced l = val_of v1" using q(6) g(4) i(6) by (auto simp: has_value_def)
  have ai: "active i" using i(2) by (simp add: returned_def)
  obtain j where j: "onestep e i j" "returned i j" "mState j = Some S_exprLeftSide" "mPrec j = mPrec i" "mSrc j = mSrc i"
    "has_value j (ref_bin b v1 v2)"
    using rightside_step [OF ai i(3) l i(8,5) assms(3,7)] by metis
  have src: "mSrc j = ptr_add (mSrc p) (length (s1 @ '' '' @ opsym b @ '' '' @ s2))"
    by (simp add: j(5) i(7) h(5) g(6) q(5) add.assoc)
  have "reaches e g j" by (rule reaches_trans [OF h(1) reaches_step [OF i(1) reaches_step [OF j(1) reaches_refl]]])
  then have "reaches e p j" by (rule reaches_trans [OF q(1) reaches_step [OF g(1)]])
  then show "\<exists>q. reaches e p q \<and> returned p q \<and> mState q = Some S_exprLeftSide \<and> mPrec q = k \<and>
      mSrc q = ptr_add (mSrc p) (length (s1 @ '' '' @ opsym b @ '' '' @ s2)) \<and> has_value q (ref_bin b v1 v2)"
    using j(3,4,6) i(4) src returned_trans [OF returned_trans [OF q(2) i(2)] j(2)] by (intro exI [of _ j]) simp
qed

lemma ref_num_error: "ref_num p a b = Inl er \<Longrightarrow> edomain er = script_domain"
  by (cases p) (auto simp: arith_def truth_def script_err_def split: if_splits)

lemma ref_bin_error: "ref_bin p a b = Inl er \<Longrightarrow> a = Inl er \<or> b = Inl er \<or> edomain er = script_domain"
  by (cases a; cases b) (auto simp: ref_bin_def truth_def dest: ref_num_error split: if_split_asm)

lemma ref_un_error: "ref_un u a = Inl er \<Longrightarrow> a = Inl er"
  by (cases u; cases a) (auto simp: truth_def)

lemma eval_errors: "eval x = Inl er \<Longrightarrow> edomain er = script_domain"
  by (induction x) (auto dest: ref_un_error ref_bin_error)

lemma precedence_bounds: "p \<in> binops \<Longrightarrow> 2 \<le> precedence p \<and> precedence p \<le> 6"
  by (auto simp: binops_def)

lemma level_bounds: "wf_expr x \<Longrightarrow> 1 < level x \<and> level x \<le> 9"
  using precedence_bounds by (cases x) (auto dest: precedence_bounds)

lemma starts_append: "starts s \<Longrightarrow> starts (s @ t)"
  by (simp add: starts_def)

lemma starts_bracket: "starts s \<Longrightarrow> starts (bracket b s)"
  by (simp add: bracket_def) (simp add: starts_def)

lemma starts_bare: "wf_expr x \<Longrightarrow> starts (bare x)"
proof (induction x)
  case (Lit n)
  then show ?case using digits_start [of n "[]"] by (simp add: starts_def)
next
  case (Unary u x)
  then show ?case by (cases u) (simp_all add: starts_def)
next
  case (Bin p x y)
  then show ?case by (simp add: starts_append starts_bracket)
qed

lemma does_bracket:
  assumes "does e (bare x) (level x) v" "1 < level x" "b \<or> m \<le> level x"
  shows "does e (bracket b (bare x)) m v"
proof (cases b)
  case True
  then show ?thesis using does_group [OF assms(1,2), of None m] by (simp add: bracket_def)
next
  case False
  then have m: "m \<le> level x" using assms(3) by simp
  show ?thesis unfolding bracket_def using False
  proof (simp, intro doesI)
    fix k p t
    assume "ready k p" "k < m" "remaining (mSrc p) (bare x @ t)" "stops m t"
    then show "\<exists>q. reaches e p q \<and> returned p q \<and> mState q = Some S_exprLeftSide \<and> mPrec q = k \<and>
        mSrc q = ptr_add (mSrc p) (length (bare x)) \<and> has_value q v"
      using assms(1) stops_mono [OF _ m] less_le_trans [OF _ m] unfolding does_def by blast
  qed
qed

lemma does_bare: "wf_expr x \<Longrightarrow> does e (bare x) (level x) (eval x)"
proof (induction x)
  case (Lit n)
  then show ?case using does_literal [of n e None "level (Lit n)"] by simp
next
  case (Unary u x)
  show ?case
  proof (cases x)
    case (Lit n)
    then show ?thesis using Unary.prems does_literal [of n e "Some u" 8] by (simp add: bracket_def)
  next
    case (Unary u' y)
    then show ?thesis using Unary.IH Unary.prems does_group [of e "bare x" "level x" "eval x" "Some u" 8] by (simp add: bracket_def)
  next
    case (Bin p y z)
    then show ?thesis
      using Unary.IH Unary.prems does_group [of e "bare x" "level x" "eval x" "Some u" 8] precedence_bounds [of p]
      by (simp add: bracket_def)
  qed
next
  case (Bin p x y)
  then have wf: "p \<in> binops" "wf_expr x" "wf_expr y" by simp_all
  have dx: "does e (bracket (level x < precedence p) (bare x)) (precedence p) (eval x)"
    using Bin.IH(1) wf level_bounds [of x] by (intro does_bracket) auto
  have dy: "does e (bracket (level y \<le> precedence p) (bare y)) (precedence p + 1) (eval y)"
    using Bin.IH(2) wf level_bounds [of y] by (intro does_bracket) auto
  show ?case
    using does_binary [OF dx dy wf(1)] starts_bracket [OF starts_bare [OF wf(3)]] eval_errors [of x] by simp
qed

section \<open>The thread\<close>

lemma bare_text: "wf_expr x \<Longrightarrow> NUL \<notin> set (bare x)"
proof (induction x)
  case (Lit n)
  then show ?case using dec_digits_digits [of NUL n] by (auto simp: c_isdigit_def char_nat_def)
next
  case (Unary u x)
  then show ?case by (cases u) (auto simp: bracket_def)
next
  case (Bin p x y)
  then show ?case by (auto simp: bracket_def binops_def)
qed

lemma complete_delivers:
  assumes "active p" "mResult p = Some w" "mCompletedCB p" "mDelivered p = []"
    "isErr w \<or> remaining (mSrc p) []"
  shows "mDelivered (complete (mResult p) p) = [w]" "\<not> mResumed (complete (mResult p) p)"
proof -
  have "snd (final_result (Some w) (p\<lparr>mRunning := False\<rparr>)) = w"
  proof (cases "isErr w")
    case True
    then show ?thesis by (auto simp: final_result_def)
  next
    case False
    then have r: "remaining (mSrc p) []" using assms(5) by blast
    have c0: "cursor_c (mSrc p) 0 = NUL" by (simp add: remaining_c [OF r] chr_at_def)
    then have "skipNonCode (mSrc p) = mSrc p" by (intro skipNonCode_id) (simp add: at_code_def)
    then show ?thesis using c0 by (simp add: final_result_def cursor_c_EOT)
  qed
  then show "mDelivered (complete (mResult p) p) = [w]" "\<not> mResumed (complete (mResult p) p)"
    using assms(1-4)
    by (auto simp: active_def complete_def thread_complete_def sp_complete_def thread_deactivate_def deactivate_def Let_def split_beta)
qed

text \<open>A thread that runs an expression, and how it ends once the text is read.\<close>

definition expression_thread :: "cursor \<Rightarrow> proc \<Rightarrow> bool" where
  "expression_thread c p \<longleftrightarrow>
     active p \<and> mState p = Some S_expression \<and> (\<exists>f. mStack p = [f] \<and> framed f S_complete 0 op_none (p\<lparr>mStack := []\<rparr>)) \<and>
     mSrc p = c \<and> mCompletedCB p \<and> mDelivered p = []"

lemma expression_thread_ready: "expression_thread c p \<Longrightarrow> ready 1 p"
  by (simp add: expression_thread_def ready_def)

lemma expression_thread_started:
  "has_flag f ef_expression \<Longrightarrow> \<not> has_flag f ef_scanning \<Longrightarrow> expression_thread c (started_thread c f vars)"
  by (simp add: expression_thread_def started_thread_def start_state_def new_thread_def push_def push_frame_def setState_def Let_def
      active_def framed_def)

lemma expression_ends:
  assumes "expression_thread c p" "reaches e p q" "returned p q" "mState q = Some S_exprLeftSide" "mPrec q = 1"
    "remaining (mSrc q) []" "has_value q v"
  shows "\<exists>n q w. (\<forall>k. thread_stepLoop e l (n + k) p = Some q) \<and> mDelivered q = [w] \<and> unplaced w = val_of v"
proof -
  obtain f where f: "mStack p = [f]" "framed f S_complete 0 op_none (p\<lparr>mStack := []\<rparr>)"
    and p: "mCompletedCB p" "mDelivered p = []" using assms(1) by (auto simp: expression_thread_def)
  let ?p = "p\<lparr>mStack := []\<rparr>"
  have i: "below_frame f ?p q" using assms(3) f(1) by (auto simp: returned_def below_frame_def env_of_def)
  have st: "stops (mPrec q) []" by (simp add: stops_def)
  obtain g where g: "onestep e q g" "returned ?p g" "mState g = Some S_complete" "mSrc g = mSrc q" "has_value g v"
    using leftside_stop [OF i f(2) assms(4,6) st assms(7)] by metis
  obtain w where w: "mResult g = Some w" "unplaced w = val_of v" using g(5) by (auto simp: has_value_def)
  let ?g = "g\<lparr>mResumed := False\<rparr>"
  let ?h = "complete (mResult ?g) ?g"
  have h: "mDelivered ?h = [w]" "\<not> mResumed ?h"
    using complete_delivers [of ?g w] g(2,4) w(1) assms(6) p by (auto simp: returned_def active_def env_of_def)
  have c: "thread_stepLoop e l (Suc k) g = Some ?h" for k
    using h(2) g(3) by (simp add: step_def s_complete_def)
  obtain n where n: "runs e n p g" using assms(2) reaches_step [OF g(1) reaches_refl] unfolding reaches_def by (blast intro: runs_trans)
  have "thread_stepLoop e l (Suc n + k) p = Some ?h" for k
    using runs_loop [OF n, of l "Suc k"] c by simp
  then show ?thesis using h(1) w(2) by blast
qed

lemma remaining_source: "NUL \<notin> set (stext s) \<Longrightarrow> remaining (container_cursor s) (stext s)"
  by (simp add: remaining_def container_cursor_def text_pos_def)

text \<open>C1: The state machine evaluates expressions as the reference does. For every expression of integer literals
  and operators, written with as few parentheses as the precedences allow, a thread started on its text
  ends, after finitely many steps, and delivers exactly the value of the reference: the same number
  class and number, or the same error (with a position).\<close>

theorem expression_evaluates_as_reference:
  assumes "wf_expr x" "has_flag f ef_expression" "\<not> has_flag f ef_scanning"
  shows "\<exists>n q w. (\<forall>k. thread_stepLoop e l (n + k)
      (started_thread (container_cursor \<lparr>stext = bare x, slabel = lab, shosted = hosted\<rparr>) f vars) = Some q) \<and>
    mDelivered q = [w] \<and> unplaced w = val_of (eval x)"
proof -
  let ?s = "\<lparr>stext = bare x, slabel = lab, shosted = hosted\<rparr>"
  let ?p = "started_thread (container_cursor ?s) f vars"
  have p: "expression_thread (container_cursor ?s) ?p" using assms(2,3) by (rule expression_thread_started)
  then have src: "mSrc ?p = container_cursor ?s" by (simp add: expression_thread_def)
  have r: "remaining (mSrc ?p) (bare x @ [])" using remaining_source [of ?s] bare_text [OF assms(1)] src by simp
  have st: "stops (level x) []" by (simp add: stops_def)
  have l: "1 < level x" using level_bounds [OF assms(1)] by simp
  obtain q where q: "reaches e ?p q" "returned ?p q" "mState q = Some S_exprLeftSide" "mPrec q = 1"
    "mSrc q = ptr_add (mSrc ?p) (length (bare x))" "has_value q (eval x)"
    using doesE [OF does_bare [OF assms(1)] expression_thread_ready [OF p] l r st] by metis
  have "remaining (mSrc q) []" using remaining_add [OF r] q(5) by simp
  with expression_ends [OF p q(1-4) _ q(6)] show ?thesis by blast
qed

text \<open>The text \<open>2 * (3 + 4) - 10 > 3\<close>.\<close>

definition sample_expr :: expr where
  "sample_expr = Bin op_greater (Bin op_subtract (Bin op_multiply (Lit 2) (Bin op_add (Lit 3) (Lit 4))) (Lit 10)) (Lit 3)"

lemma integer_ops:
  "\<bar>i\<bar> \<le> 2 ^ 53 \<Longrightarrow> f64_to_int 64 (F_Fin (of_int i)) = i" "\<bar>i\<bar> \<le> 2 ^ 53 \<Longrightarrow> f64_of_int i = F_Fin (of_int i)"
  using f64_to_int_of_int f64_of_int_exact by auto

lemma sample_value: "eval sample_expr = truth True"
  using integer_ops [of 2] integer_ops [of 3] integer_ops [of 4] integer_ops [of 7] integer_ops [of 14] integer_ops [of 10]
  by (simp add: sample_expr_def ref_bin_def arith_def int64_wrap_def)

theorem expression_evaluates_as_reference_witness:
  "\<exists>n q w. (\<forall>k. thread_stepLoop plain_env RunTime (n + k)
      (started_thread (container_cursor \<lparr>stext = ''2 * (3 + 4) - 10 > 3'', slabel = None, shosted = False\<rparr>) ef_expression None) = Some q) \<and>
    mDelivered q = [w] \<and> unplaced w = vbool True"
proof -
  have "bare sample_expr = ''2 * (3 + 4) - 10 > 3''"
    by code_simp
  moreover have "wf_expr sample_expr" by (simp add: sample_expr_def binops_def)
  moreover have "has_flag ef_expression ef_expression" "\<not> has_flag ef_expression ef_scanning"
    by (simp_all add: has_flag_def ef_expression_def ef_scanning_def)
  ultimately show ?thesis
    using sample_value expression_evaluates_as_reference [of sample_expr ef_expression plain_env RunTime None False None] by (metis val_of_truth)
qed

section \<open>A missing operand\<close>

text \<open>At the end of the text a term has no value of its own: the result of before stays.\<close>

lemma simpleTerm_empty:
  assumes "remaining (mSrc p) []"
  shows "s_simpleTerm e p = Some (popWithValidResult True (p\<lparr>mSrc := mSrc p\<rparr>))"
proof -
  have c: "cursor_c (mSrc p) 0 = NUL" by (simp add: remaining_c [OF assms] chr_at_def)
  then have s: "skipNonCode (mSrc p) = mSrc p" "ident_len (mSrc p) = None" "EOT (mSrc p)"
    by (auto intro: skipNonCode_id simp: at_code_def ident_len_def cursor_c_EOT)
  show ?thesis
    by (simp add: s_simpleTerm_def src_c_def src_nextCodeIf_def src_nextIf_def src_identifier_def nextCodeIf_def nextIf_def
        parseIdentifier_def s c)
qed

lemma does_nothing:
  assumes "ready k p" "remaining (mSrc p) []" "has_value p (Inr v)"
  obtains q where "reaches e p q" "returned p q" "mState q = Some S_exprLeftSide" "mPrec q = k" "mSrc q = mSrc p" "has_value q (Inr v)"
proof -
  let ?p = "p\<lparr>mResumed := False, mPrec := k\<rparr>"
  have r: "active p" "0 < k" using assms(1) by (auto simp: ready_def)
  let ?q = "resumeAt S_simpleTerm (push S_exprFirstTerm (?p\<lparr>mPending := plain op_none, mSrc := mSrc p\<rparr>))"
  have "processExpression ?p = ?q"
    using operator_none [OF assms(2)] remaining_nextIf [OF assms(2), of "CHR ''(''"] r(2)
    by (simp add: processExpression_def src_operator_def src_nextIf_def)
  then have o1: "onestep e p ?q" using ready_step [OF assms(1), of e] r by (simp add: machine_step)
  let ?f = "hd (mStack ?q)"
  let ?g = "?q\<lparr>mResumed := False, mSrc := mSrc ?q\<rparr>"
  have i: "below_frame ?f p ?g" "framed ?f S_exprFirstTerm k op_none p" "active ?g" "mStack ?g = ?f # mStack p" "has_value ?g (Inr v)"
    "mSrc ?g = mSrc p"
    using r(1) assms(3) by (simp_all add: machine_step has_value_def)
  note g = popWithValidResult_frame [OF i(3-5), of True]
  have st: "step e (?q\<lparr>mResumed := False\<rparr>) = Some (popWithValidResult True ?g)"
    using simpleTerm_empty [of "?q\<lparr>mResumed := False\<rparr>" e] assms(2) by (simp add: step_def machine_step)
  define h where "h = popWithValidResult True ?g"
  have g: "popped ?f (mStack p) ?g h" "has_value h (Inr v)" unfolding h_def using g by auto
  have o2: "onestep e ?q h" unfolding onestep_def using st popped_returned(6,7) [OF g(1) i(1,2)] h_def by blast
  have h: "returned p h" "mState h = Some S_exprFirstTerm" "mPrec h = k" "mPending h = plain (pend None)" "mSrc h = mSrc p"
    using popped_returned [OF g(1) i(1,2)] i(6) by simp_all
  have a: "active h" using h(1) by (simp add: returned_def)
  obtain j where j: "onestep e h j" "returned h j" "mState j = Some S_exprLeftSide" "mPrec j = mPrec h" "mSrc j = mSrc h"
    "has_value j (applied None (Inr v))"
    using first_term_step [OF a h(2,4) g(2)] by metis
  have "reaches e p j" using o1 o2 j(1) reaches_refl by (blast intro: reaches_step)
  then show thesis using j h(3,5) returned_trans [OF h(1) j(2)] by (intro that [of j]) auto
qed

lemma missing_operand_does:
  assumes "does e s m (Inr v)" "b \<in> binops" "precedence b \<le> m" "ready k p" "k < precedence b"
    "remaining (mSrc p) (s @ '' '' @ opsym b @ '' '')"
  obtains q where "reaches e p q" "returned p q" "mState q = Some S_exprLeftSide" "mPrec q = k"
    "mSrc q = ptr_add (mSrc p) (length s + length (opsym b) + 2)" "has_value q (ref_bin b (Inr v) (Inr v))"
proof -
  have r: "remaining (mSrc p) (s @ CHR '' '' # opsym b @ CHR '' '' # [])" using assms(6) by simp
  have st: "stops m (CHR '' '' # opsym b @ CHR '' '' # [])" "stops l []" for l using assms(2,3) by (auto simp: stops_def)
  have k: "k < m" using assms(3,5) by simp
  obtain q where q: "reaches e p q" "returned p q" "mState q = Some S_exprLeftSide" "mPrec q = k"
    "mSrc q = ptr_add (mSrc p) (length s)" "has_value q (Inr v)"
    using doesE [OF assms(1) assms(4) k r st(1)] by metis
  have a: "active q" using q(2) by (simp add: returned_def)
  have d: "remaining (mSrc q) (CHR '' '' # opsym b @ CHR '' '' # [])" using remaining_add [OF r] q(5) by simp
  obtain f g where g: "onestep e q g" "below_frame f q g" "framed f S_exprRightSide k b q" "fResult f = mResult q"
    "ready (precedence b) g" "mResult g = mResult q" "mSrc g = ptr_add (mSrc q) (length (opsym b) + 2)"
    using leftside_go [OF a q(3,4) assms(2,5) d] by blast
  have d2: "remaining (mSrc g) []" using remaining_add [of "mSrc q" "'' '' @ opsym b @ '' ''" "[]"] d g(7) by simp
  have v: "has_value g (Inr v)" using q(6) g(6) by (simp add: has_value_def)
  obtain h where h: "reaches e g h" "returned g h" "mState h = Some S_exprLeftSide" "mPrec h = precedence b" "mSrc h = mSrc g"
    "has_value h (Inr v)"
    using does_nothing [OF g(5) d2 v] by metis
  have d3: "remaining (mSrc h) []" using d2 h(5) by simp
  obtain i where i: "onestep e h i" "returned q i" "mState i = Some S_exprRightSide" "mPrec i = k" "mPending i = plain b"
    "mOlder i = fResult f" "mSrc i = mSrc h" "has_value i (Inr v)"
    using leftside_stop [OF below_frame_returned [OF g(2) h(2)] g(3) h(3) d3 st(2) h(6)] by metis
  obtain l where l: "mOlder i = Some l" "unplaced l = val_of (Inr v)" using q(6) g(4) i(6) by (auto simp: has_value_def)
  have ai: "active i" using i(2) by (simp add: returned_def)
  obtain j where j: "onestep e i j" "returned i j" "mState j = Some S_exprLeftSide" "mPrec j = mPrec i" "mSrc j = mSrc i"
    "has_value j (ref_bin b (Inr v) (Inr v))"
    using rightside_step [OF ai i(3) l i(8,5) assms(2)] by auto
  have "reaches e g j" by (rule reaches_trans [OF h(1) reaches_step [OF i(1) reaches_step [OF j(1) reaches_refl]]])
  then have "reaches e p j" by (rule reaches_trans [OF q(1) reaches_step [OF g(1)]])
  moreover have "mSrc j = ptr_add (mSrc p) (length s + length (opsym b) + 2)" by (simp add: j(5) i(7) h(5) g(7) q(5) add.assoc)
  ultimately show thesis
    using that j(3,4,6) i(4) returned_trans [OF returned_trans [OF q(2) i(2)] j(2)] by simp
qed

text \<open>A missing right operand is not an error. For a text that ends after a binary operator, the value of the
  left operand takes the place of the right one: \<open>5 +\<close> gives ten, and no error is reported.\<close>

theorem missing_operand_repeats_left:
  assumes "wf_expr x" "b \<in> binops" "precedence b \<le> level x" "eval x = Inr v" "has_flag f ef_expression" "\<not> has_flag f ef_scanning"
  shows "\<exists>n q w. (\<forall>k. thread_stepLoop e l (n + k)
      (started_thread (container_cursor \<lparr>stext = bare x @ '' '' @ opsym b @ '' '', slabel = lab, shosted = hosted\<rparr>) f vars) = Some q) \<and>
    mDelivered q = [w] \<and> unplaced w = val_of (ref_bin b (Inr v) (Inr v))"
proof -
  let ?s = "\<lparr>stext = bare x @ '' '' @ opsym b @ '' '', slabel = lab, shosted = hosted\<rparr>"
  let ?p = "started_thread (container_cursor ?s) f vars"
  have p: "expression_thread (container_cursor ?s) ?p" using assms(5,6) by (rule expression_thread_started)
  then have src: "mSrc ?p = container_cursor ?s" by (simp add: expression_thread_def)
  have r: "remaining (mSrc ?p) (bare x @ '' '' @ opsym b @ '' '')"
    using remaining_source [of ?s] bare_text [OF assms(1)] src assms(2) by (auto simp: binops_def)
  have k: "1 < precedence b" using precedence_bounds [OF assms(2)] by simp
  obtain q where q: "reaches e ?p q" "returned ?p q" "mState q = Some S_exprLeftSide" "mPrec q = 1"
    "mSrc q = ptr_add (mSrc ?p) (length (bare x) + length (opsym b) + 2)" "has_value q (ref_bin b (Inr v) (Inr v))"
    using missing_operand_does [OF does_bare [OF assms(1), unfolded assms(4)] assms(2,3) expression_thread_ready [OF p] k r] by metis
  have "remaining (mSrc q) []"
    using remaining_add [of "mSrc ?p" "bare x @ '' '' @ opsym b @ '' ''" "[]"] r q(5) by (simp add: add.assoc)
  with expression_ends [OF p q(1-4) _ q(6)] show ?thesis by blast
qed

theorem missing_operand_repeats_left_witness:
  "\<exists>n q w. (\<forall>k. thread_stepLoop plain_env RunTime (n + k)
      (started_thread (container_cursor \<lparr>stext = ''5 + '', slabel = None, shosted = False\<rparr>) ef_expression None) = Some q) \<and>
    mDelivered q = [w] \<and> unplaced w = vint 10"
proof -
  have t: "bare (Lit 5) @ '' '' @ opsym op_add @ '' '' = ''5 + ''" by code_simp
  have "ref_bin op_add (eval (Lit 5)) (eval (Lit 5)) = Inr (KInteger, f64_of_int 10)"
    using integer_ops [of 5] integer_ops [of 10] by (simp add: ref_bin_def arith_def int64_wrap_def)
  then show ?thesis
    using missing_operand_repeats_left [of "Lit 5" op_add _ ef_expression plain_env RunTime None False None, unfolded t]
    by (auto simp: binops_def has_flag_def ef_expression_def ef_scanning_def)
qed

end
