(* ===== verification/ScriptSkip.thy ===== *)
theory ScriptSkip
  imports ScriptThread
begin

text \<open>
  Skipped code has no effects: while the processor skips, no handler changes a variable, array or object
  that exists, prepares a call, or asks for a function or thread to be run. The exceptions are code
  that the program does not guard with the skipping flag.
\<close>

definition harmless :: "proc \<Rightarrow> proc \<Rightarrow> bool" where
  "harmless p q \<longleftrightarrow> prefix (pHeap p) (pHeap q) \<and> pCalls q = pCalls p \<and> mRequest q = mRequest p"

lemma harmless_refl: "harmless p p"
  by (simp add: harmless_def)

lemma harmless_update [simp]:
  "harmless r (p\<lparr>mState := s\<rparr>) = harmless r p" "harmless r (p\<lparr>mResult := v\<rparr>) = harmless r p"
  "harmless r (p\<lparr>mOlder := v\<rparr>) = harmless r p" "harmless r (p\<lparr>mSrc := c\<rparr>) = harmless r p"
  "harmless r (p\<lparr>mPoppedSrc := c\<rparr>) = harmless r p" "harmless r (p\<lparr>mSkipping := b\<rparr>) = harmless r p"
  "harmless r (p\<lparr>mPrec := k\<rparr>) = harmless r p" "harmless r (p\<lparr>mPending := x\<rparr>) = harmless r p"
  "harmless r (p\<lparr>mFunc := f\<rparr>) = harmless r p" "harmless r (p\<lparr>mHelper := f\<rparr>) = harmless r p"
  "harmless r (p\<lparr>mIdentifier := n\<rparr>) = harmless r p" "harmless r (p\<lparr>mStack := st\<rparr>) = harmless r p"
  "harmless r (p\<lparr>mResumed := b\<rparr>) = harmless r p" "harmless r (p\<lparr>mFlags := fl\<rparr>) = harmless r p"
  "harmless r (p\<lparr>mThreadLocals := v\<rparr>) = harmless r p" "harmless r (p\<lparr>mChained := f\<rparr>) = harmless r p"
  "harmless r (p\<lparr>mEvents := ev\<rparr>) = harmless r p" "harmless r (p\<lparr>mRunning := b\<rparr>) = harmless r p"
  "harmless r (p\<lparr>pHandlers := hs\<rparr>) = harmless r p" "harmless r (p\<lparr>pHelpers := hl\<rparr>) = harmless r p"
  "harmless r (p\<lparr>pObjects := os\<rparr>) = harmless r p" "harmless r (p\<lparr>mCompletedCB := b\<rparr>) = harmless r p"
  "harmless r (p\<lparr>mDelivered := vs\<rparr>) = harmless r p" "harmless r (p\<lparr>mTerminated := n'\<rparr>) = harmless r p"
  "harmless r (p\<lparr>mOwned := b\<rparr>) = harmless r p"
  by (simp_all add: harmless_def)

lemma harmless_new [simp]: "harmless r p \<Longrightarrow> harmless r (p\<lparr>pHeap := pHeap p @ x\<rparr>)"
  by (auto simp: harmless_def prefix_def)

section \<open>Stack, resuming, completing, throwing\<close>

lemma harmless_complete [simp, intro]: "harmless r p \<Longrightarrow> harmless r (complete v p)"
  by (simp add: complete_def sp_complete_def thread_complete_def thread_deactivate_def deactivate_def Let_def split_beta)

lemma harmless_stack [simp, intro]:
  "harmless r p \<Longrightarrow> harmless r (setState s p)" "harmless r p \<Longrightarrow> harmless r (resume p)"
  "harmless r p \<Longrightarrow> harmless r (resumeWith v p)" "harmless r p \<Longrightarrow> harmless r (resumeAt s p)"
  "harmless r p \<Longrightarrow> harmless r (push s p)" "harmless r p \<Longrightarrow> harmless r (push_popped s p)"
  "harmless r p \<Longrightarrow> harmless r (push_current p)" "harmless r p \<Longrightarrow> harmless r (pop p)"
  by (simp_all add: setState_def resume_def resumeWith_def resumeAt_def push_def push_popped_def push_current_def
      pop_def pop_frame_def split: option.splits list.splits)

lemma harmless_throw [simp, intro]:
  "harmless r p \<Longrightarrow> harmless r (throwOrComplete v p)" "harmless r p \<Longrightarrow> harmless r (exitWithSyntaxError m p)"
  by (auto simp: throwOrComplete_def exitWithSyntaxError_def skipUntilReaching_def Let_def split: option.splits)

lemma harmless_check [simp, intro]:
  "harmless r p \<Longrightarrow> harmless r (checkAndResume p)" "harmless r p \<Longrightarrow> harmless r (checkAndResumeAt s p)"
  by (auto simp: checkAndResumeAt_def checkAndResume_def sp_checkAndResume_def thread_checkAndResume_def
      split: option.splits val.splits)

lemma harmless_popWith [simp, intro]:
  "harmless r p \<Longrightarrow> harmless r (popWithValidResult b p)" "harmless r p \<Longrightarrow> harmless r (popWithResult b p)"
  by (auto simp: popWithValidResult_def popWithResult_def Let_def split: option.splits)

text \<open>What does not change the skipping flag.\<close>

lemma skipping_simps [simp]:
  "mSkipping (setState s p) = mSkipping p" "mSkipping (push s p) = mSkipping p" "mSkipping (push_current p) = mSkipping p"
  "mSkipping (new_container b ob p) = mSkipping p"
  by (simp_all add: setState_def push_def push_current_def new_container_def split: option.splits)

section \<open>Hooks\<close>

lemma harmless_member: "memberByIdentifier e f n p = Some q \<Longrightarrow> harmless r p \<Longrightarrow> harmless r q"
  by (auto simp: memberByIdentifier_def compiler_memberByIdentifier_def thread_memberByIdentifier_def not_found_def
      demand_threadlocals_def Let_def split: if_splits option.splits)

lemma harmless_index [simp, intro]: "harmless r p \<Longrightarrow> harmless r (memberByIndex i f p)"
  by (auto simp: memberByIndex_def sp_memberByIndex_def thread_memberByIndex_def not_found_def Let_def split: option.splits)

lemma harmless_container [simp, intro]: "harmless r p \<Longrightarrow> harmless r (new_container b ob p)"
  by (simp add: new_container_def)

lemma harmless_object [simp]: "harmless r p \<Longrightarrow> harmless r (fst (new_object x t a p))"
  by (simp add: new_object_def)

lemma harmless_capture [simp]: "harmless r p \<Longrightarrow> harmless r (fst (captureCode v p))"
  by (auto simp: captureCode_def Let_def split: option.splits val.splits exec.splits)

section \<open>Expression handlers\<close>

lemma harmless_expression [simp, intro]:
  "harmless r p \<Longrightarrow> harmless r (processExpression p)" "harmless r p \<Longrightarrow> harmless r (s_groupedExpression p)"
  "harmless r p \<Longrightarrow> harmless r (s_exprFirstTerm e p)" "harmless r p \<Longrightarrow> harmless r (s_exprLeftSide p)"
  "harmless r p \<Longrightarrow> harmless r (s_compoundAssignment p)" "harmless r p \<Longrightarrow> harmless r (s_objectfielddone p)"
  "harmless r p \<Longrightarrow> harmless r (s_funcContext p)" "harmless r p \<Longrightarrow> harmless r (s_expression p)"
  by (simp_all add: processExpression_def s_groupedExpression_def s_exprFirstTerm_def s_exprLeftSide_def s_expression_def
      s_compoundAssignment_def s_objectfielddone_def s_funcContext_def src_defs Let_def split_beta split: option.splits)

lemma harmless_assignLvalue: "s_assignLvalue p = Some q \<Longrightarrow> mSkipping p \<Longrightarrow> harmless r p \<Longrightarrow> harmless r q"
  by (auto simp: s_assignLvalue_def Let_def)

lemma harmless_assign:
  "s_assignOlder p = Some q \<Longrightarrow> mSkipping p \<Longrightarrow> harmless r p \<Longrightarrow> harmless r q"
  "s_unsetMember p = Some q \<Longrightarrow> mSkipping p \<Longrightarrow> harmless r p \<Longrightarrow> harmless r q"
  by (auto simp: s_assignOlder_def s_unsetMember_def dest: harmless_assignLvalue)

lemma harmless_assignExpression: "s_assignExpression p = Some q \<Longrightarrow> harmless r p \<Longrightarrow> harmless r q"
  by (auto simp: s_assignExpression_def Let_def split: if_splits)

lemma harmless_assignDefault: "s_assignDefault p = Some q \<Longrightarrow> harmless r p \<Longrightarrow> harmless r q"
  by (auto simp: s_assignDefault_def dest!: harmless_assignExpression split: if_splits option.splits)

lemma harmless_access: "assignOrAccess e f p = Some q \<Longrightarrow> harmless r p \<Longrightarrow> harmless r q"
  by (auto simp: assignOrAccess_def request_member_def src_defs Let_def split_beta dest!: harmless_member split: if_splits)

lemma harmless_subscript: "process_subscript e f p = Some q \<Longrightarrow> mSkipping p \<Longrightarrow> harmless r p \<Longrightarrow> harmless r q"
  by (auto simp: process_subscript_def)

lemma harmless_fieldname: "fieldnamedefined e p = Some q \<Longrightarrow> harmless r p \<Longrightarrow> harmless r q"
  by (auto simp: fieldnamedefined_def src_defs Let_def split_beta dest!: harmless_member split: if_splits)

lemma harmless_objectfield: "s_objectfield e p = Some q \<Longrightarrow> harmless r p \<Longrightarrow> harmless r q"
  by (auto simp: s_objectfield_def src_identifier_def src_defs Let_def split_beta bind_eq_Some_conv
      dest!: harmless_fieldname split: if_splits option.splits)

lemma harmless_terms:
  "s_member e p = Some q \<Longrightarrow> mSkipping p \<Longrightarrow> harmless r p \<Longrightarrow> harmless r q"
  "s_subscriptArg e p = Some q \<Longrightarrow> mSkipping p \<Longrightarrow> harmless r p \<Longrightarrow> harmless r q"
  "s_funcArg p = Some q \<Longrightarrow> mSkipping p \<Longrightarrow> harmless r p \<Longrightarrow> harmless r q"
  "s_funcExec p = Some q \<Longrightarrow> mSkipping p \<Longrightarrow> harmless r p \<Longrightarrow> harmless r q"
  "s_exprRightSide e p = Some q \<Longrightarrow> mSkipping p \<Longrightarrow> harmless r p \<Longrightarrow> harmless r q"
  "s_objectfieldvalue p = Some q \<Longrightarrow> mSkipping p \<Longrightarrow> harmless r p \<Longrightarrow> harmless r q"
  "s_arrayelementdone p = Some q \<Longrightarrow> mSkipping p \<Longrightarrow> harmless r p \<Longrightarrow> harmless r q"
  by (auto simp: s_member_def s_subscriptArg_def s_funcArg_def s_funcExec_def s_exprRightSide_def s_objectfieldvalue_def
      s_arrayelementdone_def memberEventCheck_def src_identifier_def src_defs Let_def split_beta
      dest!: harmless_access harmless_subscript split: if_splits option.splits)

lemma harmless_varobjectfield: "s_varobjectfield e p = Some q \<Longrightarrow> harmless r p \<Longrightarrow> harmless r q"
  by (auto simp: s_varobjectfield_def src_defs Let_def split_beta bind_eq_Some_conv dest!: harmless_fieldname split: if_splits)

lemma harmless_simpleTerm: "s_simpleTerm e p = Some q \<Longrightarrow> harmless r p \<Longrightarrow> harmless r q"
  by (auto simp: s_simpleTerm_def identifier_term_def src_identifier_def src_defs Let_def split_beta
      dest!: harmless_objectfield harmless_access split: if_splits option.splits)

section \<open>Statement handlers\<close>

lemma harmless_definitions [simp, intro]:
  "harmless r p \<Longrightarrow> harmless r (skip_body s p)" "harmless r p \<Longrightarrow> harmless r (function_body g as p)"
  "harmless r p \<Longrightarrow> harmless r (set_trigger t m h v p)"
  by (simp_all add: skip_body_def function_body_def set_trigger_def Let_def split_beta split: option.splits)

lemma harmless_maybe_identifier [simp]: "harmless r p \<Longrightarrow> harmless r (fst (maybe_identifier p))"
  by (auto simp: maybe_identifier_def src_identifier_def split: option.splits)

lemma harmless_processFunction [simp, intro]: "harmless r p \<Longrightarrow> harmless r (processFunction g p)"
  by (auto simp: processFunction_def src_identifier_def src_defs Let_def split_beta split: option.splits sum.splits)

lemma harmless_trigger_end [simp, intro]: "harmless r p \<Longrightarrow> harmless r (trigger_end g t m h v p)"
  by (simp add: trigger_end_def src_defs Let_def)

lemma harmless_triggers [simp, intro]:
  "harmless r p \<Longrightarrow> harmless r (trigger_as g t m h b p)" "harmless r p \<Longrightarrow> harmless r (processOnHandler g p)"
  by (auto simp: trigger_as_def processOnHandler_def src_identifier_def src_defs Let_def split_beta split: option.splits)

lemma harmless_defineTrigger [simp, intro]: "harmless r p \<Longrightarrow> harmless r (defineTrigger e g p)"
  by (simp add: defineTrigger_def src_defs Let_def split_beta)

lemma harmless_include: "s_include e p = Some q \<Longrightarrow> harmless r p \<Longrightarrow> harmless r q"
  by (auto simp: s_include_def bind_eq_Some_conv Let_def split: if_splits) (auto simp: new_object_def split: sum.split_asm)

lemma harmless_conditions [simp, intro]:
  "harmless r p \<Longrightarrow> harmless r (s_ifTrueStatement p)" "harmless r p \<Longrightarrow> harmless r (set_helper x p)"
  "harmless r p \<Longrightarrow> harmless r (new_helper x p)" "harmless r p \<Longrightarrow> harmless r (s_foreachBody p)"
  by (simp_all add: s_ifTrueStatement_def set_helper_def new_helper_def s_foreachBody_def src_defs Let_def split_beta split: option.splits)

lemma harmless_ifCondition: "s_ifCondition e p = Some q \<Longrightarrow> harmless r p \<Longrightarrow> harmless r q"
  by (auto simp: s_ifCondition_def src_defs Let_def split_beta split: if_splits)

lemma harmless_foreach:
  "s_foreachTarget e p = Some q \<Longrightarrow> harmless r p \<Longrightarrow> harmless r q"
  "s_foreachLoopVar1 e p = Some q \<Longrightarrow> harmless r p \<Longrightarrow> harmless r q"
  "s_foreachLoopVars p = Some q \<Longrightarrow> harmless r p \<Longrightarrow> harmless r q"
  "s_foreachLoopStart p = Some q \<Longrightarrow> harmless r p \<Longrightarrow> harmless r q"
  "s_foreachStatement p = Some q \<Longrightarrow> harmless r p \<Longrightarrow> harmless r q"
  by (auto simp: s_foreachTarget_def s_foreachLoopVar1_def s_foreachLoopVars_def s_foreachLoopStart_def s_foreachStatement_def
      src_identifier_def src_defs Let_def split_beta bind_eq_Some_conv dest!: harmless_member split: if_splits option.splits)

lemma harmless_loopEnds:
  "s_loopBody e p = Some q \<Longrightarrow> harmless r p \<Longrightarrow> harmless r q" "s_loopEnd e p = Some q \<Longrightarrow> harmless r p \<Longrightarrow> harmless r q"
  by (auto simp: s_loopBody_def s_loopEnd_def set_pos_def Let_def bind_eq_Some_conv split: if_splits)

lemma harmless_loopRecheck: "s_loopRecheck e p = Some q \<Longrightarrow> harmless r p \<Longrightarrow> harmless r q"
  by (auto simp: s_loopRecheck_def set_pos_def dest!: harmless_loopEnds split: if_splits)

lemma harmless_loops:
  "s_loopInit p = Some q \<Longrightarrow> harmless r p \<Longrightarrow> harmless r q"
  "s_loopCondition e p = Some q \<Longrightarrow> harmless r p \<Longrightarrow> harmless r q"
  "s_loopNext e p = Some q \<Longrightarrow> harmless r p \<Longrightarrow> harmless r q"
  "s_loopBodyDone e p = Some q \<Longrightarrow> harmless r p \<Longrightarrow> harmless r q"
  by (auto simp: s_loopInit_def s_loopCondition_def s_loopNext_def s_loopBodyDone_def src_defs Let_def split_beta
      bind_eq_Some_conv dest!: harmless_loopEnds harmless_loopRecheck split: if_splits)

lemma harmless_try: "s_tryStatement e p = Some q \<Longrightarrow> harmless r p \<Longrightarrow> harmless r q"
  by (auto simp: s_tryStatement_def src_identifier_def src_defs Let_def split_beta dest!: harmless_member
      split: if_splits option.splits)

lemma harmless_concurrent_var: "s_concurrent_var e p = Some q \<Longrightarrow> harmless r p \<Longrightarrow> harmless r q"
  by (auto simp: s_concurrent_var_def src_defs Let_def split_beta dest!: harmless_member
      split: if_splits option.splits val.splits prod.splits)

lemma harmless_concurrent: "mSkipping p \<Longrightarrow> harmless r p \<Longrightarrow> harmless r (s_concurrent p)"
  by (auto simp: s_concurrent_def src_identifier_def src_defs Let_def split_beta split: option.splits)

lemma harmless_varDefs: "processVarDefs e f b p = Some q \<Longrightarrow> harmless r p \<Longrightarrow> harmless r q"
  by (auto simp: processVarDefs_def src_identifier_def src_defs Let_def split_beta
      dest!: harmless_access harmless_member split: if_splits option.splits)

lemma harmless_statements [simp, intro]:
  "harmless r p \<Longrightarrow> harmless r (expression_statement p)" "harmless r p \<Longrightarrow> harmless r (return_statement n p)"
  "harmless r p \<Longrightarrow> harmless r (concurrent_statement p)" "harmless r p \<Longrightarrow> harmless r (for_statement p)"
  "harmless r p \<Longrightarrow> harmless r (while_statement p)" "harmless r p \<Longrightarrow> harmless r (if_statement p)"
  "harmless r p \<Longrightarrow> harmless r (local_statement p)" "harmless r p \<Longrightarrow> harmless r (end_of_code p)"
  "harmless r p \<Longrightarrow> harmless r (only_one p)" "harmless r p \<Longrightarrow> harmless r (s_declarations p)"
  "harmless r p \<Longrightarrow> harmless r (s_noStatement p)" "harmless r p \<Longrightarrow> harmless r (break_statement p)"
  "harmless r p \<Longrightarrow> harmless r (continue_statement p)"
  by (auto simp: expression_statement_def return_statement_def concurrent_statement_def for_statement_def
      while_statement_def if_statement_def local_statement_def end_of_code_def only_one_def s_declarations_def startOfBodyCode_def
      s_noStatement_def break_statement_def continue_statement_def skipUntilReaching_def unWindStackTo_def src_defs Let_def split_beta
      split: option.splits list.splits)

lemma harmless_keyword: "keyword_statement e m p = Some q \<Longrightarrow> harmless r p \<Longrightarrow> harmless r q"
  unfolding keyword_statement_def Let_def
  by (auto simp: global_statement_def src_defs Let_def split_beta dest!: harmless_varDefs split: if_split_asm)

lemma harmless_statement: "processStatement e p = Some q \<Longrightarrow> harmless r p \<Longrightarrow> harmless r q"
  by (auto simp: processStatement_def begin_statement_def src_identifier_def src_defs Let_def split_beta dest!: harmless_keyword
      split: if_splits option.splits)

section \<open>Every handler\<close>

text \<open>The states whose handlers have effects without looking at the skipping flag.\<close>

definition unguarded :: "pstate \<Rightarrow> bool" where
  "unguarded s \<longleftrightarrow> (case s of
       S_concurrent_var_value \<Rightarrow> True | S_foreachLoopIteration \<Rightarrow> True | S_foreachKeyNeeded \<Rightarrow> True
     | S_defineFunction _ \<Rightarrow> True | S_defineHandler _ \<Rightarrow> True | _ \<Rightarrow> False)"

lemma harmless_handler:
  assumes "handler e s p = Some q" "mSkipping p" "\<not> unguarded s"
  shows "harmless p q"
  using assms harmless_refl [of p]
  by (cases s)
     (auto simp: unguarded_def s_objectfieldlvalue_def s_nextSubscript_def s_assignmentExpression_def s_subExpression_def
       s_checkAndAssignLvalue_def s_result_def s_nothrowResult_def s_validResult_def s_validResultCheck_def s_uncheckedResult_def
       s_complete_def
       dest!: harmless_objectfield harmless_varobjectfield harmless_simpleTerm harmless_terms harmless_assignDefault
       harmless_assignExpression harmless_assign harmless_assignLvalue harmless_statement harmless_ifCondition harmless_foreach
       harmless_loops harmless_loopEnds harmless_loopRecheck harmless_try harmless_concurrent_var harmless_include
       intro: harmless_concurrent)

section \<open>Runs of skipping steps\<close>

inductive skips :: "penv \<Rightarrow> proc \<Rightarrow> proc \<Rightarrow> bool" for e p where
  start: "skips e p p"
| skip: "skips e p q \<Longrightarrow> mSkipping q \<Longrightarrow> mState q = Some s \<Longrightarrow> \<not> unguarded s \<Longrightarrow>
     step e (q\<lparr>mResumed := False\<rparr>) = Some r \<Longrightarrow> skips e p r"

lemma harmless_trans: "harmless p q \<Longrightarrow> harmless q r \<Longrightarrow> harmless p r"
  by (auto simp: harmless_def intro: prefix_order.trans)

lemma harmless_skips: "skips e p q \<Longrightarrow> harmless p q"
proof (induction rule: skips.induct)
  case (skip q s r)
  have "harmless (q\<lparr>mResumed := False\<rparr>) r"
    using skip.hyps by (intro harmless_handler [of e s]) (simp_all add: step_def)
  with skip.IH show ?case by (auto intro: harmless_trans simp: harmless_def)
qed (rule harmless_refl)

text \<open>C6: Skipped code has no effects. As long as the processor skips, however many steps that takes, the
  variables, arrays and objects that existed before keep their contents, no call is prepared or gets
  arguments, and no function or thread is asked for; states whose handlers do not look at the flag
  (definitions, values passed to a thread, the start of an iteration) are excepted.\<close>

theorem skipped_code_has_no_effects:
  assumes "skips e p q"
  shows "take (length (pHeap p)) (pHeap q) = pHeap p \<and> pCalls q = pCalls p \<and> mRequest q = mRequest p"
  using harmless_skips [OF assms] by (auto simp: harmless_def prefix_def)

text \<open>An assignment to the variable \<open>x\<close> that is skipped.\<close>

definition skipped_assignment :: proc where
  "skipped_assignment =
     (new_thread null_cursor 0 None)\<lparr>mState := Some S_assignLvalue, mSkipping := True, mResult := Some (vint 2),
       mOlder := Some (VLval 0 ''x'' None None)\<rparr>"

theorem skipped_code_has_no_effects_witness:
  "take 2 (pHeap (the (step plain_env skipped_assignment))) = [HVars [], HVars []]"
proof -
  have e: "skipped_assignment\<lparr>mResumed := False\<rparr> = skipped_assignment" by (simp add: skipped_assignment_def new_thread_def)
  obtain q where q: "step plain_env skipped_assignment = Some q"
    by (simp add: step_def skipped_assignment_def s_assignLvalue_def setState_def Let_def)
  have "skips plain_env skipped_assignment q"
    by (rule skips.skip [OF skips.start, of _ S_assignLvalue]) (use q in \<open>simp_all add: e\<close>, simp_all add: skipped_assignment_def unguarded_def)
  from skipped_code_has_no_effects [OF this] q show ?thesis by (simp add: skipped_assignment_def new_thread_def eval_nat_numeral)
qed

end
