(* ===== verification/ScriptFlow.thy ===== *)
theory ScriptFlow
  imports ScriptSkip
begin

text \<open>
  How the script engine leaves the straight path: errors and \<open>try\<close>, the branches of conditions,
  \<open>continue\<close>, empty statements, and code that is only skipped.
\<close>

section \<open>The stack at a state\<close>

text \<open>The stack around its innermost frame of a state: what is above it, the frame, what is below.\<close>

definition split_at :: "pstate \<Rightarrow> frame list \<Rightarrow> (frame list \<times> frame \<times> frame list) option" where
  "split_at s st =
     (case dropWhile (\<lambda>f. fReturn f \<noteq> s) st of
        [] \<Rightarrow> None
      | f # rest \<Rightarrow> Some (takeWhile (\<lambda>f. fReturn f \<noteq> s) st, f, rest))"

lemma split_at_Cons:
  "split_at s (f # st) = (if fReturn f = s then Some ([], f, st) else map_option (\<lambda>(a, g, r). (f # a, g, r)) (split_at s st))"
  by (auto simp: split_at_def simp del: dropWhile_eq_Nil_conv split: list.splits)

lemma split_at_Some:
  "split_at s st = Some (upper, f, rest) \<Longrightarrow> st = upper @ f # rest \<and> fReturn f = s \<and> (\<forall>g\<in>set upper. fReturn g \<noteq> s)"
proof (induction st arbitrary: upper)
  case (Cons g st)
  then show ?case by (cases "split_at s st") (auto simp: split_at_Cons split: if_splits)
qed (simp add: split_at_def)

lemma skip_frames_split:
  "skip_frames s v st =
     map_option (\<lambda>(upper, f, rest). map (\<lambda>g. g\<lparr>fSkipping := True\<rparr>) upper @
       f\<lparr>fSkipping := True, fResult := (case v of None \<Rightarrow> fResult f | _ \<Rightarrow> v)\<rparr> # rest) (split_at s st)"
proof (induction st)
  case Nil
  then show ?case by (simp add: split_at_def)
next
  case (Cons f st)
  then show ?case by (cases "split_at s st") (auto simp: split_at_Cons)
qed

lemma drop_to_split: "drop_to s st = (case split_at s st of None \<Rightarrow> [] | Some (upper, f, rest) \<Rightarrow> f # rest)"
proof (induction st)
  case Nil
  then show ?case by (simp add: split_at_def)
next
  case (Cons f st)
  then show ?case by (cases "split_at s st") (auto simp: split_at_Cons)
qed

section \<open>Errors\<close>

lemma throw_split:
  assumes "\<not> mSkipping p" "\<not> err_isFatal (errorValue v)"
  shows "throwOrComplete v p =
     (case split_at S_tryStatement (mStack p) of
        None \<Rightarrow> complete (Some v) (p\<lparr>mResult := Some v\<rparr>)
      | Some (upper, f, rest) \<Rightarrow>
          p\<lparr>mResult := Some (caught v), mSkipping := True, mResumed := True,
            mStack := map (\<lambda>g. g\<lparr>fSkipping := True\<rparr>) upper @ f\<lparr>fSkipping := True, fResult := Some (caught v)\<rparr> # rest\<rparr>)"
  using assms
  by (cases "split_at S_tryStatement (mStack p)")
     (auto simp: throwOrComplete_def Let_def skipUntilReaching_def skip_frames_split resume_def)

text \<open>What follows a \<open>try\<close> block when its frame \<open>f\<close> comes up, with \<open>catch\<close> in the source: the clause is
  entered, and skipped exactly when the frame has no error.\<close>

definition catch_skipped :: "frame \<Rightarrow> bool" where
  "catch_skipped f = (case fResult f of Some v \<Rightarrow> \<not> isErr v | None \<Rightarrow> True)"

lemma catch_clause:
  assumes "mStack x = f # rest" "checkForIdentifier (skipNonCode (mSrc x)) ''catch'' = (c, True)"
    "checkForIdentifier (skipNonCode c) ''as'' = (d, False)" "\<not> isCompiler x" "\<forall>er k. mResult x \<noteq> Some (VErr er False k)"
  shows "\<exists>q. handler e S_tryStatement ((pop x)\<lparr>mResumed := b\<rparr>) = Some q \<and> mState q = Some S_oneStatement \<and> mStack q = rest \<and>
    mSrc q = d \<and> mSkipping q = catch_skipped f"
  using assms
  by (auto simp: s_tryStatement_def catch_skipped_def Let_def split_beta pop_def pop_frame_def src_keyword_def src_skip_def setState_def
      checkAndResume_def thread_checkAndResume_def resume_def split: option.splits val.splits)

text \<open>With \<open>as\<close> and a name the error becomes a local variable first: the state asks for the member of
  that name, to be created, behind it waits the frame that assigns the error to it, and behind that
  the one statement of the clause.\<close>

definition error_variable_pending :: "proc \<Rightarrow> string \<Rightarrow> val \<Rightarrow> frame list \<Rightarrow> bool" where
  "error_variable_pending y n v rest \<longleftrightarrow>
     mIdentifier y = n \<and> mState y = Some S_nothrowResult \<and> \<not> mSkipping y \<and> mResult y = None \<and>
     (case mStack y of
        g # h # st \<Rightarrow> fReturn g = S_assignOlder \<and> fResult g = Some v \<and> \<not> fSkipping g \<and>
                      fReturn h = S_oneStatement \<and> \<not> fSkipping h \<and> st = rest
      | _ \<Rightarrow> False)"

lemma catch_as_clause:
  assumes "mStack x = f # rest" "checkForIdentifier (skipNonCode (mSrc x)) ''catch'' = (c, True)"
    "checkForIdentifier (skipNonCode c) ''as'' = (d, True)" "fResult f = Some v" "isErr v"
    "parseIdentifier (skipNonCode d) False = Some (n, l, d')"
  shows "\<exists>y. handler e S_tryStatement ((pop x)\<lparr>mResumed := b\<rparr>) =
      memberByIdentifier e (ti_lvalue OR ti_create OR ti_threadlocal) False y \<and> error_variable_pending y n v rest"
  using assms
  by (auto simp: s_tryStatement_def error_variable_pending_def Let_def split_beta pop_def pop_frame_def src_keyword_def src_skip_def
      setState_def src_identifier_def push_def push_frame_def push_current_def)

lemma catch_as_missing:
  assumes "mStack x = f # rest" "checkForIdentifier (skipNonCode (mSrc x)) ''catch'' = (c, True)"
    "checkForIdentifier (skipNonCode c) ''as'' = (d, True)" "fResult f = Some v" "isErr v"
    "parseIdentifier (skipNonCode d) False = None"
  shows "\<exists>m y. handler e S_tryStatement ((pop x)\<lparr>mResumed := b\<rparr>) = Some (exitWithSyntaxError m y) \<and> mStack y = rest \<and> \<not> mSkipping y"
  using assms
  by (simp add: s_tryStatement_def Let_def split_beta pop_def pop_frame_def src_keyword_def src_skip_def
      setState_def src_identifier_def) (intro exI conjI, rule HOL.refl, simp_all)

text \<open>How \<open>z\<close>, the state at a \<open>try\<close> frame with the error \<open>v\<close>, enters the clause whose text after \<open>catch\<close> is at \<open>d\<close>.\<close>

definition enters_catch :: "penv \<Rightarrow> proc \<Rightarrow> cursor \<Rightarrow> frame list \<Rightarrow> val \<Rightarrow> bool" where
  "enters_catch e z d rest v \<longleftrightarrow>
     (case checkForIdentifier (skipNonCode d) ''as'' of
        (d1, False) \<Rightarrow> \<exists>q. handler e S_tryStatement z = Some q \<and> mState q = Some S_oneStatement \<and>
          mStack q = rest \<and> mSrc q = d1 \<and> \<not> mSkipping q
      | (d1, True) \<Rightarrow>
          (case parseIdentifier (skipNonCode d1) False of
             Some (n, _, _) \<Rightarrow> \<exists>y. handler e S_tryStatement z =
                 memberByIdentifier e (ti_lvalue OR ti_create OR ti_threadlocal) False y \<and> error_variable_pending y n v rest
           | None \<Rightarrow> \<exists>m y. handler e S_tryStatement z = Some (exitWithSyntaxError m y) \<and> mStack y = rest \<and> \<not> mSkipping y))"

lemma isErr_caught [simp]: "isErr (VErr er k c)"
  by (simp add: isErr_def hasType_def has_flag_def ti_error_def)

text \<open>C7: An uncaught error that a handler of a running thread ends with reaches the innermost \<open>try\<close>
  statement on the stack, unless it is fatal, and everything up to there is skipped, the rest of the
  stack being left alone; without a \<open>try\<close>, or when the error is fatal, it ends the thread. When later,
  in whatever state, the frame of that \<open>try\<close> comes up (with the caught error still as result, with
  none or with any other result but a new uncaught error) and \<open>catch\<close> follows, the clause runs: without
  \<open>as\<close> the next statement is executed, not skipped; with \<open>as\<close> and a name first the variable of that name is
  created and gets the error; \<open>as\<close> without a name is a syntax error, thrown from the statements around
  the \<open>try\<close>.\<close>

theorem error_is_caught_by_innermost_try:
  assumes "\<not> isCompiler p" "\<not> mSkipping p" "mResult p = Some (VErr er False c)"
  shows "(err_isFatal er \<or> split_at S_tryStatement (mStack p) = None \<longrightarrow> checkAndResume p = complete (mResult p) p) \<and>
    (\<forall>upper f rest. \<not> err_isFatal er \<and> split_at S_tryStatement (mStack p) = Some (upper, f, rest) \<longrightarrow>
      (let f' = f\<lparr>fSkipping := True, fResult := Some (VErr er True c)\<rparr>
       in checkAndResume p = p\<lparr>mResult := Some (VErr er True c), mSkipping := True, mResumed := True,
              mStack := map (\<lambda>g. g\<lparr>fSkipping := True\<rparr>) upper @ f' # rest\<rparr> \<and>
        (\<forall>(x :: proc) b d. \<not> isCompiler x \<and> mStack x = f' # rest \<and> (\<forall>er' k. mResult x \<noteq> Some (VErr er' False k)) \<and>
           checkForIdentifier (skipNonCode (mSrc x)) ''catch'' = (d, True) \<longrightarrow>
           enters_catch e ((pop x)\<lparr>mResumed := b\<rparr>) d rest (VErr er True c))))"
proof -
  have ck: "checkAndResume p = throwOrComplete (VErr er False c) p"
    using assms by (simp add: checkAndResume_def thread_checkAndResume_def)
  have same: "p\<lparr>mResult := Some (VErr er False c)\<rparr> = p" using assms(3) by (cases p) simp
  have none: "checkAndResume p = complete (mResult p) p" if "err_isFatal er \<or> split_at S_tryStatement (mStack p) = None"
  proof (cases "err_isFatal er")
    case True
    then show ?thesis unfolding ck assms(3) throwOrComplete_def Let_def same by simp
  next
    case False
    then have "split_at S_tryStatement (mStack p) = None" using that by simp
    then show ?thesis unfolding ck assms(3) using False throw_split [OF assms(2), of "VErr er False c", unfolded same] by simp
  qed
  have thrown: "checkAndResume p = p\<lparr>mResult := Some (VErr er True c), mSkipping := True, mResumed := True,
        mStack := map (\<lambda>g. g\<lparr>fSkipping := True\<rparr>) upper @ f\<lparr>fSkipping := True, fResult := Some (VErr er True c)\<rparr> # rest\<rparr>"
    if "\<not> err_isFatal er" "split_at S_tryStatement (mStack p) = Some (upper, f, rest)" for upper f rest
    unfolding ck using that throw_split [OF assms(2), of "VErr er False c"] by simp
  have caught: "enters_catch e ((pop x)\<lparr>mResumed := b\<rparr>) d rest (VErr er True c)"
    if x: "\<not> isCompiler x \<and> mStack x = f\<lparr>fSkipping := True, fResult := Some (VErr er True c)\<rparr> # rest \<and>
        (\<forall>er' k. mResult x \<noteq> Some (VErr er' False k)) \<and> checkForIdentifier (skipNonCode (mSrc x)) ''catch'' = (d, True)"
    for x :: proc and b d f rest
  proof -
    let ?f = "f\<lparr>fSkipping := True, fResult := Some (VErr er True c)\<rparr>"
    have sk: "\<not> catch_skipped ?f" by (simp add: catch_skipped_def)
    obtain d1 a where a: "checkForIdentifier (skipNonCode d) ''as'' = (d1, a)" by (cases "checkForIdentifier (skipNonCode d) ''as''")
    show ?thesis
    proof (cases a)
      case False
      then show ?thesis using a x sk catch_clause [of x ?f rest d d1 e b] by (simp add: enters_catch_def)
    next
      case True
      show ?thesis
      proof (cases "parseIdentifier (skipNonCode d1) False")
        case None
        then show ?thesis using a True x catch_as_missing [of x ?f rest d d1 "VErr er True c" e b] by (simp add: enters_catch_def)
      next
        case (Some r)
        then show ?thesis using a True x catch_as_clause [of x ?f rest d d1 "VErr er True c" _ _ _ e b] by (cases r) (simp add: enters_catch_def)
      qed
    qed
  qed
  show ?thesis unfolding Let_def using none thrown caught by blast
qed

text \<open>A thread at the end of a tried statement that failed, inside a block, with the text \<open>s\<close> ahead. One step
  after the error was thrown the frame of the \<open>try\<close> comes up, and the next one enters the clause.\<close>

definition sample_try :: "string \<Rightarrow> proc" where
  "sample_try s =
     (let p = new_thread (container_cursor \<lparr>stext = s, slabel = None, shosted = False\<rparr>) 0 None
      in p\<lparr>mStack := [push_frame null_cursor S_tryStatement p, push_frame null_cursor S_block p], mState := Some S_noStatement,
           mResult := Some (err_value E_NotFound ''x'')\<rparr>)"

definition tried :: "string \<Rightarrow> proc" where
  "tried s = the (step plain_env ((checkAndResume (sample_try s))\<lparr>mResumed := False\<rparr>))"

lemma snd_True: "snd p \<Longrightarrow> p = (fst p, True)"
  by (cases p) simp

lemma sample_try_state:
  "\<not> isCompiler (sample_try s)" "\<not> mSkipping (sample_try s)"
  "mResult (sample_try s) = Some (VErr (script_err E_NotFound ''x'') False None)"
  by (simp_all add: sample_try_def new_thread_def err_value_def Let_def)

lemma not_fatal: "\<not> err_isFatal (script_err E_NotFound ''x'')"
  by (simp add: err_isFatal_def script_err_def)

lemma enters_sample_catch:
  assumes "cursor_c (skipNonCode (mSrc (sample_try s))) 0 = CHR '';''"
    "checkForIdentifier (skipNonCode (nxt (skipNonCode (mSrc (sample_try s))))) ''catch'' = (d, True)"
    "\<And>upper f rest x b. split_at S_tryStatement (mStack (sample_try s)) = Some (upper, f, rest) \<Longrightarrow>
       checkAndResume (sample_try s) = (sample_try s)\<lparr>mResult := Some (VErr (script_err E_NotFound ''x'') True None), mSkipping := True, mResumed := True,
              mStack := map (\<lambda>g. g\<lparr>fSkipping := True\<rparr>) upper @ f\<lparr>fSkipping := True, fResult := Some (VErr (script_err E_NotFound ''x'') True None)\<rparr> # rest\<rparr> \<and>
       (\<not> isCompiler x \<and> mStack x = f\<lparr>fSkipping := True, fResult := Some (VErr (script_err E_NotFound ''x'') True None)\<rparr> # rest \<and>
        (\<forall>er' k. mResult x \<noteq> Some (VErr er' False k)) \<and> checkForIdentifier (skipNonCode (mSrc x)) ''catch'' = (d, True) \<longrightarrow>
        enters_catch plain_env ((pop x)\<lparr>mResumed := b\<rparr>) d rest (VErr (script_err E_NotFound ''x'') True None))"
  shows "enters_catch plain_env (tried s) d (tl (mStack (sample_try s))) (VErr (script_err E_NotFound ''x'') True None)"
proof -
  let ?v = "VErr (script_err E_NotFound ''x'') True None"
  let ?f = "hd (mStack (sample_try s))"
  let ?x = "(sample_try s)\<lparr>mResult := Some ?v, mSkipping := True, mResumed := False,
     mStack := ?f\<lparr>fSkipping := True, fResult := Some ?v\<rparr> # tl (mStack (sample_try s)), mSrc := nxt (skipNonCode (mSrc (sample_try s)))\<rparr>"
  have st: "split_at S_tryStatement (mStack (sample_try s)) = Some ([], ?f, tl (mStack (sample_try s)))"
    by (simp add: sample_try_def split_at_def push_frame_def Let_def)
  have m: "\<not> isCompiler (sample_try s)" "mState (sample_try s) = Some S_noStatement"
    by (simp_all add: sample_try_def new_thread_def Let_def)
  have c: "checkAndResume (sample_try s) = (sample_try s)\<lparr>mResult := Some ?v, mSkipping := True, mResumed := True,
      mStack := ?f\<lparr>fSkipping := True, fResult := Some ?v\<rparr> # tl (mStack (sample_try s))\<rparr>"
    using assms(3) [OF st] by simp
  have t: "tried s = (pop ?x)\<lparr>mResumed := True\<rparr>"
    unfolding tried_def c using assms(1) m
    by (simp add: step_def s_noStatement_def src_nextCodeIf_def nextCodeIf_def nextIf_def checkAndResume_def
        thread_checkAndResume_def pop_def pop_frame_def resume_def)
  show ?thesis unfolding t using assms(3) [OF st, of ?x True] assms(2) m(1) by simp
qed

theorem error_is_caught_by_innermost_try_witness:
  "(\<exists>q. handler plain_env S_tryStatement (tried ''; catch return'') = Some q \<and> mState q = Some S_oneStatement \<and> \<not> mSkipping q) \<and>
   (\<exists>y. handler plain_env S_tryStatement (tried ''; catch as problem return'') =
        memberByIdentifier plain_env (ti_lvalue OR ti_create OR ti_threadlocal) False y \<and> mIdentifier y = ''problem'')"
proof -
  let ?v = "VErr (script_err E_NotFound ''x'') True None"
  have e: "enters_catch plain_env (tried s) d (tl (mStack (sample_try s))) ?v"
    if "cursor_c (skipNonCode (mSrc (sample_try s))) 0 = CHR '';''"
       "checkForIdentifier (skipNonCode (nxt (skipNonCode (mSrc (sample_try s))))) ''catch'' = (d, True)" for s d
  proof (rule enters_sample_catch [OF that])
    fix upper f rest and x :: proc and b
    assume st: "split_at S_tryStatement (mStack (sample_try s)) = Some (upper, f, rest)"
    note main = error_is_caught_by_innermost_try [OF sample_try_state, of s plain_env,
      THEN conjunct2, THEN spec, THEN spec, THEN spec, THEN mp, OF conjI [OF not_fatal st], unfolded Let_def]
    show "checkAndResume (sample_try s) = (sample_try s)\<lparr>mResult := Some ?v, mSkipping := True, mResumed := True,
        mStack := map (\<lambda>g. g\<lparr>fSkipping := True\<rparr>) upper @ f\<lparr>fSkipping := True, fResult := Some ?v\<rparr> # rest\<rparr> \<and>
      (\<not> isCompiler x \<and> mStack x = f\<lparr>fSkipping := True, fResult := Some ?v\<rparr> # rest \<and>
       (\<forall>er' k. mResult x \<noteq> Some (VErr er' False k)) \<and> checkForIdentifier (skipNonCode (mSrc x)) ''catch'' = (d, True) \<longrightarrow>
       enters_catch plain_env ((pop x)\<lparr>mResumed := b\<rparr>) d rest ?v)" (is "?A \<and> ?B")
    proof (rule conjI)
      show "?A" by (rule conjunct1 [OF main])
      show "?B" by (rule conjunct2 [OF main, THEN spec [of _ x], THEN spec [of _ b], THEN spec [of _ d]])
    qed
  qed
  let ?d = "\<lambda>s. fst (checkForIdentifier (skipNonCode (nxt (skipNonCode (mSrc (sample_try s))))) ''catch'')"
  have a: "enters_catch plain_env (tried ''; catch return'') (?d ''; catch return'') (tl (mStack (sample_try ''; catch return''))) ?v"
  proof (rule e)
    show "cursor_c (skipNonCode (mSrc (sample_try ''; catch return''))) 0 = CHR '';''" by code_simp
    show "checkForIdentifier (skipNonCode (nxt (skipNonCode (mSrc (sample_try ''; catch return''))))) ''catch'' =
      (?d ''; catch return'', True)" by (rule snd_True) code_simp
  qed
  have b: "enters_catch plain_env (tried ''; catch as problem return'') (?d ''; catch as problem return'')
      (tl (mStack (sample_try ''; catch as problem return''))) ?v"
  proof (rule e)
    show "cursor_c (skipNonCode (mSrc (sample_try ''; catch as problem return''))) 0 = CHR '';''" by code_simp
    show "checkForIdentifier (skipNonCode (nxt (skipNonCode (mSrc (sample_try ''; catch as problem return''))))) ''catch'' =
      (?d ''; catch as problem return'', True)" by (rule snd_True) code_simp
  qed
  have ka: "\<not> snd (checkForIdentifier (skipNonCode (?d ''; catch return'')) ''as'')" by code_simp
  have kb: "snd (checkForIdentifier (skipNonCode (?d ''; catch as problem return'')) ''as'')"
    "map_option fst (parseIdentifier (skipNonCode (fst (checkForIdentifier (skipNonCode (?d ''; catch as problem return'')) ''as''))) False) =
       Some ''problem''"
    by (code_simp, code_simp)
  show ?thesis
    using a b ka kb
    by (auto simp: enters_catch_def error_variable_pending_def split: prod.splits bool.splits option.splits)
qed

section \<open>Conditions\<close>

text \<open>C8: Of the two branches of a condition exactly the right one runs, and none in skipped code: when the
  condition has the value \<open>r\<close>, the first branch is skipped exactly when \<open>r\<close> is false, the one behind
  \<open>else\<close> exactly when it is true. \<open>q\<close> is the state in which the first branch begins, \<open>y\<close> the one in
  which its frame has come up again, with \<open>else\<close> and no further \<open>if\<close> following.\<close>

theorem exactly_one_branch_runs:
  assumes "s_ifCondition e p = Some q" "cursor_c (skipNonCode (mSrc p)) 0 = CHR '')''"
    "mStack x = mStack q" "y = pop x" "checkForIdentifier (skipNonCode (mSrc y)) ''else'' = (c, True)"
    "snd (checkForIdentifier (skipNonCode c) ''if'') = False"
  shows "mState q = Some S_oneStatement \<and> mState (s_ifTrueStatement y) = Some S_oneStatement \<and>
    (if mSkipping p then mSkipping q \<and> mSkipping (s_ifTrueStatement y)
     else \<exists>r. mResult p = Some r \<and> mSkipping q = (\<not> boolValue (pe e) r) \<and> mSkipping (s_ifTrueStatement y) = boolValue (pe e) r)"
proof -
  have f: "\<exists>f st. mStack q = f # st \<and> mState q = Some S_oneStatement \<and> fReturn f = S_ifTrueStatement \<and>
      (if mSkipping p then mSkipping q \<and> fResult f = None
       else \<exists>r. mResult p = Some r \<and> mSkipping q = (\<not> boolValue (pe e) r) \<and> (fResult f = None) = boolValue (pe e) r)"
  proof -
    have n: "src_nextCodeIf (CHR '')'') p = (p\<lparr>mSrc := nxt (skipNonCode (mSrc p))\<rparr>, True)"
      using assms(2) by (simp add: src_nextCodeIf_def nextCodeIf_def nextIf_def)
    note d = resumeAt_def resume_def setState_def push_def push_frame_def
    show ?thesis
    proof (cases "mSkipping p")
      case True
      then show ?thesis using assms(1) by (simp add: s_ifCondition_def n d) fastforce
    next
      case False
      then obtain r where "mResult p = Some r" using assms(1) by (cases "mResult p") (simp_all add: s_ifCondition_def n)
      then show ?thesis using False assms(1) by (simp add: s_ifCondition_def n d Let_def) fastforce
    qed
  qed
  obtain f st where f: "mStack q = f # st" "fReturn f = S_ifTrueStatement" "mState q = Some S_oneStatement"
    "if mSkipping p then mSkipping q \<and> fResult f = None
     else \<exists>r. mResult p = Some r \<and> mSkipping q = (\<not> boolValue (pe e) r) \<and> (fResult f = None) = boolValue (pe e) r" using f by blast
  have y: "mOlder y = fResult f" using assms(3,4) f(1) by (simp add: pop_def pop_frame_def)
  have s: "mState (s_ifTrueStatement y) = Some S_oneStatement \<and> mSkipping (s_ifTrueStatement y) = (mOlder y = None)"
  proof -
    have k1: "src_keyword ''else'' (src_skip y) = (y\<lparr>mSrc := c\<rparr>, True)"
      using assms(5) by (simp add: src_keyword_def src_skip_def)
    define z where "z = src_skip (y\<lparr>mSrc := c, mSkipping := (mOlder y = None)\<rparr>)"
    have k2: "snd (src_keyword ''if'' z) = False" "mSkipping (fst (src_keyword ''if'' z)) = (mOlder y = None)"
      using assms(6) by (simp_all add: z_def src_keyword_def src_skip_def Let_def split_beta)
    have "s_ifTrueStatement y = resumeAt S_oneStatement (fst (src_keyword ''if'' z))"
      using k2(1) by (simp add: s_ifTrueStatement_def k1 z_def Let_def split_beta)
    then show ?thesis using k2(2) by (simp add: resumeAt_def resume_def setState_def)
  qed
  show ?thesis using f(3,4) y s by (auto split: if_splits)
qed

text \<open>A condition that is true, with the text after it: nothing to run, \<open>else\<close>.\<close>

definition sample_if :: proc where
  "sample_if = (new_thread (container_cursor \<lparr>stext = '') else 1'', slabel = None, shosted = False\<rparr>) 0 None)\<lparr>mResult := Some (vbool True)\<rparr>"

theorem exactly_one_branch_runs_witness:
  "mSkipping (s_ifTrueStatement (pop (the (s_ifCondition plain_env sample_if))))"
proof -
  let ?q = "the (s_ifCondition plain_env sample_if)"
  have s: "s_ifCondition plain_env sample_if = Some ?q" "\<not> mSkipping ?q" "\<not> mSkipping sample_if"
    by (code_simp, code_simp, code_simp)
  have c: "cursor_c (skipNonCode (mSrc sample_if)) 0 = CHR '')''" by code_simp
  have k: "snd (checkForIdentifier (skipNonCode (mSrc (pop ?q))) ''else'')"
    "\<not> snd (checkForIdentifier (skipNonCode (fst (checkForIdentifier (skipNonCode (mSrc (pop ?q))) ''else''))) ''if'')"
    by (code_simp, code_simp)
  have p: "checkForIdentifier (skipNonCode (mSrc (pop ?q))) ''else'' =
      (fst (checkForIdentifier (skipNonCode (mSrc (pop ?q))) ''else''), True)"
    using k(1) by (metis prod.collapse)
  show ?thesis using exactly_one_branch_runs [OF s(1) c HOL.refl HOL.refl p] k(2) s(2,3) by auto
qed

section \<open>continue\<close>

text \<open>A \<open>continue\<close> in the last round of a \<open>while\<close> loop ends the loop inside its body. The position of the
  \<open>continue\<close> is taken as the end of the body: when the condition then is false, the loop is left
  with the source cursor behind the \<open>continue\<close>, so that the rest of the body is run as what follows the loop.\<close>

theorem continue_ends_loop_inside_body:
  assumes "\<not> isCompiler p" "mResult p = None" "mHelper p = Some i" "pHelpers p ! i = ForWhile w" "\<not> fwIsFor w"
    "split_at S_loopBodyDone (mStack p) = Some (upper, f, rest)" "\<not> fSkipping f" "fHelper f = Some i"
  shows "\<exists>q r g. continue_statement p = q \<and> mState q = Some S_loopBodyDone \<and>
    handler e S_loopBodyDone q = Some r \<and> mState r = Some S_expression \<and> cpos (mSrc r) = fwCondition w \<and> mStack r = g # rest \<and>
    fReturn g = S_loopEnd \<and>
    (\<forall>x v. \<not> isCompiler x \<and> mStack x = g # rest \<and> rest \<noteq> [] \<and> mResult x = Some v \<and> \<not> boolValue (pe e) v \<and> \<not> isErr v \<longrightarrow>
       (\<exists>z. handler e S_loopEnd (pop x) = Some z \<and> mSrc z = mSrc p \<and> mState z = Some (fReturn (hd rest)) \<and> mStack z = tl rest))"
proof -
  have fe: "foreach_of p = None" using assms(3,4) by (simp add: foreach_of_def)
  let ?q = "resume (pop_frame f (p\<lparr>mStack := rest\<rparr>))"
  have r: "fReturn f = S_loopBodyDone" using split_at_Some [OF assms(6)] by simp
  have q: "continue_statement p = ?q"
    using fe assms(1,2,6)
    by (simp add: continue_statement_def unWindStackTo_def drop_to_split pop_def checkAndResume_def thread_checkAndResume_def pop_frame_def)
  have fw: "forwhile_of ?q = Some w" "forwhile_of (?q\<lparr>mPoppedSrc := mSrc p\<rparr>) = Some w"
    using assms(4,8) by (simp_all add: forwhile_of_def pop_frame_def resume_def)
  let ?r = "resumeAt S_expression (set_pos (fwCondition w) (push_popped S_loopEnd (?q\<lparr>mPoppedSrc := mSrc p\<rparr>)))"
  have sr: "handler e S_loopBodyDone ?q = Some ?r"
    using assms(5,7) fw by (simp add: s_loopBodyDone_def s_loopRecheck_def pop_frame_def resume_def)
  let ?g = "push_frame (mSrc p) S_loopEnd (?q\<lparr>mPoppedSrc := mSrc p\<rparr>)"
  have st: "mStack ?r = ?g # rest" "mState ?r = Some S_expression" "cpos (mSrc ?r) = fwCondition w"
    by (simp_all add: resumeAt_def resume_def setState_def set_pos_def push_popped_def pop_frame_def)
  have e: "\<exists>z. handler e S_loopEnd (pop x) = Some z \<and> mSrc z = mSrc p \<and> mState z = Some (fReturn (hd rest)) \<and> mStack z = tl rest"
    if x: "\<not> isCompiler x" "mStack x = ?g # rest" "rest \<noteq> []" "mResult x = Some v" "\<not> boolValue (pe e) v" "\<not> isErr v" for x v
  proof -
    have v: "\<forall>er k c. v \<noteq> VErr er k c" using x(6) by (auto simp: isErr_def hasType_def has_flag_def ti_error_def)
    then show ?thesis
      using x(1-5) assms(7)
      by (cases rest; cases v)
         (auto simp: s_loopEnd_def pop_def pop_frame_def push_frame_def resume_def checkAndResume_def thread_checkAndResume_def Let_def)
  qed
  have f: "fReturn ?g = S_loopEnd" by (simp add: push_frame_def)
  have m: "mState ?q = Some S_loopBodyDone" using r by (simp add: resume_def pop_frame_def)
  show ?thesis
    by (rule exI [of _ ?q], rule exI [of _ ?r], rule exI [of _ ?g]) (use q m sr st f e in blast)
qed

theorem continue_ends_loop_inside_body_witness:
  "let w = ForWhile \<lparr>fwCondition = null_pos, fwNext = null_pos, fwBody = null_pos, fwIsFor = False\<rparr>;
       b = new_helper w (new_thread (container_cursor \<lparr>stext = ''while (x) { continue; }'', slabel = None, shosted = False\<rparr>) 0 None);
       p = push S_block (push S_loopBodyDone b)
   in \<exists>q. continue_statement p = q \<and> mState q = Some S_loopBodyDone"
proof -
  let ?w = "\<lparr>fwCondition = null_pos, fwNext = null_pos, fwBody = null_pos, fwIsFor = False\<rparr>"
  let ?b = "new_helper (ForWhile ?w) (new_thread (container_cursor \<lparr>stext = ''while (x) { continue; }'', slabel = None, shosted = False\<rparr>) 0 None)"
  let ?p = "push S_block (push S_loopBodyDone ?b)"
  have "split_at S_loopBodyDone (mStack ?p) = Some ([hd (mStack ?p)], push_frame (mSrc ?b) S_loopBodyDone ?b, [])"
    by (simp add: split_at_def push_def push_frame_def new_helper_def new_thread_def)
  then show ?thesis
    using continue_ends_loop_inside_body [of ?p 0 ?w "[hd (mStack ?p)]" "push_frame (mSrc ?b) S_loopBodyDone ?b" "[]" plain_env]
    by (simp add: push_def push_frame_def new_helper_def new_thread_def Let_def)
qed

section \<open>An empty statement\<close>

text \<open>A lone separator is not taken as the one statement that a condition, a loop or a \<open>try\<close> waits for:
  behind it the processor still waits for one statement, and takes the next one, whatever comes up after the separator.\<close>

theorem lone_separator_is_no_statement:
  assumes "cursor_c (skipNonCode (mSrc p)) 0 = CHR '';''" "mState p = Some S_oneStatement" "\<not> isCompiler p" "mResult p = None"
  shows "handler e S_oneStatement p = Some (p\<lparr>mSrc := nxt (skipNonCode (mSrc p)), mResumed := True\<rparr>)"
proof -
  have eot: "\<not> EOT (skipNonCode (mSrc p))" using assms(1) by (simp add: cursor_c_EOT)
  have n: "src_nextIf c (p\<lparr>mSrc := skipNonCode (mSrc p)\<rparr>) =
      (if c = CHR '';'' then (p\<lparr>mSrc := nxt (skipNonCode (mSrc p))\<rparr>, True) else (p\<lparr>mSrc := skipNonCode (mSrc p)\<rparr>, False))" for c
    using assms(1) by (simp add: src_nextIf_def nextIf_def)
  show ?thesis
    using eot assms(2-4)
    by (simp add: processStatement_def src_skip_def n Let_def checkAndResume_def thread_checkAndResume_def resume_def)
qed

theorem lone_separator_is_no_statement_witness:
  "let p = (new_thread (container_cursor \<lparr>stext = ''; a = 1'', slabel = None, shosted = False\<rparr>) 0 None)\<lparr>mState := Some S_oneStatement\<rparr>
   in map_option mState (handler plain_env S_oneStatement p) = Some (Some S_oneStatement)"
proof -
  let ?p = "(new_thread (container_cursor \<lparr>stext = ''; a = 1'', slabel = None, shosted = False\<rparr>) 0 None)\<lparr>mState := Some S_oneStatement\<rparr>"
  have "cursor_c (skipNonCode (mSrc ?p)) 0 = CHR '';''" by code_simp
  from lone_separator_is_no_statement [OF this, of plain_env] show ?thesis by (simp add: new_thread_def Let_def)
qed

section \<open>Code that is only skipped\<close>

text \<open>The compiler dereferences a null pointer at an object literal with a calculated field name that it
  skips: skipping leaves no result of the expression between the brackets (an identifier there, for
  instance, has none), and the handler for the closing bracket takes the name from it.\<close>

theorem skipped_field_name_dereferences_null:
  assumes "isCompiler p" "mSkipping p" "memberByIdentifier e f noerr p = Some q"
    "cursor_c (skipNonCode (mSrc r)) 0 = CHR '']''" "mResult r = mResult q"
  shows "handler e S_varobjectfield r = None"
proof -
  have n: "mResult r = None" using assms(1-3,5) by (auto simp: memberByIdentifier_def compiler_memberByIdentifier_def resume_def)
  have "src_nextCodeIf (CHR '']'') r = (r\<lparr>mSrc := nxt (skipNonCode (mSrc r))\<rparr>, True)"
    using assms(4) by (simp add: src_nextCodeIf_def nextCodeIf_def nextIf_def)
  then show ?thesis using n by (simp add: s_varobjectfield_def)
qed

theorem skipped_field_name_dereferences_null_witness:
  "handler plain_env S_varobjectfield
     (new_compiler\<lparr>mSrc := container_cursor \<lparr>stext = '']:1}'', slabel = None, shosted = False\<rparr>, mSkipping := True\<rparr>) = None"
proof -
  let ?r = "new_compiler\<lparr>mSrc := container_cursor \<lparr>stext = '']:1}'', slabel = None, shosted = False\<rparr>, mSkipping := True\<rparr>"
  have "cursor_c (skipNonCode (mSrc ?r)) 0 = CHR '']''" by code_simp
  then show ?thesis
    using skipped_field_name_dereferences_null [of ?r plain_env 0 False "resume (?r\<lparr>mResult := None\<rparr>)" ?r]
    by (simp add: new_compiler_def new_thread_def memberByIdentifier_def compiler_memberByIdentifier_def resume_def)
qed

text \<open>A local function is defined also where its definition is skipped, in the branch of a condition that does
  not run, for instance: at the end of the body the thread stores it among the variables of the main
  context without looking at the skipping flag.\<close>

theorem skipped_local_function_is_defined:
  assumes "\<not> isCompiler p" "mSkipping p" "mOlder p = Some (VExec ti_executable a i)" "i < length (pObjects p)"
    "pObjects p ! i = XFunction n as c" "pMain p < length (pHeap p)" "pHeap p ! pMain p = HVars m" "mStack p = g # st"
  shows "\<exists>q m'. handler e (S_defineFunction False) p = Some q \<and> pHeap q ! pMain p = HVars m' \<and>
    nm_find n m' = Some (VExec ti_executable a i) \<and> pObjects q ! i = XFunction n as (capture_cursor p)"
proof -
  let ?v = "VExec ti_executable a i"
  let ?c = "capture_cursor (setState S_declarations p)"
  have cc: "?c = capture_cursor p" by (simp add: capture_cursor_def setState_def)
  let ?p = "setState S_declarations p\<lparr>pObjects := (pObjects p)[i := XFunction n as ?c], mResult := Some ?v\<rparr>"
  have cap: "captureCode (mOlder p) (setState S_declarations p) = (setState S_declarations p\<lparr>pObjects := (pObjects p)[i := XFunction n as ?c]\<rparr>, ?v)"
    using assms(3-5) by (simp add: captureCode_def setState_def Let_def)
  have nm: "callee_name ?p ?v = n" using assms(4) by (simp add: callee_name_def exec_of_def exec_name_def)
  have ne: "\<not> isErr ?v" by (simp add: isErr_def hasType_def has_flag_def ti_error_def ti_executable_def)
  have st: "storeFunction ?p = Some (resume (?p\<lparr>pHeap := (pHeap p)[pMain p := HVars (nm_set n ?v m)]\<rparr>))"
    using assms(1,7) ne nm
    by (simp add: storeFunction_def store_named_def hobj_setMemberByName_def checkAndResume_def thread_checkAndResume_def setState_def)
  have "handler e (S_defineFunction False) p = Some (pop (resume (?p\<lparr>pHeap := (pHeap p)[pMain p := HVars (nm_set n ?v m)]\<rparr>)))"
    using assms(1) cap st by (simp add: defineFunction_def Let_def)
  moreover have "nm_find n (nm_set n ?v m) = Some ?v" by (simp add: nm_find_set same_name_def)
  ultimately show ?thesis
    using assms(4,6,8) cc by (simp add: pop_def pop_frame_def resume_def setState_def)
qed

theorem skipped_local_function_is_defined_witness:
  "let p = (new_thread (container_cursor \<lparr>stext = ''{ return 1 }'', slabel = None, shosted = True\<rparr>) 0 None)\<lparr>mSkipping := True,
         pObjects := [XFunction ''f'' [] null_cursor], mOlder := Some (VExec ti_executable ''function'' 0),
         mStack := [push_frame null_cursor S_body (new_thread null_cursor 0 None)]\<rparr>
   in \<exists>q m. handler plain_env (S_defineFunction False) p = Some q \<and> pHeap q ! 0 = HVars m \<and>
        nm_find ''f'' m = Some (VExec ti_executable ''function'' 0)"
proof -
  let ?p = "(new_thread (container_cursor \<lparr>stext = ''{ return 1 }'', slabel = None, shosted = True\<rparr>) 0 None)\<lparr>mSkipping := True,
         pObjects := [XFunction ''f'' [] null_cursor], mOlder := Some (VExec ti_executable ''function'' 0),
         mStack := [push_frame null_cursor S_body (new_thread null_cursor 0 None)]\<rparr>"
  show ?thesis
    using skipped_local_function_is_defined [of ?p "''function''" 0 "''f''" "[]" null_cursor "[]" _ "[]" plain_env]
    by (fastforce simp: new_thread_def Let_def)
qed

end
