(* ===== verification/TimeBase.thy ===== *)
theory TimeBase
  imports Prelude
begin

text \<open>
  Main loop times (\<open>p44utils_defs.hpp\<close>, \<open>mainloop.cpp\<close>): microseconds as \<open>int\<close>, the special times,
  and the conversions between main loop time and Unix time for given readings of the two clocks.
\<close>

type_synonym time = int

definition Never :: time where "Never = 0"
definition Infinite :: time where "Infinite = -1"
definition MilliSecond :: time where "MilliSecond = 1000"
definition Second :: time where "Second = 1000 * MilliSecond"
definition Minute :: time where "Minute = 60 * Second"
definition Hour :: time where "Hour = 60 * Minute"
definition Day :: time where "Day = 24 * Hour"

definition DEFINED_TIME :: "time \<Rightarrow> bool" where
  "DEFINED_TIME t \<longleftrightarrow> t > 0"

definition DEFINED_INTERVAL :: "time \<Rightarrow> bool" where
  "DEFINED_INTERVAL t \<longleftrightarrow> t \<ge> 0"

definition NONZERO_INTERVAL :: "time \<Rightarrow> bool" where
  "NONZERO_INTERVAL t \<longleftrightarrow> t > 0"

definition mainLoopTimeToUnixTime :: "time \<Rightarrow> time \<Rightarrow> time \<Rightarrow> time" where
  "mainLoopTimeToUnixTime now unixtime t = t - now + unixtime"

definition unixTimeToMainLoopTime :: "time \<Rightarrow> time \<Rightarrow> time \<Rightarrow> time" where
  "unixTimeToMainLoopTime now unixtime t = t - unixtime + now"

definition timeValToMainLoopTime :: "(int \<times> int) option \<Rightarrow> time" where
  "timeValToMainLoopTime tv = (case tv of None \<Rightarrow> Never | Some (sec, usec) \<Rightarrow> sec * Second + usec)"

lemmas time_defs = Never_def Infinite_def MilliSecond_def Second_def Minute_def Hour_def Day_def
  DEFINED_TIME_def DEFINED_INTERVAL_def NONZERO_INTERVAL_def

end
