(* ===== verification/Timers.thy ===== *)
theory Timers
  imports TimeBase
begin

text \<open>
  The timers of the main loop (\<open>mainloop.cpp\<close>): the timer queue, tickets, cancelling, rescheduling and
  retriggering, and the loop that runs the timers that are due. Times are microseconds as \<open>int\<close>.
  A timer callback is what the queue sees of it: a list of timer operations, and another one for what
  the destruction of the objects the callback keeps alive brings about.
\<close>

section \<open>The timer queue\<close>

record mltimer =
  tTicket :: nat
  tExecution :: time
  tTolerance :: time
  tCallback :: nat
  tReinsert :: bool

text \<open>
  The part of \<open>MainLoop\<close> that the timers need, with the counters of its statistics; the times spent
  in handlers are not kept.
\<close>

record timers =
  mTimers :: "mltimer list"
  mTimersChanged :: bool
  mTicketNo :: nat
  mTerminated :: bool
  mExitCode :: int
  mMaxCoalescing :: time
  mMaxTimers :: nat
  mMaxTimerExecutionDelay :: time
  mTimesTimersRanToLong :: nat

text \<open>The search of \<open>scheduleTimer\<close> for the first timer with a later execution time.\<close>

fun insert_later :: "mltimer \<Rightarrow> mltimer list \<Rightarrow> mltimer list" where
  "insert_later t [] = [t]"
| "insert_later t (x # xs) = (if tExecution x > tExecution t then t # x # xs else x # insert_later t xs)"

definition scheduled :: "mltimer \<Rightarrow> mltimer list \<Rightarrow> mltimer list" where
  "scheduled t ts = (if ts \<noteq> [] \<and> tExecution t < tExecution (last ts) then insert_later t ts else ts @ [t])"

definition scheduleTimer :: "mltimer \<Rightarrow> timers \<Rightarrow> timers" where
  "scheduleTimer t m =
     m\<lparr>mMaxTimers := max (mMaxTimers m) (length (mTimers m) + 1),
       mTimersChanged := True, mTimers := scheduled t (mTimers m)\<rparr>"

definition executeOnceAt :: "nat \<Rightarrow> time \<Rightarrow> time \<Rightarrow> timers \<Rightarrow> timers \<times> nat" where
  "executeOnceAt cb t tol m =
     (let n = mTicketNo m + 1
      in (scheduleTimer \<lparr>tTicket = n, tExecution = t, tTolerance = tol, tCallback = cb, tReinsert = False\<rparr>
            (m\<lparr>mTicketNo := n\<rparr>), n))"

definition executeOnce :: "time \<Rightarrow> nat \<Rightarrow> time \<Rightarrow> time \<Rightarrow> timers \<Rightarrow> timers \<times> nat" where
  "executeOnce now cb delay tol m = executeOnceAt cb (now + delay) tol m"

fun without_ticket :: "nat \<Rightarrow> mltimer list \<Rightarrow> (mltimer \<times> mltimer list) option" where
  "without_ticket n [] = None"
| "without_ticket n (x # xs) =
     (if tTicket x = n then Some (x, xs) else map_option (\<lambda>(t, ys). (t, x # ys)) (without_ticket n xs))"

definition cancelExecutionTicket :: "nat \<Rightarrow> timers \<Rightarrow> timers \<times> bool" where
  "cancelExecutionTicket n m =
     (if n = 0 then (m, False)
      else case without_ticket n (mTimers m) of
             None \<Rightarrow> (m, False)
           | Some (_, ts) \<Rightarrow> (m\<lparr>mTimers := ts, mTimersChanged := True\<rparr>, True))"

text \<open>The tolerance is an argument that the code does not use.\<close>

definition rescheduleExecutionTicketAt :: "nat \<Rightarrow> time \<Rightarrow> time \<Rightarrow> timers \<Rightarrow> timers \<times> bool" where
  "rescheduleExecutionTicketAt n t tol m =
     (if n = 0 then (m, False)
      else case without_ticket n (mTimers m) of
             None \<Rightarrow> (m, False)
           | Some (h, ts) \<Rightarrow> (scheduleTimer (h\<lparr>tExecution := t\<rparr>) (m\<lparr>mTimers := ts\<rparr>), True))"

definition rescheduleExecutionTicket :: "time \<Rightarrow> nat \<Rightarrow> time \<Rightarrow> time \<Rightarrow> timers \<Rightarrow> timers \<times> bool" where
  "rescheduleExecutionTicket now n delay tol m = rescheduleExecutionTicketAt n (now + delay) tol m"

definition terminate :: "int \<Rightarrow> timers \<Rightarrow> timers" where
  "terminate c m = m\<lparr>mExitCode := c, mTerminated := True\<rparr>"

section \<open>Tickets\<close>

text \<open>A \<open>MLTicket\<close> is the number it holds, 0 for none; an operation on it gives the number it holds then.\<close>

definition ticket_defuse :: "nat \<Rightarrow> nat \<times> nat" where
  "ticket_defuse n = (0, n)"

definition ticket_cancel :: "nat \<Rightarrow> timers \<Rightarrow> nat \<times> timers \<times> bool" where
  "ticket_cancel n m =
     (if n \<noteq> 0 then let (m', b) = cancelExecutionTicket n m in (0, m', b) else (n, m, False))"

definition ticket_assign :: "nat \<Rightarrow> nat \<Rightarrow> timers \<Rightarrow> nat \<times> timers" where
  "ticket_assign k n m = (let (_, m', _) = ticket_cancel n m in (k, m'))"

definition executeTicketOnceAt :: "nat \<Rightarrow> nat \<Rightarrow> time \<Rightarrow> time \<Rightarrow> timers \<Rightarrow> nat \<times> timers" where
  "executeTicketOnceAt n cb t tol m =
     (let (n1, m1, _) = ticket_cancel n m; (m2, k) = executeOnceAt cb t tol m1
      in ticket_assign k n1 m2)"

definition executeTicketOnce :: "time \<Rightarrow> nat \<Rightarrow> nat \<Rightarrow> time \<Rightarrow> time \<Rightarrow> timers \<Rightarrow> nat \<times> timers" where
  "executeTicketOnce now n cb delay tol m =
     (let (n1, m1, _) = ticket_cancel n m; (m2, k) = executeOnce now cb delay tol m1
      in ticket_assign k n1 m2)"

definition ticket_rescheduleAt :: "nat \<Rightarrow> time \<Rightarrow> time \<Rightarrow> timers \<Rightarrow> timers \<times> bool" where
  "ticket_rescheduleAt n t tol m = (if n = 0 then (m, False) else rescheduleExecutionTicketAt n t tol m)"

definition ticket_reschedule :: "time \<Rightarrow> nat \<Rightarrow> time \<Rightarrow> time \<Rightarrow> timers \<Rightarrow> timers \<times> bool" where
  "ticket_reschedule now n delay tol m = ticket_rescheduleAt n (now + delay) tol m"

section \<open>Retriggering\<close>

definition from_now_if_late :: int where "from_now_if_late = -1"
definition from_now :: int where "from_now = -2"
definition absolute :: int where "absolute = -3"

text \<open>Skipping intervals until the time is in the future, at most \<open>s\<close> of them.\<close>

function skip_intervals :: "time \<Rightarrow> time \<Rightarrow> int \<Rightarrow> int \<Rightarrow> mltimer \<Rightarrow> mltimer \<times> int" where
  "skip_intervals now i s k t =
     (let u = t\<lparr>tExecution := tExecution t + i\<rparr>
      in if tExecution u \<ge> now then (u\<lparr>tReinsert := True\<rparr>, k)
         else if k + 1 \<le> s then skip_intervals now i s (k + 1) u
         else (u, -1))"
  by pat_completeness auto

termination
  by (relation "measure (\<lambda>(now, i, s, k, t). nat (s + 1 - k))") auto

declare skip_intervals.simps [simp del]

definition retriggerTimer :: "time \<Rightarrow> time \<Rightarrow> time \<Rightarrow> int \<Rightarrow> mltimer \<Rightarrow> mltimer \<times> int" where
  "retriggerTimer now i tol s t0 =
     (let t = t0\<lparr>tTolerance := tol\<rparr>
      in if s = absolute
         then if i < now + tTolerance t then (t\<lparr>tExecution := now, tReinsert := True\<rparr>, 1)
              else (t\<lparr>tExecution := i, tReinsert := True\<rparr>, 0)
         else if s = from_now_if_late
         then let u = t\<lparr>tExecution := tExecution t + i\<rparr>
              in if tExecution u + tTolerance u < now
                 then (u\<lparr>tExecution := now + i, tReinsert := True\<rparr>, 1)
                 else (u\<lparr>tReinsert := True\<rparr>, 0)
         else if s = from_now
         then (t\<lparr>tExecution := now + i, tReinsert := True\<rparr>, 0)
         else skip_intervals now i s 0 t)"

section \<open>Running timers\<close>

text \<open>What a callback can do to the timers, the one it is called for included.\<close>

datatype timer_op =
  Execute nat time time
| Cancel nat
| Reschedule nat time time
| Retrigger time time time int
| Terminate int

fun timer_do :: "timer_op \<Rightarrow> mltimer \<times> timers \<Rightarrow> mltimer \<times> timers" where
  "timer_do (Execute cb t tol) (r, m) = (r, fst (executeOnceAt cb t tol m))"
| "timer_do (Cancel n) (r, m) = (r, fst (cancelExecutionTicket n m))"
| "timer_do (Reschedule n t tol) (r, m) = (r, fst (rescheduleExecutionTicketAt n t tol m))"
| "timer_do (Retrigger now i tol s) (r, m) = (fst (retriggerTimer now i tol s r), m)"
| "timer_do (Terminate c) (r, m) = (r, terminate c m)"

text \<open>A reading of the clock, and the callback that it may lead to.\<close>

record tick =
  tkNow :: time
  tkCallback :: "timer_op list"
  tkRelease :: "timer_op list"

definition earliest :: "timers \<Rightarrow> mltimer \<Rightarrow> time" where
  "earliest m t = tExecution t - min (tTolerance t) (mMaxCoalescing m)"

definition run_timer :: "tick \<Rightarrow> mltimer \<Rightarrow> timers \<Rightarrow> timers" where
  "run_timer k t m0 =
     (let late = tkNow k - tExecution t - tTolerance t;
          m = m0\<lparr>mMaxTimerExecutionDelay := max (mMaxTimerExecutionDelay m0) late, mTimers := tl (mTimers m0)\<rparr>;
          (r, m1) = fold timer_do (tkCallback k) (t\<lparr>tReinsert := False\<rparr>, m);
          m2 = (if tReinsert r then scheduleTimer r m1 else m1)
      in snd (fold timer_do (tkRelease k) (r, m2)))"

text \<open>
  The loops of \<open>checkTimers\<close>: the timer looked at is always the first one; when the queue has changed
  the inner loop starts again. The result has the time to come back, the timers, and what ran and
  when. Without further clock readings the loop has not come to its end yet.
\<close>

definition restart :: "time \<Rightarrow> timers \<Rightarrow> time \<times> timers" where
  "restart next m = (if mTimersChanged m then (Never, m\<lparr>mTimersChanged := False\<rparr>) else (next, m))"

fun check_loop :: "time \<Rightarrow> tick list \<Rightarrow> time \<Rightarrow> timers \<Rightarrow> (time \<times> timers \<times> (mltimer \<times> time) list) option" where
  "check_loop u [] next m0 =
     (let (n, m) = restart next m0 in if mTimers m = [] then Some (n, m, []) else None)"
| "check_loop u (k # ks) next m0 =
     (let (n, m) = restart next m0
      in case mTimers m of
           [] \<Rightarrow> Some (n, m, [])
         | t # ts \<Rightarrow>
             if earliest m t > tkNow k then Some (tExecution t, m, [])
             else if tkNow k > u
             then Some (tExecution t, m\<lparr>mTimesTimersRanToLong := mTimesTimersRanToLong m + 1\<rparr>, [])
             else if mTerminated m then Some (Never, m, [])
             else map_option (\<lambda>(n', m', fs). (n', m', (t, tkNow k) # fs))
                    (check_loop u ks (tExecution t) (run_timer k t m)))"

definition checkTimers :: "time \<Rightarrow> tick list \<Rightarrow> time \<Rightarrow> timers \<Rightarrow> (time \<times> timers \<times> (mltimer \<times> time) list) option" where
  "checkTimers now ks timeout m = check_loop (now + timeout) ks Never (m\<lparr>mTimersChanged := False\<rparr>)"

end
