(* ===== verification/TimerLaws.thy ===== *)
theory TimerLaws
  imports Timers "HOL-Library.Multiset"
begin

text \<open>
  What the timers of the main loop promise: the queue stays sorted, with first in first out among equal
  times; a timer runs when it is due and never when it was cancelled; the due ones run in their
  order; and retriggering finds the next interval in the future.
\<close>

section \<open>Queues sorted by a key\<close>

text \<open>The interface of a queue that an element enters behind all those whose key is not greater.\<close>

locale stable_queue =
  fixes key :: "'a \<Rightarrow> 'k :: linorder"
    and put :: "'a \<Rightarrow> 'a list \<Rightarrow> 'a list"
  assumes put_sorted: "sorted (map key xs) \<Longrightarrow>
    put x xs = takeWhile (\<lambda>y. key y \<le> key x) xs @ x # dropWhile (\<lambda>y. key y \<le> key x) xs"
begin

lemma mset_put:
  assumes "sorted (map key xs)"
  shows "mset (put x xs) = add_mset x (mset xs)"
proof -
  have "mset xs = mset (takeWhile P xs) + mset (dropWhile P xs)" for P
    by (metis mset_append takeWhile_dropWhile_id)
  then show ?thesis by (simp add: put_sorted [OF assms])
qed

lemma set_put: "sorted (map key xs) \<Longrightarrow> set (put x xs) = insert x (set xs)"
  using arg_cong [OF mset_put, of xs set_mset x] by simp

lemma sorted_split:
  "sorted (map key xs) \<Longrightarrow> (\<forall>y\<in>set (takeWhile (\<lambda>y. key y \<le> k) xs). key y \<le> k) \<and> (\<forall>y\<in>set (dropWhile (\<lambda>y. key y \<le> k) xs). k < key y)"
  by (induction xs) (auto dest: set_takeWhileD)

lemma sorted_between:
  "sorted (map key (as @ bs)) \<Longrightarrow> \<forall>y\<in>set as. key y \<le> key x \<Longrightarrow> \<forall>y\<in>set bs. key x \<le> key y \<Longrightarrow> sorted (map key (as @ x # bs))"
  by (auto simp: sorted_append)

lemma sorted_put:
  assumes "sorted (map key xs)"
  shows "sorted (map key (put x xs))"
proof -
  let ?P = "\<lambda>y. key y \<le> key x"
  have "sorted (map key (takeWhile ?P xs @ dropWhile ?P xs))"
    using assms by (simp only: takeWhile_dropWhile_id)
  then show ?thesis
    unfolding put_sorted [OF assms] using sorted_split [OF assms, of "key x"] by (blast intro: sorted_between less_imp_le)
qed

lemma put_stable:
  assumes "sorted (map key xs)"
  shows "filter (\<lambda>y. key y = k) (put x xs) = filter (\<lambda>y. key y = k) xs @ (if key x = k then [x] else [])"
proof -
  let ?P = "\<lambda>y. key y \<le> key x"
  have f: "filter (\<lambda>y. key y = k) xs = filter (\<lambda>y. key y = k) (takeWhile ?P xs) @ filter (\<lambda>y. key y = k) (dropWhile ?P xs)"
    by (metis filter_append takeWhile_dropWhile_id)
  have "key x = k \<Longrightarrow> filter (\<lambda>y. key y = k) (dropWhile ?P xs) = []"
    using sorted_split [OF assms, of "key x"] by (auto simp: filter_empty_conv)
  with f show ?thesis by (simp add: put_sorted [OF assms])
qed

end

section \<open>The queue of the code\<close>

lemma insert_later_split:
  "insert_later t xs = takeWhile (\<lambda>y. tExecution y \<le> tExecution t) xs @ t # dropWhile (\<lambda>y. tExecution y \<le> tExecution t) xs"
  by (induction t xs rule: insert_later.induct) auto

lemma sorted_le_last: "sorted (map key xs) \<Longrightarrow> y \<in> set xs \<Longrightarrow> key y \<le> key (last xs)"
  by (induction xs) auto

interpretation tq: stable_queue tExecution scheduled
proof
  fix xs :: "mltimer list" and x
  assume s: "sorted (map tExecution xs)"
  show "scheduled x xs = takeWhile (\<lambda>y. tExecution y \<le> tExecution x) xs @ x # dropWhile (\<lambda>y. tExecution y \<le> tExecution x) xs"
  proof (cases "xs \<noteq> [] \<and> tExecution x < tExecution (last xs)")
    case True
    then show ?thesis by (simp add: scheduled_def insert_later_split)
  next
    case False
    have "tExecution y \<le> tExecution x" if "y \<in> set xs" for y
      using False that sorted_le_last [OF s that] by fastforce
    then have "takeWhile (\<lambda>y. tExecution y \<le> tExecution x) xs = xs" "dropWhile (\<lambda>y. tExecution y \<le> tExecution x) xs = []"
      by (simp_all add: takeWhile_eq_all_conv)
    moreover have "scheduled x xs = xs @ [x]" using False by (auto simp: scheduled_def)
    ultimately show ?thesis by (simp only: append_Nil2 append_Nil append_Cons)
  qed
qed

section \<open>What operations keep\<close>

definition tickets :: "timers \<Rightarrow> nat set" where
  "tickets m = tTicket ` set (mTimers m)"

text \<open>The queue is sorted by execution time, every timer has a ticket of its own, and none is still to be given.\<close>

definition timers_ok :: "timers \<Rightarrow> bool" where
  "timers_ok m \<longleftrightarrow> sorted (map tExecution (mTimers m)) \<and> distinct (map tTicket (mTimers m)) \<and>
     tickets m \<subseteq> {0<..mTicketNo m}"

text \<open>Later states: tickets only disappear or are new.\<close>

definition later :: "timers \<Rightarrow> timers \<Rightarrow> bool" where
  "later m m' \<longleftrightarrow> mTicketNo m \<le> mTicketNo m' \<and> tickets m' \<subseteq> tickets m \<union> {mTicketNo m<..} \<and>
     mMaxCoalescing m' = mMaxCoalescing m \<and> (timers_ok m \<longrightarrow> timers_ok m')"

lemma later_refl [simp]: "later m m"
  by (simp add: later_def)

lemma later_trans: "later a b \<Longrightarrow> later b c \<Longrightarrow> later a c"
  by (fastforce simp: later_def)

lemma timers_ok_schedule:
  assumes "timers_ok m" "tTicket t \<notin> tickets m" "0 < tTicket t" "tTicket t \<le> mTicketNo m"
  shows "timers_ok (scheduleTimer t m)"
proof -
  have s: "sorted (map tExecution (mTimers m))" using assms(1) by (simp add: timers_ok_def)
  have "distinct (map tTicket (scheduled t (mTimers m)))"
  proof -
    have "mset (map tTicket (scheduled t (mTimers m))) = mset (map tTicket (t # mTimers m))"
      using tq.mset_put [OF s] by simp
    moreover have "distinct (map tTicket (t # mTimers m))"
      using assms by (auto simp: timers_ok_def tickets_def)
    ultimately show ?thesis by (metis mset_eq_imp_distinct_iff)
  qed
  then show ?thesis
    using assms tq.sorted_put [OF s] tq.set_put [OF s]
    by (auto simp: timers_ok_def tickets_def scheduleTimer_def)
qed

lemma tickets_schedule: "timers_ok m \<Longrightarrow> tickets (scheduleTimer t m) = insert (tTicket t) (tickets m)"
  by (simp add: tickets_def scheduleTimer_def tq.set_put timers_ok_def)

lemma schedule_simps [simp]:
  "mTicketNo (scheduleTimer t m) = mTicketNo m" "mMaxCoalescing (scheduleTimer t m) = mMaxCoalescing m"
  "mTerminated (scheduleTimer t m) = mTerminated m"
  by (simp_all add: scheduleTimer_def)

lemma without_ticket_None: "without_ticket n xs = None \<longleftrightarrow> n \<notin> tTicket ` set xs"
  by (induction n xs rule: without_ticket.induct) auto

lemma without_ticket_Some:
  "without_ticket n xs = Some (t, ys) \<Longrightarrow> \<exists>as bs. xs = as @ t # bs \<and> ys = as @ bs \<and> tTicket t = n \<and> n \<notin> tTicket ` set as"
proof (induction n xs arbitrary: ys rule: without_ticket.induct)
  case (2 n x xs)
  show ?case
  proof (cases "tTicket x = n")
    case True
    with "2.prems" show ?thesis by (intro exI [of _ "[]"] exI [of _ xs]) auto
  next
    case False
    with "2.prems" obtain zs where z: "without_ticket n xs = Some (t, zs)" "ys = x # zs" by auto
    from "2.IH" [OF False z(1)] obtain as bs where
      "xs = as @ t # bs" "zs = as @ bs" "tTicket t = n" "n \<notin> tTicket ` set as" by auto
    with False z(2) show ?thesis by (intro exI [of _ "x # as"] exI [of _ bs]) auto
  qed
qed simp

lemma timers_ok_remove:
  assumes "timers_ok m" "without_ticket n (mTimers m) = Some (t, ts)"
  shows "timers_ok (m\<lparr>mTimers := ts\<rparr>) \<and> tickets (m\<lparr>mTimers := ts\<rparr>) = tickets m - {n} \<and> tTicket t = n \<and> n \<in> tickets m"
proof -
  from without_ticket_Some [OF assms(2)] obtain as bs where
    x: "mTimers m = as @ t # bs" "ts = as @ bs" "tTicket t = n" by auto
  then have "n \<notin> tTicket ` set (as @ bs)" using assms(1) by (auto simp: timers_ok_def dest: arg_cong [of _ _ tTicket])
  with x assms(1) show ?thesis by (auto simp: timers_ok_def tickets_def sorted_append)
qed

lemma changed_simps [simp]:
  "timers_ok (m\<lparr>mTimersChanged := b\<rparr>) = timers_ok m" "tickets (m\<lparr>mTimersChanged := b\<rparr>) = tickets m"
  "timers_ok (m\<lparr>mTimesTimersRanToLong := x\<rparr>) = timers_ok m" "tickets (m\<lparr>mTimesTimersRanToLong := x\<rparr>) = tickets m"
  by (simp_all add: timers_ok_def tickets_def)

lemma later_execute: "timers_ok m \<Longrightarrow> later m (fst (executeOnceAt cb t tol m))"
proof -
  assume m: "timers_ok m"
  let ?m = "m\<lparr>mTicketNo := mTicketNo m + 1\<rparr>"
  have ok: "timers_ok ?m" and n: "mTicketNo m + 1 \<notin> tickets ?m" and t: "tickets ?m = tickets m"
    using m by (auto simp: timers_ok_def tickets_def)
  show ?thesis
    using timers_ok_schedule [OF ok] n tickets_schedule [OF ok] t
    by (auto simp: later_def executeOnceAt_def Let_def)
qed

lemma later_cancel: "timers_ok m \<Longrightarrow> later m (fst (cancelExecutionTicket n m))"
  using timers_ok_remove [of m n]
  by (auto simp: cancelExecutionTicket_def later_def timers_ok_def tickets_def split: option.split)

lemma later_reschedule: "timers_ok m \<Longrightarrow> later m (fst (rescheduleExecutionTicketAt n t tol m))"
proof (cases "n = 0 \<or> without_ticket n (mTimers m) = None")
  case False
  assume m: "timers_ok m"
  from False obtain h ts where w: "without_ticket n (mTimers m) = Some (h, ts)" by auto
  let ?m = "m\<lparr>mTimers := ts\<rparr>" and ?h = "h\<lparr>tExecution := t\<rparr>"
  have r: "timers_ok ?m" "tickets ?m = tickets m - {n}" "tTicket h = n" "n \<in> tickets m"
    using timers_ok_remove [OF m w] by auto
  have "0 < n" "n \<le> mTicketNo m" using m r(4) by (auto simp: timers_ok_def)
  then have "timers_ok (scheduleTimer ?h ?m)" using r by (intro timers_ok_schedule) auto
  with r tickets_schedule [OF r(1), of ?h] show ?thesis
    using False w by (auto simp: rescheduleExecutionTicketAt_def later_def)
qed (auto simp: rescheduleExecutionTicketAt_def)

lemma retrigger_ticket [simp]: "tTicket (fst (retriggerTimer now i tol s t)) = tTicket t"
proof -
  have "tTicket (fst (skip_intervals now i s k t)) = tTicket t" for k t
    by (induction now i s k t rule: skip_intervals.induct) (subst skip_intervals.simps, simp add: Let_def)
  then show ?thesis by (simp add: retriggerTimer_def Let_def)
qed

lemma later_terminate: "later m (terminate c m)"
  by (auto simp: terminate_def later_def timers_ok_def tickets_def)

lemma timer_do_later:
  "timers_ok (snd s) \<Longrightarrow> later (snd s) (snd (timer_do op s)) \<and> tTicket (fst (timer_do op s)) = tTicket (fst s)"
  by (cases op; cases s)
     (auto simp: later_execute later_cancel later_reschedule later_terminate)

lemma timer_fold_later:
  "timers_ok (snd s) \<Longrightarrow> later (snd s) (snd (fold timer_do ops s)) \<and> tTicket (fst (fold timer_do ops s)) = tTicket (fst s)"
proof (induction ops arbitrary: s)
  case (Cons op ops)
  from timer_do_later [OF Cons.prems, of op] have l: "later (snd s) (snd (timer_do op s))"
    and t: "tTicket (fst (timer_do op s)) = tTicket (fst s)" by auto
  then have "timers_ok (snd (timer_do op s))" using Cons.prems by (auto simp: later_def)
  from Cons.IH [OF this] l t show ?case by (auto intro: later_trans)
qed simp

lemma run_timer_later:
  assumes m: "timers_ok m" and t: "mTimers m = t # ts"
  shows "later m (run_timer k t m)"
proof -
  define a where "a = m\<lparr>mMaxTimerExecutionDelay := max (mMaxTimerExecutionDelay m) (tkNow k - tExecution t - tTolerance t), mTimers := tl (mTimers m)\<rparr>"
  obtain r b where f: "fold timer_do (tkCallback k) (t\<lparr>tReinsert := False\<rparr>, a) = (r, b)" by fastforce
  have a: "timers_ok a" "tickets a = tickets m - {tTicket t}" "mTicketNo a = mTicketNo m" "mMaxCoalescing a = mMaxCoalescing m"
    "tTicket t \<in> tickets m"
    using m t by (auto simp: a_def timers_ok_def tickets_def)
  from timer_fold_later [of "(t\<lparr>tReinsert := False\<rparr>, a)" "tkCallback k"] a(1) f
  have l: "later a b" and r: "tTicket r = tTicket t" by auto
  then have b: "timers_ok b" using a(1) by (simp add: later_def)
  have n: "0 < tTicket t" "tTicket t \<le> mTicketNo m" using m a(5) by (auto simp: timers_ok_def)
  then have rb: "tTicket r \<notin> tickets b" "0 < tTicket r" "tTicket r \<le> mTicketNo b"
    using l a r by (auto simp: later_def)
  define c where "c = (if tReinsert r then scheduleTimer r b else b)"
  have c: "timers_ok c" using timers_ok_schedule [OF b] rb b by (simp add: c_def)
  have mc: "later m c"
    using l a c r tickets_schedule [OF b, of r] by (auto simp: later_def c_def)
  have "later c (snd (fold timer_do (tkRelease k) (r, c)))"
    using timer_fold_later [of "(r, c)" "tkRelease k"] c by simp
  with mc have "later m (snd (fold timer_do (tkRelease k) (r, c)))" by (rule later_trans)
  then show ?thesis by (simp add: run_timer_def Let_def f c_def flip: a_def)
qed

lemma check_loop_later:
  "check_loop u ks n m = Some (n', m', fs) \<Longrightarrow> timers_ok m \<Longrightarrow>
     later m m' \<and> (\<forall>(t, now)\<in>set fs. earliest m t \<le> now \<and> now \<le> u \<and> tTicket t \<in> tickets m \<union> {mTicketNo m<..})"
proof (induction u ks n m arbitrary: n' m' fs rule: check_loop.induct)
  case (1 u n m)
  then show ?case by (auto simp: restart_def later_def split: if_splits)
next
  case (2 u k ks n m)
  define a where "a = snd (restart n m)"
  have a: "later m a" "timers_ok a" "tickets a = tickets m" "mTicketNo a = mTicketNo m" "earliest a = earliest m" "mMaxCoalescing a = mMaxCoalescing m"
    using 2(3) by (auto simp: a_def restart_def later_def earliest_def fun_eq_iff)
  show ?case
  proof (cases "\<exists>t ts. mTimers a = t # ts \<and> earliest a t \<le> tkNow k \<and> tkNow k \<le> u \<and> \<not> mTerminated a")
    case False
    then have "fs = [] \<and> (m' = a \<or> m' = a\<lparr>mTimesTimersRanToLong := mTimesTimersRanToLong a + 1\<rparr>)"
      using 2(2) by (auto simp: a_def Let_def split: list.splits if_splits prod.splits)
    then show ?thesis using a by (auto simp: later_def)
  next
    case True
    then obtain t ts where t: "mTimers a = t # ts" "earliest a t \<le> tkNow k" "tkNow k \<le> u" "\<not> mTerminated a" by auto
    define b where "b = run_timer k t a"
    from t 2(2) obtain gs where g: "check_loop u ks (tExecution t) b = Some (n', m', gs)" "fs = (t, tkNow k) # gs"
      by (auto simp: a_def b_def Let_def split: prod.splits)
    have ab: "later a b" unfolding b_def using a(2) t(1) by (rule run_timer_later)
    then have b: "timers_ok b" using a(2) by (simp add: later_def)
    have e: "earliest b = earliest m" using ab a by (simp add: later_def earliest_def fun_eq_iff)
    have ih: "later b m' \<and> (\<forall>(t, now)\<in>set gs. earliest b t \<le> now \<and> now \<le> u \<and> tTicket t \<in> tickets b \<union> {mTicketNo b<..})"
      using 2(1) [of "restart n m" "fst (restart n m)" a t ts n' m' gs] t g b by (simp add: a_def b_def)
    have "later m m'" using a(1) ab ih by (blast intro: later_trans)
    moreover have "tTicket t \<in> tickets m" using t(1) a(3) by (force simp: tickets_def)
    ultimately show ?thesis using ih e ab a t g(2) by (fastforce simp: later_def)
  qed
qed

section \<open>The promises\<close>

text \<open>
  What happens to the timers of a main loop: operations from anywhere, and rounds of \<open>checkTimers\<close>,
  with what these run.
\<close>

inductive timers_run :: "timers \<Rightarrow> (mltimer \<times> time) list \<Rightarrow> timers \<Rightarrow> bool" where
  start: "timers_run m [] m"
| operation: "timers_run m fs m' \<Longrightarrow> timers_run m fs (snd (timer_do op (t, m')))"
| check: "timers_run m fs m' \<Longrightarrow> checkTimers now ks timeout m' = Some (n, m'', gs) \<Longrightarrow> timers_run m (fs @ gs) m''"

lemma timers_run_later:
  "timers_run m fs m' \<Longrightarrow> timers_ok m \<Longrightarrow>
     later m m' \<and> (\<forall>(t, now)\<in>set fs. earliest m t \<le> now \<and> tTicket t \<in> tickets m \<union> {mTicketNo m<..})"
proof (induction rule: timers_run.induct)
  case (operation m fs m' op t)
  then have "timers_ok m'" by (simp add: later_def)
  then have "later m' (snd (timer_do op (t, m')))" using timer_do_later [of "(t, m')" op] by simp
  with operation show ?case by (auto intro: later_trans)
next
  case (check m fs m' now ks timeout n m'' gs)
  then have l: "later m m'" and m': "timers_ok m'" by (auto simp: later_def)
  have ok: "timers_ok (m'\<lparr>mTimersChanged := False\<rparr>)" using m' by simp
  have c: "later (m'\<lparr>mTimersChanged := False\<rparr>) m''"
    "\<forall>(t, now)\<in>set gs. earliest m' t \<le> now \<and> tTicket t \<in> tickets m' \<union> {mTicketNo m'<..}"
    using check_loop_later [OF check.hyps(2) [unfolded checkTimers_def] ok] by (auto simp: earliest_def)
  have "later m' m''" using c(1) by (simp add: later_def)
  with l have "later m m''" by (rule later_trans)
  moreover have "\<forall>(t, now)\<in>set gs. earliest m t \<le> now \<and> tTicket t \<in> tickets m \<union> {mTicketNo m<..}"
    using c(2) l by (fastforce simp: later_def earliest_def)
  ultimately show ?case using check.IH check.prems by auto
qed simp

text \<open>C23: A timer never runs too early and never when cancelled. Whatever is done to the timers by callbacks
  or from elsewhere, a timer runs only when its execution time less its tolerance (limited by the one
  for coalescing) has come, the queue stays sorted with a ticket for every timer, and the timer of a ticket that
  was cancelled does not run any more; cancelling tells whether there was one to cancel.\<close>

theorem cancelled_timer_never_runs:
  assumes "timers_ok m" "cancelExecutionTicket n m = (m1, b)" "timers_run m1 fs m2" "n \<le> mTicketNo m"
  shows "b = (n \<in> tickets m) \<and> n \<notin> tTicket ` fst ` set fs \<and> (\<forall>(t, now)\<in>set fs. earliest m t \<le> now) \<and> timers_ok m2"
proof -
  have l: "later m m1" using later_cancel [OF assms(1), of n] assms(2) by simp
  then have m1: "timers_ok m1" using assms(1) by (simp add: later_def)
  have n: "n \<notin> tickets m1 \<and> b = (n \<in> tickets m)"
  proof (cases "n = 0 \<or> without_ticket n (mTimers m) = None")
    case True
    then have "cancelExecutionTicket n m = (m, False)" by (auto simp: cancelExecutionTicket_def)
    then have "m1 = m" "\<not> b" using assms(2) by simp_all
    with True assms(1) show ?thesis by (auto simp: without_ticket_None timers_ok_def tickets_def)
  next
    case False
    then obtain t ts where w: "without_ticket n (mTimers m) = Some (t, ts)" by auto
    with False assms(2) have "m1 = m\<lparr>mTimers := ts\<rparr>\<lparr>mTimersChanged := True\<rparr>" "b" by (auto simp: cancelExecutionTicket_def)
    with timers_ok_remove [OF assms(1) w] show ?thesis by (simp only: changed_simps) simp
  qed
  show ?thesis
    using timers_run_later [OF assms(3) m1] l n assms(4) m1 by (fastforce simp: later_def earliest_def)
qed

text \<open>Callbacks that leave the timers alone.\<close>

definition quiet :: "time \<Rightarrow> tick" where
  "quiet now = \<lparr>tkNow = now, tkCallback = [], tkRelease = []\<rparr>"

lemma check_quiet:
  assumes "now \<le> u" "\<not> mTerminated m" "\<not> mTimersChanged m" "length (mTimers m) < k"
  shows "\<exists>m'. check_loop u (replicate k (quiet now)) n m =
     Some (case dropWhile (\<lambda>t. earliest m t \<le> now) (mTimers m) of t # _ \<Rightarrow> tExecution t
             | [] \<Rightarrow> if mTimers m = [] then n else tExecution (last (mTimers m)), m',
           map (\<lambda>t. (t, now)) (takeWhile (\<lambda>t. earliest m t \<le> now) (mTimers m))) \<and>
     mTimers m' = dropWhile (\<lambda>t. earliest m t \<le> now) (mTimers m)"
  using assms
proof (induction k arbitrary: n m)
  case (Suc k)
  have r: "restart n m = (n, m)" using Suc.prems by (simp add: restart_def)
  show ?case
  proof (cases "mTimers m")
    case (Cons t ts)
    show ?thesis
    proof (cases "earliest m t \<le> now")
      case True
      define b where "b = run_timer (quiet now) t m"
      have b: "mTimers b = ts" "\<not> mTerminated b" "\<not> mTimersChanged b" "earliest b = earliest m"
        using Suc.prems Cons by (simp_all add: b_def run_timer_def quiet_def Let_def earliest_def fun_eq_iff)
      obtain m' where "check_loop u (replicate k (quiet now)) (tExecution t) b =
         Some (case dropWhile (\<lambda>t. earliest m t \<le> now) ts of t # _ \<Rightarrow> tExecution t
             | [] \<Rightarrow> if ts = [] then tExecution t else tExecution (last ts), m',
           map (\<lambda>t. (t, now)) (takeWhile (\<lambda>t. earliest m t \<le> now) ts))"
        "mTimers m' = dropWhile (\<lambda>t. earliest m t \<le> now) ts"
        using Suc.IH [of b "tExecution t"] Suc.prems b Cons by auto
      moreover have "tkNow (quiet now) = now" by (simp add: quiet_def)
      ultimately show ?thesis
        using True Suc.prems Cons r by (cases "dropWhile (\<lambda>t. earliest m t \<le> now) ts") (auto simp: b_def simp del: dropWhile_eq_Nil_conv)
    next
      case False
      moreover have "tkNow (quiet now) = now" by (simp add: quiet_def)
      ultimately show ?thesis using Cons r by simp
    qed
  qed (use r in simp)
qed simp

text \<open>C25: The timers that are due run in the order of the queue, and no others. With callbacks that leave the
  timers alone and the clock at one time, a round runs exactly the timers up to the first one that is not
  due, and leaves the rest; it gives the time of the first one left as the time to come back. When none is left
  it gives the time of the last one it ran, not \<open>Never\<close>, although nothing is waiting.\<close>

theorem due_timers_run_in_order:
  assumes "0 \<le> timeout" "\<not> mTerminated m" "length (mTimers m) < k"
  shows "\<exists>n m' fs. checkTimers now (replicate k (quiet now)) timeout m = Some (n, m', fs) \<and>
     map fst fs = takeWhile (\<lambda>t. earliest m t \<le> now) (mTimers m) \<and>
     mTimers m' = dropWhile (\<lambda>t. earliest m t \<le> now) (mTimers m) \<and>
     n = (if mTimers m' \<noteq> [] then tExecution (hd (mTimers m'))
          else if mTimers m \<noteq> [] then tExecution (last (mTimers m)) else Never)"
proof -
  let ?m = "m\<lparr>mTimersChanged := False\<rparr>"
  have e: "earliest ?m = earliest m" and mm: "mTimers ?m = mTimers m" by (simp_all add: earliest_def fun_eq_iff)
  obtain m' where c: "check_loop (now + timeout) (replicate k (quiet now)) Never ?m =
     Some (case dropWhile (\<lambda>t. earliest m t \<le> now) (mTimers m) of t # _ \<Rightarrow> tExecution t
             | [] \<Rightarrow> if mTimers m = [] then Never else tExecution (last (mTimers m)), m',
           map (\<lambda>t. (t, now)) (takeWhile (\<lambda>t. earliest m t \<le> now) (mTimers m)))"
    "mTimers m' = dropWhile (\<lambda>t. earliest m t \<le> now) (mTimers m)"
    using check_quiet [of now "now + timeout" ?m k Never] assms unfolding e mm by auto
  have d: "(case ds of t # _ \<Rightarrow> tExecution t | [] \<Rightarrow> x) = (if ds \<noteq> [] then tExecution (hd ds) else x)" for ds x
    by (cases ds) simp_all
  have f: "map fst (map (\<lambda>t. (t, now)) ts) = ts" for ts :: "mltimer list"
    by (simp add: comp_def)
  show ?thesis
    unfolding checkTimers_def
  proof (intro exI conjI)
    show "mTimers m' = dropWhile (\<lambda>t. earliest m t \<le> now) (mTimers m)" by (rule c(2))
  qed (rule c(1), rule f, unfold c(2) d, simp)
qed

text \<open>Two timers, one with tolerance.\<close>

definition two_timers :: timers where
  "two_timers = fst (executeOnceAt 2 1500 600 (fst (executeOnceAt 1 1000 0
     \<lparr>mTimers = [], mTimersChanged = False, mTicketNo = 0, mTerminated = False, mExitCode = 0, mMaxCoalescing = 500,
      mMaxTimers = 0, mMaxTimerExecutionDelay = 0, mTimesTimersRanToLong = 0\<rparr>)))"

lemma two_timers: "two_timers =
  \<lparr>mTimers = [\<lparr>tTicket = 1, tExecution = 1000, tTolerance = 0, tCallback = 1, tReinsert = False\<rparr>,
     \<lparr>tTicket = 2, tExecution = 1500, tTolerance = 600, tCallback = 2, tReinsert = False\<rparr>],
   mTimersChanged = True, mTicketNo = 2, mTerminated = False, mExitCode = 0, mMaxCoalescing = 500,
   mMaxTimers = 2, mMaxTimerExecutionDelay = 0, mTimesTimersRanToLong = 0\<rparr>"
  by (simp add: two_timers_def executeOnceAt_def scheduleTimer_def scheduled_def Let_def)

theorem cancelled_timer_never_runs_witness:
  "1 \<notin> tTicket ` fst ` set (snd (snd (the (checkTimers 1000 [quiet 1000, quiet 1000] 100 (fst (cancelExecutionTicket 1 two_timers))))))"
proof -
  define m1 where "m1 = fst (cancelExecutionTicket 1 two_timers)"
  have ok: "timers_ok two_timers" by (auto simp: two_timers timers_ok_def tickets_def)
  obtain n m2 fs where c: "checkTimers 1000 [quiet 1000, quiet 1000] 100 m1 = Some (n, m2, fs)"
    by (simp add: m1_def two_timers cancelExecutionTicket_def checkTimers_def restart_def earliest_def quiet_def run_timer_def Let_def)
  have "timers_run m1 ([] @ fs) m2" by (rule timers_run.check [OF timers_run.start c])
  then have "1 \<notin> tTicket ` fst ` set ([] @ fs)"
    using cancelled_timer_never_runs [OF ok, of 1 m1 True "[] @ fs" m2] by (simp add: m1_def two_timers cancelExecutionTicket_def)
  then have "1 \<notin> tTicket ` fst ` set (snd (snd (the (checkTimers 1000 [quiet 1000, quiet 1000] 100 m1))))" by (simp add: c)
  then show ?thesis unfolding m1_def .
qed

theorem due_timers_run_in_order_witness:
  "\<exists>m' fs. checkTimers 1000 [quiet 1000, quiet 1000, quiet 1000] 100 two_timers = Some (1500, m', fs) \<and>
     map (tTicket \<circ> fst) fs = [1, 2] \<and> mTimers m' = []"
proof -
  have r: "replicate 3 (quiet 1000) = [quiet 1000, quiet 1000, quiet 1000]" by (simp add: numeral_3_eq_3)
  have e: "takeWhile (\<lambda>t. earliest two_timers t \<le> 1000) (mTimers two_timers) = mTimers two_timers"
    "dropWhile (\<lambda>t. earliest two_timers t \<le> 1000) (mTimers two_timers) = []"
    by (simp_all add: two_timers earliest_def)
  show ?thesis
    using due_timers_run_in_order [of 100 two_timers 3 1000] unfolding r e
    by (fastforce simp: two_timers)
qed

lemma skip_intervals_spec:
  "0 < i \<Longrightarrow> k \<le> s \<Longrightarrow> 0 \<le> k \<Longrightarrow> skip_intervals now i s k t = (u, j) \<Longrightarrow>
     (j = -1 \<and> tExecution u = tExecution t + (s - k + 1) * i \<and> tExecution u < now \<and> tReinsert u = tReinsert t) \<or>
     (k \<le> j \<and> j \<le> s \<and> tExecution u = tExecution t + (j - k + 1) * i \<and> now \<le> tExecution u \<and> tReinsert u \<and>
      (k < j \<longrightarrow> tExecution u < now + i))"
proof (induction now i s k t rule: skip_intervals.induct)
  case (1 now i s k t)
  let ?u = "t\<lparr>tExecution := tExecution t + i\<rparr>"
  consider (reached) "now \<le> tExecution ?u" | (failed) "tExecution ?u < now" "s < k + 1" | (more) "tExecution ?u < now" "k + 1 \<le> s"
    by linarith
  then show ?case
  proof cases
    case reached
    with "1.prems" show ?thesis by (simp add: skip_intervals.simps [of now i s k t] Let_def) auto
  next
    case failed
    with "1.prems" have "k = s" "u = ?u" "j = -1" by (simp_all add: skip_intervals.simps [of now i s k t] Let_def)
    with failed show ?thesis by simp
  next
    case more
    with "1.prems" have r: "skip_intervals now i s (k + 1) ?u = (u, j)"
      by (simp add: skip_intervals.simps [of now i s k t] Let_def)
    have "\<not> now \<le> tExecution ?u" using more by simp
    from "1.IH" [OF HOL.refl this more(2) "1.prems"(1) more(2) _ r] "1.prems"(3)
    have ih: "j = -1 \<and> tExecution u = tExecution ?u + (s - (k + 1) + 1) * i \<and> tExecution u < now \<and> tReinsert u = tReinsert ?u \<or>
      k + 1 \<le> j \<and> j \<le> s \<and> tExecution u = tExecution ?u + (j - (k + 1) + 1) * i \<and> now \<le> tExecution u \<and> tReinsert u \<and>
      (k + 1 < j \<longrightarrow> tExecution u < now + i)" by simp
    have x: "tExecution ?u + (l - (k + 1) + 1) * i = tExecution t + (l - k + 1) * i" for l by (simp add: algebra_simps)
    from ih show ?thesis
    proof (elim disjE conjE)
      assume j: "k + 1 \<le> j" "j \<le> s" "now \<le> tExecution u" "tReinsert u"
        and e: "tExecution u = tExecution ?u + (j - (k + 1) + 1) * i" and l: "k + 1 < j \<longrightarrow> tExecution u < now + i"
      have "tExecution u < now + i" using l e more(1) j(1) by (cases "j = k + 1") auto
      with j e x [of j] show ?thesis by simp
    qed (use x [of s] in simp)
  qed
qed

text \<open>Retriggering with a number of intervals to skip finds the first execution time that is not in the past, skipping at
  most that many, and tells how many it skipped; when that is not enough the timer has advanced by all of them,
  is still in the past, is not retriggered by this call, and the result is negative.\<close>

theorem retrigger_skips_to_future:
  assumes "0 < i" "0 \<le> s" "retriggerTimer now i tol s t = (u, j)"
  shows "(j = -1 \<and> tExecution u = tExecution t + (s + 1) * i \<and> tExecution u < now \<and> tReinsert u = tReinsert t) \<or>
     (0 \<le> j \<and> j \<le> s \<and> tExecution u = tExecution t + (j + 1) * i \<and> now \<le> tExecution u \<and> tReinsert u \<and>
      (0 < j \<longrightarrow> tExecution u < now + i))"
proof -
  have "skip_intervals now i s 0 (t\<lparr>tTolerance := tol\<rparr>) = (u, j)"
    using assms by (simp add: retriggerTimer_def absolute_def from_now_if_late_def from_now_def Let_def)
  from skip_intervals_spec [OF assms(1,2) _ this] show ?thesis by simp
qed

theorem retrigger_skips_to_future_witness:
  "\<exists>u. retriggerTimer 1250 100 0 5 (hd (mTimers two_timers)) = (u, 2) \<and> tExecution u = 1300"
proof -
  obtain u j where r: "retriggerTimer 1250 100 0 5 (hd (mTimers two_timers)) = (u, j)" by fastforce
  from retrigger_skips_to_future [OF _ _ r] have "j = 2" "tExecution u = 1300" by (auto simp: two_timers)
  with r show ?thesis by blast
qed

end
