(* ===== verification/MainLoop.thy ===== *)
theory MainLoop
  imports TimerLaws
begin

text \<open>
  The main loop (\<open>mainloop.cpp\<close>): waiting for child processes, the poll handlers of file descriptors
  (the variant with \<open>poll\<close>), and the cycle that runs timers, checks for terminated children and sleeps.
  What the callbacks do to the main loop, what the operating system reports and the readings of the clock are
  arguments. The operations a timer callback does on wait and poll handlers, which the timer loop
  does not look at, are done when the round of timers is through.
\<close>

section \<open>Ordered maps\<close>

text \<open>A \<open>std::map\<close> with integer keys, in its order of iteration.\<close>

fun om_set :: "int \<Rightarrow> 'a \<Rightarrow> (int \<times> 'a) list \<Rightarrow> (int \<times> 'a) list" where
  "om_set k v [] = [(k, v)]"
| "om_set k v ((k', w) # m) =
     (if k < k' then (k, v) # (k', w) # m else if k = k' then (k, v) # m else (k', w) # om_set k v m)"

definition om_erase :: "int \<Rightarrow> (int \<times> 'a) list \<Rightarrow> (int \<times> 'a) list" where
  "om_erase k m = filter (\<lambda>p. fst p \<noteq> k) m"

section \<open>The state and its operations\<close>

record pollhandler =
  pollFlags :: nat
  pollHandler :: nat

record mainloop =
  mlTimers :: timers
  mWaitHandlers :: "(int \<times> nat) list"
  mIoPollHandlers :: "(int \<times> pollhandler) list"
  cleanupHandlers :: "nat list"
  mMaxSleep :: time
  mThrottleSleep :: time
  mMaxRun :: time
  mWaitCheckInterval :: time
  mStartedAt :: time
  mTimesThrottlingApplied :: nat

definition new_mainloop :: mainloop where
  "new_mainloop =
     \<lparr>mlTimers = \<lparr>mTimers = [], mTimersChanged = False, mTicketNo = 0, mTerminated = False, mExitCode = 0,
        mMaxCoalescing = 1 * Second, mMaxTimers = 0, mMaxTimerExecutionDelay = 0, mTimesTimersRanToLong = 0\<rparr>,
      mWaitHandlers = [], mIoPollHandlers = [], cleanupHandlers = [], mMaxSleep = Infinite,
      mThrottleSleep = 20 * MilliSecond, mMaxRun = 100 * MilliSecond, mWaitCheckInterval = 100 * MilliSecond,
      mStartedAt = Never, mTimesThrottlingApplied = 0\<rparr>"

definition waitForPid :: "nat option \<Rightarrow> int \<Rightarrow> mainloop \<Rightarrow> mainloop" where
  "waitForPid cb pid m =
     (case cb of Some c \<Rightarrow> m\<lparr>mWaitHandlers := om_set pid c (mWaitHandlers m)\<rparr>
        | None \<Rightarrow> m\<lparr>mWaitHandlers := om_erase pid (mWaitHandlers m)\<rparr>)"

definition unregisterPollHandler :: "int \<Rightarrow> mainloop \<Rightarrow> mainloop" where
  "unregisterPollHandler fd m = m\<lparr>mIoPollHandlers := om_erase fd (mIoPollHandlers m)\<rparr>"

definition registerPollHandler :: "int \<Rightarrow> nat \<Rightarrow> nat option \<Rightarrow> mainloop \<Rightarrow> mainloop" where
  "registerPollHandler fd fl cb m =
     (case cb of None \<Rightarrow> unregisterPollHandler fd m
        | Some c \<Rightarrow> m\<lparr>mIoPollHandlers := om_set fd \<lparr>pollFlags = fl, pollHandler = c\<rparr> (mIoPollHandlers m)\<rparr>)"

text \<open>No flags to clear (a negative number in the code) is \<open>None\<close>.\<close>

definition changePollFlags :: "int \<Rightarrow> nat \<Rightarrow> nat option \<Rightarrow> mainloop \<Rightarrow> mainloop" where
  "changePollFlags fd sets clear m =
     (case map_of (mIoPollHandlers m) fd of
        None \<Rightarrow> m
      | Some h \<Rightarrow>
          let f = (case clear of Some c \<Rightarrow> nat (int (pollFlags h) AND NOT (int c)) OR sets | None \<Rightarrow> sets)
          in m\<lparr>mIoPollHandlers := om_set fd (h\<lparr>pollFlags := f\<rparr>) (mIoPollHandlers m)\<rparr>)"

definition registerCleanupHandler :: "nat \<Rightarrow> mainloop \<Rightarrow> mainloop" where
  "registerCleanupHandler c m = m\<lparr>cleanupHandlers := cleanupHandlers m @ [c]\<rparr>"

text \<open>What a handler can do to the main loop; in timer callbacks the timer operations are those of \<open>tick\<close>.\<close>

datatype ml_op =
  TimerOp timer_op
| WaitFor "nat option" int
| Register int nat "nat option"
| ChangeFlags int nat "nat option"
| Unregister int
| Cleanup nat

definition no_timer :: mltimer where
  "no_timer = \<lparr>tTicket = 0, tExecution = 0, tTolerance = 0, tCallback = 0, tReinsert = False\<rparr>"

fun ml_do :: "ml_op \<Rightarrow> mainloop \<Rightarrow> mainloop" where
  "ml_do (TimerOp op) m = m\<lparr>mlTimers := snd (timer_do op (no_timer, mlTimers m))\<rparr>"
| "ml_do (WaitFor cb pid) m = waitForPid cb pid m"
| "ml_do (Register fd fl cb) m = registerPollHandler fd fl cb m"
| "ml_do (ChangeFlags fd s c) m = changePollFlags fd s c m"
| "ml_do (Unregister fd) m = unregisterPollHandler fd m"
| "ml_do (Cleanup c) m = registerCleanupHandler c m"

section \<open>Child processes\<close>

text \<open>The answer of \<open>waitpid\<close>: no status, a process and its status, no children left, another error.\<close>

datatype wait_answer = NoStatus | Exited int int | NoChildren | WaitError

text \<open>\<open>ops\<close> gives what the handler of a process does. The result has the calls: process, handler, status.\<close>

definition checkWait :: "wait_answer \<Rightarrow> (int \<Rightarrow> ml_op list) \<Rightarrow> mainloop \<Rightarrow> mainloop \<times> (int \<times> nat \<times> int) list \<times> bool" where
  "checkWait a ops m =
     (if mWaitHandlers m = [] then (m, [], True)
      else case a of
             Exited pid status \<Rightarrow>
               (case map_of (mWaitHandlers m) pid of
                  None \<Rightarrow> (m, [], True)
                | Some cb \<Rightarrow>
                    (fold ml_do (ops pid) (m\<lparr>mWaitHandlers := om_erase pid (mWaitHandlers m)\<rparr>), [(pid, cb, status)], False))
           | NoChildren \<Rightarrow>
               (fold (\<lambda>p. fold ml_do (ops (fst p))) (mWaitHandlers m) (m\<lparr>mWaitHandlers := []\<rparr>),
                map (\<lambda>(pid, cb). (pid, cb, 0)) (mWaitHandlers m), True)
           | _ \<Rightarrow> (m, [], True))"

section \<open>Polling and sleeping\<close>

text \<open>
  How the loop gives up control: by \<open>poll\<close> for some flags with a timeout in milliseconds (without limit
  when negative), by sleeping, or not at all. Both times are cast to 32 bits.
\<close>

datatype pause = Poll "nat list" int | Sleep time | NoPause

definition to_int :: "int \<Rightarrow> int" where
  "to_int x = signed_take_bit 31 x"

definition to_useconds :: "int \<Rightarrow> int" where
  "to_useconds x = x mod 2 ^ 32"

definition polled :: "mainloop \<Rightarrow> (int \<times> nat) list" where
  "polled m = [(fd, pollFlags h). (fd, h) \<leftarrow> mIoPollHandlers m, pollFlags h \<noteq> 0]"

text \<open>\<open>revents\<close> is what \<open>poll\<close> reports for a descriptor, \<open>ops\<close> what the handler of one then does.\<close>

fun call_handlers :: "(int \<Rightarrow> nat) \<Rightarrow> (int \<Rightarrow> ml_op list) \<Rightarrow> int list \<Rightarrow> mainloop \<Rightarrow> mainloop \<times> (int \<times> nat) list" where
  "call_handlers revents ops [] m = (m, [])"
| "call_handlers revents ops (fd # fds) m =
     (if revents fd \<noteq> 0 \<and> map_of (mIoPollHandlers m) fd \<noteq> None
      then let (m', cs) = call_handlers revents ops fds (fold ml_do (ops fd) m) in (m', (fd, revents fd) # cs)
      else call_handlers revents ops fds m)"

definition handleIOPoll ::
  "time \<Rightarrow> (int \<Rightarrow> nat) \<Rightarrow> (int \<Rightarrow> ml_op list) \<Rightarrow> mainloop \<Rightarrow> mainloop \<times> pause \<times> (int \<times> nat) list" where
  "handleIOPoll timeout revents ops m =
     (let fds = polled m
      in if fds \<noteq> []
         then let (m', cs) = call_handlers revents ops (map fst fds) m
              in (m', Poll (map snd fds) (if timeout = Infinite then -1 else to_int (timeout div MilliSecond)), cs)
         else (m, if timeout > 0 then Sleep (to_useconds timeout) else NoPause, []))"

section \<open>The cycle\<close>

text \<open>One round of the loop of \<open>mainLoopCycle\<close>: clock readings, what the callbacks do, what the system answers.\<close>

record round =
  rTimersNow :: time
  rTicks :: "tick list"
  rTimerOps :: "ml_op list"
  rWait :: wait_answer
  rWaitOps :: "int \<Rightarrow> ml_op list"
  rPollNow :: time
  rRevents :: "int \<Rightarrow> nat"
  rPollOps :: "int \<Rightarrow> ml_op list"
  rEndNow :: time

definition stopped :: "mainloop \<Rightarrow> bool" where
  "stopped m = mTerminated (mlTimers m)"

text \<open>The limits on the time to sleep until: \<open>all_checked\<close> is the answer of \<open>checkWait\<close>.\<close>

definition next_wake :: "time \<Rightarrow> bool \<Rightarrow> mainloop \<Rightarrow> time \<Rightarrow> time" where
  "next_wake started all_checked m n =
     (let w = (if \<not> all_checked \<and> n > started + mWaitCheckInterval m then started + mWaitCheckInterval m else n)
      in if mMaxSleep m \<noteq> Infinite \<and> (w = Never \<or> w > started + mMaxSleep m) then started + mMaxSleep m else w)"

text \<open>A round ends the cycle with whether it could sleep, or gives the state to go on with; and how it paused.\<close>

definition cycle_round :: "time \<Rightarrow> round \<Rightarrow> mainloop \<Rightarrow> (mainloop \<times> bool option \<times> pause list) option" where
  "cycle_round started r m0 =
     map_option (\<lambda>(n, ts, _).
         let m = fold ml_do (rTimerOps r) (m0\<lparr>mlTimers := ts\<rparr>)
         in if stopped m then (m, Some True, [])
            else let (m1, _, all_checked) = checkWait (rWait r) (rWaitOps r) m
                 in if stopped m1 then (m1, Some True, [])
                    else let wake = next_wake started all_checked m1 n; timeout = wake - rPollNow r
                         in if wake \<noteq> Never \<and> timeout \<le> 0
                            then let (m2, p, _) = handleIOPoll 0 (rRevents r) (rPollOps r) m1
                                 in (m2, if started + mMaxRun m2 < rEndNow r then Some False
                                         else if stopped m2 then Some True else None, [p])
                            else let (m2, p, _) = handleIOPoll (if wake = Never then Infinite else timeout) (rRevents r) (rPollOps r) m1
                                 in (m2, Some True, [p]))
       (checkTimers (rTimersNow r) (rTicks r) (mMaxRun m0) (mlTimers m0))"

text \<open>Without further rounds, or when the timers of one do not come to an end, the cycle has not ended.\<close>

fun cycle_loop :: "time \<Rightarrow> round list \<Rightarrow> mainloop \<Rightarrow> (mainloop \<times> bool \<times> pause list) option" where
  "cycle_loop started [] m = None"
| "cycle_loop started (r # rs) m =
     (case cycle_round started r m of
        None \<Rightarrow> None
      | Some (m', Some slept, ps) \<Rightarrow> Some (m', slept, ps)
      | Some (m', None, ps) \<Rightarrow> map_option (\<lambda>(m'', b, qs). (m'', b, ps @ qs)) (cycle_loop started rs m'))"

definition mainLoopCycle :: "time \<Rightarrow> round list \<Rightarrow> mainloop \<Rightarrow> (mainloop \<times> bool \<times> pause list) option" where
  "mainLoopCycle now rs m = (if stopped m then Some (m, True, []) else cycle_loop now rs m)"

definition startupMainLoop :: "time \<Rightarrow> bool \<Rightarrow> mainloop \<Rightarrow> mainloop" where
  "startupMainLoop now restarting m =
     m\<lparr>mlTimers := (if restarting then (mlTimers m)\<lparr>mTerminated := False\<rparr> else mlTimers m), mStartedAt := now\<rparr>"

text \<open>The result has the exit code and the cleanup handlers that are called.\<close>

definition finalizeMainLoop :: "mainloop \<Rightarrow> mainloop \<times> nat list \<times> int" where
  "finalizeMainLoop m =
     (m\<lparr>mlTimers := (mlTimers m)\<lparr>mTimers := []\<rparr>, mWaitHandlers := [], mIoPollHandlers := []\<rparr>,
      cleanupHandlers m, mExitCode (mlTimers m))"

text \<open>\<open>run\<close>, with the start and the rounds of every cycle.\<close>

fun run_cycles :: "(time \<times> round list) list \<Rightarrow> mainloop \<Rightarrow> (mainloop \<times> pause list) option" where
  "run_cycles [] m = (if stopped m then Some (m, []) else None)"
| "run_cycles ((now, rs) # cs) m =
     (if stopped m then Some (m, [])
      else case mainLoopCycle now rs m of
             None \<Rightarrow> None
           | Some (m', slept, ps) \<Rightarrow>
               let (m'', qs) = (if slept then (m', [])
                 else (m'\<lparr>mTimesThrottlingApplied := mTimesThrottlingApplied m' + 1\<rparr>, [Sleep (mThrottleSleep m')]))
               in map_option (\<lambda>(r, rs). (r, ps @ qs @ rs)) (run_cycles cs m''))"

definition run :: "time \<Rightarrow> bool \<Rightarrow> (time \<times> round list) list \<Rightarrow> mainloop \<Rightarrow> (mainloop \<times> nat list \<times> int) option" where
  "run now restarting cs m = map_option (\<lambda>(m', _). finalizeMainLoop m') (run_cycles cs (startupMainLoop now restarting m))"

section \<open>How long the loop waits\<close>

text \<open>A pause that nothing but an event on a file descriptor ends.\<close>

fun unlimited :: "pause \<Rightarrow> bool" where
  "unlimited (Poll fl t) \<longleftrightarrow> t < 0"
| "unlimited _ \<longleftrightarrow> False"

text \<open>How long a pause is at most, in microseconds, when it is limited.\<close>

fun longest :: "pause \<Rightarrow> time" where
  "longest (Poll fl t) = t * MilliSecond"
| "longest (Sleep t) = t"
| "longest NoPause = 0"

lemma to_int_small: "0 \<le> x \<Longrightarrow> x < 2 ^ 31 \<Longrightarrow> to_int x = x"
  by (simp add: to_int_def signed_take_bit_int_eq_self)

lemma to_useconds_le: "0 \<le> x \<Longrightarrow> to_useconds x \<le> x"
  by (simp add: to_useconds_def zmod_le_nonneg_dividend)

lemma pause_bound:
  assumes "handleIOPoll t revents ops m = (m', p, cs)" "0 \<le> t" "t < 2 ^ 31 * MilliSecond"
  shows "\<not> unlimited p \<and> longest p \<le> t"
proof (cases "polled m = []")
  case True
  with assms show ?thesis by (cases "t > 0") (auto simp: handleIOPoll_def Infinite_def to_useconds_le)
next
  case False
  have d: "0 \<le> t div MilliSecond" "t div MilliSecond < 2 ^ 31" "t div MilliSecond * MilliSecond \<le> t"
    using assms(2,3) by (auto simp: MilliSecond_def)
  with False assms show ?thesis
    by (auto simp: handleIOPoll_def Let_def Infinite_def to_int_small split: prod.splits)
qed

lemma poll_unlimited:
  assumes "handleIOPoll t revents ops m = (m', p, cs)" "polled m \<noteq> []" "2 ^ 31 \<le> t div MilliSecond" "t div MilliSecond < 2 ^ 32"
  shows "unlimited p"
proof -
  have "to_int (t div MilliSecond) < 0"
  proof -
    have "t div MilliSecond mod 2 ^ 32 = t div MilliSecond" using assms(3,4) by simp
    moreover have "t div MilliSecond div 2147483648 = 1" using assms(3,4) by simp
    ultimately show ?thesis using assms(3,4) by (simp add: to_int_def signed_take_bit_eq_take_bit_minus take_bit_eq_mod bit_iff_odd)
  qed
  moreover have "t \<noteq> Infinite" using assms(3) by (auto simp: Infinite_def MilliSecond_def)
  ultimately show ?thesis using assms(1,2) by (auto simp: handleIOPoll_def Let_def split: prod.splits)
qed

lemma fold_ml_do_config [simp]:
  "mMaxSleep (ml_do op m) = mMaxSleep m" "mMaxSleep (fold ml_do ops m) = mMaxSleep m"
  "mWaitCheckInterval (ml_do op m) = mWaitCheckInterval m" "mWaitCheckInterval (fold ml_do ops m) = mWaitCheckInterval m"
proof -
  show a: "mMaxSleep (ml_do op m) = mMaxSleep m" "mWaitCheckInterval (ml_do op m) = mWaitCheckInterval m" for op m
    by (cases op; simp add: waitForPid_def registerPollHandler_def unregisterPollHandler_def changePollFlags_def
        registerCleanupHandler_def Let_def split: option.split)+
  show "mMaxSleep (fold ml_do ops m) = mMaxSleep m" "mWaitCheckInterval (fold ml_do ops m) = mWaitCheckInterval m"
    by (induction ops arbitrary: m) (simp_all add: a)
qed

lemma checkWait_config:
  "checkWait a ops m = (m', cs, b) \<Longrightarrow> mMaxSleep m' = mMaxSleep m \<and> mWaitCheckInterval m' = mWaitCheckInterval m"
proof -
  have "mMaxSleep (fold (\<lambda>p. fold ml_do (ops (fst p))) ps m) = mMaxSleep m \<and>
     mWaitCheckInterval (fold (\<lambda>p. fold ml_do (ops (fst p))) ps m) = mWaitCheckInterval m" for ps :: "(int \<times> nat) list" and m
    by (induction ps arbitrary: m) simp_all
  then show "checkWait a ops m = (m', cs, b) \<Longrightarrow> mMaxSleep m' = mMaxSleep m \<and> mWaitCheckInterval m' = mWaitCheckInterval m"
    by (auto simp: checkWait_def split: if_splits wait_answer.splits option.splits)
qed

lemma next_wake_le:
  assumes "n \<noteq> Never" "0 < started" "0 \<le> mWaitCheckInterval m" "mMaxSleep m = Infinite \<or> 0 \<le> mMaxSleep m"
  shows "next_wake started b m n \<noteq> Never \<and> next_wake started b m n \<le> n"
  using assms by (auto simp: next_wake_def Let_def Never_def)

text \<open>C26: The main loop does not sleep beyond its next timer. When the round of timers gives a time to come back,
  whatever child processes and callbacks do, the pause that follows has a limit, and it is not longer than to that time,
  provided that is less than two to the 31 milliseconds away; beyond that the cast to \<open>int\<close> can make the
  timeout negative, and \<open>poll\<close> then waits without limit.\<close>

theorem pause_ends_for_next_timer:
  assumes "checkTimers (rTimersNow r) (rTicks r) (mMaxRun m) (mlTimers m) = Some (n, ts, fs)" "n \<noteq> Never"
    "cycle_round started r m = Some (m', slept, ps)" "p \<in> set ps" "0 < started" "0 \<le> mWaitCheckInterval m"
    "mMaxSleep m = Infinite \<or> 0 \<le> mMaxSleep m" "n - rPollNow r < 2 ^ 31 * MilliSecond"
  shows "\<not> unlimited p \<and> longest p \<le> max 0 (n - rPollNow r)"
proof -
  define a where "a = fold ml_do (rTimerOps r) (m\<lparr>mlTimers := ts\<rparr>)"
  obtain m1 cs b where w: "checkWait (rWait r) (rWaitOps r) a = (m1, cs, b)" by (metis prod_cases3)
  have c: "mMaxSleep m1 = mMaxSleep m" "mWaitCheckInterval m1 = mWaitCheckInterval m"
    using checkWait_config [OF w] by (simp_all add: a_def)
  define wake where "wake = next_wake started b m1 n"
  have k: "wake \<noteq> Never" "wake \<le> n" using next_wake_le [of n started m1 b] assms c by (simp_all add: wake_def)
  define t where "t = (if wake - rPollNow r \<le> 0 then 0 else wake - rPollNow r)"
  obtain m2 q ds where h: "handleIOPoll t (rRevents r) (rPollOps r) m1 = (m2, q, ds)" by (metis prod_cases3)
  have "ps = [] \<or> ps = [q]"
    using assms(1,3) w k(1) h by (auto simp: cycle_round_def Let_def t_def a_def [symmetric] wake_def [symmetric] split: if_splits)
  then have p: "p = q" using assms(4) by auto
  have t: "0 \<le> t" "t \<le> max 0 (n - rPollNow r)" using k(2) by (auto simp: t_def)
  moreover have "t < 2 ^ 31 * MilliSecond" using t(2) assms(8) by (auto simp: MilliSecond_def)
  ultimately show ?thesis using pause_bound [OF h] p by force
qed

text \<open>The interval for checking child processes does not limit the sleep. With handlers waiting for children that
  are still running, no timer, and no limit on sleeping (as by default), the loop polls without any limit, and so
  it does after one child has terminated, when it knows that more may have: the limit is applied only then, and
  not when there is no timer.\<close>

theorem waiting_for_children_sleeps_unlimited:
  assumes "checkTimers (rTimersNow r) (rTicks r) (mMaxRun m) (mlTimers m) = Some (Never, ts, fs)"
    "a = fold ml_do (rTimerOps r) (m\<lparr>mlTimers := ts\<rparr>)" "\<not> stopped a" "mMaxSleep m = Infinite" "0 < started" "0 \<le> mWaitCheckInterval m"
    "rWait r = NoStatus \<or> (\<exists>pid st cb. rWait r = Exited pid st \<and> map_of (mWaitHandlers a) pid = Some cb \<and> rWaitOps r pid = [])"
    "polled a \<noteq> []"
  shows "\<exists>m' fl. cycle_round started r m = Some (m', Some True, [Poll fl (-1)])"
proof -
  obtain m1 cs b where w: "checkWait (rWait r) (rWaitOps r) a = (m1, cs, b)" by (metis prod_cases3)
  have s: "\<not> stopped m1" "mIoPollHandlers m1 = mIoPollHandlers a"
    using assms(3,7) w by (auto simp: checkWait_def stopped_def split: if_splits option.splits)
  then have p: "polled m1 \<noteq> []" using assms(8) by (simp add: polled_def)
  have c: "mMaxSleep m1 = Infinite" "0 \<le> mWaitCheckInterval m1" using checkWait_config [OF w] assms(2,4,6) by simp_all
  have "next_wake started b m1 Never = Never" using c assms(5) by (auto simp: next_wake_def Never_def)
  moreover obtain m2 ds where "handleIOPoll Infinite (rRevents r) (rPollOps r) m1 = (m2, Poll (map snd (polled m1)) (-1), ds)"
    using p by (cases "call_handlers (rRevents r) (rPollOps r) (map fst (polled m1)) m1") (auto simp: handleIOPoll_def Let_def)
  ultimately show ?thesis
    using assms(1,3) w s(1) by (simp add: cycle_round_def Let_def flip: assms(2))
qed

text \<open>A loop with timers, a file descriptor and a child to wait for, and a round in which nothing happens.\<close>

definition sample_loop :: "timers \<Rightarrow> mainloop" where
  "sample_loop ts = registerPollHandler 4 1 (Some 7) (waitForPid (Some 8) 123 (new_mainloop\<lparr>mlTimers := ts\<rparr>))"

definition sample_round :: round where
  "sample_round = \<lparr>rTimersNow = 400, rTicks = [quiet 400], rTimerOps = [], rWait = NoStatus, rWaitOps = (\<lambda>_. []), rPollNow = 410,
     rRevents = (\<lambda>_. 0), rPollOps = (\<lambda>_. []), rEndNow = 1000\<rparr>"

lemmas sample_defs = sample_loop_def sample_round_def registerPollHandler_def waitForPid_def new_mainloop_def checkTimers_def
  restart_def quiet_def two_timers earliest_def time_defs

theorem pause_ends_for_next_timer_witness:
  "\<exists>m' slept p. cycle_round 390 sample_round (sample_loop two_timers) = Some (m', slept, [p]) \<and> \<not> unlimited p \<and> longest p \<le> 590"
proof -
  have c: "checkTimers (rTimersNow sample_round) (rTicks sample_round) (mMaxRun (sample_loop two_timers)) (mlTimers (sample_loop two_timers)) =
      Some (1000, two_timers\<lparr>mTimersChanged := False\<rparr>, [])"
    by (simp add: sample_defs)
  obtain m' slept p where r: "cycle_round 390 sample_round (sample_loop two_timers) = Some (m', slept, [p])"
    unfolding cycle_round_def c
    by (simp add: sample_defs stopped_def checkWait_def next_wake_def handleIOPoll_def polled_def Let_def)
  have b: "0 \<le> mWaitCheckInterval (sample_loop two_timers)" "mMaxSleep (sample_loop two_timers) = Infinite"
    "rPollNow sample_round = 410"
    by (simp_all add: sample_defs)
  have "\<not> unlimited p \<and> longest p \<le> max 0 (1000 - rPollNow sample_round)"
    by (rule pause_ends_for_next_timer [OF c _ r]) (use b in \<open>simp_all add: time_defs\<close>)
  with r b show ?thesis by simp
qed

theorem waiting_for_children_sleeps_unlimited_witness:
  "\<exists>m' fl. cycle_round 390 sample_round (sample_loop (two_timers\<lparr>mTimers := []\<rparr>)) = Some (m', Some True, [Poll fl (-1)])"
proof -
  let ?m = "sample_loop (two_timers\<lparr>mTimers := []\<rparr>)"
  have c: "checkTimers (rTimersNow sample_round) (rTicks sample_round) (mMaxRun ?m) (mlTimers ?m) =
      Some (Never, two_timers\<lparr>mTimers := [], mTimersChanged := False\<rparr>, [])"
    by (simp add: sample_defs)
  show ?thesis
    by (rule waiting_for_children_sleeps_unlimited [OF c HOL.refl])
       (simp_all add: sample_defs stopped_def polled_def)
qed

end
