(* ===== verification/ScriptContext.thy ===== *)
theory ScriptContext
  imports ScriptProc
begin

text \<open>
  The threads of script contexts (\<open>ScriptCodeContext\<close> and \<open>ScriptMainContext\<close> of \<open>p44script.cpp\<close>): starting,
  queueing, aborting and ending threads. A thread is what its context sees of it; its own state
  machine is in the other theories. Whether a thread comes to its end at once when it runs, and whether
  what a thread waits for answers at once when it is aborted, are arguments, and so are the steps by
  which a thread comes to its end later.
\<close>

section \<open>The state\<close>

record thread =
  tOwner :: "nat option"
  tFlags :: u32
  tSource :: "nat option"
  tRunning :: bool
  tCallback :: bool
  tChained :: bool

text \<open>\<open>xMain\<close> is the main context of one that is not main; \<open>xHandlers\<close> the \<open>on\<close> handlers of a main one.\<close>

record context_state =
  xMain :: "nat option"
  xThreads :: "nat list"
  xQueued :: "nat list"
  xRelated :: "nat list"
  xArgs :: "val list"
  xVars :: "(string \<times> val) list"
  xHandlers :: "nat list"
  xUndefined :: bool

text \<open>\<open>delivered\<close> are the calls of completion callbacks, whose and with what.\<close>

record world =
  threads :: "thread list"
  contexts :: "context_state list"
  delivered :: "(nat \<times> val) list"

text \<open>\<open>quick\<close>: the result of a thread that ends within its start; \<open>answers\<close>: whether a chained context answers an abort.\<close>

record xenv =
  quick :: "nat \<Rightarrow> val option"
  answers :: "nat \<Rightarrow> bool"

definition upd_thread :: "nat \<Rightarrow> (thread \<Rightarrow> thread) \<Rightarrow> world \<Rightarrow> world" where
  "upd_thread t f w = (if t < length (threads w) then w\<lparr>threads := (threads w)[t := f (threads w ! t)]\<rparr> else w)"

definition upd_context :: "nat \<Rightarrow> (context_state \<Rightarrow> context_state) \<Rightarrow> world \<Rightarrow> world" where
  "upd_context c f w = (if c < length (contexts w) then w\<lparr>contexts := (contexts w)[c := f (contexts w ! c)]\<rparr> else w)"

abbreviation thr :: "world \<Rightarrow> nat \<Rightarrow> thread" where
  "thr w t \<equiv> threads w ! t"

abbreviation ctx :: "world \<Rightarrow> nat \<Rightarrow> context_state" where
  "ctx w c \<equiv> contexts w ! c"

definition isRunning :: "world \<Rightarrow> nat \<Rightarrow> bool" where
  "isRunning w t \<longleftrightarrow> tRunning (thr w t)"

definition registerRelatedThread :: "nat \<Rightarrow> nat \<Rightarrow> world \<Rightarrow> world" where
  "registerRelatedThread c t w = upd_context c (\<lambda>x. x\<lparr>xRelated := xRelated x @ [t]\<rparr>) w"

definition unregisterRelatedThread :: "nat \<Rightarrow> nat \<Rightarrow> world \<Rightarrow> world" where
  "unregisterRelatedThread c t w = upd_context c (\<lambda>x. x\<lparr>xRelated := filter (\<lambda>s. s \<noteq> t) (xRelated x)\<rparr>) w"

section \<open>The end of a thread\<close>

text \<open>The loop of \<open>threadTerminated\<close> over the threads: what is left, and whether one from the queue is among them.\<close>

fun remove_thread :: "world \<Rightarrow> nat \<Rightarrow> bool \<Rightarrow> nat list \<Rightarrow> nat list \<times> bool" where
  "remove_thread w t q [] = ([], q)"
| "remove_thread w t q (s # ts) =
     (if s = t then if q then (ts, q) else remove_thread w t q ts
      else let (us, q') = remove_thread w t (q \<or> has_flag (tFlags (thr w s)) ef_queue) ts in (s # us, q'))"

text \<open>The threads that \<open>abort(stoprunning)\<close> of a context goes through.\<close>

definition aborted_threads :: "world \<Rightarrow> nat \<Rightarrow> nat list" where
  "aborted_threads w c = xThreads (ctx w c) @ (if xMain (ctx w c) = None then xRelated (ctx w c) else [])"

text \<open>
  \<open>threadTerminated\<close> of context \<open>c\<close>, up to the start of the next thread from the queue, which is given. The
  siblings of a \<open>mainthread\<close> are aborted without a result: the first running one dereferences null.
\<close>

definition thread_ended :: "nat \<Rightarrow> nat \<Rightarrow> u32 \<Rightarrow> world \<Rightarrow> (world \<times> nat option) option" where
  "thread_ended c t f w0 =
     (let w1 = (case xMain (ctx w0 c) of Some m \<Rightarrow> unregisterRelatedThread m t w0 | None \<Rightarrow> w0);
          (ts, from_queue) = remove_thread w1 t False (xThreads (ctx w1 c));
          w2 = upd_context c (\<lambda>x. x\<lparr>xThreads := ts\<rparr>) w1
      in if has_flag f ef_mainthread \<and> list_ex (isRunning w2) (aborted_threads w2 c) then None
         else case xQueued (ctx w2 c) of
                [] \<Rightarrow> Some (w2, None)
              | n # ns \<Rightarrow>
                  if \<not> from_queue \<and> (ts = [] \<or> has_flag (tFlags (thr w2 n)) ef_concurrently)
                  then let w3 = upd_context c (\<lambda>x. x\<lparr>xQueued := ns, xThreads := xThreads x @ [n]\<rparr>) w2;
                           w4 = (case xMain (ctx w3 c) of Some m \<Rightarrow> registerRelatedThread m n w3 | None \<Rightarrow> w3)
                       in Some (w4, Some n)
                  else Some (w2, None))"

text \<open>\<open>ScriptCodeThread::complete\<close> up to the owner, and \<open>deactivate\<close>.\<close>

definition report :: "val \<Rightarrow> nat \<Rightarrow> world \<Rightarrow> world" where
  "report v t w =
     (let w1 = upd_thread t (\<lambda>x. x\<lparr>tRunning := False, tCallback := False\<rparr>) w
      in if tCallback (thr w t) then w1\<lparr>delivered := delivered w1 @ [(t, v)]\<rparr> else w1)"

definition retire :: "nat \<Rightarrow> world \<Rightarrow> world" where
  "retire t w = upd_thread t (\<lambda>x. x\<lparr>tOwner := None, tSource := None, tRunning := False, tCallback := False, tChained := False\<rparr>) w"

definition started :: "nat \<Rightarrow> world \<Rightarrow> world" where
  "started t w = upd_thread t (\<lambda>x. x\<lparr>tRunning := True\<rparr>) w"

definition all_queued :: "world \<Rightarrow> nat" where
  "all_queued w = sum_list (map (length \<circ> xQueued) (contexts w))"

lemma upd_context_simps [simp]:
  "threads (upd_context c f w) = threads w" "length (contexts (upd_context c f w)) = length (contexts w)"
  "delivered (upd_context c f w) = delivered w"
  "c < length (contexts w) \<Longrightarrow> ctx (upd_context c f w) d = (if d = c then f (ctx w c) else ctx w d)"
  "\<not> c < length (contexts w) \<Longrightarrow> upd_context c f w = w"
  by (auto simp: upd_context_def)

lemma upd_thread_simps [simp]:
  "contexts (upd_thread t f w) = contexts w" "delivered (upd_thread t f w) = delivered w"
  "length (threads (upd_thread t f w)) = length (threads w)"
  "t < length (threads w) \<Longrightarrow> thr (upd_thread t f w) s = (if s = t then f (thr w t) else thr w s)"
  "\<not> t < length (threads w) \<Longrightarrow> upd_thread t f w = w"
  by (auto simp: upd_thread_def)

lemma all_queued_upd:
  "c < length (contexts w) \<Longrightarrow>
     all_queued (upd_context c f w) + length (xQueued (ctx w c)) = all_queued w + length (xQueued (f (ctx w c)))"
proof -
  have "sum_list (map g (xs[i := y])) + g (xs ! i) = sum_list (map g xs) + g y"
    if "i < length xs" for g :: "context_state \<Rightarrow> nat" and xs i y
    using that by (induction xs arbitrary: i) (auto simp: nth_Cons split: nat.splits)
  from this [of c "contexts w" "length \<circ> xQueued" "f (ctx w c)"]
  show "c < length (contexts w) \<Longrightarrow> ?thesis" by (simp add: all_queued_def upd_context_def)
qed

lemma all_queued_simps [simp]:
  "all_queued (upd_thread t f w) = all_queued w"
  "all_queued (registerRelatedThread m t w) = all_queued w"
  "all_queued (unregisterRelatedThread m t w) = all_queued w"
  "all_queued (w\<lparr>delivered := ds\<rparr>) = all_queued w"
proof -
  have "all_queued (upd_context m f w) = all_queued w" if "\<And>x. xQueued (f x) = xQueued x" for f
    using all_queued_upd [of m w f] that by (cases "m < length (contexts w)") simp_all
  then show "all_queued (registerRelatedThread m t w) = all_queued w" "all_queued (unregisterRelatedThread m t w) = all_queued w"
    by (simp_all add: registerRelatedThread_def unregisterRelatedThread_def)
qed (simp_all add: all_queued_def)

lemma related_simps [simp]:
  "threads (registerRelatedThread m t w) = threads w" "threads (unregisterRelatedThread m t w) = threads w"
  "length (contexts (registerRelatedThread m t w)) = length (contexts w)"
  "length (contexts (unregisterRelatedThread m t w)) = length (contexts w)"
  "delivered (registerRelatedThread m t w) = delivered w" "delivered (unregisterRelatedThread m t w) = delivered w"
  by (simp_all add: registerRelatedThread_def unregisterRelatedThread_def)

lemma related_ctx [simp]:
  "xThreads (ctx (registerRelatedThread m t w) c) = xThreads (ctx w c)" "xQueued (ctx (registerRelatedThread m t w) c) = xQueued (ctx w c)"
  "xMain (ctx (registerRelatedThread m t w) c) = xMain (ctx w c)"
  "xThreads (ctx (unregisterRelatedThread m t w) c) = xThreads (ctx w c)" "xQueued (ctx (unregisterRelatedThread m t w) c) = xQueued (ctx w c)"
  "xMain (ctx (unregisterRelatedThread m t w) c) = xMain (ctx w c)"
  by (cases "m < length (contexts w)"; simp add: registerRelatedThread_def unregisterRelatedThread_def)+

lemma thread_ended_queue:
  assumes "thread_ended c t f w = Some (w', Some n)" "c < length (contexts w)"
  shows "all_queued w' < all_queued w"
proof -
  define w1 where "w1 = (case xMain (ctx w c) of Some m \<Rightarrow> unregisterRelatedThread m t w | None \<Rightarrow> w)"
  obtain ts q where r: "remove_thread w1 t False (xThreads (ctx w1 c)) = (ts, q)" by fastforce
  define w2 where "w2 = upd_context c (\<lambda>x. x\<lparr>xThreads := ts\<rparr>) w1"
  have l: "c < length (contexts w1)" "all_queued w1 = all_queued w" using assms(2) by (auto simp: w1_def split: option.split)
  then have q: "all_queued w2 = all_queued w" using all_queued_upd [of c w1 "\<lambda>x. x\<lparr>xThreads := ts\<rparr>"] by (simp add: w2_def)
  obtain m ms where x: "xQueued (ctx w2 c) = m # ms"
    using assms(1) by (auto simp: thread_ended_def r Let_def simp flip: w1_def w2_def split: list.splits if_splits)
  define w3 where "w3 = upd_context c (\<lambda>x. x\<lparr>xQueued := ms, xThreads := xThreads x @ [m]\<rparr>) w2"
  have "all_queued w3 < all_queued w2"
    using all_queued_upd [of c w2 "\<lambda>x. x\<lparr>xQueued := ms, xThreads := xThreads x @ [m]\<rparr>"] l(1) x by (simp add: w2_def w3_def)
  moreover have "all_queued w' = all_queued w3"
    using assms(1) x by (auto simp: thread_ended_def r Let_def simp flip: w1_def w2_def w3_def split: if_splits option.splits)
  ultimately show ?thesis using q by simp
qed

lemma report_simps [simp]:
  "contexts (report v t w) = contexts w" "all_queued (report v t w) = all_queued w" "length (threads (report v t w)) = length (threads w)"
  by (simp_all add: report_def Let_def)

lemma started_simps [simp]:
  "contexts (started t w) = contexts w" "all_queued (started t w) = all_queued w" "length (threads (started t w)) = length (threads w)"
  "contexts (retire t w) = contexts w" "length (threads (retire t w)) = length (threads w)"
  by (simp_all add: started_def retire_def)

text \<open>\<open>ScriptCodeThread::complete\<close>; the next thread from the queue runs within it.\<close>

function complete_thread :: "xenv \<Rightarrow> val \<Rightarrow> nat \<Rightarrow> world \<Rightarrow> world option" where
  "complete_thread e v t w =
     (let w1 = report v t w
      in case tOwner (thr w t) of
           None \<Rightarrow> Some (retire t w1)
         | Some c \<Rightarrow>
             if \<not> c < length (contexts w) then None
             else case thread_ended c t (tFlags (thr w t)) w1 of
                    None \<Rightarrow> None
                  | Some (w2, None) \<Rightarrow> Some (retire t w2)
                  | Some (w2, Some n) \<Rightarrow>
                      map_option (retire t)
                        (case quick e n of
                           None \<Rightarrow> Some (started n w2)
                         | Some r \<Rightarrow> complete_thread e r n (started n w2)))"
  by pat_completeness auto

termination
  by (relation "measure (\<lambda>(e, v, t, w). all_queued w)") (auto dest: thread_ended_queue)

declare complete_thread.simps [simp del]

definition run_thread :: "xenv \<Rightarrow> nat \<Rightarrow> world \<Rightarrow> world option" where
  "run_thread e t w = (case quick e t of None \<Rightarrow> Some (started t w) | Some r \<Rightarrow> complete_thread e r t (started t w))"

section \<open>Aborting\<close>

text \<open>
  \<open>ScriptCodeThread::abort\<close>: nothing for a thread that does not run; null is dereferenced when there is
  no result; where a chained context does not answer, the thread goes on with what it waits for.
\<close>

definition abort_thread :: "xenv \<Rightarrow> val option \<Rightarrow> nat \<Rightarrow> world \<Rightarrow> world option" where
  "abort_thread e v t w =
     (if \<not> isRunning w t then Some w
      else case v of
             None \<Rightarrow> None
           | Some x \<Rightarrow>
               (case actualValue x of
                  None \<Rightarrow> None
                | Some r \<Rightarrow> if tChained (thr w t) \<and> \<not> answers e t then Some w else complete_thread e r t w))"

fun abort_threads :: "xenv \<Rightarrow> val option \<Rightarrow> nat list \<Rightarrow> world \<Rightarrow> world option" where
  "abort_threads e v [] w = Some w"
| "abort_threads e v (t # ts) w = (case abort_thread e v t w of None \<Rightarrow> None | Some w' \<Rightarrow> abort_threads e v ts w')"

text \<open>The queued threads are not running, so that aborting them does nothing; they are dropped with their callbacks.\<close>

definition drop_queued :: "nat \<Rightarrow> world \<Rightarrow> world" where
  "drop_queued c w = upd_context c (\<lambda>x. x\<lparr>xQueued := []\<rparr>) (fold retire (rev (xQueued (ctx w c))) w)"

definition others :: "nat option \<Rightarrow> nat list \<Rightarrow> nat list" where
  "others except ts = filter (\<lambda>t. Some t \<noteq> except) ts"

definition context_abort :: "xenv \<Rightarrow> nat \<Rightarrow> u32 \<Rightarrow> val option \<Rightarrow> nat option \<Rightarrow> world \<Rightarrow> (world \<times> bool) option" where
  "context_abort e c f v except w =
     (let w1 = (if has_flag f ef_queue then drop_queued c w else w)
      in if \<not> has_flag f ef_stoprunning then Some (w1, False)
         else let ts = others except (xThreads (ctx w1 c))
              in case abort_threads e v ts w1 of
                   None \<Rightarrow> None
                 | Some w2 \<Rightarrow>
                     if xMain (ctx w2 c) \<noteq> None then Some (w2, ts \<noteq> [])
                     else let rs = others except (xRelated (ctx w2 c))
                          in map_option (\<lambda>w3. (w3, ts \<noteq> [] \<or> rs \<noteq> [])) (abort_threads e v rs w2))"

definition isExecutingSource :: "world \<Rightarrow> nat \<Rightarrow> nat \<Rightarrow> bool" where
  "isExecutingSource w src t \<longleftrightarrow> isRunning w t \<and> tSource (thr w t) = Some src"

definition context_isExecutingSource :: "nat \<Rightarrow> nat \<Rightarrow> world \<Rightarrow> bool" where
  "context_isExecutingSource c src w \<longleftrightarrow> list_ex (isExecutingSource w src) (aborted_threads w c)"

text \<open>The copies of the lists are gone through; each thread is looked at when it is its turn.\<close>

fun abort_running_source :: "xenv \<Rightarrow> nat \<Rightarrow> val option \<Rightarrow> nat list \<Rightarrow> world \<Rightarrow> (world \<times> bool) option" where
  "abort_running_source e src v [] w = Some (w, False)"
| "abort_running_source e src v (t # ts) w =
     (if isExecutingSource w src t
      then case abort_thread e v t w of
             None \<Rightarrow> None
           | Some w' \<Rightarrow> map_option (\<lambda>(w'', _). (w'', True)) (abort_running_source e src v ts w')
      else abort_running_source e src v ts w)"

definition abortThreadsRunningSource :: "xenv \<Rightarrow> nat \<Rightarrow> nat \<Rightarrow> val option \<Rightarrow> world \<Rightarrow> (world \<times> bool) option" where
  "abortThreadsRunningSource e c src v w =
     (case abort_running_source e src v (xThreads (ctx w c)) w of
        None \<Rightarrow> None
      | Some (w1, b) \<Rightarrow>
          if xMain (ctx w1 c) \<noteq> None then Some (w1, b)
          else map_option (\<lambda>(w2, b2). (w2, b \<or> b2)) (abort_running_source e src v (xRelated (ctx w1 c)) w1))"

section \<open>Starting\<close>

definition ef_stopall :: u32 where "ef_stopall = ef_stoprunning + ef_queue"

definition clearVars :: "nat \<Rightarrow> world \<Rightarrow> world" where
  "clearVars c w =
     upd_context c (\<lambda>x. x\<lparr>xArgs := [], xVars := [], xHandlers := (if xMain x = None then [] else xHandlers x)\<rparr>) w"

definition enqueue :: "nat \<Rightarrow> nat \<Rightarrow> world \<Rightarrow> world" where
  "enqueue c t w = upd_context c (\<lambda>x. x\<lparr>xQueued := xQueued x @ [t]\<rparr>) w"

definition enter_context :: "nat \<Rightarrow> nat \<Rightarrow> world \<Rightarrow> world" where
  "enter_context c t w =
     (let w1 = upd_context c (\<lambda>x. x\<lparr>xThreads := xThreads x @ [t]\<rparr>) w
      in case xMain (ctx w c) of Some m \<Rightarrow> registerRelatedThread m t w1 | None \<Rightarrow> w1)"

text \<open>
  \<open>newThreadFrom\<close>: a new thread of context \<open>c\<close>, to be run by the caller unless it was queued. A thread
  that finds the context busy is aborted before it runs, which does nothing, and given to the caller.
\<close>

definition newThreadFrom :: "xenv \<Rightarrow> nat \<Rightarrow> nat option \<Rightarrow> u32 \<Rightarrow> bool \<Rightarrow> world \<Rightarrow> (world \<times> nat \<times> bool) option" where
  "newThreadFrom e c src f cb w0 =
     (let t = length (threads w0);
          w1 = w0\<lparr>threads := threads w0 @ [\<lparr>tOwner = Some c, tFlags = f, tSource = src, tRunning = False, tCallback = cb, tChained = False\<rparr>]\<rparr>;
          r = (if has_flag f ef_stoprunning
               then map_option fst (context_abort e c (f AND ef_stopall) (Some (err_value E_Aborted ''Aborted by another script starting'')) None w1)
               else Some w1)
      in case r of
           None \<Rightarrow> None
         | Some w \<Rightarrow>
             if xThreads (ctx w c) \<noteq> [] \<and> has_flag f ef_queue \<and>
                (has_flag f ef_concurrently \<longrightarrow> list_ex (\<lambda>s. has_flag (tFlags (thr w s)) ef_queue) (xThreads (ctx w c)))
             then Some (enqueue c t w, t, False)
             else if xThreads (ctx w c) \<noteq> [] \<and> \<not> has_flag f ef_queue \<and> \<not> has_flag f ef_concurrently
             then map_option (\<lambda>w'. (w', t, True)) (abort_thread e (Some (err_value E_Busy ''Already busy executing script'')) t w)
             else Some (enter_context c t w, t, True))"

text \<open>
  \<open>execute\<close> of an object that is compiled code (from a source) or is not. What is delivered to the
  caller without a thread is given apart.
\<close>

definition execute :: "xenv \<Rightarrow> nat \<Rightarrow> bool \<Rightarrow> nat option \<Rightarrow> u32 \<Rightarrow> bool \<Rightarrow> world \<Rightarrow> (world \<times> val list) option" where
  "execute e c compiled src f cb w =
     (let answer = (\<lambda>v. if cb then [v] else [])
      in if xUndefined (ctx w c)
         then Some (upd_context c (\<lambda>x. x\<lparr>xUndefined := False\<rparr>) w, answer (VNull ''undefined argument caused undefined function result''))
         else if \<not> compiled
         then Some (w, answer (err_value E_Internal ''Object to be run must be compiled code!''))
         else let w1 = (if has_flag f ef_keepvars then w else clearVars c w);
                  g = (if has_flag f ef_sourcecode then (f AND NOT ef_sourcecode) OR ef_scriptbody else f)
              in case newThreadFrom e c src g cb w1 of
                   None \<Rightarrow> None
                 | Some (w2, t, True) \<Rightarrow> map_option (\<lambda>w3. (w3, [])) (run_thread e t w2)
                 | Some (w2, t, False) \<Rightarrow> Some (w2, []))"

end
