(* ===== verification/StepFrame.thy ===== *)
theory StepFrame
  imports Main
begin

text \<open>
  The interface of a step relation with a frame: a preorder every step from a well-formed state goes up
  in, and that keeps states well-formed. What the frame says then holds of every run. The second interface is the
  same for operations given as functions.
\<close>

locale step_frame =
  fixes step :: "'s \<Rightarrow> 's \<Rightarrow> bool"
    and frame :: "'s \<Rightarrow> 's \<Rightarrow> bool"
    and ok :: "'s \<Rightarrow> bool"
  assumes frame_refl: "frame s s"
    and frame_trans: "frame s t \<Longrightarrow> frame t u \<Longrightarrow> frame s u"
    and frame_ok: "frame s t \<Longrightarrow> ok s \<Longrightarrow> ok t"
    and step_frame: "step s t \<Longrightarrow> ok s \<Longrightarrow> frame s t"
begin

lemma run_frame: "step\<^sup>*\<^sup>* s t \<Longrightarrow> ok s \<Longrightarrow> frame s t"
proof (induction rule: rtranclp_induct)
  case (step t u)
  then have "ok t" by (blast intro: frame_ok)
  with step show ?case by (blast intro: frame_trans step_frame)
qed (rule frame_refl)

lemma run_ok: "step\<^sup>*\<^sup>* s t \<Longrightarrow> ok s \<Longrightarrow> ok t"
  by (blast intro: run_frame frame_ok)

end

text \<open>The interface of operations that may be refused, their runs, and an invariant every operation keeps.\<close>

locale op_machine =
  fixes exec :: "'o \<Rightarrow> 's \<Rightarrow> 's option"
    and run :: "'o list \<Rightarrow> 's \<Rightarrow> 's option"
    and ok :: "'s \<Rightarrow> bool"
  assumes run_Nil: "run [] s = Some s"
    and run_Cons: "run (x # xs) s = (case exec x s of None \<Rightarrow> None | Some t \<Rightarrow> run xs t)"
    and exec_ok: "ok s \<Longrightarrow> exec x s = Some t \<Longrightarrow> ok t"
begin

lemma run_invariant:
  assumes "run xs s = Some t" "ok s" "P s" and step: "\<And>x s t. ok s \<Longrightarrow> P s \<Longrightarrow> exec x s = Some t \<Longrightarrow> P t"
  shows "ok t \<and> P t"
  using assms(1-3)
proof (induction xs arbitrary: s)
  case (Cons x xs)
  then obtain u where "exec x s = Some u" "run xs u = Some t" by (auto simp: run_Cons split: option.splits)
  with Cons show ?case using exec_ok step by blast
qed (simp add: run_Nil)

lemma op_run_ok: "run xs s = Some t \<Longrightarrow> ok s \<Longrightarrow> ok t"
  using run_invariant [of xs s t "\<lambda>_. True"] by blast

end

end
