(* ===== verification/ContextLaws.thy ===== *)
theory ContextLaws
  imports ScriptContext StepFrame
begin

text \<open>
  What the threads of a context can rely on: queued executions run one at a time and in order, never wait
  for a context that is idle, and nobody hears of an execution twice; and where the code does not keep its word.
\<close>

section \<open>Threads over time\<close>

definition reported :: "world \<Rightarrow> nat set" where
  "reported w = fst ` set (delivered w)"

definition reports_ok :: "world \<Rightarrow> bool" where
  "reports_ok w \<longleftrightarrow> distinct (map fst (delivered w)) \<and> reported w \<subseteq> {t. t < length (threads w) \<and> \<not> tCallback (thr w t)}"

text \<open>What any operation does to the threads there are.\<close>

definition follows :: "world \<Rightarrow> world \<Rightarrow> bool" where
  "follows w w' \<longleftrightarrow> length (threads w) \<le> length (threads w') \<and> length (contexts w') = length (contexts w) \<and>
     (\<forall>t<length (threads w). tFlags (thr w' t) = tFlags (thr w t) \<and>
        (\<not> tCallback (thr w t) \<longrightarrow> \<not> tCallback (thr w' t) \<and> (t \<in> reported w' \<longleftrightarrow> t \<in> reported w))) \<and>
     (reports_ok w \<longrightarrow> reports_ok w')"

lemma follows_refl [simp]: "follows w w"
  by (simp add: follows_def)

lemma follows_trans: "follows a b \<Longrightarrow> follows b c \<Longrightarrow> follows a c"
  by (auto simp: follows_def)

lemma follows_context [simp]: "follows w (upd_context c f w)"
  by (simp add: follows_def reports_ok_def reported_def)

lemma follows_thread:
  "(\<And>x. tFlags (f x) = tFlags x) \<Longrightarrow> (\<And>x. tCallback (f x) \<Longrightarrow> tCallback x) \<Longrightarrow> follows w (upd_thread t f w)"
  by (cases "t < length (threads w)") (auto simp: follows_def reports_ok_def reported_def dest!: subsetD split: if_splits)

lemma follows_started [simp]: "follows w (started t w)" and follows_retire [simp]: "follows w (retire t w)"
  by (auto simp: started_def retire_def intro: follows_thread)

lemma follows_report [simp]: "t < length (threads w) \<Longrightarrow> follows w (report v t w)"
  by (auto simp: report_def Let_def follows_def reports_ok_def reported_def split: if_splits)

lemma follows_related [simp]: "follows w (registerRelatedThread m t w)" "follows w (unregisterRelatedThread m t w)"
  by (simp_all add: registerRelatedThread_def unregisterRelatedThread_def)

lemma remove_thread_spec:
  "remove_thread w t q xs = (ts, q') \<Longrightarrow>
     subseq ts xs \<and> (q' \<longleftrightarrow> q \<or> list_ex (\<lambda>s. has_flag (tFlags (thr w s)) ef_queue) ts)"
  by (induction w t q xs arbitrary: ts q' rule: remove_thread.induct) (auto split: if_splits prod.splits)

section \<open>The invariant of contexts\<close>

definition from_queue :: "world \<Rightarrow> nat \<Rightarrow> bool" where
  "from_queue w t \<longleftrightarrow> has_flag (tFlags (thr w t)) ef_queue"

text \<open>Threads wait in the queue only while there are others, and of those only one has come from the queue.\<close>

definition context_ok :: "world \<Rightarrow> context_state \<Rightarrow> bool" where
  "context_ok w x \<longleftrightarrow> set (xThreads x) \<union> set (xQueued x) \<union> set (xRelated x) \<subseteq> {..<length (threads w)} \<and>
     (xQueued x \<noteq> [] \<longrightarrow> xThreads x \<noteq> []) \<and> length (filter (from_queue w) (xThreads x)) \<le> 1 \<and> list_all (from_queue w) (xQueued x)"

definition world_ok :: "world \<Rightarrow> bool" where
  "world_ok w \<longleftrightarrow> (\<forall>c<length (contexts w). context_ok w (ctx w c)) \<and> reports_ok w"

definition progress :: "world \<Rightarrow> world \<Rightarrow> bool" where
  "progress w w' \<longleftrightarrow> follows w w' \<and> (world_ok w \<longrightarrow> world_ok w')"

lemma progress_refl [simp]: "progress w w"
  by (simp add: progress_def)

lemma progress_trans: "progress a b \<Longrightarrow> progress b c \<Longrightarrow> progress a c"
  by (auto simp: progress_def intro: follows_trans)

lemma context_ok_evolves: "follows w w' \<Longrightarrow> context_ok w x \<Longrightarrow> context_ok w' x"
proof -
  assume e: "follows w w'" and x: "context_ok w x"
  have q: "t < length (threads w) \<Longrightarrow> from_queue w' t = from_queue w t" for t
    using e by (simp add: follows_def from_queue_def)
  then have "filter (from_queue w') (xThreads x) = filter (from_queue w) (xThreads x)"
    using x by (intro filter_cong) (auto simp: context_ok_def)
  moreover have "list_all (from_queue w') (xQueued x)" using x q by (auto simp: context_ok_def list_all_iff)
  moreover have "{..<length (threads w)} \<subseteq> {..<length (threads w')}" using e by (auto simp: follows_def)
  ultimately show ?thesis using x by (auto simp: context_ok_def)
qed

lemma progress_threads: "follows w w' \<Longrightarrow> contexts w' = contexts w \<Longrightarrow> progress w w'"
  using context_ok_evolves [of w w'] by (simp add: progress_def world_ok_def) (simp add: follows_def)

lemma progress_context:
  "(c < length (contexts w) \<Longrightarrow> context_ok w (ctx w c) \<Longrightarrow> context_ok w (f (ctx w c))) \<Longrightarrow> progress w (upd_context c f w)"
proof (cases "c < length (contexts w)")
  case True
  have "from_queue (upd_context c f w) = from_queue w" by (simp add: from_queue_def fun_eq_iff)
  then have t: "context_ok (upd_context c f w) x = context_ok w x" for x by (simp add: context_ok_def)
  assume "c < length (contexts w) \<Longrightarrow> context_ok w (ctx w c) \<Longrightarrow> context_ok w (f (ctx w c))"
  with True show ?thesis
    using follows_context [of w c f] by (auto simp: progress_def world_ok_def t follows_def)
qed simp

lemma upd_context_twice: "upd_context c g (upd_context c f w) = upd_context c (g \<circ> f) w"
  by (simp add: upd_context_def)

lemma progress_related:
  "t < length (threads w) \<Longrightarrow> progress w (registerRelatedThread m t w)" "progress w (unregisterRelatedThread m t w)"
  by (auto simp: registerRelatedThread_def unregisterRelatedThread_def context_ok_def intro!: progress_context)

lemma thread_ended_progress:
  assumes "thread_ended c t f w = Some (w', r)" "world_ok w" "c < length (contexts w)"
  shows "progress w w' \<and> (\<forall>n. r = Some n \<longrightarrow> n < length (threads w'))"
proof -
  define w1 where "w1 = (case xMain (ctx w c) of Some m \<Rightarrow> unregisterRelatedThread m t w | None \<Rightarrow> w)"
  have w1: "progress w w1" using progress_related(2) by (auto simp: w1_def split: option.split)
  then have ok: "world_ok w1" using assms(2) by (simp add: progress_def)
  have c: "c < length (contexts w1)" using w1 assms(3) by (simp add: progress_def follows_def)
  then have x: "context_ok w1 (ctx w1 c)" using ok by (simp add: world_ok_def)
  obtain ts q where rt: "remove_thread w1 t False (xThreads (ctx w1 c)) = (ts, q)" by fastforce
  have sub: "subseq ts (xThreads (ctx w1 c))" and q: "q = list_ex (from_queue w1) ts"
    using remove_thread_spec [OF rt] by (simp_all add: from_queue_def [abs_def])
  have f: "length (filter (from_queue w1) ts) \<le> length (filter (from_queue w1) (xThreads (ctx w1 c)))"
    using subseq_filter [OF sub] by (rule list_emb_length)
  have s: "set ts \<subseteq> set (xThreads (ctx w1 c))" using sub by (blast dest: list_emb_set)
  define w2 where "w2 = upd_context c (\<lambda>x. x\<lparr>xThreads := ts\<rparr>) w1"
  have c2: "ctx w2 c = (ctx w1 c)\<lparr>xThreads := ts\<rparr>" and t2: "threads w2 = threads w1"
    using c by (simp_all add: w2_def)
  show ?thesis
  proof (cases r)
    case None
    have "w' = w2 \<and> (xQueued (ctx w1 c) = [] \<or> ts \<noteq> [])"
      using assms(1) None q unfolding thread_ended_def
      by (auto simp: rt Let_def c2 simp flip: w1_def w2_def split: list.splits if_splits)
    moreover have "progress w1 w2" if "xQueued (ctx w1 c) = [] \<or> ts \<noteq> []"
      using that x s f unfolding w2_def by (intro progress_context) (auto simp: context_ok_def)
    ultimately show ?thesis using w1 None by (auto intro: progress_trans)
  next
    case (Some n)
    then obtain ns where n: "xQueued (ctx w1 c) = n # ns" "\<not> q"
      using assms(1) by (auto simp: thread_ended_def rt Let_def c2 simp flip: w1_def w2_def split: list.splits if_splits)
    define w3 where "w3 = upd_context c (\<lambda>x. x\<lparr>xQueued := ns, xThreads := xThreads x @ [n]\<rparr>) w2"
    have "filter (from_queue w1) ts = []" using n(2) q by (auto simp: filter_empty_conv list_ex_iff)
    then have "progress w1 w3"
      using x s n(1) unfolding w3_def w2_def upd_context_twice by (intro progress_context) (auto simp: context_ok_def)
    moreover have "progress w3 w'" "n < length (threads w')"
    proof -
      have l: "n < length (threads w3)" using x n(1) by (auto simp: w3_def w2_def context_ok_def)
      have "w' = (case xMain (ctx w3 c) of Some m \<Rightarrow> registerRelatedThread m n w3 | None \<Rightarrow> w3)"
        using assms(1) Some n by (auto simp: thread_ended_def rt Let_def c2 simp flip: w1_def w2_def w3_def split: if_splits option.splits)
      then show "progress w3 w'" "n < length (threads w')"
        using progress_related(1) [OF l] l by (auto split: option.split)
    qed
    ultimately show ?thesis using w1 Some by (auto intro: progress_trans)
  qed
qed

lemma complete_progress:
  "complete_thread e v t w = Some w' \<Longrightarrow> world_ok w \<Longrightarrow> t < length (threads w) \<Longrightarrow> progress w w'"
proof (induction e v t w arbitrary: w' rule: complete_thread.induct)
  case (1 e v t w)
  define w1 where "w1 = report v t w"
  have w1: "progress w w1" using 1(4) unfolding w1_def by (intro progress_threads) simp_all
  have ret: "progress a (retire t a)" for a by (rule progress_threads) simp_all
  show ?case
  proof (cases "tOwner (thr w t)")
    case None
    then have "w' = retire t w1" using 1(2) by (simp add: complete_thread.simps [of e v t w] w1_def)
    with w1 ret show ?thesis by (auto intro: progress_trans)
  next
    case (Some c)
    then have c: "c < length (contexts w)" using 1(2) by (auto simp: complete_thread.simps [of e v t w] split: if_splits)
    obtain w2 r where te: "thread_ended c t (tFlags (thr w t)) w1 = Some (w2, r)"
      using 1(2) Some c by (auto simp: complete_thread.simps [of e v t w] Let_def simp flip: w1_def split: option.splits)
    have ok1: "world_ok w1" "c < length (contexts w1)" using w1 1(3) c by (auto simp: progress_def w1_def)
    from thread_ended_progress [OF te ok1] have w2: "progress w w2" and n: "\<And>n. r = Some n \<Longrightarrow> n < length (threads w2)"
      using w1 by (auto intro: progress_trans)
    show ?thesis
    proof (cases r)
      case None
      then have "w' = retire t w2" using 1(2) Some c te by (simp add: complete_thread.simps [of e v t w] Let_def flip: w1_def)
      with w2 ret show ?thesis by (auto intro: progress_trans)
    next
      case r: (Some n)
      define w3 where "w3 = started n w2"
      have "progress w2 w3" unfolding w3_def by (rule progress_threads) simp_all
      with w2 have w3: "progress w w3" by (rule progress_trans)
      have l: "n < length (threads w3)" using n [OF r] by (simp add: w3_def)
      have ok3: "world_ok w3" using w3 1(3) by (simp add: progress_def)
      have "map_option (retire t) (case quick e n of None \<Rightarrow> Some w3 | Some r \<Rightarrow> complete_thread e r n w3) = Some w'"
        unfolding w3_def using 1(2) Some c te r by (simp add: complete_thread.simps [of e v t w] Let_def flip: w1_def)
      then obtain w4 where w4: "(case quick e n of None \<Rightarrow> Some w3 | Some r \<Rightarrow> complete_thread e r n w3) = Some w4" "w' = retire t w4"
        by (auto simp del: option.case_eq_if split del: option.split)
      have "progress w3 w4"
      proof (cases "quick e n")
        case q: (Some x)
        show ?thesis
          using 1(1) [OF w1_def Some _ te HOL.refl r q] c w4(1) ok3 l q by (simp add: w3_def)
      qed (use w4(1) in simp)
      with w3 ret w4(2) show ?thesis by (auto intro: progress_trans)
    qed
  qed
qed

lemma run_thread_progress:
  "run_thread e t w = Some w' \<Longrightarrow> world_ok w \<Longrightarrow> t < length (threads w) \<Longrightarrow> progress w w'"
proof -
  assume a: "run_thread e t w = Some w'" "world_ok w" "t < length (threads w)"
  have s: "progress w (started t w)" by (rule progress_threads) simp_all
  then have "world_ok (started t w)" using a(2) by (simp add: progress_def)
  with a s show "progress w w'"
    using complete_progress [of e _ t "started t w" w'] by (auto simp: run_thread_def split: option.splits intro: progress_trans)
qed

lemma abort_thread_progress:
  "abort_thread e v t w = Some w' \<Longrightarrow> world_ok w \<Longrightarrow> t < length (threads w) \<Longrightarrow> progress w w'"
  by (auto simp: abort_thread_def split: if_splits option.splits intro: complete_progress)

lemma abort_threads_progress:
  "abort_threads e v ts w = Some w' \<Longrightarrow> world_ok w \<Longrightarrow> set ts \<subseteq> {..<length (threads w)} \<Longrightarrow> progress w w'"
proof (induction e v ts w rule: abort_threads.induct)
  case (2 e v t ts w)
  then obtain w1 where w1: "abort_thread e v t w = Some w1" "abort_threads e v ts w1 = Some w'"
    by (auto split: option.splits)
  have p: "progress w w1" using abort_thread_progress [OF w1(1)] 2 by simp
  then have "world_ok w1" "set ts \<subseteq> {..<length (threads w1)}" using 2 by (auto simp: progress_def follows_def)
  with 2(1) [OF w1(1)] w1(2) p show ?case by (auto intro: progress_trans)
qed simp

lemma progress_retired: "progress w (fold retire ts w)" "contexts (fold retire ts w) = contexts w"
proof -
  have "follows w (fold retire ts w) \<and> contexts (fold retire ts w) = contexts w"
    by (induction ts arbitrary: w) (auto intro: follows_trans follows_retire)
  then show "progress w (fold retire ts w)" "contexts (fold retire ts w) = contexts w"
    by (simp_all add: progress_threads)
qed

lemma drop_queued_progress: "progress w (drop_queued c w)"
  unfolding drop_queued_def
  by (rule progress_trans [OF progress_retired(1)], rule progress_context) (auto simp: context_ok_def)

lemma world_ok_lists:
  "world_ok w \<Longrightarrow> c < length (contexts w) \<Longrightarrow>
     set (xThreads (ctx w c)) \<subseteq> {..<length (threads w)} \<and> set (xQueued (ctx w c)) \<subseteq> {..<length (threads w)} \<and>
     set (xRelated (ctx w c)) \<subseteq> {..<length (threads w)}"
  by (simp add: world_ok_def context_ok_def)

lemma context_abort_rest:
  assumes "context_abort e c f v x w = Some (w', b)" "world_ok w" "c < length (contexts w)"
    "w1 = (if has_flag f ef_queue then drop_queued c w else w)"
  shows "progress w w1 \<and> progress w1 w'"
proof -
  note w1_def = assms(4)
  have p1: "progress w w1" by (simp add: w1_def drop_queued_progress)
  then have ok1: "world_ok w1" "c < length (contexts w1)" using assms by (auto simp: progress_def follows_def)
  show ?thesis
  proof (cases "has_flag f ef_stoprunning")
    case True
    obtain w2 where w2: "abort_threads e v (others x (xThreads (ctx w1 c))) w1 = Some w2"
      using assms(1) True by (auto simp: context_abort_def Let_def simp flip: w1_def split: option.splits)
    have p2: "progress w1 w2" using world_ok_lists [OF ok1] by (intro abort_threads_progress [OF w2 ok1(1)]) (auto simp: others_def)
    then have ok2: "world_ok w2" "c < length (contexts w2)" using ok1 by (auto simp: progress_def follows_def)
    have "w' = w2 \<or> abort_threads e v (others x (xRelated (ctx w2 c))) w2 = Some w'"
      using assms(1) True w2 by (auto simp: context_abort_def Let_def simp flip: w1_def split: if_splits)
    moreover have "progress w2 w'" if "abort_threads e v (others x (xRelated (ctx w2 c))) w2 = Some w'"
      using world_ok_lists [OF ok2] by (intro abort_threads_progress [OF that ok2(1)]) (auto simp: others_def)
    ultimately show ?thesis using p1 p2 by (auto intro: progress_trans)
  qed (use assms(1) p1 in \<open>auto simp: context_abort_def Let_def simp flip: w1_def\<close>)
qed

lemma context_abort_progress:
  "context_abort e c f v x w = Some (w', b) \<Longrightarrow> world_ok w \<Longrightarrow> c < length (contexts w) \<Longrightarrow> progress w w'"
  using context_abort_rest by (blast intro: progress_trans)

lemma abort_source_progress:
  "abort_running_source e src v ts w = Some (w', b) \<Longrightarrow> world_ok w \<Longrightarrow> set ts \<subseteq> {..<length (threads w)} \<Longrightarrow> progress w w'"
proof (induction e src v ts w arbitrary: b rule: abort_running_source.induct)
  case (2 e src v t ts w)
  show ?case
  proof (cases "isExecutingSource w src t")
    case True
    with 2(3) obtain w1 b1 where w1: "abort_thread e v t w = Some w1" "abort_running_source e src v ts w1 = Some (w', b1)"
      by (auto split: option.splits)
    have p: "progress w w1" using abort_thread_progress [OF w1(1)] 2 by simp
    then have "world_ok w1" "set ts \<subseteq> {..<length (threads w1)}" using 2 by (auto simp: progress_def follows_def)
    with 2(1) [OF True w1] p show ?thesis by (auto intro: progress_trans)
  qed (use 2 in auto)
qed simp

lemma abortThreadsRunningSource_progress:
  assumes "abortThreadsRunningSource e c src v w = Some (w', b)" "world_ok w" "c < length (contexts w)"
  shows "progress w w'"
proof -
  obtain w1 b1 where w1: "abort_running_source e src v (xThreads (ctx w c)) w = Some (w1, b1)"
    using assms(1) by (auto simp: abortThreadsRunningSource_def split: option.splits)
  have p: "progress w w1" using world_ok_lists [OF assms(2,3)] by (intro abort_source_progress [OF w1 assms(2)]) auto
  then have ok: "world_ok w1" "c < length (contexts w1)" using assms by (auto simp: progress_def follows_def)
  have "w' = w1 \<or> (\<exists>b2. abort_running_source e src v (xRelated (ctx w1 c)) w1 = Some (w', b2))"
    using assms(1) w1 by (auto simp: abortThreadsRunningSource_def split: if_splits)
  with abort_source_progress [OF _ ok(1), of e src v "xRelated (ctx w1 c)" w'] world_ok_lists [OF ok] p
  show ?thesis by (auto intro: progress_trans)
qed

section \<open>Starting threads\<close>

lemma follows_new_thread: "follows w (w\<lparr>threads := threads w @ [t]\<rparr>)"
  by (fastforce simp: follows_def reports_ok_def reported_def nth_append)

lemma newThreadFrom_progress:
  assumes "newThreadFrom e c src f cb w = Some (w', t, r)" "world_ok w" "c < length (contexts w)"
  shows "progress w w' \<and> t < length (threads w')"
proof -
  define n where "n = \<lparr>tOwner = Some c, tFlags = f, tSource = src, tRunning = False, tCallback = cb, tChained = False\<rparr>"
  define w1 where "w1 = w\<lparr>threads := threads w @ [n]\<rparr>"
  have p1: "progress w w1" unfolding w1_def by (rule progress_threads [OF follows_new_thread]) simp
  have t: "t = length (threads w)"
    using assms(1) by (auto simp: newThreadFrom_def Let_def split: option.splits if_splits)
  have ok1: "world_ok w1" "c < length (contexts w1)" "t < length (threads w1)" "tFlags (thr w1 t) = f"
    using p1 assms(2,3) by (auto simp: progress_def w1_def t n_def nth_append)
  define m where "m = (if has_flag f ef_stoprunning
    then map_option fst (context_abort e c (f AND ef_stopall) (Some (err_value E_Aborted ''Aborted by another script starting'')) None w1)
    else Some w1)"
  obtain w2 where w2: "m = Some w2"
    using assms(1) by (auto simp: newThreadFrom_def Let_def simp flip: n_def w1_def m_def split: option.splits)
  have p2: "progress w1 w2"
    using w2 ok1 by (auto simp: m_def split: if_splits intro: context_abort_progress)
  then have ok2: "world_ok w2" "c < length (contexts w2)" "t < length (threads w2)" "from_queue w2 t = has_flag f ef_queue"
    using ok1 by (auto simp: progress_def follows_def from_queue_def)
  have x: "context_ok w2 (ctx w2 c)" using ok2 by (simp add: world_ok_def)
  let ?ts = "xThreads (ctx w2 c)"
  have nt: "newThreadFrom e c src f cb w =
     (if ?ts \<noteq> [] \<and> has_flag f ef_queue \<and> (has_flag f ef_concurrently \<longrightarrow> list_ex (from_queue w2) ?ts)
      then Some (enqueue c t w2, t, False)
      else if ?ts \<noteq> [] \<and> \<not> has_flag f ef_queue \<and> \<not> has_flag f ef_concurrently
      then map_option (\<lambda>w'. (w', t, True)) (abort_thread e (Some (err_value E_Busy ''Already busy executing script'')) t w2)
      else Some (enter_context c t w2, t, True))"
    using w2 by (simp add: newThreadFrom_def Let_def from_queue_def [abs_def] t flip: n_def w1_def m_def)
  consider (queued) "?ts \<noteq> []" "has_flag f ef_queue" "w' = enqueue c t w2"
    | (busy) "abort_thread e (Some (err_value E_Busy ''Already busy executing script'')) t w2 = Some w'"
    | (enter) "?ts = [] \<or> \<not> has_flag f ef_queue \<or> \<not> list_ex (from_queue w2) ?ts" "w' = enter_context c t w2"
    using assms(1) unfolding nt by (auto split: if_splits)
  then have "progress w2 w'"
  proof cases
    case queued
    with x ok2 show ?thesis unfolding queued(3) enqueue_def by (intro progress_context) (auto simp: context_ok_def)
  next
    case busy
    then show ?thesis using ok2(1,3) by (rule abort_thread_progress)
  next
    case enter
    define w3 where "w3 = upd_context c (\<lambda>x. x\<lparr>xThreads := xThreads x @ [t]\<rparr>) w2"
    have "from_queue w2 t \<Longrightarrow> filter (from_queue w2) ?ts = []"
      using enter(1) ok2(4) by (auto simp: filter_empty_conv list_ex_iff)
    then have "progress w2 w3"
      unfolding w3_def using x ok2 by (intro progress_context) (auto simp: context_ok_def)
    moreover have "t < length (threads w3)" using ok2(3) by (simp add: w3_def)
    then have "progress w3 w'"
      unfolding enter(2) enter_context_def w3_def [symmetric] by (auto simp: Let_def progress_related(1) split: option.split)
    ultimately show ?thesis by (rule progress_trans)
  qed
  moreover from this have "t < length (threads w')" using ok2(3) by (simp add: progress_def follows_def)
  ultimately show ?thesis using p1 p2 by (auto intro: progress_trans)
qed

lemma clearVars_progress: "progress w (clearVars c w)"
  unfolding clearVars_def by (rule progress_context) (simp add: context_ok_def)

lemma execute_progress:
  assumes "execute e c compiled src f cb w = Some (w', vs)" "world_ok w" "c < length (contexts w)"
  shows "progress w w'"
proof -
  define w1 where "w1 = (if has_flag f ef_keepvars then w else clearVars c w)"
  define g where "g = (if has_flag f ef_sourcecode then (f AND NOT ef_sourcecode) OR ef_scriptbody else f)"
  have p1: "progress w w1" by (simp add: w1_def clearVars_progress)
  then have ok1: "world_ok w1" "c < length (contexts w1)" using assms by (auto simp: progress_def follows_def)
  have u: "progress w (upd_context c (\<lambda>x. x\<lparr>xUndefined := False\<rparr>) w)" by (rule progress_context) (simp add: context_ok_def)
  show ?thesis
  proof (cases "xUndefined (ctx w c) \<or> \<not> compiled")
    case False
    then obtain w2 t r where n: "newThreadFrom e c src g cb w1 = Some (w2, t, r)"
      using assms(1) by (auto simp: execute_def Let_def simp flip: w1_def g_def split: option.splits)
    from newThreadFrom_progress [OF n ok1] have p2: "progress w1 w2" "t < length (threads w2)" by auto
    then have ok2: "world_ok w2" using ok1 by (simp add: progress_def)
    have "w' = w2 \<or> run_thread e t w2 = Some w'"
      using assms(1) False n by (cases r) (auto simp: execute_def Let_def simp flip: w1_def g_def)
    then have "progress w2 w'" using run_thread_progress ok2 p2(2) by auto
    with p1 p2 show ?thesis by (auto intro: progress_trans)
  qed (use assms(1) u in \<open>auto simp: execute_def Let_def split: if_splits\<close>)
qed

section \<open>Whatever happens\<close>

text \<open>
  What happens to contexts and their threads: code is executed or aborted, a running thread starts
  a concurrent block, calls something or is answered, or comes to its end.
\<close>

inductive context_step :: "world \<Rightarrow> world \<Rightarrow> bool" where
  execute: "c < length (contexts w) \<Longrightarrow> execute e c compiled src f cb w = Some (w', vs) \<Longrightarrow> context_step w w'"
| block: "c < length (contexts w) \<Longrightarrow> newThreadFrom e c src f cb w = Some (w1, t, True) \<Longrightarrow> run_thread e t w1 = Some w' \<Longrightarrow>
    context_step w w'"
| aborted: "c < length (contexts w) \<Longrightarrow> context_abort e c f v x w = Some (w', b) \<Longrightarrow> context_step w w'"
| source_aborted: "c < length (contexts w) \<Longrightarrow> abortThreadsRunningSource e c src v w = Some (w', b) \<Longrightarrow> context_step w w'"
| call: "context_step w (upd_thread t (\<lambda>x. x\<lparr>tChained := b\<rparr>) w)"
| ends: "t < length (threads w) \<Longrightarrow> isRunning w t \<Longrightarrow> \<not> tChained (thr w t) \<Longrightarrow> complete_thread e v t w = Some w' \<Longrightarrow>
    context_step w w'"

interpretation contexts: step_frame context_step progress world_ok
proof
  fix s t assume "context_step s t" "world_ok s"
  then show "progress s t"
  proof (induction rule: context_step.induct)
    case (block c w e src f cb w1 t w')
    from newThreadFrom_progress [OF block(2,4,1)] have "progress w w1" "t < length (threads w1)" by auto
    moreover have "progress w1 w'" using calculation block by (intro run_thread_progress [OF block(3)]) (auto simp: progress_def)
    ultimately show ?case by (blast intro: progress_trans)
  next
    case (call w t b)
    then show ?case by (intro progress_threads follows_thread) simp_all
  qed (auto intro: execute_progress context_abort_progress abortThreadsRunningSource_progress complete_progress)
qed (auto simp: progress_def intro: follows_trans)

definition idle_context :: "nat option \<Rightarrow> context_state" where
  "idle_context m = \<lparr>xMain = m, xThreads = [], xQueued = [], xRelated = [], xArgs = [], xVars = [], xHandlers = [], xUndefined = False\<rparr>"

definition idle_world :: "nat option list \<Rightarrow> world" where
  "idle_world ms = \<lparr>threads = [], contexts = map idle_context ms, delivered = []\<rparr>"

lemma idle_world_ok: "world_ok (idle_world ms)"
  by (auto simp: world_ok_def idle_world_def idle_context_def context_ok_def reports_ok_def reported_def)

text \<open>C24: Queued executions of a context run one at a time, and none waits for nothing. Whatever is executed, aborted
  or comes to its end, in whatever contexts: executions wait in the queue of a context only while it has other threads,
  of its threads at most one was started for the queue, all that wait are such, and no execution is reported twice.\<close>

theorem queued_executions_take_turns:
  assumes "context_step\<^sup>*\<^sup>* (idle_world ms) w" "c < length (contexts w)"
  shows "(xQueued (ctx w c) \<noteq> [] \<longrightarrow> xThreads (ctx w c) \<noteq> []) \<and>
     length (filter (\<lambda>t. has_flag (tFlags (thr w t)) ef_queue) (xThreads (ctx w c))) \<le> 1 \<and>
     (\<forall>t\<in>set (xQueued (ctx w c)). has_flag (tFlags (thr w t)) ef_queue) \<and> distinct (map fst (delivered w))"
proof -
  have "world_ok w" using assms(1) idle_world_ok by (rule contexts.run_ok)
  with assms(2) show ?thesis
    by (simp add: world_ok_def context_ok_def from_queue_def [abs_def] reports_ok_def list_all_iff)
qed

lemma retired_silent:
  "t \<in> set ts \<Longrightarrow> t < length (threads w) \<Longrightarrow>
     \<not> tCallback (thr (fold retire ts w) t) \<and> delivered (fold retire ts w) = delivered w"
proof (induction ts arbitrary: w)
  case (Cons s ts)
  have rd: "delivered (retire s w) = delivered w" by (simp add: retire_def)
  have d: "delivered (fold retire ts a) = delivered a" for a
    by (induction ts arbitrary: a) (simp_all add: retire_def)
  have r: "\<not> tCallback (thr (retire s w) s)" if "s < length (threads w)" using that by (simp add: retire_def)
  have k: "\<not> tCallback (thr (fold retire ts a) s)" if "\<not> tCallback (thr a s)" "s < length (threads a)" for a
    using that progress_retired(1) [of a ts] by (simp add: progress_def follows_def)
  show ?case
  proof (cases "s = t")
    case True
    then show ?thesis using k [of "retire s w"] r Cons.prems(2) d [of "retire s w"] rd by simp
  next
    case False
    then have "t \<in> set ts" "t < length (threads (retire s w))" using Cons.prems by simp_all
    from Cons.IH [OF this] rd show ?thesis by simp
  qed
qed simp

text \<open>An execution that is removed from the queue is never reported. Emptying the queue of a context aborts the
  threads in it, but aborting a thread that was not started does nothing: its completion callback is not called
  then, with the error meant for it, nor at any time later.\<close>

theorem removed_executions_never_reported:
  assumes "world_ok w" "c < length (contexts w)" "t \<in> set (xQueued (ctx w c))" "t \<notin> fst ` set (delivered w)"
    "context_abort e c f v x w = Some (w1, b)" "has_flag f ef_queue" "context_step\<^sup>*\<^sup>* w1 w2"
  shows "t \<notin> fst ` set (delivered w2)"
proof -
  define w0 where "w0 = drop_queued c w"
  have t: "t < length (threads w)" using world_ok_lists [OF assms(1,2)] assms(3) by auto
  have "\<not> tCallback (thr w0 t) \<and> t \<notin> reported w0 \<and> t < length (threads w0)"
    using retired_silent [of t "rev (xQueued (ctx w c))" w] assms(3,4) t progress_retired(1) [of w "rev (xQueued (ctx w c))"]
    by (auto simp: w0_def drop_queued_def reported_def progress_def follows_def)
  moreover have p: "progress w0 w1" "progress w w0"
    using context_abort_rest [OF assms(5,1,2), of w0] assms(6) by (simp_all add: w0_def)
  moreover have "progress w1 w2"
    using p assms(1) by (intro contexts.run_frame [OF assms(7)]) (auto simp: progress_def)
  ultimately show ?thesis by (auto simp: progress_def follows_def reported_def)
qed

text \<open>A busy context does not report that it is busy. An execution that is neither queued nor concurrent, in a
  context that has a thread, is meant to end at once with an error; the abort with that error comes before
  the thread runs and does nothing, and then the thread runs all the same, besides the
  others, without being one of the threads of the context, and nothing is reported.\<close>

theorem busy_context_runs_another_thread:
  assumes "c < length (contexts w)" "xThreads (ctx w c) \<noteq> []" "\<not> xUndefined (ctx w c)" "quick e (length (threads w)) = None"
    "\<not> has_flag f ef_queue" "\<not> has_flag f ef_concurrently" "\<not> has_flag f ef_stoprunning" "\<not> has_flag f ef_sourcecode" "has_flag f ef_keepvars"
  shows "\<exists>w'. execute e c True src f cb w = Some (w', []) \<and> isRunning w' (length (threads w)) \<and>
     xThreads (ctx w' c) = xThreads (ctx w c) \<and> delivered w' = delivered w \<and> (\<forall>t<length (threads w). thr w' t = thr w t)"
proof -
  define n where "n = \<lparr>tOwner = Some c, tFlags = f, tSource = src, tRunning = False, tCallback = cb, tChained = False\<rparr>"
  define w1 where "w1 = w\<lparr>threads := threads w @ [n]\<rparr>"
  have "newThreadFrom e c src f cb w = Some (w1, length (threads w), True)"
    using assms(2,5-7) by (simp add: newThreadFrom_def Let_def abort_thread_def isRunning_def nth_append w1_def n_def)
  then have "execute e c True src f cb w = Some (started (length (threads w)) w1, [])"
    using assms(3,4,8,9) by (simp add: execute_def Let_def run_thread_def)
  then show ?thesis by (simp add: started_def isRunning_def w1_def nth_append)
qed

text \<open>A context in which a thread runs and another waits.\<close>

definition endless :: xenv where
  "endless = \<lparr>quick = (\<lambda>_. None), answers = (\<lambda>_. True)\<rparr>"

definition one_runs :: world where
  "one_runs = fst (the (execute endless 0 True None ef_keepvars True (idle_world [None])))"

definition one_waits :: world where
  "one_waits = fst (the (execute endless 0 True None (ef_keepvars + ef_queue) True one_runs))"

lemmas flag_defs = has_flag_def ef_keepvars_def ef_queue_def ef_concurrently_def ef_stoprunning_def ef_sourcecode_def ef_stopall_def ef_mainthread_def

lemma one_runs: "execute endless 0 True None ef_keepvars True (idle_world [None]) = Some (one_runs, [])"
  "one_runs = \<lparr>threads = [\<lparr>tOwner = Some 0, tFlags = ef_keepvars, tSource = None, tRunning = True, tCallback = True, tChained = False\<rparr>],
     contexts = [(idle_context None)\<lparr>xThreads := [0]\<rparr>], delivered = []\<rparr>"
  by (simp_all add: one_runs_def execute_def idle_world_def idle_context_def newThreadFrom_def enter_context_def upd_context_def run_thread_def
      endless_def started_def upd_thread_def flag_defs Let_def)

lemma one_waits: "execute endless 0 True None (ef_keepvars + ef_queue) True one_runs = Some (one_waits, [])"
  "one_waits = \<lparr>threads = [\<lparr>tOwner = Some 0, tFlags = ef_keepvars, tSource = None, tRunning = True, tCallback = True, tChained = False\<rparr>,
      \<lparr>tOwner = Some 0, tFlags = ef_keepvars + ef_queue, tSource = None, tRunning = False, tCallback = True, tChained = False\<rparr>],
     contexts = [(idle_context None)\<lparr>xThreads := [0], xQueued := [1]\<rparr>], delivered = []\<rparr>"
  by (simp_all add: one_waits_def execute_def one_runs(2) idle_context_def newThreadFrom_def enqueue_def upd_context_def flag_defs Let_def)

lemma one_waits_reached: "context_step\<^sup>*\<^sup>* (idle_world [None]) one_waits"
proof -
  have "context_step (idle_world [None]) one_runs" by (rule context_step.execute [OF _ one_runs(1)]) (simp add: idle_world_def)
  moreover have "context_step one_runs one_waits" by (rule context_step.execute [OF _ one_waits(1)]) (simp add: one_runs(2))
  ultimately show ?thesis by (meson converse_rtranclp_into_rtranclp rtranclp.rtrancl_refl)
qed

theorem queued_executions_take_turns_witness:
  "xQueued (ctx one_waits 0) = [1] \<and> xThreads (ctx one_waits 0) \<noteq> []"
  using queued_executions_take_turns [OF one_waits_reached, of 0] by (simp add: one_waits(2))

theorem removed_executions_never_reported_witness:
  "\<exists>w b. context_abort endless 0 ef_queue None None one_waits = Some (w, b) \<and> 1 \<notin> fst ` set (delivered w)"
proof -
  have ok: "world_ok one_waits" using one_waits_reached idle_world_ok by (rule contexts.run_ok)
  obtain w b where a: "context_abort endless 0 ef_queue None None one_waits = Some (w, b)"
    using that [of "drop_queued 0 one_waits" False] by (simp add: context_abort_def flag_defs Let_def)
  have "1 \<notin> fst ` set (delivered w)"
    by (rule removed_executions_never_reported [OF ok _ _ _ a]) (simp_all add: one_waits(2) flag_defs)
  with a show ?thesis by blast
qed

theorem busy_context_runs_another_thread_witness:
  "\<exists>w. execute endless 0 True None ef_keepvars True one_runs = Some (w, []) \<and> isRunning w 0 \<and> isRunning w 1"
  using busy_context_runs_another_thread [of 0 one_runs endless ef_keepvars None True]
  by (auto simp: one_runs(2) idle_context_def endless_def flag_defs isRunning_def)

section \<open>The end of the main thread\<close>

lemma remove_thread_others: "remove_thread w t q xs = (ts, q') \<Longrightarrow> s \<in> set xs \<Longrightarrow> s \<noteq> t \<Longrightarrow> s \<in> set ts"
  by (induction w t q xs arbitrary: ts q' rule: remove_thread.induct) (auto split: if_splits prod.splits)

text \<open>When a thread with \<open>mainthread\<close> ends, its siblings are aborted without a result, which dereferences null.\<close>

theorem main_thread_end_dereferences_null:
  assumes "tOwner (thr w t) = Some c" "c < length (contexts w)" "t < length (threads w)" "has_flag (tFlags (thr w t)) ef_mainthread"
    "s \<in> set (xThreads (ctx w c))" "s \<noteq> t" "isRunning w s"
  shows "complete_thread e v t w = None"
proof -
  define w1 where "w1 = report v t w"
  define w2 where "w2 = (case xMain (ctx w1 c) of Some m \<Rightarrow> unregisterRelatedThread m t w1 | None \<Rightarrow> w1)"
  obtain ts q where r: "remove_thread w2 t False (xThreads (ctx w2 c)) = (ts, q)" by fastforce
  define w3 where "w3 = upd_context c (\<lambda>x. x\<lparr>xThreads := ts\<rparr>) w2"
  have c: "c < length (contexts w2)" "xThreads (ctx w2 c) = xThreads (ctx w c)"
    using assms(2) by (auto simp: w1_def w2_def split: option.split)
  have "isRunning w3 s"
    using assms(3,6,7) by (auto simp: w3_def w2_def w1_def isRunning_def report_def Let_def split: option.split)
  moreover have "s \<in> set ts" using remove_thread_others [OF r] c(2) assms(5,6) by simp
  ultimately have "list_ex (isRunning w3) (aborted_threads w3 c)"
    using c(1) by (auto simp: aborted_threads_def w3_def list_ex_iff)
  then have "thread_ended c t (tFlags (thr w t)) w1 = None"
    using assms(4) by (simp add: thread_ended_def r Let_def flip: w2_def w3_def)
  then show ?thesis
    using assms(1,2) by (simp add: complete_thread.simps [of e v t w] Let_def flip: w1_def)
qed

end
