(* ===== verification/ScriptTrigger.thy ===== *)
theory ScriptTrigger
  imports ScriptProc TimeBase
begin

text \<open>
  The triggers of the script engine (\<open>CompiledTrigger\<close> of \<open>p44script.cpp\<close>): what an event, the timer
  or the result of an evaluation does to a trigger, frozen values, and when the next evaluation is due. The
  evaluation itself is a thread; here it begins with its flags and ends with its result. The
  re-evaluation timer is the time and the flags it was set with.
\<close>

section \<open>The state\<close>

datatype trigger_mode = inactive | onGettingTrue | onChangingBool | onChange | onEvaluation | onChangingBoolRisingHoldoffOnly

fun trigger_mode_of :: "TriggerMode \<Rightarrow> trigger_mode" where
  "trigger_mode_of tm_onGettingTrue = onGettingTrue"
| "trigger_mode_of tm_onChangingBool = onChangingBool"
| "trigger_mode_of tm_onChange = onChange"
| "trigger_mode_of tm_onEvaluation = onEvaluation"

text \<open>\<open>Tristate\<close>; as a condition in C++ all but \<open>no\<close> (which is 0) count as true.\<close>

datatype tristate = undefined_state | no | yes

definition tri_true :: "tristate \<Rightarrow> bool" where
  "tri_true s \<longleftrightarrow> s \<noteq> no"

record frozen_result =
  mFrozenResult :: val
  mFrozenUntil :: time

record trigger =
  mTriggerCB :: bool
  mTriggerMode :: trigger_mode
  mEvalFlags :: u32
  mCurrentResult :: "val option"
  mBoolState :: tristate
  mMostRecentEvaluation :: time
  mNextEvaluation :: time
  mOneShotEval :: bool
  mFrozenEventValue :: "val option"
  mFrozenEventPos :: nat
  mFrozenResults :: "(nat \<times> frozen_result) list"
  mReEvaluation :: "(time \<times> u32) option"
  mHoldOff :: time
  mMetAt :: time
  mSources :: "nat list"

definition ef_initial :: u32 where "ef_initial = 0x02"
definition ef_triggered :: u32 where "ef_triggered = 0x04"
definition ef_timed :: u32 where "ef_timed = 0x08"

definition new_trigger :: trigger where
  "new_trigger =
     \<lparr>mTriggerCB = False, mTriggerMode = inactive, mEvalFlags = ef_expression OR ef_synchronously, mCurrentResult = None,
      mBoolState = undefined_state, mMostRecentEvaluation = Never, mNextEvaluation = Never, mOneShotEval = False,
      mFrozenEventValue = None, mFrozenEventPos = 0, mFrozenResults = [], mReEvaluation = None, mHoldOff = 0, mMetAt = Never,
      mSources = []\<rparr>"

definition setTriggerMode :: "trigger_mode \<Rightarrow> time \<Rightarrow> trigger \<Rightarrow> trigger" where
  "setTriggerMode m h t = t\<lparr>mTriggerMode := m, mHoldOff := h\<rparr>"

definition isActive :: "trigger \<Rightarrow> bool" where
  "isActive t \<longleftrightarrow> mTriggerCB t \<and> mTriggerMode t \<noteq> inactive"

definition currentResult :: "trigger \<Rightarrow> val" where
  "currentResult t = (case mCurrentResult t of Some v \<Rightarrow> v | None \<Rightarrow> VNull ''trigger never evaluated'')"

definition boolState :: "bool \<Rightarrow> trigger \<Rightarrow> tristate" where
  "boolState ignore_holdoff t = (if ignore_holdoff \<or> mMetAt t = Never then mBoolState t else undefined_state)"

definition invalidateState :: "trigger \<Rightarrow> trigger" where
  "invalidateState t = t\<lparr>mBoolState := undefined_state, mCurrentResult := None\<rparr>"

definition trigger_deactivate :: "trigger \<Rightarrow> trigger" where
  "trigger_deactivate t =
     t\<lparr>mTriggerCB := False, mReEvaluation := None, mFrozenResults := [], mCurrentResult := None, mSources := []\<rparr>"

section \<open>The next evaluation\<close>

definition updateNextEval :: "time \<Rightarrow> trigger \<Rightarrow> trigger \<times> bool" where
  "updateNextEval latest t =
     (if \<not> DEFINED_TIME latest then (t, False)
      else if \<not> DEFINED_TIME (mNextEvaluation t) \<or> latest < mNextEvaluation t
      then if latest \<le> mMostRecentEvaluation t
           then if mNextEvaluation t = Never \<or> mNextEvaluation t > mMostRecentEvaluation t + 10 * Second
                then (t\<lparr>mNextEvaluation := mMostRecentEvaluation t + 10 * Second\<rparr>, True)
                else (t, False)
           else (t\<lparr>mNextEvaluation := latest\<rparr>, True)
      else (t, False))"

definition scheduleNextEval :: "u32 \<Rightarrow> trigger \<Rightarrow> trigger" where
  "scheduleNextEval f t =
     (if mNextEvaluation t \<noteq> Never then t\<lparr>mReEvaluation := Some (mNextEvaluation t, f), mNextEvaluation := Never\<rparr> else t)"

definition scheduleEvalNotLaterThan :: "time \<Rightarrow> trigger \<Rightarrow> trigger" where
  "scheduleEvalNotLaterThan latest t =
     (let (u, updated) = updateNextEval latest t in if updated then scheduleNextEval ef_timed u else u)"

section \<open>Beginning an evaluation\<close>

definition triggerEvaluation :: "time \<Rightarrow> u32 \<Rightarrow> trigger \<Rightarrow> trigger \<times> u32" where
  "triggerEvaluation now mode t =
     (t\<lparr>mReEvaluation := None, mNextEvaluation := Never, mMostRecentEvaluation := now, mOneShotEval := False\<rparr>,
      (if mode AND NOT ef_runModeMask \<noteq> 0 then mode else (mEvalFlags t AND NOT ef_runModeMask) OR mode) OR ef_keepvars)"

text \<open>An event: the evaluation begins, with the flags given, or is postponed.\<close>

definition processEvent :: "time \<Rightarrow> val option \<Rightarrow> nat \<Rightarrow> trigger \<Rightarrow> trigger \<times> u32 option" where
  "processEvent now event reg t0 =
     (let t = (if reg \<noteq> 0 then t0\<lparr>mFrozenEventPos := reg, mFrozenEventValue := event\<rparr> else t0);
          earliest = mMostRecentEvaluation t + mHoldOff t
      in if mHoldOff t > 0 \<and> mMostRecentEvaluation t \<noteq> Never \<and> now < earliest
         then (scheduleNextEval (ef_triggered OR ef_timed) (fst (updateNextEval earliest t)), None)
         else map_prod id Some (triggerEvaluation now ef_triggered t))"

text \<open>The timer, when it is due.\<close>

definition timerFired :: "time \<Rightarrow> trigger \<Rightarrow> trigger \<times> u32 option" where
  "timerFired now t =
     (case mReEvaluation t of None \<Rightarrow> (t, None) | Some (_, f) \<Rightarrow> map_prod id Some (triggerEvaluation now f t))"

text \<open>
  \<open>initializeTrigger\<close>: the evaluation that begins, with its flags; a synchronous one does not go through
  \<open>triggerEvaluation\<close>.
\<close>

definition initializeTrigger :: "time \<Rightarrow> time \<Rightarrow> trigger \<Rightarrow> trigger \<times> u32" where
  "initializeTrigger now now2 t0 =
     (let t = t0\<lparr>mReEvaluation := None, mNextEvaluation := Never, mMostRecentEvaluation := now, mFrozenResults := [], mSources := []\<rparr>;
          f = (mEvalFlags t AND NOT ef_runModeMask) OR ef_initial OR ef_keepvars
      in if has_flag (mEvalFlags t) ef_synchronously then (t, f) else triggerEvaluation now2 f t)"

section \<open>Frozen values\<close>

definition frozen :: "time \<Rightarrow> frozen_result \<Rightarrow> bool" where
  "frozen now r \<longleftrightarrow> mFrozenUntil r = Infinite \<or> (DEFINED_TIME (mFrozenUntil r) \<and> mFrozenUntil r > now)"

fun fr_set :: "nat \<Rightarrow> frozen_result \<Rightarrow> (nat \<times> frozen_result) list \<Rightarrow> (nat \<times> frozen_result) list" where
  "fr_set k v [] = [(k, v)]"
| "fr_set k v ((k', w) # m) =
     (if k < k' then (k, v) # (k', w) # m else if k = k' then (k, v) # m else (k', w) # fr_set k v m)"

text \<open>For a leaf value in a triggered evaluation: the value to use.\<close>

definition checkFrozenEventValue :: "val option \<Rightarrow> nat \<Rightarrow> trigger \<Rightarrow> (trigger \<times> val option) option" where
  "checkFrozenEventValue r pos t =
     (case r of
        None \<Rightarrow> None
      | Some v \<Rightarrow>
          Some (if hasType v ti_oneshot then t\<lparr>mOneShotEval := True\<rparr> else t,
                if pos = mFrozenEventPos t then mFrozenEventValue t else r))"

text \<open>The frozen result at a position, if any, and the value; one that has expired is marked.\<close>

definition getTimeFrozenValue :: "time \<Rightarrow> val \<Rightarrow> nat \<Rightarrow> trigger \<Rightarrow> trigger \<times> val \<times> frozen_result option" where
  "getTimeFrozenValue now v pos t =
     (case map_of (mFrozenResults t) pos of
        None \<Rightarrow> (t, v, None)
      | Some r \<Rightarrow>
          let r' = (if frozen now r then r else r\<lparr>mFrozenUntil := Never\<rparr>)
          in (t\<lparr>mFrozenResults := fr_set pos r' (mFrozenResults t)\<rparr>, mFrozenResult r, Some r'))"

definition newTimedFreeze :: "time \<Rightarrow> frozen_result option \<Rightarrow> val \<Rightarrow> nat \<Rightarrow> time \<Rightarrow> bool \<Rightarrow> trigger \<Rightarrow> trigger" where
  "newTimedFreeze now existing v pos until update t =
     (case existing of
        None \<Rightarrow> t\<lparr>mFrozenResults := fr_set pos \<lparr>mFrozenResult = v, mFrozenUntil = until\<rparr> (mFrozenResults t)\<rparr>
      | Some r \<Rightarrow>
          if \<not> frozen now r \<or> update \<or> until = Never
          then t\<lparr>mFrozenResults := fr_set pos \<lparr>mFrozenResult = v, mFrozenUntil = until\<rparr> (mFrozenResults t)\<rparr>
          else t)"

definition unfreezeTimed :: "nat \<Rightarrow> trigger \<Rightarrow> trigger \<times> bool" where
  "unfreezeTimed pos t =
     (if map_of (mFrozenResults t) pos = None then (t, False)
      else (t\<lparr>mFrozenResults := filter (\<lambda>p. fst p \<noteq> pos) (mFrozenResults t)\<rparr>, True))"

section \<open>The result of an evaluation\<close>

text \<open>
  Whether the trigger is to fire, before the hold-off is looked at; the comparison of values has no
  result for cyclic ones. A change of the boolean state ends a running hold-off and reports nothing.
\<close>

definition bool_of_result :: "scriptenv \<Rightarrow> val \<Rightarrow> tristate" where
  "bool_of_result e v = (if defined_val v then if boolValue e v then yes else no else undefined_state)"

definition wants_to_fire :: "scriptenv \<Rightarrow> heap \<Rightarrow> val \<Rightarrow> trigger \<Rightarrow> (bool \<times> trigger) option" where
  "wants_to_fire e h v t =
     (if mTriggerMode t = onEvaluation then Some (True, t)
      else if mTriggerMode t = onChange then map_option (\<lambda>d. (d, t)) (val_neq e h v (currentResult t))
      else let s = bool_of_result e v
           in if mBoolState t = s then Some (False, t)
              else if mMetAt t \<noteq> Never then Some (False, t\<lparr>mMetAt := Never\<rparr>)
              else Some (\<not> (s \<noteq> yes \<and> mTriggerMode t = onGettingTrue), t))"

text \<open>The new state and the hold-off; \<open>fire\<close> is the wish to fire, the result what is left of it.\<close>

definition after_holdoff :: "time \<Rightarrow> u32 \<Rightarrow> tristate \<Rightarrow> bool \<Rightarrow> trigger \<Rightarrow> bool \<times> trigger" where
  "after_holdoff now f s fire t0 =
     (let t = t0\<lparr>mBoolState := s\<rparr>
      in if mHoldOff t > 0 \<and> \<not> has_flag f ef_initial
         then if fire \<and> (mTriggerMode t = onChangingBool \<or> tri_true s)
              then let due = now + mHoldOff t in (False, fst (updateNextEval due (t\<lparr>mMetAt := due\<rparr>)))
              else if mMetAt t \<noteq> Never
              then if now \<ge> mMetAt t then (True, t\<lparr>mMetAt := Never\<rparr>)
                   else (fire, fst (updateNextEval (mMetAt t) t))
              else (fire, t)
         else (fire, t))"

text \<open>The frozen results: the ones marked as expired go, and the next evaluation is due when the first of the others ends.\<close>

fun unfreeze_times :: "time \<Rightarrow> (nat \<times> frozen_result) list \<Rightarrow> trigger \<Rightarrow> (nat \<times> frozen_result) list \<times> trigger" where
  "unfreeze_times now [] t = ([], t)"
| "unfreeze_times now ((k, r) # m) t =
     (if mFrozenUntil r = Never then unfreeze_times now m t
      else let u = (if mFrozenUntil r < now then now + 30 * Second else mFrozenUntil r);
               (m', t') = unfreeze_times now m (fst (updateNextEval u t))
           in ((k, r) # m', t'))"

text \<open>An error that is not fatal counts as caught; the error object is the one the callback gets, too.\<close>

fun treated_as_caught :: "val \<Rightarrow> val" where
  "treated_as_caught (VErr er k p) = VErr er (\<not> err_isFatal er) p"
| "treated_as_caught v = v"

text \<open>
  \<open>triggerDidEvaluate\<close>, with the two readings of the clock. The result has the trigger, the heap, and
  what the callback is called with. A result that is null is dereferenced.
\<close>

definition triggerDidEvaluate ::
  "scriptenv \<Rightarrow> time \<Rightarrow> time \<Rightarrow> u32 \<Rightarrow> val option \<Rightarrow> heap \<Rightarrow> trigger \<Rightarrow> (trigger \<times> heap \<times> val option) option" where
  "triggerDidEvaluate e now now2 f r h t0 =
     (case r of
        None \<Rightarrow> None
      | Some v \<Rightarrow>
          do {
            (fire, t1) \<leftarrow> wants_to_fire e h v t0;
            let (fire, t2) = (if mOneShotEval t1 \<or> (has_flag f ef_initial \<and> hasType v ti_oneshot) then (fire, invalidateState t1)
                              else after_holdoff now f (bool_of_result e v) fire t1);
            (h', c) \<leftarrow> assignmentValue h v;
            let (fr, t3) = unfreeze_times now2 (mFrozenResults t2) (t2\<lparr>mCurrentResult := Some (treated_as_caught c)\<rparr>);
            let t4 = t3\<lparr>mFrozenResults := fr\<rparr>;
            let t5 = (if mNextEvaluation t4 = Never \<and> mSources t4 = [] then invalidateState t4 else t4);
            let t6 = scheduleNextEval ef_timed (t5\<lparr>mFrozenEventValue := None, mFrozenEventPos := 0, mOneShotEval := False\<rparr>);
            Some (t6, h', if fire \<and> mTriggerCB t6 then Some (treated_as_caught v) else None)
          })"

end
