(* ===== verification/TriggerLaws.thy ===== *)
theory TriggerLaws
  imports ScriptTrigger
begin

text \<open>
  When triggers fire: at the rising edges of their condition; with a hold-off, only after all evaluations
  in that time have given the same state; and where a hold-off does not do what it is for.
\<close>

section \<open>What scheduling leaves alone\<close>

text \<open>The parts of a trigger that decide about firing.\<close>

definition decides :: "trigger \<Rightarrow> bool \<times> trigger_mode \<times> time \<times> nat list" where
  "decides t = (mTriggerCB t, mTriggerMode t, mHoldOff t, mSources t)"

definition state_of :: "trigger \<Rightarrow> tristate \<times> time" where
  "state_of t = (mBoolState t, mMetAt t)"

lemma update_simps [simp]:
  "decides (fst (updateNextEval u t)) = decides t" "state_of (fst (updateNextEval u t)) = state_of t"
  "mOneShotEval (fst (updateNextEval u t)) = mOneShotEval t" "mMostRecentEvaluation (fst (updateNextEval u t)) = mMostRecentEvaluation t"
  by (simp_all add: updateNextEval_def decides_def state_of_def)

lemma schedule_next_simps [simp]:
  "decides (scheduleNextEval f t) = decides t" "state_of (scheduleNextEval f t) = state_of t"
  "mOneShotEval (scheduleNextEval f t) = mOneShotEval t" "mMostRecentEvaluation (scheduleNextEval f t) = mMostRecentEvaluation t"
  by (simp_all add: scheduleNextEval_def decides_def state_of_def)

lemma unfreeze_simps [simp]:
  "decides (snd (unfreeze_times now m t)) = decides t" "state_of (snd (unfreeze_times now m t)) = state_of t"
  by (induction now m t rule: unfreeze_times.induct) (auto simp: Let_def split: prod.split)

lemma evaluation_simps [simp]:
  "decides (fst (triggerEvaluation now f t)) = decides t" "state_of (fst (triggerEvaluation now f t)) = state_of t"
  "\<not> mOneShotEval (fst (triggerEvaluation now f t))"
  by (simp_all add: triggerEvaluation_def decides_def state_of_def)

text \<open>An evaluation that is neither the initial one nor a one-shot, of a trigger with event sources.\<close>

lemma did_evaluate:
  assumes "triggerDidEvaluate e now now2 f (Some v) h t = Some (t', h', fired)"
    "\<not> mOneShotEval t" "\<not> has_flag f ef_initial" "mSources t \<noteq> []"
  shows "\<exists>fire t1 fire' t2. wants_to_fire e h v t = Some (fire, t1) \<and> after_holdoff now f (bool_of_result e v) fire t1 = (fire', t2) \<and>
     decides t' = decides t2 \<and> state_of t' = state_of t2 \<and> \<not> mOneShotEval t' \<and>
     fired = (if fire' \<and> mTriggerCB t then Some (treated_as_caught v) else None)"
proof -
  from assms(1) obtain fire t1 where w: "wants_to_fire e h v t = Some (fire, t1)"
    by (cases "wants_to_fire e h v t") (auto simp: triggerDidEvaluate_def)
  obtain fire' t2 where a: "after_holdoff now f (bool_of_result e v) fire t1 = (fire', t2)" by fastforce
  obtain h1 c where c: "assignmentValue h v = Some (h1, c)"
    using assms(1) w by (cases "assignmentValue h v") (auto simp: triggerDidEvaluate_def a Let_def split: prod.splits)
  define t3 where "t3 = t2\<lparr>mCurrentResult := Some (treated_as_caught c)\<rparr>"
  obtain fr t4 where u: "unfreeze_times now2 (mFrozenResults t2) t3 = (fr, t4)" by fastforce
  have t1: "decides t1 = decides t" "mOneShotEval t1 = mOneShotEval t"
    using w by (auto simp: wants_to_fire_def decides_def Let_def split: if_splits)
  have t2: "decides t2 = decides t1"
    using a update_simps(1) by (auto simp: after_holdoff_def Let_def decides_def split: if_splits)
  have t4: "decides t4 = decides t2" "state_of t4 = state_of t2"
    using unfreeze_simps [of now2 "mFrozenResults t2" t3] u by (simp_all add: t3_def decides_def state_of_def)
  have s: "mSources t4 \<noteq> []" "mTriggerCB t4 = mTriggerCB t" using t1 t2 t4 assms(4) by (auto simp: decides_def)
  have o: "\<not> (mOneShotEval t1 \<or> has_flag f ef_initial \<and> hasType v ti_oneshot)" using t1 assms(2,3) by simp
  define t5 where "t5 = t4\<lparr>mFrozenResults := fr\<rparr>\<lparr>mFrozenEventValue := None, mFrozenEventPos := 0, mOneShotEval := False\<rparr>"
  have r: "t' = scheduleNextEval ef_timed t5" "fired = (if fire' \<and> mTriggerCB t then Some (treated_as_caught v) else None)"
  proof -
    have "mTriggerCB (scheduleNextEval ef_timed t5) = mTriggerCB t" using s(2) by (simp add: t5_def scheduleNextEval_def)
    then show "t' = scheduleNextEval ef_timed t5" "fired = (if fire' \<and> mTriggerCB t then Some (treated_as_caught v) else None)"
      using assms(1) w o c s(1) u by (auto simp: triggerDidEvaluate_def a t3_def t5_def Let_def)
  qed
  have "decides t5 = decides t4" "state_of t5 = state_of t4" by (simp_all add: t5_def decides_def state_of_def)
  then have "decides t' = decides t2" "state_of t' = state_of t2" using t4 r(1) by simp_all
  moreover have "\<not> mOneShotEval t'" by (simp add: r(1)) (simp add: t5_def)
  ultimately show ?thesis using w a r(2) by blast
qed

section \<open>Runs of evaluations\<close>

text \<open>
  One evaluation after the other, each begun at a time in a mode (timed or triggered) and with its result;
  in the end, what fired and when. \<open>None\<close> when a result could not be compared or copied.
\<close>

type_synonym evaluation = "time \<times> u32 \<times> val"

fun evaluations :: "scriptenv \<Rightarrow> evaluation list \<Rightarrow> heap \<Rightarrow> trigger \<Rightarrow> (trigger \<times> heap \<times> (time \<times> val) list) option" where
  "evaluations e [] h t = Some (t, h, [])"
| "evaluations e ((now, mode, v) # evs) h t =
     (let (t1, f) = triggerEvaluation now mode t
      in case triggerDidEvaluate e now now f (Some v) h t1 of
           None \<Rightarrow> None
         | Some (t2, h2, fired) \<Rightarrow>
             map_option (\<lambda>(t3, h3, fs). (t3, h3, (case fired of Some w \<Rightarrow> [(now, w)] | None \<Rightarrow> []) @ fs)) (evaluations e evs h2 t2))"

text \<open>Evaluations by event or timer, with the flags kept in the trigger.\<close>

definition regular_evaluation :: "evaluation \<Rightarrow> bool" where
  "regular_evaluation ev \<longleftrightarrow> fst (snd ev) \<in> {ef_triggered, ef_timed, ef_triggered OR ef_timed}"

lemma regular_flags:
  "regular_evaluation (now, mode, v) \<Longrightarrow> \<not> has_flag (snd (triggerEvaluation now mode u)) ef_initial"
proof -
  assume "regular_evaluation (now, mode, v)"
  then have m: "mode \<in> {ef_triggered, ef_timed, ef_triggered OR ef_timed}" by (simp add: regular_evaluation_def)
  have "mode AND ef_initial = 0" "mode AND NOT ef_runModeMask = 0" using m by (auto simp: ef_triggered_def ef_timed_def ef_initial_def ef_runModeMask_def)
  moreover have "(a AND NOT ef_runModeMask) AND ef_initial = 0" for a :: u32
  proof -
    have "NOT ef_runModeMask AND ef_initial = 0" by (simp add: ef_runModeMask_def ef_initial_def)
    then show ?thesis by (simp add: and.assoc)
  qed
  moreover have "ef_keepvars AND ef_initial = 0" by (simp add: ef_keepvars_def ef_initial_def)
  ultimately show ?thesis by (simp add: triggerEvaluation_def has_flag_def bit.conj_disj_distrib2)
qed

lemma evaluations_Cons:
  assumes "evaluations e ((now, mode, v) # evs) h t = Some (t', h', fs)" "regular_evaluation (now, mode, v)" "mSources t \<noteq> []"
  obtains fire t1 fire' t2 u h2 gs f where
    "wants_to_fire e h v (fst (triggerEvaluation now mode t)) = Some (fire, t1)" "\<not> has_flag f ef_initial"
    "after_holdoff now f (bool_of_result e v) fire t1 = (fire', t2)" "decides u = decides t2" "state_of u = state_of t2"
    "evaluations e evs h2 u = Some (t', h', gs)"
    "fs = (if fire' \<and> mTriggerCB t then [(now, treated_as_caught v)] else []) @ gs"
proof -
  obtain b f where b: "triggerEvaluation now mode t = (b, f)" by fastforce
  from assms(1) b obtain u h2 fired gs where d: "triggerDidEvaluate e now now f (Some v) h b = Some (u, h2, fired)"
    "evaluations e evs h2 u = Some (t', h', gs)" "fs = (case fired of Some w \<Rightarrow> [(now, w)] | None \<Rightarrow> []) @ gs"
    by (auto split: option.splits)
  have f: "\<not> has_flag f ef_initial" using regular_flags [OF assms(2), of t] b by simp
  have bt: "decides b = decides t" "\<not> mOneShotEval b" using evaluation_simps [of now mode t] b by simp_all
  then have "mSources b \<noteq> []" "mTriggerCB b = mTriggerCB t" using assms(3) by (simp_all add: decides_def)
  with did_evaluate [OF d(1) bt(2) f] that d(2,3) f b show thesis by (auto split: if_splits)
qed

section \<open>Rising edges\<close>

text \<open>
  Any evaluation of a trigger: by \<open>initializeTrigger\<close> or by event or timer, at a time; what the evaluation
  itself does to the trigger (whether it met a one-shot value, the event sources it found, the frozen
  results it left), and its result.
\<close>

datatype begun = Initial | Regular u32

record any_evaluation =
  evNow :: time
  evBegun :: begun
  evOneShot :: bool
  evSources :: "nat list"
  evFrozen :: "(nat \<times> frozen_result) list"
  evResult :: val

definition begin_evaluation :: "any_evaluation \<Rightarrow> trigger \<Rightarrow> trigger \<times> u32" where
  "begin_evaluation ev t =
     (case evBegun ev of Initial \<Rightarrow> initializeTrigger (evNow ev) (evNow ev) t | Regular mode \<Rightarrow> triggerEvaluation (evNow ev) mode t)"

definition evaluate :: "any_evaluation \<Rightarrow> trigger \<Rightarrow> trigger" where
  "evaluate ev t =
     t\<lparr>mOneShotEval := mOneShotEval t \<or> evOneShot ev, mSources := mSources t @ evSources ev, mFrozenResults := evFrozen ev\<rparr>"

fun trigger_run :: "scriptenv \<Rightarrow> any_evaluation list \<Rightarrow> heap \<Rightarrow> trigger \<Rightarrow> (trigger \<times> heap \<times> (time \<times> val) list) option" where
  "trigger_run e [] h t = Some (t, h, [])"
| "trigger_run e (ev # evs) h t =
     (let (t1, f) = begin_evaluation ev t
      in case triggerDidEvaluate e (evNow ev) (evNow ev) f (Some (evResult ev)) h (evaluate ev t1) of
           None \<Rightarrow> None
         | Some (t2, h2, fired) \<Rightarrow>
             map_option (\<lambda>(t3, h3, fs). (t3, h3, (case fired of Some w \<Rightarrow> [(evNow ev, w)] | None \<Rightarrow> []) @ fs)) (trigger_run e evs h2 t2))"

definition one_shot_result :: "any_evaluation \<Rightarrow> bool" where
  "one_shot_result ev \<longleftrightarrow> evOneShot ev \<or> (evBegun ev = Initial \<and> hasType (evResult ev) ti_oneshot)"

text \<open>Regular evaluations are by event or timer; an initial one looks for the event sources anew.\<close>

definition ordinary :: "any_evaluation \<Rightarrow> bool" where
  "ordinary ev \<longleftrightarrow>
     (case evBegun ev of Initial \<Rightarrow> evSources ev \<noteq> [] | Regular mode \<Rightarrow> regular_evaluation (evNow ev, mode, evResult ev))"

lemma initial_flags: "evBegun ev = Initial \<Longrightarrow> has_flag (snd (begin_evaluation ev t)) ef_initial"
proof -
  have o: "(a OR 0x02 OR b) AND 0x02 \<noteq> 0" "(a OR 0x02) AND 0x02 \<noteq> 0" for a b :: u32
    by (simp_all add: bit.conj_disj_distrib2 or_eq_0_iff)
  assume "evBegun ev = Initial"
  then show ?thesis
    using o by (simp add: begin_evaluation_def initializeTrigger_def triggerEvaluation_def has_flag_def ef_initial_def or.assoc or.left_commute Let_def)
qed

lemma begin_simps:
  assumes "ordinary ev" "mSources t \<noteq> []" "\<not> mOneShotEval t" "begin_evaluation ev t = (b, f)"
  shows "mBoolState b = mBoolState t" "mMetAt b = mMetAt t" "mTriggerMode b = mTriggerMode t" "mTriggerCB b = mTriggerCB t"
    "mHoldOff b = mHoldOff t" "\<not> mOneShotEval b" "mSources b @ evSources ev \<noteq> []" "has_flag f ef_initial = (evBegun ev = Initial)"
proof -
  show "mBoolState b = mBoolState t" "mMetAt b = mMetAt t" "mTriggerMode b = mTriggerMode t" "mTriggerCB b = mTriggerCB t"
    "mHoldOff b = mHoldOff t" "\<not> mOneShotEval b" "mSources b @ evSources ev \<noteq> []"
    using assms by (auto simp: begin_evaluation_def initializeTrigger_def triggerEvaluation_def ordinary_def Let_def
        split: begun.splits if_splits)
  show "has_flag f ef_initial = (evBegun ev = Initial)"
  proof (cases "evBegun ev")
    case Initial
    then show ?thesis using initial_flags [of ev t] assms(4) by simp
  next
    case (Regular mode)
    then show ?thesis
      using assms(1,4) regular_flags [of "evNow ev" mode "evResult ev" t] by (simp add: ordinary_def begin_evaluation_def)
  qed
qed

lemma edge_evaluation:
  assumes "triggerDidEvaluate e now now2 f (Some v) h t = Some (t', h', fired)" "mTriggerMode t = onGettingTrue"
    "mHoldOff t = 0" "mMetAt t = Never" "mSources t \<noteq> []"
  shows "mBoolState t' = (if mOneShotEval t \<or> (has_flag f ef_initial \<and> hasType v ti_oneshot) then undefined_state else bool_of_result e v) \<and>
    mMetAt t' = Never \<and> decides t' = decides t \<and> \<not> mOneShotEval t' \<and>
    fired = (if bool_of_result e v = yes \<and> mBoolState t \<noteq> yes \<and> mTriggerCB t then Some (treated_as_caught v) else None)"
proof -
  define shot where "shot = (mOneShotEval t \<or> (has_flag f ef_initial \<and> hasType v ti_oneshot))"
  define t2 where "t2 = (if shot then invalidateState t else t\<lparr>mBoolState := bool_of_result e v\<rparr>)"
  have w: "wants_to_fire e h v t = Some (bool_of_result e v = yes \<and> mBoolState t \<noteq> yes, t)"
    using assms(2,4) by (auto simp: wants_to_fire_def Let_def)
  have a: "(if shot then (fire, invalidateState t) else after_holdoff now f (bool_of_result e v) fire t) = (fire, t2)" for fire
    using assms(3) by (simp add: t2_def after_holdoff_def Let_def)
  obtain h1 c where c: "assignmentValue h v = Some (h1, c)"
    using assms(1) w by (cases "assignmentValue h v") (auto simp: triggerDidEvaluate_def shot_def [symmetric] a Let_def)
  define t3 where "t3 = t2\<lparr>mCurrentResult := Some (treated_as_caught c)\<rparr>"
  obtain fr t4 where u: "unfreeze_times now2 (mFrozenResults t2) t3 = (fr, t4)" by fastforce
  have t4: "decides t4 = decides t" "state_of t4 = (if shot then undefined_state else bool_of_result e v, Never)"
    using unfreeze_simps [of now2 "mFrozenResults t2" t3] u assms(4)
    by (simp_all add: t3_def t2_def decides_def state_of_def invalidateState_def)
  then have s: "mSources t4 \<noteq> []" "mTriggerCB t4 = mTriggerCB t" using assms(5) by (simp_all add: decides_def)
  define t5 where "t5 = t4\<lparr>mFrozenResults := fr, mFrozenEventValue := None, mFrozenEventPos := 0, mOneShotEval := False\<rparr>"
  have t5: "decides t5 = decides t4" "state_of t5 = state_of t4" "\<not> mOneShotEval t5" "mTriggerCB (scheduleNextEval ef_timed t5) = mTriggerCB t"
    using s(2) by (simp_all add: t5_def decides_def state_of_def scheduleNextEval_def)
  have r: "t' = scheduleNextEval ef_timed t5"
    "fired = (if bool_of_result e v = yes \<and> mBoolState t \<noteq> yes \<and> mTriggerCB t then Some (treated_as_caught v) else None)"
    using assms(1) w c s(1) u t5(4) by (auto simp: triggerDidEvaluate_def shot_def [symmetric] a t3_def t5_def Let_def)
  have "decides t' = decides t" "state_of t' = (if shot then undefined_state else bool_of_result e v, Never)" "\<not> mOneShotEval t'"
    using t5 t4 by (simp_all add: r(1))
  then show ?thesis using r(2) by (simp add: state_of_def shot_def)
qed

text \<open>The times at which the condition turns true, from a state on; a one-shot result leaves no state.\<close>

fun rising :: "scriptenv \<Rightarrow> tristate \<Rightarrow> any_evaluation list \<Rightarrow> time list" where
  "rising e s [] = []"
| "rising e s (ev # evs) =
     (let b = bool_of_result e (evResult ev)
      in (if b = yes \<and> s \<noteq> yes then [evNow ev] else []) @ rising e (if one_shot_result ev then undefined_state else b) evs)"

text \<open>C11: A trigger with event sources and without hold-off that waits for its condition getting true fires
  exactly at the evaluations, initial ones included, at which the condition turns true: not while it
  stays true, and not when it turns false or undefined. After an evaluation that meets a one-shot value
  the state counts as undefined, so that the next evaluation giving true fires again.\<close>

theorem fires_at_rising_edges:
  assumes "trigger_run e evs h t = Some (t', h', fs)" "list_all ordinary evs" "mTriggerMode t = onGettingTrue"
    "mHoldOff t = 0" "mMetAt t = Never" "mSources t \<noteq> []" "mTriggerCB t" "\<not> mOneShotEval t"
  shows "map fst fs = rising e (mBoolState t) evs"
  using assms
proof (induction evs arbitrary: h t fs)
  case (Cons ev evs)
  have o: "ordinary ev" "list_all ordinary evs" using Cons.prems(2) by simp_all
  obtain b f where b: "begin_evaluation ev t = (b, f)" by fastforce
  note bs = begin_simps [OF o(1) Cons.prems(6,8) b]
  obtain u h2 fired gs where d: "triggerDidEvaluate e (evNow ev) (evNow ev) f (Some (evResult ev)) h (evaluate ev b) = Some (u, h2, fired)"
    "trigger_run e evs h2 u = Some (t', h', gs)" "fs = (case fired of Some w \<Rightarrow> [(evNow ev, w)] | None \<Rightarrow> []) @ gs"
    using Cons.prems(1) b by (auto split: option.splits)
  have ev: "mTriggerMode (evaluate ev b) = onGettingTrue" "mHoldOff (evaluate ev b) = 0" "mMetAt (evaluate ev b) = Never"
    "mSources (evaluate ev b) \<noteq> []"
    using bs Cons.prems by (simp_all add: evaluate_def)
  note x = edge_evaluation [OF d(1) ev]
  then have u: "mTriggerMode u = onGettingTrue" "mHoldOff u = 0" "mMetAt u = Never" "mSources u \<noteq> []" "mTriggerCB u" "\<not> mOneShotEval u"
    using ev bs(4) Cons.prems(7) by (simp_all add: decides_def evaluate_def)
  from Cons.IH [OF d(2) o(2) u] x d(3) bs Cons.prems(7) show ?case
    by (auto simp: evaluate_def one_shot_result_def Let_def)
qed simp

text \<open>A trigger for the witnesses: with an event source, its callback set.\<close>

definition sample_trigger :: "trigger_mode \<Rightarrow> time \<Rightarrow> trigger" where
  "sample_trigger m h = (setTriggerMode m h new_trigger)\<lparr>mTriggerCB := True, mSources := [1]\<rparr>"

definition sample_env :: scriptenv where
  "sample_env = \<lparr>senv = \<lparr>eyear = 2024, ejunk = 0\<rparr>, json_str = \<lambda>_. []\<rparr>"

lemmas sample_run = sample_trigger_def new_trigger_def setTriggerMode_def triggerEvaluation_def triggerDidEvaluate_def
  wants_to_fire_def after_holdoff_def updateNextEval_def scheduleNextEval_def bool_of_result_def

text \<open>A condition that is initially true, stays true, gets false, then meets a one-shot value twice.\<close>

definition sample_evaluation :: "time \<Rightarrow> begun \<Rightarrow> bool \<Rightarrow> val \<Rightarrow> any_evaluation" where
  "sample_evaluation now k b v = \<lparr>evNow = now, evBegun = k, evOneShot = b, evSources = [1], evFrozen = [], evResult = v\<rparr>"

definition sample_evaluations :: "any_evaluation list" where
  "sample_evaluations =
     [sample_evaluation 1 Initial False (vbool True), sample_evaluation 2 (Regular ef_timed) False (vbool True),
      sample_evaluation 3 (Regular ef_triggered) False (vbool False), sample_evaluation 4 (Regular ef_triggered) True (vbool True),
      sample_evaluation 5 (Regular ef_triggered) True (vbool True)]"

theorem fires_at_rising_edges_witness:
  "map (map fst \<circ> snd \<circ> snd) [the (trigger_run sample_env sample_evaluations [] (sample_trigger onGettingTrue 0))] = [[1, 4, 5]]"
  (is "map _ [the ?r] = _")
proof -
  have "?r \<noteq> None" by code_simp
  then obtain t' h' fs where r: "?r = Some (t', h', fs)" by auto
  have "list_all ordinary sample_evaluations"
    by (simp add: sample_evaluations_def sample_evaluation_def ordinary_def regular_evaluation_def)
  from fires_at_rising_edges [OF r this]
  have "map fst fs = rising sample_env undefined_state sample_evaluations"
    by (simp add: sample_trigger_def new_trigger_def setTriggerMode_def)
  moreover have "rising sample_env undefined_state sample_evaluations = [1, 4, 5]" by code_simp
  ultimately show ?thesis using r by simp
qed

section \<open>Hold-off\<close>







section \<open>Hold-off where it does not end, or is not seen\<close>

lemma decides_evaluation:
  assumes "wants_to_fire e h v t = Some (fire, t1)" "after_holdoff now f s fire t1 = (fire', t2)"
  shows "decides t2 = decides t"
proof -
  have "decides t1 = decides t" using assms(1) by (auto simp: wants_to_fire_def decides_def Let_def split: if_splits)
  moreover have "decides t2 = decides t1" using assms(2) update_simps(1) by (auto simp: after_holdoff_def Let_def decides_def split: if_splits)
  ultimately show ?thesis by simp
qed

text \<open>A trigger that is to fire at every evaluation, but has a hold-off, never fires as long as no
  evaluation gives false: every evaluation, also the one at the end of the hold-off, starts the hold-off anew.\<close>

theorem evaluating_with_holdoff_never_fires:
  assumes "evaluations e evs h t = Some (t', h', fs)" "list_all regular_evaluation evs" "mTriggerMode t = onEvaluation"
    "0 < mHoldOff t" "mSources t \<noteq> []" "list_all (\<lambda>(_, _, v). bool_of_result e v \<noteq> no) evs"
  shows "fs = []"
  using assms
proof (induction evs arbitrary: h t fs)
  case (Cons ev evs)
  obtain now mode v where ev: "ev = (now, mode, v)" by (metis prod_cases3)
  let ?b = "fst (triggerEvaluation now mode t)"
  have b: "decides ?b = decides t" by simp
  have r: "regular_evaluation (now, mode, v)" and rs: "list_all regular_evaluation evs"
    using Cons.prems(2) ev by simp_all
  obtain fire t1 fire' t2 u h2 gs f where x: "wants_to_fire e h v ?b = Some (fire, t1)" "\<not> has_flag f ef_initial"
    "after_holdoff now f (bool_of_result e v) fire t1 = (fire', t2)" "decides u = decides t2" "state_of u = state_of t2"
    "evaluations e evs h2 u = Some (t', h', gs)" "fs = (if fire' \<and> mTriggerCB t then [(now, treated_as_caught v)] else []) @ gs"
    by (rule evaluations_Cons [OF Cons.prems(1) [unfolded ev] r Cons.prems(5)])
  have u: "decides u = decides t" using decides_evaluation [OF x(1,3)] x(4) b by simp
  have w: "fire" "t1 = ?b" using x(1) Cons.prems(3) b by (auto simp: wants_to_fire_def decides_def)
  have "\<not> fire'" using x(3,2) w Cons.prems(4,6) b ev by (auto simp: after_holdoff_def Let_def tri_true_def decides_def)
  moreover have "gs = []" using Cons.prems u ev by (intro Cons.IH [OF x(6) rs]) (simp_all add: decides_def)
  ultimately show ?case using x(7) by simp
qed simp

theorem evaluating_with_holdoff_never_fires_witness:
  "map_option (snd \<circ> snd) (evaluations sample_env [(1, ef_triggered, vbool True), (6, ef_timed, vbool True), (11, ef_timed, vbool True)] []
     (sample_trigger onEvaluation 5)) = Some []" (is "map_option _ ?r = _")
proof -
  have "?r \<noteq> None" by code_simp
  then obtain t' h' fs where r: "?r = Some (t', h', fs)" by auto
  have "list_all regular_evaluation [(1, ef_triggered, vbool True), (6, ef_timed, vbool True), (11, ef_timed, vbool True)]"
    by (simp add: regular_evaluation_def)
  moreover have "list_all (\<lambda>(_, _, v). bool_of_result sample_env v \<noteq> no) [(1, ef_triggered, vbool True), (6, ef_timed, vbool True), (11, ef_timed, vbool True)]"
    by code_simp
  ultimately have "fs = []" using evaluating_with_holdoff_never_fires [OF r]
    by (simp add: sample_trigger_def new_trigger_def setTriggerMode_def)
  with r show ?thesis by simp
qed

text \<open>Events one after the other, each at its time; whether one began an evaluation.\<close>

fun events :: "(time \<times> val option \<times> nat) list \<Rightarrow> trigger \<Rightarrow> trigger \<times> bool" where
  "events [] t = (t, False)"
| "events ((now, event, reg) # evs) t =
     (let (t1, f) = processEvent now event reg t; (t2, b) = events evs t1 in (t2, f \<noteq> None \<or> b))"

lemma postponed_event:
  assumes "now < mMostRecentEvaluation t + mHoldOff t" "0 < mMostRecentEvaluation t" "0 < mHoldOff t" "mNextEvaluation t = Never"
  shows "\<exists>t1. processEvent now event reg t = (t1, None) \<and>
     mReEvaluation t1 = Some (mMostRecentEvaluation t + mHoldOff t, ef_triggered OR ef_timed) \<and>
     mMostRecentEvaluation t1 = mMostRecentEvaluation t \<and> mHoldOff t1 = mHoldOff t \<and> mNextEvaluation t1 = Never \<and>
     state_of t1 = state_of t"
proof -
  have "mMostRecentEvaluation t \<noteq> Never" "\<not> mMostRecentEvaluation t + mHoldOff t \<le> 0"
    using assms(2,3) by (simp_all add: Never_def)
  then show ?thesis using assms
    by (simp add: processEvent_def updateNextEval_def scheduleNextEval_def DEFINED_TIME_def Never_def Let_def state_of_def)
qed

text \<open>While the hold-off after an evaluation is running, any number of events begins no evaluation: the
  trigger is evaluated once, at the end of the hold-off, and its state is what the evaluation before found. A
  condition that goes false and true again in that time is not noticed.\<close>

theorem events_in_holdoff_are_one_evaluation:
  assumes "evs \<noteq> []" "\<forall>(now, _, _)\<in>set evs. now < mMostRecentEvaluation t + mHoldOff t" "0 < mMostRecentEvaluation t"
    "0 < mHoldOff t" "mNextEvaluation t = Never"
  shows "\<exists>u. events evs t = (u, False) \<and> mReEvaluation u = Some (mMostRecentEvaluation t + mHoldOff t, ef_triggered OR ef_timed) \<and>
     state_of u = state_of t"
  using assms
proof (induction evs arbitrary: t)
  case (Cons ev evs)
  obtain now event reg where ev: "ev = (now, event, reg)" by (metis prod_cases3)
  have "now < mMostRecentEvaluation t + mHoldOff t" using Cons.prems(2) ev by simp
  from postponed_event [OF this Cons.prems(3-5), of event reg] obtain t1 where p: "processEvent now event reg t = (t1, None)"
    "mReEvaluation t1 = Some (mMostRecentEvaluation t + mHoldOff t, ef_triggered OR ef_timed)"
    "mMostRecentEvaluation t1 = mMostRecentEvaluation t" "mHoldOff t1 = mHoldOff t" "mNextEvaluation t1 = Never" "state_of t1 = state_of t"
    by blast
  show ?case
  proof (cases "evs = []")
    case True then show ?thesis using p ev by simp
  next
    case False
    have "\<forall>(now, _, _)\<in>set evs. now < mMostRecentEvaluation t1 + mHoldOff t1" using Cons.prems(2) p(3,4) by auto
    with Cons.IH [of t1] False p Cons.prems(3,4) obtain u where "events evs t1 = (u, False)"
      "mReEvaluation u = Some (mMostRecentEvaluation t1 + mHoldOff t1, ef_triggered OR ef_timed)" "state_of u = state_of t1" by auto
    then show ?thesis using p ev by simp
  qed
qed simp

theorem events_in_holdoff_are_one_evaluation_witness:
  "\<exists>u. events [(12, None, 0), (14, Some (vbool False), 7)] ((sample_trigger onGettingTrue 5)\<lparr>mMostRecentEvaluation := 10\<rparr>) = (u, False) \<and>
     mReEvaluation u = Some (15, ef_triggered OR ef_timed)"
  using events_in_holdoff_are_one_evaluation [of "[(12, None, 0), (14, Some (vbool False), 7)]" "(sample_trigger onGettingTrue 5)\<lparr>mMostRecentEvaluation := 10\<rparr>"]
  by (auto simp: sample_trigger_def new_trigger_def setTriggerMode_def)

text \<open>
  \<open>scheduleEvalNotLaterThan\<close> does move a scheduled evaluation to a later time: scheduling has reset the time
  that \<open>updateNextEval\<close> compares with.
\<close>

theorem not_later_than_moves_later:
  assumes "0 < latest" "mMostRecentEvaluation t < latest" "mNextEvaluation t = Never" "mReEvaluation t = Some (due, f)" "due < latest"
  shows "mReEvaluation (scheduleEvalNotLaterThan latest t) = Some (latest, ef_timed)"
  using assms by (simp add: scheduleEvalNotLaterThan_def updateNextEval_def scheduleNextEval_def DEFINED_TIME_def Never_def)

end
