(* ===== verification/ScriptEvents.thy ===== *)
theory ScriptEvents
  imports ScriptProc
begin

text \<open>
  Event sources and event sinks (\<open>EventSource\<close>, \<open>EventSink\<close> of \<open>p44script.cpp\<close>): who is registered where,
  and the delivery of an event to all sinks of a source. Sources and sinks are numbers, in the order of their
  addresses; a map ordered by address is an association list. The rest of the program's state is the type
  parameter; what a sink does with an event is a parameter of the delivery.
\<close>

section \<open>Registrations\<close>

type_synonym event_filter = "val option \<Rightarrow> val option option"

record registration =
  regId :: int
  eventFilter :: "event_filter option"

record 'w hub =
  mEventSinks :: "nat \<Rightarrow> (nat \<times> registration) list"
  mSinksModified :: "nat \<Rightarrow> bool"
  mEventSources :: "nat \<Rightarrow> nat list"
  outside :: 'w

fun reg_set :: "nat \<Rightarrow> registration \<Rightarrow> (nat \<times> registration) list \<Rightarrow> (nat \<times> registration) list" where
  "reg_set k v [] = [(k, v)]"
| "reg_set k v ((k', w) # m) =
     (if k < k' then (k, v) # (k', w) # m else if k = k' then (k, v) # m else (k', w) # reg_set k v m)"

definition reg_erase :: "nat \<Rightarrow> (nat \<times> registration) list \<Rightarrow> (nat \<times> registration) list" where
  "reg_erase k m = filter (\<lambda>p. fst p \<noteq> k) m"

fun insert_source :: "nat \<Rightarrow> nat list \<Rightarrow> nat list" where
  "insert_source s [] = [s]"
| "insert_source s (x # xs) = (if s < x then s # x # xs else if s = x then x # xs else x # insert_source s xs)"

definition erase_source :: "nat \<Rightarrow> nat list \<Rightarrow> nat list" where
  "erase_source s xs = filter (\<lambda>x. x \<noteq> s) xs"

definition sinks_modified :: "nat \<Rightarrow> bool \<Rightarrow> 'w hub \<Rightarrow> 'w hub" where
  "sinks_modified s b w = w\<lparr>mSinksModified := (mSinksModified w)(s := b)\<rparr>"

section \<open>Registering\<close>

definition registerForEvents :: "nat \<Rightarrow> nat \<Rightarrow> int \<Rightarrow> event_filter option \<Rightarrow> 'w hub \<Rightarrow> 'w hub" where
  "registerForEvents s k r f w =
     (sinks_modified s True w)
       \<lparr>mEventSinks := (mEventSinks w)(s := reg_set k \<lparr>regId = r, eventFilter = f\<rparr> (mEventSinks w s)),
        mEventSources := (mEventSources w)(k := insert_source s (mEventSources w k))\<rparr>"

definition unregisterFromEvents :: "nat \<Rightarrow> nat \<Rightarrow> 'w hub \<Rightarrow> 'w hub" where
  "unregisterFromEvents s k w =
     (sinks_modified s True w)
       \<lparr>mEventSinks := (mEventSinks w)(s := reg_erase k (mEventSinks w s)),
        mEventSources := (mEventSources w)(k := erase_source s (mEventSources w k))\<rparr>"

text \<open>The pointer versions do nothing for a null pointer.\<close>

definition registerForEvents_ptr :: "nat \<Rightarrow> nat option \<Rightarrow> int \<Rightarrow> event_filter option \<Rightarrow> 'w hub \<Rightarrow> 'w hub" where
  "registerForEvents_ptr s p r f w = (case p of Some k \<Rightarrow> registerForEvents s k r f w | None \<Rightarrow> w)"

definition unregisterFromEvents_ptr :: "nat \<Rightarrow> nat option \<Rightarrow> 'w hub \<Rightarrow> 'w hub" where
  "unregisterFromEvents_ptr s p w = (case p of Some k \<Rightarrow> unregisterFromEvents s k w | None \<Rightarrow> w)"

text \<open>\<open>clearSources\<close> of a sink takes one source after the other; so does the destructor of a source with its sinks.\<close>

fun clear_sources_loop :: "nat \<Rightarrow> nat list \<Rightarrow> 'w hub \<Rightarrow> 'w hub" where
  "clear_sources_loop k [] w = w\<lparr>mEventSources := (mEventSources w)(k := [])\<rparr>"
| "clear_sources_loop k (s # ss) w =
     clear_sources_loop k ss (sinks_modified s True (w\<lparr>mEventSinks := (mEventSinks w)(s := reg_erase k (mEventSinks w s))\<rparr>))"

definition clearSources :: "nat \<Rightarrow> 'w hub \<Rightarrow> 'w hub" where
  "clearSources k w = clear_sources_loop k (mEventSources w k) w"

fun destroy_source_loop :: "nat \<Rightarrow> (nat \<times> registration) list \<Rightarrow> 'w hub \<Rightarrow> 'w hub" where
  "destroy_source_loop s [] w = sinks_modified s True (w\<lparr>mEventSinks := (mEventSinks w)(s := [])\<rparr>)"
| "destroy_source_loop s ((k, _) # ks) w =
     destroy_source_loop s ks (w\<lparr>mEventSources := (mEventSources w)(k := erase_source s (mEventSources w k))\<rparr>)"

definition destroy_source :: "nat \<Rightarrow> 'w hub \<Rightarrow> 'w hub" where
  "destroy_source s w = destroy_source_loop s (mEventSinks w s) w"

definition copySinksFrom :: "nat \<Rightarrow> nat option \<Rightarrow> 'w hub \<Rightarrow> 'w hub" where
  "copySinksFrom s other w =
     (case other of
        None \<Rightarrow> w
      | Some so \<Rightarrow> fold (\<lambda>(k, r) u. registerForEvents s k (regId r) (eventFilter r) (sinks_modified s True u)) (mEventSinks w so) w)"

definition hasSources :: "nat \<Rightarrow> 'w hub \<Rightarrow> bool" where
  "hasSources k w \<longleftrightarrow> mEventSources w k \<noteq> []"

definition hasSinks :: "nat \<Rightarrow> 'w hub \<Rightarrow> bool" where
  "hasSinks s w \<longleftrightarrow> mEventSinks w s \<noteq> []"

section \<open>Delivery\<close>

text \<open>
  What a sink does with an event (\<open>processEvent\<close>): the sink, the event, the source, the registration id. A
  reaction may register and unregister, also at the source that is sending, and may send events itself.
\<close>

type_synonym 'w reaction = "nat \<Rightarrow> val option \<Rightarrow> nat \<Rightarrow> int \<Rightarrow> 'w hub \<Rightarrow> 'w hub"

text \<open>The iterator is the sink it stands at; \<open>++\<close> goes to the next one in the map. Standing at a sink that is no longer in the map, it dangles.\<close>

datatype 'w delivery = Sent "'w hub" bool | Dangling "'w hub"

definition next_sink :: "nat option \<Rightarrow> (nat \<times> registration) list \<Rightarrow> nat option" where
  "next_sink p m = (case filter (\<lambda>(k, _). case p of None \<Rightarrow> True | Some j \<Rightarrow> j < k) m of [] \<Rightarrow> None | (k, _) # _ \<Rightarrow> Some k)"

definition passes :: "registration \<Rightarrow> val option \<Rightarrow> val option option" where
  "passes r ev = (case eventFilter r of None \<Rightarrow> Some ev | Some f \<Rightarrow> f ev)"

text \<open>The two loops of \<open>sendEvent\<close>; \<open>None\<close> when they do not end.\<close>

partial_function (option) deliver ::
  "'w reaction \<Rightarrow> nat \<Rightarrow> val option \<Rightarrow> nat option \<Rightarrow> bool \<Rightarrow> 'w hub \<Rightarrow> 'w delivery option" where
  "deliver react s ev pos sent w =
     (case pos of
        None \<Rightarrow>
          if mSinksModified w s
          then deliver react s ev (next_sink None (mEventSinks w s)) sent (sinks_modified s False w)
          else Some (Sent w sent)
      | Some k \<Rightarrow>
          (case map_of (mEventSinks w s) k of
             None \<Rightarrow> Some (Dangling w)
           | Some r \<Rightarrow>
               (case passes r ev of
                  None \<Rightarrow> deliver react s ev (next_sink (Some k) (mEventSinks w s)) sent w
                | Some ev' \<Rightarrow>
                    let w' = react k ev' s (regId r) w
                    in if mSinksModified w' s then deliver react s ev None True w'
                       else if map_of (mEventSinks w' s) k = None then Some (Dangling w')
                       else deliver react s ev (next_sink (Some k) (mEventSinks w' s)) True w')))"

definition sendEvent :: "'w reaction \<Rightarrow> nat \<Rightarrow> val option \<Rightarrow> 'w hub \<Rightarrow> 'w delivery option" where
  "sendEvent react s ev w =
     (if mEventSinks w s = [] then Some (Sent w False)
      else deliver react s ev (next_sink None (mEventSinks w s)) False (sinks_modified s False w))"

end
