(* ===== verification/EventLaws.thy ===== *)
theory EventLaws
  imports ScriptEvents
begin

text \<open>
  Sources and sinks agree on who is registered where; an event reaches every sink; delivery ends when the
  reactions at some time leave the registrations alone, and never ends with a sink that registers itself
  again at every event.
\<close>

section \<open>Registrations agree\<close>

definition registered :: "nat \<Rightarrow> nat \<Rightarrow> 'w hub \<Rightarrow> bool" where
  "registered s k w \<longleftrightarrow> k \<in> fst ` set (mEventSinks w s)"

definition consistent :: "'w hub \<Rightarrow> bool" where
  "consistent w \<longleftrightarrow> (\<forall>s k. registered s k w \<longleftrightarrow> s \<in> set (mEventSources w k)) \<and>
     (\<forall>s. sorted_wrt (<) (map fst (mEventSinks w s)))"

lemma keys_reg_set [simp]: "fst ` set (reg_set k v m) = insert k (fst ` set m)"
  by (induction k v m rule: reg_set.induct) auto

lemma sorted_reg_set: "sorted_wrt (<) (map fst m) \<Longrightarrow> sorted_wrt (<) (map fst (reg_set k v m))"
proof (induction k v m rule: reg_set.induct)
  case (2 k v k' w m)
  then show ?case using keys_reg_set [of k v m] by (auto simp del: keys_reg_set)
qed simp

lemma keys_reg_erase [simp]: "fst ` set (reg_erase k m) = fst ` set m - {k}"
  by (auto simp: reg_erase_def)

lemma sorted_reg_erase: "sorted_wrt (<) (map fst m) \<Longrightarrow> sorted_wrt (<) (map fst (reg_erase k m))"
  by (induction m) (auto simp: reg_erase_def)

lemma set_insert_source [simp]: "set (insert_source s xs) = insert s (set xs)"
  by (induction s xs rule: insert_source.induct) auto

lemma set_erase_source [simp]: "set (erase_source s xs) = set xs - {s}"
  by (auto simp: erase_source_def)

lemma consistent_modified [simp]: "consistent (sinks_modified s b w) = consistent w"
  by (simp add: consistent_def registered_def sinks_modified_def)

lemma sinks_of_modified [simp]:
  "mEventSinks (sinks_modified s b w) = mEventSinks w" "mEventSources (sinks_modified s b w) = mEventSources w"
  "mSinksModified (sinks_modified s b w) s = b" "outside (sinks_modified s b w) = outside w"
  by (simp_all add: sinks_modified_def)

lemma consistent_register: "consistent w \<Longrightarrow> consistent (registerForEvents s k r f w)"
  by (auto simp: consistent_def registered_def registerForEvents_def sorted_reg_set)

lemma consistent_unregister: "consistent w \<Longrightarrow> consistent (unregisterFromEvents s k w)"
  by (auto simp: consistent_def registered_def unregisterFromEvents_def sorted_reg_erase)

lemma clear_sources_loop_sinks:
  "fst ` set (mEventSinks (clear_sources_loop k ss w) s) = fst ` set (mEventSinks w s) - (if s \<in> set ss then {k} else {})"
  "mEventSources (clear_sources_loop k ss w) = (mEventSources w)(k := [])"
  "(\<forall>s. sorted_wrt (<) (map fst (mEventSinks w s))) \<longrightarrow> (\<forall>s. sorted_wrt (<) (map fst (mEventSinks (clear_sources_loop k ss w) s)))"
  by (induction k ss w rule: clear_sources_loop.induct) (auto simp: sorted_reg_erase)

lemma consistent_clear: "consistent w \<Longrightarrow> consistent (clearSources k w)"
  by (auto simp: consistent_def registered_def clearSources_def clear_sources_loop_sinks split: if_splits)

lemma destroy_source_loop_sources:
  "set (mEventSources (destroy_source_loop s ks w) k) = set (mEventSources w k) - (if k \<in> fst ` set ks then {s} else {})"
  "mEventSinks (destroy_source_loop s ks w) = (mEventSinks w)(s := [])"
  by (induction s ks w rule: destroy_source_loop.induct) auto

lemma consistent_destroy: "consistent w \<Longrightarrow> consistent (destroy_source s w)"
  by (auto simp: consistent_def registered_def destroy_source_def destroy_source_loop_sources split: if_splits)

lemma consistent_fold_register:
  "consistent w \<Longrightarrow> consistent (fold (\<lambda>(k, r) u. registerForEvents s k (regId r) (eventFilter r) (sinks_modified s True u)) m w)"
  by (induction m arbitrary: w) (auto simp: consistent_register)

text \<open>The operations, as the rest of the program calls them.\<close>

datatype hub_op =
    Register nat "nat option" int "event_filter option" | Unregister nat "nat option"
  | ClearSources nat | DestroySource nat | CopySinks nat "nat option"

fun hub_step :: "hub_op \<Rightarrow> 'w hub \<Rightarrow> 'w hub" where
  "hub_step (Register s p r f) w = registerForEvents_ptr s p r f w"
| "hub_step (Unregister s p) w = unregisterFromEvents_ptr s p w"
| "hub_step (ClearSources k) w = clearSources k w"
| "hub_step (DestroySource s) w = destroy_source s w"
| "hub_step (CopySinks s other) w = copySinksFrom s other w"

lemma consistent_step: "consistent w \<Longrightarrow> consistent (hub_step op w)"
  by (cases op)
    (auto simp: registerForEvents_ptr_def unregisterFromEvents_ptr_def copySinksFrom_def consistent_register
      consistent_unregister consistent_clear consistent_destroy consistent_fold_register split: option.split)

definition empty_hub :: "'w \<Rightarrow> 'w hub" where
  "empty_hub x = \<lparr>mEventSinks = \<lambda>_. [], mSinksModified = \<lambda>_. False, mEventSources = \<lambda>_. [], outside = x\<rparr>"

lemma consistent_empty: "consistent (empty_hub x)"
  by (simp add: consistent_def registered_def empty_hub_def)

text \<open>C14: After any sequence of registering, unregistering, clearing, copying and destroying, a source has a sink
  registered exactly if the sink knows the source, a cleared sink is registered nowhere, and a destroyed source is
  known to no sink: no event goes to a sink that is gone, and no sink keeps a source that is gone.\<close>

theorem registrations_agree:
  fixes x :: 'w and ops :: "hub_op list"
  defines "w \<equiv> fold hub_step ops (empty_hub x)"
  shows "(registered s k w \<longleftrightarrow> s \<in> set (mEventSources w k)) \<and>
     \<not> registered s k (clearSources k w) \<and> \<not> hasSources k (clearSources k w) \<and>
     s \<notin> set (mEventSources (destroy_source s w) k) \<and> \<not> hasSinks s (destroy_source s w)"
proof -
  have c: "consistent w"
  proof -
    have "consistent (fold hub_step ops u)" if "consistent u" for u :: "'w hub"
      using that by (induction ops arbitrary: u) (simp_all add: consistent_step)
    then show ?thesis by (simp add: w_def consistent_empty)
  qed
  have "\<not> hasSources k (clearSources k w)" by (simp add: hasSources_def clearSources_def clear_sources_loop_sinks)
  moreover have "\<not> hasSinks s (destroy_source s w)" by (simp add: hasSinks_def destroy_source_def destroy_source_loop_sources)
  moreover have agree: "registered s k u \<longleftrightarrow> s \<in> set (mEventSources u k)" if "consistent u" for u :: "'w hub"
    using that by (simp add: consistent_def)
  ultimately show ?thesis
    using agree [OF c] agree [OF consistent_clear [OF c, of k]] agree [OF consistent_destroy [OF c, of s]]
    by (simp add: hasSources_def hasSinks_def registered_def)
qed

section \<open>Delivery\<close>

definition deliveries :: "val option \<Rightarrow> (nat \<times> registration) list \<Rightarrow> (nat \<times> val option \<times> int) list" where
  "deliveries ev m = concat (map (\<lambda>(k, r). case passes r ev of None \<Rightarrow> [] | Some ev' \<Rightarrow> [(k, ev', regId r)]) m)"

text \<open>Delivery in one pass, without a change of the registrations.\<close>

definition deliver_all :: "'w reaction \<Rightarrow> nat \<Rightarrow> val option \<Rightarrow> (nat \<times> registration) list \<Rightarrow> 'w hub \<Rightarrow> 'w hub" where
  "deliver_all react s ev m w = fold (\<lambda>(k, e, r). react k e s r) (deliveries ev m) w"

lemma deliveries_simps [simp]:
  "deliveries ev [] = []"
  "deliveries ev ((k, r) # m) = (case passes r ev of None \<Rightarrow> [] | Some ev' \<Rightarrow> [(k, ev', regId r)]) @ deliveries ev m"
  by (simp_all add: deliveries_def)

lemma next_sink_split:
  assumes "sorted_wrt (<) (map fst (xs @ (k, r) # ys))"
  shows "map_of (xs @ (k, r) # ys) k = Some r"
    "next_sink (Some k) (xs @ (k, r) # ys) = (case ys of [] \<Rightarrow> None | (j, _) # _ \<Rightarrow> Some j)"
proof -
  have x: "\<forall>p\<in>set xs. fst p < k" and y: "\<forall>p\<in>set ys. k < fst p"
    using assms by (auto simp: sorted_wrt_append)
  have "map_of xs k = None" using x by (auto simp: map_of_eq_None_iff)
  then show "map_of (xs @ (k, r) # ys) k = Some r" by (simp add: map_add_def)
  have "filter (\<lambda>(j, _). k < j) xs = []" "filter (\<lambda>(j, _). k < j) ys = ys" 
    using x y by (force simp: filter_empty_conv filter_id_conv)+
  then show "next_sink (Some k) (xs @ (k, r) # ys) = (case ys of [] \<Rightarrow> None | (j, _) # _ \<Rightarrow> Some j)"
    by (simp add: next_sink_def)
qed

lemma next_sink_first: "next_sink None m = (case m of [] \<Rightarrow> None | (k, _) # _ \<Rightarrow> Some k)"
  by (simp add: next_sink_def)

text \<open>
  Reactions that now and then change the registrations at the source that is sending: a number that depends on
  the state gets smaller with each change, and does not grow otherwise.
\<close>

definition settles :: "'w reaction \<Rightarrow> nat \<Rightarrow> ('w hub \<Rightarrow> nat) \<Rightarrow> bool" where
  "settles react s n \<longleftrightarrow>
     (\<forall>b w. n (sinks_modified s b w) = n w) \<and>
     (\<forall>k e r w. consistent w \<and> \<not> mSinksModified w s \<longrightarrow> consistent (react k e s r w) \<and>
        (if mSinksModified (react k e s r w) s then n (react k e s r w) < n w
         else mEventSinks (react k e s r w) s = mEventSinks w s \<and> n (react k e s r w) \<le> n w))"

lemma settled_pass:
  assumes "settles react s n" "sorted_wrt (<) (map fst (xs @ ys))" "mEventSinks w s = xs @ ys" "\<not> mSinksModified w s" "consistent w"
  shows "(\<exists>b. deliver react s ev (case ys of [] \<Rightarrow> None | (k, _) # _ \<Rightarrow> Some k) sent w = Some (Sent (deliver_all react s ev ys w) b) \<and>
            mEventSinks (deliver_all react s ev ys w) s = mEventSinks w s \<and> (b \<longleftrightarrow> sent \<or> deliveries ev ys \<noteq> [])) \<or>
     (\<exists>w'. deliver react s ev (case ys of [] \<Rightarrow> None | (k, _) # _ \<Rightarrow> Some k) sent w = deliver react s ev None True w' \<and>
        mSinksModified w' s \<and> n w' < n w \<and> consistent w')"
  using assms(2-)
proof (induction ys arbitrary: xs sent w)
  case Nil
  then show ?case by (simp add: deliver.simps [of react s ev None] deliver_all_def)
next
  case (Cons p ys)
  obtain k r where p: "p = (k, r)" by fastforce
  note ns = next_sink_split [OF Cons.prems(1) [unfolded p]]
  have sorted: "sorted_wrt (<) (map fst ((xs @ [p]) @ ys))" using Cons.prems(1) by simp
  have sinks: "mEventSinks w s = xs @ (k, r) # ys" using Cons.prems(2) p by simp
  let ?go = "\<lambda>b. deliver react s ev (case ys of [] \<Rightarrow> None | (j, _) # _ \<Rightarrow> Some j) b"
  show ?case
  proof (cases "passes r ev")
    case None
    have "deliver react s ev (Some k) sent w = ?go sent w"
      using None ns by (subst deliver.simps) (simp add: sinks)
    moreover have "deliver_all react s ev (p # ys) = deliver_all react s ev ys" using None p by (simp add: deliver_all_def fun_eq_iff)
    moreover have "deliveries ev (p # ys) = deliveries ev ys" using None p by simp
    ultimately show ?thesis using Cons.IH [of "xs @ [p]" w sent] sorted sinks Cons.prems p by simp
  next
    case (Some e)
    define w' where "w' = react k e s (regId r) w"
    have st: "consistent w' \<and> (if mSinksModified w' s then n w' < n w else mEventSinks w' s = mEventSinks w s \<and> n w' \<le> n w)"
      using assms(1) Cons.prems(3,4) unfolding settles_def w'_def by blast
    show ?thesis
    proof (cases "mSinksModified w' s")
      case True
      then have "deliver react s ev (Some k) sent w = deliver react s ev None True w'"
        using Some ns by (subst deliver.simps) (simp add: sinks w'_def)
      then show ?thesis using True st p by auto
    next
      case False
      then have same: "mEventSinks w' s = xs @ (k, r) # ys" using st sinks by simp
      then have "deliver react s ev (Some k) sent w = ?go True w'"
        using False Some ns by (subst deliver.simps) (simp add: sinks w'_def)
      moreover have "deliver_all react s ev (p # ys) w = deliver_all react s ev ys w'"
        using Some p by (simp add: deliver_all_def w'_def)
      moreover have "deliveries ev (p # ys) \<noteq> []" using Some p by simp
      ultimately show ?thesis
        using Cons.IH [of "xs @ [p]" w' True] sorted same False st p sinks by (auto simp del: deliveries_simps(2))
    qed
  qed
qed

text \<open>From the start of a pass.\<close>

lemma deliver_settles:
  assumes "settles react s n" "consistent w" "\<not> mSinksModified w s"
  shows "\<exists>v b. deliver react s ev (next_sink None (mEventSinks w s)) sent w = Some (Sent (deliver_all react s ev (mEventSinks v s) v) b) \<and>
     mEventSinks (deliver_all react s ev (mEventSinks v s) v) s = mEventSinks v s"
  using assms(2,3)
proof (induction "n w" arbitrary: w sent rule: less_induct)
  case less
  let ?d = "deliver react s ev (next_sink None (mEventSinks w s)) sent w" and ?all = "deliver_all react s ev (mEventSinks w s) w"
  have "sorted_wrt (<) (map fst ([] @ mEventSinks w s))" using less.prems(1) by (simp add: consistent_def)
  from settled_pass [OF assms(1) this _ less.prems(2,1), of ev sent, folded next_sink_first]
  have "(\<exists>b. ?d = Some (Sent ?all b) \<and> mEventSinks ?all s = mEventSinks w s) \<or>
    (\<exists>w'. ?d = deliver react s ev None True w' \<and> mSinksModified w' s \<and> n w' < n w \<and> consistent w')" by auto
  then consider (last_pass) b where "?d = Some (Sent ?all b)" "mEventSinks ?all s = mEventSinks w s"
    | (again) w' where "?d = deliver react s ev None True w'" "mSinksModified w' s" "n w' < n w" "consistent w'" by blast
  then show ?case
  proof cases
    case last_pass
    then show ?thesis by blast
  next
    case again
    let ?u = "sinks_modified s False w'"
    have "n ?u < n w" using assms(1) again(3) by (simp add: settles_def)
    from less.hyps [OF this, of True] again(4)
    have "\<exists>v b. deliver react s ev (next_sink None (mEventSinks ?u s)) True ?u = Some (Sent (deliver_all react s ev (mEventSinks v s) v) b) \<and>
     mEventSinks (deliver_all react s ev (mEventSinks v s) v) s = mEventSinks v s" by simp
    moreover have "deliver react s ev None True w' = deliver react s ev (next_sink None (mEventSinks ?u s)) True ?u"
      using again(2) by (subst deliver.simps) simp
    ultimately show ?thesis using again(1) by simp
  qed
qed

text \<open>C13: When the reactions to an event settle (some number falls with each change of the registrations at the source,
  and the two sides stay consistent), the delivery ends, no iterator dangles, and the last pass has given the
  event to all sinks registered in the end, in order, each once and through its filter.\<close>

theorem every_sink_gets_the_event:
  assumes "consistent w" "settles react s n"
  shows "\<exists>v b. sendEvent react s ev w = Some (Sent (deliver_all react s ev (mEventSinks v s) v) b) \<and>
     mEventSinks (deliver_all react s ev (mEventSinks v s) v) s = mEventSinks v s"
proof (cases "mEventSinks w s = []")
  case True
  then have "sendEvent react s ev w = Some (Sent (deliver_all react s ev (mEventSinks w s) w) False)"
    by (simp add: sendEvent_def deliver_all_def)
  moreover have "deliver_all react s ev (mEventSinks w s) w = w" using True by (simp add: deliver_all_def)
  ultimately show ?thesis by metis
next
  case False
  from deliver_settles [OF assms(2), of "sinks_modified s False w" ev False] assms(1) False show ?thesis
    by (simp add: sendEvent_def)
qed

text \<open>A sample: two sinks, and a reaction that only counts.\<close>

definition two_sinks :: "nat hub" where
  "two_sinks = registerForEvents 0 2 5 None (registerForEvents 0 1 7 None (empty_hub 0))"

lemma two_sinks_consistent: "consistent two_sinks"
  by (simp add: two_sinks_def consistent_register consistent_empty)

definition counting :: "nat reaction" where
  "counting k e s r w = w\<lparr>outside := outside w + 1\<rparr>"

lemma counting_settles: "settles counting s (\<lambda>_. 0)"
  by (simp add: settles_def counting_def consistent_def registered_def)

theorem every_sink_gets_the_event_witness:
  "\<exists>v b. sendEvent counting 0 None two_sinks = Some (Sent (deliver_all counting 0 None (mEventSinks v 0) v) b)"
  using every_sink_gets_the_event [OF two_sinks_consistent counting_settles] by blast

definition leaves_alone :: "'w reaction \<Rightarrow> nat \<Rightarrow> bool" where
  "leaves_alone react s \<longleftrightarrow>
     (\<forall>k e r u. consistent u \<longrightarrow> consistent (react k e s r u) \<and> mEventSinks (react k e s r u) s = mEventSinks u s \<and>
        mSinksModified (react k e s r u) s = mSinksModified u s)"

lemma counting_alone: "leaves_alone counting s"
  by (simp add: leaves_alone_def counting_def consistent_def registered_def)

lemma delivers:
  assumes "consistent w" "leaves_alone react s"
  shows "sendEvent react s ev w =
     Some (Sent (deliver_all react s ev (mEventSinks w s) (if hasSinks s w then sinks_modified s False w else w)) (deliveries ev (mEventSinks w s) \<noteq> []))"
proof (cases "mEventSinks w s = []")
  case True
  then show ?thesis by (simp add: sendEvent_def deliver_all_def hasSinks_def)
next
  case False
  have se: "settles react s (\<lambda>_. 0)" using assms(2) by (simp add: settles_def leaves_alone_def)
  have so: "sorted_wrt (<) (map fst ([] @ mEventSinks w s))" using assms(1) by (simp add: consistent_def)
  from settled_pass [OF se so, of "sinks_modified s False w" ev False] assms(1) False show ?thesis
    by (simp add: sendEvent_def hasSinks_def next_sink_first)
qed

text \<open>Reactions that leave the registrations at the source alone: each registered sink gets the event exactly once, in
  the order of the sinks, with the registration id and through the filter of its latest registration, and the
  result says whether any filter let it pass.\<close>

theorem delivered_once:
  assumes "consistent w" "leaves_alone react s"
  shows "sendEvent react s ev w =
     Some (Sent (deliver_all react s ev (mEventSinks w s) (if hasSinks s w then sinks_modified s False w else w)) (deliveries ev (mEventSinks w s) \<noteq> []))"
  by (rule delivers [OF assms])

theorem delivered_once_witness:
  "map_option (\<lambda>d. case d of Sent u b \<Rightarrow> (outside u, b) | Dangling u \<Rightarrow> (0, False)) (sendEvent counting 0 (Some (vbool True)) two_sinks) = Some (2, True)"
proof -
  from delivered_once [OF two_sinks_consistent counting_alone, of 0 "Some (vbool True)"] show ?thesis
    by (simp add: two_sinks_def registerForEvents_def empty_hub_def deliver_all_def passes_def hasSinks_def counting_def)
qed

section \<open>Delivery that does not end\<close>

text \<open>A reaction that registers the sink that gets the event again, as it was.\<close>

definition registering_again :: "'w reaction" where
  "registering_again k e s r w = registerForEvents s k r None w"

definition open_sink :: "nat \<Rightarrow> nat \<Rightarrow> 'w hub \<Rightarrow> bool" where
  "open_sink s k w \<longleftrightarrow> (\<exists>r. (k, r) \<in> set (mEventSinks w s) \<and> eventFilter r = None)"

lemma open_sink_modified [simp]: "open_sink s k (sinks_modified x b w) = open_sink s k w"
  by (simp add: open_sink_def)

lemma reg_set_keeps: "sorted_wrt (<) (map fst m) \<Longrightarrow> (k, r) \<in> set m \<Longrightarrow> k \<noteq> j \<Longrightarrow> (k, r) \<in> set (reg_set j v m)"
  by (induction j v m rule: reg_set.induct) auto

lemma in_reg_set [simp]: "(k, v) \<in> set (reg_set k v m)"
  by (induction k v m rule: reg_set.induct) auto

lemma open_registering_again:
  assumes "consistent w" "open_sink s k w"
  shows "open_sink s k (registering_again j e s r w)" "consistent (registering_again j e s r w)" "mSinksModified (registering_again j e s r w) s"
proof -
  obtain g where g: "(k, g) \<in> set (mEventSinks w s)" "eventFilter g = None" using assms(2) by (auto simp: open_sink_def)
  have "sorted_wrt (<) (map fst (mEventSinks w s))" using assms(1) by (simp add: consistent_def)
  then have "\<exists>v. (k, v) \<in> set (reg_set j \<lparr>regId = r, eventFilter = None\<rparr> (mEventSinks w s)) \<and> eventFilter v = None"
    using g reg_set_keeps [OF _ g(1), of j] in_reg_set [of j "\<lparr>regId = r, eventFilter = None\<rparr>" "mEventSinks w s"]
    by (cases "k = j") (metis registration.select_convs(2), metis)
  then show "open_sink s k (registering_again j e s r w)"
    by (simp add: open_sink_def registering_again_def registerForEvents_def)
  show "consistent (registering_again j e s r w)" using assms(1) by (simp add: registering_again_def consistent_register)
  show "mSinksModified (registering_again j e s r w) s" by (simp add: registering_again_def registerForEvents_def sinks_modified_def)
qed

lemma next_sink_up_to:
  assumes "sorted_wrt (<) (map fst m)" "(k, r) \<in> set m" "p = None \<or> (\<exists>j. p = Some j \<and> j < k)"
  obtains j where "next_sink p m = Some j" "j \<le> k" "j \<in> fst ` set m"
proof -
  let ?f = "filter (\<lambda>(k, _). case p of None \<Rightarrow> True | Some j \<Rightarrow> j < k) m"
  have "(k, r) \<in> set ?f" using assms(2,3) by auto
  then obtain x xs where f: "?f = x # xs" by (cases ?f) auto
  have "sorted_wrt (<) (map fst ?f)" using assms(1) by (induction m) auto
  then have "fst x \<le> k" using \<open>(k, r) \<in> set ?f\<close> f by fastforce
  moreover have "x \<in> set m" using f by (metis filter_is_subset list.set_intros(1) subsetD)
  ultimately show thesis using f by (intro that [of "fst x"]) (auto simp: next_sink_def split: prod.split)
qed

definition endless :: "nat \<Rightarrow> 'w reaction \<Rightarrow> nat \<Rightarrow> nat option \<Rightarrow> 'w hub \<Rightarrow> bool" where
  "endless k react s pos w \<longleftrightarrow> react = registering_again \<and> consistent w \<and> open_sink s k w \<and>
     (case pos of None \<Rightarrow> mSinksModified w s | Some j \<Rightarrow> j \<le> k \<and> j \<in> fst ` set (mEventSinks w s))"

lemma deliver_diverges:
  assumes "deliver react s ev pos sent w = Some d"
  shows "\<not> endless k react s pos w"
proof (rule deliver.raw_induct [where P = "\<lambda>react s ev pos sent w d. \<not> endless k react s pos w", OF _ assms])
  fix f :: "'w reaction \<Rightarrow> nat \<Rightarrow> val option \<Rightarrow> nat option \<Rightarrow> bool \<Rightarrow> 'w hub \<Rightarrow> 'w delivery option"
    and react s ev pos sent and w :: "'w hub" and d
  assume hyp: "\<And>react s ev pos sent w d. f react s ev pos sent w = Some d \<Longrightarrow> \<not> endless k react s pos w"
    and eq: "(case pos of
        None \<Rightarrow> if mSinksModified w s then f react s ev (next_sink None (mEventSinks w s)) sent (sinks_modified s False w) else Some (Sent w sent)
      | Some k \<Rightarrow>
          (case map_of (mEventSinks w s) k of
             None \<Rightarrow> Some (Dangling w)
           | Some r \<Rightarrow>
               (case passes r ev of
                  None \<Rightarrow> f react s ev (next_sink (Some k) (mEventSinks w s)) sent w
                | Some ev' \<Rightarrow>
                    let w' = react k ev' s (regId r) w
                    in if mSinksModified w' s then f react s ev None True w'
                       else if map_of (mEventSinks w' s) k = None then Some (Dangling w')
                       else f react s ev (next_sink (Some k) (mEventSinks w' s)) True w'))) = Some d"
  show "\<not> endless k react s pos w"
  proof
  assume "endless k react s pos w"
  then have re: "react = registering_again" and c: "consistent w" and op: "open_sink s k w"
    and at_pos: "case pos of None \<Rightarrow> mSinksModified w s | Some j \<Rightarrow> j \<le> k \<and> j \<in> fst ` set (mEventSinks w s)"
    by (simp_all add: endless_def)
  obtain g where g: "(k, g) \<in> set (mEventSinks w s)" "eventFilter g = None" using op by (auto simp: open_sink_def)
  have so: "sorted_wrt (<) (map fst (mEventSinks w s))" using c by (simp add: consistent_def)
  then have dist: "distinct (map fst (mEventSinks w s))" using strict_sorted_iff by blast
  show False
  proof (cases pos)
    case None
    obtain j where j: "next_sink None (mEventSinks w s) = Some j" "j \<le> k" "j \<in> fst ` set (mEventSinks w s)"
      by (rule next_sink_up_to [OF so g(1)]) auto
    have "f react s ev (Some j) sent (sinks_modified s False w) = Some d"
      using eq None at_pos j by simp
    from hyp [OF this] re c op j show False by (simp add: endless_def)
  next
    case (Some j)
    then have "j \<in> fst ` set (mEventSinks w s)" "j \<le> k" using at_pos by simp_all
    then obtain r where r: "map_of (mEventSinks w s) j = Some r" by (metis map_of_eq_None_iff not_Some_eq)
    show False
    proof (cases "passes r ev")
      case (Some e)
      have "f react s ev None True (react j e s (regId r) w) = Some d"
        using eq \<open>pos = Some j\<close> r Some open_registering_again(3) [OF c op, of j e "regId r"] re by simp
      from hyp [OF this] open_registering_again [OF c op, of j e "regId r"] re show False by (simp add: endless_def)
    next
      case None
      then have "j \<noteq> k" using r map_of_is_SomeI [OF dist g(1)] g(2) by (auto simp: passes_def)
      then have "j < k" using \<open>j \<le> k\<close> by simp
      obtain i where i: "next_sink (Some j) (mEventSinks w s) = Some i" "i \<le> k" "i \<in> fst ` set (mEventSinks w s)"
        by (rule next_sink_up_to [OF so g(1), of "Some j"]) (use \<open>j < k\<close> in auto)
      have "f react s ev (Some i) sent w = Some d" using eq \<open>pos = Some j\<close> r None i(1) by simp
      from hyp [OF this] re c op i show False by (simp add: endless_def)
    qed
  qed
  qed
qed

text \<open>A sink that registers itself again whenever it gets an event (which a sink is free to do: registering again is
  documented not to duplicate events) keeps \<open>sendEvent\<close> from ever returning.\<close>

theorem registering_again_never_ends:
  assumes "consistent w" "open_sink s k w"
  shows "sendEvent registering_again s ev w = None"
proof (rule ccontr)
  assume "sendEvent registering_again s ev w \<noteq> None"
  moreover obtain g where g: "(k, g) \<in> set (mEventSinks w s)" using assms(2) by (auto simp: open_sink_def)
  moreover have so: "sorted_wrt (<) (map fst (mEventSinks w s))" using assms(1) by (simp add: consistent_def)
  ultimately obtain d where d: "deliver registering_again s ev (next_sink None (mEventSinks w s)) False (sinks_modified s False w) = Some d"
    by (auto simp: sendEvent_def split: if_splits)
  obtain j where "next_sink None (mEventSinks w s) = Some j" "j \<le> k" "j \<in> fst ` set (mEventSinks w s)"
    by (rule next_sink_up_to [OF so g]) auto
  with deliver_diverges [OF d, of k] assms show False by (simp add: endless_def)
qed

theorem registering_again_never_ends_witness:
  "sendEvent registering_again 0 None two_sinks = None"
proof -
  have "open_sink 0 1 two_sinks" by (simp add: open_sink_def two_sinks_def registerForEvents_def empty_hub_def)
  from registering_again_never_ends [OF two_sinks_consistent this] show ?thesis .
qed

section \<open>Delivery within delivery\<close>

text \<open>Sink 1 takes itself off at an event, and then sends another one at the same source, where it reaches sink 2 only.\<close>

definition leaving_and_sending :: "nat reaction" where
  "leaving_and_sending k e s r w =
     (if k = 1 then (case sendEvent counting s e (unregisterFromEvents s k w) of Some (Sent u _) \<Rightarrow> u | _ \<Rightarrow> w)
      else counting k e s r w)"

text \<open>The flag that tells \<open>sendEvent\<close> about changed registrations belongs to the source, and sending resets it: when a
  sink takes itself off and then the same source sends again before the first delivery goes on, the outer
  loop does not see the change and goes on from the registration that is no longer in the map.\<close>

theorem sending_within_sending_dangles:
  "\<exists>u. sendEvent leaving_and_sending 0 None two_sinks = Some (Dangling u) \<and> \<not> registered 0 1 u \<and> outside u = 1"
proof -
  define w where "w = sinks_modified 0 False two_sinks"
  have sinks: "mEventSinks w 0 = [(1, \<lparr>regId = 7, eventFilter = None\<rparr>), (2, \<lparr>regId = 5, eventFilter = None\<rparr>)]"
    by (simp add: w_def two_sinks_def registerForEvents_def empty_hub_def)
  define u where "u = unregisterFromEvents 0 1 w"
  have u: "mEventSinks u 0 = [(2, \<lparr>regId = 5, eventFilter = None\<rparr>)]" using sinks by (simp add: u_def unregisterFromEvents_def reg_erase_def)
  have c: "consistent u" using two_sinks_consistent by (simp add: u_def w_def consistent_unregister)
  have o: "outside u = 0" by (simp add: u_def unregisterFromEvents_def w_def two_sinks_def registerForEvents_def empty_hub_def)
  define v where "v = counting 2 None 0 5 (sinks_modified 0 False u)"
  have "sendEvent counting 0 None u = Some (Sent v True)"
    using delivers [OF c counting_alone, of 0 None] u by (simp add: v_def deliver_all_def passes_def hasSinks_def)
  then have r: "leaving_and_sending 1 None 0 7 w = v" by (simp add: leaving_and_sending_def u_def)
  have v: "mEventSinks v 0 = [(2, \<lparr>regId = 5, eventFilter = None\<rparr>)]" "\<not> mSinksModified v 0" "outside v = 1"
    using u o by (simp_all add: v_def counting_def)
  have "sendEvent leaving_and_sending 0 None two_sinks = deliver leaving_and_sending 0 None (Some 1) False w"
    using sinks by (simp add: sendEvent_def w_def next_sink_def)
  also have "\<dots> = Some (Dangling v)"
    using sinks r v by (subst deliver.simps) (simp add: passes_def Let_def)
  finally show ?thesis using v by (simp add: registered_def)
qed

end
