(* ===== verification/FdComm.thy ===== *)
theory FdComm
  imports MainLoop "HOL-Library.Monad_Syntax"
begin

text \<open>
  Buffered input and output on a file descriptor (\<open>FdComm\<close> and \<open>FdStringCollector\<close> of \<open>fdcomm.cpp\<close>) in the main
  loop. What the system answers to \<open>ioctl\<close> and \<open>read\<close> is an argument, its answers to \<open>write\<close> are a list in
  the state; what the callbacks do is an argument.
\<close>

section \<open>The state\<close>

definition POLLIN :: nat where "POLLIN = 1"
definition POLLOUT :: nat where "POLLOUT = 4"
definition POLLERR :: nat where "POLLERR = 8"
definition POLLHUP :: nat where "POLLHUP = 16"

definition poll_has :: "nat \<Rightarrow> nat \<Rightarrow> bool" where
  "poll_has f b \<longleftrightarrow> f AND b \<noteq> 0"

text \<open>
  \<open>fdDeferred\<close> is the number of pending \<open>executeNow\<close> of \<open>checkReceiveData\<close>; \<open>fdWrites\<close> are the results of the
  next \<open>write\<close> calls (the last one given, the descriptor takes no more: an error), \<open>fdWritten\<close> what was written; \<open>fdWorld\<close>
  is what the callbacks change outside.
\<close>

record 'w fdcomm =
  mReceiveHandler :: "nat option"
  mTransmitHandler :: "nat option"
  mDataFd :: int
  mDelimiter :: char
  mReceiveBuffer :: string
  mTransmitBuffer :: string
  mDelimiterPos :: "nat option"
  mUnknownReadyBytes :: bool
  fdLoop :: mainloop
  fdDeferred :: nat
  fdWrites :: "int list"
  fdWritten :: string
  fdWorld :: 'w

definition new_fdcomm :: "mainloop \<Rightarrow> int list \<Rightarrow> 'w \<Rightarrow> 'w fdcomm" where
  "new_fdcomm m ws x =
     \<lparr>mReceiveHandler = None, mTransmitHandler = None, mDataFd = -1, mDelimiter = NUL, mReceiveBuffer = [], mTransmitBuffer = [],
      mDelimiterPos = None, mUnknownReadyBytes = False, fdLoop = m, fdDeferred = 0, fdWrites = ws, fdWritten = [], fdWorld = x\<rparr>"

definition fd_loop :: "(mainloop \<Rightarrow> mainloop) \<Rightarrow> 'w fdcomm \<Rightarrow> 'w fdcomm" where
  "fd_loop f c = c\<lparr>fdLoop := f (fdLoop c)\<rparr>"

text \<open>What the callbacks do: the handlers by their numbers, and the virtual exception handler.\<close>

record 'w fdcalls =
  onHandler :: "nat \<Rightarrow> 'w fdcomm \<Rightarrow> 'w fdcomm"
  onException :: "int \<Rightarrow> nat \<Rightarrow> 'w fdcomm \<Rightarrow> 'w fdcomm"

section \<open>The descriptor and the handlers\<close>

text \<open>The number under which the main loop knows the monitor handler is that of the object, here 0.\<close>

definition setFd :: "int \<Rightarrow> bool \<Rightarrow> 'w fdcomm \<Rightarrow> 'w fdcomm" where
  "setFd fd unknown c0 =
     (let c = c0\<lparr>mUnknownReadyBytes := unknown\<rparr>
      in if mDataFd c = fd then c
         else let d = (if mDataFd c \<ge> 0 then fd_loop (unregisterPollHandler (mDataFd c)) c else c)\<lparr>mDataFd := fd\<rparr>
              in if fd \<ge> 0
                 then fd_loop (registerPollHandler fd
                        ((if mReceiveHandler d \<noteq> None then POLLIN else 0) OR (if mTransmitHandler d \<noteq> None then POLLOUT else 0)) (Some 0)) d
                 else d)"

definition stopMonitoringAndClose :: "'w fdcomm \<Rightarrow> 'w fdcomm" where
  "stopMonitoringAndClose c =
     (if mDataFd c \<ge> 0 then (fd_loop (unregisterPollHandler (mDataFd c)) c)\<lparr>mDataFd := -1\<rparr> else c)"

definition setReceiveHandler :: "nat option \<Rightarrow> char \<Rightarrow> 'w fdcomm \<Rightarrow> 'w fdcomm" where
  "setReceiveHandler hnd d c0 =
     (let c = (if (mReceiveHandler c0 = None) \<noteq> (hnd = None)
               then let e = c0\<lparr>mReceiveHandler := hnd\<rparr>
                    in if mDataFd e \<ge> 0
                       then fd_loop (if hnd = None then changePollFlags (mDataFd e) 0 (Some POLLIN) else changePollFlags (mDataFd e) POLLIN (Some 0)) e
                       else e
               else c0)
      in c\<lparr>mDelimiter := d, mDelimiterPos := None, mReceiveHandler := hnd\<rparr>)"

definition setTransmitHandler :: "nat option \<Rightarrow> 'w fdcomm \<Rightarrow> 'w fdcomm" where
  "setTransmitHandler hnd c =
     (if (mTransmitHandler c = None) \<noteq> (hnd = None)
      then let e = c\<lparr>mTransmitHandler := hnd\<rparr>
           in if mDataFd e \<ge> 0
              then fd_loop (if hnd = None then changePollFlags (mDataFd e) 0 (Some POLLOUT) else changePollFlags (mDataFd e) POLLOUT (Some 0)) e
              else e
      else c)"

definition clearCallbacks :: "'w fdcomm \<Rightarrow> 'w fdcomm" where
  "clearCallbacks c = c\<lparr>mReceiveHandler := None, mTransmitHandler := None\<rparr>"

section \<open>Sending\<close>

text \<open>The number of bytes written, and whether there was an error.\<close>

definition transmitBytes :: "string \<Rightarrow> 'w fdcomm \<Rightarrow> 'w fdcomm \<times> nat \<times> bool" where
  "transmitBytes bytes c =
     (if mDataFd c < 0 then (c, 0, False)
      else let r = (case fdWrites c of r # _ \<Rightarrow> r | [] \<Rightarrow> -1); d = c\<lparr>fdWrites := tl (fdWrites c)\<rparr>
           in if r < 0 then (d, 0, True)
              else let n = min (nat r) (length bytes) in (d\<lparr>fdWritten := fdWritten d @ take n bytes\<rparr>, n, False))"

definition transmitString :: "string \<Rightarrow> 'w fdcomm \<Rightarrow> 'w fdcomm \<times> bool" where
  "transmitString s c = (let (d, n, e) = transmitBytes s c in (d, \<not> e \<and> n = length s))"

definition sendBufferedData :: "'w fdcomm \<Rightarrow> 'w fdcomm \<times> bool" where
  "sendBufferedData c =
     (let toSend = length (mTransmitBuffer c)
      in if toSend = 0
         then (if mTransmitHandler c = None then fd_loop (changePollFlags (mDataFd c) 0 (Some POLLOUT)) c else c, False)
         else let (d, sent, _) = transmitBytes (mTransmitBuffer c) c
              in (if sent < toSend then d\<lparr>mTransmitBuffer := drop sent (mTransmitBuffer d)\<rparr> else d\<lparr>mTransmitBuffer := []\<rparr>, True))"

definition sendString :: "string \<Rightarrow> 'w fdcomm \<Rightarrow> 'w fdcomm" where
  "sendString s c =
     (if mTransmitBuffer c = []
      then let d = (if mTransmitHandler c = None then fd_loop (changePollFlags (mDataFd c) POLLOUT (Some 0)) c else c)
           in fst (sendBufferedData (d\<lparr>mTransmitBuffer := s\<rparr>))
      else c\<lparr>mTransmitBuffer := mTransmitBuffer c @ s\<rparr>)"

section \<open>Receiving\<close>

text \<open>
  The answers of the system while input is handled: the bytes ready when asked first and second, and
  what \<open>read\<close> gives for a number of bytes (\<open>None\<close> is an error; would-block gives no bytes).
\<close>

record fdinput =
  inReady :: nat
  inReadyToRead :: nat
  inRead :: "string option"

definition numBytesReady :: "nat \<Rightarrow> 'w fdcomm \<Rightarrow> nat" where
  "numBytesReady ready c = (if mDataFd c \<ge> 0 then ready else 0)"

text \<open>The bytes received, and whether there was an error.\<close>

definition receiveBytes :: "string option \<Rightarrow> nat \<Rightarrow> 'w fdcomm \<Rightarrow> string \<times> bool" where
  "receiveBytes answer n c =
     (if mDataFd c \<ge> 0 \<and> n > 0 then (case answer of None \<Rightarrow> ([], True) | Some s \<Rightarrow> (take n s, False)) else ([], False))"

text \<open>
  \<open>receiveAndAppendToString\<close>; \<open>None\<close> is the failing allocation of a buffer for the largest \<open>size_t\<close> number of bytes, when
  the number of bytes is not known and no maximum (-1) is given.
\<close>

definition receiveAndAppendToString :: "fdinput \<Rightarrow> int \<Rightarrow> string \<Rightarrow> 'w fdcomm \<Rightarrow> (string \<times> bool) option" where
  "receiveAndAppendToString i aMaxBytes s c =
     (if mUnknownReadyBytes c \<and> aMaxBytes < 0 then None
      else let ready = numBytesReady (inReadyToRead i) c;
               mx = (if mUnknownReadyBytes c then nat aMaxBytes
                     else if aMaxBytes > 0 \<and> nat aMaxBytes < ready then nat aMaxBytes else ready);
               (b, e) = receiveBytes (inRead i) mx c
           in Some (if e then s else s @ b, e))"

definition receiveIntoString :: "fdinput \<Rightarrow> int \<Rightarrow> 'w fdcomm \<Rightarrow> (string \<times> bool) option" where
  "receiveIntoString i aMaxBytes c = receiveAndAppendToString i aMaxBytes [] c"

fun find_char :: "char \<Rightarrow> string \<Rightarrow> nat option" where
  "find_char d [] = None"
| "find_char d (x # xs) = (if x = d then Some 0 else map_option Suc (find_char d xs))"

text \<open>Calling a handler that is not set is an exception, \<open>None\<close>.\<close>

definition checkReceiveData :: "'w fdcalls \<Rightarrow> 'w fdcomm \<Rightarrow> 'w fdcomm option" where
  "checkReceiveData k c =
     (if mDelimiterPos c = None
      then let d = c\<lparr>mDelimiterPos := find_char (mDelimiter c) (mReceiveBuffer c)\<rparr>
           in if mDelimiterPos d \<noteq> None
              then (case mReceiveHandler d of None \<Rightarrow> None | Some n \<Rightarrow> Some (onHandler k n d))
              else Some d
      else Some c)"

text \<open>The string, if there is one.\<close>

definition receiveDelimitedString :: "'w fdcomm \<Rightarrow> 'w fdcomm \<times> string option" where
  "receiveDelimitedString c =
     (case mDelimiterPos c of
        None \<Rightarrow> (c, None)
      | Some p \<Rightarrow>
          let q = (if mDelimiter c = NL \<and> p > 0 \<and> mReceiveBuffer c ! (p - 1) = CR then p - 1 else p)
          in (c\<lparr>mReceiveBuffer := drop (p + 1) (mReceiveBuffer c), mDelimiterPos := None, fdDeferred := fdDeferred c + 1\<rparr>,
              Some (take q (mReceiveBuffer c))))"

definition deferredCheck :: "'w fdcalls \<Rightarrow> 'w fdcomm \<Rightarrow> 'w fdcomm option" where
  "deferredCheck k c = (if fdDeferred c = 0 then Some c else checkReceiveData k (c\<lparr>fdDeferred := fdDeferred c - 1\<rparr>))"

section \<open>The monitor handler\<close>

text \<open>Input, and the flags that are left.\<close>

definition monitor_input :: "'w fdcalls \<Rightarrow> fdinput \<Rightarrow> int \<Rightarrow> nat \<Rightarrow> 'w fdcomm \<Rightarrow> ('w fdcomm \<times> nat) option" where
  "monitor_input k i fd flags c =
     (case mReceiveHandler c of
        Some n \<Rightarrow>
          if poll_has flags POLLIN
          then let bytes = (if \<not> mUnknownReadyBytes c then numBytesReady (inReady i) c else 0)
               in if bytes > 0 \<or> mUnknownReadyBytes c
                  then if mDelimiter c \<noteq> NUL
                       then do {
                         (s, _) \<leftarrow> receiveAndAppendToString i (-1) (mReceiveBuffer c) c;
                         d \<leftarrow> checkReceiveData k (c\<lparr>mReceiveBuffer := s\<rparr>);
                         Some (d, flags)
                       }
                       else Some (onHandler k n c, flags)
                  else Some (onException k fd flags c, 0)
          else Some (c, flags)
      | None \<Rightarrow> Some (c, flags))"

definition dataMonitorHandler :: "'w fdcalls \<Rightarrow> fdinput \<Rightarrow> int \<Rightarrow> nat \<Rightarrow> 'w fdcomm \<Rightarrow> 'w fdcomm option" where
  "dataMonitorHandler k i fd flags0 c0 =
     do {
       (c, flags) \<leftarrow> monitor_input k i fd flags0 c0;
       Some (if poll_has flags POLLHUP then onException k fd flags c
             else if poll_has flags POLLOUT
             then let (d, sent) = sendBufferedData c
                  in (case mTransmitHandler d of Some n \<Rightarrow> if \<not> sent then onHandler k n d else d | None \<Rightarrow> d)
             else if poll_has flags POLLERR then onException k fd flags c
             else c)
     }"

section \<open>Collecting to the end\<close>

record collector =
  mEnded :: bool
  mEndedCallback :: "nat option"
  mCollectedData :: string
  endedCalls :: "nat list"

type_synonym string_collector = "collector fdcomm"

text \<open>The receive handler of a collector has number 0; \<open>endedCalls\<close> are the calls of the callbacks.\<close>

definition new_collector :: "mainloop \<Rightarrow> string_collector" where
  "new_collector m =
     setReceiveHandler (Some 0) NUL (new_fdcomm m [] \<lparr>mEnded = False, mEndedCallback = None, mCollectedData = [], endedCalls = []\<rparr>)"

definition gotData :: "fdinput \<Rightarrow> bool \<Rightarrow> string_collector \<Rightarrow> string_collector option" where
  "gotData i err c =
     (if \<not> err then map_option (\<lambda>(s, _). c\<lparr>fdWorld := (fdWorld c)\<lparr>mCollectedData := s\<rparr>\<rparr>)
                       (receiveAndAppendToString i (-1) (mCollectedData (fdWorld c)) c)
      else Some (c\<lparr>fdWorld := (fdWorld c)\<lparr>mEnded := True\<rparr>\<rparr>))"

definition collectorException :: "nat \<Rightarrow> string_collector \<Rightarrow> string_collector" where
  "collectorException flags c0 =
     (if poll_has flags (POLLHUP OR POLLIN OR POLLERR)
      then let c = setReceiveHandler None NUL c0; w = fdWorld c;
               calls = (case mEndedCallback w of Some n \<Rightarrow> if \<not> mEnded w then [n] else [] | None \<Rightarrow> [])
           in c\<lparr>fdWorld := w\<lparr>endedCalls := endedCalls w @ calls, mEnded := True\<rparr>\<rparr>
      else c0)"

definition collectToEnd :: "nat option \<Rightarrow> string_collector \<Rightarrow> string_collector" where
  "collectToEnd cb c =
     (let w = (fdWorld c)\<lparr>mEndedCallback := cb\<rparr>
      in c\<lparr>fdWorld :=
           (if mEnded w then (case cb of Some n \<Rightarrow> w\<lparr>endedCalls := endedCalls w @ [n], mEndedCallback := None\<rparr> | None \<Rightarrow> w) else w)\<rparr>)"

end
