(* ===== verification/FdLaws.thy ===== *)
theory FdLaws
  imports FdComm
begin

text \<open>
  Bytes leave in the order of sending and none is lost; delimited strings arrive whole, however the data comes in
  pieces; and when buffered data does not leave.
\<close>

section \<open>Sending\<close>

text \<open>What was given to the descriptor and what waits for it.\<close>

definition out :: "'w fdcomm \<Rightarrow> string" where
  "out c = fdWritten c @ mTransmitBuffer c"

lemma out_fd_loop [simp]: "out (fd_loop f c) = out c" "mTransmitBuffer (fd_loop f c) = mTransmitBuffer c" "fdWritten (fd_loop f c) = fdWritten c"
  "mTransmitHandler (fd_loop f c) = mTransmitHandler c" "mDataFd (fd_loop f c) = mDataFd c" "fdWrites (fd_loop f c) = fdWrites c"
  by (simp_all add: fd_loop_def out_def)

lemma out_settings [simp]:
  "out (setFd fd u c) = out c" "out (stopMonitoringAndClose c) = out c" "out (setReceiveHandler hnd d c) = out c"
  "out (setTransmitHandler hnd c) = out c"
  by (simp_all add: setFd_def stopMonitoringAndClose_def setReceiveHandler_def setTransmitHandler_def Let_def out_def)

lemma transmitBytes_out:
  "transmitBytes b c = (d, n, e) \<Longrightarrow> fdWritten d = fdWritten c @ take n b \<and> mTransmitBuffer d = mTransmitBuffer c \<and> n \<le> length b"
  by (auto simp: transmitBytes_def Let_def split: if_splits)

lemma out_sendBufferedData [simp]: "out (fst (sendBufferedData c)) = out c"
proof -
  obtain d n e where t: "transmitBytes (mTransmitBuffer c) c = (d, n, e)" using prod_cases3 by blast
  show ?thesis using transmitBytes_out [OF t] t by (auto simp: sendBufferedData_def out_def Let_def)
qed

lemma out_sendString [simp]: "out (sendString s c) = out c @ s"
proof (cases "mTransmitBuffer c = []")
  case True
  let ?d = "if mTransmitHandler c = None then fd_loop (changePollFlags (mDataFd c) POLLOUT (Some 0)) c else c"
  have "out (?d\<lparr>mTransmitBuffer := s\<rparr>) = out c @ s" using True by (simp add: out_def)
  then show ?thesis using True by (simp add: sendString_def Let_def)
next
  case False
  then show ?thesis by (simp add: sendString_def out_def)
qed

text \<open>
  Callbacks may send too. What they send is recorded in the world they change: \<open>said\<close> reads it. From \<open>c\<close> to \<open>d\<close>
  only callbacks were at work, and what they have said is what was added to the output.
\<close>

definition only_said :: "('w \<Rightarrow> string) \<Rightarrow> 'w fdcomm \<Rightarrow> 'w fdcomm \<Rightarrow> bool" where
  "only_said said c d \<longleftrightarrow> (\<exists>t. out d = out c @ t \<and> said (fdWorld d) = said (fdWorld c) @ t)"

definition callbacks_record :: "('w \<Rightarrow> string) \<Rightarrow> 'w fdcalls \<Rightarrow> bool" where
  "callbacks_record said k \<longleftrightarrow> (\<forall>n c. only_said said c (onHandler k n c)) \<and> (\<forall>fd f c. only_said said c (onException k fd f c))"

lemma callbacks_recordD:
  "callbacks_record said k \<Longrightarrow> only_said said c (onHandler k n c)" "callbacks_record said k \<Longrightarrow> only_said said c (onException k fd f c)"
  by (simp_all add: callbacks_record_def)

lemma only_said_refl: "out d = out c \<Longrightarrow> fdWorld d = fdWorld c \<Longrightarrow> only_said said c d"
  by (simp add: only_said_def)

lemma only_said_trans: "only_said said c d \<Longrightarrow> only_said said d e \<Longrightarrow> only_said said c e"
  by (auto simp: only_said_def)

lemma only_said_cong: "out c' = out c \<Longrightarrow> fdWorld c' = fdWorld c \<Longrightarrow> only_said said c' d = only_said said c d"
  by (simp add: only_said_def)

lemma out_receive_fields [simp]: "out (c\<lparr>mReceiveBuffer := s\<rparr>) = out c" "out (c\<lparr>mDelimiterPos := p\<rparr>) = out c" "out (c\<lparr>fdDeferred := n\<rparr>) = out c"
  by (simp_all add: out_def)

lemma world_simps [simp]:
  "fdWorld (fd_loop f c) = fdWorld c" "fdWorld (setFd fd u c) = fdWorld c" "fdWorld (stopMonitoringAndClose c) = fdWorld c"
  "fdWorld (setReceiveHandler hnd d c) = fdWorld c" "fdWorld (setTransmitHandler hnd c) = fdWorld c"
  "fdWorld (fst (sendBufferedData c)) = fdWorld c" "fdWorld (sendString s c) = fdWorld c"
  by (auto simp: fd_loop_def setFd_def stopMonitoringAndClose_def setReceiveHandler_def setTransmitHandler_def Let_def
      sendBufferedData_def transmitBytes_def sendString_def)

lemma only_said_fields [simp]:
  "only_said said (c\<lparr>mDelimiterPos := p\<rparr>) d = only_said said c d" "only_said said (c\<lparr>mReceiveBuffer := s\<rparr>) d = only_said said c d"
  "only_said said (c\<lparr>fdDeferred := n\<rparr>) d = only_said said c d"
  by (simp_all add: only_said_def)

lemma said_checkReceiveData:
  assumes "checkReceiveData k c = Some d" "callbacks_record said k"
  shows "only_said said c d"
proof -
  have "only_said said c (onHandler k n (c\<lparr>mDelimiterPos := p\<rparr>))" for n p
    using callbacks_recordD(1) [OF assms(2), of "c\<lparr>mDelimiterPos := p\<rparr>" n] by simp
  then show ?thesis using assms(1) by (auto simp: checkReceiveData_def Let_def only_said_refl split: if_splits option.splits)
qed

lemma said_check_appended:
  "checkReceiveData k (c\<lparr>mReceiveBuffer := s\<rparr>) = Some d \<Longrightarrow> callbacks_record said k \<Longrightarrow> only_said said c d"
  by (drule said_checkReceiveData) simp_all

lemma said_deferredCheck: "deferredCheck k c = Some d \<Longrightarrow> callbacks_record said k \<Longrightarrow> only_said said c d"
  using said_checkReceiveData [of k "c\<lparr>fdDeferred := fdDeferred c - 1\<rparr>" d said]
  by (auto simp: deferredCheck_def only_said_refl split: if_splits)

lemma said_monitor_input: "monitor_input k i fd f c = Some (d, f') \<Longrightarrow> callbacks_record said k \<Longrightarrow> only_said said c d"
  by (auto simp: monitor_input_def callbacks_recordD only_said_refl dest: said_check_appended split: option.splits if_splits bind_splits prod.splits)

lemma said_dataMonitorHandler: "dataMonitorHandler k i fd f c = Some d \<Longrightarrow> callbacks_record said k \<Longrightarrow> only_said said c d"
proof -
  assume e: "dataMonitorHandler k i fd f c = Some d" and k: "callbacks_record said k"
  then obtain c1 f1 where m: "monitor_input k i fd f c = Some (c1, f1)" by (auto simp: dataMonitorHandler_def split: bind_splits)
  obtain c2 b where s: "sendBufferedData c1 = (c2, b)" by fastforce
  then have c2: "out c2 = out c1" "fdWorld c2 = fdWorld c1" using out_sendBufferedData [of c1] world_simps(6) [of c1] by simp_all
  have "only_said said c1 d"
  proof -
    have "only_said said c1 (onHandler k n c2)" for n
      using callbacks_recordD(1) [OF k, of c2 n] only_said_cong [OF c2, of said] by simp
    then show ?thesis
      using e m s c2 by (auto simp: dataMonitorHandler_def callbacks_recordD(2) [OF k] only_said_refl split: if_splits option.splits)
  qed
  with said_monitor_input [OF m k] show ?thesis by (rule only_said_trans)
qed

text \<open>What happens to a connection.\<close>

datatype fd_event =
    SendString string | Monitored fdinput int nat | DeferredCheck | SetFd int bool | StopMonitoring
  | SetReceiveHandler "nat option" char | SetTransmitHandler "nat option"

fun fd_step :: "'w fdcalls \<Rightarrow> fd_event \<Rightarrow> 'w fdcomm \<Rightarrow> 'w fdcomm option" where
  "fd_step k (SendString s) c = Some (sendString s c)"
| "fd_step k (Monitored i fd f) c = dataMonitorHandler k i fd f c"
| "fd_step k DeferredCheck c = deferredCheck k c"
| "fd_step k (SetFd fd u) c = Some (setFd fd u c)"
| "fd_step k StopMonitoring c = Some (stopMonitoringAndClose c)"
| "fd_step k (SetReceiveHandler hnd d) c = Some (setReceiveHandler hnd d c)"
| "fd_step k (SetTransmitHandler hnd) c = Some (setTransmitHandler hnd c)"

fun fd_run :: "'w fdcalls \<Rightarrow> fd_event list \<Rightarrow> 'w fdcomm \<Rightarrow> 'w fdcomm option" where
  "fd_run k [] c = Some c"
| "fd_run k (e # es) c = Option.bind (fd_step k e c) (fd_run k es)"

fun sent_by :: "fd_event \<Rightarrow> string" where
  "sent_by (SendString s) = s"
| "sent_by _ = []"

lemma said_fd_step:
  assumes "fd_step k e c = Some d" "callbacks_record said k"
  shows "\<exists>t. said (fdWorld d) = said (fdWorld c) @ t \<and> (\<exists>x\<in>shuffles (sent_by e) t. out d = out c @ x)"
proof (cases "\<exists>s. e = SendString s")
  case True
  then obtain s where s: "e = SendString s" by blast
  with assms(1) have "d = sendString s c" by simp
  then show ?thesis using s by (intro exI [of _ "[]"]) simp
next
  case False
  then have "only_said said c d" "sent_by e = []"
    using assms by (cases e; auto simp: only_said_refl dest: said_dataMonitorHandler said_deferredCheck)+
  then show ?thesis by (auto simp: only_said_def)
qed

lemma shuffles_append: "x \<in> shuffles a b \<Longrightarrow> y \<in> shuffles c d \<Longrightarrow> x @ y \<in> shuffles (a @ c) (b @ d)"
proof (induction x arbitrary: a b)
  case (Cons z x)
  then consider (left) a' where "a = z # a'" "x \<in> shuffles a' b" | (right) b' where "b = z # b'" "x \<in> shuffles a b'"
    by (auto simp: Cons_in_shuffles_iff neq_Nil_conv)
  then show ?case
    by cases (use Cons in \<open>auto simp: Cons_in_shuffles_iff\<close>)
qed simp

text \<open>C28: Whatever happens on a connection (strings sent, input and output events, short and failing writes, handlers set and
  removed, the descriptor changed, callbacks that send strings of their own), what was written so far,
  followed by what waits in the buffer, has grown by exactly what was sent with \<open>sendString\<close> from
  outside, in order, merged with exactly what the callbacks have sent, in their order: no byte is lost,
  repeated or overtaken.\<close>

theorem bytes_leave_in_order:
  assumes "fd_run k es c = Some d" "callbacks_record said k"
  shows "\<exists>t x. said (fdWorld d) = said (fdWorld c) @ t \<and> x \<in> shuffles (concat (map sent_by es)) t \<and>
     fdWritten d @ mTransmitBuffer d = (fdWritten c @ mTransmitBuffer c) @ x"
proof -
  have "\<exists>t. said (fdWorld d) = said (fdWorld c) @ t \<and> (\<exists>x\<in>shuffles (concat (map sent_by es)) t. out d = out c @ x)"
    using assms(1)
  proof (induction es arbitrary: c)
    case (Cons e es)
    then obtain c1 where c1: "fd_step k e c = Some c1" "fd_run k es c1 = Some d" by (auto split: bind_splits)
    from said_fd_step [OF c1(1) assms(2)] obtain t x where a: "said (fdWorld c1) = said (fdWorld c) @ t"
      "x \<in> shuffles (sent_by e) t" "out c1 = out c @ x" by blast
    from Cons.IH [OF c1(2)] obtain u y where b: "said (fdWorld d) = said (fdWorld c1) @ u"
      "y \<in> shuffles (concat (map sent_by es)) u" "out d = out c1 @ y" by blast
    have "x @ y \<in> shuffles (concat (map sent_by (e # es))) (t @ u)" using shuffles_append [OF a(2) b(2)] by simp
    then show ?case using a b by (intro exI [of _ "t @ u"]) auto
  qed simp
  then show ?thesis by (auto simp: out_def)
qed

definition no_calls :: "'w fdcalls" where
  "no_calls = \<lparr>onHandler = \<lambda>_ c. c, onException = \<lambda>_ _ c. c\<rparr>"

text \<open>Callbacks that answer: every handler sends an exclamation mark, and records it.\<close>

definition answering :: "string fdcalls" where
  "answering = \<lparr>onHandler = \<lambda>_ c. (sendString ''!'' c)\<lparr>fdWorld := fdWorld c @ ''!''\<rparr>, onException = \<lambda>_ _ c. c\<rparr>"

definition no_input :: fdinput where
  "no_input = \<lparr>inReady = 0, inReadyToRead = 0, inRead = None\<rparr>"

text \<open>A connection for the witnesses: descriptor 5, with the answers to \<open>write\<close>.\<close>

definition sample_fd :: "int list \<Rightarrow> unit fdcomm" where
  "sample_fd ws = setFd 5 False (new_fdcomm (new_mainloop) ws ())"

text \<open>A connection with a transmit handler that answers when the buffer has become empty.\<close>

definition answering_fd :: "string fdcomm" where
  "answering_fd = setTransmitHandler (Some 1) (setFd 5 False (new_fdcomm (new_mainloop) [2, -1, 9, 1] []))"

theorem bytes_leave_in_order_witness:
  "\<exists>d. fd_run answering [SendString ''hello'', SendString '' world'', Monitored no_input 5 POLLOUT, Monitored no_input 5 POLLOUT,
       Monitored no_input 5 POLLOUT, SendString ''.''] answering_fd = Some d \<and>
     fdWorld d = ''!'' \<and> fdWritten d @ mTransmitBuffer d \<in> shuffles ''hello world.'' ''!''"
proof -
  let ?r = "fd_run answering [SendString ''hello'', SendString '' world'', Monitored no_input 5 POLLOUT, Monitored no_input 5 POLLOUT,
       Monitored no_input 5 POLLOUT, SendString ''.''] answering_fd"
  have "map_option fdWorld ?r = Some ''!''" by code_simp
  then obtain d where d: "?r = Some d" "fdWorld d = ''!''" by auto
  have "out (c\<lparr>fdWorld := w\<rparr>) = out c" for c :: "string fdcomm" and w by (simp add: out_def)
  then have "callbacks_record (\<lambda>w. w) answering" by (simp add: callbacks_record_def only_said_def answering_def)
  from bytes_leave_in_order [OF d(1) this] d show ?thesis
    by (auto simp: answering_fd_def new_fdcomm_def setFd_def setTransmitHandler_def fd_loop_def Let_def)
qed

text \<open>The main loop watches the descriptor for the event.\<close>

definition asks_for :: "nat \<Rightarrow> 'w fdcomm \<Rightarrow> bool" where
  "asks_for f c \<longleftrightarrow> (case map_of (mIoPollHandlers (fdLoop c)) (mDataFd c) of Some h \<Rightarrow> poll_has (pollFlags h) f | None \<Rightarrow> False)"

definition watched :: "'w fdcomm \<Rightarrow> bool" where
  "watched c \<longleftrightarrow> 0 \<le> mDataFd c \<and> map_of (mIoPollHandlers (fdLoop c)) (mDataFd c) \<noteq> None"

lemma map_of_om_set: "map_of (om_set k v m) k' = (if k' = k then Some v else map_of m k')"
  by (induction k v m rule: om_set.induct) auto

lemma poll_bits: "poll_has f POLLIN = bit f 0" "poll_has f POLLOUT = bit f 2" "poll_has f POLLERR = bit f 3" "poll_has f POLLHUP = bit f 4"
  using and_exp_eq_0_iff_not_bit [of f 0] and_exp_eq_0_iff_not_bit [of f 2] and_exp_eq_0_iff_not_bit [of f 3] and_exp_eq_0_iff_not_bit [of f 4]
  by (simp_all add: poll_has_def POLLIN_def POLLOUT_def POLLERR_def POLLHUP_def)

lemma asks_after_set: "watched c \<Longrightarrow> asks_for POLLOUT (fd_loop (changePollFlags (mDataFd c) POLLOUT (Some 0)) c)"
proof -
  assume "watched c"
  then obtain h where "map_of (mIoPollHandlers (fdLoop c)) (mDataFd c) = Some h" by (auto simp: watched_def)
  moreover have "poll_has (x OR POLLOUT) POLLOUT" for x :: nat by (simp add: poll_bits bit_or_iff) (simp add: POLLOUT_def bit_iff_odd)
  ultimately show ?thesis by (simp add: asks_for_def changePollFlags_def fd_loop_def map_of_om_set)
qed

lemma asks_after_clear: "watched c \<Longrightarrow> \<not> asks_for POLLOUT (fd_loop (changePollFlags (mDataFd c) 0 (Some POLLOUT)) c)"
proof -
  assume "watched c"
  then obtain h where "map_of (mIoPollHandlers (fdLoop c)) (mDataFd c) = Some h" by (auto simp: watched_def)
  moreover have "\<not> poll_has (nat (int x AND NOT (int POLLOUT))) POLLOUT" for x :: nat
    by (simp add: poll_bits bit_nat_iff bit_and_iff bit_not_iff) (simp add: POLLOUT_def bit_iff_odd)
  ultimately show ?thesis by (simp add: asks_for_def changePollFlags_def fd_loop_def map_of_om_set)
qed

lemma watched_change: "watched (fd_loop (changePollFlags fd a b) c) = watched c"
  by (auto simp: watched_def fd_loop_def changePollFlags_def map_of_om_set Let_def split: option.split)

lemma output_event: "mTransmitHandler c = None \<Longrightarrow> dataMonitorHandler k i fd POLLOUT c = Some (fst (sendBufferedData c))"
proof -
  assume t: "mTransmitHandler c = None"
  have f: "\<not> poll_has POLLOUT POLLIN" "poll_has POLLOUT POLLOUT" "\<not> poll_has POLLOUT POLLHUP"
    by (simp_all add: poll_has_def POLLIN_def POLLOUT_def POLLHUP_def)
  obtain d b where s: "sendBufferedData c = (d, b)" by fastforce
  have "mTransmitHandler d = None"
    using s t by (auto simp: sendBufferedData_def transmitBytes_def Let_def split: if_splits)
  then show ?thesis using f s by (simp add: dataMonitorHandler_def monitor_input_def split: option.split)
qed

lemma output_progress:
  assumes "0 \<le> mDataFd c" "mTransmitBuffer c \<noteq> []" "fdWrites c = r # rs" "0 < r"
  shows "\<exists>d. fst (sendBufferedData c) = d \<and> length (mTransmitBuffer d) < length (mTransmitBuffer c) \<and> fdWrites d = rs \<and> out d = out c \<and>
     mDataFd d = mDataFd c \<and> mTransmitHandler d = mTransmitHandler c \<and> fdLoop d = fdLoop c"
proof -
  have l: "0 < length (mTransmitBuffer c)" using assms(2) by simp
  have "out (fst (sendBufferedData c)) = out c" by simp
  then show ?thesis using assms l by (auto simp: sendBufferedData_def transmitBytes_def Let_def)
qed

lemma no_output_progress:
  assumes "mTransmitBuffer c \<noteq> []" "fdWrites c = r # rs" "r \<le> 0" "0 \<le> mDataFd c"
  shows "fst (sendBufferedData c) = c\<lparr>fdWrites := rs\<rparr>"
  using assms by (auto simp: sendBufferedData_def transmitBytes_def Let_def)

text \<open>The number of writes, among the next \<open>n\<close>, that take at least a byte.\<close>

definition taking :: "nat \<Rightarrow> 'w fdcomm \<Rightarrow> nat" where
  "taking n c = length (filter (\<lambda>r. 0 < r) (take n (fdWrites c)))"

lemma buffer_drains:
  assumes "watched c" "mTransmitHandler c = None" "length (mTransmitBuffer c) \<le> taking n c"
  shows "\<exists>d. fd_run k (replicate (Suc n) (Monitored i fd POLLOUT)) c = Some d \<and> mTransmitBuffer d = [] \<and> fdWritten d = out c \<and> \<not> asks_for POLLOUT d"
  using assms
proof (induction n arbitrary: c)
  case 0
  then have e: "mTransmitBuffer c = []" by (simp add: taking_def)
  then have "fst (sendBufferedData c) = fd_loop (changePollFlags (mDataFd c) 0 (Some POLLOUT)) c"
    using "0.prems"(2) by (simp add: sendBufferedData_def)
  then show ?case using "0.prems" e by (simp add: output_event asks_after_clear out_def)
next
  case (Suc n)
  have fd: "0 \<le> mDataFd c" using Suc.prems(1) by (simp add: watched_def)
  consider (empty) "mTransmitBuffer c = []" | (some) r rs where "mTransmitBuffer c \<noteq> []" "fdWrites c = r # rs"
    using Suc.prems(3) by (cases "fdWrites c") (auto simp: taking_def)
  then have "\<exists>d. d = fst (sendBufferedData c) \<and> watched d \<and> mTransmitHandler d = None \<and> length (mTransmitBuffer d) \<le> taking n d \<and> out d = out c"
  proof cases
    case empty
    let ?d = "fd_loop (changePollFlags (mDataFd c) 0 (Some POLLOUT)) c"
    have "fst (sendBufferedData c) = ?d" using empty Suc.prems(2) by (simp add: sendBufferedData_def)
    then show ?thesis using empty Suc.prems(1,2) watched_change [of "mDataFd c" 0 "Some POLLOUT" c] by simp
  next
    case (some r rs)
    show ?thesis
    proof (cases "0 < r")
      case True
      from output_progress [OF fd some True] some(2) True Suc.prems show ?thesis by (auto simp: watched_def taking_def)
    next
      case False
      have "fst (sendBufferedData c) = c\<lparr>fdWrites := rs\<rparr>" using no_output_progress [OF some] False fd by simp
      then show ?thesis using some(2) False Suc.prems by (simp add: watched_def taking_def out_def)
    qed
  qed
  then show ?case using Suc.IH [of "fst (sendBufferedData c)"] by (auto simp: output_event [OF Suc.prems(2)])
qed

text \<open>C29: A string sent on a connection that the main loop watches, with no transmit handler and nothing else waiting,
  makes the loop watch for output too. When of the next \<open>m\<close> writes (the first is tried by \<open>sendString\<close> itself,
  the others at output events) as many take at least one byte as the string has bytes, however many of
  the others fail or take nothing, then \<open>m\<close> output events suffice: all of it is written, and the
  watching for output has ended.\<close>

theorem sent_string_leaves:
  assumes "watched c" "mTransmitHandler c = None" "mTransmitBuffer c = []" "s \<noteq> []" "length s \<le> taking m c"
  shows "asks_for POLLOUT (sendString s c) \<and>
     (\<exists>d. fd_run k (replicate m (Monitored i fd POLLOUT)) (sendString s c) = Some d \<and>
        mTransmitBuffer d = [] \<and> fdWritten d = fdWritten c @ s \<and> \<not> asks_for POLLOUT d)"
proof -
  define c1 where "c1 = (fd_loop (changePollFlags (mDataFd c) POLLOUT (Some 0)) c)\<lparr>mTransmitBuffer := s\<rparr>"
  have s: "sendString s c = fst (sendBufferedData c1)" using assms(2,3) by (simp add: sendString_def c1_def)
  have c1: "fdWrites c1 = fdWrites c" "mTransmitBuffer c1 = s" "mTransmitBuffer c1 \<noteq> []" "0 \<le> mDataFd c1" "mTransmitHandler c1 = None"
    "asks_for POLLOUT c1" "watched c1"
    using assms(1,2,4) asks_after_set [OF assms(1)] watched_change [of "mDataFd c" POLLOUT "Some 0" c]
    by (simp_all add: c1_def asks_for_def watched_def)
  have o: "out c1 = fdWritten c @ s" by (simp add: c1_def out_def)
  obtain n where m: "m = Suc n" using assms(4,5) by (cases m) (auto simp: taking_def)
  obtain r rs where w: "fdWrites c1 = r # rs" using assms(4,5) c1(1) by (cases "fdWrites c") (auto simp: taking_def)
  let ?d = "fst (sendBufferedData c1)"
  have d: "length (mTransmitBuffer ?d) \<le> taking n ?d \<and> watched ?d \<and> mTransmitHandler ?d = None \<and> asks_for POLLOUT ?d"
  proof (cases "0 < r")
    case True
    from output_progress [OF c1(4,3) w True] w True c1 assms(5) m show ?thesis by (auto simp: watched_def taking_def asks_for_def)
  next
    case False
    have "fst (sendBufferedData c1) = c1\<lparr>fdWrites := rs\<rparr>" using no_output_progress [OF c1(3) w] False c1(4) by simp
    then show ?thesis using w False c1 assms(5) m by (simp add: watched_def taking_def asks_for_def)
  qed
  then have "\<exists>e. fd_run k (replicate (Suc n) (Monitored i fd POLLOUT)) ?d = Some e \<and> mTransmitBuffer e = [] \<and>
      fdWritten e = out ?d \<and> \<not> asks_for POLLOUT e"
    by (intro buffer_drains) simp_all
  then show ?thesis using d o by (simp add: s m)
qed

theorem sent_string_leaves_witness:
  "\<exists>d. fd_run no_calls (replicate 7 (Monitored no_input 5 POLLOUT)) (sendString ''hello'' (sample_fd [-1, 2, 1, 0, 1, 3, 1])) = Some d \<and>
     fdWritten d = ''hello''"
proof -
  let ?c = "sample_fd [-1, 2, 1, 0, 1, 3, 1]"
  have w: "watched ?c"
    by (simp add: watched_def sample_fd_def new_fdcomm_def setFd_def Let_def fd_loop_def registerPollHandler_def map_of_om_set)
  have c: "mTransmitHandler ?c = None" "mTransmitBuffer ?c = []" "fdWrites ?c = [-1, 2, 1, 0, 1, 3, 1]" "fdWritten ?c = []"
    by (simp_all add: sample_fd_def new_fdcomm_def setFd_def Let_def fd_loop_def)
  have "''hello'' \<noteq> []" "length ''hello'' \<le> taking 7 ?c" by (simp_all add: taking_def c eval_nat_numeral)
  from sent_string_leaves [OF w c(1,2) this, of no_calls no_input 5]
  have "\<exists>d. fd_run no_calls (replicate 7 (Monitored no_input 5 POLLOUT)) (sendString ''hello'' ?c) = Some d \<and>
     fdWritten d = fdWritten ?c @ ''hello''" by blast
  then show ?thesis unfolding c append_Nil .
qed

section \<open>Output that is stuck\<close>

text \<open>A string sent before the descriptor is known waits in the buffer; when the descriptor is set, the main loop is
  asked for output events only if there is a transmit handler, and further strings are only appended: without
  a handler nothing is ever written.\<close>

theorem sent_before_open_is_stuck:
  fixes m :: mainloop and x :: 'w and ws :: "int list" and u :: bool
  assumes "s \<noteq> []" "0 \<le> fd"
  defines "c \<equiv> setFd fd u (sendString s (new_fdcomm m ws x))"
  shows "fdWritten (fold sendString ss c) = [] \<and> mTransmitBuffer (fold sendString ss c) = s @ concat ss \<and> \<not> asks_for POLLOUT (fold sendString ss c)"
proof -
  define c0 where "c0 = sendString s (new_fdcomm m ws x)"
  have c0: "mTransmitBuffer c0 = s" "fdWritten c0 = []" "mTransmitHandler c0 = None" "mReceiveHandler c0 = None" "mDataFd c0 = -1"
    using assms(1) by (simp_all add: c0_def sendString_def new_fdcomm_def sendBufferedData_def transmitBytes_def fd_loop_def)
  have c: "mTransmitBuffer c = s" "fdWritten c = []" "mDataFd c = fd" "fdLoop c = registerPollHandler fd 0 (Some 0) (fdLoop c0)"
    using assms(2) c0 by (simp_all add: c_def c0_def [symmetric] setFd_def Let_def fd_loop_def)
  have n: "\<not> asks_for POLLOUT c" using c by (simp add: asks_for_def registerPollHandler_def map_of_om_set poll_has_def)
  have "fdWritten (fold sendString ss d) = [] \<and> mTransmitBuffer (fold sendString ss d) = mTransmitBuffer d @ concat ss \<and> \<not> asks_for POLLOUT (fold sendString ss d)"
    if "mTransmitBuffer d \<noteq> []" "fdWritten d = []" "\<not> asks_for POLLOUT d" for d :: "'w fdcomm"
    using that
  proof (induction ss arbitrary: d)
    case (Cons t ss)
    have "sendString t d = d\<lparr>mTransmitBuffer := mTransmitBuffer d @ t\<rparr>" using Cons.prems(1) by (simp add: sendString_def)
    then show ?case using Cons.prems Cons.IH [of "sendString t d"] by (simp add: asks_for_def)
  qed simp
  from this [of c] c n assms(1) show ?thesis by simp
qed

theorem sent_before_open_is_stuck_witness:
  "mTransmitBuffer (fold sendString [''b'', ''c''] (setFd 5 False (sendString ''a'' (new_fdcomm new_mainloop [1, 1, 1] ())))) = ''abc''"
  using sent_before_open_is_stuck [of "''a''" 5 "[''b'', ''c'']" False new_mainloop "[1, 1, 1]" "()"] by simp

text \<open>A transmit handler that is set cannot be replaced by another one: the new one is ignored.\<close>

theorem transmit_handler_not_replaced:
  assumes "mTransmitHandler c = Some a"
  shows "setTransmitHandler (Some b) c = c \<and> mReceiveHandler (setReceiveHandler (Some b) d c) = Some b"
  using assms by (simp add: setTransmitHandler_def setReceiveHandler_def Let_def)

theorem transmit_handler_not_replaced_witness:
  "mTransmitHandler (setTransmitHandler (Some 2) (setTransmitHandler (Some 1) (sample_fd []))) = Some 1"
  using transmit_handler_not_replaced [of "setTransmitHandler (Some 1) (sample_fd [])" 1 2]
  by (simp add: setTransmitHandler_def sample_fd_def new_fdcomm_def setFd_def fd_loop_def Let_def)

end
