(* ===== verification/FdLines.thy ===== *)
theory FdLines
  imports FdComm
begin

text \<open>
  Delimited reception: whatever pieces the input comes in, a handler that takes one string per call gets the strings
  between the delimiters, in order and whole; and the collector of strings reports the end once.
\<close>

section \<open>Splitting\<close>

lemma find_char_Some: "find_char d s = Some p \<Longrightarrow> p < length s \<and> s ! p = d \<and> d \<notin> set (take p s)"
  by (induction d s arbitrary: p rule: find_char.induct) (auto split: if_splits)

lemma find_char_None: "find_char d s = None \<longleftrightarrow> d \<notin> set s"
  by (induction d s rule: find_char.induct) auto

lemma find_char_append: "find_char d (s @ t) = (case find_char d s of Some p \<Rightarrow> Some p | None \<Rightarrow> map_option ((+) (length s)) (find_char d t))"
proof (induction d s rule: find_char.induct)
  case (2 d x xs)
  then show ?case by (cases "find_char d xs"; cases "find_char d t") auto
next
  case (1 d)
  show ?case by (cases "find_char d t") simp_all
qed

text \<open>Without the carriage return before a line feed.\<close>

definition strip_cr :: "char \<Rightarrow> string \<Rightarrow> string" where
  "strip_cr d s = (if d = NL \<and> s \<noteq> [] \<and> last s = CR then butlast s else s)"

text \<open>The reference: the complete strings, and what is left.\<close>

function delimited :: "char \<Rightarrow> string \<Rightarrow> string list \<times> string" where
  "delimited d s =
     (case find_char d s of
        None \<Rightarrow> ([], s)
      | Some p \<Rightarrow> (let (ls, r) = delimited d (drop (Suc p) s) in (strip_cr d (take p s) # ls, r)))"
  by pat_completeness auto
termination
  by (relation "measure (\<lambda>(d, s). length s)") (auto dest: find_char_Some)

declare delimited.simps [simp del]

lemma delimited_none: "find_char d s = None \<Longrightarrow> delimited d s = ([], s)"
  by (subst delimited.simps) simp

lemma delimited_some:
  "find_char d s = Some p \<Longrightarrow> delimited d s = (strip_cr d (take p s) # fst (delimited d (drop (Suc p) s)), snd (delimited d (drop (Suc p) s)))"
  by (subst delimited.simps) (simp add: case_prod_beta)

lemma delimited_append:
  "delimited d (s @ t) = (fst (delimited d s) @ fst (delimited d (snd (delimited d s) @ t)), snd (delimited d (snd (delimited d s) @ t)))"
proof (induction d s rule: delimited.induct)
  case (1 d s)
  show ?case
  proof (cases "find_char d s")
    case None
    then show ?thesis by (simp add: delimited_none)
  next
    case (Some p)
    then have p: "find_char d (s @ t) = Some p" "p < length s" using find_char_Some by (auto simp: find_char_append)
    then have "take p (s @ t) = take p s" "drop (Suc p) (s @ t) = drop (Suc p) s @ t" by simp_all
    then show ?thesis using 1 [OF Some] Some p by (simp add: delimited_some)
  qed
qed

lemma strip_take:
  assumes "p \<le> length s"
  shows "take (if d = NL \<and> p > 0 \<and> s ! (p - 1) = CR then p - 1 else p) s = strip_cr d (take p s)"
proof (cases "p > 0")
  case True
  then have ne: "take p s \<noteq> []" using assms by auto
  have "last (take p s) = s ! (p - 1)" using last_conv_nth [OF ne] True assms by simp
  moreover have "butlast (take p s) = take (p - 1) s" using assms by (simp add: butlast_take)
  ultimately show ?thesis using True ne by (simp add: strip_cr_def)
qed (simp add: strip_cr_def)

section \<open>A handler that takes one string per call\<close>

definition line_calls :: "string list fdcalls" where
  "line_calls =
     \<lparr>onHandler = \<lambda>_ c. (case receiveDelimitedString c of (d, Some s) \<Rightarrow> d\<lparr>fdWorld := fdWorld d @ [s]\<rparr> | (d, None) \<Rightarrow> d),
      onException = \<lambda>_ _ c. c\<rparr>"

text \<open>Input of a piece, and a check that the main loop runs later.\<close>

datatype rx_event = Piece string | Check

fun rx_step :: "rx_event \<Rightarrow> string list fdcomm \<Rightarrow> string list fdcomm option" where
  "rx_step (Piece s) c =
     dataMonitorHandler line_calls \<lparr>inReady = length s, inReadyToRead = length s, inRead = Some s\<rparr> (mDataFd c) POLLIN c"
| "rx_step Check c = deferredCheck line_calls c"

fun rx_run :: "rx_event list \<Rightarrow> string list fdcomm \<Rightarrow> string list fdcomm option" where
  "rx_run [] c = Some c"
| "rx_run (e # es) c = Option.bind (rx_step e c) (rx_run es)"

fun piece :: "rx_event \<Rightarrow> string" where
  "piece (Piece s) = s"
| "piece Check = []"

definition receiving :: "string list fdcomm \<Rightarrow> bool" where
  "receiving c \<longleftrightarrow> 0 \<le> mDataFd c \<and> mReceiveHandler c \<noteq> None \<and> mDelimiter c \<noteq> NUL \<and> \<not> mUnknownReadyBytes c"

text \<open>What holds between events: the strings of the input so far are those taken and those in the buffer.\<close>

definition rx_inv :: "string \<Rightarrow> string list fdcomm \<Rightarrow> bool" where
  "rx_inv input c \<longleftrightarrow> receiving c \<and> mDelimiterPos c = None \<and>
     delimited (mDelimiter c) input = (fdWorld c @ fst (delimited (mDelimiter c) (mReceiveBuffer c)), snd (delimited (mDelimiter c) (mReceiveBuffer c))) \<and>
     (mDelimiter c \<in> set (mReceiveBuffer c) \<longrightarrow> 0 < fdDeferred c)"

text \<open>The check, when the buffer has just been added to or a check is due.\<close>

lemma line_check:
  assumes "receiving c" "mDelimiterPos c = None"
    "delimited (mDelimiter c) input = (fdWorld c @ fst (delimited (mDelimiter c) (mReceiveBuffer c)), snd (delimited (mDelimiter c) (mReceiveBuffer c)))"
  shows "\<exists>d. checkReceiveData line_calls c = Some d \<and> rx_inv input d \<and> mDelimiter d = mDelimiter c \<and>
     (if mDelimiter c \<in> set (mReceiveBuffer c)
      then fdDeferred d = Suc (fdDeferred c) \<and> length (mReceiveBuffer d) < length (mReceiveBuffer c)
      else fdDeferred d = fdDeferred c \<and> mReceiveBuffer d = mReceiveBuffer c)"
proof (cases "find_char (mDelimiter c) (mReceiveBuffer c)")
  case None
  then have "mDelimiter c \<notin> set (mReceiveBuffer c)" by (simp add: find_char_None)
  then show ?thesis using assms None by (simp add: checkReceiveData_def rx_inv_def receiving_def)
next
  case (Some p)
  obtain n where n: "mReceiveHandler c = Some n" using assms(1) by (auto simp: receiving_def)
  have p: "p < length (mReceiveBuffer c)" "mReceiveBuffer c ! p = mDelimiter c" using find_char_Some [OF Some] by simp_all
  then have d: "mDelimiter c \<in> set (mReceiveBuffer c)" by (metis nth_mem)
  let ?line = "strip_cr (mDelimiter c) (take p (mReceiveBuffer c))"
  let ?d = "c\<lparr>mDelimiterPos := None, mReceiveBuffer := drop (Suc p) (mReceiveBuffer c), fdDeferred := Suc (fdDeferred c), fdWorld := fdWorld c @ [?line]\<rparr>"
  have "checkReceiveData line_calls c = Some ?d"
    using Some n assms(2) strip_take [of p "mReceiveBuffer c" "mDelimiter c"] p(1)
    by (simp add: checkReceiveData_def line_calls_def receiveDelimitedString_def Let_def)
  moreover have "rx_inv input ?d" using assms(1,3) by (simp add: rx_inv_def receiving_def delimited_some [OF Some])
  ultimately show ?thesis using p d by auto
qed

lemma piece_step:
  assumes "rx_inv input c" "s \<noteq> []"
  shows "\<exists>d. rx_step (Piece s) c = Some d \<and> rx_inv (input @ s) d \<and> mDelimiter d = mDelimiter c"
proof -
  let ?i = "\<lparr>inReady = length s, inReadyToRead = length s, inRead = Some s\<rparr>" and ?c = "c\<lparr>mReceiveBuffer := mReceiveBuffer c @ s\<rparr>"
  have r: "receiving ?c" "mDelimiterPos ?c = None" using assms(1) by (simp_all add: rx_inv_def receiving_def)
  have "delimited (mDelimiter c) (input @ s) =
     (fdWorld c @ fst (delimited (mDelimiter c) (mReceiveBuffer c @ s)), snd (delimited (mDelimiter c) (mReceiveBuffer c @ s)))"
    using assms(1) delimited_append [of "mDelimiter c" input s] delimited_append [of "mDelimiter c" "mReceiveBuffer c" s]
    by (simp add: rx_inv_def)
  then obtain d where d: "checkReceiveData line_calls ?c = Some d" "rx_inv (input @ s) d" "mDelimiter d = mDelimiter c"
    using line_check [OF r, of "input @ s"] by auto
  have "receiveAndAppendToString ?i (-1) (mReceiveBuffer c) c = Some (mReceiveBuffer c @ s, False)"
    using assms by (simp add: receiveAndAppendToString_def numBytesReady_def receiveBytes_def rx_inv_def receiving_def)
  then have "monitor_input line_calls ?i (mDataFd c) POLLIN c = Some (d, POLLIN)"
    using assms d(1) by (auto simp: monitor_input_def numBytesReady_def rx_inv_def receiving_def poll_has_def POLLIN_def)
  moreover have "\<not> poll_has POLLIN POLLHUP" "\<not> poll_has POLLIN POLLOUT" "\<not> poll_has POLLIN POLLERR"
    by (simp_all add: poll_has_def POLLIN_def POLLOUT_def POLLHUP_def POLLERR_def)
  ultimately show ?thesis using d by (simp add: dataMonitorHandler_def)
qed

lemma check_step:
  assumes "rx_inv input c"
  shows "\<exists>d. rx_step Check c = Some d \<and> rx_inv input d \<and> mDelimiter d = mDelimiter c \<and>
     (0 < fdDeferred c \<longrightarrow> length (mReceiveBuffer d) + fdDeferred d < length (mReceiveBuffer c) + fdDeferred c)"
proof (cases "fdDeferred c = 0")
  case True
  then show ?thesis using assms by (simp add: deferredCheck_def)
next
  case False
  let ?c = "c\<lparr>fdDeferred := fdDeferred c - 1\<rparr>"
  have a: "receiving ?c" "mDelimiterPos ?c = None"
    "delimited (mDelimiter ?c) input = (fdWorld ?c @ fst (delimited (mDelimiter ?c) (mReceiveBuffer ?c)), snd (delimited (mDelimiter ?c) (mReceiveBuffer ?c)))"
    using assms by (simp_all add: rx_inv_def receiving_def)
  from line_check [OF a] obtain d where d: "checkReceiveData line_calls ?c = Some d" "rx_inv input d" "mDelimiter d = mDelimiter ?c"
    "if mDelimiter ?c \<in> set (mReceiveBuffer ?c)
      then fdDeferred d = Suc (fdDeferred ?c) \<and> length (mReceiveBuffer d) < length (mReceiveBuffer ?c)
      else fdDeferred d = fdDeferred ?c \<and> mReceiveBuffer d = mReceiveBuffer ?c"
    by blast
  have "length (mReceiveBuffer d) + fdDeferred d < length (mReceiveBuffer c) + fdDeferred c"
    using d(4) False by (cases "mDelimiter c \<in> set (mReceiveBuffer c)") simp_all
  with d(1-3) show ?thesis using False by (intro exI [of _ d]) (simp add: deferredCheck_def)
qed

lemma rx_run_inv:
  assumes "rx_inv input c" "list_all (\<lambda>e. e = Check \<or> piece e \<noteq> []) es"
  shows "\<exists>d. rx_run es c = Some d \<and> rx_inv (input @ concat (map piece es)) d \<and> mDelimiter d = mDelimiter c"
  using assms
proof (induction es arbitrary: input c)
  case (Cons e es)
  show ?case
  proof (cases e)
    case (Piece s)
    then have "s \<noteq> []" using Cons.prems(2) by simp
    from piece_step [OF Cons.prems(1) this] obtain d where d: "rx_step e c = Some d" "rx_inv (input @ s) d" "mDelimiter d = mDelimiter c"
      using Piece by blast
    have "list_all (\<lambda>e. e = Check \<or> piece e \<noteq> []) es" using Cons.prems(2) by simp
    from Cons.IH [OF d(2) this] d(1,3) Piece show ?thesis by simp
  next
    case Check
    from check_step [OF Cons.prems(1)] obtain d where d: "rx_step e c = Some d" "rx_inv input d" "mDelimiter d = mDelimiter c"
      using Check by blast
    have "list_all (\<lambda>e. e = Check \<or> piece e \<noteq> []) es" using Cons.prems(2) by simp
    from Cons.IH [OF d(2) this] d(1,3) Check show ?thesis by simp
  qed
qed simp

lemma checks_end:
  assumes "rx_inv input c" "length (mReceiveBuffer c) + fdDeferred c \<le> n"
  shows "\<exists>d. rx_run (replicate n Check) c = Some d \<and> rx_inv input d \<and> mDelimiter d = mDelimiter c \<and> fdDeferred d = 0"
  using assms
proof (induction n arbitrary: c)
  case (Suc n)
  obtain d where d: "rx_step Check c = Some d" "rx_inv input d" "mDelimiter d = mDelimiter c"
    "0 < fdDeferred c \<longrightarrow> length (mReceiveBuffer d) + fdDeferred d < length (mReceiveBuffer c) + fdDeferred c"
    by (rule exE [OF check_step [OF Suc.prems(1)]]) (elim conjE, rule that)
  show ?case
  proof (cases "fdDeferred c = 0")
    case True
    have "rx_run (replicate m Check) c = Some c" for m using True by (induction m) (simp_all add: deferredCheck_def)
    then show ?thesis using True Suc.prems(1) by blast
  next
    case False
    then have "length (mReceiveBuffer d) + fdDeferred d \<le> n" using d(4) Suc.prems(2) by simp
    from Suc.IH [OF d(2) this] d show ?thesis by auto
  qed
qed auto

text \<open>C27: Input on a connection with a delimiter, in pieces of any size and with the checks of the main loop in between: the
  strings the handler has taken and those complete in the buffer are the strings of the whole input; and when the
  main loop has run the pending checks, all complete strings have been handed over, and the buffer has the rest.\<close>

theorem strings_arrive_whole:
  assumes "receiving c" "mDelimiterPos c = None" "mReceiveBuffer c = []" "fdWorld c = []"
    "list_all (\<lambda>e. e = Check \<or> piece e \<noteq> []) es"
  defines "strings \<equiv> delimited (mDelimiter c) (concat (map piece es))"
  shows "\<exists>d. rx_run es c = Some d \<and> fdWorld d @ fst (delimited (mDelimiter c) (mReceiveBuffer d)) = fst strings \<and>
     (\<forall>n. length (mReceiveBuffer d) + fdDeferred d \<le> n \<longrightarrow>
        (\<exists>e. rx_run (replicate n Check) d = Some e \<and> fdWorld e = fst strings \<and> mReceiveBuffer e = snd strings))"
proof -
  have "rx_inv [] c" using assms(1-4) by (simp add: rx_inv_def delimited_none)
  from rx_run_inv [OF this assms(5)] obtain d where d: "rx_run es c = Some d" "rx_inv (concat (map piece es)) d" "mDelimiter d = mDelimiter c"
    by auto
  have "\<exists>e. rx_run (replicate n Check) d = Some e \<and> fdWorld e = fst strings \<and> mReceiveBuffer e = snd strings"
    if n: "length (mReceiveBuffer d) + fdDeferred d \<le> n" for n
  proof -
    from checks_end [OF d(2) n] obtain e where e: "rx_run (replicate n Check) d = Some e" "rx_inv (concat (map piece es)) e"
      "mDelimiter e = mDelimiter c" "fdDeferred e = 0" using d(3) by auto
    then have "find_char (mDelimiter c) (mReceiveBuffer e) = None" by (simp add: rx_inv_def find_char_None)
    then show ?thesis using e by (simp add: rx_inv_def strings_def delimited_none)
  qed
  moreover have "fdWorld d @ fst (delimited (mDelimiter c) (mReceiveBuffer d)) = fst strings"
    using d(2,3) by (simp add: rx_inv_def strings_def)
  ultimately show ?thesis using d(1) by blast
qed

definition line_receiver :: "string list fdcomm" where
  "line_receiver = setReceiveHandler (Some 1) NL (setFd 5 False (new_fdcomm new_mainloop [] []))"

theorem strings_arrive_whole_witness:
  "\<exists>d. rx_run [Piece ''on'', Piece [CHR ''e'', CR, NL, CHR ''t'', NL, CHR ''x''], Check, Check] line_receiver = Some d \<and>
     fdWorld d @ fst (delimited NL (mReceiveBuffer d)) = [''one'', ''t'']"
proof -
  have "receiving line_receiver" "mDelimiterPos line_receiver = None" "mReceiveBuffer line_receiver = []" "fdWorld line_receiver = []"
    "mDelimiter line_receiver = NL"
    by (simp_all add: line_receiver_def receiving_def setReceiveHandler_def setFd_def new_fdcomm_def fd_loop_def Let_def)
  moreover have "list_all (\<lambda>e. e = Check \<or> piece e \<noteq> []) [Piece ''on'', Piece [CHR ''e'', CR, NL, CHR ''t'', NL, CHR ''x''], Check, Check]" by simp
  moreover have "fst (delimited NL [CHR ''o'', CHR ''n'', CHR ''e'', CR, NL, CHR ''t'', NL, CHR ''x'']) = [''one'', ''t'']"
    by (simp add: delimited.simps strip_cr_def)
  ultimately show ?thesis using strings_arrive_whole [of line_receiver] by fastforce
qed

section \<open>Collecting to the end\<close>

text \<open>Data that is ready for a collector, and exceptions on its descriptor.\<close>

datatype collect_event = Data string | Exception nat

definition ends :: "collect_event \<Rightarrow> bool" where
  "ends e \<longleftrightarrow> (case e of Data _ \<Rightarrow> False | Exception f \<Rightarrow> poll_has f (POLLHUP OR POLLIN OR POLLERR))"

fun collect_step :: "collect_event \<Rightarrow> string_collector \<Rightarrow> string_collector option" where
  "collect_step (Data s) c =
     (if mReceiveHandler c = None then Some c else gotData \<lparr>inReady = length s, inReadyToRead = length s, inRead = Some s\<rparr> False c)"
| "collect_step (Exception f) c = Some (collectorException f c)"

fun collect_run :: "collect_event list \<Rightarrow> string_collector \<Rightarrow> string_collector option" where
  "collect_run [] c = Some c"
| "collect_run (e # es) c = Option.bind (collect_step e c) (collect_run es)"

text \<open>The data until the first end.\<close>

fun data_to_end :: "collect_event list \<Rightarrow> string" where
  "data_to_end [] = []"
| "data_to_end (Data s # es) = s @ data_to_end es"
| "data_to_end (Exception f # es) = (if ends (Exception f) then [] else data_to_end es)"

definition collecting :: "string_collector \<Rightarrow> bool" where
  "collecting c \<longleftrightarrow> 0 \<le> mDataFd c \<and> \<not> mUnknownReadyBytes c \<and> (mEnded (fdWorld c) \<longleftrightarrow> mReceiveHandler c = None)"

lemma collect_step_keeps:
  assumes "collecting c"
  shows "\<exists>d. collect_step e c = Some d \<and> collecting d \<and> mEnded (fdWorld d) = (mEnded (fdWorld c) \<or> ends e) \<and>
     mEndedCallback (fdWorld d) = mEndedCallback (fdWorld c) \<and>
     mCollectedData (fdWorld d) = mCollectedData (fdWorld c) @ (case e of Data s \<Rightarrow> if mEnded (fdWorld c) then [] else s | _ \<Rightarrow> []) \<and>
     endedCalls (fdWorld d) = endedCalls (fdWorld c) @
       (case mEndedCallback (fdWorld c) of Some n \<Rightarrow> if ends e \<and> \<not> mEnded (fdWorld c) then [n] else [] | None \<Rightarrow> [])"
proof (cases e)
  case (Data s)
  have "receiveAndAppendToString \<lparr>inReady = length s, inReadyToRead = length s, inRead = Some s\<rparr> (-1) (mCollectedData (fdWorld c)) c =
      Some (mCollectedData (fdWorld c) @ s, False)"
    using assms by (cases s) (simp_all add: receiveAndAppendToString_def collecting_def numBytesReady_def receiveBytes_def)
  then show ?thesis using assms Data by (cases "mReceiveHandler c") (auto simp: gotData_def collecting_def ends_def split: option.split)
next
  case (Exception f)
  have d: "mDataFd (setReceiveHandler None NUL c) = mDataFd c" "mUnknownReadyBytes (setReceiveHandler None NUL c) = mUnknownReadyBytes c"
    "fdWorld (setReceiveHandler None NUL c) = fdWorld c" "mReceiveHandler (setReceiveHandler None NUL c) = None"
    by (simp_all add: setReceiveHandler_def fd_loop_def Let_def)
  show ?thesis
  proof (cases "ends e")
    case True
    then show ?thesis using assms Exception d by (auto simp: collecting_def ends_def collectorException_def Let_def split: option.split)
  next
    case False
    then show ?thesis using assms Exception by (auto simp: ends_def collectorException_def split: option.split)
  qed
qed

lemma collect_run_keeps:
  assumes "collecting c"
  shows "\<exists>d. collect_run es c = Some d \<and> collecting d \<and> mEnded (fdWorld d) = (mEnded (fdWorld c) \<or> list_ex ends es) \<and>
     mEndedCallback (fdWorld d) = mEndedCallback (fdWorld c) \<and>
     mCollectedData (fdWorld d) = mCollectedData (fdWorld c) @ (if mEnded (fdWorld c) then [] else data_to_end es) \<and>
     endedCalls (fdWorld d) = endedCalls (fdWorld c) @
       (case mEndedCallback (fdWorld c) of Some n \<Rightarrow> if list_ex ends es \<and> \<not> mEnded (fdWorld c) then [n] else [] | None \<Rightarrow> [])"
  using assms
proof (induction es arbitrary: c)
  case Nil
  then show ?case by (simp split: option.split)
next
  case (Cons e es)
  obtain d where d: "collect_step e c = Some d" "collecting d" "mEnded (fdWorld d) = (mEnded (fdWorld c) \<or> ends e)"
    "mEndedCallback (fdWorld d) = mEndedCallback (fdWorld c)"
    "mCollectedData (fdWorld d) = mCollectedData (fdWorld c) @ (case e of Data s \<Rightarrow> if mEnded (fdWorld c) then [] else s | _ \<Rightarrow> [])"
    "endedCalls (fdWorld d) = endedCalls (fdWorld c) @
       (case mEndedCallback (fdWorld c) of Some n \<Rightarrow> if ends e \<and> \<not> mEnded (fdWorld c) then [n] else [] | None \<Rightarrow> [])"
    using collect_step_keeps [OF Cons.prems, of e] by blast
  have t: "data_to_end (e # es) = (case e of Data s \<Rightarrow> s | _ \<Rightarrow> []) @ (if ends e then [] else data_to_end es)"
    by (cases e) (simp_all add: ends_def)
  obtain u where u: "collect_run es d = Some u" "collecting u" "mEnded (fdWorld u) = (mEnded (fdWorld d) \<or> list_ex ends es)"
    "mEndedCallback (fdWorld u) = mEndedCallback (fdWorld d)"
    "mCollectedData (fdWorld u) = mCollectedData (fdWorld d) @ (if mEnded (fdWorld d) then [] else data_to_end es)"
    "endedCalls (fdWorld u) = endedCalls (fdWorld d) @
       (case mEndedCallback (fdWorld d) of Some n \<Rightarrow> if list_ex ends es \<and> \<not> mEnded (fdWorld d) then [n] else [] | None \<Rightarrow> [])"
    using Cons.IH [OF d(2)] by blast
  show ?case
  proof (intro exI conjI)
    show "collect_run (e # es) c = Some u" using d(1) u(1) by simp
    show "mCollectedData (fdWorld u) = mCollectedData (fdWorld c) @ (if mEnded (fdWorld c) then [] else data_to_end (e # es))"
      using u(5) d(3,5) t by (cases e) (auto simp: ends_def)
  qed (use d u in \<open>auto split: option.split\<close>)
qed

text \<open>However the data comes in and whenever \<open>collectToEnd\<close> is called, before or after the end, its callback is called exactly
  once if the descriptor reports the end (a hang-up, an error, or input without data) at least once, and never
  if not; the data collected is what came in before the end.\<close>

theorem end_is_reported_once:
  assumes "collecting c" "fdWorld c = \<lparr>mEnded = False, mEndedCallback = None, mCollectedData = [], endedCalls = []\<rparr>"
  shows "\<exists>d e. collect_run before c = Some d \<and> collect_run rest (collectToEnd (Some n) d) = Some e \<and>
     endedCalls (fdWorld e) = (if list_ex ends (before @ rest) then [n] else []) \<and>
     mCollectedData (fdWorld e) = data_to_end (before @ rest)"
proof -
  obtain d where d: "collect_run before c = Some d" "collecting d" "mEnded (fdWorld d) = list_ex ends before"
    "mEndedCallback (fdWorld d) = None" "mCollectedData (fdWorld d) = data_to_end before" "endedCalls (fdWorld d) = []"
    using collect_run_keeps [OF assms(1), of before] assms(2) by auto
  let ?d = "collectToEnd (Some n) d"
  have c: "collecting ?d" "mEnded (fdWorld ?d) = list_ex ends before" "mCollectedData (fdWorld ?d) = data_to_end before"
    "endedCalls (fdWorld ?d) = (if list_ex ends before then [n] else [])"
    "mEndedCallback (fdWorld ?d) = (if list_ex ends before then None else Some n)"
    using d by (simp_all add: collectToEnd_def collecting_def Let_def)
  have t: "data_to_end (xs @ ys) = data_to_end xs @ (if list_ex ends xs then [] else data_to_end ys)" for xs ys
    by (induction xs rule: data_to_end.induct) (auto simp: ends_def)
  show ?thesis using collect_run_keeps [OF c(1), of rest] c d(1) t by auto
qed

theorem end_is_reported_once_witness:
  "\<exists>d e. collect_run [Data ''ab''] (setFd 5 False (new_collector new_mainloop)) = Some d \<and>
     collect_run [Data ''c'', Exception POLLHUP, Exception POLLERR, Data ''x''] (collectToEnd (Some 3) d) = Some e \<and>
     endedCalls (fdWorld e) = [3] \<and> mCollectedData (fdWorld e) = ''abc''"
proof -
  let ?c = "setFd 5 False (new_collector new_mainloop)"
  have "collecting ?c" "fdWorld ?c = \<lparr>mEnded = False, mEndedCallback = None, mCollectedData = [], endedCalls = []\<rparr>"
    by (simp_all add: collecting_def new_collector_def new_fdcomm_def setFd_def setReceiveHandler_def fd_loop_def Let_def)
  from end_is_reported_once [OF this, of "[Data ''ab'']" "[Data ''c'', Exception POLLHUP, Exception POLLERR, Data ''x'']" 3] show ?thesis
    by (simp add: ends_def poll_has_def POLLHUP_def POLLIN_def POLLERR_def)
qed

end
