(* ===== verification/SerialQueue.thy ===== *)
theory SerialQueue
  imports OpQueue "HOL-Library.Monad_Syntax"
begin

text \<open>
  The serial operation queue (\<open>serialqueue.cpp\<close>): send and receive operations, and how received bytes are given
  to the operations in the queue, directly or out of a buffer.
\<close>

section \<open>Operations\<close>

text \<open>
  What a serial operation adds to an operation: nothing if it is none (\<open>NotSerial\<close>) or of the base class, its data
  to send, its data received, or the state of a class of the client. Data not yet filled in is \<open>None\<close>; a
  receive operation holds the bytes received so far.
\<close>

record send_part =
  mSendData :: "char option list"
  mAppendIndex :: nat

record receive_part =
  mExpectedBytes :: nat
  mReceived :: string

datatype 'o serial_part = NotSerial | BaseSerial | SendOp send_part | ReceiveOp receive_part | ClientOp 'o

definition NOT_ENOUGH_BYTES :: int where "NOT_ENOUGH_BYTES = -1"

definition DEFAULT_RECEIVE_TIMEOUT :: int where "DEFAULT_RECEIVE_TIMEOUT = 3 * 1000000"

datatype SQError = SQ_OK | SQ_Transmit

definition new_send :: send_part where
  "new_send = \<lparr>mSendData = [], mAppendIndex = 0\<rparr>"

definition send_clearData :: "send_part \<Rightarrow> send_part" where
  "send_clearData s = \<lparr>mSendData = [], mAppendIndex = 0\<rparr>"

definition setDataSize :: "nat \<Rightarrow> send_part \<Rightarrow> send_part" where
  "setDataSize n s = (send_clearData s)\<lparr>mSendData := replicate n None\<rparr>"

definition appendData :: "string \<Rightarrow> send_part \<Rightarrow> send_part" where
  "appendData bytes s =
     (let n = (if mAppendIndex s + length bytes > length (mSendData s) then length (mSendData s) - mAppendIndex s else length bytes)
      in s\<lparr>mSendData := take (mAppendIndex s) (mSendData s) @ map Some (take n bytes) @ drop (mAppendIndex s + n) (mSendData s),
           mAppendIndex := mAppendIndex s + n\<rparr>)"

definition appendByte :: "char \<Rightarrow> send_part \<Rightarrow> send_part" where
  "appendByte b s = appendData [b] s"

text \<open>
  \<open>initiate\<close> of a send operation, with the number of bytes the transmitter takes (\<open>None\<close> if there is none): what it is
  given, and the callbacks called with a transmit error, when the operation is aborted before the base class initiates it.
\<close>

definition send_initiate ::
  "int \<Rightarrow> (char option list \<Rightarrow> nat) option \<Rightarrow> operation \<Rightarrow> send_part \<Rightarrow> operation \<times> send_part \<times> char option list \<times> (nat \<times> SQError) list" where
  "send_initiate t transmitter p s =
     (case transmitter of
        Some tx \<Rightarrow>
          if mSendData s \<noteq> []
          then let (q, cs) = (if tx (mSendData s) \<noteq> length (mSendData s) then abortOperation (Some OQ_Aborted) p else (p, []))
               in ((initiate t (fst q), snd q), send_clearData s, mSendData s, map (\<lambda>c. (fst c, SQ_Transmit)) cs)
          else ((initiate t (fst p), snd p), s, [], [])
      | None \<Rightarrow> ((initiate t (fst p), snd p), s, [], []))"

text \<open>The standard transmitter: the answers of the connection are the bytes it takes and whether there was an error.\<close>

fun transmit_loop :: "(nat \<times> bool) list \<Rightarrow> nat \<Rightarrow> nat \<Rightarrow> nat" where
  "transmit_loop [] n written = written"
| "transmit_loop ((r, err) # rs) n written =
     (if n = 0 \<or> err \<or> r = 0 then written else transmit_loop rs (n - r) (written + r))"

definition standardTransmitter :: "bool \<Rightarrow> (nat \<times> bool) list \<Rightarrow> char option list \<Rightarrow> nat" where
  "standardTransmitter connected rs bytes = (if connected then transmit_loop rs (length bytes) 0 else 0)"

text \<open>The standard receiver: the bytes the connection has, or an error.\<close>

definition standardReceiver :: "bool \<Rightarrow> string option \<Rightarrow> nat \<Rightarrow> string" where
  "standardReceiver is_open answer n = (if is_open then (case answer of Some s \<Rightarrow> take n s | None \<Rightarrow> []) else [])"

definition new_receive :: "operation \<Rightarrow> operation \<times> receive_part" where
  "new_receive p = (setTimeout DEFAULT_RECEIVE_TIMEOUT p, \<lparr>mExpectedBytes = 0, mReceived = []\<rparr>)"

definition setExpectedBytes :: "nat \<Rightarrow> receive_part \<Rightarrow> receive_part" where
  "setExpectedBytes n r = \<lparr>mExpectedBytes = n, mReceived = []\<rparr>"

definition receive_clearData :: "receive_part \<Rightarrow> receive_part" where
  "receive_clearData r = \<lparr>mExpectedBytes = 0, mReceived = []\<rparr>"

definition receive_abort :: "OQError option \<Rightarrow> operation \<Rightarrow> receive_part \<Rightarrow> operation \<times> receive_part \<times> call list" where
  "receive_abort err p r = (let (q, cs) = abortOperation err p in (q, receive_clearData r, cs))"

text \<open>\<open>acceptBytes\<close> of an operation; for classes of the client it is an argument, with the number accepted or \<open>NOT_ENOUGH_BYTES\<close>.\<close>

type_synonym 'o client = "opcore \<Rightarrow> 'o \<Rightarrow> string \<Rightarrow> 'o \<times> int"

fun op_acceptBytes :: "'o client \<Rightarrow> opcore \<Rightarrow> 'o serial_part \<Rightarrow> string \<Rightarrow> 'o serial_part \<times> int" where
  "op_acceptBytes cl c (ReceiveOp r) bytes =
     (if \<not> mInitiated c then (ReceiveOp r, 0)
      else let n = min (length bytes) (mExpectedBytes r)
           in (ReceiveOp \<lparr>mExpectedBytes = mExpectedBytes r - n, mReceived = mReceived r @ take n bytes\<rparr>, int n))"
| "op_acceptBytes cl c (ClientOp x) bytes = map_prod ClientOp id (cl c x bytes)"
| "op_acceptBytes cl c p bytes = (p, 0)"

fun part_completed :: "('o \<Rightarrow> bool) \<Rightarrow> 'o serial_part \<Rightarrow> bool" where
  "part_completed cl (ReceiveOp r) = (mExpectedBytes r = 0)"
| "part_completed cl (ClientOp x) = cl x"
| "part_completed cl _ = True"

section \<open>The queue\<close>

text \<open>
  \<open>sParts\<close> has the serial part of an operation by its identity; the accept buffer is its bytes in use
  (\<open>mBufferedBytes\<close> many); \<open>sExtra\<close> is the state of the handler of extra bytes.
\<close>

record ('o, 'x) serial_queue =
  sQueue :: opqueue
  sParts :: "nat \<Rightarrow> 'o serial_part"
  mAcceptBufferSize :: nat
  mAcceptBuffer :: string
  sExtra :: 'x

definition setAcceptBuffer :: "nat \<Rightarrow> ('o, 'x) serial_queue \<Rightarrow> ('o, 'x) serial_queue" where
  "setAcceptBuffer n q = q\<lparr>mAcceptBufferSize := n, mAcceptBuffer := []\<rparr>"

definition queueSerialOperation :: "operation \<Rightarrow> 'o serial_part \<Rightarrow> ('o, 'x) serial_queue \<Rightarrow> ('o, 'x) serial_queue" where
  "queueSerialOperation p s q = q\<lparr>sQueue := queueOperation p (sQueue q), sParts := (sParts q)(oid (fst p) := s)\<rparr>"

text \<open>The handler of extra bytes; none accepts no bytes.\<close>

type_synonym 'x extra_handler = "('x \<Rightarrow> string \<Rightarrow> 'x \<times> int) option"

definition acceptExtraBytes :: "'x extra_handler \<Rightarrow> 'x \<Rightarrow> string \<Rightarrow> 'x \<times> int" where
  "acceptExtraBytes hnd x bytes = (case hnd of Some f \<Rightarrow> f x bytes | None \<Rightarrow> (x, 0))"

text \<open>
  The loop that offers bytes to the operations: the parts, the last \<open>consumed\<close>, the bytes left and the number
  accepted. An operation that is not a serial one leaves \<open>consumed\<close> as it is. \<open>None\<close> when more bytes are taken off
  than there are.
\<close>

fun offer :: "'o client \<Rightarrow> operation list \<Rightarrow> (nat \<Rightarrow> 'o serial_part) \<Rightarrow> int \<Rightarrow> string \<Rightarrow> nat \<Rightarrow> ((nat \<Rightarrow> 'o serial_part) \<times> int \<times> string \<times> nat) option" where
  "offer cl [] parts consumed bytes acc = Some (parts, consumed, bytes, acc)"
| "offer cl (p # ps) parts consumed bytes acc =
     (let n = oid (fst p);
          (part, k) = (if parts n = NotSerial then (NotSerial, consumed) else op_acceptBytes cl (fst p) (parts n) bytes);
          parts' = parts(n := part)
      in if k = NOT_ENOUGH_BYTES then Some (parts', k, bytes, acc)
         else if k < 0 \<or> length bytes < nat k then None
         else let rest = drop (nat k) bytes; acc' = acc + nat k
              in if rest = [] then Some (parts', k, rest, acc') else offer cl ps parts' k rest acc')"

function offer_extra :: "'x extra_handler \<Rightarrow> 'x \<Rightarrow> int \<Rightarrow> string \<Rightarrow> nat \<Rightarrow> ('x \<times> string \<times> nat) option" where
  "offer_extra hnd x consumed bytes acc =
     (if bytes = [] \<or> consumed = NOT_ENOUGH_BYTES then Some (x, bytes, acc)
      else case acceptExtraBytes hnd x bytes of (x', k) \<Rightarrow>
        if k = 0 \<or> k = NOT_ENOUGH_BYTES then Some (x', bytes, acc)
        else if k < 0 \<or> length bytes < nat k then None
        else offer_extra hnd x' k (drop (nat k) bytes) (acc + nat k))"
  by pat_completeness auto
termination
  by (relation "measure (\<lambda>(hnd, x, consumed, bytes, acc). length bytes)") auto

declare offer_extra.simps [simp del]

text \<open>One round on the bytes there are.\<close>

definition offer_all :: "'o client \<Rightarrow> 'x extra_handler \<Rightarrow> string \<Rightarrow> nat \<Rightarrow> ('o, 'x) serial_queue \<Rightarrow> (('o, 'x) serial_queue \<times> string \<times> nat) option" where
  "offer_all cl hnd bytes acc q =
     do {
       (parts, k, rest, acc1) \<leftarrow> offer cl (ops (sQueue q)) (sParts q) 0 bytes acc;
       (x, rest2, acc2) \<leftarrow> offer_extra hnd (sExtra q) k rest acc1;
       Some (q\<lparr>sParts := parts, sExtra := x\<rparr>, rest2, acc2)
     }"

text \<open>The loop of \<open>acceptBytes\<close>: out of the buffer as long as there are new bytes and room, or directly, once.\<close>

function accept_loop :: "'o client \<Rightarrow> 'x extra_handler \<Rightarrow> string \<Rightarrow> nat \<Rightarrow> ('o, 'x) serial_queue \<Rightarrow> (('o, 'x) serial_queue \<times> nat) option" where
  "accept_loop cl hnd new acc q =
     (if new = [] then Some (q, acc)
      else if mAcceptBufferSize q > 0
      then let room = mAcceptBufferSize q - length (mAcceptBuffer q); n = min room (length new)
           in if room = 0 then Some (q, acc)
              else (case offer_all cl hnd (mAcceptBuffer q @ take n new) acc q of
                      None \<Rightarrow> None
                    | Some (q', rest, acc') \<Rightarrow> accept_loop cl hnd (drop n new) acc' (q'\<lparr>mAcceptBuffer := rest\<rparr>))
      else map_option (\<lambda>(q', _, acc'). (q', acc')) (offer_all cl hnd new acc q))"
  by pat_completeness auto
termination
  by (relation "measure (\<lambda>(cl, hnd, new, acc, q). length new)") auto

declare accept_loop.simps [simp del]

text \<open>
  \<open>acceptBytes\<close>: then the queue is processed, an operation counting as completed as its class says. Operations
  that callbacks queue have their part set before.
\<close>

definition acceptBytes ::
  "'o client \<Rightarrow> ('o \<Rightarrow> bool) \<Rightarrow> 'x extra_handler \<Rightarrow> qenv list \<Rightarrow> string \<Rightarrow> ('o, 'x) serial_queue \<Rightarrow> (('o, 'x) serial_queue \<times> nat \<times> call list) option" where
  "acceptBytes cl cmpl hnd es new q =
     do {
       (q', acc) \<leftarrow> accept_loop cl hnd new 0 q;
       (oq, cs) \<leftarrow> processOperations (map (\<lambda>e. e\<lparr>completed := \<lambda>i. part_completed cmpl (sParts q' i)\<rparr>) es) (sQueue q');
       Some (q'\<lparr>sQueue := oq\<rparr>, acc, cs)
     }"

definition RECBUFFER_SIZE :: nat where "RECBUFFER_SIZE = 100"

text \<open>\<open>receiveHandler\<close> with the receiver, if there is one.\<close>

definition receiveHandler ::
  "'o client \<Rightarrow> ('o \<Rightarrow> bool) \<Rightarrow> 'x extra_handler \<Rightarrow> qenv list \<Rightarrow> (nat \<Rightarrow> string) option \<Rightarrow> ('o, 'x) serial_queue \<Rightarrow> (('o, 'x) serial_queue \<times> call list) option" where
  "receiveHandler cl cmpl hnd es receiver q =
     (case receiver of
        None \<Rightarrow> Some (q, [])
      | Some rx \<Rightarrow>
          let bytes = rx RECBUFFER_SIZE
          in if bytes \<noteq> [] then map_option (\<lambda>(q', _, cs). (q', cs)) (acceptBytes cl cmpl hnd es bytes q) else Some (q, []))"

end
