(* ===== verification/SerialLaws.thy ===== *)
theory SerialLaws
  imports SerialQueue
begin

text \<open>
  What becomes of received bytes: the accept buffer never overflows, and every byte is accounted for; and
  where bytes are lost: behind an operation that is not a serial one, and in a full buffer.
\<close>

section \<open>Bytes in pieces\<close>

text \<open>The bytes an operation has received.\<close>

fun received :: "'o serial_part \<Rightarrow> string" where
  "received (ReceiveOp r) = mReceived r"
| "received _ = []"

text \<open>Pieces of input one after the other, with nothing processed between them.\<close>

fun accept_pieces :: "'o client \<Rightarrow> 'x extra_handler \<Rightarrow> string list \<Rightarrow> ('o, 'x) serial_queue \<Rightarrow> (('o, 'x) serial_queue \<times> nat) option" where
  "accept_pieces cl hnd [] q = Some (q, 0)"
| "accept_pieces cl hnd (b # bs) q =
     do { (q1, n) \<leftarrow> accept_loop cl hnd b 0 q; (q2, m) \<leftarrow> accept_pieces cl hnd bs q1; Some (q2, n + m) }"

text \<open>Queues for the witnesses: initiated operations with their parts.\<close>

definition sample_op :: "nat \<Rightarrow> operation" where
  "sample_op n = (initiate 1 (new_operation n), [])"

definition expecting :: "nat \<Rightarrow> 'o serial_part" where
  "expecting n = ReceiveOp (setExpectedBytes n \<lparr>mExpectedBytes = 0, mReceived = []\<rparr>)"

definition sample_serial :: "(nat \<times> 'o serial_part) list \<Rightarrow> 'x \<Rightarrow> ('o, 'x) serial_queue" where
  "sample_serial ps x =
     \<lparr>sQueue = new_queue\<lparr>ops := map (\<lambda>p. sample_op (fst p)) ps\<rparr>, sParts = (\<lambda>i. case map_of ps i of Some p \<Rightarrow> p | None \<Rightarrow> NotSerial),
      mAcceptBufferSize = 0, mAcceptBuffer = [], sExtra = x\<rparr>"

lemmas sample_serial_defs = sample_serial_def sample_op_def expecting_def setExpectedBytes_def initiate_def new_operation_def new_queue_def

definition no_client :: "unit client" where
  "no_client c x bytes = (x, 0)"

section \<open>Bytes that are lost\<close>

text \<open>A handler of extra bytes that takes all and keeps them.\<close>

definition keeping :: "string extra_handler" where
  "keeping = Some (\<lambda>x bytes. (x @ bytes, int (length bytes)))"

text \<open>When an operation that is not a serial one stands in the queue behind one that has just accepted bytes, as many bytes
  are taken off once more, since the variable still has the number of the operation before: of six bytes for
  an operation that expects two, two are lost and the handler of extra bytes gets the last two only; with three
  bytes the loop goes on reading past the end of the data.\<close>

theorem plain_operation_loses_bytes:
  "\<exists>r. accept_loop no_client keeping ''abcdef'' 0 (sample_serial [(1, expecting 2), (2, NotSerial)] []) = Some (r, 6) \<and>
     received (sParts r 1) = ''ab'' \<and> sExtra r = ''ef'' \<and>
   accept_loop no_client keeping ''abc'' 0 (sample_serial [(1, expecting 2), (2, NotSerial)] []) = None"
  by (simp add: accept_loop.simps offer_all_def offer_extra.simps sample_serial_defs keeping_def acceptExtraBytes_def NOT_ENOUGH_BYTES_def Let_def)

text \<open>Once the accept buffer is full of bytes nobody has taken, it stays so: whatever comes in is ignored, and neither the
  operations, also those queued later and waiting for exactly these bytes, nor the handler of extra bytes are
  offered anything.\<close>

theorem full_buffer_is_never_offered:
  assumes "0 < mAcceptBufferSize q" "length (mAcceptBuffer q) = mAcceptBufferSize q"
  shows "accept_pieces cl hnd bs q = Some (q, 0) \<and>
     accept_pieces cl hnd bs (queueSerialOperation p s q) = Some (queueSerialOperation p s q, 0)"
proof -
  have "accept_loop cl hnd b 0 u = Some (u, 0)" if "0 < mAcceptBufferSize u" "length (mAcceptBuffer u) = mAcceptBufferSize u"
    for b and u :: "('a, 'b) serial_queue"
    using that by (subst accept_loop.simps) simp
  then have "accept_pieces cl hnd bs u = Some (u, 0)" if "0 < mAcceptBufferSize u" "length (mAcceptBuffer u) = mAcceptBufferSize u"
    for u :: "('a, 'b) serial_queue"
    using that by (induction bs) simp_all
  then show ?thesis using assms by (simp add: queueSerialOperation_def)
qed

definition buffered_sample :: "(unit, unit) serial_queue" where
  "buffered_sample = (setAcceptBuffer 2 (sample_serial [] ()))\<lparr>mAcceptBuffer := ''xy''\<rparr>"

theorem full_buffer_is_never_offered_witness:
  "\<exists>q. accept_loop no_client None ''xyz'' 0 (setAcceptBuffer 2 (sample_serial [] ())) = Some (q, 0) \<and>
     accept_pieces no_client None [''a'', ''b''] (queueSerialOperation (sample_op 1) (expecting 2) q) = Some (queueSerialOperation (sample_op 1) (expecting 2) q, 0)"
proof -
  have "accept_loop no_client None ''xyz'' 0 (setAcceptBuffer 2 (sample_serial [] ())) = Some (buffered_sample, 0)"
    by (simp add: accept_loop.simps offer_all_def offer_extra.simps setAcceptBuffer_def sample_serial_defs acceptExtraBytes_def Let_def buffered_sample_def)
  moreover have "0 < mAcceptBufferSize buffered_sample" "length (mAcceptBuffer buffered_sample) = mAcceptBufferSize buffered_sample"
    by (simp_all add: buffered_sample_def setAcceptBuffer_def)
  ultimately show ?thesis using full_buffer_is_never_offered [of buffered_sample] by blast
qed

section \<open>The accept buffer\<close>

lemma offer_shrinks: "offer cl ps parts k bytes acc = Some (parts', k', rest, acc') \<Longrightarrow> length rest \<le> length bytes \<and> acc' + length rest = acc + length bytes"
proof (induction ps arbitrary: parts k bytes acc)
  case (Cons p ps)
  obtain part j where pj: "(if parts (oid (fst p)) = NotSerial then (NotSerial, k) else op_acceptBytes cl (fst p) (parts (oid (fst p))) bytes) = (part, j)"
    by fastforce
  show ?case
  proof (cases "j = NOT_ENOUGH_BYTES \<or> length bytes \<le> nat j")
    case True
    then show ?thesis using Cons.prems pj by (auto simp: Let_def split: if_splits)
  next
    case False
    then have "0 \<le> j" "nat j < length bytes" using Cons.prems pj by (auto simp: Let_def split: if_splits)
    then have "offer cl ps (parts(oid (fst p) := part)) j (drop (nat j) bytes) (acc + nat j) = Some (parts', k', rest, acc')"
      using Cons.prems pj False by (auto simp: Let_def split: if_splits)
    from Cons.IH [OF this] show ?thesis using \<open>nat j < length bytes\<close> by auto
  qed
qed simp

lemma offer_extra_shrinks: "offer_extra hnd x k bytes acc = Some (x', rest, acc') \<Longrightarrow> length rest \<le> length bytes \<and> acc' + length rest = acc + length bytes"
proof (induction hnd x k bytes acc rule: offer_extra.induct)
  case (1 hnd x k bytes acc)
  obtain y j where y: "acceptExtraBytes hnd x bytes = (y, j)" by fastforce
  show ?case
  proof (cases "bytes = [] \<or> k = NOT_ENOUGH_BYTES \<or> j = 0 \<or> j = NOT_ENOUGH_BYTES")
    case True
    then show ?thesis using "1.prems" y by (subst (asm) offer_extra.simps) (auto split: if_splits)
  next
    case False
    then have j: "0 \<le> j" "nat j \<le> length bytes" "offer_extra hnd y j (drop (nat j) bytes) (acc + nat j) = Some (x', rest, acc')"
      using "1.prems" y by (subst (asm) offer_extra.simps, auto split: if_splits)+
    then show ?thesis using "1.IH" [OF _ y [symmetric] _ _ j(3)] False by auto
  qed
qed

text \<open>
  What is asked of the classes and the handler of the client: they accept between no bytes and all they are
  offered, or say that there are not enough. The queue holds serial operations only.
\<close>

definition sound_answer :: "string \<Rightarrow> int \<Rightarrow> bool" where
  "sound_answer bytes k \<longleftrightarrow> k = NOT_ENOUGH_BYTES \<or> (0 \<le> k \<and> k \<le> int (length bytes))"

definition sound_client :: "'o client \<Rightarrow> bool" where
  "sound_client cl \<longleftrightarrow> (\<forall>c x bytes. sound_answer bytes (snd (cl c x bytes)))"

definition sound_handler :: "'x extra_handler \<Rightarrow> bool" where
  "sound_handler hnd \<longleftrightarrow> (\<forall>x bytes. sound_answer bytes (snd (acceptExtraBytes hnd x bytes)))"

definition all_serial :: "operation list \<Rightarrow> (nat \<Rightarrow> 'o serial_part) \<Rightarrow> bool" where
  "all_serial ps parts \<longleftrightarrow> (\<forall>p\<in>set ps. parts (oid (fst p)) \<noteq> NotSerial)"

lemma op_accept_sound:
  assumes "sound_client cl"
  shows "sound_answer bytes (snd (op_acceptBytes cl c part bytes))" "part \<noteq> NotSerial \<Longrightarrow> fst (op_acceptBytes cl c part bytes) \<noteq> NotSerial"
  using assms by (cases part; auto simp: sound_client_def sound_answer_def Let_def)+

lemma offer_total:
  assumes "sound_client cl" "all_serial ps parts"
  shows "\<exists>parts' k' rest acc'. offer cl ps parts k bytes acc = Some (parts', k', rest, acc') \<and>
     (\<forall>i. parts i \<noteq> NotSerial \<longrightarrow> parts' i \<noteq> NotSerial)"
  using assms(2)
proof (induction ps arbitrary: parts k bytes acc)
  case (Cons p ps)
  let ?i = "oid (fst p)"
  obtain part j where pj: "op_acceptBytes cl (fst p) (parts ?i) bytes = (part, j)" by fastforce
  have ns: "parts ?i \<noteq> NotSerial" "all_serial ps parts" using Cons.prems by (simp_all add: all_serial_def)
  have part: "part \<noteq> NotSerial" "sound_answer bytes j" using op_accept_sound(1) [OF assms(1), of bytes "fst p" "parts ?i"] op_accept_sound(2) [OF assms(1), of "parts ?i" "fst p" bytes] pj ns(1) by simp_all
  then have keeps: "\<forall>i. parts i \<noteq> NotSerial \<longrightarrow> (parts(?i := part)) i \<noteq> NotSerial" and al: "all_serial ps (parts(?i := part))"
    using ns(2) by (auto simp: all_serial_def)
  show ?case
  proof (cases "j = NOT_ENOUGH_BYTES \<or> drop (nat j) bytes = []")
    case True
    then show ?thesis using pj ns(1) part keeps by (auto simp: sound_answer_def Let_def)
  next
    case False
    then have "offer cl (p # ps) parts k bytes acc = offer cl ps (parts(?i := part)) j (drop (nat j) bytes) (acc + nat j)"
      using pj ns(1) part by (auto simp: sound_answer_def Let_def)
    with Cons.IH [OF al, of j "drop (nat j) bytes" "acc + nat j"] keeps show ?thesis by metis
  qed
qed simp

lemma offer_extra_total: "sound_handler hnd \<Longrightarrow> \<exists>r. offer_extra hnd x k bytes acc = Some r"
proof (induction hnd x k bytes acc rule: offer_extra.induct)
  case (1 hnd x k bytes acc)
  obtain y j where y: "acceptExtraBytes hnd x bytes = (y, j)" by fastforce
  have "sound_answer bytes j" using "1.prems" y unfolding sound_handler_def by (metis snd_conv)
  then show ?case
    using "1.IH" [OF _ y [symmetric] _ _ "1.prems"] y
    by (subst offer_extra.simps) (auto simp: sound_answer_def)
qed

lemma offer_all_total:
  assumes "sound_client cl" "sound_handler hnd" "all_serial (ops (sQueue q)) (sParts q)"
  shows "\<exists>q' rest acc'. offer_all cl hnd bytes acc q = Some (q', rest, acc') \<and> all_serial (ops (sQueue q')) (sParts q') \<and>
     mAcceptBufferSize q' = mAcceptBufferSize q \<and> sQueue q' = sQueue q \<and> length rest \<le> length bytes \<and> acc' + length rest = acc + length bytes"
proof -
  obtain parts k rest acc1 where o: "offer cl (ops (sQueue q)) (sParts q) 0 bytes acc = Some (parts, k, rest, acc1)"
    "\<forall>i. sParts q i \<noteq> NotSerial \<longrightarrow> parts i \<noteq> NotSerial" using offer_total [OF assms(1,3)] by blast
  obtain x rest2 acc2 where e: "offer_extra hnd (sExtra q) k rest acc1 = Some (x, rest2, acc2)"
    using offer_extra_total [OF assms(2), of "sExtra q" k rest acc1] by auto
  show ?thesis
    using o e assms(3) offer_shrinks [OF o(1)] offer_extra_shrinks [OF e] by (auto simp: offer_all_def all_serial_def)
qed

text \<open>C30: With serial operations only in the queue, and classes and a handler that accept no more than they are
  offered, taking in received bytes never reads or writes past the end of the data: it succeeds, the
  accept buffer never holds more bytes than its size, and every byte that came in is either reported as
  accepted, still in the buffer, or one of those that found the buffer full.\<close>

theorem buffer_is_bounded:
  assumes "sound_client cl" "sound_handler hnd" "all_serial (ops (sQueue q)) (sParts q)"
    "0 < mAcceptBufferSize q" "length (mAcceptBuffer q) \<le> mAcceptBufferSize q"
  shows "\<exists>r acc'. accept_loop cl hnd new acc q = Some (r, acc') \<and>
     length (mAcceptBuffer r) \<le> mAcceptBufferSize r \<and> mAcceptBufferSize r = mAcceptBufferSize q \<and>
     (\<exists>lost. acc' + length (mAcceptBuffer r) + lost = acc + length (mAcceptBuffer q) + length new \<and>
        (0 < lost \<longrightarrow> length (mAcceptBuffer r) = mAcceptBufferSize r))"
  using assms
proof (induction cl hnd new acc q rule: accept_loop.induct)
  case (1 cl hnd new acc q)
  let ?n = "min (mAcceptBufferSize q - length (mAcceptBuffer q)) (length new)"
  consider (end_of_input) "new = []" | (full) "new \<noteq> []" "length (mAcceptBuffer q) = mAcceptBufferSize q"
    | (room) "new \<noteq> []" "length (mAcceptBuffer q) < mAcceptBufferSize q" using "1.prems"(5) by linarith
  then show ?case
  proof cases
    case end_of_input
    then show ?thesis using "1.prems" by (subst accept_loop.simps) simp
  next
    case full
    then show ?thesis using "1.prems"(4) by (subst accept_loop.simps) auto
  next
    case room
    obtain q1 rest acc1 where o: "offer_all cl hnd (mAcceptBuffer q @ take ?n new) acc q = Some (q1, rest, acc1)"
      "all_serial (ops (sQueue q1)) (sParts q1)" "mAcceptBufferSize q1 = mAcceptBufferSize q"
      "length rest \<le> length (mAcceptBuffer q) + ?n" "acc1 + length rest = acc + length (mAcceptBuffer q) + ?n"
      using offer_all_total [OF "1.prems"(1-3), of "mAcceptBuffer q @ take ?n new" acc] by auto
    let ?q = "q1\<lparr>mAcceptBuffer := rest\<rparr>"
    have s: "accept_loop cl hnd new acc q = accept_loop cl hnd (drop ?n new) acc1 ?q"
      using room "1.prems"(4) o(1) by (subst accept_loop.simps) (simp add: Let_def)
    have q: "all_serial (ops (sQueue ?q)) (sParts ?q)" "0 < mAcceptBufferSize ?q" "length (mAcceptBuffer ?q) \<le> mAcceptBufferSize ?q"
      using o(2-4) room "1.prems"(4) by simp_all
    have "mAcceptBufferSize q - length (mAcceptBuffer q) \<noteq> 0" using room(2) by simp
    then have n: "?n \<noteq> 0" using room(1) by simp
    obtain r acc' lost where x: "accept_loop cl hnd (drop ?n new) acc1 ?q = Some (r, acc')"
      "length (mAcceptBuffer r) \<le> mAcceptBufferSize r" "mAcceptBufferSize r = mAcceptBufferSize q"
      "acc' + length (mAcceptBuffer r) + lost = acc1 + length rest + length (drop ?n new)" "0 < lost \<longrightarrow> length (mAcceptBuffer r) = mAcceptBufferSize r"
      using "1.IH" [OF room(1) "1.prems"(4) HOL.refl HOL.refl _ o(1) HOL.refl HOL.refl "1.prems"(1,2) q] room o(3) by auto
    moreover have "acc1 + length rest + length (drop ?n new) = acc + length (mAcceptBuffer q) + length new" using o(5) by simp
    ultimately show ?thesis unfolding s by metis
  qed
qed

text \<open>A queue with a buffer of two bytes and an operation that expects one more byte.\<close>

definition bounded_sample :: "(unit, unit) serial_queue" where
  "bounded_sample = setAcceptBuffer 2 (sample_serial [(1, expecting 1)] ())"

theorem buffer_is_bounded_witness:
  "\<exists>r n. accept_loop no_client None ''xyzuv'' 0 bounded_sample = Some (r, n) \<and> length (mAcceptBuffer r) \<le> 2 \<and> n + length (mAcceptBuffer r) \<le> 5"
proof -
  have "sound_client no_client" "sound_handler (None :: unit extra_handler)" "all_serial (ops (sQueue bounded_sample)) (sParts bounded_sample)"
    "0 < mAcceptBufferSize bounded_sample" "length (mAcceptBuffer bounded_sample) \<le> mAcceptBufferSize bounded_sample"
    by (simp_all add: sound_client_def sound_handler_def sound_answer_def no_client_def acceptExtraBytes_def all_serial_def
        bounded_sample_def setAcceptBuffer_def sample_serial_defs)
  from buffer_is_bounded [OF this, of "''xyzuv''" 0]
  show ?thesis by (fastforce simp: bounded_sample_def setAcceptBuffer_def sample_serial_def)
qed

end
