(* ===== verification/ScriptBuiltins.thy ===== *)
theory ScriptBuiltins
  imports ScriptHeap "HOL-Library.Monad_Syntax"
begin

text \<open>
  Built-in functions of scripts on numbers, bits, strings and errors (\<open>p44script.cpp\<close>), on their arguments as the call
  has checked them. A function is given the arguments and its result is the value it finishes with; \<open>None\<close> is
  where C++ has no defined behaviour (a shift by the width of the type or more), throws, or does not end.
\<close>

section \<open>Arguments\<close>

definition arg :: "val list \<Rightarrow> nat \<Rightarrow> val" where
  "arg args i = (if i < length args then args ! i else VNull ''optional function argument'')"

definition ti_value :: TypeInfo where "ti_value = ti_scalar OR ti_structured"

definition intValue :: "scriptenv \<Rightarrow> val \<Rightarrow> int" where
  "intValue e v = f64_to_int 32 (doubleValue e v)"

section \<open>Validity\<close>

definition ifvalid_func :: "val list \<Rightarrow> val" where
  "ifvalid_func args = (if hasType (arg args 0) ti_value then arg args 0 else arg args 1)"

definition isvalid_func :: "val list \<Rightarrow> val" where
  "isvalid_func args = vbool (hasType (arg args 0) ti_value)"

definition ifok_func :: "val list \<Rightarrow> val" where
  "ifok_func args = (if hasType (arg args 0) ti_error then arg args 1 else arg args 0)"

definition isok_func :: "val list \<Rightarrow> val" where
  "isok_func args = vbool (\<not> hasType (arg args 0) ti_error)"

definition if_func :: "scriptenv \<Rightarrow> val list \<Rightarrow> val" where
  "if_func e args = (if boolValue e (arg args 0) then arg args 1 else arg args 2)"

text \<open>Without arguments the result is a null pointer.\<close>

definition lastarg_func :: "val list \<Rightarrow> val option" where
  "lastarg_func args = (if args = [] then None else Some (arg args (length args - 1)))"

section \<open>Numbers\<close>

fun f64_abs :: "f64 \<Rightarrow> f64" where
  "f64_abs F_NaN = F_NaN"
| "f64_abs (F_Inf b) = F_Inf False"
| "f64_abs F_NZero = F_Fin 0"
| "f64_abs (F_Fin q) = F_Fin \<bar>q\<bar>"

text \<open>\<open>round\<close> of the C library: to the nearest integer, halves away from zero; the result is exact.\<close>

fun f64_round_away :: "f64 \<Rightarrow> f64" where
  "f64_round_away (F_Fin q) =
     (let n = \<lfloor>\<bar>q\<bar> + 1/2\<rfloor> in if n = 0 \<and> q < 0 then F_NZero else F_Fin (of_int (if q < 0 then - n else n)))"
| "f64_round_away x = x"

definition abs_func :: "scriptenv \<Rightarrow> val list \<Rightarrow> val" where
  "abs_func e args = vnum (f64_abs (doubleValue e (arg args 0)))"

definition sign_func :: "scriptenv \<Rightarrow> val list \<Rightarrow> val" where
  "sign_func e args =
     (let v = doubleValue e (arg args 0)
      in vnum (f64_of_int (if f64_is_zero v then 0 else if f64_less (F_Fin 0) v then 1 else -1)))"

text \<open>The conversion of 64 to 32 bits takes the low ones.\<close>

definition to_int32 :: "int \<Rightarrow> int" where
  "to_int32 i = sint (word_of_int i :: u32)"

definition int_func :: "scriptenv \<Rightarrow> val list \<Rightarrow> val" where
  "int_func e args = vint (to_int32 (int64Value e (arg args 0)))"

definition frac_func :: "scriptenv \<Rightarrow> val list \<Rightarrow> val" where
  "frac_func e args = vnum (f64_sub (doubleValue e (arg args 0)) (f64_of_int (int64Value e (arg args 0))))"

definition round_func :: "scriptenv \<Rightarrow> val list \<Rightarrow> val" where
  "round_func e args =
     (let p = (if defined_val (arg args 1) then doubleValue e (arg args 1) else F_Fin 1)
      in vnum (f64_mul (f64_round_away (f64_div (doubleValue e (arg args 0)) p)) p))"

definition min_func :: "scriptenv \<Rightarrow> heap \<Rightarrow> val list \<Rightarrow> val option" where
  "min_func e h args = map_option (\<lambda>b. if b then arg args 0 else arg args 1) (val_less e h (arg args 0) (arg args 1))"

definition max_func :: "scriptenv \<Rightarrow> heap \<Rightarrow> val list \<Rightarrow> val option" where
  "max_func e h args = map_option (\<lambda>b. if b then arg args 0 else arg args 1) (val_greater e h (arg args 0) (arg args 1))"

definition limited_func :: "scriptenv \<Rightarrow> heap \<Rightarrow> val list \<Rightarrow> val option" where
  "limited_func e h args =
     (case val_less e h (arg args 0) (arg args 1) of
        None \<Rightarrow> None
      | Some True \<Rightarrow> Some (arg args 1)
      | Some False \<Rightarrow> map_option (\<lambda>b. if b then arg args 2 else arg args 0) (val_greater e h (arg args 0) (arg args 2)))"

text \<open>Conversions of a quotient out of the range of \<open>int\<close> are undefined; the model takes what the processor gives.\<close>

definition cyclic_func :: "scriptenv \<Rightarrow> val list \<Rightarrow> val" where
  "cyclic_func e args =
     (let off = doubleValue e (arg args 1);
          x0 = f64_sub (doubleValue e (arg args 0)) off;
          r = f64_sub (doubleValue e (arg args 2)) off;
          x1 = (if \<not> f64_less x0 r \<and> x0 \<noteq> F_NaN \<and> r \<noteq> F_NaN
                then f64_sub x0 (f64_mul (f64_of_int (f64_to_int 32 (f64_div x0 r))) r)
                else if f64_less x0 (F_Fin 0)
                then f64_add x0 (f64_mul (f64_of_int (to_int32 (f64_to_int 32 (f64_div (f64_minus x0) r) + 1))) r)
                else x0)
      in vnum (f64_add x1 off))"

definition maprange_func :: "scriptenv \<Rightarrow> val list \<Rightarrow> val" where
  "maprange_func e args =
     (let x = doubleValue e (arg args 0); a1 = doubleValue e (arg args 1); b1 = doubleValue e (arg args 2);
          a2 = doubleValue e (arg args 3); b2 = doubleValue e (arg args 4);
          (mn, mx) = (if f64_less b1 a1 then (b1, a1) else (a1, b1));
          y = (if f64_less x mn then mn else if f64_less mx x then mx else x)
      in vnum (if f64_is_zero (f64_sub b1 a1) then a2
               else f64_add (f64_mul (f64_div (f64_sub y a1) (f64_sub b1 a1)) (f64_sub b2 a2)) a2))"

section \<open>Conversions\<close>

definition string_func :: "scriptenv \<Rightarrow> heap \<Rightarrow> val list \<Rightarrow> val option" where
  "string_func e h args = map_option VStr (stringValue e h (arg args 0))"

definition annotation_func :: "val list \<Rightarrow> val" where
  "annotation_func args = VStr (getAnnotation (arg args 0))"

definition null_func :: "scriptenv \<Rightarrow> heap \<Rightarrow> val list \<Rightarrow> val option" where
  "null_func e h args = map_option VNull (stringValue e h (arg args 0))"

definition number_func :: "scriptenv \<Rightarrow> val list \<Rightarrow> val" where
  "number_func e args = vnum (doubleValue e (arg args 0))"

definition boolean_func :: "scriptenv \<Rightarrow> val list \<Rightarrow> val" where
  "boolean_func e args = vbool (boolValue e (arg args 0))"

definition elements_func :: "heap \<Rightarrow> val list \<Rightarrow> val" where
  "elements_func h args =
     (if hasType (arg args 0) ti_structured then vint (to_int32 (int (numIndexedMembers h (arg args 0))))
      else VNull ''not an array or object'')"

section \<open>Bits\<close>

text \<open>The mask, and the lowest and highest bit.\<close>

definition bitmask :: "scriptenv \<Rightarrow> nat \<Rightarrow> val list \<Rightarrow> (u64 \<times> nat \<times> nat) option" where
  "bitmask e nextarg args =
     (let a = intValue e (arg args 0); b = intValue e (arg args 1);
          (lo, hi) = (if nextarg > 1 then (max (min a b) 0, min (max a b) 63) else (a, a));
          w = 63 - (hi - lo)
      in if w < 0 \<or> 63 < w \<or> lo < 0 \<or> 63 < lo then None
         else Some (push_bit (nat lo) (drop_bit (nat w) (-1)), nat lo, nat hi))"

text \<open>The sign bit is tested with a shift of an \<open>int\<close>, whose bit 31 is extended to 64 bits.\<close>

definition bit_func :: "scriptenv \<Rightarrow> val list \<Rightarrow> val option" where
  "bit_func e args =
     (let nextarg = (if length args > 2 then 2 else 1)
      in case bitmask e nextarg args of
           None \<Rightarrow> None
         | Some (bm, lo, hi) \<Rightarrow>
             let r = drop_bit lo (word_of_int (int64Value e (arg args nextarg)) AND bm) :: u64
             in if \<not> boolValue e (arg args 3) then Some (vnum (f64_of_int (sint r)))
                else if 32 \<le> hi - lo then None
                else let signbit = (if hi - lo = 31 then word_of_int (- (2 ^ 31)) else push_bit (hi - lo) 1) :: u64
                     in Some (vnum (f64_of_int (sint (if r AND signbit \<noteq> 0 then r OR push_bit (hi - lo + 1) (-1) else r)))))"

definition setbit_func :: "scriptenv \<Rightarrow> val list \<Rightarrow> val option" where
  "setbit_func e args =
     (let nextarg = (if length args > 3 then 2 else 1)
      in case bitmask e nextarg args of
           None \<Rightarrow> None
         | Some (bm, lo, hi) \<Rightarrow>
             let n = int64Value e (arg args nextarg);
                 newbits = (if nextarg = 1 then (if n \<noteq> 0 then 1 else 0) else word_of_int n) :: u64;
                 v = word_of_int (int64Value e (arg args (nextarg + 1))) :: u64
             in Some (vint (sint ((v AND NOT bm) OR (push_bit lo newbits AND bm)))))"

definition flipbit_func :: "scriptenv \<Rightarrow> val list \<Rightarrow> val option" where
  "flipbit_func e args =
     (let nextarg = (if length args > 2 then 2 else 1)
      in case bitmask e nextarg args of
           None \<Rightarrow> None
         | Some (bm, lo, hi) \<Rightarrow> Some (vint (sint ((word_of_int (int64Value e (arg args nextarg)) :: u64) XOR bm))))"

section \<open>Strings\<close>

definition ord_func :: "scriptenv \<Rightarrow> heap \<Rightarrow> val list \<Rightarrow> val option" where
  "ord_func e h args = map_option (\<lambda>s. vint (int (char_nat (hd (s @ [NUL]))))) (stringValue e h (arg args 0))"

definition chr_func :: "scriptenv \<Rightarrow> val list \<Rightarrow> val" where
  "chr_func e args = VStr [nat_char (nat (intValue e (arg args 0) AND 0xFF))]"

definition hex_func :: "scriptenv \<Rightarrow> heap \<Rightarrow> val list \<Rightarrow> val option" where
  "hex_func e h args =
     do { s \<leftarrow> stringValue e h (arg args 0);
          sep \<leftarrow> (if length args > 1 then map_option (\<lambda>t. hd (t @ [NUL])) (stringValue e h (arg args 1)) else Some NUL);
          Some (VStr (binaryToHexString s sep)) }"

definition binary_func :: "scriptenv \<Rightarrow> heap \<Rightarrow> val list \<Rightarrow> val option" where
  "binary_func e h args =
     map_option (\<lambda>s. VStr (hexToBinaryString (cstr s) (boolValue e (arg args 1)) 0)) (stringValue e h (arg args 0))"

definition strlen_func :: "scriptenv \<Rightarrow> heap \<Rightarrow> val list \<Rightarrow> val option" where
  "strlen_func e h args = map_option (\<lambda>s. vint (int (length s))) (stringValue e h (arg args 0))"

text \<open>A negative count is a huge one without sign: reserving the room throws, or the loop over an empty string goes on for ever.\<close>

definition strrep_func :: "scriptenv \<Rightarrow> heap \<Rightarrow> val list \<Rightarrow> val option" where
  "strrep_func e h args =
     do { s \<leftarrow> stringValue e h (arg args 0);
          let n = intValue e (arg args 1);
          if n < 0 then None else Some (VStr (concat (replicate (nat n) s))) }"

text \<open>The length of the string has no sign, and neither has the comparison of the start with it.\<close>

definition substr_func :: "scriptenv \<Rightarrow> heap \<Rightarrow> val list \<Rightarrow> val option" where
  "substr_func e h args =
     do { s \<leftarrow> stringValue e h (arg args 0);
          let size = int (length s);
          let st0 = intValue e (arg args 1);
          let st1 = (if st0 < 0 then size + st0 else st0);
          let start = (if st1 < 0 \<or> size < st1 then size else st1);
          let c0 = (if defined_val (arg args 2) then intValue e (arg args 2) else -1);
          let c1 = (if defined_val (arg args 2) \<and> c0 < 0 then size + c0 - start else c0);
          Some (VStr (if c1 < 0 then drop (nat start) s else take (nat c1) (drop (nat start) s))) }"

definition find_func :: "scriptenv \<Rightarrow> heap \<Rightarrow> val list \<Rightarrow> val option" where
  "find_func e h args =
     do { s \<leftarrow> stringValue e h (arg args 0);
          t \<leftarrow> stringValue e h (arg args 1);
          let (hay, needle) = (if boolValue e (arg args 3) then (lowerCase s 0, lowerCase t 0) else (s, t));
          let i = intValue e (arg args 2);
          let start = (if defined_val (arg args 2) then (if i < 0 \<or> int (length hay) < i then length hay else nat i) else 0);
          Some (case find_from hay needle start of Some p \<Rightarrow> vint (int p) | None \<Rightarrow> VNull ''no such substring'') }"

definition replace_func :: "scriptenv \<Rightarrow> heap \<Rightarrow> val list \<Rightarrow> val option" where
  "replace_func e h args =
     do { s \<leftarrow> stringValue e h (arg args 0);
          t \<leftarrow> stringValue e h (arg args 1);
          r \<leftarrow> stringValue e h (arg args 2);
          map_option VStr (string_substitute s t r (if defined_val (arg args 3) then intValue e (arg args 3) else 0)) }"

definition uppercase_func :: "scriptenv \<Rightarrow> heap \<Rightarrow> val list \<Rightarrow> val option" where
  "uppercase_func e h args = map_option (\<lambda>s. VStr (upperCase s 0)) (stringValue e h (arg args 0))"

definition lowercase_func :: "scriptenv \<Rightarrow> heap \<Rightarrow> val list \<Rightarrow> val option" where
  "lowercase_func e h args = map_option (\<lambda>s. VStr (lowerCase s 0)) (stringValue e h (arg args 0))"

definition shellquote_func :: "scriptenv \<Rightarrow> heap \<Rightarrow> val list \<Rightarrow> val option" where
  "shellquote_func e h args = map_option (\<lambda>s. VStr (shellQuote s)) (stringValue e h (arg args 0))"

definition cquote_func :: "scriptenv \<Rightarrow> heap \<Rightarrow> val list \<Rightarrow> val option" where
  "cquote_func e h args = map_option (\<lambda>s. VStr (cstringQuote s)) (stringValue e h (arg args 0))"

section \<open>Errors\<close>

definition throw_func :: "scriptenv \<Rightarrow> heap \<Rightarrow> val list \<Rightarrow> val option" where
  "throw_func e h args =
     (case arg args 0 of
        VErr er _ p \<Rightarrow> Some (VErr er False p)
      | v \<Rightarrow> map_option (\<lambda>s. VErr (script_err E_User (cstr s)) False None) (stringValue e h v))"

definition error_func :: "scriptenv \<Rightarrow> heap \<Rightarrow> val list \<Rightarrow> val option" where
  "error_func e h args = map_option (\<lambda>s. VErr (script_err E_User (cstr s)) True None) (stringValue e h (arg args 0))"

text \<open>
  An error without code is none. The functions finish then with a null, and a second time with the text or number
  of the error, which nobody receives any more.
\<close>

definition error_result :: "(serr \<Rightarrow> val) \<Rightarrow> val list \<Rightarrow> val" where
  "error_result f args =
     (let er = errorValue (arg args 0) in if \<not> err_notOK (Some er) then VNull ''no error'' else f er)"

definition errordomain_func :: "val list \<Rightarrow> val" where
  "errordomain_func = error_result (\<lambda>er. VStr (edomain er))"

definition errorcode_func :: "val list \<Rightarrow> val" where
  "errorcode_func = error_result (\<lambda>er. vint (ecode er))"

definition errormessage_func :: "val list \<Rightarrow> val" where
  "errormessage_func = error_result (\<lambda>er. VStr (emsg er))"

end
