(* ===== verification/F64Quot.thy ===== *)
theory F64Quot
  imports F64
begin

text \<open>
  Doubles that are integers: sums, differences and products are exact as long as they stay below two to the 53, and
  a quotient of integers, truncated, is the integer quotient.
\<close>

section \<open>Exact arithmetic\<close>

lemma fin_of_int: "\<bar>n\<bar> \<le> 2 ^ 53 \<Longrightarrow> f64_round b (of_int n) = (if n = 0 \<and> b then F_NZero else F_Fin (of_int n))"
proof (cases "n = 0")
  case False
  assume "\<bar>n\<bar> \<le> 2 ^ 53"
  then have "f64_round False (of_int n) = F_Fin (of_int n)" using f64_of_int_exact [of n] by (simp add: f64_of_int_def)
  with False show ?thesis by (simp add: f64_round_def)
qed (simp add: f64_round_def)

lemma f64_add_ints:
  "\<bar>x + y\<bar> \<le> 2 ^ 53 \<Longrightarrow> f64_add (F_Fin (of_int x)) (F_Fin (of_int y)) = F_Fin (of_int (x + y))"
  using fin_of_int [of "x + y" False] by simp

lemma f64_sub_ints:
  "\<bar>x - y\<bar> \<le> 2 ^ 53 \<Longrightarrow> f64_sub (F_Fin (of_int x)) (F_Fin (of_int y)) = F_Fin (of_int (x - y))"
  using fin_of_int [of "x - y" False] fin_of_int [of x False] by (cases "y = 0") (simp_all add: f64_sub_def)

lemma f64_mul_ints:
  assumes "0 \<le> x" "0 \<le> y" "x * y \<le> 2 ^ 53"
  shows "f64_mul (F_Fin (of_int x)) (F_Fin (of_int y)) = F_Fin (of_int (x * y))"
proof -
  have "0 \<le> x * y" using assms by simp
  then have "f64_round False (of_int (x * y)) = F_Fin (of_int (x * y))" using fin_of_int [of "x * y" False] assms(3) by simp
  with assms(1,2) show ?thesis by simp
qed

section \<open>Rounding errors\<close>

lemma pow2_add: "pow2 (a + b) = pow2 a * pow2 b"
proof -
  have "pow2 k = 2 powi k" for k by (simp add: pow2_def power_int_def field_simps)
  then show ?thesis by (simp add: power_int_add)
qed

lemma ilog2_le:
  assumes "0 < a"
  shows "pow2 (ilog2 a) \<le> a"
proof -
  obtain n d where q: "quotient_of a = (n, d)" by (cases "quotient_of a")
  from quotient_of_denom_pos [OF q] have d: "0 < d" .
  have a: "a = of_int n / of_int d" using quotient_of_div [OF q] .
  with assms d have n: "0 < n" by (metis divide_nonpos_pos not_le of_int_0_less_iff of_int_le_0_iff)
  define bn bd where b: "bn = bitlen (nat n)" "bd = bitlen (nat d)"
  have "(2::nat) ^ (bn - 1) \<le> nat n" "nat d < 2 ^ bd" "0 < bn"
    using bitlen_bounds [of "nat n"] bitlen_bounds [of "nat d"] n d by (simp_all add: b)
  then have n': "2 ^ (bn - 1) \<le> n" and d': "d < 2 ^ bd" using n d by (simp_all add: nat_le_iff le_nat_iff nat_less_iff)
  have l: "pow2 (int bn - int bd - 1) \<le> a"
  proof -
    have "(of_int (2 ^ (bn - 1)) :: rat) \<le> of_int n" using n' by (simp only: of_int_le_iff)
    moreover have "(of_int d :: rat) \<le> of_int (2 ^ bd)" using d' by (simp only: of_int_le_iff less_imp_le)
    ultimately have "2 ^ (bn - 1) / 2 ^ bd \<le> a" unfolding a using d n by (intro frac_le) simp_all
    moreover have "pow2 (int bn - int bd - 1) = 2 ^ (bn - 1) / 2 ^ bd"
    proof -
      have "int bn - int bd - 1 = int (bn - 1) + (- int bd)" using \<open>0 < bn\<close> by simp
      then have "pow2 (int bn - int bd - 1) = pow2 (int (bn - 1)) * pow2 (- int bd)" by (simp only: pow2_add)
      moreover have "pow2 (int (bn - 1)) = 2 ^ (bn - 1)" by (simp add: pow2_def)
      moreover have "pow2 (- int bd) = 1 / 2 ^ bd" by (cases "bd = 0") (simp_all add: pow2_def)
      ultimately show ?thesis by simp
    qed
    ultimately show ?thesis by simp
  qed
  show ?thesis unfolding ilog2_def q b [symmetric] Let_def prod.case using l by simp
qed

lemma round_half_even_err: "\<bar>of_int (round_half_even r) - r\<bar> \<le> 1 / 2"
proof -
  define f where "f = \<lfloor>r\<rfloor>"
  have "of_int f \<le> r" "r < of_int f + 1" unfolding f_def by linarith+
  then show ?thesis unfolding round_half_even_def Let_def f_def [symmetric] by (auto split: if_splits)
qed

section \<open>Quotients\<close>

lemma round_err:
  assumes x: "0 < x" "x = of_int p / of_int q" "p < 2 ^ 53" "0 < q" "q < 2 ^ 53"
    and s: "s = max (ilog2 x - 52) (-1074)" and v: "v = of_int (round_half_even (x / pow2 s)) * pow2 s"
  shows "\<bar>v - x\<bar> < 1 / of_int q"
proof -
  have pos: "0 < pow2 s" by simp
  have "v - x = (of_int (round_half_even (x / pow2 s)) - x / pow2 s) * pow2 s"
    unfolding v using pos by (simp add: left_diff_distrib less_imp_neq [THEN not_sym])
  then have "\<bar>v - x\<bar> = \<bar>of_int (round_half_even (x / pow2 s)) - x / pow2 s\<bar> * pow2 s"
    by (simp only: abs_mult abs_of_pos [OF pos])
  also have "\<dots> \<le> 1 / 2 * pow2 s" using round_half_even_err less_imp_le [OF pos] by (rule mult_right_mono)
  also have "1 / 2 * pow2 s < 1 / of_int q"
  proof (cases "-1074 \<le> ilog2 x - 52")
    case True
    then have "pow2 s = pow2 (ilog2 x) * pow2 (-52)" using pow2_add [of "ilog2 x" "-52"] by (simp add: s)
    also have "\<dots> \<le> x * pow2 (-52)" using ilog2_le [OF x(1)] less_imp_le [OF pow2_pos] by (rule mult_right_mono)
    finally have "1 / 2 * pow2 s \<le> of_int p / 2 ^ 53 / of_int q" unfolding x(2) by (simp add: pow2_def)
    also have "\<dots> < 1 / of_int q"
    proof -
      have "(of_int p :: rat) < 2 ^ 53" using x(3) by (metis of_int_less_iff of_int_numeral of_int_power)
      then show ?thesis using x(4) by (intro divide_strict_right_mono) simp_all
    qed
    finally show ?thesis .
  next
    case False
    then have "pow2 s = 1 / 2 ^ 1074" by (simp add: s pow2_def)
    moreover have "(2::rat) ^ 53 \<le> 2 ^ 1074" by (rule power_increasing) simp_all
    ultimately have "1 / 2 * pow2 s \<le> 1 / 2 * (1 / 2 ^ 53)" by (simp add: field_simps)
    also have "\<dots> < 1 / of_int q"
    proof -
      have "(of_int q :: rat) < 2 ^ 53" using x(5) by (metis of_int_less_iff of_int_numeral of_int_power)
      then show ?thesis using x(4) by (simp add: field_simps)
    qed
    finally show ?thesis .
  qed
  finally show ?thesis .
qed

lemma f64_div_ints:
  assumes p: "0 \<le> p" "p < 2 ^ 53" and q: "0 < q" "q < 2 ^ 53"
  shows "\<exists>v. f64_div (F_Fin (of_int p)) (F_Fin (of_int q)) = F_Fin v \<and> 0 \<le> v \<and> \<lfloor>v\<rfloor> = p div q"
proof (cases "q dvd p")
  case True
  then obtain n where n: "p = q * n" by blast
  with p q have b: "0 \<le> n" "n \<le> p" by (auto simp: zero_le_mult_iff mult_le_cancel_right1)
  have "(of_int p :: rat) / of_int q = of_int n" using q by (simp add: n)
  moreover have "f64_round False (of_int n) = F_Fin (of_int n)" using fin_of_int [of n False] b p by simp
  moreover have "\<not> of_int p < (0 :: rat)" "of_int q \<noteq> (0 :: rat)" using p q by simp_all
  moreover have "p div q = n" using q by (simp add: n)
  ultimately have "f64_div (F_Fin (of_int p)) (F_Fin (of_int q)) = F_Fin (of_int n)" using q by simp
  then show ?thesis using b \<open>p div q = n\<close> by (intro exI [of _ "of_int n"]) simp
next
  case False
  define n where "n = p div q"
  have n: "0 \<le> n" "n * q + 1 \<le> p" "p + 1 \<le> (n + 1) * q" "n \<le> p"
  proof -
    have m: "p = n * q + p mod q" "0 \<le> p mod q" "p mod q < q" using q by (simp_all add: n_def)
    have "p mod q \<noteq> 0" using False by (simp add: dvd_eq_mod_eq_0)
    with m show "n * q + 1 \<le> p" "p + 1 \<le> (n + 1) * q" by (simp_all add: algebra_simps)
    show "0 \<le> n" using p q by (simp add: n_def pos_imp_zdiv_nonneg_iff)
    then have "n * 1 \<le> n * q" using q by (intro mult_left_mono) simp_all
    with \<open>n * q + 1 \<le> p\<close> show "n \<le> p" by simp
  qed
  define x where "x = (of_int p / of_int q :: rat)"
  have "p \<noteq> 0" using False by auto
  then have x0: "0 < x" using p q by (simp add: x_def)
  define s where "s = max (ilog2 x - 52) (-1074)"
  define v where "v = of_int (round_half_even (x / pow2 s)) * pow2 s"
  from round_err [OF x0 x_def p(2) q s_def v_def] have err: "\<bar>v - x\<bar> < 1 / of_int q" .
  have qq: "(0 :: rat) < of_int q" using q by simp
  have "(of_int (n * q + 1) :: rat) \<le> of_int p" "(of_int (p + 1) :: rat) \<le> of_int ((n + 1) * q)"
    using n by (simp_all only: of_int_le_iff)
  then have "(of_int n * of_int q + 1) / of_int q \<le> x" "(of_int p + 1) / of_int q \<le> (of_int n + 1 :: rat)"
    unfolding x_def using qq by (simp_all add: divide_le_cancel pos_divide_le_eq)
  then have "of_int n + 1 / of_int q \<le> x" "x + 1 / of_int q \<le> of_int n + 1"
    using qq by (simp_all add: x_def add_divide_distrib)
  with err have v: "of_int n < v" "v < of_int n + 1" by linarith+
  have "(of_int (n + 1) :: rat) \<le> of_int (2 ^ 53)" using n p by (simp only: of_int_le_iff)
  with v have "v < 2 ^ 53" by simp
  moreover have "(2::rat) ^ 53 \<le> 2 ^ 1024" by (rule power_increasing) simp_all
  ultimately have l: "\<not> 2 ^ 1024 \<le> v" by linarith
  have vp: "0 < v" using v n by (metis le_less_trans of_int_0_le_iff)
  have "f64_round False x = F_Fin v"
    unfolding f64_round_def Let_def using x0 l vp by (simp add: s_def [symmetric] v_def [symmetric])
  moreover have "f64_div (F_Fin (of_int p)) (F_Fin (of_int q)) = f64_round False x" using p q by (simp add: x_def)
  moreover have "\<lfloor>v\<rfloor> = n" using v by (simp add: floor_eq_iff)
  ultimately show ?thesis using vp n_def by (auto intro!: exI [of _ v])
qed

end
