(* ===== verification/BuiltinLaws.thy ===== *)
theory BuiltinLaws
  imports ScriptBuiltins F64Quot
begin

text \<open>
  Laws of the built-in functions: the bits set are the bits read, what is found is there, and where the cyclic
  range differs from its description.
\<close>

section \<open>Bits\<close>

lemma intValue_vint: "\<bar>n\<bar> < 2 ^ 31 \<Longrightarrow> intValue e (VNum k (f64_of_int n)) = n"
proof -
  assume a: "\<bar>n\<bar> < 2 ^ 31"
  then have "\<bar>n\<bar> \<le> 2 ^ 53" by simp
  then have "f64_to_int 64 (F_Fin (of_int n)) = n" "f64_of_int n = F_Fin (of_int n)"
    by (rule f64_to_int_of_int, rule f64_of_int_exact)
  with a show ?thesis
    by (auto simp: intValue_def f64_to_int_def Let_def abs_if split: if_splits)
qed

lemma int64Value_vint: "\<bar>n\<bar> \<le> 2 ^ 53 \<Longrightarrow> int64Value e (VNum k (f64_of_int n)) = n"
  by (simp add: int64Value_def f64_of_int_exact f64_to_int_of_int)

text \<open>The mask has exactly the bits of the range.\<close>

lemma bitmask_range:
  assumes "0 \<le> a" "a \<le> 63" "0 \<le> b" "b \<le> 63"
  shows "\<exists>bm. bitmask e 2 (vint a # vint b # args) = Some (bm, nat (min a b), nat (max a b)) \<and>
    (\<forall>i. bit bm i \<longleftrightarrow> nat (min a b) \<le> i \<and> i \<le> nat (max a b))"
proof -
  have "\<bar>a\<bar> < 2 ^ 31" "\<bar>b\<bar> < 2 ^ 31" using assms by auto
  then have i: "intValue e (vint a) = a" "intValue e (vint b) = b" by (simp_all only: intValue_vint)
  let ?lo = "min a b" and ?hi = "max a b"
  have c: "max ?lo 0 = ?lo" "min ?hi 63 = ?hi" "0 \<le> 63 - (?hi - ?lo)" "63 - (?hi - ?lo) \<le> 63" "0 \<le> ?lo" "?lo \<le> 63" "?hi \<le> 63" "?lo \<le> ?hi"
    using assms by auto
  define lo hi where d: "lo = ?lo" "hi = ?hi"
  have "bitmask e 2 (vint a # vint b # args) =
      Some (push_bit (nat lo) (drop_bit (nat (63 - (hi - lo))) (-1)), nat lo, nat hi)"
    using c i unfolding d [symmetric] bitmask_def arg_def by (simp add: Let_def d [symmetric])
  moreover have "bit (push_bit (nat lo) (drop_bit (nat (63 - (hi - lo))) (-1 :: u64))) i \<longleftrightarrow> nat lo \<le> i \<and> i \<le> nat hi" for i
    using c unfolding d [symmetric] by (auto simp: bit_simps)
  ultimately show ?thesis unfolding d [symmetric] by blast
qed

text \<open>Words of at most 53 bits are the same integer, signed or not, and pass a double.\<close>

lemma sint_53:
  fixes w :: u64
  assumes "\<And>i. 53 \<le> i \<Longrightarrow> \<not> bit w i"
  shows "sint w = uint w" "uint w < 2 ^ 53" "word_of_int (sint w) = w"
proof -
  have "take_bit 53 w = w" by (rule bit_eqI) (auto simp: bit_take_bit_iff intro: ccontr dest: assms simp flip: not_le)
  then have u: "uint w = take_bit 53 (uint w)" by (metis unsigned_take_bit_eq)
  then show "uint w < 2 ^ 53" by (metis take_bit_int_less_exp)
  then have u63: "uint w < 2 ^ 63" by simp
  have "- (2 ^ 63) \<le> (0 :: int)" by simp
  from this uint_ge_0 have "- (2 ^ 63) \<le> uint w" by (rule order_trans)
  then have "signed_take_bit 63 (uint w) = uint w" using u63 by (rule signed_take_bit_int_eq_self)
  then show "sint w = uint w" by (simp add: sint_uint)
  show "word_of_int (sint w) = w" by simp
qed

definition put_bits :: "nat \<Rightarrow> u64 \<Rightarrow> u64 \<Rightarrow> u64 \<Rightarrow> u64" where
  "put_bits lo bm n v = (v AND NOT bm) OR (push_bit lo n AND bm)"

lemma bit_put_bits:
  assumes "\<And>i. bit bm i \<longleftrightarrow> lo \<le> i \<and> i \<le> hi" and "hi \<le> 63"
  shows "bit (put_bits lo bm n v) i \<longleftrightarrow> (if lo \<le> i \<and> i \<le> hi then bit n (i - lo) else bit v i)"
  using assms(2) by (auto simp: put_bits_def bit_simps assms(1) dest: bit_imp_le_length)

lemma bit_get_bits:
  fixes x :: u64
  assumes "\<And>i. bit bm i \<longleftrightarrow> lo \<le> i \<and> i \<le> hi"
  shows "bit (drop_bit lo (x AND bm)) i \<longleftrightarrow> lo + i \<le> hi \<and> bit x (lo + i)"
  by (auto simp: bit_simps assms)

lemma setbit_range:
  assumes r: "0 \<le> a" "a \<le> 52" "0 \<le> b" "b \<le> 52" and n: "\<bar>n\<bar> \<le> 2 ^ 53" and v: "0 \<le> v" "v < 2 ^ 53"
  shows "\<exists>w. setbit_func e [vint a, vint b, vint n, vint v] = Some (vint w) \<and> 0 \<le> w \<and> w < 2 ^ 53 \<and>
    (\<forall>i < 53. bit w i \<longleftrightarrow> (if nat (min a b) \<le> i \<and> i \<le> nat (max a b) then bit n (i - nat (min a b)) else bit v i))"
proof -
  from r have "0 \<le> a" "a \<le> 63" "0 \<le> b" "b \<le> 63" by auto
  from bitmask_range [OF this, of e "[vint n, vint v]"] obtain bm where
    m: "bitmask e 2 [vint a, vint b, vint n, vint v] = Some (bm, nat (min a b), nat (max a b))" and
    bm: "\<And>i. bit bm i \<longleftrightarrow> nat (min a b) \<le> i \<and> i \<le> nat (max a b)" by blast
  define lo hi where d: "lo = nat (min a b)" "hi = nat (max a b)"
  have hi: "hi \<le> 52" "lo \<le> hi" using r by (auto simp: d)
  have i: "int64Value e (vint n) = n" "int64Value e (vint v) = v"
    using n v by (auto intro!: int64Value_vint)
  define x where "x = put_bits lo bm (word_of_int n) (word_of_int v)"
  have bx: "bit x j \<longleftrightarrow> (if lo \<le> j \<and> j \<le> hi then bit n (j - lo) else j < 64 \<and> bit v j)" for j
    using hi bit_put_bits [of bm lo hi "word_of_int n" "word_of_int v" j] bm
    by (auto simp: x_def d bit_simps)
  have "take_bit 53 v = v" using v by (simp add: take_bit_int_eq_self)
  then have hv: "bit v j \<Longrightarrow> j < 53" for j by (metis bit_take_bit_iff)
  have "\<not> bit x j" if "53 \<le> j" for j using that hi hv [of j] by (auto simp: bx)
  note x = sint_53 [OF this]
  have "setbit_func e [vint a, vint b, vint n, vint v] = Some (vint (sint x))"
    using m i by (simp add: setbit_func_def x_def put_bits_def d arg_def)
  moreover have "bit (sint x) j \<longleftrightarrow> (if lo \<le> j \<and> j \<le> hi then bit n (j - lo) else bit v j)" if "j < 53" for j
    using that by (simp add: x(1) bit_uint_iff bx)
  moreover have "0 \<le> sint x" "sint x < 2 ^ 53" using x by simp_all
  ultimately show ?thesis unfolding d by blast
qed

lemma getbit_range:
  assumes r: "0 \<le> a" "a \<le> 52" "0 \<le> b" "b \<le> 52" and v: "0 \<le> v" "v < 2 ^ 53"
  shows "bit_func e [vint a, vint b, vint v] =
    Some (vnum (f64_of_int (take_bit (nat (max a b - min a b) + 1) (drop_bit (nat (min a b)) v))))"
proof -
  from r have "0 \<le> a" "a \<le> 63" "0 \<le> b" "b \<le> 63" by auto
  from bitmask_range [OF this, of e "[vint v]"] obtain bm where
    m: "bitmask e 2 [vint a, vint b, vint v] = Some (bm, nat (min a b), nat (max a b))" and
    bm: "\<And>i. bit bm i \<longleftrightarrow> nat (min a b) \<le> i \<and> i \<le> nat (max a b)" by blast
  define lo hi where d: "lo = nat (min a b)" "hi = nat (max a b)"
  have hi: "hi \<le> 52" "lo \<le> hi" and k: "nat (max a b - min a b) = hi - lo" using r by (auto simp: d)
  have i: "int64Value e (vint v) = v" using v by (intro int64Value_vint) auto
  define x where "x = drop_bit lo ((word_of_int v :: u64) AND bm)"
  have bx: "bit x j \<longleftrightarrow> lo + j \<le> hi \<and> bit v (lo + j)" for j
    using hi bit_get_bits [of bm lo hi "word_of_int v" j] bm by (auto simp: x_def d bit_simps)
  have "\<not> bit x j" if "53 \<le> j" for j using that hi by (auto simp: bx)
  note x = sint_53 [OF this]
  have "uint x = take_bit (hi - lo + 1) (drop_bit lo v)"
    by (rule bit_eqI) (use hi in \<open>auto simp: bit_uint_iff bx bit_simps\<close>)
  moreover have "bit_func e [vint a, vint b, vint v] = Some (vnum (f64_of_int (sint x)))"
    using m i by (simp add: bit_func_def x_def d arg_def f64_is_zero_def)
  ultimately show ?thesis unfolding k d [symmetric] by (simp only: x(1))
qed

lemma signbit_word:
  fixes x :: u64
  assumes "m \<le> 31" and "\<And>i. m < i \<Longrightarrow> \<not> bit x i"
  shows "x AND (if m = 31 then word_of_int (- (2 ^ 31)) else push_bit m 1) \<noteq> 0 \<longleftrightarrow> bit x m"
proof -
  define sb where "sb = (if m = 31 then word_of_int (- (2 ^ 31)) else push_bit m 1 :: u64)"
  have s: "bit (word_of_int (- (2 ^ 31)) :: u64) i \<longleftrightarrow> 31 \<le> i \<and> i < 64" for i
    unfolding minus_exp_eq_not_mask bit_word_of_int_iff bit_not_int_iff bit_mask_iff by auto
  have p: "bit (push_bit m 1 :: u64) i \<longleftrightarrow> m \<le> i \<and> i - m = 0 \<and> i < 64" for i
    unfolding bit_push_bit_iff bit_1_iff by auto
  have b: "i \<le> m \<Longrightarrow> bit sb i \<longleftrightarrow> i = m" for i
    using assms(1) unfolding sb_def by (cases "m = 31") (auto simp only: if_True if_False s p HOL.simp_thms)
  have x: "bit (x AND sb) i \<longleftrightarrow> i = m \<and> bit x m" for i
    using b [of i] assms(2) [of i] by (cases "i \<le> m") (auto simp: bit_and_iff)
  have "x AND sb = 0 \<longleftrightarrow> \<not> bit x m"
  proof
    assume "x AND sb = 0"
    then show "\<not> bit x m" using x [of m] by simp
  next
    assume "\<not> bit x m"
    then show "x AND sb = 0" by (intro bit_word_eqI) (simp add: x)
  qed
  then show ?thesis unfolding sb_def by blast
qed

lemma extend_word:
  fixes x :: u64
  assumes "lo \<le> hi" and bx: "\<And>j. bit x j \<longleftrightarrow> lo + j \<le> hi \<and> bit v (lo + j)" and "hi - lo < 64"
  shows "(if bit x (hi - lo) then x OR push_bit (hi - lo + 1) (-1) else x) =
    word_of_int (signed_take_bit (hi - lo) (drop_bit lo v))"
proof (rule bit_word_eqI)
  fix j
  assume j: "j < LENGTH(64)"
  have r: "bit (word_of_int (signed_take_bit (hi - lo) (drop_bit lo v)) :: u64) j \<longleftrightarrow> bit v (lo + min (hi - lo) j)"
    using j by (simp add: bit_word_of_int_iff bit_signed_take_bit_iff bit_drop_bit_eq)
  have t: "bit x (hi - lo) \<longleftrightarrow> bit v hi" using assms(1) by (simp add: bx)
  show "bit (if bit x (hi - lo) then x OR push_bit (hi - lo + 1) (-1) else x) j \<longleftrightarrow>
      bit (word_of_int (signed_take_bit (hi - lo) (drop_bit lo v)) :: u64) j"
  proof (cases "j \<le> hi - lo")
    case True
    then have "\<not> bit (push_bit (hi - lo + 1) (-1) :: u64) j" unfolding bit_push_bit_iff by simp
    moreover have "lo + j \<le> hi" "min (hi - lo) j = j" using True assms(1) by auto
    ultimately show ?thesis unfolding r by (simp add: bit_or_iff bx del: push_bit_minus_one_eq_not_mask)
  next
    case False
    with assms(1) j show ?thesis unfolding r t by (auto simp del: push_bit_minus_one_eq_not_mask simp: bit_or_iff bit_push_bit_iff bit_minus_1_iff bx)
  qed
qed

lemma getbit_signed:
  assumes r: "0 \<le> a" "a \<le> 52" "0 \<le> b" "b \<le> 52" and v: "0 \<le> v" "v < 2 ^ 53"
  shows "bit_func e [vint a, vint b, vint v, vbool True] =
    (if max a b - min a b \<le> 31
     then Some (vnum (f64_of_int (signed_take_bit (nat (max a b - min a b)) (drop_bit (nat (min a b)) v)))) else None)"
proof -
  from r have "0 \<le> a" "a \<le> 63" "0 \<le> b" "b \<le> 63" by auto
  from bitmask_range [OF this, of e "[vint v, vbool True]"] obtain bm where
    m: "bitmask e 2 [vint a, vint b, vint v, vbool True] = Some (bm, nat (min a b), nat (max a b))" and
    bm: "\<And>i. bit bm i \<longleftrightarrow> nat (min a b) \<le> i \<and> i \<le> nat (max a b)" by blast
  define lo hi where d: "lo = nat (min a b)" "hi = nat (max a b)"
  have hi: "hi \<le> 52" "lo \<le> hi" and k: "nat (max a b - min a b) = hi - lo" "max a b - min a b \<le> 31 \<longleftrightarrow> \<not> 32 \<le> hi - lo"
    using r by (auto simp: d)
  have i: "int64Value e (vint v) = v" using v by (intro int64Value_vint) auto
  define x where "x = drop_bit lo ((word_of_int v :: u64) AND bm)"
  have bx: "bit x j \<longleftrightarrow> lo + j \<le> hi \<and> bit v (lo + j)" for j
    using hi bit_get_bits [of bm lo hi "word_of_int v" j] bm by (auto simp: x_def d bit_simps)
  define sb where "sb = (if hi - lo = 31 then word_of_int (- (2 ^ 31)) else push_bit (hi - lo) 1 :: u64)"
  have u: "bit_func e [vint a, vint b, vint v, vbool True] =
      (if 32 \<le> hi - lo then None
       else Some (vnum (f64_of_int (sint (if x AND sb \<noteq> 0 then x OR push_bit (hi - lo + 1) (-1) else x)))))"
  proof -
    have t: "boolValue e (arg [vint a, vint b, vint v, vbool True] 3)" "arg [vint a, vint b, vint v, vbool True] 2 = vint v"
      "(if length [vint a, vint b, vint v, vbool True] > 2 then 2 else 1) = (2 :: nat)"
      by (simp_all add: arg_def f64_is_zero_def)
    show ?thesis
      by (simp only: bit_func_def Let_def t m i option.case prod.case not_True_eq_False if_False x_def sb_def d)
  qed
  show ?thesis
  proof (cases "32 \<le> hi - lo")
    case True
    then show ?thesis using k(2) unfolding u by (simp only: if_True if_False HOL.simp_thms)
  next
    case False
    then have "x AND sb \<noteq> 0 \<longleftrightarrow> bit x (hi - lo)"
      unfolding sb_def by (intro signbit_word) (auto simp: bx)
    moreover have "(if bit x (hi - lo) then x OR push_bit (hi - lo + 1) (-1) else x) =
        word_of_int (signed_take_bit (hi - lo) (drop_bit lo v))"
      by (rule extend_word [OF _ bx]) (use hi False in auto)
    moreover have "sint (word_of_int (signed_take_bit (hi - lo) (drop_bit lo v)) :: u64) = signed_take_bit (hi - lo) (drop_bit lo v)"
    proof -
      have "min 63 (hi - lo) = hi - lo" using False by simp
      then show ?thesis by (simp only: sint_sbintrunc' signed_take_bit_signed_take_bit len_bit0 len_num1) simp
    qed
    ultimately show ?thesis using k(2) False unfolding u k(1) d [symmetric] by (simp only: if_False if_True HOL.simp_thms)
  qed
qed

text \<open>What a word with a replaced range of bits has in that range and in others.\<close>

lemma replaced_range:
  fixes w v n :: int
  assumes "hi = lo + m" "hi \<le> 52"
    and bw: "\<forall>i < 53. bit w i \<longleftrightarrow> (if lo \<le> i \<and> i \<le> hi then bit n (i - lo) else bit v i)"
  shows "take_bit (m + 1) (drop_bit lo w) = take_bit (m + 1) n"
    and "signed_take_bit m (drop_bit lo w) = signed_take_bit m n"
    and "hi' = lo' + m' \<Longrightarrow> hi' \<le> 52 \<Longrightarrow> hi' < lo \<or> hi < lo' \<Longrightarrow>
      take_bit (m' + 1) (drop_bit lo' w) = take_bit (m' + 1) (drop_bit lo' v)"
proof -
  show "take_bit (m + 1) (drop_bit lo w) = take_bit (m + 1) n"
  proof (rule bit_eqI)
    fix j
    show "bit (take_bit (m + 1) (drop_bit lo w)) j \<longleftrightarrow> bit (take_bit (m + 1) n) j"
      using assms(1,2) bw [rule_format, of "lo + j"] by (cases "j \<le> m") (simp_all add: bit_take_bit_iff bit_drop_bit_eq)
  qed
  show "signed_take_bit m (drop_bit lo w) = signed_take_bit m n"
  proof (rule bit_eqI)
    fix j
    show "bit (signed_take_bit m (drop_bit lo w)) j \<longleftrightarrow> bit (signed_take_bit m n) j"
      using assms(1,2) bw [rule_format, of "lo + min m j"] by (cases "j \<le> m") (simp_all add: bit_signed_take_bit_iff bit_drop_bit_eq)
  qed
  show "take_bit (m' + 1) (drop_bit lo' w) = take_bit (m' + 1) (drop_bit lo' v)"
    if "hi' = lo' + m'" "hi' \<le> 52" "hi' < lo \<or> hi < lo'"
  proof (rule bit_eqI)
    fix j
    show "bit (take_bit (m' + 1) (drop_bit lo' w)) j \<longleftrightarrow> bit (take_bit (m' + 1) (drop_bit lo' v)) j"
      using that bw [rule_format, of "lo' + j"] by (cases "j \<le> m'") (auto simp: bit_take_bit_iff bit_drop_bit_eq)
  qed
qed

lemma range_nats:
  fixes a b :: int
  assumes "0 \<le> a" "a \<le> 52" "0 \<le> b" "b \<le> 52"
  shows "nat (max a b) = nat (min a b) + nat (max a b - min a b)" "nat (max a b) \<le> 52" "nat (max a b - min a b) \<le> 52"
  using assms by auto

text \<open>C19: Bits set are bits read. For bit numbers up to 52 in either order and a value below two to the 53, setbit gives
  a value whose range, read with bit, is the new value cut to the width of the range, and every range that does not
  touch it reads as before.\<close>

theorem set_bits_read_back:
  assumes "0 \<le> a" "a \<le> 52" "0 \<le> b" "b \<le> 52" and "\<bar>n\<bar> \<le> 2 ^ 53" and "0 \<le> v" "v < 2 ^ 53"
  shows "\<exists>w. setbit_func e [vint a, vint b, vint n, vint v] = Some (vint w) \<and>
    bit_func e [vint a, vint b, vint w] = Some (vnum (f64_of_int (n mod 2 ^ (nat (max a b - min a b) + 1)))) \<and>
    (\<forall>c d. 0 \<le> c \<longrightarrow> c \<le> 52 \<longrightarrow> 0 \<le> d \<longrightarrow> d \<le> 52 \<longrightarrow> max c d < min a b \<or> max a b < min c d \<longrightarrow>
       bit_func e [vint c, vint d, vint w] = bit_func e [vint c, vint d, vint v])"
proof -
  from setbit_range [OF assms, of e] obtain w where
    s: "setbit_func e [vint a, vint b, vint n, vint v] = Some (vint w)" and w: "0 \<le> w" "w < 2 ^ 53" and
    bw: "\<forall>i < 53. bit w i \<longleftrightarrow> (if nat (min a b) \<le> i \<and> i \<le> nat (max a b) then bit n (i - nat (min a b)) else bit v i)"
    by blast
  note r = replaced_range [OF range_nats(1,2) [OF assms(1-4)] bw]
  have "bit_func e [vint a, vint b, vint w] = Some (vnum (f64_of_int (n mod 2 ^ (nat (max a b - min a b) + 1))))"
    unfolding getbit_range [OF assms(1-4) w] r(1) by (simp only: take_bit_eq_mod)
  moreover have "bit_func e [vint c, vint d, vint w] = bit_func e [vint c, vint d, vint v]"
    if c: "0 \<le> c" "c \<le> 52" "0 \<le> d" "d \<le> 52" and o: "max c d < min a b \<or> max a b < min c d" for c d
  proof -
    have "nat (max c d) < nat (min a b) \<or> nat (max a b) < nat (min c d)" using c o assms(1-4) by auto
    note r = r(3) [OF range_nats(1,2) [OF c] this]
    show ?thesis unfolding getbit_range [OF c w] getbit_range [OF c assms(6,7)] r by (rule HOL.refl)
  qed
  ultimately show ?thesis using s by blast
qed

theorem set_bits_read_back_witness:
  "\<exists>w. setbit_func undefined [vint 7, vint 4, vint 0x1A, vint 0xF0F] = Some (vint w) \<and>
    bit_func undefined [vint 7, vint 4, vint w] = Some (vnum (f64_of_int (0x1A mod 2 ^ (nat (max 7 4 - min 7 4) + 1))))"
proof -
  have "0 \<le> (7::int)" "7 \<le> (52::int)" "0 \<le> (4::int)" "4 \<le> (52::int)" "\<bar>0x1A\<bar> \<le> (2::int) ^ 53" "0 \<le> (0xF0F::int)" "0xF0F < (2::int) ^ 53"
    by simp_all
  from set_bits_read_back [OF this, of undefined] show ?thesis by blast
qed

text \<open>C20: A negative number that fits in the range of bits it is set to is read back by bit with the sign argument, if the
  range has at most 32 bits; for a wider range the sign is tested with a shift of an int by its width or more, which
  is undefined.\<close>

theorem signed_bits_read_back:
  assumes "0 \<le> a" "a \<le> 52" "0 \<le> b" "b \<le> 52" and "0 \<le> v" "v < 2 ^ 53"
    and "- (2 ^ nat (max a b - min a b)) \<le> n" "n < 2 ^ nat (max a b - min a b)"
  shows "\<exists>w. setbit_func e [vint a, vint b, vint n, vint v] = Some (vint w) \<and>
    bit_func e [vint a, vint b, vint w, vbool True] = (if max a b - min a b \<le> 31 then Some (vnum (f64_of_int n)) else None)"
proof -
  define m where "m = nat (max a b - min a b)"
  have "(2::int) ^ m \<le> 2 ^ 53" using range_nats(3) [OF assms(1-4)] unfolding m_def by (intro power_increasing) auto
  with assms(7,8) have "\<bar>n\<bar> \<le> 2 ^ 53" unfolding m_def [symmetric] by linarith
  from setbit_range [OF assms(1-4) this assms(5,6), of e] obtain w where
    s: "setbit_func e [vint a, vint b, vint n, vint v] = Some (vint w)" and w: "0 \<le> w" "w < 2 ^ 53" and
    bw: "\<forall>i < 53. bit w i \<longleftrightarrow> (if nat (min a b) \<le> i \<and> i \<le> nat (max a b) then bit n (i - nat (min a b)) else bit v i)"
    by blast
  note r = replaced_range(2) [OF range_nats(1,2) [OF assms(1-4)] bw]
  have "signed_take_bit m n = n" using assms(7,8) unfolding m_def [symmetric] by (rule signed_take_bit_int_eq_self)
  then show ?thesis using s getbit_signed [OF assms(1-4) w, of e] r unfolding m_def by auto
qed

theorem signed_bits_read_back_witness:
  "\<exists>w. setbit_func undefined [vint 4, vint 7, vint (- 3), vint 0xF0F] = Some (vint w) \<and>
    bit_func undefined [vint 4, vint 7, vint w, vbool True] =
      (if max 4 7 - min 4 7 \<le> (31::int) then Some (vnum (f64_of_int (- 3))) else None)"
  by (rule signed_bits_read_back) simp_all

section \<open>Cyclic ranges\<close>

lemma to_int32_small: "- (2 ^ 31) \<le> n \<Longrightarrow> n < 2 ^ 31 \<Longrightarrow> to_int32 n = n"
  unfolding to_int32_def sint_sbintrunc' by (simp add: signed_take_bit_int_eq_self)

lemma f64_to_int32_floor: "0 \<le> v \<Longrightarrow> \<lfloor>v\<rfloor> < 2 ^ 31 \<Longrightarrow> f64_to_int 32 (F_Fin v) = \<lfloor>v\<rfloor>"
proof -
  assume v: "0 \<le> v" "\<lfloor>v\<rfloor> < 2 ^ 31"
  then have "- (2 ^ 31) \<le> \<lfloor>v\<rfloor>" by (simp add: le_floor_iff)
  with v show ?thesis by (simp add: f64_to_int_def trunc_rat_def)
qed

text \<open>The whole rounds to go, and what is left of a number below or above the range.\<close>

lemma rounds:
  assumes "0 \<le> p" "p < 2 ^ 31" "0 < r" "r < 2 ^ 31"
  shows "f64_to_int 32 (f64_div (F_Fin (of_int p)) (F_Fin (of_int r))) = p div r" "0 \<le> p div r" "p div r < 2 ^ 31" "(p div r) * r \<le> p" "p div r \<le> p"
proof -
  have "p < 2 ^ 53" "r < 2 ^ 53" using assms by simp_all
  from f64_div_ints [OF assms(1) this(1) assms(3) this(2)] obtain v where
    v: "f64_div (F_Fin (of_int p)) (F_Fin (of_int r)) = F_Fin v" "0 \<le> v" "\<lfloor>v\<rfloor> = p div r" by blast
  show d: "0 \<le> p div r" using assms by (simp add: pos_imp_zdiv_nonneg_iff)
  have "p = (p div r) * r + p mod r" "0 \<le> p mod r" using assms by simp_all
  then show m: "(p div r) * r \<le> p" by linarith
  have "(p div r) * 1 \<le> (p div r) * r" using d assms by (intro mult_left_mono) simp_all
  with m show "p div r \<le> p" by simp
  with assms(2) show "p div r < 2 ^ 31" by simp
  then show "f64_to_int 32 (f64_div (F_Fin (of_int p)) (F_Fin (of_int r))) = p div r"
    unfolding v(1) v(3) [symmetric] using v(2) by (rule f64_to_int32_floor [rotated])
qed

lemma below_range:
  fixes x r :: int
  assumes "0 < r" "x < 0"
  shows "x + (- x div r + 1) * r = (if r dvd x then r else x mod r)"
proof (cases "r dvd x")
  case True
  then have "- x div r * r = - x" by simp
  with True show ?thesis by (simp add: distrib_right)
next
  case False
  have e: "- x = (- x div r) * r + (- x) mod r" by simp
  have "(- x) mod r = r - x mod r" using False by (simp add: zmod_zminus1_eq_if dvd_eq_mod_eq_0)
  with e False show ?thesis by (simp add: distrib_right)
qed

text \<open>C21: For integers of moderate size, cyclic brings a number into the range from a up to but not including b, by whole
  lengths of the range, with doubles as they are rounded; except that a number below a that differs from it by whole
  lengths becomes b, which the description excludes.\<close>

theorem cyclic_wraps:
  assumes "a < b" "\<bar>a\<bar> \<le> 2 ^ 29" "\<bar>b\<bar> \<le> 2 ^ 29" "\<bar>x\<bar> \<le> 2 ^ 29"
  shows "cyclic_func e [vint x, vint a, vint b] =
    vnum (f64_of_int (if x < a \<and> (b - a) dvd (x - a) then b else a + (x - a) mod (b - a)))"
proof -
  define r y where d: "r = b - a" "y = x - a"
  have b: "0 < r" "r < 2 ^ 31" "1 - 2 ^ 31 < y" "y < 2 ^ 31" using assms by (auto simp: d abs_le_iff)
  have ex: "f64_of_int n = F_Fin (of_int n)" if "\<bar>n\<bar> \<le> 2 ^ 33" for n
    using that by (intro f64_of_int_exact) simp
  have st: "doubleValue e (arg [vint x, vint a, vint b] 1) = F_Fin (of_int a)"
    "f64_sub (doubleValue e (arg [vint x, vint a, vint b] 0)) (F_Fin (of_int a)) = F_Fin (of_int y)"
    "f64_sub (doubleValue e (arg [vint x, vint a, vint b] 2)) (F_Fin (of_int a)) = F_Fin (of_int r)"
    using assms by (simp_all add: arg_def ex d f64_sub_ints abs_le_iff)
  have fin: "vnum (f64_add (F_Fin (of_int z)) (F_Fin (of_int a))) = vnum (f64_of_int (a + z))" if "\<bar>z\<bar> \<le> 2 ^ 32" for z
  proof -
    have "\<bar>z + a\<bar> \<le> 2 ^ 33" using that assms(2) by (simp add: abs_le_iff)
    moreover from this have "\<bar>z + a\<bar> \<le> 2 ^ 53" by simp
    ultimately show ?thesis by (simp only: f64_add_ints ex add.commute [of a])
  qed
  note u = cyclic_func_def Let_def st
  consider "r \<le> y" | "y < 0" | "0 \<le> y" "y < r" by linarith
  then show ?thesis
  proof cases
    case 1
    with b have p: "0 \<le> y" by simp
    note q = rounds [OF p b(4,1,2)]
    have "\<bar>y div r\<bar> \<le> 2 ^ 33" "y div r * r \<le> 2 ^ 53" using q b by simp_all
    then have m: "f64_mul (f64_of_int (y div r)) (F_Fin (of_int r)) = F_Fin (of_int (y div r * r))"
      using q(2) b(1) by (simp only: ex f64_mul_ints less_imp_le)
    have "0 \<le> y mod r" "y mod r < 2 ^ 31"
      using pos_mod_sign [OF b(1)] less_trans [OF pos_mod_bound [OF b(1)] b(2)] by blast+
    then have yr: "y - y div r * r = y mod r" "\<bar>y mod r\<bar> \<le> 2 ^ 32" "\<bar>y mod r\<bar> \<le> 2 ^ 53"
      using b(2) by (simp_all add: minus_div_mult_eq_mod)
    have t: "f64_sub (F_Fin (of_int y)) (F_Fin (of_int (y div r * r))) = F_Fin (of_int (y mod r))"
      using f64_sub_ints [of y "y div r * r"] yr by simp
    have c: "\<not> f64_less (F_Fin (of_int y)) (F_Fin (of_int r)) \<and> F_Fin (of_int y) \<noteq> F_NaN \<and> F_Fin (of_int r) \<noteq> F_NaN"
      using 1 by simp
    have "\<not> (x < a \<and> r dvd y)" using p by (simp add: d)
    then show ?thesis unfolding u using c fin [OF yr(2)] by (simp only: if_True q(1) m t d [symmetric] if_False HOL.simp_thms)
  next
    case 2
    then have p: "0 \<le> - y" "- y < 2 ^ 31" using b by simp_all
    note q = rounds [OF p b(1,2)]
    have n1: "to_int32 (- y div r + 1) = - y div r + 1"
      using q(2,5) b(3) by (intro to_int32_small) linarith+
    define k where "k = - y div r + 1"
    have "k * r \<le> - y + r" using q(4) by (simp add: k_def distrib_right)
    then have k: "0 \<le> k" "k * r \<le> 2 ^ 53" "\<bar>k\<bar> \<le> 2 ^ 33" using p b q(2,3) by (simp_all add: k_def)
    have m: "f64_mul (f64_of_int k) (F_Fin (of_int r)) = F_Fin (of_int (k * r))"
      using k b(1) by (simp only: ex f64_mul_ints less_imp_le)
    have z: "y + k * r = (if r dvd y then r else y mod r)" unfolding k_def by (rule below_range [OF b(1) 2])
    have "0 \<le> y mod r" "y mod r < 2 ^ 31"
      using pos_mod_sign [OF b(1)] less_trans [OF pos_mod_bound [OF b(1)] b(2)] by blast+
    then have zb: "\<bar>y + k * r\<bar> \<le> 2 ^ 32" "\<bar>y + k * r\<bar> \<le> 2 ^ 53" unfolding z using b by simp_all
    have t: "f64_add (F_Fin (of_int y)) (F_Fin (of_int (k * r))) = F_Fin (of_int (y + k * r))"
      using zb(2) by (rule f64_add_ints)
    have mi: "f64_minus (F_Fin (of_int y)) = F_Fin (of_int (- y))" using 2 by simp
    have c: "\<not> (\<not> f64_less (F_Fin (of_int y)) (F_Fin (of_int r)) \<and> F_Fin (of_int y) \<noteq> F_NaN \<and> F_Fin (of_int r) \<noteq> F_NaN)"
      "f64_less (F_Fin (of_int y)) (F_Fin 0)" using 2 b(1) by simp_all
    have e: "a + (y + k * r) = (if x < a \<and> r dvd y then b else a + y mod r)" unfolding z using 2 by (simp add: d)
    show ?thesis unfolding u using c fin [OF zb(1)]
      by (simp only: if_True if_False mi q(1) k_def [symmetric] n1 [folded k_def] m t d [symmetric] e HOL.simp_thms)
  next
    case 3
    then have c: "\<not> (\<not> f64_less (F_Fin (of_int y)) (F_Fin (of_int r)) \<and> F_Fin (of_int y) \<noteq> F_NaN \<and> F_Fin (of_int r) \<noteq> F_NaN)"
      "\<not> f64_less (F_Fin (of_int y)) (F_Fin 0)" by simp_all
    have "\<not> (x < a \<and> r dvd y)" "y mod r = y" "\<bar>y\<bar> \<le> 2 ^ 32" using 3 b by (simp_all add: d)
    then show ?thesis unfolding u using c fin [of y] by (simp only: d [symmetric] if_False HOL.simp_thms)
  qed
qed

theorem cyclic_wraps_witness:
  "cyclic_func undefined [vint (- 10), vint 0, vint 10] =
    vnum (f64_of_int (if - 10 < (0 :: int) \<and> (10 - 0 :: int) dvd (- 10 - 0) then 10 else 0 + (- 10 - 0) mod (10 - 0)))"
  by (rule cyclic_wraps) simp_all

section \<open>Finding\<close>

lemma find_at_least:
  "find_at p s i = Some j \<Longrightarrow> i \<le> q \<Longrightarrow> q < j \<Longrightarrow> \<not> prefix p (drop (q - i) s)"
proof (induction p s i rule: find_at.induct)
  case (2 p c s i)
  show ?case
  proof (cases "q = i")
    case True
    with "2.prems" show ?thesis by (auto split: if_splits)
  next
    case False
    with "2.prems" have "find_at p s (Suc i) = Some j" "\<not> prefix p (c # s)" "Suc i \<le> q" by (auto split: if_splits)
    with "2.IH" "2.prems"(3) have "\<not> prefix p (drop (q - Suc i) s)" by simp
    with \<open>Suc i \<le> q\<close> show ?thesis by (simp add: Suc_diff_Suc drop_Cons')
  qed
qed (auto split: if_splits)

lemma find_at_None:
  "find_at p s i = None \<Longrightarrow> \<not> prefix p (drop k s)"
proof (induction p s i arbitrary: k rule: find_at.induct)
  case (2 p c s i)
  then show ?case by (cases k) (auto split: if_splits)
qed (auto split: if_splits)

lemma defined_num: "defined_val (VNum k x)"
proof -
  have "\<not> has_flag ti_numeric ti_null" "\<not> has_flag ti_numeric ti_error" by code_simp+
  then show ?thesis by (simp add: defined_val_def undefined_val_def isErr_def hasType_def)
qed

lemma null_false: "\<not> boolValue e (VNull x)"
  by (simp add: f64_is_zero_def)

lemma take_prefix: "take (length p) s = p \<longleftrightarrow> prefix p s"
  by (metis append_take_drop_id prefixI take_is_prefix prefix_def append_eq_conv_conj)

text \<open>C22: What find finds is there: the position is not before the start, substr gives the text searched for at it, and the
  text does not occur between the start and it; and when nothing is found, it occurs nowhere behind the start.\<close>

theorem found_text_is_there:
  assumes "length s < 2 ^ 31" "0 \<le> from" "from \<le> int (length s)"
  shows "(\<exists>p. find_func e h [VStr s, VStr t, vint from] = Some (vint (int p)) \<and> from \<le> int p \<and>
       substr_func e h [VStr s, vint (int p), vint (int (length t))] = Some (VStr t) \<and>
       (\<forall>q < p. from \<le> int q \<longrightarrow> take (length t) (drop q s) \<noteq> t)) \<or>
     (find_func e h [VStr s, VStr t, vint from] = Some (VNull ''no such substring'') \<and>
       (\<forall>q. from \<le> int q \<longrightarrow> q \<le> length s \<longrightarrow> take (length t) (drop q s) \<noteq> t))"
proof -
  have iv: "intValue e (vint n) = n" if "0 \<le> n" "n \<le> int (length s)" for n
    using that assms(1) by (intro intValue_vint) simp
  have f: "find_func e h [VStr s, VStr t, vint from] =
      Some (case find_from s t (nat from) of Some p \<Rightarrow> vint (int p) | None \<Rightarrow> VNull ''no such substring'')"
    using assms(2,3) iv [OF assms(2,3)]
    by (simp add: find_func_def arg_def stringValue_def defined_num null_false del: boolValue.simps)
  show ?thesis
  proof (cases "find_from s t (nat from)")
    case None
    then have "find_at t (drop (nat from) s) (nat from) = None" using assms(2,3) by (simp add: find_from_def nat_le_iff split: if_splits)
    then have n: "\<not> prefix t (drop k (drop (nat from) s))" for k by (rule find_at_None)
    have "take (length t) (drop q s) \<noteq> t" if "from \<le> int q" for q
      using n [of "q - nat from"] that assms(2) by (simp add: take_prefix)
    with None f show ?thesis by simp
  next
    case (Some p)
    from find_from_Some [OF Some] have p: "nat from \<le> p" "p + length t \<le> length s" "take (length t) (drop p s) = t" by auto
    have "find_at t (drop (nat from) s) (nat from) = Some p" using Some by (simp add: find_from_def split: if_splits)
    then have "take (length t) (drop q s) \<noteq> t" if "from \<le> int q" "q < p" for q
      using find_at_least [of t "drop (nat from) s" "nat from" p q] that assms(2) by (simp add: take_prefix)
    moreover have "substr_func e h [VStr s, vint (int p), vint (int (length t))] = Some (VStr t)"
      using iv [of "int p"] iv [of "int (length t)"] p
      by (simp add: substr_func_def arg_def stringValue_def defined_num)
    ultimately show ?thesis using Some f p(1) by auto
  qed
qed

theorem found_text_is_there_witness:
  "(\<exists>p. find_func undefined undefined [VStr ''abcabc'', VStr ''ca'', vint 1] = Some (vint (int p)) \<and> 1 \<le> int p \<and>
       substr_func undefined undefined [VStr ''abcabc'', vint (int p), vint (int (length ''ca''))] = Some (VStr ''ca'') \<and>
       (\<forall>q < p. 1 \<le> int q \<longrightarrow> take (length ''ca'') (drop q ''abcabc'') \<noteq> ''ca'')) \<or>
     (find_func undefined undefined [VStr ''abcabc'', VStr ''ca'', vint 1] = Some (VNull ''no such substring'') \<and>
       (\<forall>q. 1 \<le> int q \<longrightarrow> q \<le> length ''abcabc'' \<longrightarrow> take (length ''ca'') (drop q ''abcabc'') \<noteq> ''ca''))"
  by (rule found_text_is_there) simp_all

end
