(* ===== verification/ScriptLock.thy ===== *)
theory ScriptLock
  imports ScriptBuiltins TimeBase
begin

text \<open>
  Calls of built-in functions that finish later (\<open>BuiltinFunctionContext\<close>) and the lock objects of scripts
  (\<open>LockObj\<close> in \<open>p44script.cpp\<close>): threads with the thread they are chained from, calls of \<open>enter\<close> that wait, and
  the timers of their timeouts. A thread, a call and a timer are numbers, in order of their creation.
\<close>

section \<open>Calls of built-in functions\<close>

text \<open>
  \<open>mFunc\<close> is the name of the function and whether it finishes later. The evaluation callback is set or not; what
  it has been called with is \<open>reported\<close>.
\<close>

record builtin_call =
  cThread :: nat
  mFunc :: "(string \<times> bool) option"
  mEvaluationCB :: bool
  mAbortCB :: bool
  mUndefinedResult :: bool
  reported :: "val list"

definition in_quotes :: "string \<Rightarrow> string" where
  "in_quotes s = [CHR 0x27] @ s @ [CHR 0x27]"

definition new_call :: "nat \<Rightarrow> builtin_call" where
  "new_call t = \<lparr>cThread = t, mFunc = None, mEvaluationCB = False, mAbortCB = False, mUndefinedResult = False, reported = []\<rparr>"

definition finish :: "val \<Rightarrow> builtin_call \<Rightarrow> builtin_call" where
  "finish r c = c\<lparr>mAbortCB := False, mFunc := None, mEvaluationCB := False,
     reported := (if mEvaluationCB c then reported c @ [r] else reported c)\<rparr>"

text \<open>Whether the call is aborted now, and whether its abort callback has been called before it finished.\<close>

definition abort_call :: "val option \<Rightarrow> builtin_call \<Rightarrow> builtin_call \<times> bool \<times> bool" where
  "abort_call r c =
     (case mFunc c of
        None \<Rightarrow> (c, False, False)
      | Some (nm, _) \<Rightarrow>
          (finish (case r of Some v \<Rightarrow> v | None \<Rightarrow> err_value E_Aborted (''builtin function '' @ in_quotes nm @ '' aborted''))
             (c\<lparr>mAbortCB := False, mFunc := None\<rparr>), True, mAbortCB c))"

text \<open>
  The implementation is a function of the call. A function that may finish later is not called in synchronous
  evaluation, but stays the current function of the call.
\<close>

definition execute_call :: "(string \<times> bool) option \<Rightarrow> bool \<Rightarrow> (builtin_call \<Rightarrow> builtin_call) \<Rightarrow> builtin_call \<Rightarrow> builtin_call" where
  "execute_call func sync impl c =
     (if mUndefinedResult c
      then c\<lparr>mUndefinedResult := False,
             reported := reported c @ [VNull ''undefined argument caused undefined function result'']\<rparr>
      else case func of
          None \<Rightarrow> c\<lparr>mFunc := None, reported := reported c @ [err_value E_Internal ''builtin function call inconsistency'']\<rparr>
        | Some (nm, async) \<Rightarrow>
            if sync \<and> async
            then c\<lparr>mFunc := func, reported := reported c @
                   [err_value E_AsyncNotAllowed (''builtin function '' @ in_quotes nm @ '' cannot be used in synchronous evaluation'')]\<rparr>
            else impl (c\<lparr>mFunc := func, mAbortCB := False, mEvaluationCB := True\<rparr>))"

section \<open>Chains of threads\<close>

text \<open>A thread is chained from an older one, so walking back ends.\<close>

function chainOriginThread :: "(nat \<Rightarrow> nat option) \<Rightarrow> nat \<Rightarrow> nat" where
  "chainOriginThread ch t =
     (case ch t of None \<Rightarrow> t | Some u \<Rightarrow> if u < t then chainOriginThread ch u else t)"
  by pat_completeness auto
termination by (relation "measure snd") auto

declare chainOriginThread.simps [simp del]

section \<open>The lock\<close>

record lock_waiter =
  timeoutTicket :: bool
  threadP :: nat
  lockCB :: nat

record lock_obj =
  mCurrentThread :: "nat option"
  mLockCount :: int
  mWaiters :: "lock_waiter list"

definition new_lock :: "nat option \<Rightarrow> lock_obj" where
  "new_lock t = \<lparr>mCurrentThread = t, mLockCount = (if t = None then 0 else 1), mWaiters = []\<rparr>"

definition lock_value :: "lock_obj \<Rightarrow> f64" where
  "lock_value l = f64_of_int (mLockCount l)"

definition lock_enter :: "(nat \<Rightarrow> nat option) \<Rightarrow> nat \<Rightarrow> lock_obj \<Rightarrow> lock_obj \<times> bool" where
  "lock_enter ch t l =
     (case mCurrentThread l of
        Some u \<Rightarrow> if chainOriginThread ch u \<noteq> chainOriginThread ch t then (l, False)
                  else (l\<lparr>mLockCount := mLockCount l + 1\<rparr>, True)
      | None \<Rightarrow> (l\<lparr>mCurrentThread := Some t, mLockCount := 1\<rparr>, True))"

definition registerLockCB :: "nat \<Rightarrow> nat \<Rightarrow> int \<Rightarrow> lock_obj \<Rightarrow> lock_obj" where
  "registerLockCB t cb timeout l =
     l\<lparr>mWaiters := mWaiters l @ [\<lparr>timeoutTicket = DEFINED_INTERVAL timeout, threadP = t, lockCB = cb\<rparr>]\<rparr>"

text \<open>The waiter that gets the lock, if any, is told so by its callback.\<close>

definition lock_leave :: "(nat \<Rightarrow> nat option) \<Rightarrow> nat \<Rightarrow> lock_obj \<Rightarrow> lock_obj \<times> bool \<times> nat option" where
  "lock_leave ch t l =
     (case mCurrentThread l of
        None \<Rightarrow> (l, False, None)
      | Some u \<Rightarrow>
          if chainOriginThread ch t \<noteq> chainOriginThread ch u then (l, False, None)
          else if mLockCount l > 1 then (l\<lparr>mLockCount := mLockCount l - 1\<rparr>, True, None)
          else case mWaiters l of
              [] \<Rightarrow> (l\<lparr>mLockCount := 0, mCurrentThread := None\<rparr>, True, None)
            | w # ws \<Rightarrow> (l\<lparr>mCurrentThread := Some (threadP w), mWaiters := ws\<rparr>, True, Some (lockCB w)))"

text \<open>The first waiter of the thread is removed.\<close>

fun without_waiter :: "nat \<Rightarrow> lock_waiter list \<Rightarrow> lock_waiter list" where
  "without_waiter t [] = []"
| "without_waiter t (w # ws) = (if threadP w = t then ws else w # without_waiter t ws)"

definition locktimeout :: "lock_waiter \<Rightarrow> lock_obj \<Rightarrow> lock_obj \<times> nat" where
  "locktimeout w l = (l\<lparr>mWaiters := without_waiter (threadP w) (mWaiters l)\<rparr>, lockCB w)"

text \<open>The callbacks called with false, in order. The count stays.\<close>

definition lock_deactivate :: "lock_obj \<Rightarrow> lock_obj \<times> nat list" where
  "lock_deactivate l = (l\<lparr>mCurrentThread := None, mWaiters := []\<rparr>, map lockCB (mWaiters l))"

section \<open>Threads that use a lock\<close>

text \<open>
  \<open>gains\<close> is not in the code: which chain of threads has been told that it has entered (true) or left, in order.
\<close>

record lock_world =
  running :: "bool list"
  chained :: "nat \<Rightarrow> nat option"
  calls :: "builtin_call list"
  lock :: lock_obj
  gains :: "(nat \<times> bool) list"

definition endLockWait :: "nat \<Rightarrow> bool \<Rightarrow> lock_world \<Rightarrow> lock_world" where
  "endLockWait c entered w =
     w\<lparr>calls := (calls w)[c := finish (vbool entered) (calls w ! c)],
       gains := (if entered \<and> mEvaluationCB (calls w ! c)
                 then gains w @ [(chainOriginThread (chained w) (cThread (calls w ! c)), True)] else gains w)\<rparr>"

text \<open>\<open>None\<close> is without argument: wait for ever.\<close>

definition enter_timeout :: "f64 option \<Rightarrow> int" where
  "enter_timeout a = (case a of None \<Rightarrow> Infinite | Some x \<Rightarrow> f64_to_int 64 (f64_mul x (f64_of_int Second)))"

definition enter_func :: "nat \<Rightarrow> f64 option \<Rightarrow> lock_world \<Rightarrow> lock_world" where
  "enter_func t a w =
     (let c = length (calls w);
          (l, entered) = lock_enter (chained w) t (lock w);
          w = w\<lparr>lock := l, calls := calls w @ [execute_call (Some (''enter'', True)) False id (new_call t)]\<rparr>
      in if \<not> entered \<and> enter_timeout a \<noteq> 0 then w\<lparr>lock := registerLockCB t c (enter_timeout a) (lock w)\<rparr>
         else endLockWait c entered w)"

text \<open>The thread that gets the lock is told before the one that leaves it.\<close>

definition leave_func :: "nat \<Rightarrow> lock_world \<Rightarrow> lock_world" where
  "leave_func t w =
     (let (l, left, cb) = lock_leave (chained w) t (lock w);
          c = execute_call (Some (''leave'', False)) False (finish (vbool left)) (new_call t);
          w = w\<lparr>lock := l, gains := (if left then gains w @ [(chainOriginThread (chained w) t, False)] else gains w)\<rparr>;
          w = (case cb of None \<Rightarrow> w | Some i \<Rightarrow> endLockWait i True w)
      in w\<lparr>calls := calls w @ [c]\<rparr>)"

definition waiting :: "nat \<Rightarrow> lock_world \<Rightarrow> bool" where
  "waiting t w \<longleftrightarrow> (\<exists>c\<in>set (calls w). cThread c = t \<and> mEvaluationCB c)"

definition is_running :: "nat \<Rightarrow> lock_world \<Rightarrow> bool" where
  "is_running t w \<longleftrightarrow> t < length (running w) \<and> running w ! t"

definition has_chained :: "nat \<Rightarrow> lock_world \<Rightarrow> bool" where
  "has_chained t w \<longleftrightarrow> (\<exists>u < length (running w). running w ! u \<and> chained w u = Some t)"

text \<open>
  What may happen: a thread is started, chained from a running one or from none; it completes, and is later
  unchained (its completion callback comes between the two, in which the calling thread may go on); it calls
  \<open>enter\<close> or \<open>leave\<close>; a timeout fires; a thread is aborted, with the call that waits, after those chained from it.
  A waiting thread does nothing, and one with a function running in a chained thread does not end before that one.
\<close>

datatype lock_op =
    Start "nat option"
  | Complete nat
  | Unchain nat
  | Enter nat "f64 option"
  | Leave nat
  | Fire nat
  | Abort nat "val option"

definition abort_calls :: "nat \<Rightarrow> val option \<Rightarrow> builtin_call list \<Rightarrow> builtin_call list" where
  "abort_calls t r cs = map (\<lambda>c. if cThread c = t then fst (abort_call r c) else c) cs"

fun lock_do :: "lock_op \<Rightarrow> lock_world \<Rightarrow> lock_world option" where
  "lock_do (Start p) w =
     (if (case p of None \<Rightarrow> True | Some u \<Rightarrow> is_running u w \<and> \<not> waiting u w)
      then Some (w\<lparr>running := running w @ [True], chained := (chained w)(length (running w) := p)\<rparr>) else None)"
| "lock_do (Complete t) w =
     (if is_running t w \<and> \<not> waiting t w \<and> \<not> has_chained t w then Some (w\<lparr>running := (running w)[t := False]\<rparr>) else None)"
| "lock_do (Unchain t) w =
     (if t < length (running w) \<and> \<not> running w ! t then Some (w\<lparr>chained := (chained w)(t := None)\<rparr>) else None)"
| "lock_do (Enter t a) w = (if is_running t w \<and> \<not> waiting t w then Some (enter_func t a w) else None)"
| "lock_do (Leave t) w = (if is_running t w \<and> \<not> waiting t w then Some (leave_func t w) else None)"
| "lock_do (Fire i) w =
     (if i < length (mWaiters (lock w)) \<and> timeoutTicket (mWaiters (lock w) ! i)
      then let (l, c) = locktimeout (mWaiters (lock w) ! i) (lock w) in Some (endLockWait c False (w\<lparr>lock := l\<rparr>)) else None)"
| "lock_do (Abort t r) w =
     (if is_running t w \<and> \<not> has_chained t w
      then Some (w\<lparr>running := (running w)[t := False], chained := (chained w)(t := None), calls := abort_calls t r (calls w)\<rparr>)
      else None)"

fun lock_run :: "lock_op list \<Rightarrow> lock_world \<Rightarrow> lock_world option" where
  "lock_run [] w = Some w"
| "lock_run (x # xs) w = (case lock_do x w of None \<Rightarrow> None | Some w' \<Rightarrow> lock_run xs w')"

text \<open>A lock made by the first thread, entered by it or not.\<close>

definition lock_func :: "bool \<Rightarrow> lock_world" where
  "lock_func entered =
     \<lparr>running = [True], chained = (\<lambda>_. None), calls = [], lock = new_lock (if entered then Some 0 else None),
      gains = (if entered then [(0, True)] else [])\<rparr>"

text \<open>How often a chain of threads has entered and not left.\<close>

definition held :: "nat \<Rightarrow> (nat \<times> bool) list \<Rightarrow> int" where
  "held t g = int (length (filter (\<lambda>x. x = (t, True)) g)) - int (length (filter (\<lambda>x. x = (t, False)) g))"

end
