(* ===== verification/LockLaws.thy ===== *)
theory LockLaws
  imports ScriptLock StepFrame
begin

text \<open>
  Laws of script locks: at most one chain of threads holds a lock, whoever waits longest gets it next, every call
  reports once; and where a lock is lost for ever.
\<close>

section \<open>Chains\<close>

definition chain_ok :: "lock_world \<Rightarrow> bool" where
  "chain_ok w \<longleftrightarrow>
     (\<forall>t u. chained w t = Some u \<longrightarrow> u < t) \<and> (\<forall>t \<ge> length (running w). chained w t = None) \<and>
     (\<forall>t u. is_running t w \<longrightarrow> chained w t = Some u \<longrightarrow> is_running u w)"

lemma origin_None: "ch t = None \<Longrightarrow> chainOriginThread ch t = t"
  by (simp add: chainOriginThread.simps)

lemma origin_Some: "ch t = Some u \<Longrightarrow> u < t \<Longrightarrow> chainOriginThread ch t = chainOriginThread ch u"
  by (simp add: chainOriginThread.simps [of ch t])

lemma origin_le: "chainOriginThread ch t \<le> t"
proof (induction t rule: less_induct)
  case (less t)
  show ?case
    by (subst chainOriginThread.simps) (auto split: option.splits intro: le_trans [OF less less_imp_le])
qed

lemma origin_running:
  assumes "chain_ok w" "is_running t w"
  shows "is_running (chainOriginThread (chained w) t) w"
  using assms(2)
proof (induction t rule: less_induct)
  case (less t)
  show ?case
  proof (cases "chained w t")
    case None
    with less.prems show ?thesis by (simp add: origin_None)
  next
    case (Some u)
    with assms(1) less.prems have "u < t" "is_running u w" unfolding chain_ok_def by blast+
    with less.IH Some show ?thesis by (simp add: origin_Some)
  qed
qed

lemma origin_unchain:
  "chainOriginThread (ch(x := None)) t = chainOriginThread ch t \<or> chainOriginThread (ch(x := None)) t = x"
proof (induction t rule: less_induct)
  case (less t)
  show ?case
  proof (cases "t = x")
    case True
    then show ?thesis by (simp add: origin_None)
  next
    case False
    show ?thesis
    proof (cases "ch t")
      case None
      with False show ?thesis by (simp add: origin_None)
    next
      case (Some u)
      show ?thesis
      proof (cases "u < t")
        case True
        with less False Some show ?thesis by (simp add: origin_Some)
      next
        case nu: False
        with False Some show ?thesis by (simp add: chainOriginThread.simps [of _ t])
      qed
    qed
  qed
qed

lemma origin_unchain_running:
  assumes "chain_ok w" "is_running t w" "\<not> is_running x w"
  shows "chainOriginThread ((chained w)(x := None)) t = chainOriginThread (chained w) t"
  using assms(2)
proof (induction t rule: less_induct)
  case (less t)
  then have tx: "t \<noteq> x" using assms(3) by blast
  show ?case
  proof (cases "chained w t")
    case None
    with tx show ?thesis by (simp add: origin_None)
  next
    case (Some u)
    with assms(1) less.prems have "u < t" "is_running u w" unfolding chain_ok_def by blast+
    with less.IH Some tx show ?thesis by (simp add: origin_Some)
  qed
qed

lemma origin_new: "t < n \<Longrightarrow> chainOriginThread (ch(n := p)) t = chainOriginThread ch t"
proof (induction t rule: less_induct)
  case (less t)
  have "(ch(n := p)) t = ch t" using less.prems by simp
  then show ?case
    using less by (cases "ch t") (simp_all add: chainOriginThread.simps [of _ t])
qed

lemma nth_false: "t < length xs \<Longrightarrow> xs[x := False] ! t \<longleftrightarrow> xs ! t \<and> t \<noteq> x"
  by (cases "x < length xs") (auto simp: nth_list_update)

lemma running_update: "is_running t (w\<lparr>running := (running w)[x := False], chained := c, calls := d\<rparr>) \<longleftrightarrow> is_running t w \<and> t \<noteq> x"
  "is_running t (w\<lparr>running := (running w)[x := False]\<rparr>) \<longleftrightarrow> is_running t w \<and> t \<noteq> x"
  by (auto simp: is_running_def nth_false)

lemma threads_kept [simp]:
  "running (endLockWait c b w) = running w" "chained (endLockWait c b w) = chained w" "lock (endLockWait c b w) = lock w"
  "running (enter_func t a w) = running w" "chained (enter_func t a w) = chained w"
  "running (leave_func t w) = running w" "chained (leave_func t w) = chained w"
  by (auto simp: endLockWait_def enter_func_def leave_func_def Let_def split: prod.splits option.splits)

lemma chain_ok_cong: "running w' = running w \<Longrightarrow> chained w' = chained w \<Longrightarrow> chain_ok w' = chain_ok w"
  by (simp add: chain_ok_def is_running_def)

lemma chain_ok_do:
  assumes "chain_ok w" "lock_do x w = Some w'"
  shows "chain_ok w'"
proof (cases x)
  case (Start p)
  then have p: "\<And>u. p = Some u \<Longrightarrow> is_running u w" and
    w': "w' = w\<lparr>running := running w @ [True], chained := (chained w)(length (running w) := p)\<rparr>"
    using assms(2) by (auto split: if_splits)
  have r: "is_running t w' \<longleftrightarrow> is_running t w \<or> t = length (running w)" for t
    by (auto simp: w' is_running_def nth_append less_Suc_eq)
  have "is_running u w'" if "is_running t w'" "chained w' t = Some u" for t u
  proof (cases "t = length (running w)")
    case True
    with that(2) have "p = Some u" by (simp add: w')
    then show ?thesis unfolding r using p by blast
  next
    case False
    with that(1) have "is_running t w" unfolding r by simp
    moreover from False that(2) have "chained w t = Some u" by (simp add: w')
    ultimately
    show ?thesis using assms(1) unfolding chain_ok_def r by blast
  qed
  moreover have "u < t" if "chained w' t = Some u" for t u
  proof (cases "t = length (running w)")
    case True
    with that have "p = Some u" by (simp add: w')
    then show ?thesis using p True by (auto simp: is_running_def)
  next
    case False
    with that have "chained w t = Some u" by (simp add: w')
    then show ?thesis using assms(1) unfolding chain_ok_def by blast
  qed
  moreover have "\<forall>t \<ge> length (running w'). chained w' t = None" using assms(1) by (simp add: w' chain_ok_def)
  ultimately show ?thesis unfolding chain_ok_def by blast
next
  case (Complete t)
  then have w': "w' = w\<lparr>running := (running w)[t := False]\<rparr>" and c: "\<not> has_chained t w" using assms(2) by (auto split: if_splits)
  then have "is_running v w \<Longrightarrow> chained w v \<noteq> Some t" for v by (auto simp: has_chained_def is_running_def)
  with assms(1) show ?thesis unfolding w' chain_ok_def running_update by auto
next
  case (Unchain t)
  then have w': "w' = w\<lparr>chained := (chained w)(t := None)\<rparr>" using assms(2) by (simp split: if_splits)
  have "chained w' v = Some u \<Longrightarrow> chained w v = Some u" "chained w v = None \<Longrightarrow> chained w' v = None" for v u
    by (simp_all add: w' split: if_splits)
  moreover have "running w' = running w" "is_running v w' = is_running v w" for v by (simp_all add: w' is_running_def)
  ultimately show ?thesis using assms(1) unfolding chain_ok_def by metis
next
  case (Enter t a)
  with assms(2) have "running w' = running w" "chained w' = chained w" by (auto split: if_splits)
  then show ?thesis using assms(1) chain_ok_cong by blast
next
  case (Leave t)
  with assms(2) have "running w' = running w" "chained w' = chained w" by (auto split: if_splits)
  then show ?thesis using assms(1) chain_ok_cong by blast
next
  case (Fire i)
  with assms(2) have "running w' = running w" "chained w' = chained w" by (auto simp: Let_def split: if_splits prod.splits)
  then show ?thesis using assms(1) chain_ok_cong by blast
next
  case (Abort t r)
  then have w': "w' = w\<lparr>running := (running w)[t := False], chained := (chained w)(t := None), calls := abort_calls t r (calls w)\<rparr>"
    and c: "\<not> has_chained t w" using assms(2) by (auto split: if_splits)
  then have "is_running v w \<Longrightarrow> chained w v \<noteq> Some t" for v by (auto simp: has_chained_def is_running_def)
  with assms(1) show ?thesis unfolding w' chain_ok_def running_update by auto
qed

section \<open>Calls that wait\<close>

text \<open>
  A call reports exactly when its evaluation callback is gone. Those that have not are those of the waiters, which
  stand in the order of the calls, one for each thread; a waiter whose call has reported is of an aborted thread.
\<close>

definition call_ok :: "builtin_call \<Rightarrow> bool" where
  "call_ok c \<longleftrightarrow> length (reported c) = (if mEvaluationCB c then 0 else 1) \<and> (mEvaluationCB c \<longrightarrow> mFunc c \<noteq> None)"

definition waiter_ok :: "lock_world \<Rightarrow> lock_waiter \<Rightarrow> bool" where
  "waiter_ok w x \<longleftrightarrow>
     lockCB x < length (calls w) \<and> cThread (calls w ! lockCB x) = threadP x \<and> threadP x < length (running w) \<and>
     (if mEvaluationCB (calls w ! lockCB x) then is_running (threadP x) w
      else \<not> is_running (threadP x) w \<and> chained w (threadP x) = None)"

definition calls_ok :: "lock_world \<Rightarrow> bool" where
  "calls_ok w \<longleftrightarrow>
     (\<forall>c\<in>set (calls w). call_ok c) \<and>
     sorted_wrt (<) (map lockCB (mWaiters (lock w))) \<and> distinct (map threadP (mWaiters (lock w))) \<and>
     (\<forall>x\<in>set (mWaiters (lock w)). waiter_ok w x) \<and>
     (\<forall>c < length (calls w). mEvaluationCB (calls w ! c) \<longrightarrow> c \<in> lockCB ` set (mWaiters (lock w)))"

lemma waiter_ok_kept:
  "waiter_ok w x \<Longrightarrow> running w' = running w \<Longrightarrow> chained w' = chained w \<Longrightarrow> lockCB x < length (calls w') \<Longrightarrow>
     calls w' ! lockCB x = calls w ! lockCB x \<Longrightarrow> waiter_ok w' x"
  by (simp add: waiter_ok_def is_running_def split: if_splits)

lemma waiter_okD: "waiter_ok w x \<Longrightarrow> lockCB x < length (calls w)"
  by (simp add: waiter_ok_def)

lemma calls_okD:
  assumes "calls_ok w"
  shows "c \<in> set (calls w) \<Longrightarrow> call_ok c" "sorted_wrt (<) (map lockCB (mWaiters (lock w)))"
    "distinct (map threadP (mWaiters (lock w)))" "x \<in> set (mWaiters (lock w)) \<Longrightarrow> waiter_ok w x"
    "i < length (calls w) \<Longrightarrow> mEvaluationCB (calls w ! i) \<Longrightarrow> i \<in> lockCB ` set (mWaiters (lock w))"
  using assms unfolding calls_ok_def by blast+

lemma finish_simps [simp]:
  "cThread (finish r c) = cThread c" "mEvaluationCB (finish r c) = False" "mFunc (finish r c) = None"
  "reported (finish r c) = (if mEvaluationCB c then reported c @ [r] else reported c)"
  by (simp_all add: finish_def)

lemma call_ok_finish: "call_ok c \<Longrightarrow> call_ok (finish r c)"
  by (auto simp: call_ok_def split: if_splits)

lemma call_ok_abort: "call_ok c \<Longrightarrow> call_ok (fst (abort_call r c)) \<and> \<not> mEvaluationCB (fst (abort_call r c))"
  by (auto simp: call_ok_def abort_call_def split: option.splits if_splits)

lemma abort_call_thread [simp]: "cThread (fst (abort_call r c)) = cThread c"
  by (auto simp: abort_call_def split: option.splits)

lemma without_waiter_filter:
  "distinct (map threadP ws) \<Longrightarrow> without_waiter t ws = filter (\<lambda>x. threadP x \<noteq> t) ws"
proof (induction ws)
  case (Cons a ws)
  then have "threadP a \<notin> threadP ` set ws" by simp
  then have "filter (\<lambda>x. threadP x \<noteq> threadP a) ws = ws" by (intro filter_True) (metis image_eqI)
  with Cons show ?case by auto
qed simp

text \<open>A waiter removed, with its call finished.\<close>

lemma calls_ok_waiter_gone:
  assumes c: "calls_ok w" and x: "x \<in> set (mWaiters (lock w))"
    and w': "calls w' = (calls w)[lockCB x := finish r (calls w ! lockCB x)]" "running w' = running w" "chained w' = chained w"
    "mWaiters (lock w') = filter (\<lambda>y. threadP y \<noteq> threadP x) (mWaiters (lock w))"
  shows "calls_ok w'"
proof -
  define ws where "ws = mWaiters (lock w)"
  note c = calls_okD [OF c, folded ws_def]
  have x: "x \<in> set ws" and xl: "lockCB x < length (calls w)"
    using x c(4) by (auto simp: ws_def waiter_ok_def)
  have ws': "mWaiters (lock w') = filter (\<lambda>y. threadP y \<noteq> threadP x) ws" by (simp add: w' ws_def)
  have "distinct (map lockCB ws)" using c(2) strict_sorted_iff by blast
  then have ne: "lockCB y = lockCB x \<longleftrightarrow> threadP y = threadP x" if "y \<in> set ws" for y
    using that x c(3) by (metis distinct_map inj_onD)
  have s: "sorted_wrt (<) (map lockCB (filter P ws))" "distinct (map threadP (filter P ws))" for P
    using c(2,3) by (induction ws) auto
  have "call_ok d" if "d \<in> set (calls w')" for d
  proof -
    from that have "d = finish r (calls w ! lockCB x) \<or> d \<in> set (calls w)"
      unfolding w' using set_update_subset_insert by fastforce
    then show ?thesis using c(1) call_ok_finish nth_mem [OF xl] by blast
  qed
  moreover have "i \<in> lockCB ` set (mWaiters (lock w'))" if "i < length (calls w')" "mEvaluationCB (calls w' ! i)" for i
  proof -
    from that xl have "i \<noteq> lockCB x" "mEvaluationCB (calls w ! i)" "i < length (calls w)"
      by (auto simp: w' nth_list_update split: if_splits)
    with c(5) obtain y where y: "y \<in> set ws" "i = lockCB y" by blast
    with \<open>i \<noteq> lockCB x\<close> have "threadP y \<noteq> threadP x" using ne by blast
    with y show ?thesis unfolding ws' by auto
  qed
  moreover have "waiter_ok w' y" if "y \<in> set (mWaiters (lock w'))" for y
  proof -
    from that have y: "y \<in> set ws" "threadP y \<noteq> threadP x" by (auto simp: ws')
    then have "calls w' ! lockCB y = calls w ! lockCB y" using ne [OF y(1)] by (simp add: w' nth_list_update_neq)
    then show ?thesis using waiter_ok_kept [OF c(4) [OF y(1)], of w'] waiter_okD [OF c(4) [OF y(1)]] by (simp add: w')
  qed
  ultimately show ?thesis using s unfolding calls_ok_def ws' by blast
qed

text \<open>The call of \<open>enter\<close> that begins to wait, and one that has reported.\<close>

definition entering :: "nat \<Rightarrow> builtin_call" where
  "entering t = (new_call t)\<lparr>mFunc := Some (''enter'', True), mEvaluationCB := True\<rparr>"

lemma execute_enter: "execute_call (Some (''enter'', True)) False id (new_call t) = entering t"
  by (simp add: execute_call_def new_call_def entering_def)

lemma entering_simps [simp]: "cThread (entering t) = t" "mEvaluationCB (entering t)" "call_ok (entering t)"
  by (simp_all add: entering_def new_call_def call_ok_def)

lemma enter_cases:
  obtains (enters) l where "lock_enter (chained w) t (lock w) = (l, True)"
      "enter_func t a w = w\<lparr>lock := l, calls := calls w @ [finish (vbool True) (entering t)],
         gains := gains w @ [(chainOriginThread (chained w) t, True)]\<rparr>"
  | (fails) "lock_enter (chained w) t (lock w) = (lock w, False)"
      "enter_func t a w = w\<lparr>calls := calls w @ [finish (vbool False) (entering t)]\<rparr>"
  | (waits) "lock_enter (chained w) t (lock w) = (lock w, False)"
      "enter_func t a w = w\<lparr>lock := registerLockCB t (length (calls w)) (enter_timeout a) (lock w), calls := calls w @ [entering t]\<rparr>"
proof -
  obtain l b where l: "lock_enter (chained w) t (lock w) = (l, b)" by fastforce
  show ?thesis
  proof (cases b)
    case True
    with l show ?thesis
      by (intro enters) (simp_all add: enter_func_def Let_def execute_enter endLockWait_def)
  next
    case False
    with l have 2: "lock_enter (chained w) t (lock w) = (lock w, False)"
      by (auto simp: lock_enter_def split: option.splits if_splits)
    show ?thesis
    proof (cases "enter_timeout a = 0")
      case True
      with 2 show ?thesis by (intro fails) (simp_all add: enter_func_def Let_def execute_enter endLockWait_def)
    next
      case False
      with 2 show ?thesis by (intro waits) (simp_all add: enter_func_def Let_def execute_enter)
    qed
  qed
qed

lemma calls_ok_append:
  assumes c: "calls_ok w" and d: "call_ok d" "\<not> mEvaluationCB d"
    and w': "calls w' = calls w @ [d]" "running w' = running w" "chained w' = chained w" "mWaiters (lock w') = mWaiters (lock w)"
  shows "calls_ok w'"
proof -
  note c = calls_okD [OF c]
  have "waiter_ok w' x" if "x \<in> set (mWaiters (lock w))" for x
    using waiter_ok_kept [OF c(4) [OF that], of w'] waiter_okD [OF c(4) [OF that]] by (simp add: w' nth_append)
  moreover have "i \<in> lockCB ` set (mWaiters (lock w))" if "i < length (calls w')" "mEvaluationCB (calls w' ! i)" for i
    using that c(5) [of i] d(2) by (auto simp: w' nth_append less_Suc_eq split: if_splits)
  moreover have "e \<in> set (calls w') \<Longrightarrow> call_ok e" for e using c(1) d(1) by (auto simp: w')
  ultimately show ?thesis using c(2,3) unfolding calls_ok_def w'(4) by blast
qed

lemma not_waiter:
  assumes c: "calls_ok w" and t: "is_running t w" "\<not> waiting t w"
  shows "t \<notin> threadP ` set (mWaiters (lock w))"
proof
  assume "t \<in> threadP ` set (mWaiters (lock w))"
  then obtain x where "x \<in> set (mWaiters (lock w))" and xt: "threadP x = t" by blast
  with calls_okD(4) [OF c] have x: "waiter_ok w x" by blast
  then have "calls w ! lockCB x \<in> set (calls w)" by (simp add: waiter_ok_def)
  with x xt t show False by (auto simp: waiter_ok_def waiting_def split: if_splits)
qed

lemma calls_ok_enter:
  assumes c: "calls_ok w" and t: "is_running t w" "\<not> waiting t w"
  shows "calls_ok (enter_func t a w)"
proof (cases rule: enter_cases [of w t a])
  case (enters l)
  have "mWaiters l = mWaiters (lock w)" using enters(1) by (auto simp: lock_enter_def split: option.splits if_splits)
  then show ?thesis unfolding enters(2) by (intro calls_ok_append [OF c call_ok_finish [OF entering_simps(3)]]) simp_all
next
  case fails
  show ?thesis unfolding fails(2) by (intro calls_ok_append [OF c call_ok_finish [OF entering_simps(3)]]) simp_all
next
  case waits
  note nw = not_waiter [OF c t]
  note c = calls_okD [OF c]
  define w' where "w' = w\<lparr>lock := registerLockCB t (length (calls w)) (enter_timeout a) (lock w), calls := calls w @ [entering t]\<rparr>"
  define n where "n = \<lparr>timeoutTicket = DEFINED_INTERVAL (enter_timeout a), threadP = t, lockCB = length (calls w)\<rparr>"
  have ws': "mWaiters (lock w') = mWaiters (lock w) @ [n]" by (simp add: w'_def n_def registerLockCB_def)
  have "waiter_ok w' x" if "x \<in> set (mWaiters (lock w))" for x
    using waiter_ok_kept [OF c(4) [OF that], of w'] waiter_okD [OF c(4) [OF that]] by (simp add: w'_def nth_append)
  moreover have "waiter_ok w' n" using t(1) by (simp add: n_def waiter_ok_def w'_def is_running_def)
  moreover have "i \<in> lockCB ` set (mWaiters (lock w'))" if "i < length (calls w')" "mEvaluationCB (calls w' ! i)" for i
    using that c(5) [of i] unfolding ws' by (auto simp: w'_def n_def nth_append less_Suc_eq split: if_splits)
  moreover have "e \<in> set (calls w') \<Longrightarrow> call_ok e" for e using c(1) by (auto simp: w'_def)
  moreover have "sorted_wrt (<) (map lockCB (mWaiters (lock w')))"
    using c(2,4) unfolding ws' by (auto simp: sorted_wrt_append n_def waiter_ok_def)
  moreover have "distinct (map threadP (mWaiters (lock w')))" using c(3) nw unfolding ws' by (auto simp: n_def)
  ultimately show ?thesis unfolding waits(2) w'_def [symmetric] calls_ok_def by (auto simp: ws')
qed

definition leaving :: "bool \<Rightarrow> nat \<Rightarrow> builtin_call" where
  "leaving left t = execute_call (Some (''leave'', False)) False (finish (vbool left)) (new_call t)"

lemma leaving_simps [simp]: "cThread (leaving b t) = t" "\<not> mEvaluationCB (leaving b t)" "call_ok (leaving b t)"
  by (simp_all add: leaving_def execute_call_def new_call_def call_ok_def)

lemma leave_cases:
  obtains (refused) "lock_leave (chained w) t (lock w) = (lock w, False, None)"
      "leave_func t w = w\<lparr>calls := calls w @ [leaving False t]\<rparr>"
  | (kept) l where "lock_leave (chained w) t (lock w) = (l, True, None)" "mWaiters l = mWaiters (lock w)"
      "leave_func t w = w\<lparr>lock := l, gains := gains w @ [(chainOriginThread (chained w) t, False)], calls := calls w @ [leaving True t]\<rparr>"
  | (passed) u x xs where "mCurrentThread (lock w) = Some u" "chainOriginThread (chained w) t = chainOriginThread (chained w) u"
      "mLockCount (lock w) \<le> 1" "mWaiters (lock w) = x # xs"
      "leave_func t w = endLockWait (lockCB x) True (w\<lparr>lock := (lock w)\<lparr>mCurrentThread := Some (threadP x), mWaiters := xs\<rparr>,
         gains := gains w @ [(chainOriginThread (chained w) t, False)]\<rparr>)
           \<lparr>calls := calls (endLockWait (lockCB x) True (w\<lparr>lock := (lock w)\<lparr>mCurrentThread := Some (threadP x), mWaiters := xs\<rparr>,
              gains := gains w @ [(chainOriginThread (chained w) t, False)]\<rparr>)) @ [leaving True t]\<rparr>"
proof (cases "mCurrentThread (lock w)")
  case None
  then show ?thesis by (intro refused) (simp_all add: lock_leave_def leave_func_def leaving_def Let_def)
next
  case (Some u)
  show ?thesis
  proof (cases "chainOriginThread (chained w) t = chainOriginThread (chained w) u")
    case False
    with Some show ?thesis by (intro refused) (simp_all add: lock_leave_def leave_func_def leaving_def Let_def)
  next
    case o: True
    show ?thesis
    proof (cases "mLockCount (lock w) > 1 \<or> mWaiters (lock w) = []")
      case True
      obtain l where l: "lock_leave (chained w) t (lock w) = (l, True, None)" "mWaiters l = mWaiters (lock w)"
        using Some o True by (cases "mLockCount (lock w) > 1") (simp_all add: lock_leave_def)
      then show ?thesis by (intro kept [OF l]) (simp add: leave_func_def leaving_def Let_def)
    next
      case False
      then obtain x xs where x: "mWaiters (lock w) = x # xs" by (cases "mWaiters (lock w)") auto
      with Some o False show ?thesis
        by (intro passed [OF Some o _ x]) (simp_all add: lock_leave_def leave_func_def leaving_def Let_def endLockWait_def)
    qed
  qed
qed

lemma calls_ok_leave:
  assumes c: "calls_ok w"
  shows "calls_ok (leave_func t w)"
proof (cases rule: leave_cases [of w t])
  case refused
  show ?thesis unfolding refused(2) by (intro calls_ok_append [OF c leaving_simps(3,2)]) simp_all
next
  case (kept l)
  then show ?thesis unfolding kept(3) by (intro calls_ok_append [OF c leaving_simps(3,2)]) simp_all
next
  case (passed u x xs)
  define v where "v = endLockWait (lockCB x) True (w\<lparr>lock := (lock w)\<lparr>mCurrentThread := Some (threadP x), mWaiters := xs\<rparr>,
     gains := gains w @ [(chainOriginThread (chained w) t, False)]\<rparr>)"
  have "x \<in> set (mWaiters (lock w))" by (simp add: passed)
  moreover have "filter (\<lambda>y. threadP y \<noteq> threadP x) (x # xs) = xs"
    using calls_okD(3) [OF c] without_waiter_filter [of "x # xs" "threadP x"] unfolding passed(4) by simp
  then have "mWaiters (lock v) = filter (\<lambda>y. threadP y \<noteq> threadP x) (mWaiters (lock w))"
    unfolding passed(4) by (simp add: v_def)
  ultimately have "calls_ok v" by (intro calls_ok_waiter_gone [OF c]) (simp_all add: v_def endLockWait_def)
  then show ?thesis unfolding passed(5) v_def [symmetric] by (rule calls_ok_append [OF _ leaving_simps(3,2)]) simp_all
qed

lemma calls_ok_fire:
  assumes c: "calls_ok w" and i: "i < length (mWaiters (lock w))"
    and l: "locktimeout (mWaiters (lock w) ! i) (lock w) = (l, d)"
  shows "calls_ok (endLockWait d False (w\<lparr>lock := l\<rparr>))"
  using l without_waiter_filter [OF calls_okD(3) [OF c]]
  by (intro calls_ok_waiter_gone [OF c nth_mem [OF i]]) (auto simp: endLockWait_def locktimeout_def)

lemma calls_ok_threads:
  assumes "calls_ok w" "calls w' = calls w" "lock w' = lock w" "\<And>x. waiter_ok w x \<Longrightarrow> waiter_ok w' x"
  shows "calls_ok w'"
  using assms unfolding calls_ok_def by simp

lemma waiting_call: "waiter_ok w x \<Longrightarrow> mEvaluationCB (calls w ! lockCB x) \<Longrightarrow> waiting (threadP x) w"
  by (auto simp: waiter_ok_def waiting_def)

lemma calls_ok_do:
  assumes ok: "chain_ok w" "calls_ok w" and do: "lock_do x w = Some w'"
  shows "calls_ok w'"
proof (cases x)
  case (Start p)
  with do have w': "w' = w\<lparr>running := running w @ [True], chained := (chained w)(length (running w) := p)\<rparr>" by (simp split: if_splits)
  have "is_running t w' = is_running t w" if "t < length (running w)" for t using that by (simp add: w' is_running_def nth_append)
  then show ?thesis by (intro calls_ok_threads [OF ok(2)]) (auto simp: w' waiter_ok_def split: if_splits)
next
  case (Complete t)
  with do have w': "w' = w\<lparr>running := (running w)[t := False]\<rparr>" and t: "\<not> waiting t w" by (auto split: if_splits)
  show ?thesis
  proof (intro calls_ok_threads [OF ok(2)])
    fix x assume x: "waiter_ok w x"
    from waiting_call [OF this] t have "mEvaluationCB (calls w ! lockCB x) \<Longrightarrow> threadP x \<noteq> t" by blast
    with x show "waiter_ok w' x" unfolding w' waiter_ok_def running_update by auto
  qed (simp_all add: w')
next
  case (Unchain t)
  with do have w': "w' = w\<lparr>chained := (chained w)(t := None)\<rparr>" by (simp split: if_splits)
  have "is_running v w' = is_running v w" for v by (simp add: w' is_running_def)
  then show ?thesis by (intro calls_ok_threads [OF ok(2)]) (auto simp: w' waiter_ok_def split: if_splits)
next
  case (Enter t a)
  with do show ?thesis using calls_ok_enter [OF ok(2)] by (auto split: if_splits)
next
  case (Leave t)
  with do show ?thesis using calls_ok_leave [OF ok(2)] by (auto split: if_splits)
next
  case (Fire i)
  with do show ?thesis using calls_ok_fire [OF ok(2)] by (auto split: if_splits prod.splits)
next
  case (Abort t r)
  with do have w': "w' = w\<lparr>running := (running w)[t := False], chained := (chained w)(t := None), calls := abort_calls t r (calls w)\<rparr>"
    by (simp split: if_splits)
  note c = calls_okD [OF ok(2)]
  have cw: "calls w' ! i = (if cThread (calls w ! i) = t then fst (abort_call r (calls w ! i)) else calls w ! i)" if "i < length (calls w)" for i
    using that by (simp add: w' abort_calls_def)
  have "waiter_ok w' y" if "y \<in> set (mWaiters (lock w))" for y
  proof -
    note y = c(4) [OF that]
    from y have l: "lockCB y < length (calls w)" "call_ok (calls w ! lockCB y)" using c(1) nth_mem by (auto simp: waiter_ok_def)
    have r: "is_running v w' \<longleftrightarrow> is_running v w \<and> v \<noteq> t" for v unfolding w' by (rule running_update)
    show ?thesis
      using y call_ok_abort [OF l(2), of r] unfolding waiter_ok_def r cw [OF l(1)] by (auto simp: w' abort_calls_def split: if_splits)
  qed
  moreover have "i \<in> lockCB ` set (mWaiters (lock w'))" if "i < length (calls w')" "mEvaluationCB (calls w' ! i)" for i
  proof -
    from that have i: "i < length (calls w)" by (simp add: w' abort_calls_def)
    with that(2) c(1) [OF nth_mem [OF i]] have "mEvaluationCB (calls w ! i)" using call_ok_abort by (auto simp: cw split: if_splits)
    with c(5) i show ?thesis by (simp add: w')
  qed
  moreover have "call_ok e" if "e \<in> set (calls w')" for e
    using that c(1) call_ok_abort by (auto simp: w' abort_calls_def)
  ultimately show ?thesis using c(2,3) unfolding calls_ok_def by (simp add: w')
qed

section \<open>The owner\<close>

text \<open>
  At most one chain has entered more often than it has left. As long as a thread of the chain of the owner runs,
  that is this chain, and the difference is the count of the lock.
\<close>

definition owner_ok :: "lock_world \<Rightarrow> bool" where
  "owner_ok w \<longleftrightarrow>
     (case mCurrentThread (lock w) of
        None \<Rightarrow> mWaiters (lock w) = [] \<and> (\<forall>v. held v (gains w) = 0)
      | Some u \<Rightarrow> u < length (running w) \<and> 1 \<le> mLockCount (lock w) \<and>
          (\<exists>c n. 0 \<le> n \<and> (\<forall>v. held v (gains w) = (if v = c then n else 0)) \<and>
             (\<forall>t. is_running t w \<longrightarrow> chainOriginThread (chained w) t = chainOriginThread (chained w) u \<longrightarrow>
                c = chainOriginThread (chained w) u \<and> n = mLockCount (lock w))))"

lemma held_append: "held v (g @ [(c, b)]) = held v g + (if v = c then (if b then 1 else - 1) else 0)"
  by (simp add: held_def)

lemma owner_ok_threads:
  assumes o: "owner_ok w" and w': "lock w' = lock w" "gains w' = gains w" "length (running w) \<le> length (running w')"
    and run: "\<And>t u. mCurrentThread (lock w) = Some u \<Longrightarrow> u < length (running w) \<Longrightarrow> is_running t w' \<Longrightarrow>
      chainOriginThread (chained w') t = chainOriginThread (chained w') u \<Longrightarrow>
      chainOriginThread (chained w') u = chainOriginThread (chained w) u \<and>
      (\<exists>t'. is_running t' w \<and> chainOriginThread (chained w) t' = chainOriginThread (chained w) u)"
  shows "owner_ok w'"
proof (cases "mCurrentThread (lock w)")
  case None
  with o w' show ?thesis by (simp add: owner_ok_def)
next
  case (Some u)
  with o obtain c n where u: "u < length (running w)" "1 \<le> mLockCount (lock w)" and
    h: "0 \<le> n" "\<forall>v. held v (gains w) = (if v = c then n else 0)"
    "\<forall>t. is_running t w \<longrightarrow> chainOriginThread (chained w) t = chainOriginThread (chained w) u \<longrightarrow>
       c = chainOriginThread (chained w) u \<and> n = mLockCount (lock w)"
    unfolding owner_ok_def by auto
  have "c = chainOriginThread (chained w') u \<and> n = mLockCount (lock w')"
    if "is_running t w'" "chainOriginThread (chained w') t = chainOriginThread (chained w') u" for t
    using run [OF Some u(1) that] h(3) by (auto simp: w')
  with Some u h w' show ?thesis unfolding owner_ok_def by (auto intro!: exI [of _ c] exI [of _ n])
qed

lemma chain_ok_stop:
  assumes "chain_ok w" "\<not> has_chained t w"
  shows "chain_ok (w\<lparr>running := (running w)[t := False]\<rparr>)"
proof -
  from assms(2) have "is_running v w \<Longrightarrow> chained w v \<noteq> Some t" for v by (auto simp: has_chained_def is_running_def)
  with assms(1) show ?thesis unfolding chain_ok_def running_update by auto
qed

lemma owner_ok_stop:
  assumes "owner_ok w"
  shows "owner_ok (w\<lparr>running := (running w)[t := False]\<rparr>)"
  by (rule owner_ok_threads [OF assms]) (auto simp: running_update)

lemma owner_ok_unchain:
  assumes o: "owner_ok w" and c: "chain_ok w" and x: "\<not> is_running x w"
  shows "owner_ok (w\<lparr>chained := (chained w)(x := None)\<rparr>)"
proof (rule owner_ok_threads [OF o])
  fix t u
  let ?ch = "(chained w)(x := None)"
  assume "is_running t (w\<lparr>chained := ?ch\<rparr>)" and
    e: "chainOriginThread (chained (w\<lparr>chained := ?ch\<rparr>)) t = chainOriginThread (chained (w\<lparr>chained := ?ch\<rparr>)) u"
  then have t: "is_running t w" by (simp add: is_running_def)
  have ot: "chainOriginThread ?ch t = chainOriginThread (chained w) t" by (rule origin_unchain_running [OF c t x])
  with origin_running [OF c t] x have "chainOriginThread ?ch t \<noteq> x" by metis
  with e ot origin_unchain [of "chained w" x u] t
  show "chainOriginThread (chained (w\<lparr>chained := ?ch\<rparr>)) u = chainOriginThread (chained w) u \<and>
      (\<exists>t'. is_running t' w \<and> chainOriginThread (chained w) t' = chainOriginThread (chained w) u)" by auto
qed simp_all

lemma owner_ok_start:
  assumes o: "owner_ok w" and c: "chain_ok w" and p: "\<And>v. p = Some v \<Longrightarrow> is_running v w"
  shows "owner_ok (w\<lparr>running := running w @ [True], chained := (chained w)(length (running w) := p)\<rparr>)"
proof (rule owner_ok_threads [OF o])
  fix t u
  let ?n = "length (running w)"
  let ?w = "w\<lparr>running := running w @ [True], chained := (chained w)(?n := p)\<rparr>"
  assume u: "u < ?n" and t: "is_running t ?w" and e: "chainOriginThread (chained ?w) t = chainOriginThread (chained ?w) u"
  have ou: "chainOriginThread (chained ?w) u = chainOriginThread (chained w) u" using u by (simp add: origin_new)
  have "\<exists>t'. is_running t' w \<and> chainOriginThread (chained w) t' = chainOriginThread (chained w) u"
  proof (cases "t = ?n")
    case False
    with t have "is_running t w" "t < ?n" by (auto simp: is_running_def nth_append less_Suc_eq)
    with e ou show ?thesis by (auto simp: origin_new)
  next
    case True
    show ?thesis
    proof (cases p)
      case None
      with True e ou have "chainOriginThread (chained w) u = ?n" by (simp add: origin_None)
      with origin_le [of "chained w" u] u show ?thesis by simp
    next
      case (Some v)
      with p have v: "is_running v w" "v < ?n" by (auto simp: is_running_def)
      with Some True have "chainOriginThread (chained ?w) t = chainOriginThread (chained w) v"
        using origin_Some [of "chained ?w" ?n v] by (simp add: origin_new)
      with v e ou show ?thesis by auto
    qed
  qed
  with ou show "chainOriginThread (chained ?w) u = chainOriginThread (chained w) u \<and>
      (\<exists>t'. is_running t' w \<and> chainOriginThread (chained w) t' = chainOriginThread (chained w) u)" by blast
qed simp_all

lemma owner_okI:
  assumes "mCurrentThread (lock w) = Some u" "u < length (running w)" "1 \<le> mLockCount (lock w)" "0 \<le> n"
    "\<And>v. held v (gains w) = (if v = c then n else 0)"
    "\<And>t. is_running t w \<Longrightarrow> chainOriginThread (chained w) t = chainOriginThread (chained w) u \<Longrightarrow>
       c = chainOriginThread (chained w) u \<and> n = mLockCount (lock w)"
  shows "owner_ok w"
  unfolding owner_ok_def option.case assms(1) using assms(2-6) by blast

lemma owner_okE:
  assumes "owner_ok w" "mCurrentThread (lock w) = Some u"
  obtains n c where "u < length (running w)" "1 \<le> mLockCount (lock w)" "0 \<le> n"
    "\<forall>v. held v (gains w) = (if v = c then n else 0)"
    "\<forall>t. is_running t w \<longrightarrow> chainOriginThread (chained w) t = chainOriginThread (chained w) u \<longrightarrow>
       c = chainOriginThread (chained w) u \<and> n = mLockCount (lock w)"
  using assms unfolding owner_ok_def by auto

lemma owner_okN:
  assumes "owner_ok w" "mCurrentThread (lock w) = None"
  shows "mWaiters (lock w) = []" "held v (gains w) = 0"
  using assms unfolding owner_ok_def by auto

text \<open>Only the owner, the count and whether there is an owner matter.\<close>

lemma owner_ok_cong:
  assumes "owner_ok w" "running w' = running w" "chained w' = chained w" "gains w' = gains w"
    "mCurrentThread (lock w') = mCurrentThread (lock w)" "mLockCount (lock w') = mLockCount (lock w)"
    "mCurrentThread (lock w) = None \<Longrightarrow> mWaiters (lock w') = []"
  shows "owner_ok w'"
proof (cases "mCurrentThread (lock w)")
  case None
  with assms show ?thesis by (simp add: owner_ok_def)
next
  case (Some u)
  have "is_running t w' = is_running t w" for t by (simp add: is_running_def assms(2))
  with assms(1-6) Some show ?thesis unfolding owner_ok_def by (simp only: option.case)
qed

lemma owner_ok_enter:
  assumes o: "owner_ok w" and t: "is_running t w"
  shows "owner_ok (enter_func t a w)"
proof (cases rule: enter_cases [of w t a])
  case (enters l)
  define w' where "w' = w\<lparr>lock := l, calls := calls w @ [finish (vbool True) (entering t)], gains := gains w @ [(chainOriginThread (chained w) t, True)]\<rparr>"
  have r: "is_running v w' = is_running v w" for v by (simp add: w'_def is_running_def)
  have "owner_ok w'"
  proof (cases "mCurrentThread (lock w)")
    case None
    then have l: "l = (lock w)\<lparr>mCurrentThread := Some t, mLockCount := 1\<rparr>" using enters(1) by (simp add: lock_enter_def)
    show ?thesis
      by (rule owner_okI [of w' t 1 "chainOriginThread (chained w) t"])
        (use t owner_okN(2) [OF o None] in \<open>simp_all add: w'_def l is_running_def held_append\<close>)
  next
    case (Some u)
    then have e: "chainOriginThread (chained w) t = chainOriginThread (chained w) u" and
      l: "l = (lock w)\<lparr>mLockCount := mLockCount (lock w) + 1\<rparr>" using enters(1) by (auto simp: lock_enter_def split: if_splits)
    from o Some obtain n c where h: "u < length (running w)" "1 \<le> mLockCount (lock w)" "0 \<le> n"
      "\<forall>v. held v (gains w) = (if v = c then n else 0)"
      "\<forall>t. is_running t w \<longrightarrow> chainOriginThread (chained w) t = chainOriginThread (chained w) u \<longrightarrow>
         c = chainOriginThread (chained w) u \<and> n = mLockCount (lock w)" by (rule owner_okE)
    from h(5) t e have cn: "c = chainOriginThread (chained w) u" "n = mLockCount (lock w)" by blast+
    show ?thesis
      by (rule owner_okI [of w' u "n + 1" c]) (use h Some e cn in \<open>simp_all add: w'_def l held_append\<close>)
  qed
  then show ?thesis unfolding enters(2) w'_def .
next
  case fails
  show ?thesis by (rule owner_ok_cong [OF o]) (simp_all add: fails(2) owner_okN [OF o])
next
  case waits
  have "mCurrentThread (lock w) \<noteq> None" using waits(1) by (auto simp: lock_enter_def split: option.splits)
  then show ?thesis by (intro owner_ok_cong [OF o]) (simp_all add: waits(2) registerLockCB_def)
qed

lemma owner_ok_leave:
  assumes o: "owner_ok w" and c: "chain_ok w" "calls_ok w" and t: "is_running t w"
  shows "owner_ok (leave_func t w)"
proof (cases rule: leave_cases [of w t])
  case refused
  show ?thesis by (rule owner_ok_cong [OF o]) (simp_all add: refused(2) owner_okN [OF o])
next
  case (kept l)
  define w' where "w' = w\<lparr>lock := l, gains := gains w @ [(chainOriginThread (chained w) t, False)], calls := calls w @ [leaving True t]\<rparr>"
  from kept(1) obtain u where u: "mCurrentThread (lock w) = Some u" and
    e: "chainOriginThread (chained w) t = chainOriginThread (chained w) u"
    by (auto simp: lock_leave_def split: option.splits if_splits)
  from o u obtain n c where h: "u < length (running w)" "1 \<le> mLockCount (lock w)" "0 \<le> n"
    "\<forall>v. held v (gains w) = (if v = c then n else 0)"
    "\<forall>t. is_running t w \<longrightarrow> chainOriginThread (chained w) t = chainOriginThread (chained w) u \<longrightarrow>
       c = chainOriginThread (chained w) u \<and> n = mLockCount (lock w)" by (rule owner_okE)
  from h(5) t e have cn: "c = chainOriginThread (chained w) u" "n = mLockCount (lock w)" by blast+
  have "owner_ok w'"
  proof (cases "mLockCount (lock w) > 1")
    case True
    with kept(1) u e have l: "l = (lock w)\<lparr>mLockCount := mLockCount (lock w) - 1\<rparr>" by (simp add: lock_leave_def)
    show ?thesis
      by (rule owner_okI [of w' u "n - 1" c]) (use h u e cn True in \<open>simp_all add: w'_def l held_append\<close>)
  next
    case False
    with kept(1) u e h(2) have "l = (lock w)\<lparr>mLockCount := 0, mCurrentThread := None\<rparr>" "mWaiters (lock w) = []" "mLockCount (lock w) = 1"
      by (auto simp: lock_leave_def split: list.splits)
    with h e cn show ?thesis by (simp add: owner_ok_def w'_def held_append)
  qed
  then show ?thesis unfolding kept(3) w'_def .
next
  case (passed u x xs)
  define w' where "w' = leave_func t w"
  from o passed(1) obtain n c where h: "u < length (running w)" "1 \<le> mLockCount (lock w)" "0 \<le> n"
    "\<forall>v. held v (gains w) = (if v = c then n else 0)"
    "\<forall>t. is_running t w \<longrightarrow> chainOriginThread (chained w) t = chainOriginThread (chained w) u \<longrightarrow>
       c = chainOriginThread (chained w) u \<and> n = mLockCount (lock w)" by (rule owner_okE)
  from h(5) t passed(2,3) h(2) have cn: "c = chainOriginThread (chained w) u" "n = 1" "mLockCount (lock w) = 1" by simp_all
  have x: "waiter_ok w x" using calls_okD(4) [OF assms(3)] passed(4) by simp
  have r: "is_running v w' = is_running v w" for v by (simp add: w'_def is_running_def)
  have l: "mCurrentThread (lock w') = Some (threadP x)" "mLockCount (lock w') = 1" "chained w' = chained w" "running w' = running w"
    using cn(3) by (simp_all add: w'_def passed(5))
  have z: "held v (gains w @ [(chainOriginThread (chained w) t, False)]) = 0" for v
    using h(4) cn passed(2) by (simp add: held_append)
  have "owner_ok w'"
  proof (cases "mEvaluationCB (calls w ! lockCB x)")
    case True
    then have "gains w' = (gains w @ [(chainOriginThread (chained w) t, False)]) @ [(chainOriginThread (chained w) (threadP x), True)]"
      using x by (simp add: w'_def passed(5) endLockWait_def waiter_ok_def)
    then show ?thesis
      by (intro owner_okI [OF l(1), of 1 "chainOriginThread (chained w) (threadP x)"])
        (use x l z in \<open>simp_all only: held_append waiter_ok_def\<close>, simp_all)
  next
    case False
    then have g: "gains w' = gains w @ [(chainOriginThread (chained w) t, False)]"
      by (simp add: w'_def passed(5) endLockWait_def)
    from False x have d: "\<not> is_running (threadP x) w" "chained w (threadP x) = None" by (simp_all add: waiter_ok_def)
    show ?thesis
    proof (rule owner_okI [OF l(1), of 0])
      fix v assume "is_running v w'" "chainOriginThread (chained w') v = chainOriginThread (chained w') (threadP x)"
      then have "is_running (threadP x) w" using origin_running [OF c(1), of v] d(2) by (simp add: l r origin_None)
      with d(1) show "threadP x = chainOriginThread (chained w') (threadP x) \<and> 0 = mLockCount (lock w')" ..
    qed (use x l z g in \<open>simp_all add: waiter_ok_def\<close>)
  qed
  then show ?thesis unfolding w'_def .
qed

lemma owner_ok_do:
  assumes ok: "chain_ok w" "calls_ok w" "owner_ok w" and do: "lock_do x w = Some w'"
  shows "owner_ok w'"
proof (cases x)
  case (Start p)
  with do have w': "w' = w\<lparr>running := running w @ [True], chained := (chained w)(length (running w) := p)\<rparr>"
    and p: "\<And>v. p = Some v \<Longrightarrow> is_running v w" by (auto split: if_splits)
  show ?thesis unfolding w' by (rule owner_ok_start [OF ok(3,1) p])
next
  case (Complete t)
  with do show ?thesis using owner_ok_stop [OF ok(3)] by (auto split: if_splits)
next
  case (Unchain t)
  with do show ?thesis using owner_ok_unchain [OF ok(3,1), of t] by (auto simp: is_running_def split: if_splits)
next
  case (Enter t a)
  with do show ?thesis using owner_ok_enter [OF ok(3)] by (auto split: if_splits)
next
  case (Leave t)
  with do show ?thesis using owner_ok_leave [OF ok(3,1,2)] by (auto split: if_splits)
next
  case (Fire i)
  with do obtain l d where i: "i < length (mWaiters (lock w))" and l: "locktimeout (mWaiters (lock w) ! i) (lock w) = (l, d)"
    and w': "w' = endLockWait d False (w\<lparr>lock := l\<rparr>)" by (auto split: if_splits prod.splits)
  have "mCurrentThread (lock w) \<noteq> None" using owner_okN(1) [OF ok(3)] i by force
  with l show ?thesis unfolding w' by (intro owner_ok_cong [OF ok(3)]) (auto simp: endLockWait_def locktimeout_def)
next
  case (Abort t r)
  with do have w': "w' = w\<lparr>running := (running w)[t := False], chained := (chained w)(t := None), calls := abort_calls t r (calls w)\<rparr>"
    and t: "\<not> has_chained t w" by (auto split: if_splits)
  define v where "v = w\<lparr>running := (running w)[t := False]\<rparr>"
  have "chain_ok v" "owner_ok v" using chain_ok_stop [OF ok(1) t] owner_ok_stop [OF ok(3)] by (simp_all add: v_def)
  moreover have "\<not> is_running t v" unfolding v_def running_update by simp
  ultimately have "owner_ok (v\<lparr>chained := (chained v)(t := None)\<rparr>)" by (intro owner_ok_unchain)
  then show ?thesis unfolding w' v_def by (rule owner_ok_cong) (auto simp: owner_ok_def dest: owner_okN(1) [OF ok(3)])
qed

section \<open>Runs\<close>

definition lock_ok :: "lock_world \<Rightarrow> bool" where
  "lock_ok w \<longleftrightarrow> chain_ok w \<and> calls_ok w \<and> owner_ok w"

lemma lock_ok_new: "lock_ok (lock_func b)"
  by (auto simp: lock_ok_def lock_func_def new_lock_def chain_ok_def calls_ok_def owner_ok_def held_def origin_None is_running_def
      intro!: exI [of _ 0] exI [of _ "1 :: int"])

lemma lock_ok_do: "lock_ok w \<Longrightarrow> lock_do x w = Some w' \<Longrightarrow> lock_ok w'"
  unfolding lock_ok_def using chain_ok_do calls_ok_do owner_ok_do by blast

interpretation locks: op_machine lock_do lock_run lock_ok
  by unfold_locales (auto dest: lock_ok_do split: option.splits)

lemmas lock_run_ok = locks.op_run_ok [OF _ lock_ok_new]

lemma example_run:
  obtains w where "lock_run [Start None, Enter 0 None, Enter 1 None, Leave 0] (lock_func False) = Some w"
proof -
  have "\<not> Option.is_none (lock_run [Start None, Enter 0 None, Enter 1 None, Leave 0] (lock_func False))" by code_simp
  then show ?thesis using that by (auto simp: Option.is_none_def)
qed

text \<open>C15: Mutual exclusion. Whatever threads are started, end, are aborted, enter, wait, time out or leave, in any order, at
  most one chain of threads has been told more often that it has entered the lock than that it has left it.\<close>

theorem lock_is_mutually_exclusive:
  assumes "lock_run xs (lock_func b) = Some w"
  shows "\<exists>c. 0 \<le> held c (gains w) \<and> (\<forall>v. v \<noteq> c \<longrightarrow> held v (gains w) = 0)"
proof (cases "mCurrentThread (lock w)")
  case None
  with lock_run_ok [OF assms] show ?thesis using owner_okN(2) unfolding lock_ok_def by (metis order_refl)
next
  case (Some u)
  from lock_run_ok [OF assms] have "owner_ok w" by (simp add: lock_ok_def)
  from owner_okE [OF this Some] show ?thesis by metis
qed

theorem lock_is_mutually_exclusive_witness:
  "\<exists>c. 0 \<le> held c (gains (the (lock_run [Start None, Enter 0 None, Enter 1 None, Leave 0] (lock_func False)))) \<and>
     (\<forall>v. v \<noteq> c \<longrightarrow> held v (gains (the (lock_run [Start None, Enter 0 None, Enter 1 None, Leave 0] (lock_func False)))) = 0)"
proof -
  obtain w where w: "lock_run [Start None, Enter 0 None, Enter 1 None, Leave 0] (lock_func False) = Some w"
    by (rule example_run)
  from lock_is_mutually_exclusive [OF w] show ?thesis unfolding w option.sel .
qed

text \<open>C16: Every call of enter and leave reports exactly once: at any moment of any run a call has one result, unless it waits
  for the lock with its thread alive; it has none then.\<close>

theorem every_call_reports_once:
  assumes "lock_run xs (lock_func b) = Some w" "i < length (calls w)"
  shows "length (reported (calls w ! i)) = (if i \<in> lockCB ` set (mWaiters (lock w)) \<and> is_running (cThread (calls w ! i)) w then 0 else 1)"
proof -
  from lock_run_ok [OF assms(1)] have c: "calls_ok w" by (simp add: lock_ok_def)
  from calls_okD(1) [OF c nth_mem [OF assms(2)]] have l: "length (reported (calls w ! i)) = (if mEvaluationCB (calls w ! i) then 0 else 1)"
    by (simp add: call_ok_def)
  have "mEvaluationCB (calls w ! i) \<longleftrightarrow> i \<in> lockCB ` set (mWaiters (lock w)) \<and> is_running (cThread (calls w ! i)) w"
  proof
    assume e: "mEvaluationCB (calls w ! i)"
    with calls_okD(5) [OF c assms(2)] obtain x where "x \<in> set (mWaiters (lock w))" "i = lockCB x" by blast
    with calls_okD(4) [OF c] e show "i \<in> lockCB ` set (mWaiters (lock w)) \<and> is_running (cThread (calls w ! i)) w"
      by (auto simp: waiter_ok_def)
  next
    assume "i \<in> lockCB ` set (mWaiters (lock w)) \<and> is_running (cThread (calls w ! i)) w"
    then obtain x where x: "x \<in> set (mWaiters (lock w))" "i = lockCB x" "is_running (cThread (calls w ! i)) w" by blast
    from calls_okD(4) [OF c x(1)] x(2,3) show "mEvaluationCB (calls w ! i)" unfolding waiter_ok_def by (auto split: if_splits)
  qed
  with l show ?thesis by simp
qed

theorem every_call_reports_once_witness:
  "\<exists>w. lock_run [Start None, Enter 0 None, Enter 1 None, Leave 0] (lock_func False) = Some w \<and>
     length (reported (calls w ! 1)) =
       (if 1 \<in> lockCB ` set (mWaiters (lock w)) \<and> is_running (cThread (calls w ! 1)) w then 0 else 1)"
proof -
  obtain w where w: "lock_run [Start None, Enter 0 None, Enter 1 None, Leave 0] (lock_func False) = Some w"
    by (rule example_run)
  have "map_option (\<lambda>w. 1 < length (calls w)) (lock_run [Start None, Enter 0 None, Enter 1 None, Leave 0] (lock_func False)) = Some True"
    by code_simp
  with w have "1 < length (calls w)" by simp
  with w every_call_reports_once [OF w] show ?thesis by blast
qed

text \<open>C17: When the owner leaves a lock for the last time and others wait, the lock passes to the thread of the call
  that has waited longest, and the calls of the others go on waiting, unchanged. If that thread still
  runs, its call reports that it has entered; if it has ended in the meantime (its call has reported
  the end of the thread then), it gets the lock all the same and nothing more is reported.\<close>

theorem longest_waiting_gets_lock:
  assumes "lock_run xs (lock_func b) = Some w" "lock_do (Leave t) w = Some w'"
    and "mCurrentThread (lock w) = Some u" "chainOriginThread (chained w) t = chainOriginThread (chained w) u"
    and "mLockCount (lock w) = 1" "mWaiters (lock w) \<noteq> []"
  shows "\<exists>x\<in>set (mWaiters (lock w)). (\<forall>y\<in>set (mWaiters (lock w)). lockCB x \<le> lockCB y) \<and>
     mCurrentThread (lock w') = Some (threadP x) \<and> set (mWaiters (lock w')) = set (mWaiters (lock w)) - {x} \<and>
     (if is_running (threadP x) w then reported (calls w ! lockCB x) = [] \<and> reported (calls w' ! lockCB x) = [vbool True]
      else reported (calls w' ! lockCB x) = reported (calls w ! lockCB x)) \<and>
     (\<forall>y\<in>set (mWaiters (lock w)) - {x}. calls w' ! lockCB y = calls w ! lockCB y)"
proof -
  obtain x xs where x: "mWaiters (lock w) = x # xs" using assms(6) by (cases "mWaiters (lock w)") auto
  from lock_run_ok [OF assms(1)] have c: "calls_ok w" by (simp add: lock_ok_def)
  note c = calls_okD [OF this]
  have xw: "waiter_ok w x" using c(4) x by simp
  have w': "w' = leave_func t w" using assms(2) by (simp split: if_splits)
  have l: "lock w' = (lock w)\<lparr>mCurrentThread := Some (threadP x), mWaiters := xs\<rparr>"
    "lockCB x < length (calls w) \<Longrightarrow> calls w' ! lockCB x = finish (vbool True) (calls w ! lockCB x)"
    "lockCB y < length (calls w) \<Longrightarrow> lockCB y \<noteq> lockCB x \<Longrightarrow> calls w' ! lockCB y = calls w ! lockCB y" for y
    using assms(3-5) x by (simp_all add: w' leave_func_def lock_leave_def Let_def endLockWait_def nth_append)
  have "if is_running (threadP x) w then reported (calls w ! lockCB x) = [] \<and> reported (calls w' ! lockCB x) = [vbool True]
      else reported (calls w' ! lockCB x) = reported (calls w ! lockCB x)"
    using xw l(2) c(1) [of "calls w ! lockCB x"] by (auto simp: waiter_ok_def call_ok_def finish_def split: if_splits)
  moreover have "calls w' ! lockCB y = calls w ! lockCB y" if "y \<in> set (mWaiters (lock w)) - {x}" for y
  proof -
    have "waiter_ok w y" using c(4) that by simp
    moreover have "lockCB x < lockCB y" using that c(2) x by auto
    ultimately show ?thesis by (intro l(3)) (auto simp: waiter_ok_def)
  qed
  moreover have "x \<notin> set xs" "\<forall>y\<in>set xs. lockCB x \<le> lockCB y" using c(2) unfolding x by (auto simp: less_imp_le)
  ultimately show ?thesis using l(1) by (intro bexI [of _ x]) (auto simp: x)
qed

theorem longest_waiting_gets_lock_witness:
  "\<exists>w w'. lock_run [Start None, Start None, Enter 2 None, Enter 1 None] (lock_func True) = Some w \<and> lock_do (Leave 0) w = Some w' \<and>
     (\<exists>x\<in>set (mWaiters (lock w)). (\<forall>y\<in>set (mWaiters (lock w)). lockCB x \<le> lockCB y) \<and>
     mCurrentThread (lock w') = Some (threadP x) \<and> set (mWaiters (lock w')) = set (mWaiters (lock w)) - {x})"
proof -
  let ?r = "lock_run [Start None, Start None, Enter 2 None, Enter 1 None] (lock_func True)"
  have "map_option (\<lambda>w. mCurrentThread (lock w) = Some 0 \<and> mLockCount (lock w) = 1 \<and> mWaiters (lock w) \<noteq> [] \<and>
      \<not> Option.is_none (lock_do (Leave 0) w)) ?r = Some True" by code_simp
  then obtain w w' where w: "?r = Some w" "lock_do (Leave 0) w = Some w'" "mCurrentThread (lock w) = Some 0"
    "mLockCount (lock w) = 1" "mWaiters (lock w) \<noteq> []" by (auto simp: Option.is_none_def simp del: lock_do.simps lock_run.simps)
  from longest_waiting_gets_lock [OF w(1,2,3) HOL.refl w(4,5)] w(1,2) show ?thesis by blast
qed

section \<open>Lost locks\<close>

definition lost :: "nat \<Rightarrow> lock_world \<Rightarrow> bool" where
  "lost u w \<longleftrightarrow> mCurrentThread (lock w) = Some u \<and> u < length (running w) \<and> \<not> is_running u w \<and> chained w u = None"

lemma lost_do:
  assumes ok: "lock_ok w" and u: "lost u w" and do: "lock_do x w = Some w'"
  shows "lost u w' \<and> gains w' = gains w"
proof -
  from ok have c: "chain_ok w" by (simp add: lock_ok_def)
  have other: "chainOriginThread (chained w) t \<noteq> chainOriginThread (chained w) u" if "is_running t w" for t
    using origin_running [OF c that] u by (auto simp: lost_def origin_None)
  show ?thesis
  proof (cases x)
    case (Enter t a)
    with do have t: "is_running t w" and w': "w' = enter_func t a w" by (auto split: if_splits)
    have e: "lock_enter (chained w) t (lock w) = (lock w, False)" using u other [OF t] by (simp add: lost_def lock_enter_def)
    show ?thesis unfolding w'
      by (cases rule: enter_cases [of w t a]) (use e u in \<open>auto simp: lost_def is_running_def registerLockCB_def\<close>)
  next
    case (Leave t)
    with do have t: "is_running t w" and w': "w' = leave_func t w" by (auto split: if_splits)
    have "lock_leave (chained w) t (lock w) = (lock w, False, None)" using u other [OF t] by (simp add: lost_def lock_leave_def)
    then show ?thesis unfolding w' using u by (simp add: lost_def is_running_def leave_func_def Let_def)
  next
    case (Fire i)
    with do u show ?thesis by (auto simp: lost_def is_running_def endLockWait_def locktimeout_def split: if_splits)
  qed (use do u in \<open>auto simp: lost_def is_running_def nth_append nth_false split: if_splits\<close>)
qed

text \<open>C18: A lock whose owner has ended is lost: whatever happens then, nobody enters or leaves it any more. This is reached
  by a function that enters the lock and returns, its caller can then not leave it, and by aborting a thread that
  waits, which gets the lock all the same.\<close>

theorem lock_of_ended_thread_is_lost:
  assumes "lock_run xs (lock_func b) = Some w" "mCurrentThread (lock w) = Some u" "\<not> is_running u w" "chained w u = None"
    and "lock_run ys w = Some w'"
  shows "mCurrentThread (lock w') = Some u \<and> gains w' = gains w"
proof -
  from lock_run_ok [OF assms(1)] have ok: "lock_ok w" .
  then have "u < length (running w)" using owner_okE [OF _ assms(2)] unfolding lock_ok_def by blast
  with assms have u: "lost u w" by (simp add: lost_def)
  from locks.run_invariant [OF assms(5) ok, of "\<lambda>v. lost u v \<and> gains v = gains w"] u lost_do
  have "lost u w' \<and> gains w' = gains w" by metis
  then show ?thesis by (simp add: lost_def)
qed

lemma lost_example:
  assumes "map_option (\<lambda>w. mCurrentThread (lock w) = Some 1 \<and> \<not> is_running 1 w \<and> chained w 1 = None \<and>
      \<not> Option.is_none (lock_run ys w)) r = Some True"
  obtains w w' where "r = Some w" "mCurrentThread (lock w) = Some 1" "\<not> is_running 1 w" "chained w 1 = None" "lock_run ys w = Some w'"
  using assms by (auto simp: Option.is_none_def simp del: lock_run.simps)

theorem lock_of_ended_thread_is_lost_witness:
  "(\<exists>w w'. lock_run [Start (Some 0), Enter 1 None, Complete 1, Unchain 1] (lock_func False) = Some w \<and>
      lock_run [Leave 0, Enter 0 None] w = Some w' \<and> mCurrentThread (lock w') = Some 1 \<and> gains w' = gains w) \<and>
   (\<exists>w w'. lock_run [Start None, Enter 0 None, Enter 1 None, Abort 1 None, Leave 0] (lock_func False) = Some w \<and>
      lock_run [Enter 0 None, Start None, Enter 2 None] w = Some w' \<and> mCurrentThread (lock w') = Some 1 \<and> gains w' = gains w)"
proof
  let ?r = "lock_run [Start (Some 0), Enter 1 None, Complete 1, Unchain 1] (lock_func False)" and ?y = "[Leave 0, Enter 0 None]"
  have "map_option (\<lambda>w. mCurrentThread (lock w) = Some 1 \<and> \<not> is_running 1 w \<and> chained w 1 = None \<and>
      \<not> Option.is_none (lock_run ?y w)) ?r = Some True" by code_simp
  then obtain w w' where w: "?r = Some w" "mCurrentThread (lock w) = Some 1" "\<not> is_running 1 w" "chained w 1 = None"
    "lock_run ?y w = Some w'" by (rule lost_example)
  from lock_of_ended_thread_is_lost [OF w] w(1,5)
  show "\<exists>w w'. ?r = Some w \<and> lock_run ?y w = Some w' \<and> mCurrentThread (lock w') = Some 1 \<and> gains w' = gains w" by blast
next
  let ?r = "lock_run [Start None, Enter 0 None, Enter 1 None, Abort 1 None, Leave 0] (lock_func False)" and
    ?y = "[Enter 0 None, Start None, Enter 2 None]"
  have "map_option (\<lambda>w. mCurrentThread (lock w) = Some 1 \<and> \<not> is_running 1 w \<and> chained w 1 = None \<and>
      \<not> Option.is_none (lock_run ?y w)) ?r = Some True" by code_simp
  then obtain w w' where w: "?r = Some w" "mCurrentThread (lock w) = Some 1" "\<not> is_running 1 w" "chained w 1 = None"
    "lock_run ?y w = Some w'" by (rule lost_example)
  from lock_of_ended_thread_is_lost [OF w] w(1,5)
  show "\<exists>w w'. ?r = Some w \<and> lock_run ?y w = Some w' \<and> mCurrentThread (lock w') = Some 1 \<and> gains w' = gains w" by blast
qed

end
