(* ===== verification/LedChain.thy ===== *)
theory LedChain
  imports StrUtil PixelColor Clib
begin

text \<open>
  LED chains (\<open>ledchaincomm.cpp\<close>), one chain: the power tables, the chip and layout descriptors, how
  rows and columns of a display map to the LEDs along the wire, and the buffer with the bytes of the LEDs,
  for the platforms where the LED data is written to a device. A chain is an object in the list of
  all chains and may have another one of the list as its driver. The members of type \<open>uint16_t\<close> are
  given as numbers, cut by \<open>to_uint16\<close> where the code stores them. \<open>None\<close> stands for undefined behaviour: an access
  outside of the buffer or through the null pointer, or a division by zero.
\<close>

section \<open>Integers of C\<close>

definition to_uint16 :: "int \<Rightarrow> int" where
  "to_uint16 i = i mod 65536"

text \<open>Division of \<open>int\<close> truncates.\<close>

definition c_div :: "int \<Rightarrow> int \<Rightarrow> int" where
  "c_div a b = (if 0 \<le> a then a div b else - ((- a) div b))"

definition c_mod :: "int \<Rightarrow> int \<Rightarrow> int" where
  "c_mod a b = a - c_div a b * b"

text \<open>\<open>atoi\<close>: the number is that of \<open>strtol\<close>, which is limited to 64 bits, cut to 32 bits.\<close>

definition atoi :: "string \<Rightarrow> int" where
  "atoi s =
     (case scan_dec (cstr s) of None \<Rightarrow> 0
      | Some (v, _) \<Rightarrow> signed_take_bit 31 (max (- (2 ^ 63)) (min (2 ^ 63 - 1) v)))"

section \<open>From brightness to power\<close>

type_synonym power = u16

record LEDPowerConverter =
  mRedPowers :: "power list"
  mGreenPowers :: "power list"
  mBluePowers :: "power list"
  mWhitePowers :: "power list"

text \<open>\<open>round\<close> of the C library: halves go away from zero.\<close>

fun c_round :: "f64 \<Rightarrow> f64" where
  "c_round (F_Fin q) = f64_round (q < 0) (if q < 0 then - of_int \<lfloor>1 / 2 - q\<rfloor> else of_int \<lfloor>q + 1 / 2\<rfloor>)"
| "c_round x = x"

text \<open>
  The table for an exponent and a minimal power. The exponential function of the C library, whose results
  are not specified to the bit, is the parameter \<open>c_exp\<close>.
\<close>

definition exp_part :: "(f64 \<Rightarrow> f64) \<Rightarrow> f64 \<Rightarrow> int \<Rightarrow> f64" where
  "exp_part c_exp e b =
     f64_div (f64_sub (c_exp (f64_div (f64_mul (f64_of_int b) e) (f64_of_int 255))) (f64_of_int 1))
       (f64_sub (c_exp e) (f64_of_int 1))"

definition createExpTable :: "(f64 \<Rightarrow> f64) \<Rightarrow> f64 \<Rightarrow> power \<Rightarrow> power list" where
  "createExpTable c_exp e aMinPower =
     (let bri1pwr = word_of_int (f64_to_int 32 (c_round (f64_mul (f64_of_int 65535) (exp_part c_exp e 1)))) :: power;
          offs = (if aMinPower > 0 then uint aMinPower - uint bri1pwr else 0);
          pwr = (\<lambda>b. if f64_is_zero e then 0
                     else f64_to_int 32 (f64_add (f64_of_int offs)
                            (c_round (f64_mul (f64_of_int (65535 - offs)) (exp_part c_exp e b)))))
      in 0 # map (\<lambda>b. let p = pwr (int b) in if p > 0 then word_of_int p else 0) [1..<256])"

text \<open>The three constructors: common table, one table per channel, one for the colours and one for white.\<close>

definition converter_common :: "(f64 \<Rightarrow> f64) \<Rightarrow> f64 \<Rightarrow> power \<Rightarrow> LEDPowerConverter" where
  "converter_common c_exp e m =
     (let t = createExpTable c_exp e m
      in \<lparr>mRedPowers = t, mGreenPowers = t, mBluePowers = t, mWhitePowers = t\<rparr>)"

definition converter_channels ::
  "(f64 \<Rightarrow> f64) \<Rightarrow> f64 \<Rightarrow> power \<Rightarrow> power \<Rightarrow> power \<Rightarrow> power \<Rightarrow> LEDPowerConverter" where
  "converter_channels c_exp e r g b w =
     \<lparr>mRedPowers = createExpTable c_exp e r, mGreenPowers = createExpTable c_exp e g,
      mBluePowers = createExpTable c_exp e b, mWhitePowers = createExpTable c_exp e w\<rparr>"

definition converter_white :: "(f64 \<Rightarrow> f64) \<Rightarrow> f64 \<Rightarrow> power \<Rightarrow> f64 \<Rightarrow> power \<Rightarrow> LEDPowerConverter" where
  "converter_white c_exp e m we wm =
     (let t = createExpTable c_exp e m
      in \<lparr>mRedPowers = t, mGreenPowers = t, mBluePowers = t, mWhitePowers = createExpTable c_exp we wm\<rparr>)"

definition standardPowerConverter :: "(f64 \<Rightarrow> f64) \<Rightarrow> LEDPowerConverter" where
  "standardPowerConverter c_exp = converter_common c_exp (f64_of_int 4) 0"

record powers =
  Pr :: power
  Pg :: power
  Pb :: power
  Pw :: power

definition no_power :: powers where
  "no_power = \<lparr>Pr = 0, Pg = 0, Pb = 0, Pw = 0\<rparr>"

text \<open>The product with the dimming factor is calculated in 32 bits. The components are bytes.\<close>

definition dim_power :: "nat \<Rightarrow> power \<Rightarrow> power" where
  "dim_power aDimDown p = word_of_nat (((aDimDown + 1) * unat p) mod 2 ^ 32 div 256)"

definition powersForComponents :: "LEDPowerConverter \<Rightarrow> nat \<Rightarrow> nat \<Rightarrow> nat \<Rightarrow> nat \<Rightarrow> nat \<Rightarrow> powers" where
  "powersForComponents conv aDimDown r g b w =
     (let f = (if aDimDown \<noteq> 0 then dim_power aDimDown else (\<lambda>p. p))
      in \<lparr>Pr = f (mRedPowers conv ! r), Pg = f (mRedPowers conv ! g), Pb = f (mRedPowers conv ! b),
          Pw = f (mRedPowers conv ! w)\<rparr>)"

section \<open>Chips and layouts\<close>

datatype LedLayout = ledlayout_none | ledlayout_rgb | ledlayout_grb | ledlayout_rgbw | ledlayout_grbw | ledlayout_rbg
  | ledlayout_gbr | ledlayout_brg | ledlayout_bgr | ledlayout_rbgw | ledlayout_gbrw | ledlayout_brgw | ledlayout_bgrw

datatype LedChip = ledchip_none | ledchip_ws2811 | ledchip_ws2812 | ledchip_ws2813 | ledchip_ws2815 | ledchip_p9823
  | ledchip_sk6812 | ledchip_ws2816 | ledchip_ws2813n

record LedChipDesc =
  chip_name :: string
  idleChipMw :: nat
  rgbChannelMw :: nat
  whiteChannelMw :: nat
  numBytesPerChannel :: nat
  rgbCommonCurrent :: bool
  slowTiming :: bool

definition chip :: "string \<Rightarrow> nat \<Rightarrow> nat \<Rightarrow> nat \<Rightarrow> nat \<Rightarrow> bool \<Rightarrow> bool \<Rightarrow> LedChipDesc" where
  "chip nm idle rgb wh bytes common slow =
     \<lparr>chip_name = nm, idleChipMw = idle, rgbChannelMw = rgb, whiteChannelMw = wh, numBytesPerChannel = bytes,
      rgbCommonCurrent = common, slowTiming = slow\<rparr>"

fun ledChipDescriptors :: "LedChip \<Rightarrow> LedChipDesc" where
  "ledChipDescriptors ledchip_none = chip ''none'' 0 0 0 1 False False"
| "ledChipDescriptors ledchip_ws2811 = chip ''WS2811'' 8 64 0 1 False True"
| "ledChipDescriptors ledchip_ws2812 = chip ''WS2812'' 4 60 0 1 False True"
| "ledChipDescriptors ledchip_ws2813 = chip ''WS2813'' 4 85 0 1 False False"
| "ledChipDescriptors ledchip_ws2815 = chip ''WS2815'' 24 120 0 1 True False"
| "ledChipDescriptors ledchip_p9823 = chip ''P9823'' 8 80 0 1 False True"
| "ledChipDescriptors ledchip_sk6812 = chip ''SK6812'' 6 50 95 1 False True"
| "ledChipDescriptors ledchip_ws2816 = chip ''WS2816'' 4 85 0 2 False False"
| "ledChipDescriptors ledchip_ws2813n = chip ''WS2813_N'' 4 85 0 1 False False"

definition ledchips :: "LedChip list" where
  "ledchips = [ledchip_none, ledchip_ws2811, ledchip_ws2812, ledchip_ws2813, ledchip_ws2815, ledchip_p9823,
     ledchip_sk6812, ledchip_ws2816, ledchip_ws2813n]"

record LedLayoutDescriptor =
  layout_name :: string
  channels :: nat
  fetchIdx :: "nat list"

definition layout :: "string \<Rightarrow> nat \<Rightarrow> nat list \<Rightarrow> LedLayoutDescriptor" where
  "layout nm n f = \<lparr>layout_name = nm, channels = n, fetchIdx = f\<rparr>"

fun ledLayoutDescriptors :: "LedLayout \<Rightarrow> LedLayoutDescriptor" where
  "ledLayoutDescriptors ledlayout_none = layout ''none'' 1 [1]"
| "ledLayoutDescriptors ledlayout_rgb = layout ''RGB'' 3 [0, 1, 2]"
| "ledLayoutDescriptors ledlayout_grb = layout ''GRB'' 3 [1, 0, 2]"
| "ledLayoutDescriptors ledlayout_rgbw = layout ''RGBW'' 4 [0, 1, 2, 3]"
| "ledLayoutDescriptors ledlayout_grbw = layout ''GRBW'' 4 [1, 0, 2, 3]"
| "ledLayoutDescriptors ledlayout_rbg = layout ''RBG'' 3 [0, 2, 1]"
| "ledLayoutDescriptors ledlayout_gbr = layout ''GBR'' 3 [1, 2, 0]"
| "ledLayoutDescriptors ledlayout_brg = layout ''BRG'' 3 [2, 0, 1]"
| "ledLayoutDescriptors ledlayout_bgr = layout ''BGR'' 3 [2, 1, 0]"
| "ledLayoutDescriptors ledlayout_rbgw = layout ''RBGW'' 4 [0, 2, 1, 3]"
| "ledLayoutDescriptors ledlayout_gbrw = layout ''GBRW'' 4 [1, 2, 0, 3]"
| "ledLayoutDescriptors ledlayout_brgw = layout ''BRGW'' 4 [2, 0, 1, 3]"
| "ledLayoutDescriptors ledlayout_bgrw = layout ''BGRW'' 4 [2, 1, 0, 3]"

definition ledlayouts :: "LedLayout list" where
  "ledlayouts = [ledlayout_none, ledlayout_rgb, ledlayout_grb, ledlayout_rgbw, ledlayout_grbw, ledlayout_rbg,
     ledlayout_gbr, ledlayout_brg, ledlayout_bgr, ledlayout_rbgw, ledlayout_gbrw, ledlayout_brgw, ledlayout_bgrw]"

text \<open>The place of an enumeration value, as it is stored in a byte of the header.\<close>

definition enum_byte :: "'a list \<Rightarrow> 'a \<Rightarrow> u8" where
  "enum_byte xs x = word_of_nat (length (takeWhile (\<lambda>y. y \<noteq> x) xs))"

section \<open>The chain\<close>

text \<open>
  \<open>mRawBuffer\<close> is \<open>None\<close> for the null pointer; \<open>mLedBuffer\<close> is the place in it where the data of the
  LEDs begins. \<open>mLedFd\<close> says that the device is open.
\<close>

record LEDChainComm =
  mLedChip :: LedChip
  mLedLayout :: LedLayout
  mTMaxPassive_uS :: int
  mMaxRetries :: int
  mDeviceName :: string
  mInactiveStartLeds :: int
  mInactiveBetweenLeds :: int
  mInactiveEndLeds :: int
  mNumLeds :: int
  mLedsPerRow :: int
  mNumRows :: int
  mXReversed :: bool
  mYReversed :: bool
  mAlternating :: bool
  mXYSwap :: bool
  mInitialized :: bool
  mNumColorComponents :: nat
  mNumBytesPerComponent :: nat
  mChainDriver :: "nat option"
  mLEDPowerConverter :: "LEDPowerConverter option"
  mLedFd :: bool
  mUartOutput :: bool
  mRawBuffer :: "u8 list option"
  mLedBuffer :: nat
  mLEDWhite :: "f64 list"

text \<open>The chip and the layout of a type text, with the passive time and the number of retries.\<close>

definition chip_of :: "string \<Rightarrow> LedChip" where
  "chip_of s = (case find (\<lambda>c. uequals s (chip_name (ledChipDescriptors c))) ledchips of None \<Rightarrow> ledchip_none | Some c \<Rightarrow> c)"

definition layout_of :: "string \<Rightarrow> LedLayout" where
  "layout_of s =
     (case find (\<lambda>l. uequals s (layout_name (ledLayoutDescriptors l))) ledlayouts of None \<Rightarrow> ledlayout_none | Some l \<Rightarrow> l)"

definition type_part :: "string \<Rightarrow> (string \<Rightarrow> 'a) \<Rightarrow> 'a \<Rightarrow> 'a \<times> string" where
  "type_part p f d = (case nextPart (Some p) (CHR ''.'') False of None \<Rightarrow> (d, p) | Some (part, r) \<Rightarrow> (f part, r))"

definition parse_led_type :: "string \<Rightarrow> LedChip \<times> LedLayout \<times> int \<times> int" where
  "parse_led_type t =
     (if t = ''SK6812'' then (ledchip_sk6812, ledlayout_grbw, 0, 0)
      else if t = ''P9823'' then (ledchip_p9823, ledlayout_rgb, 0, 0)
      else if t = ''WS2815_RGB'' then (ledchip_ws2815, ledlayout_rgb, 0, 0)
      else if t = ''WS2812'' then (ledchip_ws2812, ledlayout_grb, 0, 0)
      else if t = ''WS2813'' then (ledchip_ws2813, ledlayout_grb, 0, 0)
      else let (c, p) = type_part t chip_of ledchip_none;
               (l, q) = type_part p layout_of ledlayout_none;
               (m, r) = type_part q (to_uint16 \<circ> atoi) 0;
               (n, _) = type_part r (\<lambda>s. atoi s mod 256) 0
           in (c, l, m, n))"

definition new_chain ::
  "string \<Rightarrow> string \<Rightarrow> int \<Rightarrow> int \<Rightarrow> bool \<Rightarrow> bool \<Rightarrow> bool \<Rightarrow> bool \<Rightarrow> int \<Rightarrow> int \<Rightarrow> int \<Rightarrow> LEDChainComm" where
  "new_chain aLedType aDeviceName aNumLeds aLedsPerRow aXReversed aAlternating aXYSwap aYReversed aStart aBetween aEnd =
     (let (c, l, m, n) = parse_led_type aLedType
      in \<lparr>mLedChip = c, mLedLayout = l, mTMaxPassive_uS = m, mMaxRetries = n, mDeviceName = aDeviceName,
          mInactiveStartLeds = aStart, mInactiveBetweenLeds = aBetween, mInactiveEndLeds = aEnd,
          mNumLeds = aNumLeds,
          mLedsPerRow = (if aLedsPerRow = 0 then to_uint16 (aNumLeds - aStart) else aLedsPerRow),
          mNumRows = (if aLedsPerRow = 0 then 1
            else to_uint16 (c_div (aNumLeds - 1 - aStart - aEnd) (aLedsPerRow + aBetween) + 1)),
          mXReversed = aXReversed, mYReversed = aYReversed, mAlternating = aAlternating, mXYSwap = aXYSwap,
          mInitialized = False,
          mNumColorComponents = (if whiteChannelMw (ledChipDescriptors c) > 0 then 4 else 3),
          mNumBytesPerComponent = numBytesPerChannel (ledChipDescriptors c),
          mChainDriver = None, mLEDPowerConverter = None, mLedFd = False,
          mUartOutput = (find_from aDeviceName ''ledchain'' 0 = None), mRawBuffer = None, mLedBuffer = 0,
          mLEDWhite = [F_Fin 0, F_Fin 0, F_Fin 0]\<rparr>)"

definition setChainDriver :: "nat option \<Rightarrow> LEDChainComm \<Rightarrow> LEDChainComm" where
  "setChainDriver d c = c\<lparr>mChainDriver := d\<rparr>"

definition isHardwareDriver :: "LEDChainComm \<Rightarrow> bool" where
  "isHardwareDriver c \<longleftrightarrow> mChainDriver c = None"

definition setPowerConverter :: "LEDPowerConverter option \<Rightarrow> LEDChainComm \<Rightarrow> LEDChainComm" where
  "setPowerConverter v c = c\<lparr>mLEDPowerConverter := v\<rparr>"

definition hasWhite :: "LEDChainComm \<Rightarrow> bool" where
  "hasWhite c \<longleftrightarrow> mNumColorComponents c \<ge> 4"

definition ledChipDescriptor :: "LEDChainComm \<Rightarrow> LedChipDesc" where
  "ledChipDescriptor c = ledChipDescriptors (mLedChip c)"

section \<open>Logical LED access\<close>

definition getNumLeds :: "LEDChainComm \<Rightarrow> int" where
  "getNumLeds c =
     to_uint16 (mNumLeds c - mInactiveStartLeds c - mInactiveEndLeds c - (mNumRows c - 1) * mInactiveBetweenLeds c)"

definition getSizeX :: "LEDChainComm \<Rightarrow> int" where
  "getSizeX c = (if mXYSwap c then mNumRows c else mLedsPerRow c)"

definition getSizeY :: "LEDChainComm \<Rightarrow> int" where
  "getSizeY c = (if mXYSwap c then mLedsPerRow c else mNumRows c)"

definition getMinVisibleColorIntensity :: "LEDChainComm \<Rightarrow> nat" where
  "getMinVisibleColorIntensity c = 1"

definition ledIndexFromXY :: "LEDChainComm \<Rightarrow> int \<Rightarrow> int \<Rightarrow> int" where
  "ledIndexFromXY c aX aY =
     (let (x, y0) = (if mXYSwap c then (aY, aX) else (aX, aY));
          y = (if mYReversed c then to_uint16 (mNumRows c - 1 - y0) else y0);
          i0 = to_uint16 (y * (mLedsPerRow c + mInactiveBetweenLeds c));
          reversed = (if mAlternating c \<and> odd y then \<not> mXReversed c else mXReversed c);
          i = (if reversed then to_uint16 (i0 + (mLedsPerRow c - 1 - x)) else to_uint16 (i0 + x))
      in to_uint16 (i + mInactiveStartLeds c))"

section \<open>Storing powers\<close>

definition pwmTo8Bits :: "power \<Rightarrow> u8" where
  "pwmTo8Bits p = (if p \<ge> 0xFF80 then 0xFF else word_of_nat ((unat p + 0x66) div 256))"

definition high_byte :: "power \<Rightarrow> u8" where
  "high_byte p = ucast (drop_bit 8 p)"

definition low_byte :: "power \<Rightarrow> u8" where
  "low_byte p = ucast (p AND 0xFF)"

text \<open>The bytes of an LED, in the order red, green, blue and white.\<close>

definition led_bytes :: "LEDChainComm \<Rightarrow> powers \<Rightarrow> u8 list" where
  "led_bytes c p =
     (let ps = [Pr p, Pg p, Pb p] @ (if mNumColorComponents c > 3 then [Pw p] else [])
      in if mNumBytesPerComponent c > 1 then concat (map (\<lambda>q. [high_byte q, low_byte q]) ps) else map pwmTo8Bits ps)"

definition led_byteindex :: "LEDChainComm \<Rightarrow> int \<Rightarrow> nat" where
  "led_byteindex c i = mNumColorComponents c * nat i * (if mNumBytesPerComponent c > 1 then 2 else 1)"

fun write_bytes :: "nat \<Rightarrow> u8 list \<Rightarrow> u8 list \<Rightarrow> u8 list option" where
  "write_bytes i [] buf = Some buf"
| "write_bytes i (b # bs) buf = (if i < length buf then write_bytes (Suc i) bs (buf[i := b]) else None)"

type_synonym chains = "LEDChainComm list"

definition store_led :: "int \<Rightarrow> powers \<Rightarrow> LEDChainComm \<Rightarrow> LEDChainComm option" where
  "store_led i p c =
     (if i \<ge> mNumLeds c then Some c
      else case mRawBuffer c of None \<Rightarrow> None
           | Some buf \<Rightarrow> map_option (\<lambda>b. c\<lparr>mRawBuffer := Some b\<rparr>)
               (write_bytes (mLedBuffer c + led_byteindex c i) (led_bytes c p) buf))"

partial_function (option) setPowerAtLedIndex :: "nat \<Rightarrow> int \<Rightarrow> powers \<Rightarrow> chains \<Rightarrow> chains option" where
  "setPowerAtLedIndex k i p cs =
     (if \<not> k < length cs then None
      else case mChainDriver (cs ! k) of
        Some d \<Rightarrow> setPowerAtLedIndex d i p cs
      | None \<Rightarrow> map_option (\<lambda>c. cs[k := c]) (store_led i p (cs ! k)))"

definition setPowerXY :: "nat \<Rightarrow> int \<Rightarrow> int \<Rightarrow> powers \<Rightarrow> chains \<Rightarrow> chains option" where
  "setPowerXY k x y p cs = setPowerAtLedIndex k (ledIndexFromXY (cs ! k) x y) p cs"

definition setPower :: "nat \<Rightarrow> int \<Rightarrow> powers \<Rightarrow> chains \<Rightarrow> chains option" where
  "setPower k n p cs =
     (let sx = getSizeX (cs ! k)
      in if sx = 0 then None else setPowerXY k (to_uint16 (n mod sx)) (to_uint16 (n div sx)) p cs)"

section \<open>Beginning, clearing, showing and ending\<close>

definition led_data_size :: "LEDChainComm \<Rightarrow> nat" where
  "led_data_size c = mNumColorComponents c * mNumBytesPerComponent c * nat (mNumLeds c)"

text \<open>
  The buffer, with the header of drivers of version 6 where the chip is known and the output is not a serial line. Its LED
  data is cleared at once. \<open>open_ok\<close> and \<open>uart_ok\<close> are the results of opening and of setting up the device.
\<close>

definition led_header :: "LEDChainComm \<Rightarrow> u8 list" where
  "led_header c =
     [5, enum_byte ledlayouts (mLedLayout c), enum_byte ledchips (mLedChip c),
      word_of_int (mTMaxPassive_uS c div 256 mod 256), word_of_int (mTMaxPassive_uS c mod 256), word_of_int (mMaxRetries c)]"

definition begin_driver :: "(string \<Rightarrow> bool) \<Rightarrow> (string \<Rightarrow> bool) \<Rightarrow> LEDChainComm \<Rightarrow> LEDChainComm" where
  "begin_driver open_ok uart_ok c =
     (let hdr = (if mLedChip c \<noteq> ledchip_none \<and> \<not> mUartOutput c then led_header c else []);
          opened = open_ok (mDeviceName c)
      in c\<lparr>mRawBuffer := Some (hdr @ replicate (led_data_size c) 0), mLedBuffer := length hdr, mLedFd := opened,
           mInitialized := opened \<and> (mUartOutput c \<longrightarrow> uart_ok (mDeviceName c))\<rparr>)"

partial_function (option) begin_chain ::
  "(string \<Rightarrow> bool) \<Rightarrow> (string \<Rightarrow> bool) \<Rightarrow> nat \<Rightarrow> chains \<Rightarrow> chains option" where
  "begin_chain open_ok uart_ok k cs =
     (if \<not> k < length cs then None
      else if mInitialized (cs ! k) then Some cs
      else case mChainDriver (cs ! k) of
        Some d \<Rightarrow> Option.bind (begin_chain open_ok uart_ok d cs)
          (\<lambda>cs. Some (cs[k := (cs ! k)\<lparr>mInitialized := mInitialized (cs ! d)\<rparr>]))
      | None \<Rightarrow> Some (cs[k := begin_driver open_ok uart_ok (cs ! k)]))"

text \<open>Clearing a mapping on another chain goes through the mapping of that chain.\<close>

fun clear_each :: "nat \<Rightarrow> int list \<Rightarrow> chains \<Rightarrow> chains option" where
  "clear_each d [] cs = Some cs"
| "clear_each d (n # ns) cs = Option.bind (setPower d n no_power cs) (clear_each d ns)"

definition clear_buffer :: "LEDChainComm \<Rightarrow> LEDChainComm option" where
  "clear_buffer c =
     (case mRawBuffer c of None \<Rightarrow> None
      | Some buf \<Rightarrow> map_option (\<lambda>b. c\<lparr>mRawBuffer := Some b\<rparr>) (write_bytes (mLedBuffer c) (replicate (led_data_size c) 0) buf))"

definition clear_chain :: "nat \<Rightarrow> chains \<Rightarrow> chains option" where
  "clear_chain k cs =
     (let c = cs ! k
      in if \<not> mInitialized c then Some cs
         else case mChainDriver c of
           Some d \<Rightarrow> clear_each d [mInactiveStartLeds c..mNumLeds c - mInactiveEndLeds c - 1] cs
         | None \<Rightarrow> map_option (\<lambda>v. cs[k := v]) (clear_buffer c))"

definition end_chain :: "nat \<Rightarrow> chains \<Rightarrow> chains" where
  "end_chain k cs =
     (let c = cs ! k
      in cs[k := (if mInitialized c \<and> mChainDriver c = None then c\<lparr>mRawBuffer := None, mLedFd := False\<rparr> else c)
                   \<lparr>mInitialized := False\<rparr>])"

text \<open>What \<open>show\<close> does: nothing, trigger the sender of the serial line, or write the buffer to the device.\<close>

datatype show_action = Show_nothing | Show_trigger | Show_write "u8 list"

definition show_chain :: "LEDChainComm \<Rightarrow> show_action" where
  "show_chain c =
     (if mChainDriver c \<noteq> None \<or> \<not> mInitialized c then Show_nothing
      else if mUartOutput c then Show_trigger
      else case mRawBuffer c of None \<Rightarrow> Show_nothing | Some buf \<Rightarrow> Show_write buf)"

end
