(* ===== verification/LedUart.thy ===== *)
theory LedUart
  imports LedChain
begin

text \<open>
  The output of a chain on a serial line (\<open>sendToUart\<close> of \<open>ledchaincomm.cpp\<close>): three bits of LED data for each
  byte of the line, and what the line carries then, compared with the signal the chips expect.
\<close>

section \<open>The encoder\<close>

record uart =
  uartByte :: u8
  outBitMask :: int
  outBytes :: "u8 list"

definition uart_bit :: "u8 \<Rightarrow> u8 \<Rightarrow> uart \<Rightarrow> uart" where
  "uart_bit ledByte ledBitMask s =
     (let m = outBitMask s;
          b = (if m > 1 then uartByte s OR word_of_int (m div 2) else uartByte s);
          b = (if ledByte AND ledBitMask \<noteq> 0 then b OR word_of_int m else b);
          m = m * 8
      in if m AND 0x7F = 0 then \<lparr>uartByte = 0, outBitMask = 1, outBytes = outBytes s @ [NOT b]\<rparr>
         else s\<lparr>uartByte := b, outBitMask := m\<rparr>)"

definition ledBitMasks :: "u8 list" where
  "ledBitMasks = [0x80, 0x40, 0x20, 0x10, 0x08, 0x04, 0x02, 0x01]"

definition uart_byte :: "u8 \<Rightarrow> uart \<Rightarrow> uart" where
  "uart_byte ledByte s = foldl (\<lambda>s m. uart_bit ledByte m s) s ledBitMasks"

partial_function (option) uart_loop :: "LedLayoutDescriptor \<Rightarrow> u8 list \<Rightarrow> nat \<Rightarrow> nat \<Rightarrow> uart \<Rightarrow> uart option" where
  "uart_loop l aLedData lidx cidx s =
     (if lidx < length aLedData
      then let i = lidx + fetchIdx l ! cidx
           in if \<not> i < length aLedData then None
              else let s = uart_byte (aLedData ! i) s
                   in if cidx + 1 \<ge> channels l then uart_loop l aLedData (lidx + channels l) 0 s
                      else uart_loop l aLedData lidx (cidx + 1) s
      else Some s)"

text \<open>
  The bytes given to \<open>write\<close>: the memory of the array is not initialised; \<open>heap\<close> is what it holds. There
  is always room for the bytes the loop stores.
\<close>

definition uartDataSize :: "nat \<Rightarrow> nat" where
  "uartDataSize aLedDataSize = (aLedDataSize * 8 + 2) div 3"

definition sendToUart :: "u8 list \<Rightarrow> u8 list \<Rightarrow> LedLayoutDescriptor \<Rightarrow> u8 list option" where
  "sendToUart heap aLedData l =
     map_option (\<lambda>s. outBytes s @ drop (length (outBytes s)) heap)
       (uart_loop l aLedData 0 0 \<lparr>uartByte = 0, outBitMask = 1, outBytes = []\<rparr>)"

section \<open>The signals\<close>

text \<open>
  A byte of the inverted line with seven data bits: start bit, data bits from the lowest one on, stop bit.
  A bit for the chips: high, then the bit, then low, each for a third of its time.
\<close>

definition line_levels :: "u8 \<Rightarrow> bool list" where
  "line_levels b = [True] @ map (\<lambda>i. \<not> bit b i) [0..<7] @ [False]"

definition chip_levels :: "bool \<Rightarrow> bool list" where
  "chip_levels b = [True, b, False]"

definition byte_bits :: "u8 \<Rightarrow> bool list" where
  "byte_bits b = map (bit b) (rev [0..<8])"

text \<open>The data in the order of the layout.\<close>

function (sequential) layout_order :: "LedLayoutDescriptor \<Rightarrow> u8 list \<Rightarrow> u8 list" where
  "layout_order l [] = []"
| "layout_order l (b # bs) =
     map (\<lambda>i. (b # bs) ! i) (fetchIdx l) @ (if channels l = 0 then [] else layout_order l (drop (channels l) (b # bs)))"
  by pat_completeness auto
termination by (relation "measure (\<lambda>(l, d). length d)") auto

definition layout_ok :: "LedLayoutDescriptor \<Rightarrow> bool" where
  "layout_ok l \<longleftrightarrow> channels l > 0 \<and> length (fetchIdx l) = channels l \<and> (\<forall>i \<in> set (fetchIdx l). i < channels l)"

lemma layouts_ok: "l \<noteq> ledlayout_none \<Longrightarrow> layout_ok (ledLayoutDescriptors l)"
  by (cases l) (auto simp: layout_ok_def layout_def)

section \<open>The encoder makes the signal\<close>

text \<open>The state when the bits \<open>p\<close>, fewer than three, have been put into the byte being built.\<close>

definition pending :: "bool list \<Rightarrow> u8 list \<Rightarrow> uart" where
  "pending p out =
     \<lparr>uartByte = (if length p > 0 \<and> p ! 0 then 1 else 0) OR (if length p > 1 then 4 OR (if p ! 1 then 8 else 0) else 0),
      outBitMask = 8 ^ length p, outBytes = out\<rparr>"

definition three :: "bool \<Rightarrow> bool \<Rightarrow> bool \<Rightarrow> u8" where
  "three a b c = NOT ((if a then 1 else 0) OR (4 OR (if b then 8 else 0)) OR (32 OR (if c then 64 else 0)))"

lemma three_levels: "line_levels (three a b c) = concat (map chip_levels [a, b, c])"
  by (cases a; cases b; cases c; simp add: line_levels_def three_def chip_levels_def upt_rec)

lemma uart_bit_pending:
  assumes "length p < 3"
  shows "uart_bit v m (pending p out) =
    (let q = p @ [v AND m \<noteq> 0] in if length q = 3 then pending [] (out @ [three (q ! 0) (q ! 1) (q ! 2)]) else pending q out)"
proof -
  consider "p = []" | a where "p = [a]" | a b where "p = [a, b]"
    using assms by (cases p; cases "tl p"; cases "tl (tl p)") auto
  then show ?thesis
    by cases (auto simp: uart_bit_def pending_def three_def Let_def or.assoc)
qed

text \<open>Bits are put three by three into bytes.\<close>

fun pack :: "bool list \<Rightarrow> u8 list" where
  "pack (a # b # c # r) = three a b c # pack r"
| "pack _ = []"

fun rest3 :: "bool list \<Rightarrow> bool list" where
  "rest3 (a # b # c # r) = rest3 r"
| "rest3 r = r"

lemma pack_rest_snoc:
  "pack (p @ [x]) = (if length (rest3 p) = 2 then pack p @ [three (rest3 p ! 0) (rest3 p ! 1) x] else pack p)"
  "rest3 (p @ [x]) = (if length (rest3 p) = 2 then [] else rest3 p @ [x])"
  by (induction p rule: pack.induct) auto

lemma rest3_length: "length (rest3 p) = length p mod 3"
proof (induction p rule: rest3.induct)
  case (1 a b c r)
  have "Suc (Suc (Suc (length r))) mod 3 = length r mod 3" by presburger
  with 1 show ?case by simp
qed auto

lemma pack_length: "length (pack p) = length p div 3"
proof (induction p rule: rest3.induct)
  case (1 a b c r)
  have "Suc (Suc (Suc (length r))) div 3 = Suc (length r div 3)" by presburger
  with 1 show ?case by simp
qed auto

lemma pack_take: "concat (map line_levels (pack p)) = concat (map chip_levels (take (3 * (length p div 3)) p))"
proof (induction p rule: pack.induct)
  case (1 a b c r)
  have "Suc (Suc (Suc (length r))) div 3 = Suc (length r div 3)" by presburger
  then have "3 * (length (a # b # c # r) div 3) = Suc (Suc (Suc (3 * (length r div 3))))" by simp
  then have k: "take (3 * (length (a # b # c # r) div 3)) (a # b # c # r) = a # b # c # take (3 * (length r div 3)) r"
    by (simp only: take_Suc_Cons)
  show ?case unfolding k using 1 three_levels [of a b c] by simp
qed auto

definition encoded :: "bool list \<Rightarrow> uart" where
  "encoded bs = pending (rest3 bs) (pack bs)"

lemma uart_bit_encoded: "uart_bit v m (encoded bs) = encoded (bs @ [v AND m \<noteq> 0])"
proof -
  have l: "length (rest3 bs) < 3" by (simp add: rest3_length)
  show ?thesis
    unfolding encoded_def uart_bit_pending [OF l] Let_def pack_rest_snoc using l
    by (auto simp: nth_append)
qed

lemma masks: "map (\<lambda>m. v AND m \<noteq> 0) ledBitMasks = byte_bits v"
proof -
  have "map (\<lambda>n. 2 ^ n) (rev [0..<8]) = ledBitMasks" by (simp add: ledBitMasks_def upt_rec)
  then have "map (\<lambda>m. v AND m \<noteq> 0) ledBitMasks = map (\<lambda>n. v AND 2 ^ n \<noteq> 0) (rev [0..<8])"
    unfolding map_map comp_def by (rule subst) (simp only: map_map comp_def)
  then show ?thesis by (simp only: byte_bits_def and_exp_eq_0_iff_not_bit not_not)
qed

lemma foldl_uart: "foldl (\<lambda>s m. uart_bit v m s) (encoded bs) ms = encoded (bs @ map (\<lambda>m. v AND m \<noteq> 0) ms)"
  by (induction ms arbitrary: bs) (simp_all add: uart_bit_encoded)

lemma uart_byte_encoded: "uart_byte v (encoded bs) = encoded (bs @ byte_bits v)"
  by (simp add: uart_byte_def foldl_uart masks)

definition order_bits :: "u8 list \<Rightarrow> bool list" where
  "order_bits d = concat (map byte_bits d)"

lemma uart_group:
  assumes "lidx + channels l \<le> length d" "layout_ok l" "cidx < channels l"
  shows "uart_loop l d lidx cidx (encoded bs) =
    uart_loop l d (lidx + channels l) 0
      (encoded (bs @ order_bits (map (\<lambda>j. d ! (lidx + fetchIdx l ! j)) [cidx..<channels l])))"
  using assms(3)
proof (induction "channels l - cidx" arbitrary: cidx bs)
  case (Suc n)
  have f: "fetchIdx l ! cidx < channels l" using assms(2) Suc.prems unfolding layout_ok_def by (metis nth_mem)
  have lt: "lidx < length d" "lidx + fetchIdx l ! cidx < length d" using f assms(1) by auto
  have e: "[cidx..<channels l] = cidx # [Suc cidx..<channels l]" using Suc.prems by (simp add: upt_conv_Cons)
  show ?case
  proof (cases "cidx + 1 \<ge> channels l")
    case True
    then have "[Suc cidx..<channels l] = []" by simp
    with lt True e show ?thesis by (subst uart_loop.simps) (simp add: uart_byte_encoded order_bits_def)
  next
    case False
    then have "uart_loop l d lidx cidx (encoded bs) = uart_loop l d lidx (cidx + 1) (encoded (bs @ byte_bits (d ! (lidx + fetchIdx l ! cidx))))"
      using lt by (subst uart_loop.simps) (simp add: uart_byte_encoded)
    also have "\<dots> = uart_loop l d (lidx + channels l) 0 (encoded ((bs @ byte_bits (d ! (lidx + fetchIdx l ! cidx))) @
        order_bits (map (\<lambda>j. d ! (lidx + fetchIdx l ! j)) [cidx + 1..<channels l])))"
      using Suc.hyps(2) False by (intro Suc.hyps(1)) auto
    finally show ?thesis by (simp add: e order_bits_def)
  qed
qed auto

lemma layout_order_drop:
  assumes "lidx < length d" "layout_ok l"
  shows "layout_order l (drop lidx d) =
    map (\<lambda>j. d ! (lidx + fetchIdx l ! j)) [0..<channels l] @ layout_order l (drop (lidx + channels l) d)"
proof -
  obtain b bs where c: "drop lidx d = b # bs" using assms(1) by (cases "drop lidx d") auto
  have g: "(b # bs) ! i = d ! (lidx + i)" for i using c assms(1) by (metis less_imp_le_nat nth_drop)
  have r: "drop (channels l) (b # bs) = drop (lidx + channels l) d" unfolding c [symmetric] by (simp add: add.commute)
  have m: "map (\<lambda>i. (b # bs) ! i) (fetchIdx l) = map (\<lambda>j. d ! (lidx + fetchIdx l ! j)) [0..<channels l]"
    using assms(2) by (intro nth_equalityI) (auto simp: g layout_ok_def)
  show ?thesis unfolding c layout_order.simps m r using assms(2) by (simp add: layout_ok_def)
qed

lemma uart_loop_encodes:
  assumes "channels l dvd length d - lidx" "lidx \<le> length d" and ok: "layout_ok l"
  shows "uart_loop l d lidx 0 (encoded bs) = Some (encoded (bs @ order_bits (layout_order l (drop lidx d))))"
  using assms(1,2)
proof (induction "length d - lidx" arbitrary: lidx bs rule: less_induct)
  case less
  show ?case
  proof (cases "lidx < length d")
    case False
    then show ?thesis by (subst uart_loop.simps) (simp add: order_bits_def)
  next
    case True
    have c: "0 < channels l" using ok by (simp add: layout_ok_def)
    have le: "channels l \<le> length d - lidx" using less.prems(1) True by (auto intro: dvd_imp_le)
    define n where "n = lidx + channels l"
    have m: "length d - n = (length d - lidx) - channels l" by (simp add: n_def)
    have n: "length d - n < length d - lidx" "n \<le> length d"
      using c le True less.prems(2) unfolding m by (simp_all add: n_def)
    have n3: "channels l dvd length d - n" unfolding m by (rule dvd_diff_nat [OF less.prems(1) dvd_refl])
    show ?thesis
      unfolding uart_group [OF n(2) [unfolded n_def] ok c] layout_order_drop [OF True ok] n_def [symmetric] less.hyps [OF n(1) n3 n(2)]
      by (simp add: order_bits_def)
  qed
qed

lemma uart_start: "\<lparr>uartByte = 0, outBitMask = 1, outBytes = []\<rparr> = encoded []"
  by (simp add: encoded_def pending_def)

lemma byte_bits_length: "length (order_bits d) = 8 * length d"
  by (induction d) (simp_all add: order_bits_def byte_bits_def)

lemma layout_order_length: "layout_ok l \<Longrightarrow> channels l dvd length d \<Longrightarrow> length (layout_order l d) = length d"
proof (induction l d rule: layout_order.induct)
  case (2 l b bs)
  then have c: "channels l \<noteq> 0" "length (fetchIdx l) = channels l" by (auto simp: layout_ok_def)
  have le: "channels l \<le> length (b # bs)" using 2(3) by (auto intro: dvd_imp_le)
  have d: "channels l dvd length (drop (channels l) (b # bs))" using 2(3) le by (auto intro: dvd_diff_nat)
  from 2(1) [OF c(1) 2(2) d] c le show ?case by simp
qed simp

lemma encoded_out: "outBytes (encoded bs) = pack bs"
  by (simp add: encoded_def pending_def)

lemma size_arith:
  "(n * 8 + 2) div 3 - 8 * n div 3 = (if n mod 3 = 0 then 0 else 1) \<and> 8 * n div 3 \<le> (n * 8 + 2) div (3 :: nat)"
proof -
  define k where "k = n div 3"
  have n: "n = 3 * k + n mod 3" by (simp add: k_def)
  consider "n mod 3 = 0" | "n mod 3 = 1" | "n mod 3 = 2" by linarith
  then show ?thesis
  proof cases
    case 1
    have "(n * 8 + 2) div 3 = 8 * k" "8 * n div 3 = 8 * k" using n 1 by (auto intro!: div_nat_eqI)
    then show ?thesis using 1 by simp
  next
    case 2
    have "(n * 8 + 2) div 3 = 8 * k + 3" "8 * n div 3 = 8 * k + 2" using n 2 by (auto intro!: div_nat_eqI)
    then show ?thesis using 2 by simp
  next
    case 3
    have "(n * 8 + 2) div 3 = 8 * k + 6" "8 * n div 3 = 8 * k + 5" using n 3 by (auto intro!: div_nat_eqI)
    then show ?thesis using 3 by simp
  qed
qed

text \<open>C31: The UART sends the signal that the LED chips expect. For every layout but none, data made up of whole LEDs of that layout, and an array of
  the size that the code allocates for it, whatever its memory held before: sendToUart ends, and the levels of the line
  while the bytes it stored are sent are three per bit (high, the bit, low), for the bits of the LED data in the order of the layout, from
  the highest one of each byte on. That holds for the bits in groups of three: where the number of bytes is no multiple of three, one
  or two bits remain, their byte is never stored, and what is sent for them is what the memory of the array held.\<close>

theorem line_carries_led_signal:
  assumes "l \<noteq> ledlayout_none" "channels (ledLayoutDescriptors l) dvd length aLedData"
    and "length heap = uartDataSize (length aLedData)"
  shows "\<exists>out. sendToUart heap aLedData (ledLayoutDescriptors l) = Some out \<and> length out = uartDataSize (length aLedData) \<and>
    (let bits = concat (map byte_bits (layout_order (ledLayoutDescriptors l) aLedData)); n = length bits div 3
     in concat (map line_levels (take n out)) = concat (map chip_levels (take (3 * n) bits)) \<and>
        drop n out = drop n heap \<and> length (drop n out) = (if length aLedData mod 3 = 0 then 0 else 1))"
proof -
  define L where "L = ledLayoutDescriptors l"
  define bits where "bits = order_bits (layout_order L aLedData)"
  have ok: "layout_ok L" unfolding L_def by (rule layouts_ok [OF assms(1)])
  have lb: "length bits = 8 * length aLedData"
    unfolding bits_def byte_bits_length using layout_order_length [OF ok] assms(2) by (simp add: L_def)
  have "uart_loop L aLedData 0 0 (encoded []) = Some (encoded bits)"
    using uart_loop_encodes [of L aLedData 0 "[]"] assms(2) ok by (simp add: bits_def L_def)
  then have r: "sendToUart heap aLedData L = Some (pack bits @ drop (length (pack bits)) heap)"
    by (simp add: sendToUart_def uart_start encoded_out)
  have lp: "length (pack bits) = length bits div 3" by (rule pack_length)
  have h: "length heap - length bits div 3 = (if length aLedData mod 3 = 0 then 0 else 1) \<and> length bits div 3 \<le> length heap"
    unfolding lb assms(3) uartDataSize_def by (rule size_arith)
  have s: "concat (map line_levels (pack bits)) = concat (map chip_levels (take (3 * (length bits div 3)) bits))"
    by (rule pack_take)
  show ?thesis
    unfolding L_def [symmetric] order_bits_def [symmetric] bits_def [symmetric] Let_def r
    using h s lp by (intro exI [of _ "pack bits @ drop (length (pack bits)) heap"]) (auto simp: assms(3))
qed

theorem line_carries_led_signal_witness:
  "\<exists>out. sendToUart [1, 2, 3, 4, 5, 6, 7, 8] [0xFF, 0, 0x81] (ledLayoutDescriptors ledlayout_grb) = Some out \<and> length out = 8"
  proof -
  have d: "channels (ledLayoutDescriptors ledlayout_grb) dvd length [0xFF, 0, 0x81 :: u8]"
    by (simp add: layout_def flip: numeral_3_eq_3)
  have h: "length [1, 2, 3, 4, 5, 6, 7, 8 :: u8] = uartDataSize (length [0xFF, 0, 0x81 :: u8])"
    by (simp add: uartDataSize_def)
  from line_carries_led_signal [OF _ d h] obtain out where
    "sendToUart [1, 2, 3, 4, 5, 6, 7, 8] [0xFF, 0, 0x81] (ledLayoutDescriptors ledlayout_grb) = Some out"
    "length out = uartDataSize (length [0xFF, 0, 0x81 :: u8])" by blast
  then show ?thesis by (simp add: uartDataSize_def)
qed

end
