(* ===== verification/LedArrange.thy ===== *)
theory LedArrange
  imports LedChain TimeBase
begin

text \<open>
  The arrangement of LED chains (\<open>LEDChainArrangement\<close> in \<open>ledchaincomm.cpp\<close>): chains added by a specification
  text, the rectangle they cover, and rendering the view into the buffers of the chains with the limit for the power
  consumption. \<open>objs\<close> holds the chain objects, the fixtures refer to them by number. The view hierarchy,
  which belongs to another library, is given by the colour it has at each point.
\<close>

section \<open>The arrangement\<close>

record PixelRect =
  rx :: int
  ry :: int
  rdx :: int
  rdy :: int

definition zeroRect :: PixelRect where
  "zeroRect = \<lparr>rx = 0, ry = 0, rdx = 0, rdy = 0\<rparr>"

record LEDChainFixture =
  ledChain :: nat
  covers :: PixelRect
  offset :: "int \<times> int"

record LEDChainArrangement =
  objs :: chains
  mLedChains :: "LEDChainFixture list"
  mRootView :: bool
  mStarted :: bool
  mCovers :: PixelRect
  mPowerLimitMw :: u32
  mRequestedLightPowerMw :: u32
  mActualLightPowerMw :: u32
  mPowerLimited :: bool
  mMainDim :: nat
  mCurrentStepShowTime :: time
  mNextStepShowTime :: time
  mEarliestNextDispApply :: time
  mRenderPendingFor :: time
  mDispApplyPendingFor :: time
  mMinUpdateInterval :: time
  mBufferTime :: time
  mRenderWithApply :: bool
  mMaxPriorityInterval :: time

definition new_arrangement :: LEDChainArrangement where
  "new_arrangement =
     \<lparr>objs = [], mLedChains = [], mRootView = False, mStarted = False, mCovers = zeroRect, mPowerLimitMw = 0,
      mRequestedLightPowerMw = 0, mActualLightPowerMw = 0, mPowerLimited = False, mMainDim = 255,
      mCurrentStepShowTime = Infinite, mNextStepShowTime = Infinite, mEarliestNextDispApply = Infinite,
      mRenderPendingFor = Infinite, mDispApplyPendingFor = Infinite, mMinUpdateInterval = 15 * MilliSecond,
      mBufferTime = 2 * (15 * MilliSecond), mRenderWithApply = False, mMaxPriorityInterval = 3 * (15 * MilliSecond)\<rparr>"

text \<open>The view gets \<open>externalUpdateRequest\<close> as its callback, and the interval.\<close>

definition setRootView :: "LEDChainArrangement \<Rightarrow> LEDChainArrangement" where
  "setRootView a = a\<lparr>mRootView := True\<rparr>"

definition setMinUpdateInterval :: "time \<Rightarrow> LEDChainArrangement \<Rightarrow> LEDChainArrangement" where
  "setMinUpdateInterval t a = a\<lparr>mMinUpdateInterval := t, mBufferTime := 2 * t\<rparr>"

definition setBufferTime :: "time \<Rightarrow> LEDChainArrangement \<Rightarrow> LEDChainArrangement" where
  "setBufferTime t a = a\<lparr>mBufferTime := t\<rparr>"

definition setRenderWithApply :: "bool \<Rightarrow> LEDChainArrangement \<Rightarrow> LEDChainArrangement" where
  "setRenderWithApply b a = a\<lparr>mRenderWithApply := b\<rparr>"

definition setMaxPriorityInterval :: "time \<Rightarrow> LEDChainArrangement \<Rightarrow> LEDChainArrangement" where
  "setMaxPriorityInterval t a = a\<lparr>mMaxPriorityInterval := t\<rparr>"

text \<open>The view is told that it must be drawn again, too, which calls \<open>externalUpdateRequest\<close>.\<close>

definition setPowerLimit :: "int \<Rightarrow> LEDChainArrangement \<Rightarrow> LEDChainArrangement" where
  "setPowerLimit aMilliWatts a = a\<lparr>mPowerLimitMw := word_of_int aMilliWatts\<rparr>"

definition setMainDimFactor :: "f64 \<Rightarrow> LEDChainArrangement \<Rightarrow> LEDChainArrangement" where
  "setMainDimFactor f a = a\<lparr>mMainDim := nat (f64_to_int 32 (f64_mul f (f64_of_int 255)) mod 65536)\<rparr>"

definition getMainDimFactor :: "LEDChainArrangement \<Rightarrow> f64" where
  "getMainDimFactor a = f64_div (f64_of_int (int (mMainDim a))) (f64_of_int 255)"

section \<open>The chain specification\<close>

record chain_spec =
  ledType :: string
  deviceName :: string
  numleds :: int
  xReversed :: bool
  alternating :: bool
  swapXY :: bool
  yReversed :: bool
  ledWhite :: PixelColor
  powerConverter_of :: "LEDPowerConverter option"
  inactiveStartLeds :: int
  inactiveBetweenLeds :: int
  newCover :: PixelRect
  nmbrcnt :: nat
  txtcnt :: nat

definition default_spec :: chain_spec where
  "default_spec =
     \<lparr>ledType = ''WS2813.GRB'', deviceName = [], numleds = 200, xReversed = False, alternating = False, swapXY = False,
      yReversed = False, ledWhite = \<lparr>pr = 0xAA, pg = 0xAA, pb = 0xAA, pa = 0xFF\<rparr>, powerConverter_of = None,
      inactiveStartLeds = 0, inactiveBetweenLeds = 0, newCover = \<lparr>rx = 0, ry = 0, rdx = 200, rdy = 1\<rparr>,
      nmbrcnt = 0, txtcnt = 0\<rparr>"

text \<open>\<open>sscanf\<close> with up to \<open>n\<close> times \<open>%lf\<close>, separated by commas.\<close>

fun scan_floats :: "nat \<Rightarrow> string \<Rightarrow> f64 list" where
  "scan_floats 0 s = []"
| "scan_floats (Suc n) s =
     (case scan_float s of None \<Rightarrow> []
      | Some (v, l) \<Rightarrow> v # (if chr_at s l = CHR '','' then scan_floats n (drop (l + 1) s) else []))"

definition to_power :: "f64 \<Rightarrow> power" where
  "to_power p = word_of_int (f64_to_int 32 p)"

definition curve_converter :: "(f64 \<Rightarrow> f64) \<Rightarrow> string \<Rightarrow> LEDPowerConverter option" where
  "curve_converter c_exp s =
     (case scan_floats 5 s of
        [p1, p2, p3, p4, p5] \<Rightarrow> Some (converter_channels c_exp p1 (to_power p2) (to_power p3) (to_power p4) (to_power p5))
      | [p1, p2, p3, p4] \<Rightarrow> Some (converter_white c_exp p1 (to_power p2) p3 (to_power p4))
      | [p1, p2] \<Rightarrow> Some (converter_common c_exp p1 (to_power p2))
      | _ \<Rightarrow> None)"

text \<open>The options: a white colour or a curve takes the rest of the part.\<close>

fun spec_options :: "(f64 \<Rightarrow> f64) \<Rightarrow> string \<Rightarrow> chain_spec \<Rightarrow> chain_spec" where
  "spec_options c_exp [] sp = sp"
| "spec_options c_exp (c # r) sp =
     (if c = CHR ''X'' then spec_options c_exp r (sp\<lparr>xReversed := True\<rparr>)
      else if c = CHR ''Y'' then spec_options c_exp r (sp\<lparr>yReversed := True\<rparr>)
      else if c = CHR ''S'' then spec_options c_exp r (sp\<lparr>swapXY := True\<rparr>)
      else if c = CHR ''A'' then spec_options c_exp r (sp\<lparr>alternating := True\<rparr>)
      else if c = CHR ''W'' then sp\<lparr>ledWhite := webColorToPixel r\<rparr>
      else if c = CHR ''C''
      then (case curve_converter c_exp r of None \<Rightarrow> sp | Some v \<Rightarrow> sp\<lparr>powerConverter_of := Some v\<rparr>)\<lparr>ledWhite := webColorToPixel r\<rparr>
      else spec_options c_exp r sp)"

definition spec_number :: "int \<Rightarrow> chain_spec \<Rightarrow> chain_spec" where
  "spec_number n sp =
     (let k = nmbrcnt sp; r = newCover sp
      in (if k = 0 then sp\<lparr>numleds := n, newCover := r\<lparr>rdx := n\<rparr>\<rparr>
          else if k = 1 then sp\<lparr>newCover := r\<lparr>rx := n\<rparr>\<rparr>
          else if k = 2 then sp\<lparr>newCover := r\<lparr>rdx := n\<rparr>\<rparr>
          else if k = 3 then sp\<lparr>newCover := r\<lparr>ry := n\<rparr>\<rparr>
          else if k = 4 then sp\<lparr>newCover := r\<lparr>rdy := n\<rparr>\<rparr>
          else if k = 5 then sp\<lparr>inactiveStartLeds := to_uint16 n\<rparr>
          else if k = 6 then sp\<lparr>inactiveBetweenLeds := to_uint16 n\<rparr>
          else sp)\<lparr>nmbrcnt := k + 1\<rparr>)"

definition spec_part :: "(f64 \<Rightarrow> f64) \<Rightarrow> string \<Rightarrow> chain_spec \<Rightarrow> chain_spec" where
  "spec_part c_exp part sp =
     (if \<not> c_isdigit (chr_at part 0)
      then if nmbrcnt sp = 0
           then if txtcnt sp = 0 then sp\<lparr>ledType := part, txtcnt := 1\<rparr>
                else if txtcnt sp = 1 then sp\<lparr>deviceName := part, txtcnt := 2\<rparr>
                else sp
           else spec_options c_exp part sp
      else spec_number (atoi part) sp)"

lemma part_break_shorter: "length (snd (part_break sep False t)) < length t \<or> t = []"
proof (induction t)
  case (Cons c cs)
  then show ?case by (cases "cs = []") (auto split: prod.splits)
qed simp

lemma nextPart_shorter: "nextPart (Some p) sep False = Some (part, r) \<Longrightarrow> length r < length p"
proof -
  assume a: "nextPart (Some p) sep False = Some (part, r)"
  then have n: "cstr p \<noteq> []" and b: "part_break sep False (cstr p) = (part, r)"
    by (auto simp: nextPart_def Let_def split: if_splits)
  have "length r < length (cstr p)" using part_break_shorter [of sep "cstr p"] n b by simp
  also have "\<dots> \<le> length p" by (simp add: cstr_def length_takeWhile_le)
  finally show ?thesis .
qed

function parse_spec :: "(f64 \<Rightarrow> f64) \<Rightarrow> string \<Rightarrow> chain_spec \<Rightarrow> chain_spec" where
  "parse_spec c_exp p sp =
     (case nextPart (Some p) (CHR '':'') False of None \<Rightarrow> sp
      | Some (part, r) \<Rightarrow> parse_spec c_exp r (spec_part c_exp part sp))"
  by pat_completeness auto
termination by (relation "measure (\<lambda>(_, p, _). length p)") (auto dest: nextPart_shorter)

declare parse_spec.simps [simp del]

definition remainingInactive :: "chain_spec \<Rightarrow> int" where
  "remainingInactive sp =
     (let r = newCover sp
      in numleds sp - inactiveStartLeds sp - rdx r * rdy r -
         ((if swapXY sp then rdx r else rdy r) - 1) * inactiveBetweenLeds sp)"

definition byte_fraction :: "nat \<Rightarrow> f64" where
  "byte_fraction b = f64_div (f64_of_int (int b)) (f64_of_int 255)"

definition spec_chain :: "chain_spec \<Rightarrow> LEDChainComm" where
  "spec_chain sp =
     (let r = newCover sp; w = ledWhite sp;
          c = new_chain (ledType sp) (deviceName sp) (to_uint16 (numleds sp))
                (to_uint16 (if swapXY sp then rdy r else rdx r)) (xReversed sp) (alternating sp) (swapXY sp) (yReversed sp)
                (inactiveStartLeds sp) (inactiveBetweenLeds sp) (to_uint16 (max 0 (remainingInactive sp)));
          c = c\<lparr>mLEDWhite := [byte_fraction (pr w), byte_fraction (pg w), byte_fraction (pb w)]\<rparr>
      in case powerConverter_of sp of None \<Rightarrow> c | Some v \<Rightarrow> setPowerConverter (Some v) c)"

section \<open>Chains and what they cover\<close>

definition cover_chain :: "PixelRect \<Rightarrow> LEDChainFixture \<Rightarrow> PixelRect" where
  "cover_chain m l =
     (let r = covers l
      in if rdx r > 0 \<and> rdy r > 0
         then let m = (if rdx m = 0 \<or> rx r < rx m then m\<lparr>rx := rx r\<rparr> else m);
                  m = (if rdy m = 0 \<or> ry r < ry m then m\<lparr>ry := ry r\<rparr> else m);
                  m = (if rdx m = 0 \<or> rx r + rdx r > rx m + rdx m then m\<lparr>rdx := rx r + rdx r - rx m\<rparr> else m)
              in if rdy m = 0 \<or> ry r + rdy r > ry m + rdy m then m\<lparr>rdy := ry r + rdy r - ry m\<rparr> else m
         else m)"

definition recalculateCover :: "LEDChainArrangement \<Rightarrow> LEDChainArrangement" where
  "recalculateCover a = a\<lparr>mCovers := foldl cover_chain (mCovers a) (mLedChains a)\<rparr>"

definition addFixture :: "nat \<Rightarrow> PixelRect \<Rightarrow> int \<times> int \<Rightarrow> LEDChainArrangement \<Rightarrow> LEDChainArrangement" where
  "addFixture k cover offs a =
     recalculateCover (a\<lparr>mLedChains := mLedChains a @ [\<lparr>ledChain = k, covers = cover, offset = offs\<rparr>]\<rparr>)"

text \<open>The first chain on the same device that is no mapping itself.\<close>

definition device_driver :: "string \<Rightarrow> LEDChainArrangement \<Rightarrow> nat option" where
  "device_driver dev a =
     map_option ledChain
       (find (\<lambda>l. mDeviceName (objs a ! ledChain l) = dev \<and> isHardwareDriver (objs a ! ledChain l)) (mLedChains a))"

definition addLEDChain :: "(f64 \<Rightarrow> f64) \<Rightarrow> string \<Rightarrow> LEDChainArrangement \<Rightarrow> LEDChainArrangement" where
  "addLEDChain c_exp aChainSpec a =
     (let sp = parse_spec c_exp aChainSpec default_spec; c = spec_chain sp;
          c = (case device_driver (deviceName sp) a of None \<Rightarrow> c | Some d \<Rightarrow> setChainDriver (Some d) c)
      in addFixture (length (objs a)) (newCover sp) (0, 0) (a\<lparr>objs := objs a @ [c]\<rparr>))"

definition addLEDChain_option :: "(f64 \<Rightarrow> f64) \<Rightarrow> string \<Rightarrow> LEDChainArrangement option \<Rightarrow> LEDChainArrangement option" where
  "addLEDChain_option c_exp aChainSpec arr =
     (if aChainSpec = [] then arr
      else let a = (case arr of None \<Rightarrow> new_arrangement | Some a \<Rightarrow> a)
           in Some (if aChainSpec \<noteq> ''none'' then addLEDChain c_exp aChainSpec a else a))"

fun each_chain :: "(nat \<Rightarrow> chains \<Rightarrow> chains option) \<Rightarrow> LEDChainFixture list \<Rightarrow> chains \<Rightarrow> chains option" where
  "each_chain f [] cs = Some cs"
| "each_chain f (l # ls) cs = Option.bind (f (ledChain l) cs) (each_chain f ls)"

text \<open>What the chains show is the caller's; \<open>show\<close> does not change a chain.\<close>

definition clear_all :: "LEDChainArrangement \<Rightarrow> LEDChainArrangement option" where
  "clear_all a = map_option (\<lambda>cs. a\<lparr>objs := cs\<rparr>) (each_chain clear_chain (mLedChains a) (objs a))"

definition removeAllChains :: "LEDChainArrangement \<Rightarrow> LEDChainArrangement option" where
  "removeAllChains a =
     Option.bind (clear_all a)
       (\<lambda>a. map_option (\<lambda>cs. a\<lparr>objs := cs, mLedChains := [], mCovers := zeroRect\<rparr>)
              (each_chain (\<lambda>k cs. Some (end_chain k cs)) (mLedChains a) (objs a)))"

definition startChain :: "(string \<Rightarrow> bool) \<Rightarrow> (string \<Rightarrow> bool) \<Rightarrow> nat \<Rightarrow> chains \<Rightarrow> chains option" where
  "startChain open_ok uart_ok k cs =
     (if mInitialized (cs ! k) then Some cs
      else Option.bind (begin_chain open_ok uart_ok k cs) (clear_chain k))"

definition startChains :: "(string \<Rightarrow> bool) \<Rightarrow> (string \<Rightarrow> bool) \<Rightarrow> LEDChainArrangement \<Rightarrow> LEDChainArrangement option" where
  "startChains open_ok uart_ok a =
     map_option (\<lambda>cs. a\<lparr>objs := cs\<rparr>) (each_chain (startChain open_ok uart_ok) (mLedChains a) (objs a))"

definition begin_arrangement :: "(string \<Rightarrow> bool) \<Rightarrow> (string \<Rightarrow> bool) \<Rightarrow> LEDChainArrangement \<Rightarrow> LEDChainArrangement option" where
  "begin_arrangement open_ok uart_ok a =
     (if mStarted a then Some a else startChains open_ok uart_ok (a\<lparr>mStarted := True\<rparr>))"

definition end_arrangement :: "LEDChainArrangement \<Rightarrow> LEDChainArrangement option" where
  "end_arrangement a =
     map_option (\<lambda>cs. a\<lparr>objs := cs, mStarted := False\<rparr>) (each_chain (\<lambda>k cs. Some (end_chain k cs)) (mLedChains a) (objs a))"

definition minVisibleColorIntensity :: "LEDChainArrangement \<Rightarrow> nat" where
  "minVisibleColorIntensity a = foldl (\<lambda>m l. max m (getMinVisibleColorIntensity (objs a ! ledChain l))) 1 (mLedChains a)"

section \<open>Rendering\<close>

text \<open>The share of a colour that goes to the white channel (\<open>transferToColor\<close> of \<open>colorutils.cpp\<close>), and the rest.\<close>

definition white_fraction :: "f64 list \<Rightarrow> f64 \<Rightarrow> f64 \<Rightarrow> f64 \<Rightarrow> f64" where
  "white_fraction col r g b =
     (let zero = F_Fin 0; one = F_Fin 1;
          hasRed = f64_less zero (col ! 0); hasGreen = f64_less zero (col ! 1); hasBlue = f64_less zero (col ! 2);
          fr = (if hasRed then f64_div r (col ! 0) else zero);
          fg = (if hasGreen then f64_div g (col ! 1) else zero);
          fb = (if hasBlue then f64_div b (col ! 2) else zero);
          f = (if f64_less fb fg \<and> hasBlue then fb else fg);
          f = (if f64_less f fr \<and> (hasBlue \<or> hasGreen) then f else fr)
      in if f64_less one f then one else f)"

definition transferToColor :: "f64 list \<Rightarrow> f64 \<times> f64 \<times> f64 \<Rightarrow> f64 \<times> f64 \<times> f64 \<times> f64" where
  "transferToColor col rgb =
     (let (r, g, b) = rgb; f = white_fraction col r g b;
          part = (\<lambda>v c. if f64_less (F_Fin 0) c then f64_sub v (f64_mul f c) else v);
          left = (\<lambda>c. f64_sub (F_Fin 1) (f64_mul f c));
          u = left (col ! 0);
          u = (if f64_less u (left (col ! 1)) then left (col ! 1) else u);
          u = (if f64_less u (left (col ! 2)) then left (col ! 2) else u);
          s = (\<lambda>v. if f64_less (F_Fin 0) u then f64_mul v (f64_div (F_Fin 1) u) else v)
      in (f, s (part r (col ! 0)), s (part g (col ! 1)), s (part b (col ! 2))))"

definition to_byte :: "f64 \<Rightarrow> nat" where
  "to_byte v = nat (f64_to_int 32 (f64_mul v (f64_of_int 255)) mod 256)"

definition white_pixel :: "f64 list \<Rightarrow> PixelColor \<Rightarrow> PixelColor \<times> nat" where
  "white_pixel col p =
     (let (w, r, g, b) = transferToColor col (byte_fraction (pr p), byte_fraction (pg p), byte_fraction (pb p))
      in (p\<lparr>pr := to_byte r, pg := to_byte g, pb := to_byte b\<rparr>, to_byte w))"

partial_function (option) powerConverter :: "LEDPowerConverter \<Rightarrow> nat \<Rightarrow> chains \<Rightarrow> (LEDPowerConverter \<times> chains) option" where
  "powerConverter std k cs =
     (if \<not> k < length cs then None
      else case mLEDPowerConverter (cs ! k) of
        Some v \<Rightarrow> Some (v, cs)
      | None \<Rightarrow>
          Option.bind (case mChainDriver (cs ! k) of Some d \<Rightarrow> powerConverter std d cs | None \<Rightarrow> Some (std, cs))
            (\<lambda>(v, cs). Some (v, cs[k := (cs ! k)\<lparr>mLEDPowerConverter := Some v\<rparr>])))"

text \<open>The powers of a point of a chain.\<close>

definition point_powers :: "LEDPowerConverter \<Rightarrow> LEDChainComm \<Rightarrow> nat \<Rightarrow> nat \<Rightarrow> PixelColor \<Rightarrow> powers" where
  "point_powers conv c mainDim powerDim p =
     (let p = dimmedPixel p (scaleVal (pa p) mainDim);
          (p, w) = (if hasWhite c then white_pixel (mLEDWhite c) p else (p, 0))
      in powersForComponents conv powerDim (pr p) (pg p) (pb p) w)"

text \<open>The sum of the light powers of a point, as it is added to the sum for the chain.\<close>

definition light_pwm :: "LedChipDesc \<Rightarrow> powers \<Rightarrow> u32" where
  "light_pwm d p =
     (if rgbCommonCurrent d
      then ucast (if Pr p > Pg p then if Pb p > Pr p then Pb p else Pr p else if Pb p > Pg p then Pb p else Pg p)
      else ucast (Pr p) + ucast (Pg p) + ucast (Pb p))"

record measured =
  idlePowerMw :: u32
  lightPowerPWM :: u32
  lightPowerPWMWhite :: u32

fun render_points ::
  "(int \<Rightarrow> int \<Rightarrow> powers) \<Rightarrow> LedChipDesc \<Rightarrow> LEDChainFixture \<Rightarrow> (int \<times> int) list \<Rightarrow> chains \<times> measured \<Rightarrow> (chains \<times> measured) option" where
  "render_points pw d l [] s = Some s"
| "render_points pw d l ((x, y) # ps) (cs, m) =
     (let p = pw (rx (covers l) + x) (ry (covers l) + y);
          m = m\<lparr>idlePowerMw := idlePowerMw m + word_of_nat (idleChipMw d),
                lightPowerPWM := lightPowerPWM m + light_pwm d p,
                lightPowerPWMWhite := lightPowerPWMWhite m + ucast (Pw p)\<rparr>
      in Option.bind (setPowerXY (ledChain l) (to_uint16 (fst (offset l) + x)) (to_uint16 (snd (offset l) + y)) p cs)
           (\<lambda>cs. render_points pw d l ps (cs, m)))"

definition cover_points :: "LEDChainFixture \<Rightarrow> (int \<times> int) list" where
  "cover_points l = [(x, y). x \<leftarrow> [0..rdx (covers l) - 1], y \<leftarrow> [0..rdy (covers l) - 1]]"

text \<open>The power of a chain in milliwatts, from the sums of its PWM values, calculated in 64 bits.\<close>

definition chain_power :: "LedChipDesc \<Rightarrow> u32 \<Rightarrow> u32 \<Rightarrow> u32" where
  "chain_power d pwm white =
     word_of_nat (unat pwm * rgbChannelMw d div 65535 + unat white * whiteChannelMw d div 65535)"

definition render_chain ::
  "LEDPowerConverter \<Rightarrow> (int \<Rightarrow> int \<Rightarrow> PixelColor) \<Rightarrow> nat \<Rightarrow> nat \<Rightarrow> LEDChainFixture \<Rightarrow> chains \<times> u32 \<times> u32 \<Rightarrow>
   (chains \<times> u32 \<times> u32) option" where
  "render_chain std colorAt mainDim powerDim l s =
     (let (cs, idle, light) = s
      in Option.bind (powerConverter std (ledChain l) cs)
           (\<lambda>(conv, cs). let c = cs ! ledChain l; d = ledChipDescriptor c
              in map_option (\<lambda>(cs, m). (cs, idlePowerMw m, light + chain_power d (lightPowerPWM m) (lightPowerPWMWhite m)))
                   (render_points (\<lambda>x y. point_powers conv c mainDim powerDim (colorAt x y)) d l (cover_points l)
                      (cs, \<lparr>idlePowerMw = idle, lightPowerPWM = 0, lightPowerPWMWhite = 0\<rparr>))))"

fun render_chains ::
  "LEDPowerConverter \<Rightarrow> (int \<Rightarrow> int \<Rightarrow> PixelColor) \<Rightarrow> nat \<Rightarrow> nat \<Rightarrow> LEDChainFixture list \<Rightarrow> chains \<times> u32 \<times> u32 \<Rightarrow>
   (chains \<times> u32 \<times> u32) option" where
  "render_chains std colorAt mainDim powerDim [] s = Some s"
| "render_chains std colorAt mainDim powerDim (l # ls) s =
     Option.bind (render_chain std colorAt mainDim powerDim l s) (render_chains std colorAt mainDim powerDim ls)"

text \<open>The dimming for a limit, in 32 bits and then cut to a byte.\<close>

definition power_dim :: "u32 \<Rightarrow> u32 \<Rightarrow> u32 \<Rightarrow> nat" where
  "power_dim limit idle light = unat (255 * (limit - idle) div light) mod 256"

text \<open>One round of the loop; the second component is the dimming for another round.\<close>

definition render_round ::
  "LEDPowerConverter \<Rightarrow> (int \<Rightarrow> int \<Rightarrow> PixelColor) \<Rightarrow> nat \<Rightarrow> LEDChainArrangement \<Rightarrow> (LEDChainArrangement \<times> nat) option" where
  "render_round std colorAt powerDim a =
     map_option (\<lambda>(cs, idle, light).
        let a = a\<lparr>objs := cs, mActualLightPowerMw := light + idle\<rparr>;
            a = (if powerDim = 0 then a\<lparr>mRequestedLightPowerMw := light + idle\<rparr> else a)
        in if mPowerLimitMw a \<noteq> 0 \<and> mActualLightPowerMw a > mPowerLimitMw a \<and> powerDim = 0 \<and> light > 0
           then (a\<lparr>mPowerLimited := True\<rparr>, power_dim (mPowerLimitMw a) idle light)
           else if powerDim \<noteq> 0 then (a, 0)
           else (a\<lparr>mPowerLimited := False\<rparr>, 0))
       (render_chains std colorAt (mMainDim a) powerDim (mLedChains a) (objs a, 0, 0))"

text \<open>There is no third round: only the first, without dimming, asks for another one.\<close>

definition renderViewState ::
  "LEDPowerConverter \<Rightarrow> (int \<Rightarrow> int \<Rightarrow> PixelColor) \<Rightarrow> LEDChainArrangement \<Rightarrow> LEDChainArrangement option" where
  "renderViewState std colorAt a =
     (if \<not> mRootView a then Some a
      else Option.bind (render_round std colorAt 0 a)
        (\<lambda>(a, d). if d \<noteq> 0 then map_option fst (render_round std colorAt d a) else Some a))"

text \<open>What \<open>applyDisplayUpdate\<close> does with the chains, in their order.\<close>

definition applyDisplayUpdate :: "LEDChainArrangement \<Rightarrow> show_action list" where
  "applyDisplayUpdate a = (if mStarted a then map (\<lambda>l. show_chain (objs a ! ledChain l)) (mLedChains a) else [])"

end
