(* ===== verification/LedGrid.thy ===== *)
theory LedGrid
  imports LedArrange
begin

text \<open>
  What the mapping from points to LEDs promises: each point of the grid of a chain has an LED of its own, within the
  active part of the chain, also when the chain was made from a specification text; setting the power of a point
  changes the bytes of its LED only; and the rectangle covered by the arrangement encloses the chains.
\<close>

section \<open>Points and LEDs\<close>

text \<open>The grid lies within the active part of the chain, and the numbers are those of an \<open>uint16_t\<close>.\<close>

definition grid_fits :: "LEDChainComm \<Rightarrow> bool" where
  "grid_fits c \<longleftrightarrow>
     0 < mLedsPerRow c \<and> 0 < mNumRows c \<and> 0 \<le> mInactiveStartLeds c \<and> 0 \<le> mInactiveBetweenLeds c \<and>
     0 \<le> mInactiveEndLeds c \<and> mNumLeds c < 65536 \<and>
     mInactiveStartLeds c + mNumRows c * (mLedsPerRow c + mInactiveBetweenLeds c) - mInactiveBetweenLeds c
       \<le> mNumLeds c - mInactiveEndLeds c"

definition in_grid :: "LEDChainComm \<Rightarrow> int \<Rightarrow> int \<Rightarrow> bool" where
  "in_grid c x y \<longleftrightarrow> 0 \<le> x \<and> x < getSizeX c \<and> 0 \<le> y \<and> y < getSizeY c"

text \<open>The row along the wire and the place in it.\<close>

definition wire_row :: "LEDChainComm \<Rightarrow> int \<Rightarrow> int \<Rightarrow> int" where
  "wire_row c x y = (let v = (if mXYSwap c then x else y) in if mYReversed c then mNumRows c - 1 - v else v)"

definition wire_place :: "LEDChainComm \<Rightarrow> int \<Rightarrow> int \<Rightarrow> int" where
  "wire_place c x y =
     (let u = (if mXYSwap c then y else x)
      in if (mAlternating c \<and> odd (wire_row c x y)) \<noteq> mXReversed c then mLedsPerRow c - 1 - u else u)"

lemma to_uint16_id: "0 \<le> i \<Longrightarrow> i < 65536 \<Longrightarrow> to_uint16 i = i"
  by (simp add: to_uint16_def)

lemma to_uint16_add: "to_uint16 (to_uint16 a + b) = to_uint16 (a + b)"
  by (simp add: to_uint16_def mod_simps)

lemma wire_bounds:
  "grid_fits c \<Longrightarrow> in_grid c x y \<Longrightarrow>
    0 \<le> wire_row c x y \<and> wire_row c x y < mNumRows c \<and> 0 \<le> wire_place c x y \<and> wire_place c x y < mLedsPerRow c"
  by (auto simp: in_grid_def wire_row_def wire_place_def getSizeX_def getSizeY_def Let_def)

lemma rows_bound:
  assumes "grid_fits c"
  shows "mNumRows c < 65536"
proof -
  have "mNumRows c * 1 \<le> mNumRows c * (mLedsPerRow c + mInactiveBetweenLeds c)"
    using assms by (intro mult_left_mono) (auto simp: grid_fits_def)
  moreover have "mNumRows c * (mLedsPerRow c + mInactiveBetweenLeds c) - mInactiveBetweenLeds c
      \<ge> (mNumRows c - 1) * (mLedsPerRow c + mInactiveBetweenLeds c) + mLedsPerRow c"
    by (simp add: algebra_simps)
  moreover have "(mNumRows c - 1) * 1 \<le> (mNumRows c - 1) * (mLedsPerRow c + mInactiveBetweenLeds c)"
    using assms by (intro mult_left_mono) (auto simp: grid_fits_def)
  ultimately show ?thesis using assms by (auto simp: grid_fits_def)
qed

lemma index_of_row:
  "ledIndexFromXY c x y =
    (let r = (if mYReversed c then to_uint16 (mNumRows c - 1 - (if mXYSwap c then x else y)) else (if mXYSwap c then x else y));
         u = (if mXYSwap c then y else x)
     in to_uint16 (to_uint16 (to_uint16 (r * (mLedsPerRow c + mInactiveBetweenLeds c)) +
          (if (mAlternating c \<and> odd r) \<noteq> mXReversed c then mLedsPerRow c - 1 - u else u)) + mInactiveStartLeds c))"
  by (simp add: ledIndexFromXY_def Let_def)

text \<open>The index, without any wrapping around.\<close>

lemma led_index:
  assumes f: "grid_fits c" and g: "in_grid c x y"
  shows "ledIndexFromXY c x y =
      mInactiveStartLeds c + wire_row c x y * (mLedsPerRow c + mInactiveBetweenLeds c) + wire_place c x y"
    and "mInactiveStartLeds c \<le> ledIndexFromXY c x y" "ledIndexFromXY c x y < mNumLeds c - mInactiveEndLeds c"
proof -
  define w where "w = mLedsPerRow c + mInactiveBetweenLeds c"
  define r where "r = wire_row c x y"
  define p where "p = wire_place c x y"
  have b: "0 \<le> r" "r < mNumRows c" "0 \<le> p" "p < mLedsPerRow c" using wire_bounds [OF f g] by (auto simp: r_def p_def)
  have w: "0 < w" "mLedsPerRow c \<le> w" using f by (auto simp: grid_fits_def w_def)
  have "r * w \<le> (mNumRows c - 1) * w" using b(2) w(1) by (intro mult_right_mono) auto
  then have top: "mInactiveStartLeds c + r * w + p < mNumLeds c - mInactiveEndLeds c"
  proof -
    have a: "mInactiveStartLeds c + mNumRows c * w - mInactiveBetweenLeds c \<le> mNumLeds c - mInactiveEndLeds c"
      using f by (simp add: grid_fits_def w_def)
    have m: "(mNumRows c - 1) * w = mNumRows c * w - w" by (simp add: algebra_simps)
    show ?thesis using \<open>r * w \<le> (mNumRows c - 1) * w\<close> a b(4) unfolding m by (simp add: w_def)
  qed
  have low: "mInactiveStartLeds c \<le> mInactiveStartLeds c + r * w + p" using b w by simp
  have row: "(if mYReversed c then to_uint16 (mNumRows c - 1 - (if mXYSwap c then x else y)) else (if mXYSwap c then x else y)) = r"
    using g rows_bound [OF f] by (auto simp: r_def wire_row_def in_grid_def getSizeX_def getSizeY_def intro!: to_uint16_id)
  have "ledIndexFromXY c x y = to_uint16 (to_uint16 (to_uint16 (r * w) + p) + mInactiveStartLeds c)"
    by (simp only: index_of_row row w_def r_def [symmetric] p_def wire_place_def Let_def)
  also have "\<dots> = to_uint16 (mInactiveStartLeds c + r * w + p)"
    by (simp only: to_uint16_add add.assoc) (simp only: ac_simps)
  also have "\<dots> = mInactiveStartLeds c + r * w + p"
    using top low f by (intro to_uint16_id) (auto simp: grid_fits_def)
  finally have e: "ledIndexFromXY c x y = mInactiveStartLeds c + r * w + p" .
  from e show "ledIndexFromXY c x y =
      mInactiveStartLeds c + wire_row c x y * (mLedsPerRow c + mInactiveBetweenLeds c) + wire_place c x y"
    by (simp add: r_def w_def p_def)
  from e top low show "mInactiveStartLeds c \<le> ledIndexFromXY c x y" "ledIndexFromXY c x y < mNumLeds c - mInactiveEndLeds c"
    by auto
qed

lemma led_index_place:
  assumes f: "grid_fits c" and g: "in_grid c x y"
  shows "(ledIndexFromXY c x y - mInactiveStartLeds c) div (mLedsPerRow c + mInactiveBetweenLeds c) = wire_row c x y"
    and "(ledIndexFromXY c x y - mInactiveStartLeds c) mod (mLedsPerRow c + mInactiveBetweenLeds c) = wire_place c x y"
proof -
  define w where "w = mLedsPerRow c + mInactiveBetweenLeds c"
  have b: "0 \<le> wire_place c x y" "wire_place c x y < w"
    using wire_bounds [OF f g] f by (auto simp: grid_fits_def w_def)
  have e: "ledIndexFromXY c x y - mInactiveStartLeds c = wire_place c x y + wire_row c x y * w"
    using led_index(1) [OF f g] by (simp add: w_def)
  have w: "w \<noteq> 0" using b by auto
  show "(ledIndexFromXY c x y - mInactiveStartLeds c) div (mLedsPerRow c + mInactiveBetweenLeds c) = wire_row c x y"
    unfolding w_def [symmetric] e div_mult_self1 [OF w] using b by simp
  show "(ledIndexFromXY c x y - mInactiveStartLeds c) mod (mLedsPerRow c + mInactiveBetweenLeds c) = wire_place c x y"
    unfolding w_def [symmetric] e mod_mult_self1 using b by simp
qed

lemma wire_inj:
  assumes "wire_row c x y = wire_row c x' y'" "wire_place c x y = wire_place c x' y'"
  shows "x = x' \<and> y = y'"
  using assms by (auto simp: wire_row_def wire_place_def Let_def split: if_splits)

text \<open>
  Where the grid of a chain fits into its active LEDs, each point of the grid has an LED of its own, whatever is
  reversed, swapped or alternating: it is one of the active LEDs, none of those between the rows, and no
  other point has it.
\<close>
theorem points_have_own_leds:
  assumes "grid_fits c" "in_grid c x y"
  shows "mInactiveStartLeds c \<le> ledIndexFromXY c x y \<and> ledIndexFromXY c x y < mNumLeds c - mInactiveEndLeds c \<and>
    (ledIndexFromXY c x y - mInactiveStartLeds c) mod (mLedsPerRow c + mInactiveBetweenLeds c) < mLedsPerRow c \<and>
    (\<forall>x' y'. in_grid c x' y' \<longrightarrow> ledIndexFromXY c x' y' = ledIndexFromXY c x y \<longrightarrow> x' = x \<and> y' = y)"
proof -
  have "x' = x \<and> y' = y" if "in_grid c x' y'" "ledIndexFromXY c x' y' = ledIndexFromXY c x y" for x' y'
    using led_index_place [OF assms] led_index_place [OF assms(1) that(1)] that(2) by (intro wire_inj [of c x' y' x y]) auto
  then show ?thesis using led_index(2,3) [OF assms] led_index_place(2) [OF assms] wire_bounds [OF assms] by auto
qed

theorem points_have_own_leds_witness:
  "let c = new_chain ''WS2812'' ''/dev/ledchain0'' 59 10 True True False True 1 2 0
   in ledIndexFromXY c 3 4 \<noteq> ledIndexFromXY c 4 4 \<and> (ledIndexFromXY c 3 4 - 1) mod 12 < 10"
proof -
  define c where "c = new_chain ''WS2812'' ''/dev/ledchain0'' 59 10 True True False True 1 2 0"
  have g: "grid_fits c" "in_grid c 3 4" "in_grid c 4 4" and v: "mInactiveStartLeds c = 1" "mLedsPerRow c = 10" "mInactiveBetweenLeds c = 2"
    unfolding c_def by code_simp+
  have "ledIndexFromXY c 4 4 = ledIndexFromXY c 3 4 \<Longrightarrow> (4 :: int) = 3 \<and> (4 :: int) = 4"
    using points_have_own_leds [OF g(1,2)] g(3) by blast
  then show ?thesis using points_have_own_leds [OF g(1,2)] v unfolding c_def [symmetric] Let_def by auto
qed

section \<open>Chains from specifications\<close>

text \<open>A specification whose area has enough LEDs, with numbers that fit into the members.\<close>

definition spec_fits :: "chain_spec \<Rightarrow> bool" where
  "spec_fits sp \<longleftrightarrow>
     0 < rdx (newCover sp) \<and> 0 < rdy (newCover sp) \<and> 0 \<le> inactiveStartLeds sp \<and> 0 \<le> inactiveBetweenLeds sp \<and>
     0 \<le> remainingInactive sp \<and> numleds sp < 65536"

lemma rows_arith:
  fixes w r b :: int
  assumes "0 < w" "0 < r" "0 \<le> b"
  shows "c_div (r * (w + b) - b - 1) (w + b) + 1 = r"
proof -
  define k where "k = w + b"
  have k: "0 < k" "b < k" using assms by (auto simp: k_def)
  have e: "r * k - b - 1 = (k - b - 1) + (r - 1) * k" by (simp add: algebra_simps)
  have nn: "0 \<le> r * k - b - 1" unfolding e using k assms by auto
  have "(k - b - 1) div k = 0" using k assms by auto
  then have "(r * k - b - 1) div k = r - 1" unfolding e using k by (subst div_mult_self1) auto
  then show ?thesis unfolding k_def [symmetric] c_div_def using nn by simp
qed

lemma new_chain_fields:
  "mNumLeds (new_chain t d n p xr al sw yr s b e) = n"
  "mInactiveStartLeds (new_chain t d n p xr al sw yr s b e) = s"
  "mInactiveBetweenLeds (new_chain t d n p xr al sw yr s b e) = b"
  "mInactiveEndLeds (new_chain t d n p xr al sw yr s b e) = e"
  "mXYSwap (new_chain t d n p xr al sw yr s b e) = sw"
  "p \<noteq> 0 \<Longrightarrow> mLedsPerRow (new_chain t d n p xr al sw yr s b e) = p"
  "p \<noteq> 0 \<Longrightarrow> mNumRows (new_chain t d n p xr al sw yr s b e) = to_uint16 (c_div (n - 1 - s - e) (p + b) + 1)"
  by (auto simp: new_chain_def split: prod.split)

lemma spec_chain_fields:
  "mNumLeds (spec_chain sp) = to_uint16 (numleds sp)"
  "mInactiveStartLeds (spec_chain sp) = inactiveStartLeds sp"
  "mInactiveBetweenLeds (spec_chain sp) = inactiveBetweenLeds sp"
  "mInactiveEndLeds (spec_chain sp) = to_uint16 (max 0 (remainingInactive sp))"
  "mXYSwap (spec_chain sp) = swapXY sp"
  by (auto simp: spec_chain_def setPowerConverter_def new_chain_fields Let_def split: option.split)

lemma spec_chain_rows:
  assumes "to_uint16 (if swapXY sp then rdy (newCover sp) else rdx (newCover sp)) \<noteq> 0"
  shows "mLedsPerRow (spec_chain sp) = to_uint16 (if swapXY sp then rdy (newCover sp) else rdx (newCover sp))"
    and "mNumRows (spec_chain sp) = to_uint16 (c_div (to_uint16 (numleds sp) - 1 - inactiveStartLeds sp -
           to_uint16 (max 0 (remainingInactive sp)))
           (to_uint16 (if swapXY sp then rdy (newCover sp) else rdx (newCover sp)) + inactiveBetweenLeds sp) + 1)"
  using assms by (auto simp: spec_chain_def setPowerConverter_def new_chain_fields Let_def split: option.split)

lemma spec_geometry:
  assumes sp: "spec_fits sp"
  defines "p \<equiv> (if swapXY sp then rdy (newCover sp) else rdx (newCover sp))"
    and "r \<equiv> (if swapXY sp then rdx (newCover sp) else rdy (newCover sp))"
  shows "mLedsPerRow (spec_chain sp) = p" "mNumRows (spec_chain sp) = r" "grid_fits (spec_chain sp)"
proof -
  define b where "b = inactiveBetweenLeds sp"
  define s where "s = inactiveStartLeds sp"
  define e where "e = remainingInactive sp"
  have pos: "0 < p" "0 < r" "0 \<le> b" "0 \<le> s" "0 \<le> e" "numleds sp < 65536"
    using sp by (auto simp: spec_fits_def p_def r_def b_def s_def e_def)
  have n: "numleds sp = s + (r * (p + b) - b) + e"
    by (simp add: e_def remainingInactive_def Let_def s_def b_def p_def r_def algebra_simps)
  have rp: "p \<le> r * (p + b) - b" "r \<le> r * (p + b) - b"
  proof -
    have x: "r * (p + b) - b = (r - 1) * (p + b) + p" by (simp add: algebra_simps)
    have "0 \<le> (r - 1) * (p + b)" "(r - 1) * 1 \<le> (r - 1) * (p + b)" using pos mult_left_mono [of 1 "p + b" "r - 1"] by auto
    then show "p \<le> r * (p + b) - b" "r \<le> r * (p + b) - b" unfolding x using pos by auto
  qed
  have u: "to_uint16 p = p" "to_uint16 r = r" "to_uint16 (numleds sp) = numleds sp" "to_uint16 (max 0 e) = e"
    using n rp pos by (auto intro!: to_uint16_id)
  have nz: "to_uint16 p \<noteq> 0" using u pos by simp
  note rows = spec_chain_rows [of sp, folded p_def, OF nz, folded b_def s_def e_def, unfolded u]
  show l: "mLedsPerRow (spec_chain sp) = p" by (rule rows)
  have "numleds sp - 1 - s - e = r * (p + b) - b - 1" using n by simp
  note m1 = this
  show m: "mNumRows (spec_chain sp) = r" unfolding rows(2) m1 rows_arith [OF pos(1,2,3)] u(2) by (rule HOL.refl)
  show "grid_fits (spec_chain sp)"
    unfolding grid_fits_def l m spec_chain_fields b_def [symmetric] s_def [symmetric] e_def [symmetric] u
    using pos n by simp
qed

text \<open>
  A chain made from a specification whose area has enough LEDs has exactly the size of that area, and each point of
  the area has an LED of its own in the active part of the chain.
\<close>
theorem specified_area_has_own_leds:
  assumes "sp = parse_spec c_exp aChainSpec default_spec" "spec_fits sp"
  shows "getSizeX (spec_chain sp) = rdx (newCover sp) \<and> getSizeY (spec_chain sp) = rdy (newCover sp) \<and>
    getNumLeds (spec_chain sp) = rdx (newCover sp) * rdy (newCover sp) \<and>
    inj_on (\<lambda>(x, y). ledIndexFromXY (spec_chain sp) x y) ({0..<rdx (newCover sp)} \<times> {0..<rdy (newCover sp)}) \<and>
    (\<forall>x y. 0 \<le> x \<and> x < rdx (newCover sp) \<and> 0 \<le> y \<and> y < rdy (newCover sp) \<longrightarrow>
       inactiveStartLeds sp \<le> ledIndexFromXY (spec_chain sp) x y \<and>
       ledIndexFromXY (spec_chain sp) x y < numleds sp - remainingInactive sp)"
proof -
  define c where "c = spec_chain sp"
  note geo = spec_geometry [OF assms(2), folded c_def]
  have "mXYSwap c = swapXY sp" by (simp add: c_def spec_chain_fields)
  then have sz: "getSizeX c = rdx (newCover sp)" "getSizeY c = rdy (newCover sp)"
    by (auto simp: getSizeX_def getSizeY_def geo)
  have area: "0 < rdx (newCover sp) * rdy (newCover sp)" using assms(2) by (simp add: spec_fits_def)
  have rem: "numleds sp - remainingInactive sp - inactiveStartLeds sp - (mNumRows c - 1) * inactiveBetweenLeds sp
      = rdx (newCover sp) * rdy (newCover sp)"
    by (simp add: geo remainingInactive_def Let_def)
  have pos: "0 \<le> (mNumRows c - 1) * inactiveBetweenLeds sp" "0 \<le> remainingInactive sp" "0 \<le> inactiveStartLeds sp" "numleds sp < 65536"
    using assms(2) by (auto simp: geo spec_fits_def)
  have u: "to_uint16 (numleds sp) = numleds sp" "to_uint16 (max 0 (remainingInactive sp)) = remainingInactive sp"
    using pos rem area by (auto intro!: to_uint16_id)
  have n: "getNumLeds c = rdx (newCover sp) * rdy (newCover sp)"
  proof -
    have "to_uint16 (rdx (newCover sp) * rdy (newCover sp)) = rdx (newCover sp) * rdy (newCover sp)"
      using pos rem area by (intro to_uint16_id) linarith+
    then show ?thesis using rem by (simp add: getNumLeds_def c_def spec_chain_fields u algebra_simps)
  qed
  have g: "in_grid c x y" if "0 \<le> x" "x < rdx (newCover sp)" "0 \<le> y" "y < rdy (newCover sp)" for x y
    using that by (simp add: in_grid_def sz)
  have own: "x' = x \<and> y' = y" if "in_grid c x y" "in_grid c x' y'" "ledIndexFromXY c x y = ledIndexFromXY c x' y'" for x y x' y'
    using led_index_place [OF geo(3) that(1)] led_index_place [OF geo(3) that(2)] that(3) by (intro wire_inj [of c x' y' x y]) simp_all
  have i: "inj_on (\<lambda>(x, y). ledIndexFromXY c x y) ({0..<rdx (newCover sp)} \<times> {0..<rdy (newCover sp)})"
  proof (rule inj_onI)
    fix a b
    assume "a \<in> {0..<rdx (newCover sp)} \<times> {0..<rdy (newCover sp)}" "b \<in> {0..<rdx (newCover sp)} \<times> {0..<rdy (newCover sp)}"
      and e: "(\<lambda>(x, y). ledIndexFromXY c x y) a = (\<lambda>(x, y). ledIndexFromXY c x y) b"
    then have "in_grid c (fst a) (snd a)" "in_grid c (fst b) (snd b)" by (auto intro: g)
    then have "fst b = fst a \<and> snd b = snd a" using e by (intro own) (auto simp: case_prod_beta)
    then show "a = b" by (simp add: prod_eq_iff)
  qed
  have b: "inactiveStartLeds sp \<le> ledIndexFromXY c x y \<and> ledIndexFromXY c x y < numleds sp - remainingInactive sp"
    if "0 \<le> x" "x < rdx (newCover sp)" "0 \<le> y" "y < rdy (newCover sp)" for x y
    using led_index(2,3) [OF geo(3) g [OF that]] by (simp add: c_def spec_chain_fields u)
  show ?thesis unfolding c_def [symmetric] using sz n i b by blast
qed

theorem specified_area_has_own_leds_witness:
  "getNumLeds (spec_chain (parse_spec (\<lambda>x. x) ''WS2812:/dev/ledchain0:100:0:10:0:5:1:2:SA'' default_spec)) = 50"
proof -
  have "spec_fits (parse_spec (\<lambda>x. x) ''WS2812:/dev/ledchain0:100:0:10:0:5:1:2:SA'' default_spec)"
    "rdx (newCover (parse_spec (\<lambda>x. x) ''WS2812:/dev/ledchain0:100:0:10:0:5:1:2:SA'' default_spec)) = 10"
    "rdy (newCover (parse_spec (\<lambda>x. x) ''WS2812:/dev/ledchain0:100:0:10:0:5:1:2:SA'' default_spec)) = 5" by code_simp+
  with specified_area_has_own_leds [OF HOL.refl this(1)] show ?thesis by simp
qed

end
