(* ===== verification/LedLaws.thy ===== *)
theory LedLaws
  imports LedGrid
begin

text \<open>
  What rendering promises: every point of the view is found in the bytes of its LED and no other byte changes; the
  rectangle of the arrangement encloses the chains; the limit of the power consumption is kept up to rounding.
\<close>

section \<open>The bytes of an LED\<close>

definition led_size :: "LEDChainComm \<Rightarrow> nat" where
  "led_size c = mNumColorComponents c * mNumBytesPerComponent c"

definition led_at :: "LEDChainComm \<Rightarrow> u8 list \<Rightarrow> int \<Rightarrow> u8 list" where
  "led_at c buf i = take (led_size c) (drop (mLedBuffer c + led_size c * nat i) buf)"

text \<open>A driver with its buffer.\<close>

definition driver_ok :: "LEDChainComm \<Rightarrow> bool" where
  "driver_ok c \<longleftrightarrow>
     mChainDriver c = None \<and> mNumColorComponents c \<in> {3, 4} \<and> mNumBytesPerComponent c \<in> {1, 2} \<and> 0 \<le> mNumLeds c \<and>
     (case mRawBuffer c of None \<Rightarrow> False | Some buf \<Rightarrow> length buf = mLedBuffer c + led_data_size c)"

definition buffer :: "LEDChainComm \<Rightarrow> u8 list" where
  "buffer c = (case mRawBuffer c of None \<Rightarrow> [] | Some b \<Rightarrow> b)"

lemma begun_driver_ok:
  "mChainDriver (begin_driver o_ok u_ok (new_chain t d n p xr al sw yr s b e)) = None"
  "0 \<le> n \<Longrightarrow> driver_ok (begin_driver o_ok u_ok (new_chain t d n p xr al sw yr s b e))"
proof -
  have "numBytesPerChannel (ledChipDescriptors k) \<in> {1, 2}" for k by (cases k) (auto simp: chip_def)
  then show "0 \<le> n \<Longrightarrow> driver_ok (begin_driver o_ok u_ok (new_chain t d n p xr al sw yr s b e))"
    by (auto simp: driver_ok_def begin_driver_def new_chain_def Let_def led_data_size_def split: prod.split)
qed (auto simp: begin_driver_def new_chain_def Let_def split: prod.split)

lemma led_bytes_length: "driver_ok c \<Longrightarrow> length (led_bytes c p) = led_size c"
  by (auto simp: driver_ok_def led_bytes_def led_size_def Let_def)

lemma byteindex_size: "driver_ok c \<Longrightarrow> led_byteindex c i = led_size c * nat i"
  by (auto simp: driver_ok_def led_byteindex_def led_size_def)

lemma led_size_pos: "driver_ok c \<Longrightarrow> 0 < led_size c"
  by (auto simp: driver_ok_def led_size_def)

lemma write_bytes_nth:
  "i + length bs \<le> length buf \<Longrightarrow>
    \<exists>out. write_bytes i bs buf = Some out \<and> length out = length buf \<and>
      (\<forall>n < length buf. out ! n = (if i \<le> n \<and> n < i + length bs then bs ! (n - i) else buf ! n))"
proof (induction bs arbitrary: i buf)
  case (Cons b bs)
  then have le: "Suc i + length bs \<le> length (buf[i := b])" and lt: "i < length buf" by auto
  from Cons.IH [OF le] obtain out where o: "write_bytes (Suc i) bs (buf[i := b]) = Some out" "length out = length buf"
    and n: "\<forall>n < length buf. out ! n = (if Suc i \<le> n \<and> n < Suc i + length bs then bs ! (n - Suc i) else buf[i := b] ! n)" by auto
  have "out ! n = (if i \<le> n \<and> n < i + length (b # bs) then (b # bs) ! (n - i) else buf ! n)" if "n < length buf" for n
    using n that by (cases "n = i") (auto simp: nth_Cons' less_Suc_eq)
  with o lt show ?case by auto
qed auto

lemma store_led_bytes:
  assumes ok: "driver_ok c" and i: "0 \<le> i" "i < mNumLeds c"
  shows "\<exists>out. store_led i p c = Some (c\<lparr>mRawBuffer := Some out\<rparr>) \<and> driver_ok (c\<lparr>mRawBuffer := Some out\<rparr>) \<and>
    led_at c out i = led_bytes c p \<and> take (mLedBuffer c) out = take (mLedBuffer c) (buffer c) \<and>
    (\<forall>j. 0 \<le> j \<and> j \<noteq> i \<longrightarrow> led_at c out j = led_at c (buffer c) j)"
proof -
  define z where "z = led_size c"
  define m where "m = mLedBuffer c"
  obtain buf where b: "mRawBuffer c = Some buf" "length buf = m + led_data_size c"
    using ok by (auto simp: driver_ok_def m_def split: option.splits)
  have sz: "led_data_size c = z * nat (mNumLeds c)" by (simp add: led_data_size_def z_def led_size_def)
  have zp: "0 < z" unfolding z_def by (rule led_size_pos [OF ok])
  have lb: "length (led_bytes c p) = z" unfolding z_def by (rule led_bytes_length [OF ok])
  have "z * nat i + z \<le> z * nat (mNumLeds c)"
    using mult_le_mono2 [of "nat i + 1" "nat (mNumLeds c)" z] i by (simp add: Suc_le_eq)
  then have le: "m + z * nat i + length (led_bytes c p) \<le> length buf" using b sz lb by simp
  from write_bytes_nth [OF le] obtain out where w: "write_bytes (m + z * nat i) (led_bytes c p) buf = Some out" "length out = length buf"
    and n: "\<And>n. n < length buf \<Longrightarrow> out ! n = (if m + z * nat i \<le> n \<and> n < m + z * nat i + z then led_bytes c p ! (n - (m + z * nat i)) else buf ! n)"
    unfolding lb by blast
  have st: "store_led i p c = Some (c\<lparr>mRawBuffer := Some out\<rparr>)"
    using i w by (simp add: store_led_def b byteindex_size [OF ok] z_def m_def)
  have dok: "driver_ok (c\<lparr>mRawBuffer := Some out\<rparr>)" using ok w(2) b by (simp add: driver_ok_def led_data_size_def m_def)
  have own: "led_at c out i = led_bytes c p"
    unfolding led_at_def z_def [symmetric] m_def [symmetric] using lb le w(2) by (intro nth_equalityI) (auto simp: n)
  have hdr: "take m out = take m (buffer c)"
    using w(2) by (intro nth_equalityI) (auto simp: n buffer_def b)
  have oth: "led_at c out j = led_at c (buffer c) j" if "0 \<le> j" "j \<noteq> i" for j
  proof (rule nth_equalityI)
    show "length (led_at c out j) = length (led_at c (buffer c) j)" by (simp add: led_at_def buffer_def b w)
  next
    fix t
    assume t: "t < length (led_at c out j)"
    then have tz: "t < z" "m + z * nat j + t < length buf" by (auto simp: led_at_def z_def [symmetric] m_def [symmetric] w)
    have "nat i \<noteq> nat j" using that i by auto
    have d: "(z * nat j + t) div z = nat j" using tz zp by simp
    have "\<not> (m + z * nat i \<le> m + z * nat j + t \<and> m + z * nat j + t < m + z * nat i + z)"
    proof
      assume "m + z * nat i \<le> m + z * nat j + t \<and> m + z * nat j + t < m + z * nat i + z"
      then have "(z * nat j + t) div z = nat i" by (intro div_nat_eqI) (auto simp: algebra_simps)
      with d \<open>nat i \<noteq> nat j\<close> show False by simp
    qed
    then have "out ! (m + z * nat j + t) = buf ! (m + z * nat j + t)" using n [OF tz(2)] by (simp only: if_False)
    then show "led_at c out j ! t = led_at c (buffer c) j ! t"
      using tz w(2) by (simp add: led_at_def z_def [symmetric] m_def [symmetric] buffer_def b)
  qed
  from st dok own hdr oth show ?thesis by (auto simp: m_def)
qed

section \<open>Rendering a chain\<close>

text \<open>The chain \<open>k\<close> puts out through \<open>d\<close>, which is the chain itself or its driver.\<close>

definition puts_out :: "chains \<Rightarrow> nat \<Rightarrow> nat \<Rightarrow> bool" where
  "puts_out cs k d \<longleftrightarrow>
     k < length cs \<and> d < length cs \<and> driver_ok (cs ! d) \<and> (k = d \<or> mChainDriver (cs ! k) = Some d) \<and>
     grid_fits (cs ! k) \<and> mNumLeds (cs ! k) \<le> mNumLeds (cs ! d)"

lemma setPowerAtLedIndex_driver:
  assumes "puts_out cs k d"
  shows "setPowerAtLedIndex k i p cs = map_option (\<lambda>c. cs[d := c]) (store_led i p (cs ! d))"
proof -
  have d: "setPowerAtLedIndex d i p cs = map_option (\<lambda>c. cs[d := c]) (store_led i p (cs ! d))"
    using assms by (subst setPowerAtLedIndex.simps) (simp add: puts_out_def driver_ok_def)
  show ?thesis
  proof (cases "k = d")
    case False
    with assms have "setPowerAtLedIndex k i p cs = setPowerAtLedIndex d i p cs"
      by (subst setPowerAtLedIndex.simps) (simp add: puts_out_def)
    then show ?thesis by (simp add: d)
  qed (simp add: d)
qed

lemma set_buffer_geometry [simp]:
  "ledIndexFromXY (c\<lparr>mRawBuffer := b\<rparr>) x y = ledIndexFromXY c x y"
  "in_grid (c\<lparr>mRawBuffer := b\<rparr>) x y = in_grid c x y"
  "led_at (c\<lparr>mRawBuffer := b\<rparr>) buf j = led_at c buf j"
  "led_bytes (c\<lparr>mRawBuffer := b\<rparr>) p = led_bytes c p"
  "buffer (c\<lparr>mRawBuffer := Some out\<rparr>) = out"
  by (simp_all add: ledIndexFromXY_def in_grid_def getSizeX_def getSizeY_def led_at_def led_size_def led_bytes_def buffer_def
      cong: if_cong)

lemma setPowerXY_led:
  assumes po: "puts_out cs k d" and g: "in_grid (cs ! k) x y"
  defines "i \<equiv> ledIndexFromXY (cs ! k) x y"
  shows "\<exists>out. setPowerXY k x y p cs = Some (cs[d := (cs ! d)\<lparr>mRawBuffer := Some out\<rparr>]) \<and>
    puts_out (cs[d := (cs ! d)\<lparr>mRawBuffer := Some out\<rparr>]) k d \<and>
    led_at (cs ! d) out i = led_bytes (cs ! d) p \<and> take (mLedBuffer (cs ! d)) out = take (mLedBuffer (cs ! d)) (buffer (cs ! d)) \<and>
    (\<forall>j. 0 \<le> j \<and> j \<noteq> i \<longrightarrow> led_at (cs ! d) out j = led_at (cs ! d) (buffer (cs ! d)) j)"
proof -
  have f: "grid_fits (cs ! k)" and ok: "driver_ok (cs ! d)" and le: "mNumLeds (cs ! k) \<le> mNumLeds (cs ! d)"
    using po by (auto simp: puts_out_def)
  have "0 \<le> i" "i < mNumLeds (cs ! d)"
    using led_index(2,3) [OF f g] f le by (auto simp: i_def grid_fits_def)
  from store_led_bytes [OF ok this] obtain out where o: "store_led i p (cs ! d) = Some ((cs ! d)\<lparr>mRawBuffer := Some out\<rparr>)"
    "driver_ok ((cs ! d)\<lparr>mRawBuffer := Some out\<rparr>)" "led_at (cs ! d) out i = led_bytes (cs ! d) p"
    "take (mLedBuffer (cs ! d)) out = take (mLedBuffer (cs ! d)) (buffer (cs ! d))"
    "\<forall>j. 0 \<le> j \<and> j \<noteq> i \<longrightarrow> led_at (cs ! d) out j = led_at (cs ! d) (buffer (cs ! d)) j" by blast
  have s: "setPowerXY k x y p cs = Some (cs[d := (cs ! d)\<lparr>mRawBuffer := Some out\<rparr>])"
    by (simp add: setPowerXY_def setPowerAtLedIndex_driver [OF po] i_def [symmetric] o(1))
  have "puts_out (cs[d := (cs ! d)\<lparr>mRawBuffer := Some out\<rparr>]) k d"
    using po o(2) by (cases "k = d") (auto simp: puts_out_def grid_fits_def)
  with s o show ?thesis by blast
qed

lemma set_same_buffer: "mRawBuffer c = Some b \<Longrightarrow> c\<lparr>mRawBuffer := Some b\<rparr> = c"
  by (cases c) simp

lemma grid_bound:
  assumes "grid_fits c" "in_grid c x y"
  shows "x < 65536" "y < 65536"
proof -
  have "mLedsPerRow c < 65536"
  proof -
    have "0 \<le> (mNumRows c - 1) * (mLedsPerRow c + mInactiveBetweenLeds c)" using assms(1) by (simp add: grid_fits_def)
    moreover have "mNumRows c * (mLedsPerRow c + mInactiveBetweenLeds c) - mInactiveBetweenLeds c
        = (mNumRows c - 1) * (mLedsPerRow c + mInactiveBetweenLeds c) + mLedsPerRow c" by (simp add: algebra_simps)
    ultimately show ?thesis using assms(1) unfolding grid_fits_def by linarith
  qed
  then show "x < 65536" "y < 65536"
    using assms rows_bound [OF assms(1)] by (auto simp: in_grid_def getSizeX_def getSizeY_def split: if_splits)
qed

lemma render_points_shows:
  assumes "puts_out cs k d" "ledChain l = k" "offset l = (0, 0)"
    and "\<forall>(x, y) \<in> set ps. in_grid (cs ! k) x y" "distinct ps"
  shows "\<exists>out m'. render_points pw D l ps (cs, m) = Some (cs[d := (cs ! d)\<lparr>mRawBuffer := Some out\<rparr>], m') \<and>
    puts_out (cs[d := (cs ! d)\<lparr>mRawBuffer := Some out\<rparr>]) k d \<and>
    (\<forall>(x, y) \<in> set ps. led_at (cs ! d) out (ledIndexFromXY (cs ! k) x y) =
       led_bytes (cs ! d) (pw (rx (covers l) + x) (ry (covers l) + y))) \<and>
    take (mLedBuffer (cs ! d)) out = take (mLedBuffer (cs ! d)) (buffer (cs ! d)) \<and>
    (\<forall>j. 0 \<le> j \<and> j \<notin> (\<lambda>(x, y). ledIndexFromXY (cs ! k) x y) ` set ps \<longrightarrow>
       led_at (cs ! d) out j = led_at (cs ! d) (buffer (cs ! d)) j)"
  using assms
proof (induction ps arbitrary: cs m)
  case Nil
  then obtain b where "mRawBuffer (cs ! d) = Some b" by (auto simp: puts_out_def driver_ok_def split: option.splits)
  then have "cs[d := (cs ! d)\<lparr>mRawBuffer := Some b\<rparr>] = cs" "buffer (cs ! d) = b" by (auto simp: buffer_def set_same_buffer)
  with Nil show ?case by (intro exI [of _ b] exI [of _ m]) auto
next
  case (Cons q ps)
  obtain x y where q: "q = (x, y)" by (cases q)
  have g: "in_grid (cs ! k) x y" and po: "puts_out cs k d" using Cons.prems q by auto
  have f: "grid_fits (cs ! k)" using po by (simp add: puts_out_def)
  have xy: "to_uint16 x = x" "to_uint16 y = y"
    using grid_bound [OF f g] g by (auto simp: in_grid_def intro!: to_uint16_id)
  define p where "p = pw (rx (covers l) + x) (ry (covers l) + y)"
  obtain o1 where o1: "setPowerXY k x y p cs = Some (cs[d := (cs ! d)\<lparr>mRawBuffer := Some o1\<rparr>])"
    "puts_out (cs[d := (cs ! d)\<lparr>mRawBuffer := Some o1\<rparr>]) k d"
    "led_at (cs ! d) o1 (ledIndexFromXY (cs ! k) x y) = led_bytes (cs ! d) p"
    "take (mLedBuffer (cs ! d)) o1 = take (mLedBuffer (cs ! d)) (buffer (cs ! d))"
    "\<forall>j. 0 \<le> j \<and> j \<noteq> ledIndexFromXY (cs ! k) x y \<longrightarrow> led_at (cs ! d) o1 j = led_at (cs ! d) (buffer (cs ! d)) j"
    using setPowerXY_led [OF po g, of p] by blast
  define cs1 where "cs1 = cs[d := (cs ! d)\<lparr>mRawBuffer := Some o1\<rparr>]"
  have dl: "d < length cs" "k < length cs" using po by (auto simp: puts_out_def)
  have d1: "cs1 ! d = (cs ! d)\<lparr>mRawBuffer := Some o1\<rparr>" using dl by (simp add: cs1_def)
  have k1: "ledIndexFromXY (cs1 ! k) = ledIndexFromXY (cs ! k)" "in_grid (cs1 ! k) = in_grid (cs ! k)"
    using dl by (cases "k = d"; auto simp: cs1_def fun_eq_iff)+
  define m1 where "m1 = m\<lparr>idlePowerMw := idlePowerMw m + word_of_nat (idleChipMw D),
                lightPowerPWM := lightPowerPWM m + light_pwm D p,
                lightPowerPWMWhite := lightPowerPWMWhite m + ucast (Pw p)\<rparr>"
  have step: "render_points pw D l (q # ps) (cs, m) = render_points pw D l ps (cs1, m1)"
    using Cons.prems(2,3) o1(1) by (simp add: q xy p_def [symmetric] m1_def cs1_def Let_def)
  obtain out m' where r: "render_points pw D l ps (cs1, m1) = Some (cs1[d := (cs1 ! d)\<lparr>mRawBuffer := Some out\<rparr>], m')"
    "puts_out (cs1[d := (cs1 ! d)\<lparr>mRawBuffer := Some out\<rparr>]) k d"
    "\<forall>(x, y) \<in> set ps. led_at (cs ! d) out (ledIndexFromXY (cs ! k) x y) =
       led_bytes (cs ! d) (pw (rx (covers l) + x) (ry (covers l) + y))"
    "take (mLedBuffer (cs ! d)) out = take (mLedBuffer (cs ! d)) o1"
    "\<forall>j. 0 \<le> j \<and> j \<notin> (\<lambda>(x, y). ledIndexFromXY (cs ! k) x y) ` set ps \<longrightarrow>
       led_at (cs ! d) out j = led_at (cs ! d) o1 j"
    using Cons.IH [of cs1 m1] Cons.prems o1(2) unfolding cs1_def [symmetric] k1 d1 by auto
  have c: "cs1[d := (cs1 ! d)\<lparr>mRawBuffer := Some out\<rparr>] = cs[d := (cs ! d)\<lparr>mRawBuffer := Some out\<rparr>]"
    unfolding d1 by (simp add: cs1_def)
  have fresh: "ledIndexFromXY (cs ! k) x y \<notin> (\<lambda>(x, y). ledIndexFromXY (cs ! k) x y) ` set ps"
  proof
    assume "ledIndexFromXY (cs ! k) x y \<in> (\<lambda>(x, y). ledIndexFromXY (cs ! k) x y) ` set ps"
    then obtain x' y' where i: "(x', y') \<in> set ps" "ledIndexFromXY (cs ! k) x' y' = ledIndexFromXY (cs ! k) x y" by auto
    then have g': "in_grid (cs ! k) x' y'" using Cons.prems(4) by auto
    have "x' = x \<and> y' = y"
      using led_index_place [OF f g] led_index_place [OF f g'] i(2) by (intro wire_inj [of "cs ! k" x' y' x y]) auto
    then show False using i(1) Cons.prems(5) q by auto
  qed
  have i0: "0 \<le> ledIndexFromXY (cs ! k) x y" using led_index(2) [OF f g] f by (auto simp: grid_fits_def)
  have own: "led_at (cs ! d) out (ledIndexFromXY (cs ! k) x y) = led_bytes (cs ! d) p"
    using r(5) fresh i0 o1(3) by simp
  show ?case unfolding step r(1) c using r(2) [unfolded c] r(3,4,5) o1(4,5) own by (auto simp: q p_def)
qed

lemma cover_points_set: "set (cover_points l) = {0..<rdx (covers l)} \<times> {0..<rdy (covers l)}"
  by (auto simp: cover_points_def)

lemma distinct_grid: "distinct xs \<Longrightarrow> distinct ys \<Longrightarrow> distinct [(x, y). x \<leftarrow> xs, y \<leftarrow> ys]"
  by (induction xs) (auto simp: distinct_map inj_on_def)

lemma cover_points_distinct: "distinct (cover_points l)"
  unfolding cover_points_def by (rule distinct_grid) simp_all

text \<open>C32: Rendering a chain puts every point of its area into the bytes of the LED of that point, as its powers say, in the
  buffer of the chain or of the driver chain it is a mapping of; it does not touch the header and no other LED of
  that buffer. Supposed is that the driver has started (there is a buffer for its LEDs), that the grid of the chain lies within
  the active LEDs of the chain and these within the LEDs of the driver, that the area is no larger than the grid, and that it begins at
  its first point (offset 0, the only one that chains made from a specification have). The powers can be
  any function of the point, so no two points of the area share an LED.\<close>

theorem rendered_area_is_in_the_buffer:
  assumes "puts_out cs (ledChain l) d" "offset l = (0, 0)"
    and "rdx (covers l) \<le> getSizeX (cs ! ledChain l)" "rdy (covers l) \<le> getSizeY (cs ! ledChain l)"
  shows "\<exists>out m'. render_points pw D l (cover_points l) (cs, m) = Some (cs[d := (cs ! d)\<lparr>mRawBuffer := Some out\<rparr>], m') \<and>
    (\<forall>x y. 0 \<le> x \<and> x < rdx (covers l) \<and> 0 \<le> y \<and> y < rdy (covers l) \<longrightarrow>
       led_at (cs ! d) out (ledIndexFromXY (cs ! ledChain l) x y) =
         led_bytes (cs ! d) (pw (rx (covers l) + x) (ry (covers l) + y))) \<and>
    take (mLedBuffer (cs ! d)) out = take (mLedBuffer (cs ! d)) (buffer (cs ! d)) \<and>
    (\<forall>j. 0 \<le> j \<and> j \<notin> (\<lambda>(x, y). ledIndexFromXY (cs ! ledChain l) x y) ` ({0..<rdx (covers l)} \<times> {0..<rdy (covers l)}) \<longrightarrow>
       led_at (cs ! d) out j = led_at (cs ! d) (buffer (cs ! d)) j)"
proof -
  have "\<forall>(x, y) \<in> set (cover_points l). in_grid (cs ! ledChain l) x y"
    using assms(3,4) by (auto simp: cover_points_set in_grid_def)
  from render_points_shows [OF assms(1) HOL.refl assms(2) this cover_points_distinct] obtain out m' where
    r: "render_points pw D l (cover_points l) (cs, m) = Some (cs[d := (cs ! d)\<lparr>mRawBuffer := Some out\<rparr>], m')"
    "\<forall>(x, y) \<in> set (cover_points l). led_at (cs ! d) out (ledIndexFromXY (cs ! ledChain l) x y) =
       led_bytes (cs ! d) (pw (rx (covers l) + x) (ry (covers l) + y))"
    "take (mLedBuffer (cs ! d)) out = take (mLedBuffer (cs ! d)) (buffer (cs ! d))"
    "\<forall>j. 0 \<le> j \<and> j \<notin> (\<lambda>(x, y). ledIndexFromXY (cs ! ledChain l) x y) ` set (cover_points l) \<longrightarrow>
       led_at (cs ! d) out j = led_at (cs ! d) (buffer (cs ! d)) j" by blast
  have own: "led_at (cs ! d) out (ledIndexFromXY (cs ! ledChain l) x y) =
       led_bytes (cs ! d) (pw (rx (covers l) + x) (ry (covers l) + y))"
    if "0 \<le> x" "x < rdx (covers l)" "0 \<le> y" "y < rdy (covers l)" for x y
    using r(2) that unfolding cover_points_set by auto
  show ?thesis using r(1) own r(3) r(4) [unfolded cover_points_set] by blast
qed

definition small_chains :: chains where
  "small_chains =
     [begin_driver (\<lambda>_. True) (\<lambda>_. True) (new_chain ''WS2812'' ''/dev/ledchain0'' 6 2 True True False False 1 0 1)]"

theorem rendered_area_is_in_the_buffer_witness:
  "\<exists>out m'. render_points (\<lambda>x y. \<lparr>Pr = 0xFFFF, Pg = word_of_int (256 * x), Pb = word_of_int (256 * y), Pw = 0\<rparr>)
      (ledChipDescriptors ledchip_ws2812) \<lparr>ledChain = 0, covers = \<lparr>rx = 5, ry = 7, rdx = 2, rdy = 2\<rparr>, offset = (0, 0)\<rparr>
      [(0, 0), (0, 1), (1, 0), (1, 1)] (small_chains, \<lparr>idlePowerMw = 0, lightPowerPWM = 0, lightPowerPWMWhite = 0\<rparr>)
      = Some (small_chains[0 := (small_chains ! 0)\<lparr>mRawBuffer := Some out\<rparr>], m') \<and>
    led_at (small_chains ! 0) out (ledIndexFromXY (small_chains ! 0) 1 1) = [0xFF, 6, 8]"
proof -
  define l where "l = \<lparr>ledChain = 0 :: nat, covers = \<lparr>rx = 5, ry = 7, rdx = 2, rdy = 2\<rparr>, offset = (0 :: int, 0 :: int)\<rparr>"
  define pw where "pw = (\<lambda>x y. \<lparr>Pr = 0xFFFF :: power, Pg = word_of_int (256 * x), Pb = word_of_int (256 * y), Pw = 0\<rparr>)"
  have p: "puts_out small_chains (ledChain l) 0" "offset l = (0, 0)" "rdx (covers l) \<le> getSizeX (small_chains ! ledChain l)"
    "rdy (covers l) \<le> getSizeY (small_chains ! ledChain l)" "cover_points l = [(0, 0), (0, 1), (1, 0), (1, 1)]"
    "led_bytes (small_chains ! 0) (pw 6 8) = [0xFF, 6, 8]"
    unfolding l_def pw_def by code_simp+
  have v: "rdx (covers l) = 2" "rdy (covers l) = 2" "rx (covers l) = 5" "ry (covers l) = 7" "ledChain l = 0" by (simp_all add: l_def)
  from rendered_area_is_in_the_buffer [OF p(1-4), of pw "ledChipDescriptors ledchip_ws2812" "\<lparr>idlePowerMw = 0, lightPowerPWM = 0, lightPowerPWMWhite = 0\<rparr>"]
  obtain out m' where r: "render_points pw (ledChipDescriptors ledchip_ws2812) l (cover_points l)
      (small_chains, \<lparr>idlePowerMw = 0, lightPowerPWM = 0, lightPowerPWMWhite = 0\<rparr>)
      = Some (small_chains[0 := (small_chains ! 0)\<lparr>mRawBuffer := Some out\<rparr>], m')"
    and b: "\<forall>x y. 0 \<le> x \<and> x < 2 \<and> 0 \<le> y \<and> y < 2 \<longrightarrow>
      led_at (small_chains ! 0) out (ledIndexFromXY (small_chains ! 0) x y) = led_bytes (small_chains ! 0) (pw (5 + x) (7 + y))"
    unfolding v by blast
  have "led_at (small_chains ! 0) out (ledIndexFromXY (small_chains ! 0) 1 1) = [0xFF, 6, 8]"
    using b [rule_format, of 1 1] p(6) by simp
  with r show ?thesis unfolding p(5) unfolding l_def pw_def by blast
qed

end
