(* ===== verification/LedPower.thy ===== *)
theory LedPower
  imports LedLaws
begin

text \<open>
  The rectangle covered by the arrangement, and the limit of the power consumption: how far the power after dimming
  can be above the limit, and when the limit has no effect.
\<close>

section \<open>The covered rectangle\<close>

definition has_area :: "LEDChainFixture \<Rightarrow> bool" where
  "has_area l \<longleftrightarrow> rdx (covers l) > 0 \<and> rdy (covers l) > 0"

definition encloses :: "PixelRect \<Rightarrow> PixelRect \<Rightarrow> bool" where
  "encloses m r \<longleftrightarrow> rx m \<le> rx r \<and> ry m \<le> ry r \<and> rx r + rdx r \<le> rx m + rdx m \<and> ry r + rdy r \<le> ry m + rdy m"

lemma cover_chain_grows:
  assumes "0 \<le> rdx m" "0 \<le> rdy m"
  shows "0 \<le> rdx (cover_chain m l) \<and> 0 \<le> rdy (cover_chain m l)"
    and "0 < rdx m \<Longrightarrow> 0 < rdx (cover_chain m l) \<and> rx (cover_chain m l) \<le> rx m"
    and "0 < rdy m \<Longrightarrow> 0 < rdy (cover_chain m l) \<and> ry (cover_chain m l) \<le> ry m"
    and "has_area l \<Longrightarrow> 0 < rdx (cover_chain m l) \<and> rx (cover_chain m l) \<le> rx (covers l)"
    and "has_area l \<Longrightarrow> 0 < rdy (cover_chain m l) \<and> ry (cover_chain m l) \<le> ry (covers l)"
  using assms by (auto simp: cover_chain_def has_area_def Let_def)

lemma covers_grow:
  assumes "0 \<le> rdx m" "0 \<le> rdy m"
  shows "0 \<le> rdx (foldl cover_chain m ls) \<and> 0 \<le> rdy (foldl cover_chain m ls) \<and>
    (0 < rdx m \<longrightarrow> 0 < rdx (foldl cover_chain m ls) \<and> rx (foldl cover_chain m ls) \<le> rx m) \<and>
    (0 < rdy m \<longrightarrow> 0 < rdy (foldl cover_chain m ls) \<and> ry (foldl cover_chain m ls) \<le> ry m) \<and>
    (\<forall>l \<in> set ls. has_area l \<longrightarrow> 0 < rdx (foldl cover_chain m ls) \<and> 0 < rdy (foldl cover_chain m ls) \<and>
       rx (foldl cover_chain m ls) \<le> rx (covers l) \<and> ry (foldl cover_chain m ls) \<le> ry (covers l))"
  using assms
proof (induction ls arbitrary: m)
  case (Cons l ls)
  have n: "0 \<le> rdx (cover_chain m l)" "0 \<le> rdy (cover_chain m l)" using cover_chain_grows(1) [OF Cons.prems] by auto
  note ih = Cons.IH [OF n]
  show ?case using ih cover_chain_grows(2-5) [OF Cons.prems, of l] by (auto intro: order_trans)
qed simp

text \<open>When the left and upper edges are right already, the other ones follow.\<close>

lemma covers_enclose:
  assumes "\<forall>l \<in> set ls. has_area l \<longrightarrow> 0 < rdx m \<and> 0 < rdy m \<and> rx m \<le> rx (covers l) \<and> ry m \<le> ry (covers l)"
  shows "rx (foldl cover_chain m ls) = rx m \<and> ry (foldl cover_chain m ls) = ry m \<and>
    rdx m \<le> rdx (foldl cover_chain m ls) \<and> rdy m \<le> rdy (foldl cover_chain m ls) \<and>
    (\<forall>l \<in> set ls. has_area l \<longrightarrow> encloses (foldl cover_chain m ls) (covers l))"
  using assms
proof (induction ls arbitrary: m)
  case (Cons l ls)
  have one: "rx (cover_chain m l) = rx m \<and> ry (cover_chain m l) = ry m \<and> rdx m \<le> rdx (cover_chain m l) \<and>
      rdy m \<le> rdy (cover_chain m l) \<and> (has_area l \<longrightarrow> encloses (cover_chain m l) (covers l))"
    using Cons.prems by (auto simp: cover_chain_def has_area_def encloses_def Let_def)
  then have "\<forall>k \<in> set ls. has_area k \<longrightarrow> 0 < rdx (cover_chain m l) \<and> 0 < rdy (cover_chain m l) \<and>
      rx (cover_chain m l) \<le> rx (covers k) \<and> ry (cover_chain m l) \<le> ry (covers k)"
    using Cons.prems by fastforce
  from Cons.IH [OF this] one show ?case by (auto simp: encloses_def)
qed simp

text \<open>
  After chains were added, the rectangle of the arrangement begins at the leftmost and topmost chain, but it
  encloses all chains for certain only after it has been calculated once more: where a later chain
  moved the left or upper edge, the width or height is not adapted at first.
\<close>
theorem cover_encloses_when_recalculated:
  assumes "0 \<le> rdx (mCovers a)" "0 \<le> rdy (mCovers a)" "l \<in> set (mLedChains a)" "0 < rdx (covers l)" "0 < rdy (covers l)"
  shows "rx (mCovers (recalculateCover a)) \<le> rx (covers l) \<and> ry (mCovers (recalculateCover a)) \<le> ry (covers l) \<and>
    encloses (mCovers (recalculateCover (recalculateCover a))) (covers l)"
proof -
  define m where "m = foldl cover_chain (mCovers a) (mLedChains a)"
  have ar: "has_area l" using assms(4,5) by (simp add: has_area_def)
  have g: "\<forall>l \<in> set (mLedChains a). has_area l \<longrightarrow> 0 < rdx m \<and> 0 < rdy m \<and> rx m \<le> rx (covers l) \<and> ry m \<le> ry (covers l)"
    using covers_grow [OF assms(1,2)] by (auto simp: m_def)
  from covers_enclose [OF g] have "encloses (foldl cover_chain m (mLedChains a)) (covers l)" using assms(3) ar by blast
  then show ?thesis using g assms(3) ar by (auto simp: recalculateCover_def m_def)
qed

text \<open>A chain to the left of the first one: the first one is outside of the rectangle then.\<close>

definition right_then_left :: LEDChainArrangement where
  "right_then_left =
     addLEDChain (\<lambda>x. x) ''WS2812:10:0:10:0:1'' (addLEDChain (\<lambda>x. x) ''WS2812:10:20:10:0:1'' new_arrangement)"

lemma addLEDChain_fixtures:
  "mLedChains (addLEDChain c_exp s a) =
     mLedChains a @ [\<lparr>ledChain = length (objs a), covers = newCover (parse_spec c_exp s default_spec), offset = (0, 0)\<rparr>]"
  "mCovers (addLEDChain c_exp s a) = foldl cover_chain (mCovers a) (mLedChains (addLEDChain c_exp s a))"
  by (simp_all add: addLEDChain_def addFixture_def recalculateCover_def Let_def)

lemma right_then_left_cover:
  "map covers (mLedChains right_then_left) = [\<lparr>rx = 20, ry = 0, rdx = 10, rdy = 1\<rparr>, \<lparr>rx = 0, ry = 0, rdx = 10, rdy = 1\<rparr>]"
  "mCovers right_then_left = \<lparr>rx = 0, ry = 0, rdx = 10, rdy = 1\<rparr>"
proof -
  have p: "newCover (parse_spec (\<lambda>x. x) ''WS2812:10:0:10:0:1'' default_spec) = \<lparr>rx = 0, ry = 0, rdx = 10, rdy = 1\<rparr>"
    "newCover (parse_spec (\<lambda>x. x) ''WS2812:10:20:10:0:1'' default_spec) = \<lparr>rx = 20, ry = 0, rdx = 10, rdy = 1\<rparr>"
    by code_simp+
  show "map covers (mLedChains right_then_left) = [\<lparr>rx = 20, ry = 0, rdx = 10, rdy = 1\<rparr>, \<lparr>rx = 0, ry = 0, rdx = 10, rdy = 1\<rparr>]"
    by (simp add: right_then_left_def addLEDChain_fixtures p new_arrangement_def)
  show "mCovers right_then_left = \<lparr>rx = 0, ry = 0, rdx = 10, rdy = 1\<rparr>"
    by (simp add: right_then_left_def addLEDChain_fixtures p new_arrangement_def cover_chain_def zeroRect_def)
qed

theorem cover_encloses_when_recalculated_witness:
  "\<not> encloses (mCovers right_then_left) \<lparr>rx = 20, ry = 0, rdx = 10, rdy = 1\<rparr> \<and>
   encloses (mCovers (recalculateCover (recalculateCover right_then_left))) \<lparr>rx = 20, ry = 0, rdx = 10, rdy = 1\<rparr>"
proof -
  obtain l where l: "l \<in> set (mLedChains right_then_left)" "covers l = \<lparr>rx = 20, ry = 0, rdx = 10, rdy = 1\<rparr>"
    using right_then_left_cover(1) by (cases "mLedChains right_then_left") auto
  show ?thesis
    using cover_encloses_when_recalculated [of right_then_left l] l right_then_left_cover(2) by (simp add: encloses_def)
qed

section \<open>What a round of rendering measures\<close>

text \<open>What does not change in a chain while the view is rendered; a converter, once there, stays.\<close>

definition kept :: "chains \<Rightarrow> chains \<Rightarrow> bool" where
  "kept cs cs' \<longleftrightarrow> length cs' = length cs \<and>
     (\<forall>k < length cs. mLedChip (cs' ! k) = mLedChip (cs ! k) \<and> mNumColorComponents (cs' ! k) = mNumColorComponents (cs ! k) \<and>
        mLEDWhite (cs' ! k) = mLEDWhite (cs ! k) \<and>
        (\<forall>v. mLEDPowerConverter (cs ! k) = Some v \<longrightarrow> mLEDPowerConverter (cs' ! k) = Some v))"

lemma kept_refl: "kept cs cs"
  by (simp add: kept_def)

lemma kept_trans: "kept cs cs' \<Longrightarrow> kept cs' cs'' \<Longrightarrow> kept cs cs''"
  by (simp add: kept_def)

lemma kept_update:
  assumes "d < length cs" "mLedChip c = mLedChip (cs ! d)" "mNumColorComponents c = mNumColorComponents (cs ! d)"
    "mLEDWhite c = mLEDWhite (cs ! d)" "\<And>v. mLEDPowerConverter (cs ! d) = Some v \<Longrightarrow> mLEDPowerConverter c = Some v"
  shows "kept cs (cs[d := c])"
  using assms by (auto simp: kept_def nth_list_update)

lemma store_led_kept: "store_led i p c = Some c' \<Longrightarrow> \<exists>b. c' = c\<lparr>mRawBuffer := b\<rparr>"
proof -
  assume "store_led i p c = Some c'"
  then have "c' = c \<or> (\<exists>b. c' = c\<lparr>mRawBuffer := b\<rparr>)" by (auto simp: store_led_def split: if_splits option.splits)
  moreover have "c = c\<lparr>mRawBuffer := mRawBuffer c\<rparr>" by simp
  ultimately show ?thesis by metis
qed

lemma setPowerAtLedIndex_kept: "setPowerAtLedIndex k i p cs = Some cs' \<Longrightarrow> kept cs cs'"
proof (induction rule: setPowerAtLedIndex.raw_induct [rotated, consumes 1, case_names call])
  case (call f k i p cs cs')
  show ?case
  proof (cases "mChainDriver (cs ! k)")
    case None
    with call(2) obtain c where "k < length cs" "store_led i p (cs ! k) = Some c" "cs' = cs[k := c]"
      by (auto split: if_splits)
    then show ?thesis using store_led_kept by (fastforce intro!: kept_update)
  next
    case (Some d)
    with call(2) have "f d i p cs = Some cs'" by (auto split: if_splits)
    then show ?thesis by (rule call(1))
  qed
qed

lemma powerConverter_kept:
  "powerConverter std k cs = Some r \<Longrightarrow>
    kept cs (snd r) \<and> k < length cs \<and> mLEDPowerConverter (snd r ! k) = Some (fst r)"
proof (induction rule: powerConverter.raw_induct [rotated, consumes 1, case_names call])
  case (call f std k cs r)
  from call(2) have k: "k < length cs" by (auto split: if_splits)
  show ?case
  proof (cases "mLEDPowerConverter (cs ! k)")
    case (Some v)
    with call(2) k show ?thesis by (auto simp: kept_refl)
  next
    case None
    with call(2) k obtain v cs1 where d: "(case mChainDriver (cs ! k) of Some d \<Rightarrow> f std d cs | None \<Rightarrow> Some (std, cs)) = Some (v, cs1)"
      and r: "r = (v, cs1[k := (cs1 ! k)\<lparr>mLEDPowerConverter := Some v\<rparr>])"
      by (auto simp: Option.bind_eq_Some_conv)
    have c: "kept cs cs1"
    proof (cases "mChainDriver (cs ! k)")
      case None
      with d show ?thesis by (simp add: kept_refl)
    next
      case (Some e)
      with d have "f std e cs = Some (v, cs1)" by simp
      from call(1) [OF this] show ?thesis by simp
    qed
    show ?thesis unfolding r using c k None by (auto simp: kept_def nth_list_update)
  qed
qed

definition view_point :: "LEDChainFixture \<Rightarrow> (int \<Rightarrow> int \<Rightarrow> 'a) \<Rightarrow> int \<times> int \<Rightarrow> 'a" where
  "view_point l f q = f (rx (covers l) + fst q) (ry (covers l) + snd q)"

lemma render_points_measured:
  "render_points pw D l ps (cs, m) = Some (cs', m') \<Longrightarrow>
    kept cs cs' \<and> idlePowerMw m' = idlePowerMw m + of_nat (length ps * idleChipMw D) \<and>
    lightPowerPWM m' = lightPowerPWM m + sum_list (map (light_pwm D \<circ> view_point l pw) ps) \<and>
    lightPowerPWMWhite m' = lightPowerPWMWhite m + sum_list (map ((\<lambda>p. ucast (Pw p)) \<circ> view_point l pw) ps)"
proof (induction ps arbitrary: cs m)
  case (Cons q ps)
  obtain x y where q: "q = (x, y)" by (cases q)
  from Cons.prems q obtain cs1 where s: "setPowerXY (ledChain l) (to_uint16 (fst (offset l) + x)) (to_uint16 (snd (offset l) + y))
      (view_point l pw q) cs = Some cs1"
    and r: "render_points pw D l ps (cs1, m\<lparr>idlePowerMw := idlePowerMw m + word_of_nat (idleChipMw D),
                lightPowerPWM := lightPowerPWM m + light_pwm D (view_point l pw q),
                lightPowerPWMWhite := lightPowerPWMWhite m + ucast (Pw (view_point l pw q))\<rparr>) = Some (cs', m')"
    by (auto simp: view_point_def Let_def Option.bind_eq_Some_conv)
  from s have k: "kept cs cs1" unfolding setPowerXY_def by (rule setPowerAtLedIndex_kept)
  show ?case using Cons.IH [OF r] k by (auto simp: algebra_simps intro: kept_trans)
qed (simp add: kept_refl)

text \<open>What a chain adds to the sums.\<close>

definition chain_points :: "chains \<Rightarrow> (int \<Rightarrow> int \<Rightarrow> PixelColor) \<Rightarrow> nat \<Rightarrow> nat \<Rightarrow> LEDChainFixture \<Rightarrow> powers list" where
  "chain_points cs colorAt mainDim powerDim l =
     (let c = cs ! ledChain l
      in map (view_point l (\<lambda>x y. point_powers (the (mLEDPowerConverter c)) c mainDim powerDim (colorAt x y))) (cover_points l))"

definition chain_light :: "chains \<Rightarrow> (int \<Rightarrow> int \<Rightarrow> PixelColor) \<Rightarrow> nat \<Rightarrow> nat \<Rightarrow> LEDChainFixture \<Rightarrow> u32" where
  "chain_light cs colorAt mainDim powerDim l =
     (let D = ledChipDescriptor (cs ! ledChain l); ps = chain_points cs colorAt mainDim powerDim l
      in chain_power D (sum_list (map (light_pwm D) ps)) (sum_list (map (\<lambda>p. ucast (Pw p)) ps)))"

definition chain_idle :: "chains \<Rightarrow> LEDChainFixture \<Rightarrow> nat" where
  "chain_idle cs l = length (cover_points l) * idleChipMw (ledChipDescriptor (cs ! ledChain l))"

definition ready :: "chains \<Rightarrow> LEDChainFixture \<Rightarrow> bool" where
  "ready cs l \<longleftrightarrow> ledChain l < length cs \<and> mLEDPowerConverter (cs ! ledChain l) \<noteq> None"

lemma point_powers_cong:
  "mNumColorComponents c = mNumColorComponents c' \<Longrightarrow> mLEDWhite c = mLEDWhite c' \<Longrightarrow>
    point_powers conv c md pd p = point_powers conv c' md pd p"
  by (simp only: point_powers_def hasWhite_def)

lemma kept_idle: "kept cs cs' \<Longrightarrow> ledChain l < length cs \<Longrightarrow> chain_idle cs' l = chain_idle cs l"
  by (simp add: kept_def chain_idle_def ledChipDescriptor_def)

lemma kept_ready: "kept cs cs' \<Longrightarrow> ready cs l \<Longrightarrow> ready cs' l"
  by (auto simp: kept_def ready_def)

lemma kept_light:
  assumes "kept cs cs'" "ready cs l"
  shows "chain_light cs' colorAt md pd l = chain_light cs colorAt md pd l"
proof -
  obtain v where "mLEDPowerConverter (cs ! ledChain l) = Some v" "mLEDPowerConverter (cs' ! ledChain l) = Some v"
    using assms by (auto simp: kept_def ready_def)
  moreover have "point_powers v (cs' ! ledChain l) md pd p = point_powers v (cs ! ledChain l) md pd p" for p
    using assms by (intro point_powers_cong) (auto simp: kept_def ready_def)
  moreover have "mLedChip (cs' ! ledChain l) = mLedChip (cs ! ledChain l)" using assms by (auto simp: kept_def ready_def)
  ultimately show ?thesis by (simp add: chain_light_def chain_points_def ledChipDescriptor_def)
qed

lemma render_chain_measured:
  assumes "render_chain std colorAt md pd l (cs, idle, light) = Some (cs', idle', light')"
  shows "kept cs cs' \<and> ready cs' l \<and> idle' = idle + of_nat (chain_idle cs' l) \<and> light' = light + chain_light cs' colorAt md pd l"
proof -
  from assms obtain conv cs1 m' where c: "powerConverter std (ledChain l) cs = Some (conv, cs1)"
    and r: "render_points (\<lambda>x y. point_powers conv (cs1 ! ledChain l) md pd (colorAt x y)) (ledChipDescriptor (cs1 ! ledChain l)) l
       (cover_points l) (cs1, \<lparr>idlePowerMw = idle, lightPowerPWM = 0, lightPowerPWMWhite = 0\<rparr>) = Some (cs', m')"
    and e: "idle' = idlePowerMw m'"
      "light' = light + chain_power (ledChipDescriptor (cs1 ! ledChain l)) (lightPowerPWM m') (lightPowerPWMWhite m')"
    by (auto simp: render_chain_def Let_def Option.bind_eq_Some_conv)
  note k = powerConverter_kept [OF c, simplified]
  note m = render_points_measured [OF r, simplified]
  have rd: "ready cs1 l" using k by (auto simp: ready_def kept_def)
  have "idle' = idle + of_nat (chain_idle cs1 l) \<and> light' = light + chain_light cs1 colorAt md pd l"
    using k m by (simp add: e chain_idle_def chain_light_def chain_points_def Let_def comp_def)
  moreover have "ledChain l < length cs1" using rd by (simp add: ready_def)
  ultimately show ?thesis
    using k m rd kept_light [of cs1 cs' l] kept_idle [of cs1 cs' l] by (auto intro: kept_trans kept_ready)
qed

lemma render_chains_measured:
  "render_chains std colorAt md pd ls (cs, idle, light) = Some (cs', idle', light') \<Longrightarrow>
    kept cs cs' \<and> (\<forall>l \<in> set ls. ready cs' l) \<and> idle' = idle + of_nat (sum_list (map (chain_idle cs') ls)) \<and>
    light' = light + sum_list (map (chain_light cs' colorAt md pd) ls)"
proof (induction ls arbitrary: cs idle light)
  case (Cons l ls)
  then obtain cs1 i1 l1 where one: "render_chain std colorAt md pd l (cs, idle, light) = Some (cs1, i1, l1)"
    and rest: "render_chains std colorAt md pd ls (cs1, i1, l1) = Some (cs', idle', light')"
    by (auto simp: Option.bind_eq_Some_conv)
  note a = render_chain_measured [OF one]
  note b = Cons.IH [OF rest]
  have "ledChain l < length cs1" using a by (simp add: ready_def)
  then have "chain_idle cs' l = chain_idle cs1 l" "chain_light cs' colorAt md pd l = chain_light cs1 colorAt md pd l" "ready cs' l"
    using a b kept_idle kept_light kept_ready by blast+
  with a b show ?case by (auto intro: kept_trans)
qed (simp add: kept_refl)

section \<open>Dimming and sums\<close>

definition light_nat :: "LedChipDesc \<Rightarrow> powers \<Rightarrow> nat" where
  "light_nat D p =
     (if rgbCommonCurrent D then max (unat (Pr p)) (max (unat (Pg p)) (unat (Pb p)))
      else unat (Pr p) + unat (Pg p) + unat (Pb p))"

lemma unat_power: "unat (p :: power) \<le> 65535"
  using unsigned_less [of p, where 'a = nat] by simp

lemma unat_ucast_power: "unat (ucast (p :: power) :: u32) = unat p"
  using unat_power [of p] by (simp add: unsigned_ucast_eq take_bit_nat_eq_self_iff)

lemma unat_light_pwm: "unat (light_pwm D p) = light_nat D p" "light_nat D p \<le> 196605"
proof -
  have s: "unat (ucast (Pr p) + ucast (Pg p) + ucast (Pb p) :: u32) = unat (Pr p) + unat (Pg p) + unat (Pb p)"
    using unat_power [of "Pr p"] unat_power [of "Pg p"] unat_power [of "Pb p"]
    by (simp add: unat_word_ariths unat_ucast_power)
  show "unat (light_pwm D p) = light_nat D p"
    by (auto simp: light_pwm_def light_nat_def s unat_ucast_power word_less_nat_alt max_def)
  show "light_nat D p \<le> 196605"
    using unat_power [of "Pr p"] unat_power [of "Pg p"] unat_power [of "Pb p"] by (auto simp: light_nat_def)
qed

lemma unat_sum_list:
  assumes "(\<Sum>x\<leftarrow>xs. unat (f x)) < 2 ^ 32"
  shows "unat (sum_list (map f xs) :: u32) = (\<Sum>x\<leftarrow>xs. unat (f x))"
  using assms
proof (induction xs)
  case (Cons x xs)
  then have "(\<Sum>x\<leftarrow>xs. unat (f x)) < 2 ^ 32" by simp
  with Cons.IH have e: "unat (sum_list (map f xs)) = (\<Sum>x\<leftarrow>xs. unat (f x))" by blast
  from Cons.prems show ?case by (simp add: unat_word_ariths e)
qed simp

lemma unat_dim_power:
  assumes "d < 256"
  shows "unat (dim_power d p) = (d + 1) * unat p div 256"
proof -
  have "(d + 1) * unat p \<le> 256 * 65535" using assms unat_power [of p] by (intro mult_le_mono) auto
  then have "(d + 1) * unat p mod 2 ^ 32 = (d + 1) * unat p" "(d + 1) * unat p div 256 < 65536" by auto
  then show ?thesis by (simp add: dim_power_def unat_of_nat del: mult_Suc)
qed

text \<open>The powers of a point with dimming are at most that part of the powers without.\<close>

lemma point_powers_dim:
  assumes "d < 256" "d \<noteq> 0"
  shows "256 * light_nat D (point_powers conv c md d p) \<le> (d + 1) * light_nat D (point_powers conv c md 0 p)"
    and "256 * unat (Pw (point_powers conv c md d p)) \<le> (d + 1) * unat (Pw (point_powers conv c md 0 p))"
proof -
  define q where "q = point_powers conv c md 0 p"
  have e: "point_powers conv c md d p = \<lparr>Pr = dim_power d (Pr q), Pg = dim_power d (Pg q), Pb = dim_power d (Pb q), Pw = dim_power d (Pw q)\<rparr>"
    using assms by (simp add: q_def point_powers_def powersForComponents_def Let_def split: prod.split)
  have b: "256 * unat (dim_power d v) \<le> (d + 1) * unat v" for v
    using unat_dim_power [OF assms(1), of v] by simp
  show "256 * unat (Pw (point_powers conv c md d p)) \<le> (d + 1) * unat (Pw (point_powers conv c md 0 p))"
    unfolding e q_def [symmetric] using b by simp
  have mx: "(d + 1) * unat v \<le> (d + 1) * w" if "unat v \<le> w" for v :: power and w using that by (rule mult_le_mono2)
  show "256 * light_nat D (point_powers conv c md d p) \<le> (d + 1) * light_nat D (point_powers conv c md 0 p)"
  proof (cases "rgbCommonCurrent D")
    case True
    define w where "w = max (unat (Pr q)) (max (unat (Pg q)) (unat (Pb q)))"
    have "256 * unat (dim_power d v) \<le> (d + 1) * w" if "unat v \<le> w" for v using b [of v] mx [OF that] by linarith
    then have "256 * unat (dim_power d (Pr q)) \<le> (d + 1) * w" "256 * unat (dim_power d (Pg q)) \<le> (d + 1) * w"
      "256 * unat (dim_power d (Pb q)) \<le> (d + 1) * w" by (auto simp: w_def)
    moreover define v where "v = max (unat (dim_power d (Pr q))) (max (unat (dim_power d (Pg q))) (unat (dim_power d (Pb q))))"
    moreover have "v = unat (dim_power d (Pr q)) \<or> v = unat (dim_power d (Pg q)) \<or> v = unat (dim_power d (Pb q))"
      unfolding v_def by linarith
    ultimately have "256 * v \<le> (d + 1) * w" by (elim disjE) simp_all
    then show ?thesis unfolding e q_def [symmetric] light_nat_def using True by (simp add: w_def [symmetric] v_def [symmetric])
  next
    case False
    then show ?thesis
      unfolding e q_def [symmetric] light_nat_def using b [of "Pr q"] b [of "Pg q"] b [of "Pb q"] by (simp add: distrib_left)
  qed
qed

lemma scaled_div:
  assumes "256 * a \<le> f * b" "0 < M"
  shows "256 * (a * k div M) \<le> f * (b * k div M) + (f :: nat)"
proof -
  define q where "q = a * k div M"
  define r where "r = b * k div M"
  have q: "M * q \<le> a * k" unfolding q_def by simp
  have "b * k = M * r + b * k mod M" by (simp add: r_def)
  then have r: "b * k \<le> M * (r + 1)" using mod_less_divisor [OF assms(2), of "b * k"] by simp
  have "M * (256 * q) \<le> 256 * (a * k)" using q by simp
  also have "\<dots> = (256 * a) * k" by simp
  also have "\<dots> \<le> (f * b) * k" by (rule mult_le_mono1 [OF assms(1)])
  also have "\<dots> = f * (b * k)" by simp
  also have "\<dots> \<le> f * (M * (r + 1))" by (rule mult_le_mono2 [OF r])
  also have "\<dots> = M * (f * r + f)" by (simp add: algebra_simps)
  finally have "256 * q \<le> f * r + f" using assms(2) by simp
  then show ?thesis by (simp add: q_def r_def)
qed

lemma sum_list_scaled:
  "(\<And>x. x \<in> set xs \<Longrightarrow> (c :: nat) * f x \<le> k * g x) \<Longrightarrow> c * (\<Sum>x\<leftarrow>xs. f x) \<le> k * (\<Sum>x\<leftarrow>xs. g x)"
proof (induction xs)
  case (Cons x xs)
  then have "c * f x \<le> k * g x" "c * (\<Sum>x\<leftarrow>xs. f x) \<le> k * (\<Sum>x\<leftarrow>xs. g x)" by auto
  then show ?case by (simp add: distrib_left)
qed simp

lemma chip_bounds: "rgbChannelMw (ledChipDescriptors k) \<le> 120" "whiteChannelMw (ledChipDescriptors k) \<le> 95" "idleChipMw (ledChipDescriptors k) \<le> 24"
  by (cases k; simp add: chip_def)+

definition pwm_sum :: "chains \<Rightarrow> (int \<Rightarrow> int \<Rightarrow> PixelColor) \<Rightarrow> nat \<Rightarrow> nat \<Rightarrow> LEDChainFixture \<Rightarrow> nat" where
  "pwm_sum cs colorAt md pd l =
     (\<Sum>p\<leftarrow>chain_points cs colorAt md pd l. light_nat (ledChipDescriptor (cs ! ledChain l)) p)"

definition white_sum :: "chains \<Rightarrow> (int \<Rightarrow> int \<Rightarrow> PixelColor) \<Rightarrow> nat \<Rightarrow> nat \<Rightarrow> LEDChainFixture \<Rightarrow> nat" where
  "white_sum cs colorAt md pd l = (\<Sum>p\<leftarrow>chain_points cs colorAt md pd l. unat (Pw p))"

lemma sum_list_bound: "(\<And>x. x \<in> set xs \<Longrightarrow> f x \<le> (b :: nat)) \<Longrightarrow> (\<Sum>x\<leftarrow>xs. f x) \<le> b * length xs"
  by (induction xs) (auto intro: add_mono)

lemma chain_light_value:
  assumes "length (cover_points l) \<le> 21845"
  shows "unat (chain_light cs colorAt md pd l) =
      pwm_sum cs colorAt md pd l * rgbChannelMw (ledChipDescriptor (cs ! ledChain l)) div 65535 +
      white_sum cs colorAt md pd l * whiteChannelMw (ledChipDescriptor (cs ! ledChain l)) div 65535"
    and "unat (chain_light cs colorAt md pd l) \<le> 455 * length (cover_points l)"
proof -
  define N where "N = length (cover_points l)"
  define D where "D = ledChipDescriptor (cs ! ledChain l)"
  define ps where "ps = chain_points cs colorAt md pd l"
  define P where "P = pwm_sum cs colorAt md pd l"
  define W where "W = white_sum cs colorAt md pd l"
  have lp: "length ps = N" by (simp add: ps_def chain_points_def N_def Let_def)
  have P: "P \<le> 196605 * N" unfolding P_def pwm_sum_def ps_def [symmetric] lp [symmetric]
    by (rule sum_list_bound) (rule unat_light_pwm(2))
  have W: "W \<le> 65535 * N" unfolding W_def white_sum_def ps_def [symmetric] lp [symmetric]
    by (rule sum_list_bound) (rule unat_power)
  have N: "N \<le> 21845" using assms by (simp add: N_def)
  have up: "unat (sum_list (map (light_pwm D) ps)) = P"
    using P N by (subst unat_sum_list) (simp_all add: unat_light_pwm P_def pwm_sum_def ps_def D_def)
  have uw: "unat (sum_list (map (\<lambda>p. ucast (Pw p)) ps) :: u32) = W"
    using W N by (subst unat_sum_list) (simp_all add: unat_ucast_power W_def white_sum_def ps_def)
  have rgb: "rgbChannelMw D \<le> 120" "whiteChannelMw D \<le> 95" by (auto simp: D_def ledChipDescriptor_def chip_bounds)
  have "P * rgbChannelMw D \<le> (196605 * N) * 120" "W * whiteChannelMw D \<le> (65535 * N) * 95"
    by (rule mult_le_mono [OF P rgb(1)], rule mult_le_mono [OF W rgb(2)])
  then have b: "P * rgbChannelMw D div 65535 + W * whiteChannelMw D div 65535 \<le> 455 * N" by linarith
  have "unat (chain_light cs colorAt md pd l) =
      (P * rgbChannelMw D div 65535 + W * whiteChannelMw D div 65535) mod 2 ^ 32"
    unfolding chain_light_def Let_def chain_power_def D_def [symmetric] ps_def [symmetric] up uw by (simp add: unat_of_nat del: of_nat_add)
  also have "\<dots> = P * rgbChannelMw D div 65535 + W * whiteChannelMw D div 65535" using b N by (intro mod_less) simp
  finally have e: "unat (chain_light cs colorAt md pd l) = P * rgbChannelMw D div 65535 + W * whiteChannelMw D div 65535" .
  from e show "unat (chain_light cs colorAt md pd l) =
      pwm_sum cs colorAt md pd l * rgbChannelMw (ledChipDescriptor (cs ! ledChain l)) div 65535 +
      white_sum cs colorAt md pd l * whiteChannelMw (ledChipDescriptor (cs ! ledChain l)) div 65535"
    by (simp add: P_def W_def D_def)
  from e b show "unat (chain_light cs colorAt md pd l) \<le> 455 * length (cover_points l)" by (simp add: N_def)
qed

lemma chain_light_dim:
  assumes "length (cover_points l) \<le> 21845" "d < 256" "d \<noteq> 0"
  shows "256 * unat (chain_light cs colorAt md d l) \<le> (d + 1) * unat (chain_light cs colorAt md 0 l) + 2 * (d + 1)"
proof -
  define c where "c = cs ! ledChain l"
  define k where "k = rgbChannelMw (ledChipDescriptor c)"
  define w where "w = whiteChannelMw (ledChipDescriptor c)"
  have pts: "chain_points cs colorAt md pd l = map (\<lambda>q. point_powers (the (mLEDPowerConverter c)) c md pd
      (view_point l colorAt q)) (cover_points l)" for pd
    by (simp add: chain_points_def c_def view_point_def Let_def)
  have "256 * pwm_sum cs colorAt md d l \<le> (d + 1) * pwm_sum cs colorAt md 0 l"
    unfolding pwm_sum_def pts map_map comp_def using point_powers_dim(1) [OF assms(2,3)] by (intro sum_list_scaled)
  from scaled_div [OF this, of 65535 k]
  have a: "256 * (pwm_sum cs colorAt md d l * k div 65535) \<le> (d + 1) * (pwm_sum cs colorAt md 0 l * k div 65535) + (d + 1)" by simp
  have "256 * white_sum cs colorAt md d l \<le> (d + 1) * white_sum cs colorAt md 0 l"
    unfolding white_sum_def pts map_map comp_def using point_powers_dim(2) [OF assms(2,3)] by (intro sum_list_scaled)
  from scaled_div [OF this, of 65535 w]
  have b: "256 * (white_sum cs colorAt md d l * w div 65535) \<le> (d + 1) * (white_sum cs colorAt md 0 l * w div 65535) + (d + 1)" by simp
  show ?thesis
    unfolding chain_light_value(1) [OF assms(1)] c_def [symmetric] k_def [symmetric] w_def [symmetric] using a b by (simp add: distrib_left)
qed

lemma total_light:
  assumes "(\<Sum>l\<leftarrow>ls. length (cover_points l)) \<le> 21845"
  shows "unat (\<Sum>l\<leftarrow>ls. chain_light cs colorAt md pd l) = (\<Sum>l\<leftarrow>ls. unat (chain_light cs colorAt md pd l))"
    and "(\<Sum>l\<leftarrow>ls. unat (chain_light cs colorAt md pd l)) \<le> 455 * (\<Sum>l\<leftarrow>ls. length (cover_points l))"
    and "d < 256 \<Longrightarrow> d \<noteq> 0 \<Longrightarrow> 256 * (\<Sum>l\<leftarrow>ls. unat (chain_light cs colorAt md d l)) \<le>
      (d + 1) * (\<Sum>l\<leftarrow>ls. unat (chain_light cs colorAt md 0 l)) + 2 * (d + 1) * length ls"
    and "(\<Sum>l\<leftarrow>ls. chain_idle cs l) \<le> 24 * (\<Sum>l\<leftarrow>ls. length (cover_points l))"
proof -
  have m: "length (cover_points l) \<le> 21845" if "l \<in> set ls" for l
    using member_le_sum_list [of "length (cover_points l)" "map (\<lambda>l. length (cover_points l)) ls"] that assms by auto
  show s: "(\<Sum>l\<leftarrow>ls. unat (chain_light cs colorAt md pd l)) \<le> 455 * (\<Sum>l\<leftarrow>ls. length (cover_points l))"
    using sum_list_scaled [of ls 1 "\<lambda>l. unat (chain_light cs colorAt md pd l)" 455 "\<lambda>l. length (cover_points l)"]
      chain_light_value(2) [OF m] by simp
  show "unat (\<Sum>l\<leftarrow>ls. chain_light cs colorAt md pd l) = (\<Sum>l\<leftarrow>ls. unat (chain_light cs colorAt md pd l))"
    using s assms by (intro unat_sum_list) simp
  show "(\<Sum>l\<leftarrow>ls. chain_idle cs l) \<le> 24 * (\<Sum>l\<leftarrow>ls. length (cover_points l))"
    using sum_list_scaled [of ls 1 "chain_idle cs" 24 "\<lambda>l. length (cover_points l)"] chip_bounds(3)
    by (simp add: chain_idle_def ledChipDescriptor_def mult.commute)
  assume d: "d < 256" "d \<noteq> 0"
  have "256 * (\<Sum>l\<leftarrow>xs. unat (chain_light cs colorAt md d l)) \<le>
      (d + 1) * (\<Sum>l\<leftarrow>xs. unat (chain_light cs colorAt md 0 l)) + 2 * (d + 1) * length xs" if "set xs \<subseteq> set ls" for xs
    using that
  proof (induction xs)
    case (Cons l xs)
    then have "256 * unat (chain_light cs colorAt md d l) \<le> (d + 1) * unat (chain_light cs colorAt md 0 l) + 2 * (d + 1)"
      by (intro chain_light_dim [OF m d]) auto
    with Cons show ?case by (simp add: distrib_left)
  qed simp
  then show "256 * (\<Sum>l\<leftarrow>ls. unat (chain_light cs colorAt md d l)) \<le>
      (d + 1) * (\<Sum>l\<leftarrow>ls. unat (chain_light cs colorAt md 0 l)) + 2 * (d + 1) * length ls" by simp
qed

section \<open>The limit\<close>

text \<open>The measurement of a round, in numbers.\<close>

lemma round_measured:
  assumes r: "render_chains std colorAt md pd ls (cs, 0, 0) = Some (cs', i, lt)"
    and small: "(\<Sum>l\<leftarrow>ls. length (cover_points l)) \<le> 21845"
  shows "kept cs cs' \<and> (\<forall>l \<in> set ls. ready cs' l) \<and> unat i = (\<Sum>l\<leftarrow>ls. chain_idle cs l) \<and>
    unat lt = (\<Sum>l\<leftarrow>ls. unat (chain_light cs' colorAt md pd l)) \<and> unat lt \<le> 9939475 \<and> unat i \<le> 524280"
proof -
  note m = render_chains_measured [OF r]
  have "\<forall>l \<in> set ls. chain_idle cs' l = chain_idle cs l"
    using m kept_idle [of cs cs'] by (auto simp: ready_def kept_def)
  then have "map (chain_idle cs') ls = map (chain_idle cs) ls" by simp
  with m have i: "i = of_nat (\<Sum>l\<leftarrow>ls. chain_idle cs l)" by (simp only: add_0)
  have lt: "lt = (\<Sum>l\<leftarrow>ls. chain_light cs' colorAt md pd l)" using m by simp
  have "(\<Sum>l\<leftarrow>ls. chain_idle cs l) \<le> 524280" using total_light(4) [OF small, of cs] small by simp
  then have "unat i = (\<Sum>l\<leftarrow>ls. chain_idle cs l)" "unat i \<le> 524280" unfolding i by (simp_all add: unat_of_nat)
  moreover have "unat lt = (\<Sum>l\<leftarrow>ls. unat (chain_light cs' colorAt md pd l))" unfolding lt by (rule total_light(1) [OF small])
  moreover have "(\<Sum>l\<leftarrow>ls. unat (chain_light cs' colorAt md pd l)) \<le> 9939475" using total_light(2) [OF small, of cs' colorAt md pd] small by simp
  ultimately show ?thesis using m by simp
qed

lemma unat_actual: "unat lt \<le> 9939475 \<Longrightarrow> unat i \<le> 524280 \<Longrightarrow> unat (lt + i :: u32) = unat lt + unat i"
  by (simp add: unat_word_ariths)

lemma power_dim_value:
  assumes "unat i \<le> unat pl" "unat pl < unat lt + unat i" "unat lt \<le> 9939475"
  shows "power_dim pl i lt = 255 * (unat pl - unat i) div unat lt"
proof -
  have s: "unat (pl - i) = unat pl - unat i" using assms(1) by (simp add: unat_sub word_le_nat_alt)
  define x where "x = pl - i"
  have "255 * unat x < 2 ^ 32" unfolding x_def s using assms by simp
  then have "unat (255 * x) = 255 * unat x" by (simp add: unat_word_ariths)
  then have m: "unat (255 * (pl - i)) = 255 * (unat pl - unat i)" by (simp only: x_def s)
  have "255 * (unat pl - unat i) div unat lt < 256"
    using assms by (intro less_mult_imp_div_less) simp
  then show ?thesis by (simp only: power_dim_def unat_div m mod_less)
qed

text \<open>
  The limit for the power consumption holds up to rounding: the power after dimming is above it by at
  most a 256th of what was requested beyond the limit, and two milliwatts for each chain. But where the light would have to be dimmed to less
  than a 255th, because the limit is hardly more than what the chips need when dark, it is not dimmed
  at all. The number of points is limited so that the sums stay within 32 bits.
\<close>
theorem power_limit_holds_up_to_rounding:
  assumes "renderViewState std colorAt a = Some b" "mRootView a"
    and "(\<Sum>l\<leftarrow>mLedChains a. length (cover_points l)) \<le> 21845"
    and "idle = (\<Sum>l\<leftarrow>mLedChains a. chain_idle (objs a) l)"
    and "limit = unat (mPowerLimitMw a)" "0 < limit" "idle \<le> limit"
  shows "(unat (mRequestedLightPowerMw b) \<le> limit \<longrightarrow> mActualLightPowerMw b = mRequestedLightPowerMw b) \<and>
    (limit < unat (mRequestedLightPowerMw b) \<and> unat (mRequestedLightPowerMw b) - idle \<le> 255 * (limit - idle) \<longrightarrow>
       256 * unat (mActualLightPowerMw b) \<le>
         256 * limit + (unat (mRequestedLightPowerMw b) - limit) + 512 * length (mLedChains a)) \<and>
    (255 * (limit - idle) < unat (mRequestedLightPowerMw b) - idle \<longrightarrow> mActualLightPowerMw b = mRequestedLightPowerMw b)"
proof -
  obtain cs i lt where r: "render_chains std colorAt (mMainDim a) 0 (mLedChains a) (objs a, 0, 0) = Some (cs, i, lt)"
    using assms(1,2) by (auto simp: renderViewState_def render_round_def Option.bind_eq_Some_conv)
  note m = round_measured [OF r assms(3)]
  have req: "unat (lt + i) = unat lt + unat i" using m by (intro unat_actual) auto
  have idle: "unat i = idle" using m assms(4) by simp
  have nz: "mPowerLimitMw a \<noteq> 0" using assms(5,6) by auto
  define d where "d = power_dim (mPowerLimitMw a) i lt"
  show ?thesis
  proof (cases "mPowerLimitMw a < lt + i")
    case False
    then have "mActualLightPowerMw b = lt + i" "mRequestedLightPowerMw b = lt + i"
      using assms(1,2) r by (auto simp: renderViewState_def render_round_def)
    then show ?thesis using False by (simp add: word_less_nat_alt assms(5))
  next
    case True
    then have over: "limit < unat lt + idle" using req idle by (simp add: word_less_nat_alt assms(5))
    then have lt0: "0 < unat lt" using assms(7) by simp
    then have ltp: "lt > 0" by (simp add: word_less_nat_alt)
    have d: "d = 255 * (limit - idle) div unat lt"
      unfolding d_def using power_dim_value [of i "mPowerLimitMw a" lt] m over assms(5,7) idle by simp
    have dlt: "d < 256" unfolding d using over assms(7) by (intro less_mult_imp_div_less) simp
    show ?thesis
    proof (cases "d = 0")
      case True
      then have "mActualLightPowerMw b = lt + i" "mRequestedLightPowerMw b = lt + i"
        using assms(1,2) r \<open>mPowerLimitMw a < lt + i\<close> nz ltp by (auto simp: renderViewState_def render_round_def d_def)
      moreover have "255 * (limit - idle) < unat lt" using True lt0 by (simp add: d div_eq_0_iff)
      ultimately show ?thesis using req idle by simp
    next
      case False
      obtain cs2 i2 lt2 where r2: "render_chains std colorAt (mMainDim a) d (mLedChains a) (cs, 0, 0) = Some (cs2, i2, lt2)"
        and b: "mActualLightPowerMw b = lt2 + i2" "mRequestedLightPowerMw b = lt + i"
        using assms(1,2) r True nz ltp False
        by (auto simp: renderViewState_def render_round_def d_def [symmetric] Option.bind_eq_Some_conv)
      note m2 = round_measured [OF r2 assms(3)]
      have "\<forall>l \<in> set (mLedChains a). chain_light cs2 colorAt (mMainDim a) d l = chain_light cs colorAt (mMainDim a) d l"
        using m m2 kept_light by blast
      then have "map (\<lambda>l. unat (chain_light cs2 colorAt (mMainDim a) d l)) (mLedChains a) =
          map (\<lambda>l. unat (chain_light cs colorAt (mMainDim a) d l)) (mLedChains a)" by simp
      with m2 have lt2: "unat lt2 = (\<Sum>l\<leftarrow>mLedChains a. unat (chain_light cs colorAt (mMainDim a) d l))" by (simp only:)
      have "\<forall>l \<in> set (mLedChains a). chain_idle cs l = chain_idle (objs a) l"
        using m kept_idle [of "objs a" cs] by (auto simp: ready_def kept_def)
      then have "map (chain_idle cs) (mLedChains a) = map (chain_idle (objs a)) (mLedChains a)" by simp
      with m2 have i2: "unat i2 = idle" by (simp only: assms(4))
      have dim: "256 * unat lt2 \<le> (d + 1) * unat lt + 2 * (d + 1) * length (mLedChains a)"
        using total_light(3) [OF assms(3) dlt False, of cs colorAt "mMainDim a"] m lt2 by simp
      have dl: "d * unat lt \<le> 255 * (limit - idle)" unfolding d by (rule div_times_less_eq_dividend)
      have "2 * (d + 1) * length (mLedChains a) \<le> 512 * length (mLedChains a)" using dlt by (intro mult_le_mono1) simp
      moreover have "(d + 1) * unat lt = d * unat lt + unat lt" by simp
      ultimately have "256 * unat lt2 \<le> 255 * (limit - idle) + unat lt + 512 * length (mLedChains a)"
        using dim dl by linarith
      moreover have "unat (lt2 + i2) = unat lt2 + idle" using m2 i2 by (subst unat_actual) auto
      moreover have "255 * (limit - idle) \<ge> unat lt" using False lt0 by (auto simp: d div_eq_0_iff)
      ultimately show ?thesis using over assms(7) unfolding b req idle by (simp add: idle)
    qed
  qed
qed

text \<open>Two white LEDs with a limit of 100 milliwatts, where they would need 368.\<close>

definition two_leds :: LEDChainArrangement where
  "two_leds = new_arrangement
     \<lparr>objs := [(begin_driver (\<lambda>_. True) (\<lambda>_. True)
          (new_chain ''WS2812'' ''/dev/ledchain0'' 2 2 False False False False 0 0 0))
          \<lparr>mLEDPowerConverter := Some (let t = replicate 256 0xFFFF
             in \<lparr>mRedPowers = t, mGreenPowers = t, mBluePowers = t, mWhitePowers = t\<rparr>)\<rparr>],
      mLedChains := [\<lparr>ledChain = 0, covers = \<lparr>rx = 0, ry = 0, rdx = 2, rdy = 1\<rparr>, offset = (0, 0)\<rparr>],
      mRootView := True, mPowerLimitMw := 100\<rparr>"

lemma one_chain_renders:
  assumes "puts_out cs 0 0" "mLEDPowerConverter (cs ! 0) = Some v" "ledChain l = 0" "offset l = (0, 0)"
    and "rdx (covers l) \<le> getSizeX (cs ! 0)" "rdy (covers l) \<le> getSizeY (cs ! 0)"
  shows "\<exists>out i lt. render_chains std colorAt md pd [l] (cs, 0, 0) = Some (cs[0 := (cs ! 0)\<lparr>mRawBuffer := Some out\<rparr>], i, lt) \<and>
    puts_out (cs[0 := (cs ! 0)\<lparr>mRawBuffer := Some out\<rparr>]) 0 0"
proof -
  have c: "powerConverter std 0 cs = Some (v, cs)"
    using assms(1,2) by (subst powerConverter.simps) (simp add: puts_out_def)
  have g: "\<forall>(x, y) \<in> set (cover_points l). in_grid (cs ! 0) x y"
    using assms(5,6) by (auto simp: cover_points_set in_grid_def)
  define D where "D = ledChipDescriptor (cs ! 0)"
  define pw where "pw = (\<lambda>x y. point_powers v (cs ! 0) md pd (colorAt x y))"
  define m where "m = \<lparr>idlePowerMw = 0, lightPowerPWM = 0, lightPowerPWMWhite = 0\<rparr>"
  from render_points_shows [OF assms(1,3,4) g cover_points_distinct, of pw D m] obtain out m' where
    r: "render_points pw D l (cover_points l) (cs, m) = Some (cs[0 := (cs ! 0)\<lparr>mRawBuffer := Some out\<rparr>], m')"
    "puts_out (cs[0 := (cs ! 0)\<lparr>mRawBuffer := Some out\<rparr>]) 0 0" by blast
  have "render_chain std colorAt md pd l (cs, 0, 0) = Some (cs[0 := (cs ! 0)\<lparr>mRawBuffer := Some out\<rparr>], idlePowerMw m',
      0 + chain_power D (lightPowerPWM m') (lightPowerPWMWhite m'))"
    unfolding render_chain_def Let_def prod.case assms(3) c bind.simps D_def [symmetric] pw_def [symmetric] m_def [symmetric] r(1)
    by simp
  then have "render_chains std colorAt md pd [l] (cs, 0, 0) = Some (cs[0 := (cs ! 0)\<lparr>mRawBuffer := Some out\<rparr>], idlePowerMw m',
      0 + chain_power D (lightPowerPWM m') (lightPowerPWMWhite m'))" by simp
  with r(2) show ?thesis by blast
qed

lemma round_frame:
  assumes "render_chains std colorAt (mMainDim a) pd (mLedChains a) (objs a, 0, 0) = Some (cs, i, lt)"
  shows "\<exists>b d. render_round std colorAt pd a = Some (b, d) \<and> objs b = cs \<and> mLedChains b = mLedChains a \<and> mMainDim b = mMainDim a"
  by (auto simp: render_round_def assms Let_def)

theorem power_limit_holds_up_to_rounding_witness:
  "\<exists>b. renderViewState \<lparr>mRedPowers = [], mGreenPowers = [], mBluePowers = [], mWhitePowers = []\<rparr>
      (\<lambda>_ _. \<lparr>pr = 255, pg = 255, pb = 255, pa = 255\<rparr>) two_leds = Some b \<and>
    (100 < unat (mRequestedLightPowerMw b) \<and> unat (mRequestedLightPowerMw b) \<le> 23468 \<longrightarrow>
      256 * unat (mActualLightPowerMw b) \<le> 26012 + unat (mRequestedLightPowerMw b))"
proof -
  define conv where "conv = \<lparr>mRedPowers = [] :: power list, mGreenPowers = [], mBluePowers = [], mWhitePowers = []\<rparr>"
  define v where "v = (\<lambda>(_ :: int) (_ :: int). \<lparr>pr = 255, pg = 255, pb = 255, pa = 255\<rparr>)"
  define l where "l = \<lparr>ledChain = 0, covers = \<lparr>rx = 0, ry = 0, rdx = 2, rdy = 1\<rparr>, offset = (0 :: int, 0 :: int)\<rparr>"
  have l: "mLedChains two_leds = [l]" "ledChain l = 0" "offset l = (0, 0)" by (simp_all add: two_leds_def l_def)
  have po: "puts_out (objs two_leds) 0 0" "rdx (covers l) \<le> getSizeX (objs two_leds ! 0)" "rdy (covers l) \<le> getSizeY (objs two_leds ! 0)"
    unfolding l_def by code_simp+
  have p: "mRootView two_leds" "(\<Sum>l\<leftarrow>mLedChains two_leds. length (cover_points l)) \<le> 21845"
    "8 = (\<Sum>l\<leftarrow>mLedChains two_leds. chain_idle (objs two_leds) l)" "100 = unat (mPowerLimitMw two_leds)"
    by code_simp+
  obtain w where w: "mLEDPowerConverter (objs two_leds ! 0) = Some w" by (simp add: two_leds_def)
  from one_chain_renders [OF po(1) w l(2,3) po(2,3), of conv v "mMainDim two_leds" 0] obtain out i lt where
    one: "render_chains conv v (mMainDim two_leds) 0 [l] (objs two_leds, 0, 0) =
      Some ((objs two_leds)[0 := (objs two_leds ! 0)\<lparr>mRawBuffer := Some out\<rparr>], i, lt)"
    and po1: "puts_out ((objs two_leds)[0 := (objs two_leds ! 0)\<lparr>mRawBuffer := Some out\<rparr>]) 0 0" by blast
  define cs where "cs = (objs two_leds)[0 := (objs two_leds ! 0)\<lparr>mRawBuffer := Some out\<rparr>]"
  have c0: "cs ! 0 = (objs two_leds ! 0)\<lparr>mRawBuffer := Some out\<rparr>" using po(1) by (simp add: cs_def puts_out_def)
  have sz: "getSizeX (cs ! 0) = getSizeX (objs two_leds ! 0)" "getSizeY (cs ! 0) = getSizeY (objs two_leds ! 0)"
    "mLEDPowerConverter (cs ! 0) = mLEDPowerConverter (objs two_leds ! 0)"
    unfolding c0 by (simp_all add: getSizeX_def getSizeY_def)
  have "\<exists>s. render_chains conv v (mMainDim two_leds) d [l] (cs, 0, 0) = Some s" for d
    using one_chain_renders [OF po1 [folded cs_def] _ l(2,3), of w conv v "mMainDim two_leds" d] po(2,3) w sz by auto
  note again = this
  from round_frame [of conv v two_leds 0, unfolded l(1), OF one [folded cs_def]] obtain A d where
    A: "render_round conv v 0 two_leds = Some (A, d)" "objs A = cs" "mLedChains A = [l]" "mMainDim A = mMainDim two_leds" by blast
  have "\<exists>s. render_round conv v d A = Some s" using again [of d] unfolding render_round_def A(2-4) by auto
  then obtain b where b: "renderViewState conv v two_leds = Some b"
    using A(1) p(1) by (cases "d = 0") (auto simp: renderViewState_def)
  from power_limit_holds_up_to_rounding [OF b p] have
    "100 < unat (mRequestedLightPowerMw b) \<and> unat (mRequestedLightPowerMw b) - 8 \<le> 255 * (100 - 8) \<longrightarrow>
       256 * unat (mActualLightPowerMw b) \<le> 256 * 100 + (unat (mRequestedLightPowerMw b) - 100) + 512 * length (mLedChains two_leds)"
    by simp
  then show ?thesis using b unfolding v_def conv_def l(1) by auto
qed

end
