(* ===== verification/LedStep.thy ===== *)
theory LedStep
  imports LedArrange StepFrame
begin

text \<open>
  The timing of the LED arrangement (\<open>LEDChainArrangement::step\<close> and its callers in \<open>ledchaincomm.cpp\<close>): when the view is
  stepped, rendered and put out, and the law that updates keep their distance.
\<close>

section \<open>The state and its surroundings\<close>


text \<open>
  The arrangement with the counters of the readings and of the steps of the view, the time of the next automatic
  step, the time its timer is set to, and the updates put out so far, with their times.
\<close>

record led_system =
  arr :: LEDChainArrangement
  readings :: nat
  viewsteps :: nat
  mNextAutoStep :: time
  mAutoStepTicket :: "time option"
  applied :: "(time \<times> show_action list) list"





section \<open>The parts of a step\<close>











section \<open>The callers\<close>











section \<open>Updates keep their distance\<close>

definition spaced :: "time \<Rightarrow> time list \<Rightarrow> bool" where
  "spaced d ts \<longleftrightarrow> (\<forall>i. Suc i < length ts \<longrightarrow> ts ! i + d \<le> ts ! Suc i)"


text \<open>The parts of the arrangement the distance depends on.\<close>

definition distance_ok :: "time \<Rightarrow> LEDChainArrangement \<Rightarrow> time list \<Rightarrow> bool" where
  "distance_ok d a ts \<longleftrightarrow>
     mMinUpdateInterval a = d \<and> spaced d ts \<and> (ts \<noteq> [] \<longrightarrow> mEarliestNextDispApply a = last ts + d) \<and>
     (DEFINED_TIME (mDispApplyPendingFor a) \<longrightarrow> mEarliestNextDispApply a \<le> mDispApplyPendingFor a)"

definition apply_times :: "led_system \<Rightarrow> time list" where
  "apply_times y = map fst (applied y)"

definition system_ok :: "time \<Rightarrow> led_system \<Rightarrow> bool" where
  "system_ok d y \<longleftrightarrow> distance_ok d (arr y) (apply_times y)"














section \<open>Every operation\<close>



lemma system_ok_next [simp]: "system_ok d (y\<lparr>arr := (arr y)\<lparr>mNextStepShowTime := t\<rparr>\<rparr>) = system_ok d y"
  by (simp add: system_ok_def distance_ok_def apply_times_def)


















end
