(* ===== verification/Spec2Isabelle.thy ===== *)
theory Spec2Isabelle
  imports StrOrder StrCodec Hashes TlvCodec OpQueue PixelColor ValueUnits ScriptLex ScriptEval ScriptFlow MainLoop ContextLaws TriggerLaws EventLaws FdLaws FdLines SerialLaws BuiltinLaws LockLaws
    LedUart LedPower LedStep
begin

text \<open>
  The verification library of p44utils, the C++ utilities of plan44.ch: the core of its script
  engine P44Script (\<open>p44script.cpp\<close>, \<open>p44script.hpp\<close>), its main loop (\<open>mainloop.cpp\<close>), its operation
  queue (\<open>operationqueue.cpp\<close>, \<open>serialqueue.cpp\<close>), its file descriptors (\<open>fdcomm.cpp\<close>), its LED chains (\<open>ledchaincomm.cpp\<close>), and its
  value codecs (\<open>utils.cpp\<close>, \<open>tlv.cpp\<close>, \<open>crc32.cpp\<close>, \<open>fnv.cpp\<close>, \<open>colorutils.cpp\<close>, \<open>valueunits.cpp\<close>).

  \<^bold>\<open>The parts and how they interact.\<close> A script host gives a source text to the compiler, which is
  a source processor that only scans; what it defines (functions, handlers) are code objects with a
  cursor into the source. A script context executes code objects in threads. A thread is a source
  processor too: a state machine that reads the source with a cursor, keeps a stack of states to
  return to, and computes values. Statements, expressions, calls and literals are handlers of
  this machine; values that are shared (arrays, objects, variables) live in a heap. A thread asks its
  context for calls and further threads, is resumed with their results, and reports its own
  result by a callback. Triggers evaluate expressions when events come in or time has passed. All this runs
  in the callbacks of the main loop, which runs timers when they are due and sleeps between them. An LED arrangement steps a
  view with such timers, renders it into the buffers of its chains and puts these out to their devices.

  \<^bold>\<open>Theories.\<close>
  \<^item> \<open>Prelude\<close>: machine types, characters, C strings, list and word lemmas. \<open>F64\<close>: the \<open>double\<close> of
    C++ by exact rationals and rounding to nearest even. \<open>Clib\<close>: the scanning functions of the C library.
    \<open>F64Quot\<close>: where doubles compute integers exactly. \<open>StepFrame\<close>: the interfaces of step relations that go
    up in a preorder, and of operations that keep an invariant.
  \<^item> \<open>StrUtil\<close>: the string helpers of \<open>utils.cpp\<close>. \<open>StrOrder\<close> shows what comparison decides, \<open>StrCodec\<close>
    the round trips of hexadecimal strings and addresses, and a substitution that never ends.
  \<^item> \<open>Hashes\<close>: CRC-32 and FNV-1a. \<open>Tlv\<close>: the tag-length-value writer and reader; \<open>TlvCodec\<close> has the
    encoding as a specification on trees, that the writer produces it and the reader reads it back.
    \<open>PixelColor\<close>: integer pixel arithmetic and web colours. \<open>ValueUnits\<close>: units and scalings by name.
  \<^item> \<open>OpQueue\<close>: the operation queue with chaining, delays and timeouts: the order in which it initiates, that it
    loses no callback but those of chains it drops, and that it ends.
  \<^item> \<open>TimeBase\<close>, \<open>Timers\<close>: the timer queue of the main loop; \<open>TimerLaws\<close> shows that it stays sorted, what
    runs and in which order, and that what was cancelled does not. \<open>MainLoop\<close>: the cycle around it.
  \<^item> \<open>FdComm\<close>: input and output on a descriptor the main loop watches. \<open>FdLaws\<close>: sent bytes leave in order, and all;
    \<open>FdLines\<close>: delimited strings arrive whole. \<open>SerialQueue\<close>: operations that send and receive bytes, in an operation
    queue; \<open>SerialLaws\<close>: all bytes are accounted for and the buffer is bounded.
  \<^item> \<open>LedChain\<close>: a chain of LEDs, its power tables, geometry and buffer; \<open>LedUart\<close>: the signal on a serial line, and that it is
    the one the chips expect. \<open>LedGrid\<close>: points have LEDs of their own. \<open>LedArrange\<close>: chains from specifications, rendering
    with a limit of the power; \<open>LedLaws\<close>, \<open>LedPower\<close>: what rendering puts into the buffers, the covered area, and how well the
    limit is kept. \<open>LedStep\<close>: the timing of steps, rendering and output, and that updates keep their distance.
  \<^item> \<open>ScriptCursor\<close>, \<open>ScriptLiteral\<close>: the class \<open>SourceCursor\<close>; \<open>ScriptLex\<close> its promises.
  \<^item> \<open>ScriptValue\<close>: type flags, errors and the constructors of values (\<open>ScriptObj\<close> and its subclasses).
    \<open>ScriptHeap\<close>: containers, lvalues, copies, conversions, comparison and arithmetic.
  \<^item> \<open>ScriptProc\<close>: the record \<open>proc\<close> of \<open>SourceProcessor\<close> with the parts that \<open>ScriptCodeThread\<close> and
    \<open>ScriptCompiler\<close> add (the flag \<open>isCompiler\<close> tells which virtual methods apply), its stack, completing,
    throwing, member lookup, calls and definitions. \<open>ScriptExpr\<close> and \<open>ScriptStmt\<close>: a definition for every
    state handler \<open>s_...\<close>, with the name of the method; \<open>handler\<close> is the table of states.
    \<open>ScriptMachine\<close>: steps, step loops, starting, resuming and aborting, and the relation \<open>thread_step\<close>.
  \<^item> \<open>ScriptFrame\<close>, \<open>ScriptThread\<close>: what every handler keeps; hence a thread reports once, and no step stalls. \<open>ScriptSkip\<close>: skipped code has no effects. \<open>ScriptEval\<close>: expressions
    are evaluated as a reference evaluator on syntax trees does. \<open>ScriptFlow\<close>: errors, branches and loops.
  \<^item> \<open>ScriptContext\<close>: the threads of contexts, their queues and how they end; \<open>ContextLaws\<close>: queued
    executions take turns, and what callers are not told.
  \<^item> \<open>ScriptTrigger\<close>: \<open>CompiledTrigger\<close>, from an event or a timer to the evaluation that begins, and from its result
    to the firing; the evaluation itself is a thread. \<open>TriggerLaws\<close>: which evaluations fire, with and without a hold-off, one-shot
    and initial ones included.
  \<^item> \<open>ScriptEvents\<close>: event sources, sinks and the delivery of events. \<open>EventLaws\<close>: both sides agree who is
    registered, all sinks get an event as long as what they do settles, and the reactions for which delivery does not end.
  \<^item> \<open>ScriptBuiltins\<close>: built-in functions on numbers, bits, strings and errors, on their checked arguments.
    \<open>BuiltinLaws\<close>: bits are read as set, what is found is there, and the cyclic range.
  \<^item> \<open>ScriptLock\<close>: calls of built-in functions that finish later, chains of threads, and lock objects. \<open>LockLaws\<close>: at
    most one chain holds a lock, the longest waiting gets it, calls report once, and how a lock is lost.

  \<^bold>\<open>How the state corresponds to the code.\<close> A member \<open>mXyz\<close> of a class is a field of the same
  name of its record. Pointers to objects that are shared are indices: \<open>pHeap\<close> for containers,
  \<open>pObjects\<close> for executable objects, \<open>pCalls\<close> for prepared calls, \<open>pHelpers\<close> for loop
  controllers. Null pointers are \<open>None\<close>; a definition that has \<open>option\<close> in its result
  gives \<open>None\<close> where the code dereferences null. A method that calls \<open>resume\<close> sets \<open>mResumed\<close>. Calls
  that leave the modelled part (completion callbacks, events, the owner) are appended to lists.
  A thread value is an object that says whether its thread runs or with which value it
  has ended (\<open>threadend\<close>); the event of the end is the step \<open>exited\<close> of \<open>thread_step\<close>. Script numbers are \<open>f64\<close>, flags are words of
  32 bits, times are \<open>int\<close>. LED chains are indices into \<open>objs\<close> of the arrangement; the view and the exponential function of the C
  library are parameters, as are the clock and the results of opening devices.

  \<^bold>\<open>Bounds and fuel.\<close> \<open>thread_stepLoop\<close> takes the number of steps until the clock shows that the
  run time or block time of the thread is over; the theorem on expressions shows that from some
  number on all numbers give the same result. \<open>sp_stepLoop\<close>, the loop of the compiler, has no limit
  in the code and is a partial function, and so are the substitution, the break point check and the
  abort loop of the operation queue, and so is the delivery of events. Comparing, copying and converting nested values takes a bound on the nesting, for
  which the callers use the size of the heap; on a cyclic heap the code does not end. The loops of
  \<open>checkTimers\<close>, of the main loop and of the operation queue take a list with the clock readings and what the callbacks
  do in each round; when the list is used up the result is \<open>None\<close>, and theorems give lists that are long enough.

  \<^bold>\<open>Not modelled.\<close> The built-in functions of scripts on time, random numbers, trigonometry, formatting, files and
  processes, the JSON text of values (an argument of the model), pausing and break points for the debugger, reference counting (it only decides when objects go away), the
  caught flag of an error object shared by several values (it is kept with each value), sources in
  files, network, user interface and database classes and the hardware drivers other than LED chains (of these, the sender thread and
  the variants for ESP32 and \<open>rpi_ws281x\<close>), which wrap system calls and
  libraries that are not part of the repository or only vendored in it, logging, and the variants of the main
  loop for libev and ESP32.
\<close>

end
